(* ===== verification/Prelude.thy ===== *)
theory Prelude
  imports Main "HOL-Library.Word"
begin

unbundle bit_operations_syntax

text \<open>
  What every component of the development shares: the error values of \<^verbatim>\<open>src/errors/errors.go\<close>,
  the run-time failures of Go as values, byte slices with Go's bounds checks, \<^verbatim>\<open>copy\<close>, and the
  fixed-width integer encodings of \<^verbatim>\<open>encoding/binary\<close>.

  A Go function that returns \<^verbatim>\<open>(T, error)\<close> and may panic is modelled by a value of type
  \<open>'a res\<close>: \<open>Inl (Err e)\<close> is a returned error, \<open>Inl (Panic p)\<close> a panic and \<open>Inr x\<close> a normal
  result. A slice is the list of its elements; its capacity is taken to be its length, so that
  re-slicing beyond the length is a panic.
\<close>

section \<open>Failures\<close>

datatype error =
    UnimplementedError | UnrecognizedError | SignatureError | LengthInvalidError
  | BadElementError | GroupAgreementError | ClientNotFoundError | KeyNotFound | Duplicate
  | MissingMessages | BadMetadataError | WrongServerError | DecryptionFailure | ProofFailure
  | TokenInvalid | CommitFailure | WrongReceipt | LinkOverflow | SynchronizationError
  | ErrInvalidPoint | ErrPointOffCurve | LibraryError

datatype panic =
    PanicError error | PanicMessage string | IndexOutOfRange | SliceBounds | NilDereference
  | DivideByZero | NegativeLength | LogFatal

datatype failure = Err error | Panic panic

type_synonym 'a res = "failure + 'a"

definition sbind :: "'e + 'a \<Rightarrow> ('a \<Rightarrow> 'e + 'b) \<Rightarrow> 'e + 'b" where
  "sbind m f = (case m of Inl e \<Rightarrow> Inl e | Inr x \<Rightarrow> f x)"

definition guard :: "bool \<Rightarrow> failure \<Rightarrow> unit res" where
  "guard c e = (if c then Inr () else Inl e)"

definition of_option :: "failure \<Rightarrow> 'a option \<Rightarrow> 'a res" where
  "of_option e x = (case x of None \<Rightarrow> Inl e | Some y \<Rightarrow> Inr y)"

named_theorems go_simps \<open>evaluation rules of the Go primitives\<close>

lemma sbind_Inl [simp, go_simps]: "sbind (Inl e) f = Inl e"
  by (simp add: sbind_def)

lemma sbind_Inr [simp, go_simps]: "sbind (Inr x) f = f x"
  by (simp add: sbind_def)

lemma sbind_eq_Inr [simp]: "sbind m f = Inr y \<longleftrightarrow> (\<exists>x. m = Inr x \<and> f x = Inr y)"
  by (cases m) auto

lemma sbind_eq_Inl: "sbind m f = Inl e \<longleftrightarrow> m = Inl e \<or> (\<exists>x. m = Inr x \<and> f x = Inl e)"
  by (cases m) auto

lemma sbind_assoc: "sbind (sbind m f) g = sbind m (\<lambda>x. sbind (f x) g)"
  by (cases m) auto

lemma sbind_cong [fundef_cong]:
  "m = m' \<Longrightarrow> (\<And>x. m' = Inr x \<Longrightarrow> f x = g x) \<Longrightarrow> sbind m f = sbind m' g"
  by (cases m') auto

lemma guard_True [simp, go_simps]: "guard True e = Inr ()"
  by (simp add: guard_def)

lemma guard_False [simp, go_simps]: "guard False e = Inl e"
  by (simp add: guard_def)

lemma guard_eq_Inr [simp]: "guard c e = Inr u \<longleftrightarrow> c"
  by (simp add: guard_def)

lemma guard_eq_Inl [simp]: "guard c e = Inl f \<longleftrightarrow> \<not> c \<and> f = e"
  by (auto simp: guard_def)

lemma of_option_Some [simp, go_simps]: "of_option e (Some x) = Inr x"
  by (simp add: of_option_def)

lemma of_option_None [simp, go_simps]: "of_option e None = Inl e"
  by (simp add: of_option_def)

lemma of_option_eq_Inr [simp]: "of_option e x = Inr y \<longleftrightarrow> x = Some y"
  by (cases x) auto

lemma of_option_eq_Inl [simp]: "of_option e x = Inl f \<longleftrightarrow> x = None \<and> f = e"
  by (cases x) auto

section \<open>Slices\<close>

type_synonym byte = "8 word"
type_synonym bytes = "byte list"

definition slice :: "'a list \<Rightarrow> nat \<Rightarrow> nat \<Rightarrow> 'a list res" where
  "slice b i j = (if i \<le> j \<and> j \<le> length b then Inr (take (j - i) (drop i b)) else Inl (Panic SliceBounds))"

definition go_index :: "'a list \<Rightarrow> nat \<Rightarrow> 'a res" where
  "go_index b i = (if i < length b then Inr (b ! i) else Inl (Panic IndexOutOfRange))"

text \<open>An index of type \<^verbatim>\<open>int\<close> may be negative.\<close>

definition go_index_int :: "'a list \<Rightarrow> int \<Rightarrow> 'a res" where
  "go_index_int b i = (if 0 \<le> i \<and> i < int (length b) then Inr (b ! nat i) else Inl (Panic IndexOutOfRange))"

definition go_store :: "'a list \<Rightarrow> nat \<Rightarrow> 'a \<Rightarrow> 'a list res" where
  "go_store b i x = (if i < length b then Inr (b[i := x]) else Inl (Panic IndexOutOfRange))"

definition go_store_int :: "'a list \<Rightarrow> int \<Rightarrow> 'a \<Rightarrow> 'a list res" where
  "go_store_int b i x =
     (if 0 \<le> i \<and> i < int (length b) then Inr (b[nat i := x]) else Inl (Panic IndexOutOfRange))"

text \<open>\<open>go_copy dst src\<close> is the content of \<^verbatim>\<open>dst\<close> after \<^verbatim>\<open>copy(dst, src)\<close>;
  \<open>copy_at b i src\<close> that of \<^verbatim>\<open>b\<close> after \<^verbatim>\<open>copy(b[i:], src)\<close> with \<open>i \<le> len(b)\<close>.\<close>

definition go_copy :: "'a list \<Rightarrow> 'a list \<Rightarrow> 'a list" where
  "go_copy dst src = take (length dst) src @ drop (length src) dst"

definition copy_at :: "'a list \<Rightarrow> nat \<Rightarrow> 'a list \<Rightarrow> 'a list" where
  "copy_at b i src = take i b @ go_copy (drop i b) src"

definition zeros :: "nat \<Rightarrow> bytes" where
  "zeros n = replicate n 0"

lemma length_zeros [simp]: "length (zeros n) = n"
  by (simp add: zeros_def)

lemma length_go_copy [simp]: "length (go_copy dst src) = length dst"
  by (simp add: go_copy_def)

lemma length_copy_at [simp]: "i \<le> length b \<Longrightarrow> length (copy_at b i src) = length b"
  by (simp add: copy_at_def)

lemma go_copy_same_length [simp]: "length dst = length src \<Longrightarrow> go_copy dst src = src"
  by (simp add: go_copy_def)

lemma copy_at_exact: "i + length src = length b \<Longrightarrow> copy_at b i src = take i b @ src"
  by (simp add: copy_at_def)

lemma copy_at_append:
  "length xs = i \<Longrightarrow> length src = length ys \<Longrightarrow> copy_at (xs @ ys @ zs) i src = xs @ src @ zs"
  by (simp add: copy_at_def go_copy_def)

lemma slice_eq_Inr:
  "slice b i j = Inr s \<longleftrightarrow> i \<le> j \<and> j \<le> length b \<and> s = take (j - i) (drop i b)"
  by (auto simp: slice_def)

lemma slice_length: "slice b i j = Inr s \<Longrightarrow> length s = j - i"
  by (auto simp: slice_def split: if_splits)

lemma slice_ok [go_simps]: "i \<le> j \<Longrightarrow> j \<le> length b \<Longrightarrow> slice b i j = Inr (take (j - i) (drop i b))"
  by (simp add: slice_def)

lemma slice_append_left [simp]: "length xs = n \<Longrightarrow> slice (xs @ ys) 0 n = Inr xs"
  by (simp add: slice_def)

lemma slice_append_mid:
  "length xs = i \<Longrightarrow> length ys = j - i \<Longrightarrow> i \<le> j \<Longrightarrow> slice (xs @ ys @ zs) i j = Inr ys"
  by (simp add: slice_def)

lemma go_index_eq_Inr [simp]: "go_index b i = Inr x \<longleftrightarrow> i < length b \<and> x = b ! i"
  by (auto simp: go_index_def)

lemma go_store_eq_Inr [simp]: "go_store b i x = Inr c \<longleftrightarrow> i < length b \<and> c = b[i := x]"
  by (auto simp: go_store_def)

lemma go_index_ok [go_simps]: "i < length b \<Longrightarrow> go_index b i = Inr (b ! i)"
  by simp

section \<open>Fixed-width integers on the wire\<close>

text \<open>
  \<open>put_le n x\<close> are the \<open>n\<close> bytes that \<^verbatim>\<open>binary.LittleEndian.PutUint\<close> writes for the two's
  complement conversion of \<open>x\<close> to an unsigned integer of \<open>n\<close> bytes, \<open>get_le\<close> is the unsigned
  reading of a slice. \<open>get_be\<close> is the big-endian reading.
\<close>

fun put_le :: "nat \<Rightarrow> int \<Rightarrow> bytes" where
  "put_le 0 x = []"
| "put_le (Suc n) x = word_of_int x # put_le n (x div 256)"

fun get_le :: "bytes \<Rightarrow> int" where
  "get_le [] = 0"
| "get_le (b # bs) = uint b + 256 * get_le bs"

definition get_be :: "bytes \<Rightarrow> int" where
  "get_be bs = get_le (rev bs)"

text \<open>\<^verbatim>\<open>int32(x)\<close> for an unsigned 32 bit value, and \<^verbatim>\<open>int64(x)\<close> for an unsigned 64 bit one.\<close>

definition to_int32 :: "int \<Rightarrow> int" where
  "to_int32 x = sint (word_of_int x :: 32 word)"

definition to_int64 :: "int \<Rightarrow> int" where
  "to_int64 x = sint (word_of_int x :: 64 word)"

lemma length_put_le [simp]: "length (put_le n x) = n"
  by (induction n arbitrary: x) auto

lemma get_le_nonneg [simp]: "0 \<le> get_le bs"
  by (induction bs) auto

lemma get_le_bound: "get_le bs < 256 ^ length bs"
proof (induction bs)
  case Nil
  then show ?case by simp
next
  case (Cons b bs)
  have "uint b < 256" using uint_lt2p [of b] by simp
  with Cons have "uint b + 256 * get_le bs < 256 * 256 ^ length bs" by linarith
  then show ?case by simp
qed

lemma get_put_le: "get_le (put_le n x) = x mod 256 ^ n"
proof (induction n arbitrary: x)
  case 0
  then show ?case by simp
next
  case (Suc n)
  have "get_le (put_le (Suc n) x) = x mod 256 + 256 * (x div 256 mod 256 ^ n)"
    using Suc by (simp add: unsigned_of_int take_bit_int_def)
  also have "\<dots> = x mod (256 * 256 ^ n)"
    by (simp add: zmod_zmult2_eq)
  finally show ?case by simp
qed

lemma put_get_le: "put_le (length bs) (get_le bs) = bs"
proof (induction bs)
  case Nil
  then show ?case by simp
next
  case (Cons b bs)
  have lt: "0 \<le> uint b" "uint b < 256" using uint_lt2p [of b] by simp_all
  have "(uint b + 256 * get_le bs) div 256 = get_le bs" using lt by simp
  moreover have "word_of_int (uint b + 256 * get_le bs) = b"
  proof -
    have "word_of_int (256 * get_le bs) = (0 :: byte)"
      by (rule trans [OF iffD2 [OF word_of_int_eq_iff [where l = 0]]])
        (simp_all add: take_bit_int_def)
    then show ?thesis by (simp add: wi_hom_add [symmetric])
  qed
  ultimately show ?case using Cons by simp
qed

lemma get_put_le_id: "0 \<le> x \<Longrightarrow> x < 256 ^ n \<Longrightarrow> get_le (put_le n x) = x"
  by (simp add: get_put_le)

lemma get_le_append: "get_le (xs @ ys) = get_le xs + 256 ^ length xs * get_le ys"
  by (induction xs) (auto simp: algebra_simps)

lemma get_be_bound: "get_be bs < 256 ^ length bs"
  using get_le_bound [of "rev bs"] by (simp add: get_be_def)

lemma get_be_nonneg [simp]: "0 \<le> get_be bs"
  by (simp add: get_be_def)

lemma put_le_mod: "put_le n (x mod 256 ^ n) = put_le n x"
proof -
  have "put_le n (get_le (put_le n x)) = put_le n x"
    using put_get_le [of "put_le n x"] by simp
  then show ?thesis by (simp add: get_put_le)
qed

lemma put_le_inj_mod: "put_le n x = put_le n y \<longleftrightarrow> x mod 256 ^ n = y mod 256 ^ n"
  by (metis get_put_le put_le_mod)

lemma to_int32_id: "- (2 ^ 31) \<le> x \<Longrightarrow> x < 2 ^ 31 \<Longrightarrow> to_int32 (x mod 2 ^ 32) = x"
proof -
  assume b: "- (2 ^ 31) \<le> x" "x < 2 ^ 31"
  have "(word_of_int (x mod 2 ^ 32) :: 32 word) = word_of_int x"
    by (simp only: word_of_int_eq_iff) (simp add: take_bit_int_def)
  then show ?thesis
    using b by (simp add: to_int32_def sint_sbintrunc' signed_take_bit_int_eq_self_iff)
qed

lemma to_int32_mod: "to_int32 x mod 2 ^ 32 = x mod 2 ^ 32"
proof -
  have "take_bit 32 (to_int32 x) = uint (word_of_int x :: 32 word)"
    unfolding to_int32_def using uint_sint [of "word_of_int x :: 32 word"] by simp
  then show ?thesis by (simp add: unsigned_of_int take_bit_int_def)
qed

lemma to_int32_range: "- (2 ^ 31) \<le> to_int32 x" "to_int32 x < 2 ^ 31"
  using sint_range_size [of "word_of_int x :: 32 word"] by (simp_all add: to_int32_def word_size)

lemma to_int64_id: "- (2 ^ 63) \<le> x \<Longrightarrow> x < 2 ^ 63 \<Longrightarrow> to_int64 (x mod 2 ^ 64) = x"
proof -
  assume b: "- (2 ^ 63) \<le> x" "x < 2 ^ 63"
  have "(word_of_int (x mod 2 ^ 64) :: 64 word) = word_of_int x"
    by (simp only: word_of_int_eq_iff) (simp add: take_bit_int_def)
  then show ?thesis
    using b by (simp add: to_int64_def sint_sbintrunc' signed_take_bit_int_eq_self_iff)
qed

end
