(* ===== verification/Codec.thy ===== *)
theory Codec
  imports Prelude
begin

text \<open>
  The contract of the wire formats. Every message type of the program has a \<^verbatim>\<open>PackTo\<close> or \<^verbatim>\<open>Marshal\<close>
  and an \<^verbatim>\<open>InterpretFrom\<close> (\<^verbatim>\<open>RPCMessage\<close> in \<^verbatim>\<open>src/network/messages/messages.go\<close>); the locale
  \<open>wire_codec\<close> states what a user of such a pair relies on, and derives what holds of a batch of
  encoded messages that is sent as one stream and cut into messages of equal size by the reader.
\<close>

function chunks :: "nat \<Rightarrow> 'a list \<Rightarrow> 'a list list" where
  "chunks n xs = (if n = 0 \<or> xs = [] then [] else take n xs # chunks n (drop n xs))"
  by pat_completeness auto
termination
  by (relation "measure (\<lambda>(n, xs). length xs)") auto

declare chunks.simps [simp del]

lemma chunks_Nil [simp]: "chunks n [] = []"
  by (simp add: chunks.simps)

lemma chunks_append:
  "0 < n \<Longrightarrow> length x = n \<Longrightarrow> chunks n (x @ xs) = x # chunks n xs"
  by (subst chunks.simps) auto

lemma chunks_concat:
  "0 < n \<Longrightarrow> \<forall>x \<in> set xss. length x = n \<Longrightarrow> chunks n (concat xss) = xss"
  by (induction xss) (auto simp: chunks_append)

lemma concat_chunks: "0 < n \<Longrightarrow> concat (chunks n xs) = xs"
proof (induction n xs rule: chunks.induct)
  case (1 n xs)
  then show ?case by (subst chunks.simps) auto
qed

lemma length_concat_const:
  "\<forall>x \<in> set xss. length x = n \<Longrightarrow> length (concat xss) = length xss * n"
  by (induction xss) auto

locale wire_codec =
  fixes pack :: "'a \<Rightarrow> bytes res"
    and parse :: "bytes \<Rightarrow> 'a res"
    and wf :: "'a \<Rightarrow> bool"
    and size_of :: "'a \<Rightarrow> nat"
  assumes pack_parse: "wf x \<Longrightarrow> \<exists>b. pack x = Inr b \<and> length b = size_of x \<and> parse b = Inr x"
begin

lemma packed:
  assumes "wf x" "pack x = Inr b"
  shows "length b = size_of x" "parse b = Inr x"
  using pack_parse [OF assms(1)] assms(2) by auto

lemma pack_total: "wf x \<Longrightarrow> \<exists>b. pack x = Inr b"
  using pack_parse by blast

lemma pack_inj: "wf x \<Longrightarrow> wf y \<Longrightarrow> pack x = pack y \<Longrightarrow> x = y"
  by (metis pack_parse sum.inject(2))

lemma batch_packed:
  assumes "\<forall>x \<in> set xs. wf x \<and> size_of x = n" "map pack xs = map Inr bs"
  shows "\<forall>b \<in> set bs. length b = n" "map parse bs = map Inr xs"
proof -
  have "list_all2 (\<lambda>x b. length b = n \<and> parse b = Inr x) xs bs"
    using assms
  proof (induction xs arbitrary: bs)
    case (Cons x xs)
    then obtain b bs' where "bs = b # bs'" by (cases bs) auto
    then show ?case using Cons.IH [of bs'] Cons.prems packed [of x b] by simp
  qed simp
  then show "\<forall>b \<in> set bs. length b = n" "map parse bs = map Inr xs"
    by (induction rule: list_all2_induct) auto
qed

text \<open>A batch of messages of one size is recovered from the byte stream they are sent as.\<close>

lemma batch_roundtrip:
  assumes "\<forall>x \<in> set xs. wf x \<and> size_of x = n" "map pack xs = map Inr bs" "0 < n"
  shows "map parse (chunks n (concat bs)) = map Inr xs" "length (concat bs) = length xs * n"
proof -
  note b = batch_packed [OF assms(1,2)]
  show "map parse (chunks n (concat bs)) = map Inr xs"
    using chunks_concat [OF assms(3) b(1)] b(2) by simp
  have "length bs = length xs" using b(2) by (metis length_map)
  then show "length (concat bs) = length xs * n" using length_concat_const [OF b(1)] by simp
qed

end

end
