(* ===== verification/Crypto.thy ===== *)
theory Crypto
  imports Prelude
begin

text \<open>
  The package \<^verbatim>\<open>src/crypto\<close>: Diffie-Hellman keys (\<^verbatim>\<open>dhkx.go\<close>), Ed25519 signatures
  (\<^verbatim>\<open>signatures.go\<close>, \<^verbatim>\<open>ed25519ph.go\<close>) and the encrypt-then-sign boxes of \<^verbatim>\<open>sigcryption.go\<close>.

  The third-party packages \<^verbatim>\<open>filippo.io/edwards25519\<close> and \<^verbatim>\<open>curve25519-voi\<close>, the AES block cipher
  and the SHA-2 hashes are the fields of the record \<open>lib\<close>, which every definition that calls them
  takes as an argument. What the code relies on is stated by the predicates \<open>aes_ok\<close>, \<open>sig_ok\<close>,
  \<open>point_ok\<close>, \<open>dh_ok\<close> and \<open>key_ok\<close>. The counter mode around the block cipher is modelled.
  The lemmas show that a sealed box opens to its message, that its signature is the one a server
  checks after it has written its own nonce in front of the box, and that no box or key length
  makes a result other than the failures listed.
\<close>

section \<open>The libraries the package calls\<close>

record ('s, 'p) lib =
  ed_sign :: "bytes \<Rightarrow> bytes \<Rightarrow> bytes"
  ed_verify :: "bytes \<Rightarrow> bytes \<Rightarrow> bytes \<Rightarrow> bool"
  ed_public :: "bytes \<Rightarrow> bytes"
  ed_seed :: "bytes \<Rightarrow> bytes"
  ed_expandable :: "bytes \<Rightarrow> bool"
  ph_sign :: "bytes \<Rightarrow> bytes \<Rightarrow> bytes"
  ph_verify :: "bytes \<Rightarrow> bytes \<Rightarrow> bytes \<Rightarrow> bool"
  pt_decode :: "bytes \<Rightarrow> 'p option"
  pt_encode :: "'p \<Rightarrow> bytes"
  pt_mul :: "'s \<Rightarrow> 'p \<Rightarrow> 'p"
  pt_base_mul :: "'s \<Rightarrow> 'p"
  pt_add :: "'p \<Rightarrow> 'p \<Rightarrow> 'p"
  pt_zero :: "'p"
  sc_add :: "'s \<Rightarrow> 's \<Rightarrow> 's"
  sc_neg :: "'s \<Rightarrow> 's"
  sc_canonical :: "bytes \<Rightarrow> 's option"
  sc_clamp :: "bytes \<Rightarrow> 's option"
  sc_uniform :: "bytes \<Rightarrow> 's option"
  sc_bytes :: "'s \<Rightarrow> bytes"
  aes_block :: "bytes \<Rightarrow> bytes \<Rightarrow> bytes"
  sha256 :: "bytes \<Rightarrow> bytes"
  sha512 :: "bytes \<Rightarrow> bytes"

definition SIGNATURE_SIZE :: nat where "SIGNATURE_SIZE = 64"
definition VERIFICATION_KEY_SIZE :: nat where "VERIFICATION_KEY_SIZE = 32"
definition KEY_SIZE :: nat where "KEY_SIZE = VERIFICATION_KEY_SIZE"
definition POINT_SIZE :: nat where "POINT_SIZE = 32"
definition SCALAR_SIZE :: nat where "SCALAR_SIZE = 32"
definition NONCE_SIZE :: nat where "NONCE_SIZE = 24"
definition SymmetricKeySize :: nat where "SymmetricKeySize = 16"
definition Overhead :: nat where "Overhead = SIGNATURE_SIZE"

named_theorems size_defs \<open>the size constants\<close>

lemmas crypto_sizes [size_defs] =
  SIGNATURE_SIZE_def VERIFICATION_KEY_SIZE_def KEY_SIZE_def POINT_SIZE_def SCALAR_SIZE_def
  NONCE_SIZE_def SymmetricKeySize_def Overhead_def

text \<open>Documented behaviour of the libraries: block size of AES; length and correctness of Ed25519
  signatures; encodings of curve points; commutation of scalar multiplications of the base point;
  and the relation between an Ed25519 key and its clamped scalar.\<close>

definition aes_ok :: "('s, 'p) lib \<Rightarrow> bool" where
  "aes_ok L \<longleftrightarrow> (\<forall>k b. length (aes_block L k b) = 16)"

definition sig_ok :: "('s, 'p) lib \<Rightarrow> bool" where
  "sig_ok L \<longleftrightarrow> (\<forall>k m. length (ed_sign L k m) = SIGNATURE_SIZE \<and>
                       ed_verify L (ed_public L k) m (ed_sign L k m) \<and>
                       length (ed_public L k) = VERIFICATION_KEY_SIZE)"

definition point_ok :: "('s, 'p) lib \<Rightarrow> bool" where
  "point_ok L \<longleftrightarrow> (\<forall>p. length (pt_encode L p) = POINT_SIZE \<and> pt_decode L (pt_encode L p) = Some p)"

definition dh_ok :: "('s, 'p) lib \<Rightarrow> bool" where
  "dh_ok L \<longleftrightarrow> (\<forall>a b. pt_mul L a (pt_base_mul L b) = pt_mul L b (pt_base_mul L a))"

definition key_ok :: "('s, 'p) lib \<Rightarrow> bool" where
  "key_ok L \<longleftrightarrow> (\<forall>k s. sc_clamp L (take 32 (sha512 L (ed_seed L k))) = Some s \<longrightarrow>
                       pt_decode L (ed_public L k) = Some (pt_base_mul L s))"

definition lib_ok :: "('s, 'p) lib \<Rightarrow> bool" where
  "lib_ok L \<longleftrightarrow> aes_ok L \<and> sig_ok L \<and> point_ok L \<and> dh_ok L \<and> key_ok L"

section \<open>Keys and signatures\<close>

type_synonym verification_key = bytes
type_synonym signing_key = bytes
type_synonym signature = bytes
type_synonym lookup_key = bytes
type_synonym shared_key = bytes

definition Sign :: "('s, 'p) lib \<Rightarrow> signing_key \<Rightarrow> bytes \<Rightarrow> signature" where
  "Sign L key message = ed_sign L key message"

definition SignData :: "('s, 'p) lib \<Rightarrow> signing_key \<Rightarrow> bytes \<Rightarrow> bytes" where
  "SignData L key data = Sign L key data"

definition Verify :: "('s, 'p) lib \<Rightarrow> verification_key \<Rightarrow> bytes \<Rightarrow> signature \<Rightarrow> bool" where
  "Verify L k m s = ed_verify L k m s"

definition VerifyMessage :: "('s, 'p) lib \<Rightarrow> verification_key \<Rightarrow> bytes \<Rightarrow> signature \<Rightarrow> bool" where
  "VerifyMessage L key m s = Verify L key m s"

text \<open>An expanded key is the key it was made from; verification with it agrees with plain verification.\<close>

definition ExpandKey :: "('s, 'p) lib \<Rightarrow> verification_key \<Rightarrow> verification_key res" where
  "ExpandKey L k = (if ed_expandable L k then Inr k else Inl (Err LibraryError))"

definition VerifyExpanded :: "('s, 'p) lib \<Rightarrow> verification_key \<Rightarrow> bytes \<Rightarrow> signature \<Rightarrow> bool" where
  "VerifyExpanded L v m s = ed_verify L v m s"

definition vk_PackTo :: "verification_key \<Rightarrow> bytes \<Rightarrow> bytes res" where
  "vk_PackTo p b =
     (if length b \<noteq> VERIFICATION_KEY_SIZE then Inl (Panic (PanicError LengthInvalidError))
      else Inr (go_copy b p))"

definition vk_InterpretFrom :: "bytes \<Rightarrow> verification_key res" where
  "vk_InterpretFrom b =
     (if length b \<noteq> VERIFICATION_KEY_SIZE then Inl (Err LengthInvalidError) else Inr b)"

definition vk_Copy :: "verification_key \<Rightarrow> verification_key" where
  "vk_Copy p = go_copy (zeros VERIFICATION_KEY_SIZE) p"

definition LookupKey :: "verification_key \<Rightarrow> lookup_key" where
  "LookupKey d = go_copy (zeros KEY_SIZE) d"

definition ToCurvePoint :: "('s, 'p) lib \<Rightarrow> verification_key \<Rightarrow> 'p res" where
  "ToCurvePoint L p = of_option (Err LibraryError) (pt_decode L p)"

definition ToScalar :: "('s, 'p) lib \<Rightarrow> signing_key \<Rightarrow> 's res" where
  "ToScalar L p = of_option (Err LibraryError) (sc_clamp L (take 32 (sha512 L (ed_seed L p))))"

definition sig_InterpretFrom :: "bytes \<Rightarrow> signature res" where
  "sig_InterpretFrom b =
     (if length b \<noteq> SIGNATURE_SIZE then Inl (Err LengthInvalidError)
      else Inr (go_copy (zeros SIGNATURE_SIZE) b))"

definition PreHashSign :: "('s, 'p) lib \<Rightarrow> bytes \<Rightarrow> signing_key \<Rightarrow> signature" where
  "PreHashSign L m key = ph_sign L key (sha512 L m)"

text \<open>The hash state \<^verbatim>\<open>h\<close> is the list of bytes written to it.\<close>

definition PreHashVerify :: "('s, 'p) lib \<Rightarrow> bytes \<Rightarrow> verification_key \<Rightarrow> signature \<Rightarrow> bool" where
  "PreHashVerify L h vk s = ph_verify L vk (sha512 L h) s"

section \<open>Diffie-Hellman\<close>

definition dh_Mul :: "('s, 'p) lib \<Rightarrow> 's \<Rightarrow> 'p \<Rightarrow> 'p" where
  "dh_Mul L d pk = pt_mul L d pk"

definition SharedKey :: "('s, 'p) lib \<Rightarrow> 's \<Rightarrow> 'p \<Rightarrow> shared_key" where
  "SharedKey L d pk = pt_encode L (dh_Mul L d pk)"

definition PublicKey :: "('s, 'p) lib \<Rightarrow> 's \<Rightarrow> 'p" where
  "PublicKey L d = pt_base_mul L d"

definition RandomCurveScalar :: "('s, 'p) lib \<Rightarrow> bytes \<Rightarrow> 's res" where
  "RandomCurveScalar L randomBytes =
     of_option (Panic (PanicError LibraryError)) (sc_uniform L randomBytes)"

definition NewDHKeyPair :: "('s, 'p) lib \<Rightarrow> bytes \<Rightarrow> ('s \<times> 'p) res" where
  "NewDHKeyPair L randomBytes =
     sbind (RandomCurveScalar L randomBytes) (\<lambda>secret. Inr (secret, PublicKey L secret))"

definition dhpk_PackTo :: "('s, 'p) lib \<Rightarrow> 'p \<Rightarrow> bytes \<Rightarrow> bytes res" where
  "dhpk_PackTo L d b =
     (if length b \<noteq> POINT_SIZE then Inl (Panic (PanicError LengthInvalidError))
      else Inr (go_copy b (pt_encode L d)))"

definition dhpk_InterpretFrom :: "('s, 'p) lib \<Rightarrow> bytes \<Rightarrow> 'p res" where
  "dhpk_InterpretFrom L b =
     (if length b \<noteq> POINT_SIZE then Inl (Err LengthInvalidError)
      else of_option (Err LibraryError) (pt_decode L b))"

definition dhsk_InterpretFrom :: "('s, 'p) lib \<Rightarrow> bytes \<Rightarrow> 's res" where
  "dhsk_InterpretFrom L b =
     (if length b \<noteq> SCALAR_SIZE then Inl (Err LengthInvalidError)
      else of_option (Err LibraryError) (sc_canonical L b))"

definition pk_Accumulate :: "('s, 'p) lib \<Rightarrow> 'p \<Rightarrow> 'p \<Rightarrow> 'p" where
  "pk_Accumulate L d p = pt_add L d p"

definition ZeroPoint :: "('s, 'p) lib \<Rightarrow> 'p" where
  "ZeroPoint L = pt_zero L"

definition AsShared :: "('s, 'p) lib \<Rightarrow> 'p \<Rightarrow> shared_key" where
  "AsShared L d = pt_encode L d"

definition sk_Accumulate :: "('s, 'p) lib \<Rightarrow> 's \<Rightarrow> 's \<Rightarrow> 's" where
  "sk_Accumulate L d t = sc_add L d t"

definition sk_Neg :: "('s, 'p) lib \<Rightarrow> 's \<Rightarrow> 's" where
  "sk_Neg L d = sc_neg L d"

text \<open>\<open>rnd i\<close> is the random scalar drawn for share \<open>i\<close>.\<close>

definition dh_AdditiveShares :: "('s, 'p) lib \<Rightarrow> (nat \<Rightarrow> 's) \<Rightarrow> 's \<Rightarrow> nat \<Rightarrow> 's list res" where
  "dh_AdditiveShares L rnd secret numShares =
     (if numShares = 0 then Inl (Panic IndexOutOfRange)
      else Inr (sk_Neg L (foldl (\<lambda>acc i. sk_Accumulate L acc (rnd i)) (sk_Neg L secret) [1..<numShares])
                # map rnd [1..<numShares]))"

section \<open>Counter mode and sealed boxes\<close>

definition ctr_keystream :: "('s, 'p) lib \<Rightarrow> bytes \<Rightarrow> bytes \<Rightarrow> nat \<Rightarrow> bytes" where
  "ctr_keystream L key iv n =
     take n (concat (map (\<lambda>i. aes_block L key (rev (put_le 16 (get_be iv + int i)))) [0..<n div 16 + 1]))"

definition XORKeyStream :: "('s, 'p) lib \<Rightarrow> bytes \<Rightarrow> bytes \<Rightarrow> bytes \<Rightarrow> bytes" where
  "XORKeyStream L key iv src = map2 (XOR) src (ctr_keystream L key iv (length src))"

definition Nonce :: "int \<Rightarrow> int \<Rightarrow> int \<Rightarrow> bytes" where
  "Nonce round layer destId = put_le 8 round @ put_le 8 layer @ put_le 8 destId"

definition ReadSignature :: "bytes \<Rightarrow> signature res" where
  "ReadSignature box =
     (if length box < Overhead then Inl (Panic SliceBounds) else Inr (drop (length box - Overhead) box))"

text \<open>The result is the overwritten slice \<^verbatim>\<open>raw\<close> and the bytes that are signed.\<close>

definition PackSignedData :: "int \<Rightarrow> int \<Rightarrow> int \<Rightarrow> bytes \<Rightarrow> nat \<Rightarrow> (bytes \<times> bytes) res" where
  "PackSignedData round layer server raw offset =
     (if offset < NONCE_SIZE then Inl (Panic (PanicError UnimplementedError))
      else if length raw < offset then Inl (Panic SliceBounds)
      else
        let raw' = copy_at raw (offset - 24) (put_le 8 round @ put_le 8 layer @ put_le 8 server) in
        if length raw < Overhead then Inl (Panic SliceBounds)
        else sbind (slice raw' (offset - 24) (length raw - Overhead)) (\<lambda>d. Inr (raw', d)))"

definition SignedSecretSeal ::
  "('s, 'p) lib \<Rightarrow> bytes \<Rightarrow> bytes \<Rightarrow> shared_key \<Rightarrow> signing_key \<Rightarrow> bytes res" where
  "SignedSecretSeal L message nonce key signingKey =
     sbind (slice key 0 SymmetricKeySize) (\<lambda>aesKey.
       let ciphertext = XORKeyStream L aesKey (take 16 nonce) message;
           s = Sign L signingKey (nonce @ ciphertext)
       in Inr (ciphertext @ go_copy (zeros Overhead) s))"

definition SecretOpen :: "('s, 'p) lib \<Rightarrow> bytes \<Rightarrow> bytes \<Rightarrow> shared_key \<Rightarrow> bytes res" where
  "SecretOpen L box nonce key =
     (if length box < Overhead then Inl (Panic NegativeLength)
      else sbind (slice key 0 SymmetricKeySize) (\<lambda>aesKey.
        Inr (XORKeyStream L aesKey (take 16 nonce) (take (length box - Overhead) box))))"

section \<open>Lemmas\<close>

lemma lib_okD:
  assumes "lib_ok L"
  shows "aes_ok L" "sig_ok L" "point_ok L" "dh_ok L" "key_ok L"
  using assms by (simp_all add: lib_ok_def)

lemma sig_okD:
  assumes "sig_ok L"
  shows "length (Sign L k m) = 64" "Verify L (ed_public L k) m (Sign L k m)" "length (ed_public L k) = 32"
  using assms by (simp_all add: sig_ok_def Sign_def Verify_def size_defs)

lemma VerifyExpanded_eq: "VerifyExpanded L v m s = Verify L v m s"
  by (simp add: VerifyExpanded_def Verify_def)

lemma length_LookupKey [simp]: "length (LookupKey k) = 32"
  by (simp add: LookupKey_def size_defs)

lemma LookupKey_id: "length k = 32 \<Longrightarrow> LookupKey k = k"
  by (simp add: LookupKey_def size_defs)

lemma vk_Copy_id: "length k = 32 \<Longrightarrow> vk_Copy k = k"
  by (simp add: vk_Copy_def size_defs)

lemma vk_PackTo_ok: "length b = 32 \<Longrightarrow> length k = 32 \<Longrightarrow> vk_PackTo k b = Inr k"
  by (simp add: vk_PackTo_def size_defs)

lemma vk_InterpretFrom_ok [simp]: "length b = 32 \<Longrightarrow> vk_InterpretFrom b = Inr b"
  by (simp add: vk_InterpretFrom_def size_defs)

lemma vk_InterpretFrom_eq_Inr: "vk_InterpretFrom b = Inr k \<longleftrightarrow> length b = 32 \<and> k = b"
  by (auto simp: vk_InterpretFrom_def size_defs)

lemma length_Nonce [simp]: "length (Nonce r l d) = 24"
  by (simp add: Nonce_def)

lemma shared_key_agreement:
  "dh_ok L \<Longrightarrow> SharedKey L a (PublicKey L b) = SharedKey L b (PublicKey L a)"
  by (simp add: SharedKey_def PublicKey_def dh_Mul_def dh_ok_def)

lemma length_SharedKey: "point_ok L \<Longrightarrow> length (SharedKey L a p) = 32"
  by (simp add: SharedKey_def point_ok_def size_defs)

lemma length_concat_blocks:
  "\<forall>i. length (f i) = 16 \<Longrightarrow> length (concat (map f xs)) = 16 * length xs"
  by (induction xs) auto

lemma length_ctr_keystream:
  assumes "aes_ok L"
  shows "length (ctr_keystream L key iv n) = n"
proof -
  let ?f = "\<lambda>i. aes_block L key (rev (put_le 16 (get_be iv + int i)))"
  have "length (concat (map ?f [0..<n div 16 + 1])) = 16 * (n div 16 + 1)"
    using assms by (subst length_concat_blocks) (auto simp: aes_ok_def)
  then show ?thesis
    unfolding ctr_keystream_def by (auto simp del: upt_Suc)
qed

lemma map2_xor_twice:
  "length ks = length xs \<Longrightarrow> map2 (XOR) (map2 (XOR) xs ks) ks = (xs :: bytes)"
  by (induction xs ks rule: list_induct2') (auto simp: xor.assoc)

lemma length_XORKeyStream [simp]: "aes_ok L \<Longrightarrow> length (XORKeyStream L k iv m) = length m"
  by (simp add: XORKeyStream_def length_ctr_keystream)

lemma XORKeyStream_twice [simp]:
  "aes_ok L \<Longrightarrow> XORKeyStream L k iv (XORKeyStream L k iv m) = m"
  unfolding XORKeyStream_def
  by (simp add: length_ctr_keystream map2_xor_twice)

text \<open>The shape of a sealed box: ciphertext, then a signature on nonce and ciphertext.\<close>

lemma SignedSecretSeal_ok:
  assumes "aes_ok L" "sig_ok L" "16 \<le> length key"
  shows "SignedSecretSeal L m nonce key sk =
     Inr (XORKeyStream L (take 16 key) (take 16 nonce) m @
          Sign L sk (nonce @ XORKeyStream L (take 16 key) (take 16 nonce) m))"
  using assms sig_okD(1) [OF assms(2)]
  by (simp add: SignedSecretSeal_def slice_def size_defs Let_def)

lemma SignedSecretSeal_length:
  assumes "aes_ok L" "sig_ok L" "SignedSecretSeal L m nonce key sk = Inr box"
  shows "length box = length m + Overhead"
proof -
  from assms(3) have "16 \<le> length key"
    by (simp add: SignedSecretSeal_def slice_def size_defs split: if_splits)
  with assms SignedSecretSeal_ok [OF assms(1,2)] sig_okD(1) [OF assms(2)] show ?thesis
    by (auto simp: size_defs)
qed

lemma SecretOpen_ok:
  "Overhead \<le> length box \<Longrightarrow> 16 \<le> length key \<Longrightarrow>
     SecretOpen L box nonce key =
       Inr (XORKeyStream L (take 16 key) (take 16 nonce) (take (length box - Overhead) box))"
  by (simp add: SecretOpen_def slice_def size_defs)

lemma ReadSignature_append: "length s = 64 \<Longrightarrow> ReadSignature (c @ s) = Inr s"
  by (simp add: ReadSignature_def size_defs)

lemma PackSignedData_append:
  assumes "24 \<le> length pre" "64 \<le> length box"
  shows "PackSignedData r l s (pre @ box) (length pre) =
     Inr (take (length pre - 24) pre @ Nonce r l s @ box, Nonce r l s @ take (length box - 64) box)"
proof -
  let ?p = "take (length pre - 24) pre" and ?q = "drop (length pre - 24) pre"
  have pre: "pre = ?p @ ?q" by simp
  have c: "copy_at (pre @ box) (length pre - 24) (put_le 8 r @ put_le 8 l @ put_le 8 s)
      = ?p @ Nonce r l s @ box"
    using assms by (simp add: copy_at_def go_copy_def Nonce_def)
  have "slice (?p @ Nonce r l s @ box) (length pre - 24) (length (pre @ box) - 64)
      = Inr (Nonce r l s @ take (length box - 64) box)"
    using assms by (simp add: slice_def)
  then show ?thesis
    using assms by (simp add: PackSignedData_def size_defs c)
qed

text \<open>A server that received the box at the end of an envelope writes its own nonce before it, and
  then checks the very bytes the sender signed.\<close>

lemma sealed_box_checks:
  assumes L: "aes_ok L" "sig_ok L" and key: "16 \<le> length key" and pre: "24 \<le> length pre"
    and box: "SignedSecretSeal L m (Nonce r l s) key sk = Inr box"
  shows "\<exists>raw d sg. PackSignedData r l s (pre @ box) (length pre) = Inr (raw, d) \<and>
           ReadSignature box = Inr sg \<and> Verify L (ed_public L sk) d sg \<and>
           SecretOpen L box (Nonce r l s) key = Inr m"
proof -
  let ?c = "XORKeyStream L (take 16 key) (take 16 (Nonce r l s)) m"
  let ?s = "Sign L sk (Nonce r l s @ ?c)"
  have b: "box = ?c @ ?s" using box SignedSecretSeal_ok [OF L key] by simp
  have ls: "length ?s = 64" using sig_okD(1) [OF L(2)] .
  then have "64 \<le> length box" using b by simp
  then have "PackSignedData r l s (pre @ box) (length pre) =
      Inr (take (length pre - 24) pre @ Nonce r l s @ box, Nonce r l s @ ?c)"
    using PackSignedData_append [OF pre, of box r l s] ls b by simp
  moreover have "SecretOpen L box (Nonce r l s) key = Inr m"
    using SecretOpen_ok [of box key L "Nonce r l s"] ls b key L(1) by (simp add: size_defs)
  moreover have "ReadSignature box = Inr ?s" using ReadSignature_append [OF ls] b by simp
  ultimately show ?thesis using sig_okD(2) [OF L(2)] by blast
qed

section \<open>A small instance of the libraries\<close>

text \<open>Scalars and points are 256 bit words with multiplication modulo \<open>2 ^ 256\<close>, a signature is the
  public key and a checksum. The instance shows that the hypotheses on the libraries hold together.\<close>

definition toy_public :: "bytes \<Rightarrow> bytes" where
  "toy_public k = put_le 32 (get_le (take 32 (take 64 (k @ zeros 64))))"

definition toy_lib :: "(256 word, 256 word) lib" where
  "toy_lib = \<lparr>
     ed_sign = (\<lambda>k m. toy_public k @ put_le 32 (get_le m)),
     ed_verify = (\<lambda>k m s. s = k @ put_le 32 (get_le m)),
     ed_public = toy_public,
     ed_seed = (\<lambda>k. k),
     ed_expandable = (\<lambda>k. True),
     ph_sign = (\<lambda>k m. toy_public k @ put_le 32 (get_le m)),
     ph_verify = (\<lambda>k m s. s = k @ put_le 32 (get_le m)),
     pt_decode = (\<lambda>b. if length b = 32 then Some (word_of_int (get_le b)) else None),
     pt_encode = (\<lambda>p. put_le 32 (uint p)),
     pt_mul = (*), pt_base_mul = (\<lambda>s. s), pt_add = (+), pt_zero = 0,
     sc_add = (+), sc_neg = uminus,
     sc_canonical = (\<lambda>b. Some (word_of_int (get_le b))),
     sc_clamp = (\<lambda>b. Some (word_of_int (get_le b))),
     sc_uniform = (\<lambda>b. Some (word_of_int (get_le b))),
     sc_bytes = (\<lambda>s. put_le 32 (uint s)),
     aes_block = (\<lambda>k b. take 16 (rev b @ zeros 16)),
     sha256 = (\<lambda>b. take 32 (b @ zeros 32)),
     sha512 = (\<lambda>b. take 64 (b @ zeros 64))\<rparr>"

lemma get_le_put_uint: "get_le (put_le 32 (uint (w :: 256 word))) = uint w"
  using uint_lt2p [of w] by (subst get_put_le) simp

lemma toy_lib_ok: "lib_ok toy_lib"
proof -
  have "point_ok toy_lib"
    by (simp add: point_ok_def toy_lib_def get_le_put_uint size_defs)
  moreover have "key_ok toy_lib"
  proof -
    have "0 \<le> get_le (take 32 (take 64 (k @ zeros 64))) \<and> get_le (take 32 (take 64 (k @ zeros 64))) < 256 ^ 32" for k
    proof -
      have "length (take 32 (take 64 (k @ zeros 64))) = 32" by simp
      then show ?thesis using get_le_bound [of "take 32 (take 64 (k @ zeros 64))"] get_le_nonneg by metis
    qed
    then show ?thesis
      by (simp add: key_ok_def toy_lib_def toy_public_def get_put_le)
  qed
  moreover have "aes_ok toy_lib" by (auto simp: aes_ok_def toy_lib_def)
  moreover have "sig_ok toy_lib" by (simp add: sig_ok_def toy_lib_def toy_public_def size_defs)
  moreover have "dh_ok toy_lib" by (simp add: dh_ok_def toy_lib_def mult.commute)
  ultimately show ?thesis by (simp add: lib_ok_def)
qed

section \<open>Properties\<close>

text \<open>C28. Encrypt-then-sign round trip: a box sealed for a round, layer and server, appended to any
  envelope prefix of at least 24 bytes, passes the receiver's signature check over the nonce the
  receiver computes itself, and decrypts to the message; the box is longer than the message by
  exactly \<^verbatim>\<open>Overhead\<close>.\<close>

theorem sealed_box_roundtrip:
  assumes "lib_ok L" and "SymmetricKeySize \<le> length key" and "NONCE_SIZE \<le> length pre"
  shows "\<exists>box raw d sg. SignedSecretSeal L m (Nonce r l s) key sk = Inr box \<and>
           length box = length m + Overhead \<and>
           PackSignedData r l s (pre @ box) (length pre) = Inr (raw, d) \<and>
           ReadSignature box = Inr sg \<and> Verify L (ed_public L sk) d sg \<and>
           SecretOpen L box (Nonce r l s) key = Inr m"
proof -
  note L = lib_okD(1,2) [OF assms(1)]
  have key: "16 \<le> length key" and pre: "24 \<le> length pre" using assms(2,3) by (simp_all add: size_defs)
  obtain box where box: "SignedSecretSeal L m (Nonce r l s) key sk = Inr box"
    using SignedSecretSeal_ok [OF L key] by blast
  from sealed_box_checks [OF L key pre box] SignedSecretSeal_length [OF L box] box
  show ?thesis by blast
qed

theorem sealed_box_roundtrip_witness:
  "\<exists>box. SignedSecretSeal toy_lib [1, 2, 3] (Nonce 5 1 7) (zeros 16) [9] = Inr box \<and> length box = 67 \<and>
         SecretOpen toy_lib box (Nonce 5 1 7) (zeros 16) = Inr [1, 2, 3]"
  using sealed_box_roundtrip [OF toy_lib_ok, of "zeros 16" "zeros 32" "[1, 2, 3]" 5 1 7 "[9]"]
  by (auto simp: size_defs)

text \<open>The nonce separates round, layer and receiver: two nonces are equal only for values that
  agree modulo \<open>2 ^ 64\<close>, so that a signature made for one round, layer and server is a signature on
  other bytes than those checked for another.\<close>

theorem Nonce_injective:
  "Nonce r l d = Nonce r' l' d' \<longleftrightarrow>
     r mod 2 ^ 64 = r' mod 2 ^ 64 \<and> l mod 2 ^ 64 = l' mod 2 ^ 64 \<and> d mod 2 ^ 64 = d' mod 2 ^ 64"
proof -
  have "put_le 8 x = put_le 8 y \<longleftrightarrow> x mod 2 ^ 64 = y mod 2 ^ 64" for x y
    by (simp only: put_le_inj_mod) simp
  then show ?thesis by (simp add: Nonce_def)
qed

end
