(* ===== verification/Messages.thy ===== *)
theory Messages
  imports Codec Crypto
begin

text \<open>
  Signed messages: \<^verbatim>\<open>src/network/messages/signedMessage.go\<close>, with the message types of the protocol
  buffer.

  A \<^verbatim>\<open>SignedMessage\<close> owns one buffer \<^verbatim>\<open>Raw\<close>; its \<^verbatim>\<open>Data\<close> is a window into it after the 28 bytes of
  metadata. The model keeps the buffer and the length of the window, so that what is written through
  \<^verbatim>\<open>Data\<close> is seen in \<^verbatim>\<open>Raw\<close>. Metadata fields of type \<^verbatim>\<open>int\<close> are written as 32 bit unsigned values.
\<close>

section \<open>Message types\<close>

type_synonym message_type = int

definition ClientRegister :: message_type where "ClientRegister = 0"
definition ClientTokenRequest :: message_type where "ClientTokenRequest = 1"
definition ClientMessageSubmission :: message_type where "ClientMessageSubmission = 2"
definition KeySharePush :: message_type where "KeySharePush = 3"
definition ServerMessageForward :: message_type where "ServerMessageForward = 4"
definition ServerMessageReverse :: message_type where "ServerMessageReverse = 6"
definition PathMessageForward :: message_type where "PathMessageForward = 7"
definition GroupCheckpointToken :: message_type where "GroupCheckpointToken = 8"
definition GroupCheckpointSignature :: message_type where "GroupCheckpointSignature = 9"
definition ClientGetReceipt :: message_type where "ClientGetReceipt = 10"

lemmas message_type_defs =
  ClientRegister_def ClientTokenRequest_def ClientMessageSubmission_def KeySharePush_def
  ServerMessageForward_def ServerMessageReverse_def PathMessageForward_def
  GroupCheckpointToken_def GroupCheckpointSignature_def ClientGetReceipt_def

section \<open>Metadata\<close>

record metadata =
  md_Type :: message_type
  md_Round :: int
  md_Layer :: int
  md_Sender :: int
  md_Dest :: int
  md_Group :: int
  md_NumMessages :: int

definition Metadata_size :: nat where "Metadata_size = 28"

text \<open>The bytes \<^verbatim>\<open>PackTo\<close> writes, the method itself, and \<^verbatim>\<open>InterpretFrom\<close>.\<close>

definition metadata_bytes :: "metadata \<Rightarrow> bytes" where
  "metadata_bytes s =
     put_le 4 (md_NumMessages s) @ put_le 4 (md_Type s) @ put_le 4 (md_Round s) @ put_le 4 (md_Layer s) @
     put_le 4 (md_Sender s) @ put_le 4 (md_Dest s) @ put_le 4 (md_Group s)"

definition metadata_PackTo :: "metadata \<Rightarrow> bytes \<Rightarrow> bytes res" where
  "metadata_PackTo s b =
     (if length b < 28 then Inl (Panic SliceBounds) else Inr (copy_at b 0 (metadata_bytes s)))"

definition u32_at :: "bytes \<Rightarrow> nat \<Rightarrow> int" where
  "u32_at b i = get_le (take 4 (drop i b))"

definition metadata_InterpretFrom :: "bytes \<Rightarrow> metadata res" where
  "metadata_InterpretFrom b =
     (if length b < 28 then Inl (Panic SliceBounds)
      else Inr \<lparr>md_Type = to_int32 (u32_at b 4), md_Round = u32_at b 8, md_Layer = u32_at b 12,
                md_Sender = u32_at b 16, md_Dest = u32_at b 20, md_Group = to_int32 (u32_at b 24),
                md_NumMessages = u32_at b 0\<rparr>)"

section \<open>Signed messages\<close>

record signed_message =
  sm_Metadata :: metadata
  sm_Raw :: bytes
  sm_len :: nat
  sm_Signature :: bytes

record network_message =
  nm_MessageType :: message_type
  nm_Data :: bytes
  nm_Signature :: bytes

definition sm_Data :: "signed_message \<Rightarrow> bytes" where
  "sm_Data m = take (sm_len m) (drop Metadata_size (sm_Raw m))"

definition NewSignedMessage ::
  "nat \<Rightarrow> int \<Rightarrow> int \<Rightarrow> int \<Rightarrow> int \<Rightarrow> int \<Rightarrow> int \<Rightarrow> message_type \<Rightarrow> signed_message" where
  "NewSignedMessage dataLen round layer sender gid dest numMessages t =
     \<lparr>sm_Metadata = \<lparr>md_Type = t, md_Round = round, md_Layer = layer, md_Sender = sender, md_Dest = dest,
                     md_Group = to_int32 gid, md_NumMessages = numMessages mod 2 ^ 32\<rparr>,
      sm_Raw = zeros (dataLen + Metadata_size + SIGNATURE_SIZE), sm_len = dataLen, sm_Signature = []\<rparr>"

text \<open>A caller fills \<^verbatim>\<open>m.Data\<close> with a value of the same length.\<close>

definition fill_data :: "signed_message \<Rightarrow> bytes \<Rightarrow> signed_message" where
  "fill_data m d = m\<lparr>sm_Raw := copy_at (sm_Raw m) Metadata_size (take (sm_len m) d)\<rparr>"

definition ParseSignedMessage :: "network_message \<Rightarrow> signed_message option" where
  "ParseSignedMessage raw =
     (if length (nm_Data raw) < Metadata_size then None
      else case metadata_InterpretFrom (nm_Data raw) of
          Inl e \<Rightarrow> None
        | Inr md \<Rightarrow> Some \<lparr>sm_Metadata = md, sm_Raw = nm_Data raw,
                         sm_len = length (nm_Data raw) - Metadata_size, sm_Signature = nm_Signature raw\<rparr>)"

definition GetSignedData :: "signed_message \<Rightarrow> (signed_message \<times> bytes) res" where
  "GetSignedData s =
     sbind (metadata_PackTo (sm_Metadata s) (sm_Raw s)) (\<lambda>raw.
     sbind (slice raw 0 (Metadata_size + sm_len s)) (\<lambda>d. Inr (s\<lparr>sm_Raw := raw\<rparr>, d)))"

definition AsArray :: "signed_message \<Rightarrow> (signed_message \<times> bytes) res" where
  "AsArray s =
     (if length (sm_Raw s) < sm_len s + Metadata_size then Inl (Panic SliceBounds)
      else let raw = copy_at (sm_Raw s) (sm_len s + Metadata_size) (sm_Signature s) in
        sbind (slice raw 0 (sm_len s + Metadata_size + SIGNATURE_SIZE)) (\<lambda>a. Inr (s\<lparr>sm_Raw := raw\<rparr>, a)))"

definition AsNetworkMessage :: "signed_message \<Rightarrow> network_message res" where
  "AsNetworkMessage s =
     sbind (slice (sm_Raw s) 0 (Metadata_size + sm_len s)) (\<lambda>d.
       Inr \<lparr>nm_MessageType = md_Type (sm_Metadata s), nm_Data = d, nm_Signature = sm_Signature s\<rparr>)"

text \<open>\<^verbatim>\<open>SignMessage\<close> and \<^verbatim>\<open>ValidateSignature\<close> of \<^verbatim>\<open>src/server/common/commonMessages.go\<close>.\<close>

definition SignMessage :: "('s, 'p) lib \<Rightarrow> signing_key \<Rightarrow> signed_message \<Rightarrow> signed_message res" where
  "SignMessage L key m =
     sbind (GetSignedData m) (\<lambda>(m', d). Inr (m'\<lparr>sm_Signature := SignData L key d\<rparr>))"

definition ValidateSignature ::
  "('s, 'p) lib \<Rightarrow> verification_key \<Rightarrow> signed_message \<Rightarrow> (signed_message \<times> bool) res" where
  "ValidateSignature L key m =
     sbind (GetSignedData m) (\<lambda>(m', d). Inr (m', VerifyMessage L key d (sm_Signature m')))"

section \<open>Lemmas\<close>

definition metadata_wf :: "metadata \<Rightarrow> bool" where
  "metadata_wf m \<longleftrightarrow>
     0 \<le> md_Round m \<and> md_Round m < 2 ^ 32 \<and> 0 \<le> md_Layer m \<and> md_Layer m < 2 ^ 32 \<and>
     0 \<le> md_Sender m \<and> md_Sender m < 2 ^ 32 \<and> 0 \<le> md_Dest m \<and> md_Dest m < 2 ^ 32 \<and>
     0 \<le> md_NumMessages m \<and> md_NumMessages m < 2 ^ 32 \<and>
     - (2 ^ 31) \<le> md_Group m \<and> md_Group m < 2 ^ 31 \<and> - (2 ^ 31) \<le> md_Type m \<and> md_Type m < 2 ^ 31"

lemma length_metadata_bytes [simp]: "length (metadata_bytes m) = 28"
  by (simp add: metadata_bytes_def)

lemma metadata_PackTo_ok:
  "28 \<le> length b \<Longrightarrow> metadata_PackTo m b = Inr (metadata_bytes m @ drop 28 b)"
  by (simp add: metadata_PackTo_def copy_at_def go_copy_def)

lemma u32_at_metadata:
  "u32_at (metadata_bytes m @ r) 0 = md_NumMessages m mod 2 ^ 32"
  "u32_at (metadata_bytes m @ r) 4 = md_Type m mod 2 ^ 32"
  "u32_at (metadata_bytes m @ r) 8 = md_Round m mod 2 ^ 32"
  "u32_at (metadata_bytes m @ r) 12 = md_Layer m mod 2 ^ 32"
  "u32_at (metadata_bytes m @ r) 16 = md_Sender m mod 2 ^ 32"
  "u32_at (metadata_bytes m @ r) 20 = md_Dest m mod 2 ^ 32"
  "u32_at (metadata_bytes m @ r) 24 = md_Group m mod 2 ^ 32"
  by (simp_all add: u32_at_def metadata_bytes_def get_put_le del: put_le.simps)

lemma metadata_read_back:
  "metadata_InterpretFrom (metadata_bytes m @ r) =
     Inr \<lparr>md_Type = to_int32 (md_Type m mod 2 ^ 32), md_Round = md_Round m mod 2 ^ 32,
          md_Layer = md_Layer m mod 2 ^ 32, md_Sender = md_Sender m mod 2 ^ 32, md_Dest = md_Dest m mod 2 ^ 32,
          md_Group = to_int32 (md_Group m mod 2 ^ 32), md_NumMessages = md_NumMessages m mod 2 ^ 32\<rparr>"
  by (simp add: metadata_InterpretFrom_def u32_at_metadata)

lemma metadata_roundtrip:
  "metadata_wf m \<Longrightarrow> metadata_InterpretFrom (metadata_bytes m @ r) = Inr m"
  unfolding metadata_read_back by (simp add: metadata_wf_def to_int32_id [simplified])

interpretation metadata_codec: wire_codec "\<lambda>m. metadata_PackTo m (zeros Metadata_size)" metadata_InterpretFrom
  metadata_wf "\<lambda>_. Metadata_size"
  using metadata_roundtrip [of _ "[]"] by unfold_locales (simp add: Metadata_size_def metadata_PackTo_ok)

lemma put_le4_to_int32: "put_le 4 (to_int32 (x mod 2 ^ 32)) = put_le 4 x"
proof -
  have "to_int32 (x mod 2 ^ 32) mod 2 ^ 32 = x mod 2 ^ 32"
    by (simp only: to_int32_mod mod_mod_trivial)
  then have "to_int32 (x mod 2 ^ 32) mod 256 ^ 4 = x mod 256 ^ 4" by simp
  then show ?thesis by (simp only: put_le_inj_mod)
qed

lemma put_le4_mod: "put_le 4 (x mod 2 ^ 32) = put_le 4 x"
  using put_le_mod [of 4 x] by simp

text \<open>Packing what was read gives the bytes back, whatever the values were.\<close>

lemma metadata_repack:
  assumes "metadata_InterpretFrom (metadata_bytes m @ r) = Inr md"
  shows "metadata_bytes md = metadata_bytes m"
  using assms unfolding metadata_read_back
  by (auto simp only: sum.inject metadata_bytes_def metadata.simps put_le4_mod put_le4_to_int32)

lemma sm_Data_fill:
  assumes "length d = sm_len m" "Metadata_size + sm_len m \<le> length (sm_Raw m)"
  shows "sm_Data (fill_data m d) = d"
  using assms by (simp add: sm_Data_def fill_data_def copy_at_def go_copy_def)

lemma GetSignedData_ok:
  assumes "28 + sm_len m \<le> length (sm_Raw m)"
  shows "GetSignedData m =
     Inr (m\<lparr>sm_Raw := metadata_bytes (sm_Metadata m) @ drop 28 (sm_Raw m)\<rparr>,
          metadata_bytes (sm_Metadata m) @ sm_Data m)"
  using assms
  by (simp add: GetSignedData_def metadata_PackTo_ok slice_def sm_Data_def Metadata_size_def)

lemma SignMessage_ok:
  assumes "28 + sm_len m \<le> length (sm_Raw m)"
  shows "SignMessage L key m =
     Inr (m\<lparr>sm_Raw := metadata_bytes (sm_Metadata m) @ drop 28 (sm_Raw m),
            sm_Signature := SignData L key (metadata_bytes (sm_Metadata m) @ sm_Data m)\<rparr>)"
  by (simp add: SignMessage_def GetSignedData_ok [OF assms])

text \<open>What arrives of a message that was signed and sent.\<close>

lemma signed_message_received:
  assumes len: "28 + sm_len m \<le> length (sm_Raw m)"
    and sign: "SignMessage L key m = Inr m'" and send: "AsNetworkMessage m' = Inr nm"
  shows "\<exists>r. ParseSignedMessage nm = Some r \<and> sm_Data r = sm_Data m \<and> sm_Signature r = sm_Signature m' \<and>
             sm_Raw r = metadata_bytes (sm_Metadata m) @ sm_Data m \<and> sm_len r = sm_len m \<and>
             metadata_InterpretFrom (metadata_bytes (sm_Metadata m)) = Inr (sm_Metadata r)"
proof -
  have ld: "length (sm_Data m) = sm_len m" using len by (simp add: sm_Data_def Metadata_size_def)
  have "nm_Data nm = metadata_bytes (sm_Metadata m) @ sm_Data m"
    and sg: "nm_Signature nm = sm_Signature m'"
    using len sign send
    by (auto simp: SignMessage_ok AsNetworkMessage_def slice_def sm_Data_def Metadata_size_def split: if_splits)
  then show ?thesis
    using metadata_read_back [of "sm_Metadata m" "sm_Data m"] metadata_read_back [of "sm_Metadata m" "[]"] ld
    by (simp add: ParseSignedMessage_def sm_Data_def Metadata_size_def)
qed

section \<open>Properties\<close>

text \<open>A message that a client or server signs and sends is accepted by the receiver: after
  \<^verbatim>\<open>AsNetworkMessage\<close> and \<^verbatim>\<open>ParseSignedMessage\<close> the receiver packs the metadata it parsed again and so
  checks exactly the bytes that were signed. This holds for all metadata, also where a value, such as
  the layer \<open>-1\<close> of a registration, does not survive the 32 bit encoding; the payload arrives unchanged.\<close>

theorem signed_message_validates:
  assumes "sig_ok L" and "28 + sm_len m \<le> length (sm_Raw m)"
    and "SignMessage L key m = Inr m'" and "AsNetworkMessage m' = Inr nm"
  shows "\<exists>r r'. ParseSignedMessage nm = Some r \<and> sm_Data r = sm_Data m \<and>
                ValidateSignature L (ed_public L key) r = Inr (r', True)"
proof -
  from signed_message_received [OF assms(2-4)] obtain r where
    r: "ParseSignedMessage nm = Some r" "sm_Data r = sm_Data m" "sm_Signature r = sm_Signature m'"
      "sm_Raw r = metadata_bytes (sm_Metadata m) @ sm_Data m" "sm_len r = sm_len m"
      "metadata_InterpretFrom (metadata_bytes (sm_Metadata m)) = Inr (sm_Metadata r)" by blast
  have "metadata_bytes (sm_Metadata r) = metadata_bytes (sm_Metadata m)"
    using metadata_repack [of "sm_Metadata m" "[]"] r(6) by simp
  moreover have "28 + sm_len r \<le> length (sm_Raw r)"
    using assms(2) r(4,5) by (simp add: sm_Data_def Metadata_size_def)
  moreover have "sm_Signature m' = SignData L key (metadata_bytes (sm_Metadata m) @ sm_Data m)"
    using assms(2,3) by (auto simp: SignMessage_ok)
  ultimately have "ValidateSignature L (ed_public L key) r =
      Inr (r\<lparr>sm_Raw := metadata_bytes (sm_Metadata r) @ drop 28 (sm_Raw r)\<rparr>, True)"
    using r(2,3) sig_okD(2) [OF assms(1)]
    by (simp add: ValidateSignature_def GetSignedData_ok VerifyMessage_def SignData_def)
  with r(1,2) show ?thesis by blast
qed

definition registration :: signed_message where
  "registration = fill_data (NewSignedMessage 2 0 (-1) 7 0 0 1 ClientRegister) [3, 4]"

theorem signed_message_validates_witness:
  "\<exists>m' nm r r'. SignMessage toy_lib [9] registration = Inr m' \<and> AsNetworkMessage m' = Inr nm \<and>
     ParseSignedMessage nm = Some r \<and> sm_Data r = [3, 4] \<and>
     ValidateSignature toy_lib (ed_public toy_lib [9]) r = Inr (r', True)"
proof -
  have len: "28 + sm_len registration \<le> length (sm_Raw registration)"
    by (simp add: registration_def fill_data_def NewSignedMessage_def Metadata_size_def size_defs)
  have d: "sm_Data registration = [3, 4]"
    unfolding registration_def
    by (rule sm_Data_fill) (simp_all add: NewSignedMessage_def Metadata_size_def size_defs)
  obtain m' where s: "SignMessage toy_lib [9] registration = Inr m'"
    using SignMessage_ok [OF len] by blast
  then obtain nm where n: "AsNetworkMessage m' = Inr nm"
    using len by (auto simp: SignMessage_ok AsNetworkMessage_def slice_def Metadata_size_def)
  from signed_message_validates [OF lib_okD(2) [OF toy_lib_ok] len s n] s n d show ?thesis by metis
qed

text \<open>C39. Metadata read from the network is in range: round, layer, sender, destination and message
  count lie in \<open>[0, 2 ^ 32)\<close> for any bytes. In particular a negative layer cannot be received: the layer
  \<open>-1\<close> that a registration is sent with arrives as \<open>4294967295\<close>.\<close>

theorem parsed_metadata_range:
  assumes "metadata_InterpretFrom b = Inr m"
  shows "metadata_wf m \<and>
     metadata_InterpretFrom (metadata_bytes (m\<lparr>md_Layer := -1\<rparr>)) = Inr (m\<lparr>md_Layer := 4294967295\<rparr>)"
proof -
  have "0 \<le> u32_at b i \<and> u32_at b i < 2 ^ 32" if "i + 4 \<le> 28" "28 \<le> length b" for i
  proof -
    have "length (take 4 (drop i b)) = 4" using that by simp
    then show ?thesis using get_le_bound [of "take 4 (drop i b)"] by (simp add: u32_at_def)
  qed
  moreover have "- (2 ^ 31) \<le> to_int32 x \<and> to_int32 x < 2 ^ 31" for x
    by (simp only: to_int32_range simp_thms)
  ultimately have wf: "metadata_wf m"
    using assms by (auto simp: metadata_InterpretFrom_def metadata_wf_def split: if_splits)
  then show ?thesis
    using metadata_read_back [of "m\<lparr>md_Layer := -1\<rparr>" "[]"]
    by (simp add: metadata_wf_def to_int32_id [simplified])
qed

theorem parsed_metadata_range_witness:
  "metadata_wf \<lparr>md_Type = 0, md_Round = 1, md_Layer = 0, md_Sender = 0, md_Dest = 0, md_Group = 0,
                md_NumMessages = 0\<rparr>"
proof -
  let ?m = "\<lparr>md_Type = 0, md_Round = 1, md_Layer = 0, md_Sender = 0, md_Dest = 0, md_Group = 0,
             md_NumMessages = 0\<rparr>"
  have "metadata_InterpretFrom (metadata_bytes ?m) = Inr ?m"
    using metadata_roundtrip [of ?m "[]"] by (simp add: metadata_wf_def)
  from parsed_metadata_range [OF this] show ?thesis by simp
qed

end
