(* ===== verification/Randomness.thy ===== *)
theory Randomness
  imports Prelude "HOL-Library.Multiset"
begin

text \<open>
  The shuffler of \<^verbatim>\<open>src/config/randomness.go\<close>: a buffered reader of random bytes, uniform integers and
  the Knuth shuffle. The reader is an argument \<open>rd\<close>: \<open>rd r n\<close> are the bytes that a \<^verbatim>\<open>Read\<close> of \<open>n\<close>
  bytes returns and the reader afterwards; \<open>reader_ok\<close> says that reads are never short.
  The lemmas show that \<^verbatim>\<open>Perm\<close> returns a permutation whatever the random bytes are.
\<close>

record 'r shuffler =
  sh_src :: 'r
  sh_buf :: bytes
  sh_pos :: nat

type_synonym 'r reader = "'r \<Rightarrow> nat \<Rightarrow> bytes \<times> 'r"

definition reader_ok :: "'r reader \<Rightarrow> bool" where
  "reader_ok rd \<longleftrightarrow> (\<forall>r n. length (fst (rd r n)) = n)"

text \<open>\<open>shake\<close> is the reader \<^verbatim>\<open>sha3.NewShake128\<close> gives after the seed has been written to it.\<close>

definition SeededShuffler :: "(bytes \<Rightarrow> 'r) \<Rightarrow> 'r reader \<Rightarrow> bytes \<Rightarrow> 'r shuffler" where
  "SeededShuffler shake rd Seed =
     (let h = shake Seed; (b, h') = rd h 128
      in \<lparr>sh_src = h', sh_buf = go_copy (zeros 128) b, sh_pos = 0\<rparr>)"

definition NewPRGShuffler :: "(bytes \<Rightarrow> 'r) \<Rightarrow> 'q reader \<Rightarrow> 'q \<Rightarrow> 'r shuffler \<times> 'q" where
  "NewPRGShuffler shake source q =
     (let (b, q') = source q 128; seed = go_copy (zeros 128) b
      in (\<lparr>sh_src = shake seed, sh_buf = seed, sh_pos = 0\<rparr>, q'))"

definition NewShuffler :: "'r reader \<Rightarrow> 'r \<Rightarrow> nat \<Rightarrow> 'r shuffler" where
  "NewShuffler source r buffSize =
     (let (b, r') = source r buffSize
      in \<lparr>sh_src = r', sh_buf = go_copy (zeros buffSize) b, sh_pos = 0\<rparr>)"

definition readBytes :: "'r reader \<Rightarrow> 'r shuffler \<Rightarrow> nat \<Rightarrow> (bytes \<times> 'r shuffler) res" where
  "readBytes rd r n =
     (let e = sh_pos r + n in
      if e \<ge> length (sh_buf r) then
        let (b, src) = rd (sh_src r) (length (sh_buf r)) in
        if length b \<noteq> length (sh_buf r) then Inl (Panic LogFatal)
        else sbind (slice b 0 n) (\<lambda>out. Inr (out, \<lparr>sh_src = src, sh_buf = b, sh_pos = n\<rparr>))
      else sbind (slice (sh_buf r) (sh_pos r) e) (\<lambda>out. Inr (out, r\<lparr>sh_pos := e\<rparr>)))"

definition UInt64 :: "'r reader \<Rightarrow> 'r shuffler \<Rightarrow> (int \<times> 'r shuffler) res" where
  "UInt64 rd r = sbind (readBytes rd r 8) (\<lambda>(b, r'). Inr (get_be b, r'))"

definition UInt32 :: "'r reader \<Rightarrow> 'r shuffler \<Rightarrow> (int \<times> 'r shuffler) res" where
  "UInt32 rd r = sbind (readBytes rd r 4) (\<lambda>(b, r'). Inr (get_be b, r'))"

definition swap :: "'a list \<Rightarrow> nat \<Rightarrow> nat \<Rightarrow> 'a list" where
  "swap xs i j = xs[i := xs ! j, j := xs ! i]"

function perm_loop ::
  "'r reader \<Rightarrow> 'r shuffler \<Rightarrow> nat list \<Rightarrow> nat \<Rightarrow> nat \<Rightarrow> (nat list \<times> 'r shuffler) res" where
  "perm_loop rd r pi i n =
     (if i + 2 \<le> n then
        sbind (UInt32 rd r) (\<lambda>(u, r').
          let m = int (n - i) mod 2 ^ 32 in
          if m = 0 then Inl (Panic DivideByZero)
          else perm_loop rd r' (swap pi i (nat (u mod m) + i)) (i + 1) n)
      else Inr (pi, r))"
  by pat_completeness auto
termination
  by (relation "measure (\<lambda>(rd, r, pi, i, n). n - i)") auto

declare perm_loop.simps [simp del]

definition Perm :: "'r reader \<Rightarrow> 'r shuffler \<Rightarrow> nat \<Rightarrow> (nat list \<times> 'r shuffler) res" where
  "Perm rd r n = perm_loop rd r [0..<n] 0 n"

definition SelectRandom :: "'r reader \<Rightarrow> 'r shuffler \<Rightarrow> nat \<Rightarrow> nat \<Rightarrow> (nat list \<times> 'r shuffler) res" where
  "SelectRandom rd r n t =
     sbind (Perm rd r n) (\<lambda>(pi, r'). sbind (slice pi 0 t) (\<lambda>s. Inr (s, r')))"

definition Intn :: "'r reader \<Rightarrow> 'r shuffler \<Rightarrow> int \<Rightarrow> (int \<times> 'r shuffler) res" where
  "Intn rd r bound =
     sbind (UInt64 rd r) (\<lambda>(u, r').
       let m = bound mod 2 ^ 64 in
       if m = 0 then Inl (Panic DivideByZero) else Inr (to_int64 (u mod m), r'))"

section \<open>Lemmas\<close>

definition shuffler_ok :: "'r reader \<Rightarrow> 'r shuffler \<Rightarrow> bool" where
  "shuffler_ok rd r \<longleftrightarrow> reader_ok rd \<and> 8 \<le> length (sh_buf r)"

lemma readBytes_ok:
  assumes "shuffler_ok rd r" "n \<le> 8"
  shows "\<exists>b r'. readBytes rd r n = Inr (b, r') \<and> length b = n \<and> shuffler_ok rd r'"
proof (cases "sh_pos r + n \<ge> length (sh_buf r)")
  case True
  obtain b src where rd: "rd (sh_src r) (length (sh_buf r)) = (b, src)" by fastforce
  then have "length b = length (sh_buf r)"
    using assms(1) unfolding shuffler_ok_def reader_ok_def by (metis fst_conv)
  then show ?thesis
    using True assms rd by (auto simp: readBytes_def slice_def shuffler_ok_def Let_def)
next
  case False
  then show ?thesis using assms by (auto simp: readBytes_def slice_def shuffler_ok_def Let_def)
qed

lemma UInt32_ok:
  assumes "shuffler_ok rd r"
  shows "\<exists>u r'. UInt32 rd r = Inr (u, r') \<and> 0 \<le> u \<and> u < 2 ^ 32 \<and> shuffler_ok rd r'"
proof -
  obtain b r' where b: "readBytes rd r 4 = Inr (b, r')" "length b = 4" "shuffler_ok rd r'"
    using readBytes_ok [OF assms, of 4] by auto
  then show ?thesis using get_be_bound [of b] by (simp add: UInt32_def)
qed

lemma UInt64_ok:
  assumes "shuffler_ok rd r"
  shows "\<exists>u r'. UInt64 rd r = Inr (u, r') \<and> 0 \<le> u \<and> u < 2 ^ 64 \<and> shuffler_ok rd r'"
proof -
  obtain b r' where b: "readBytes rd r 8 = Inr (b, r')" "length b = 8" "shuffler_ok rd r'"
    using readBytes_ok [OF assms, of 8] by auto
  then show ?thesis using get_be_bound [of b] by (simp add: UInt64_def)
qed

lemma length_swap [simp]: "length (swap xs i j) = length xs"
  by (simp add: swap_def)

lemma mset_swap_list: "i < length xs \<Longrightarrow> j < length xs \<Longrightarrow> mset (swap xs i j) = mset xs"
  unfolding swap_def by (rule mset_swap)

lemma perm_loop_step:
  assumes "i + 2 \<le> n" "UInt32 rd r = Inr (u, r1)" "int (n - i) mod 2 ^ 32 = m" "m \<noteq> 0"
  shows "perm_loop rd r pi i n = perm_loop rd r1 (swap pi i (nat (u mod m) + i)) (i + 1) n"
  unfolding perm_loop.simps [of rd r pi i n] assms(2,3) Let_def
  by (simp only: assms(1,4) if_True if_False sbind_Inr case_prod_conv)

lemma perm_loop_ok:
  assumes "shuffler_ok rd r" "length pi = n" "n < 2 ^ 32"
  shows "\<exists>p r'. perm_loop rd r pi i n = Inr (p, r') \<and> mset p = mset pi \<and> shuffler_ok rd r'"
  using assms
proof (induction rd r pi i n rule: perm_loop.induct)
  case (1 rd r pi i n)
  show ?case
  proof (cases "i + 2 \<le> n")
    case False
    then have "perm_loop rd r pi i n = Inr (pi, r)" by (subst perm_loop.simps) simp
    then show ?thesis using "1.prems"(1) by simp
  next
    case True
    obtain u r1 where u: "UInt32 rd r = Inr (u, r1)" "shuffler_ok rd r1"
      using UInt32_ok [OF "1.prems"(1)] by auto
    define m where "m = int (n - i) mod 2 ^ 32"
    have "n - i < 2 ^ 32" using "1.prems"(3) by (rule le_less_trans [OF diff_le_self])
    then have "int (n - i) < 2 ^ 32" by (simp only: of_nat_less_numeral_power_cancel_iff)
    then have m: "m = int (n - i)" unfolding m_def by (intro mod_pos_pos_trivial) simp_all
    with True have pos: "m > 0" by simp
    define j where "j = nat (u mod m) + i"
    have "nat (u mod m) < n - i"
      using pos_mod_bound [OF pos, of u] pos_mod_sign [OF pos, of u] m by (simp only: nat_less_iff)
    then have j: "j < n" unfolding j_def by linarith
    have IH: "\<exists>p r'. perm_loop rd r1 (swap pi i j) (i + 1) n = Inr (p, r') \<and>
        mset p = mset (swap pi i j) \<and> shuffler_ok rd r'"
      unfolding j_def by (rule "1.IH" [OF True u(1) refl m_def _ u(2)]) (use pos "1.prems" in simp_all)
    have "mset (swap pi i j) = mset pi" using True j "1.prems"(2) by (intro mset_swap_list) auto
    moreover have "perm_loop rd r pi i n = perm_loop rd r1 (swap pi i j) (i + 1) n"
      using pos perm_loop_step [OF True u(1) m_def [symmetric]] by (simp add: j_def)
    ultimately show ?thesis using IH by simp
  qed
qed

lemma Perm_ok:
  assumes "shuffler_ok rd r" "n < 2 ^ 32"
  shows "\<exists>p r'. Perm rd r n = Inr (p, r') \<and> mset p = mset [0..<n] \<and> shuffler_ok rd r'"
  unfolding Perm_def by (rule perm_loop_ok [OF assms(1) _ assms(2)]) simp

lemma perm_of_upt:
  assumes "mset p = mset [0..<n]"
  shows "distinct p" "set p = {..<n}" "length p = n"
proof -
  show "distinct p" by (rule iffD2 [OF mset_eq_imp_distinct_iff [OF assms] distinct_upt])
  have "set p = set [0..<n]" by (rule mset_eq_setD [OF assms])
  then show "set p = {..<n}" by (simp only: set_upt lessThan_atLeast0)
  have "length p = length [0..<n]" by (rule mset_eq_length [OF assms])
  then show "length p = n" by (simp only: length_upt diff_zero)
qed

section \<open>Properties\<close>

text \<open>C32. The Knuth shuffle returns: with a reader that never reads short, \<^verbatim>\<open>Perm(n)\<close> for \<open>n < 2 ^ 32\<close>
  ends without a panic and its result is a permutation of \<open>0, \<dots>, n - 1\<close>, whatever the random bytes.\<close>

theorem Perm_permutation:
  assumes "reader_ok rd" and "8 \<le> length (sh_buf r)" and "n < 2 ^ 32"
  shows "\<exists>p r'. Perm rd r n = Inr (p, r') \<and> distinct p \<and> set p = {..<n} \<and> length p = n"
  using Perm_ok [of rd r n] perm_of_upt assms by (fastforce simp: shuffler_ok_def)

definition zero_reader :: "nat reader" where
  "zero_reader r n = (replicate n (of_nat r), r + 1)"

lemma zero_reader_ok: "reader_ok zero_reader"
  by (simp add: reader_ok_def zero_reader_def)

theorem Perm_permutation_witness:
  "\<exists>p r'. Perm zero_reader \<lparr>sh_src = 0, sh_buf = zeros 8, sh_pos = 0\<rparr> 5 = Inr (p, r') \<and> set p = {..<5}"
  using Perm_permutation [OF zero_reader_ok, of "\<lparr>sh_src = 0, sh_buf = zeros 8, sh_pos = 0\<rparr>" 5] by auto

text \<open>\<^verbatim>\<open>SelectRandom(n, t)\<close> selects \<open>t\<close> different indices below \<open>n\<close> (used to draw a group without
  replacement), and panics when more are asked for than there are.\<close>

theorem SelectRandom_without_replacement:
  assumes "reader_ok rd" and "8 \<le> length (sh_buf r)" and "n < 2 ^ 32"
  shows "if t \<le> n
         then \<exists>s r'. SelectRandom rd r n t = Inr (s, r') \<and> length s = t \<and> distinct s \<and> set s \<subseteq> {..<n}
         else SelectRandom rd r n t = Inl (Panic SliceBounds)"
proof -
  obtain p r' where p: "Perm rd r n = Inr (p, r')" "mset p = mset [0..<n]"
    using Perm_ok [of rd r n] assms by (auto simp: shuffler_ok_def)
  note q = perm_of_upt [OF p(2)]
  show ?thesis
    using p(1) q set_take_subset [of t p]
    by (auto simp: SelectRandom_def slice_def intro: distinct_take)
qed

theorem SelectRandom_without_replacement_witness:
  "\<exists>s r'. SelectRandom zero_reader \<lparr>sh_src = 0, sh_buf = zeros 8, sh_pos = 0\<rparr> 5 3 = Inr (s, r') \<and>
          length s = 3 \<and> distinct s \<and> set s \<subseteq> {..<5}"
  using SelectRandom_without_replacement
    [OF zero_reader_ok, of "\<lparr>sh_src = 0, sh_buf = zeros 8, sh_pos = 0\<rparr>" 5 3] by simp

text \<open>The first value of a shuffler made by \<^verbatim>\<open>NewPRGShuffler\<close> is the beginning of the seed itself:
  the seed is kept as the buffer and is handed out before any output of the generator.\<close>

theorem prg_shuffler_outputs_seed:
  assumes "reader_ok source" and "NewPRGShuffler shake source q = (r, q')"
  shows "\<exists>r'. UInt64 rd r = Inr (get_be (take 8 (fst (source q 128))), r')"
proof -
  have "length (fst (source q 128)) = 128" using assms(1) by (simp add: reader_ok_def)
  then show ?thesis
    using assms(2)
    by (auto simp: NewPRGShuffler_def UInt64_def readBytes_def slice_def Let_def split: prod.splits)
qed

theorem prg_shuffler_outputs_seed_witness:
  "\<exists>r'. UInt64 zero_reader (fst (NewPRGShuffler (\<lambda>_. 0) zero_reader 3)) = Inr (get_be (replicate 8 3), r')"
  using prg_shuffler_outputs_seed [OF zero_reader_ok prod.collapse [symmetric], where rd = zero_reader and q = 3]
  by (simp add: zero_reader_def)

end
