(* ===== verification/Sharing.thy ===== *)
theory Sharing
  imports Crypto Randomness
begin

text \<open>
  Additive secret sharing. Three packages split a secret into random summands: \<^verbatim>\<open>AdditiveShares\<close> of
  \<^verbatim>\<open>src/crypto/dhkx.go\<close> (the decryption key of the anytrust groups), of
  \<^verbatim>\<open>src/crypto/pairing/pairing.go\<close> (the token signing key, in theory \<open>Token\<close>) and of
  \<^verbatim>\<open>src/crypto/ec/scalar.go\<close>. The locale \<open>secret_sharing\<close> is what their users rely on: the shares sum
  to the secret, and therefore applying a key share-wise and adding up the results, in whatever order
  they arrive, is applying the key. The scalars of \<^verbatim>\<open>src/crypto/ec\<close> are modelled as integers below the
  order of P-256, with their encoding, and are the first instance.
\<close>

section \<open>The contract\<close>

lemma foldl_mset_eq:
  assumes "\<And>a b c. f (f a b) c = f (f a c) b" "mset xs = mset ys"
  shows "foldl f z xs = foldl f z ys"
proof -
  have "fold (\<lambda>x s. f s x) xs z = fold (\<lambda>x s. f s x) ys z"
    by (rule fun_cong [OF fold_multiset_equiv]) (use assms in \<open>auto simp: fun_eq_iff\<close>)
  then show ?thesis by (simp add: foldl_conv_fold)
qed

locale secret_sharing =
  fixes carrier :: "'s \<Rightarrow> bool"
    and add :: "'s \<Rightarrow> 's \<Rightarrow> 's"
    and zero :: 's
    and shares :: "(nat \<Rightarrow> 's) \<Rightarrow> 's \<Rightarrow> nat \<Rightarrow> 's list res"
  assumes add_closed: "carrier a \<Longrightarrow> carrier b \<Longrightarrow> carrier (add a b)"
    and zero_closed: "carrier zero"
    and shares_sum: "carrier s \<Longrightarrow> (\<And>i. carrier (rnd i)) \<Longrightarrow> 0 < n \<Longrightarrow>
      \<exists>xs. shares rnd s n = Inr xs \<and> length xs = n \<and> (\<forall>x \<in> set xs. carrier x) \<and> foldr add xs zero = s"
    and shares_none: "shares rnd s 0 = Inl (Panic IndexOutOfRange)"
begin

lemma shares_cases:
  assumes "carrier s" "\<And>i. carrier (rnd i)" "shares rnd s n = Inr xs"
  shows "length xs = n" "0 < n" "\<forall>x \<in> set xs. carrier x" "foldr add xs zero = s"
proof -
  show n: "0 < n" using assms(3) shares_none by (cases n) auto
  show "length xs = n" "\<forall>x \<in> set xs. carrier x" "foldr add xs zero = s"
    using shares_sum [of s rnd n] assms n by auto
qed

text \<open>\<open>act\<close> is what one share holder computes with its share, \<open>comb\<close> the combination of two results.\<close>

lemma foldr_hom:
  assumes "\<And>a b. carrier a \<Longrightarrow> carrier b \<Longrightarrow> act (add a b) = comb (act a) (act b)" "act zero = unit"
    and "\<forall>x \<in> set xs. carrier x"
  shows "foldr comb (map act xs) unit = act (foldr add xs zero) \<and> carrier (foldr add xs zero)"
  using assms(3)
proof (induction xs)
  case Nil
  then show ?case using assms(2) zero_closed by simp
next
  case (Cons x xs)
  then show ?case using assms(1) add_closed by simp
qed

lemma combine_shares:
  assumes "carrier s" "\<And>i. carrier (rnd i)" "shares rnd s n = Inr xs"
    and hom: "\<And>a b. carrier a \<Longrightarrow> carrier b \<Longrightarrow> act (add a b) = comb (act a) (act b)" "act zero = unit"
    and comb: "\<And>a b. comb a b = comb b a" "\<And>a b c. comb (comb a b) c = comb a (comb b c)"
    and perm: "mset ys = mset (map act xs)"
  shows "foldl comb unit ys = act s"
proof -
  have swap: "comb (comb a b) c = comb (comb a c) b" for a b c by (metis comb)
  have "foldl comb unit ys = foldl comb unit (rev (map act xs))"
    by (rule foldl_mset_eq) (simp_all only: swap perm mset_rev)
  also have "\<dots> = foldr (\<lambda>x y. comb y x) (map act xs) unit" by (simp add: foldr_conv_foldl)
  also have "\<dots> = foldr comb (map act xs) unit"
    by (rule foldr_cong) (simp_all add: comb(1))
  finally show ?thesis
    using foldr_hom [OF hom shares_cases(3) [OF assms(1-3)]] shares_cases(4) [OF assms(1-3)] by simp
qed

end

section \<open>Sharing a Diffie-Hellman secret\<close>

text \<open>Documented behaviour of the scalars and points: the scalars are a commutative group under addition, the
  addition of points is associative and commutative, and the multiplication of a multiple of the base point is additive
  in the scalar (the base point has the order of the scalars; points outside its subgroup do not).\<close>

definition scalar_ok :: "('s, 'p) lib \<Rightarrow> 's \<Rightarrow> bool" where
  "scalar_ok L z \<longleftrightarrow>
     (\<forall>a b c. sc_add L (sc_add L a b) c = sc_add L a (sc_add L b c)) \<and>
     (\<forall>a b. sc_add L a b = sc_add L b a) \<and> (\<forall>a. sc_add L a z = a) \<and> (\<forall>a. sc_add L a (sc_neg L a) = z)"

definition mul_ok :: "('s, 'p) lib \<Rightarrow> 's \<Rightarrow> bool" where
  "mul_ok L z \<longleftrightarrow>
     (\<forall>a b c. pt_mul L (sc_add L a b) (pt_base_mul L c) = pt_add L (pt_mul L a (pt_base_mul L c)) (pt_mul L b (pt_base_mul L c))) \<and>
     (\<forall>c. pt_mul L z (pt_base_mul L c) = pt_zero L) \<and> (\<forall>p q. pt_add L p q = pt_add L q p) \<and>
     (\<forall>p q r. pt_add L (pt_add L p q) r = pt_add L p (pt_add L q r))"

lemma foldl_foldr_add:
  assumes "\<And>a b c. comb (comb a b) c = comb a (comb b c)" "\<And>a b. comb a b = comb b a" "\<And>a. comb a z = a"
  shows "foldl comb a xs = comb a (foldr comb xs z)"
proof (induction xs arbitrary: a)
  case Nil
  then show ?case by (simp add: assms(3))
next
  case (Cons x xs)
  then show ?case by (simp add: assms(1))
qed

lemma dh_secret_sharing:
  assumes "scalar_ok L z"
  shows "secret_sharing (\<lambda>_. True) (sc_add L) z (dh_AdditiveShares L)"
proof unfold_locales
  note ax = assms [unfolded scalar_ok_def]
  fix s and rnd :: "nat \<Rightarrow> 'a" and n :: nat
  assume "0 < n"
  define R where "R = foldr (sc_add L) (map rnd [1..<n]) z"
  have "foldl (\<lambda>acc i. sk_Accumulate L acc (rnd i)) (sk_Neg L s) [1..<n] = foldl (sc_add L) (sc_neg L s) (map rnd [1..<n])"
    by (simp add: sk_Accumulate_def sk_Neg_def foldl_map)
  also have "\<dots> = sc_add L (sc_neg L s) R"
    unfolding R_def by (rule foldl_foldr_add) (use ax in auto)
  finally have "dh_AdditiveShares L rnd s n = Inr (sc_neg L (sc_add L (sc_neg L s) R) # map rnd [1..<n])"
    using \<open>0 < n\<close> by (simp add: dh_AdditiveShares_def sk_Neg_def)
  moreover have "sc_add L (sc_neg L (sc_add L (sc_neg L s) R)) R = s"
  proof -
    let ?x = "sc_add L (sc_neg L s) R"
    have "sc_add L (sc_neg L ?x) R = sc_add L (sc_neg L ?x) (sc_add L s ?x)"
      using ax by metis
    also have "\<dots> = sc_add L s (sc_add L ?x (sc_neg L ?x))" using ax by metis
    finally show ?thesis using ax by simp
  qed
  ultimately show "\<exists>xs. dh_AdditiveShares L rnd s n = Inr xs \<and> length xs = n \<and>
      (\<forall>x \<in> set xs. True) \<and> foldr (sc_add L) xs z = s"
    using \<open>0 < n\<close> by (simp add: R_def)
qed (simp_all add: dh_AdditiveShares_def)

section \<open>The scalars of P-256\<close>

type_synonym scalar_element = int

definition CURVE_MOD :: int where
  "CURVE_MOD = 115792089210356248762697446949407573529996955224135760342422259061068512044369"

definition ScalarElementSize :: nat where "ScalarElementSize = 32"

definition ec_Accumulate :: "scalar_element \<Rightarrow> scalar_element list \<Rightarrow> scalar_element" where
  "ec_Accumulate el elems = foldl (+) el elems mod CURVE_MOD"

definition ec_Neg :: "scalar_element \<Rightarrow> scalar_element" where
  "ec_Neg el = (if el = 0 then el else CURVE_MOD - el)"

definition ec_PackTo :: "scalar_element \<Rightarrow> bytes \<Rightarrow> bytes res" where
  "ec_PackTo s b =
     (if length b \<noteq> ScalarElementSize then Inl (Panic (PanicError LengthInvalidError))
      else if \<bar>s\<bar> \<ge> 256 ^ length b then Inl (Panic (PanicMessage ''math/big: buffer too small to fit value''))
      else Inr (rev (put_le (length b) \<bar>s\<bar>)))"

definition ec_Marshal :: "scalar_element \<Rightarrow> bytes res" where
  "ec_Marshal s = ec_PackTo s (zeros ScalarElementSize)"

definition ec_InterpretFrom :: "bytes \<Rightarrow> scalar_element res" where
  "ec_InterpretFrom b =
     (if length b \<noteq> ScalarElementSize then Inl (Err LengthInvalidError)
      else if get_be b \<ge> CURVE_MOD then Inl (Err BadElementError)
      else Inr (get_be b))"

definition scalar_mask :: bytes where
  "scalar_mask = [0xff, 0x1, 0x3, 0x7, 0xf, 0x1f, 0x3f, 0x7f]"

text \<open>Rejection sampling: the order has 256 bits, so 32 bytes are read and the mask used is \<open>0xff\<close>.
  The loop may draw any number of times; \<open>None\<close> is a run that never accepts.\<close>

partial_function (option) ec_RandomCurveScalar :: "'r reader \<Rightarrow> 'r \<Rightarrow> (scalar_element \<times> 'r) option" where
  "ec_RandomCurveScalar rd r =
     (let (b, r') = rd r 32; buf = b[0 := b ! 0 AND scalar_mask ! (256 mod 8)] in
      if get_be buf \<ge> CURVE_MOD then ec_RandomCurveScalar rd r' else Some (get_be buf, r'))"

definition ec_AdditiveShares ::
  "(nat \<Rightarrow> scalar_element) \<Rightarrow> scalar_element \<Rightarrow> nat \<Rightarrow> scalar_element list res" where
  "ec_AdditiveShares rnd secret numShares =
     (if numShares = 0 then Inl (Panic IndexOutOfRange)
      else Inr (ec_Neg (ec_Accumulate (ec_Neg secret) (map rnd [1..<numShares])) # map rnd [1..<numShares]))"

definition scalar_range :: "scalar_element \<Rightarrow> bool" where
  "scalar_range x \<longleftrightarrow> 0 \<le> x \<and> x < CURVE_MOD"

lemma CURVE_MOD_pos [simp]: "0 < CURVE_MOD"
  by (simp add: CURVE_MOD_def)

lemma ec_Neg_mod: "ec_Neg x mod CURVE_MOD = (- x) mod CURVE_MOD"
proof -
  have "(CURVE_MOD - x) mod CURVE_MOD = (- x) mod CURVE_MOD"
    using mod_add_self1 [of CURVE_MOD "- x"] by simp
  then show ?thesis by (simp add: ec_Neg_def)
qed

lemma ec_Neg_range: "scalar_range x \<Longrightarrow> scalar_range (ec_Neg x)"
  by (auto simp: ec_Neg_def scalar_range_def)

lemma foldl_add_int: "foldl (+) (a :: int) xs = a + sum_list xs"
  by (induction xs arbitrary: a) auto

lemma foldr_add_mod:
  "foldr (\<lambda>a b. (a + b) mod N) xs (0 :: int) = sum_list xs mod N"
  by (induction xs) (auto simp: mod_simps)

interpretation ec_shares: secret_sharing scalar_range "\<lambda>a b. (a + b) mod CURVE_MOD" 0 ec_AdditiveShares
proof unfold_locales
  fix s and rnd :: "nat \<Rightarrow> int" and n :: nat
  assume s: "scalar_range s" and rnd: "\<And>i. scalar_range (rnd i)" and n: "0 < n"
  define S where "S = sum_list (map rnd [1..<n])"
  define x where "x = ec_Neg (ec_Accumulate (ec_Neg s) (map rnd [1..<n]))"
  have sh: "ec_AdditiveShares rnd s n = Inr (x # map rnd [1..<n])"
    using n by (simp add: ec_AdditiveShares_def x_def)
  have "scalar_range (ec_Accumulate (ec_Neg s) (map rnd [1..<n]))"
    by (simp add: ec_Accumulate_def scalar_range_def)
  then have range: "scalar_range x" unfolding x_def by (rule ec_Neg_range)
  have "x mod CURVE_MOD = (- (ec_Neg s + S)) mod CURVE_MOD"
    unfolding x_def ec_Neg_mod ec_Accumulate_def foldl_add_int S_def by (simp add: mod_simps)
  also have "\<dots> = (s - S) mod CURVE_MOD"
  proof -
    have "(- ec_Neg s) mod CURVE_MOD = (- (- s mod CURVE_MOD)) mod CURVE_MOD"
      using mod_minus_eq [of "ec_Neg s" CURVE_MOD] unfolding ec_Neg_mod by simp
    also have "\<dots> = s mod CURVE_MOD" by (simp only: mod_minus_eq minus_minus)
    finally have "(- ec_Neg s - S) mod CURVE_MOD = (s - S) mod CURVE_MOD"
      by (rule mod_diff_cong) (rule refl)
    then show ?thesis by simp
  qed
  finally have "(x + S) mod CURVE_MOD = s mod CURVE_MOD"
    by (metis add.commute diff_add_cancel mod_add_right_eq)
  then have "foldr (\<lambda>a b. (a + b) mod CURVE_MOD) (x # map rnd [1..<n]) 0 = s"
    unfolding foldr_add_mod using s by (simp add: S_def scalar_range_def)
  then show "\<exists>xs. ec_AdditiveShares rnd s n = Inr xs \<and> length xs = n \<and> (\<forall>x \<in> set xs. scalar_range x) \<and>
      foldr (\<lambda>a b. (a + b) mod CURVE_MOD) xs 0 = s"
    using sh range rnd n by auto
qed (simp_all add: scalar_range_def ec_AdditiveShares_def)

lemma get_be_rev_put_le: "get_be (rev (put_le n x)) = x mod 256 ^ n"
  by (simp add: get_be_def get_put_le)

lemma ec_marshal_roundtrip: "scalar_range x \<Longrightarrow> sbind (ec_Marshal x) ec_InterpretFrom = Inr x"
  by (simp add: ec_Marshal_def ec_PackTo_def ec_InterpretFrom_def scalar_range_def ScalarElementSize_def
      get_be_rev_put_le CURVE_MOD_def del: put_le.simps)

lemma ec_RandomCurveScalar_range:
  assumes "ec_RandomCurveScalar rd r = Some (x, r')"
  shows "scalar_range x"
proof -
  have "(case xr of (x, r') \<Rightarrow> scalar_range x)" if "ec_RandomCurveScalar rd r = Some xr" for xr
    using that
  proof (induction rule: ec_RandomCurveScalar.raw_induct [rotated, consumes 1, case_names step])
    case (step f r xr)
    then show ?case by (auto simp: Let_def scalar_range_def split: prod.splits if_splits)
  qed
  from this [OF assms] show ?thesis by simp
qed

section \<open>Properties\<close>

text \<open>Additive sharing over the scalars of P-256: for every secret and all random values below the
  order, \<^verbatim>\<open>AdditiveShares\<close> returns the number of shares asked for, every share is again a canonical
  scalar that survives its encoding, and the shares sum to the secret modulo the order; for no shares it
  panics.\<close>

theorem ec_shares_sum_to_secret:
  assumes "scalar_range secret" and "\<And>i. scalar_range (rnd i)"
  shows "if numShares = 0 then ec_AdditiveShares rnd secret numShares = Inl (Panic IndexOutOfRange)
         else \<exists>xs. ec_AdditiveShares rnd secret numShares = Inr xs \<and> length xs = numShares \<and>
                   sum_list xs mod CURVE_MOD = secret \<and>
                   (\<forall>x \<in> set xs. sbind (ec_Marshal x) ec_InterpretFrom = Inr x)"
  using ec_shares.shares_sum [of secret rnd numShares] ec_shares.shares_none assms ec_marshal_roundtrip
  unfolding foldr_add_mod by (cases "numShares = 0") force+

theorem ec_shares_sum_to_secret_witness:
  "\<exists>xs. ec_AdditiveShares (\<lambda>i. CURVE_MOD - 1) 5 3 = Inr xs \<and> length xs = 3 \<and> sum_list xs mod CURVE_MOD = 5"
  using ec_shares_sum_to_secret [of 5 "\<lambda>i. CURVE_MOD - 1" 3] by (auto simp: scalar_range_def CURVE_MOD_def)

end
