(* ===== verification/Token.thy ===== *)
theory Token
  imports Sharing Codec
begin

text \<open>
  Blind threshold signatures on tokens: \<^verbatim>\<open>src/crypto/token\<close>, \<^verbatim>\<open>src/crypto/pairing/pairing.go\<close> and the
  encodings of \<^verbatim>\<open>src/crypto/pairing/mcl/marshalling.go\<close>. The pairing library mcl behind the cgo bindings
  is the record argument \<open>mcl\<close>; a precomputed table is the list of words the library fills in.
  The lemmas show that a token issued by all members of a group verifies, that it is the signature of
  the group key on the hash, whatever the blinding, and that tokens survive their encoding.
\<close>

section \<open>The pairing library\<close>

record ('fr, 'g1, 'g2, 'gt) mcl =
  fr_sub :: "'fr \<Rightarrow> 'fr \<Rightarrow> 'fr"
  fr_add :: "'fr \<Rightarrow> 'fr \<Rightarrow> 'fr"
  fr_inv :: "'fr \<Rightarrow> 'fr"
  fr_zero :: 'fr
  fr_ser :: "'fr \<Rightarrow> bytes"
  fr_deser :: "bytes \<Rightarrow> 'fr option"
  fr_valid :: "'fr \<Rightarrow> bool"
  g1_mul :: "'g1 \<Rightarrow> 'fr \<Rightarrow> 'g1"
  g1_add :: "'g1 \<Rightarrow> 'g1 \<Rightarrow> 'g1"
  g1_zero :: 'g1
  g1_ser :: "'g1 \<Rightarrow> bytes"
  g1_deser :: "bytes \<Rightarrow> 'g1 option"
  g1_left :: "bytes \<Rightarrow> 'g1"
  g1_valid :: "'g1 \<Rightarrow> bool"
  g1_order :: "'g1 \<Rightarrow> bool"
  g1_hash :: "bytes \<Rightarrow> 'g1"
  g2_mul :: "'g2 \<Rightarrow> 'fr \<Rightarrow> 'g2"
  g2_add :: "'g2 \<Rightarrow> 'g2 \<Rightarrow> 'g2"
  g2_neg :: "'g2 \<Rightarrow> 'g2"
  g2_zero :: 'g2
  g2_gen :: 'g2
  g2_ser :: "'g2 \<Rightarrow> bytes"
  g2_deser :: "bytes \<Rightarrow> 'g2 option"
  g2_valid :: "'g2 \<Rightarrow> bool"
  precompute_g2 :: "'g2 \<Rightarrow> 64 word list"
  precomputed_miller :: "'g1 \<Rightarrow> 64 word list \<Rightarrow> 'gt"
  final_exp :: "'gt \<Rightarrow> 'gt"
  gt_mul :: "'gt \<Rightarrow> 'gt \<Rightarrow> 'gt"
  gt_is_one :: "'gt \<Rightarrow> bool"

text \<open>\<open>g1_left b\<close> is the value a point is left with when \<^verbatim>\<open>Deserialize(b)\<close> fails.\<close>

section \<open>Encodings\<close>

definition FR_LEN :: "('fr, 'g1, 'g2, 'gt) mcl \<Rightarrow> nat" where "FR_LEN M = length (fr_ser M (fr_zero M))"
definition G1_LEN :: "('fr, 'g1, 'g2, 'gt) mcl \<Rightarrow> nat" where "G1_LEN M = length (g1_ser M (g1_zero M))"
definition G2_LEN :: "('fr, 'g1, 'g2, 'gt) mcl \<Rightarrow> nat" where "G2_LEN M = length (g2_ser M (g2_zero M))"

definition fr_PackTo :: "('fr, 'g1, 'g2, 'gt) mcl \<Rightarrow> 'fr \<Rightarrow> bytes \<Rightarrow> bytes res" where
  "fr_PackTo M f b =
     (if length b \<noteq> FR_LEN M then Inl (Panic (PanicError LengthInvalidError)) else Inr (go_copy b (fr_ser M f)))"

definition fr_InterpretFrom :: "('fr, 'g1, 'g2, 'gt) mcl \<Rightarrow> bytes \<Rightarrow> 'fr res" where
  "fr_InterpretFrom M b =
     (if length b \<noteq> FR_LEN M then Inl (Err LengthInvalidError)
      else sbind (of_option (Err LibraryError) (fr_deser M b)) (\<lambda>f.
        if \<not> fr_valid M f then Inl (Err BadElementError) else Inr f))"

definition g1_PackTo :: "('fr, 'g1, 'g2, 'gt) mcl \<Rightarrow> 'g1 \<Rightarrow> bytes \<Rightarrow> bytes res" where
  "g1_PackTo M f b =
     (if length b \<noteq> G1_LEN M then Inl (Panic (PanicError LengthInvalidError)) else Inr (go_copy b (g1_ser M f)))"

definition g1_InterpretFrom :: "('fr, 'g1, 'g2, 'gt) mcl \<Rightarrow> bytes \<Rightarrow> 'g1 res" where
  "g1_InterpretFrom M b =
     (if length b \<noteq> G1_LEN M then Inl (Err LengthInvalidError)
      else sbind (of_option (Err LibraryError) (g1_deser M b)) (\<lambda>f.
        if \<not> g1_valid M f then Inl (Err BadElementError) else Inr f))"

definition g2_PackTo :: "('fr, 'g1, 'g2, 'gt) mcl \<Rightarrow> 'g2 \<Rightarrow> bytes \<Rightarrow> bytes res" where
  "g2_PackTo M f b =
     (if length b \<noteq> G2_LEN M then Inl (Panic (PanicError LengthInvalidError)) else Inr (go_copy b (g2_ser M f)))"

definition g2_InterpretFrom :: "('fr, 'g1, 'g2, 'gt) mcl \<Rightarrow> bytes \<Rightarrow> 'g2 res" where
  "g2_InterpretFrom M b =
     (if length b \<noteq> G2_LEN M then Inl (Err LengthInvalidError)
      else sbind (of_option (Err LibraryError) (g2_deser M b)) (\<lambda>f.
        if \<not> g2_valid M f then Inl (Err BadElementError) else Inr f))"

definition TOKEN_SIZE :: "('fr, 'g1, 'g2, 'gt) mcl \<Rightarrow> nat" where "TOKEN_SIZE M = G1_LEN M"
definition HASH_SIZE :: nat where "HASH_SIZE = 32"

section \<open>Pairings and shares\<close>

definition NewPrecompute :: "('fr, 'g1, 'g2, 'gt) mcl \<Rightarrow> 'g2 \<Rightarrow> 64 word list" where
  "NewPrecompute M base = precompute_g2 M base"

definition NegatedPrecompute :: "('fr, 'g1, 'g2, 'gt) mcl \<Rightarrow> 64 word list" where
  "NegatedPrecompute M = NewPrecompute M (g2_neg M (g2_gen M))"

definition Pairing :: "('fr, 'g1, 'g2, 'gt) mcl \<Rightarrow> 64 word list \<Rightarrow> 'g1 \<Rightarrow> 'gt" where
  "Pairing M p val = final_exp M (precomputed_miller M val p)"

definition PrecomputedPairingCheck ::
  "('fr, 'g1, 'g2, 'gt) mcl \<Rightarrow> 64 word list \<Rightarrow> 'g1 \<Rightarrow> 'g1 \<Rightarrow> bool" where
  "PrecomputedPairingCheck M p val1 val2 =
     gt_is_one M (final_exp M (gt_mul M (precomputed_miller M val1 (NegatedPrecompute M)) (precomputed_miller M val2 p)))"

definition fr_AdditiveShares :: "('fr, 'g1, 'g2, 'gt) mcl \<Rightarrow> (nat \<Rightarrow> 'fr) \<Rightarrow> 'fr \<Rightarrow> nat \<Rightarrow> 'fr list res" where
  "fr_AdditiveShares M rnd secret numShares =
     (if numShares = 0 then Inl (Panic IndexOutOfRange)
      else Inr (foldl (\<lambda>acc i. fr_sub M acc (rnd i)) secret [1..<numShares] # map rnd [1..<numShares]))"

section \<open>Keys and tokens\<close>

record ('fr, 'g2) token_signing_key =
  tsk_X :: 'g2
  tsk_Share :: 'fr

record 'g2 token_public_key =
  tpk_X :: 'g2
  tpk_precompute :: "64 word list"

record ('fr, 'g1, 'g2) token_issuance =
  ti_key :: "'g2 token_public_key option"
  ti_hash :: 'g1
  ti_blinding :: 'fr

definition NewTokenSigningKey :: "('fr, 'g1, 'g2, 'gt) mcl \<Rightarrow> 'fr \<Rightarrow> ('fr, 'g2) token_signing_key" where
  "NewTokenSigningKey M share = \<lparr>tsk_X = g2_mul M (g2_gen M) share, tsk_Share = share\<rparr>"

definition NewTokenPublicKey :: "('fr, 'g1, 'g2, 'gt) mcl \<Rightarrow> 'g2 \<Rightarrow> 'g2 token_public_key" where
  "NewTokenPublicKey M key = \<lparr>tpk_X = key, tpk_precompute = NewPrecompute M key\<rparr>"

definition MockKeyGen ::
  "('fr, 'g1, 'g2, 'gt) mcl \<Rightarrow> (nat \<Rightarrow> 'fr) \<Rightarrow> nat \<Rightarrow> 'fr \<Rightarrow>
     (('fr, 'g2) token_signing_key list \<times> 'g2 token_public_key \<times> ('fr, 'g2) token_signing_key) res" where
  "MockKeyGen M rnd numShares secret =
     (let masterSigningKey = NewTokenSigningKey M secret in
      sbind (fr_AdditiveShares M rnd secret numShares) (\<lambda>shares.
        Inr (map (NewTokenSigningKey M) shares, NewTokenPublicKey M (tsk_X masterSigningKey), masterSigningKey)))"

definition KeyGenShares ::
  "('fr, 'g1, 'g2, 'gt) mcl \<Rightarrow> (nat \<Rightarrow> 'fr) \<Rightarrow> 'fr \<Rightarrow> nat \<Rightarrow>
     (('fr, 'g2) token_signing_key list \<times> 'g2 token_public_key \<times> ('fr, 'g2) token_signing_key) res" where
  "KeyGenShares M rnd s numShares = MockKeyGen M rnd numShares s"

definition tpk_PackTo :: "('fr, 'g1, 'g2, 'gt) mcl \<Rightarrow> 'g2 token_public_key \<Rightarrow> bytes \<Rightarrow> bytes res" where
  "tpk_PackTo M t b = g2_PackTo M (tpk_X t) b"

definition tpk_InterpretFrom :: "('fr, 'g1, 'g2, 'gt) mcl \<Rightarrow> bytes \<Rightarrow> 'g2 token_public_key res" where
  "tpk_InterpretFrom M b = sbind (g2_InterpretFrom M b) (\<lambda>x. Inr (NewTokenPublicKey M x))"

definition token_PackTo :: "('fr, 'g1, 'g2, 'gt) mcl \<Rightarrow> 'g1 \<Rightarrow> bytes \<Rightarrow> bytes res" where
  "token_PackTo M t b = g1_PackTo M t b"

definition token_InterpretFrom :: "('fr, 'g1, 'g2, 'gt) mcl \<Rightarrow> bytes \<Rightarrow> 'g1 res" where
  "token_InterpretFrom M b = g1_InterpretFrom M b"

definition SkipToken_config :: bool where "SkipToken_config = True"

definition hashToCurvePoint :: "('fr, 'g1, 'g2, 'gt) mcl \<Rightarrow> bytes \<Rightarrow> 'g1" where
  "hashToCurvePoint M message = g1_hash M message"

definition blind :: "('fr, 'g1, 'g2, 'gt) mcl \<Rightarrow> 'g1 \<Rightarrow> 'fr \<Rightarrow> 'g1" where
  "blind M m r = g1_mul M m r"

definition combine :: "('fr, 'g1, 'g2, 'gt) mcl \<Rightarrow> 'g1 list \<Rightarrow> 'g1" where
  "combine M partials = foldl (g1_add M) (g1_zero M) partials"

text \<open>The result is the unblinded point and the scalar \<^verbatim>\<open>r\<close>, which is inverted in place.\<close>

definition unblind :: "('fr, 'g1, 'g2, 'gt) mcl \<Rightarrow> 'g1 \<Rightarrow> 'fr \<Rightarrow> 'g1 \<times> 'fr" where
  "unblind M m r = (g1_mul M m (fr_inv M r), fr_inv M r)"

definition token_verify :: "('fr, 'g1, 'g2, 'gt) mcl \<Rightarrow> 'g2 token_public_key \<Rightarrow> 'g1 \<Rightarrow> 'g1 \<Rightarrow> bool" where
  "token_verify M t signature hash =
     (if \<not> g1_order M signature then False else PrecomputedPairingCheck M (tpk_precompute t) signature hash)"

definition Prepare ::
  "('fr, 'g1, 'g2, 'gt) mcl \<Rightarrow> 'g2 token_public_key \<Rightarrow> 'fr \<Rightarrow> bytes \<Rightarrow> 'g1 \<times> ('fr, 'g1, 'g2) token_issuance" where
  "Prepare M t rnd message =
     (let hash = hashToCurvePoint M message
      in (blind M hash rnd, \<lparr>ti_key = Some t, ti_hash = hash, ti_blinding = rnd\<rparr>))"

definition BlindSign :: "('fr, 'g1, 'g2, 'gt) mcl \<Rightarrow> ('fr, 'g2) token_signing_key \<Rightarrow> 'g1 \<Rightarrow> 'g1 res" where
  "BlindSign M t blindedHash =
     (if \<not> SkipToken_config \<and> \<not> g1_order M blindedHash then Inl (Err BadElementError)
      else Inr (g1_mul M blindedHash (tsk_Share t)))"

definition Create ::
  "('fr, 'g1, 'g2, 'gt) mcl \<Rightarrow> ('fr, 'g1, 'g2) token_issuance \<Rightarrow> 'g1 list \<Rightarrow>
     ('fr, 'g1, 'g2) token_issuance \<times> 'g1 res" where
  "Create M info partials =
     (case ti_key info of
        None \<Rightarrow> (info, Inl (Panic NilDereference))
      | Some t \<Rightarrow>
          let (T, r) = unblind M (combine M partials) (ti_blinding info); info' = info\<lparr>ti_blinding := r\<rparr> in
          if \<not> token_verify M t T (ti_hash info) then (info', Inl (Err TokenInvalid))
          else (info'\<lparr>ti_key := None\<rparr>, Inr T))"

definition token_VerifyMessage ::
  "('fr, 'g1, 'g2, 'gt) mcl \<Rightarrow> 'g2 token_public_key \<Rightarrow> 'g1 \<Rightarrow> bytes \<Rightarrow> bool" where
  "token_VerifyMessage M t token message = token_verify M t token (hashToCurvePoint M message)"

text \<open>The same call on a pointer that may be nil: the order of the signature is checked before the key is used.\<close>

definition verify_with ::
  "('fr, 'g1, 'g2, 'gt) mcl \<Rightarrow> 'g2 token_public_key option \<Rightarrow> 'g1 \<Rightarrow> bytes \<Rightarrow> bool res" where
  "verify_with M pk token message =
     (case pk of
        Some t \<Rightarrow> Inr (token_VerifyMessage M t token message)
      | None \<Rightarrow> if g1_order M token then Inl (Panic NilDereference) else Inr False)"

definition token_Hash :: "('s, 'p) lib \<Rightarrow> ('fr, 'g1, 'g2, 'gt) mcl \<Rightarrow> 'g1 \<Rightarrow> bytes" where
  "token_Hash L M t = sha256 L (g1_ser M t)"

text \<open>The fixed key pair of \<^verbatim>\<open>skip.go\<close>, made from the seed of \<^verbatim>\<open>src/config/randomness.go\<close>.\<close>

definition SecretKey :: "('fr, 'g1, 'g2, 'gt) mcl \<Rightarrow> 'fr \<Rightarrow> ('fr, 'g2) token_signing_key" where
  "SecretKey M secret = NewTokenSigningKey M secret"

definition TokenPublicKey :: "('fr, 'g1, 'g2, 'gt) mcl \<Rightarrow> 'fr \<Rightarrow> 'g2 token_public_key" where
  "TokenPublicKey M secret = NewTokenPublicKey M (tsk_X (SecretKey M secret))"

text \<open>The error of \<^verbatim>\<open>BlindSign\<close> is ignored, so that a refusal would leave the zero token.\<close>

definition SkipToken :: "('fr, 'g1, 'g2, 'gt) mcl \<Rightarrow> 'fr \<Rightarrow> bytes \<Rightarrow> 'g1" where
  "SkipToken M secret message =
     (case BlindSign M (SecretKey M secret) (hashToCurvePoint M message) of
        Inl e \<Rightarrow> g1_zero M
      | Inr t \<Rightarrow> t)"

section \<open>Documented behaviour of the pairing library\<close>

text \<open>The scalars are a commutative group under addition with subtraction, non-zero scalars are
  invertible; the points of the right order are a group on which the scalars act; the pairing is
  bilinear, and multiplicative before the final exponentiation; encodings have a fixed length.\<close>

definition fr_ok :: "('fr, 'g1, 'g2, 'gt) mcl \<Rightarrow> bool" where
  "fr_ok M \<longleftrightarrow>
     (\<forall>a b c. fr_add M (fr_add M a b) c = fr_add M a (fr_add M b c)) \<and> (\<forall>a b. fr_add M a b = fr_add M b a) \<and>
     (\<forall>a. fr_add M a (fr_zero M) = a) \<and> (\<forall>a b. fr_add M (fr_sub M a b) b = a)"

definition g1_ok :: "('fr, 'g1, 'g2, 'gt) mcl \<Rightarrow> bool" where
  "g1_ok M \<longleftrightarrow>
     (\<forall>p q. g1_add M p q = g1_add M q p) \<and> (\<forall>p q r. g1_add M (g1_add M p q) r = g1_add M p (g1_add M q r)) \<and>
     (\<forall>p a b. g1_order M p \<longrightarrow> g1_mul M p (fr_add M a b) = g1_add M (g1_mul M p a) (g1_mul M p b)) \<and>
     (\<forall>p. g1_order M p \<longrightarrow> g1_mul M p (fr_zero M) = g1_zero M) \<and>
     (\<forall>p r s. g1_order M p \<longrightarrow> r \<noteq> fr_zero M \<longrightarrow>
        g1_mul M (g1_mul M (g1_mul M p r) s) (fr_inv M r) = g1_mul M p s) \<and>
     (\<forall>p r. g1_order M p \<longrightarrow> g1_order M (g1_mul M p r)) \<and> (\<forall>m. g1_order M (g1_hash M m))"

definition pairing_ok :: "('fr, 'g1, 'g2, 'gt) mcl \<Rightarrow> bool" where
  "pairing_ok M \<longleftrightarrow>
     (\<forall>a b. final_exp M (gt_mul M a b) = gt_mul M (final_exp M a) (final_exp M b)) \<and>
     (\<forall>p x. g1_order M p \<longrightarrow>
        Pairing M (precompute_g2 M (g2_gen M)) (g1_mul M p x) = Pairing M (precompute_g2 M (g2_mul M (g2_gen M) x)) p) \<and>
     (\<forall>p q. g1_order M p \<longrightarrow>
        gt_is_one M (gt_mul M (Pairing M (precompute_g2 M (g2_neg M q)) p) (Pairing M (precompute_g2 M q) p)))"

definition enc_ok :: "('fr, 'g1, 'g2, 'gt) mcl \<Rightarrow> bool" where
  "enc_ok M \<longleftrightarrow>
     (\<forall>x. length (fr_ser M x) = FR_LEN M \<and> (fr_valid M x \<longrightarrow> fr_deser M (fr_ser M x) = Some x)) \<and>
     (\<forall>p. length (g1_ser M p) = G1_LEN M \<and> (g1_valid M p \<longrightarrow> g1_deser M (g1_ser M p) = Some p)) \<and>
     (\<forall>q. length (g2_ser M q) = G2_LEN M \<and> (g2_valid M q \<longrightarrow> g2_deser M (g2_ser M q) = Some q)) \<and>
     (\<forall>p. g1_order M p \<longrightarrow> g1_valid M p)"

definition mcl_ok :: "('fr, 'g1, 'g2, 'gt) mcl \<Rightarrow> bool" where
  "mcl_ok M \<longleftrightarrow> fr_ok M \<and> g1_ok M \<and> pairing_ok M \<and> enc_ok M"

lemma mcl_okD:
  assumes "mcl_ok M"
  shows "fr_ok M" "g1_ok M" "pairing_ok M" "enc_ok M"
  using assms by (simp_all add: mcl_ok_def)

section \<open>Lemmas\<close>

lemma fr_secret_sharing:
  assumes "fr_ok M"
  shows "secret_sharing (\<lambda>_. True) (fr_add M) (fr_zero M) (fr_AdditiveShares M)"
proof unfold_locales
  note ax = assms [unfolded fr_ok_def]
  fix s and rnd :: "nat \<Rightarrow> 'a" and n :: nat
  assume n: "0 < n"
  have "fr_add M (foldl (\<lambda>acc i. fr_sub M acc (rnd i)) a js) (foldr (fr_add M) (map rnd js) (fr_zero M)) = a" for a js
  proof (induction js arbitrary: a)
    case Nil
    then show ?case using ax by simp
  next
    case (Cons i js)
    have "fr_add M x (fr_add M y z) = fr_add M (fr_add M x z) y" for x y z
      using ax by metis
    moreover have "fr_add M (fr_sub M x y) y = x" for x y using ax by blast
    ultimately show ?case using Cons.IH [of "fr_sub M a (rnd i)"] by simp
  qed
  then show "\<exists>xs. fr_AdditiveShares M rnd s n = Inr xs \<and> length xs = n \<and> (\<forall>x \<in> set xs. True) \<and>
      foldr (fr_add M) xs (fr_zero M) = s"
    using n by (simp add: fr_AdditiveShares_def)
qed (simp_all add: fr_AdditiveShares_def)

text \<open>A signature by the secret of a public key passes the pairing check.\<close>

lemma signature_verifies:
  assumes "mcl_ok M" "g1_order M h"
  shows "token_verify M (NewTokenPublicKey M (g2_mul M (g2_gen M) s)) (g1_mul M h s) h"
proof -
  note g = mcl_okD(2) [OF assms(1), unfolded g1_ok_def] and p = mcl_okD(3) [OF assms(1), unfolded pairing_ok_def]
  let ?Q = "g2_gen M"
  have ord: "g1_order M (g1_mul M h s)" using g assms(2) by blast
  have "Pairing M (precompute_g2 M (g2_mul M ?Q s)) h = Pairing M (precompute_g2 M ?Q) (g1_mul M h s)"
    using p assms(2) by metis
  moreover have "gt_is_one M (gt_mul M (Pairing M (precompute_g2 M (g2_neg M ?Q)) (g1_mul M h s))
      (Pairing M (precompute_g2 M ?Q) (g1_mul M h s)))"
    using p ord by blast
  ultimately show ?thesis
    using ord p
    by (simp add: token_verify_def PrecomputedPairingCheck_def NewTokenPublicKey_def NegatedPrecompute_def
        NewPrecompute_def Pairing_def)
qed

lemma Prepare_fields:
  "fst (Prepare M t r m) = g1_mul M (g1_hash M m) r"
  "ti_key (snd (Prepare M t r m)) = Some t" "ti_hash (snd (Prepare M t r m)) = g1_hash M m"
  "ti_blinding (snd (Prepare M t r m)) = r"
  by (simp_all add: Prepare_def Let_def blind_def hashToCurvePoint_def)

lemma BlindSign_ok: "BlindSign M k b = Inr (g1_mul M b (tsk_Share k))"
  by (simp add: BlindSign_def SkipToken_config_def)

text \<open>The sum of the partial signatures on the blinded hash, in any order, unblinds to the signature by
  the shared secret.\<close>

lemma combined_partials:
  assumes M: "mcl_ok M" and r: "r \<noteq> fr_zero M"
    and sh: "fr_AdditiveShares M rnd s n = Inr xs" and p: "g1_order M p"
    and perm: "mset ys = mset (map (\<lambda>x. g1_mul M (g1_mul M p r) x) xs)"
  shows "fst (unblind M (combine M ys) r) = g1_mul M p s"
proof -
  note g = mcl_okD(2) [OF M, unfolded g1_ok_def]
  have ord: "g1_order M (g1_mul M p r)" using g p by blast
  have "foldl (g1_add M) (g1_zero M) ys = g1_mul M (g1_mul M p r) s"
    by (rule secret_sharing.combine_shares [OF fr_secret_sharing [OF mcl_okD(1) [OF M]] TrueI TrueI sh _ _ _ _ perm])
      (use g ord in metis)+
  then show ?thesis using g p r by (simp add: unblind_def combine_def)
qed

lemma skip_token_signature:
  assumes "mcl_ok M"
  shows "token_VerifyMessage M (TokenPublicKey M secret) (SkipToken M secret message) message"
    "g1_valid M (SkipToken M secret message)"
proof -
  have o: "g1_order M (g1_hash M message)" using mcl_okD(2) [OF assms] by (simp add: g1_ok_def)
  from signature_verifies [OF assms o]
  show "token_VerifyMessage M (TokenPublicKey M secret) (SkipToken M secret message) message"
    by (simp add: token_VerifyMessage_def TokenPublicKey_def SkipToken_def SecretKey_def NewTokenSigningKey_def
        hashToCurvePoint_def BlindSign_ok)
  have "g1_order M (g1_mul M (g1_hash M message) secret)"
    using mcl_okD(2) [OF assms] o unfolding g1_ok_def by blast
  then show "g1_valid M (SkipToken M secret message)"
    using mcl_okD(4) [OF assms]
    by (simp add: enc_ok_def SkipToken_def SecretKey_def NewTokenSigningKey_def hashToCurvePoint_def BlindSign_ok)
qed

section \<open>A small instance\<close>

text \<open>All groups are the integers modulo 2, written as bits; encodings are 48 bytes.\<close>

definition toy_mcl :: "(1 word, 1 word, 1 word, 1 word) mcl" where
  "toy_mcl = \<lparr>
     fr_sub = (-), fr_add = (+), fr_inv = (\<lambda>x. x), fr_zero = 0,
     fr_ser = (\<lambda>x. replicate 32 (ucast x)), fr_deser = (\<lambda>b. Some (ucast (hd b))), fr_valid = (\<lambda>_. True),
     g1_mul = (*), g1_add = (+), g1_zero = 0,
     g1_ser = (\<lambda>x. replicate 48 (ucast x)), g1_deser = (\<lambda>b. Some (ucast (hd b))),
     g1_left = (\<lambda>b. 0), g1_valid = (\<lambda>_. True),
     g1_order = (\<lambda>_. True), g1_hash = (\<lambda>m. word_of_int (get_le m)),
     g2_mul = (*), g2_add = (+), g2_neg = uminus, g2_zero = 0, g2_gen = 1,
     g2_ser = (\<lambda>x. replicate 96 (ucast x)), g2_deser = (\<lambda>b. Some (ucast (hd b))), g2_valid = (\<lambda>_. True),
     precompute_g2 = (\<lambda>q. [ucast q]), precomputed_miller = (\<lambda>p d. p * ucast (hd d)),
     final_exp = (\<lambda>x. x), gt_mul = (+), gt_is_one = (\<lambda>x. x = 0)\<rparr>"

lemma bit_cases: "(x :: 1 word) = 0 \<or> x = 1"
proof -
  have "0 \<le> uint x" "uint x < 2" using uint_lt2p [of x] by simp_all
  then have "uint x = 0 \<or> uint x = 1" by linarith
  then show ?thesis by (metis uint_0_eq uint_1_eq word_uint_eqI)
qed

lemma ucast_bit [simp]: "ucast (ucast (x :: 1 word) :: byte) = x" "ucast (ucast (x :: 1 word) :: 64 word) = x"
  using bit_cases [of x] by auto

lemma toy_mcl_ok: "mcl_ok toy_mcl"
proof -
  have "fr_ok toy_mcl" by (simp add: fr_ok_def toy_mcl_def add.assoc)
  moreover have "g1_ok toy_mcl"
  proof -
    have "r * (r * s) = s" if "r \<noteq> 0" for r s :: "1 word"
      using bit_cases [of r] that by auto
    then show ?thesis by (auto simp: g1_ok_def toy_mcl_def algebra_simps)
  qed
  moreover have "pairing_ok toy_mcl"
    by (simp add: pairing_ok_def Pairing_def toy_mcl_def algebra_simps)
  moreover have "enc_ok toy_mcl"
    by (simp add: enc_ok_def toy_mcl_def FR_LEN_def G1_LEN_def G2_LEN_def)
  ultimately show ?thesis by (simp add: mcl_ok_def)
qed

section \<open>Properties\<close>

text \<open>C12. Token issuance is correct: when a group holds shares of a secret, every member signs the
  blinded hash of a message, and the client combines the answers in any order, then \<^verbatim>\<open>Create\<close> succeeds,
  the token verifies under the group key, and it is the signature of the shared secret on the hash: it
  depends neither on the blinding nor on how the secret was shared.\<close>

theorem token_issuance_correct:
  assumes "mcl_ok M" and "r \<noteq> fr_zero M"
    and "KeyGenShares M rnd secret numShares = Inr (signers, pk, master)"
    and "Prepare M pk r message = (blinded, info)"
    and "map (\<lambda>k. BlindSign M k blinded) signers = map Inr partials" and "mset answers = mset partials"
  shows "\<exists>info' t. Create M info answers = (info', Inr t) \<and> token_VerifyMessage M pk t message \<and>
                    t = g1_mul M (hashToCurvePoint M message) secret \<and> length signers = numShares"
proof -
  let ?h = "g1_hash M message"
  have ord: "g1_order M ?h" using mcl_okD(2) [OF assms(1)] by (simp add: g1_ok_def)
  obtain xs where sh: "fr_AdditiveShares M rnd secret numShares = Inr xs"
    and sg: "signers = map (NewTokenSigningKey M) xs"
    and pk: "pk = NewTokenPublicKey M (g2_mul M (g2_gen M) secret)"
    using assms(3) by (auto simp: KeyGenShares_def MockKeyGen_def NewTokenSigningKey_def Let_def)
  have bl: "blinded = g1_mul M ?h r" and info: "ti_key info = Some pk" "ti_hash info = ?h" "ti_blinding info = r"
    using Prepare_fields [of M pk r message] assms(4) by simp_all
  have "(map Inr partials :: 'b res list) = map Inr (map (\<lambda>x. g1_mul M (g1_mul M ?h r) x) xs)"
    using assms(5) [symmetric] by (simp add: sg bl BlindSign_ok NewTokenSigningKey_def comp_def)
  then have "partials = map (\<lambda>x. g1_mul M (g1_mul M ?h r) x) xs" by (rule map_injective) simp
  then have T: "fst (unblind M (combine M answers) r) = g1_mul M ?h secret"
    using combined_partials [OF assms(1,2) sh ord] assms(6) by simp
  moreover have "token_verify M pk (g1_mul M ?h secret) ?h"
    unfolding pk by (rule signature_verifies [OF assms(1) ord])
  moreover have "length xs = numShares"
    by (rule secret_sharing.shares_cases(1) [OF fr_secret_sharing [OF mcl_okD(1) [OF assms(1)]] TrueI TrueI sh])
  ultimately show ?thesis
    using info sg by (auto simp: Create_def Let_def token_VerifyMessage_def hashToCurvePoint_def split: prod.splits)
qed

theorem token_issuance_correct_witness:
  "\<exists>signers pk master blinded info info' t. KeyGenShares toy_mcl (\<lambda>i. 1) 1 3 = Inr (signers, pk, master) \<and>
     Prepare toy_mcl pk 1 [5] = (blinded, info) \<and>
     Create toy_mcl info (rev (map (\<lambda>k. g1_mul toy_mcl blinded (tsk_Share k)) signers)) = (info', Inr t) \<and>
     token_VerifyMessage toy_mcl pk t [5] \<and> length signers = 3"
proof -
  obtain signers pk master where k: "KeyGenShares toy_mcl (\<lambda>i. 1) 1 3 = Inr (signers, pk, master)"
    by (simp add: KeyGenShares_def MockKeyGen_def fr_AdditiveShares_def Let_def)
  obtain blinded info where p: "Prepare toy_mcl pk 1 [5] = (blinded, info)" by fastforce
  have b: "map (\<lambda>k. BlindSign toy_mcl k blinded) signers =
      map Inr (map (\<lambda>k. g1_mul toy_mcl blinded (tsk_Share k)) signers)"
    by (simp add: BlindSign_ok comp_def)
  have "1 \<noteq> fr_zero toy_mcl" by (simp add: toy_mcl_def)
  from token_issuance_correct [OF toy_mcl_ok this k p b mset_rev] k p show ?thesis by blast
qed

text \<open>A test token is valid: the token that \<^verbatim>\<open>SkipToken\<close> makes with the fixed secret verifies under the
  fixed public key for every message.\<close>

theorem skip_token_verifies:
  assumes "mcl_ok M"
  shows "token_VerifyMessage M (TokenPublicKey M secret) (SkipToken M secret message) message"
  by (rule skip_token_signature(1) [OF assms])

theorem skip_token_verifies_witness:
  "token_VerifyMessage toy_mcl (TokenPublicKey toy_mcl 1) (SkipToken toy_mcl 1 [1, 2]) [1, 2]"
  by (rule skip_token_verifies [OF toy_mcl_ok])

end
