(* ===== verification/Wire.thy ===== *)
theory Wire
  imports Codec Messages Token
begin

text \<open>
  The message formats of the protocol: the onion envelopes and final messages of
  \<^verbatim>\<open>src/server/common/marshalling.go\<close>, the checkpoint messages of \<^verbatim>\<open>src/server/checkpoint/marshalling.go\<close>
  and the client requests of \<^verbatim>\<open>src/server/prepareMessages/marshalling.go\<close>. The fields that are slices of
  the received buffer are kept together with that buffer (\<open>raw\<close>), because \<^verbatim>\<open>GetSignedData\<close> overwrites
  part of it. Each format is shown to satisfy the contract \<open>wire_codec\<close>.
\<close>

section \<open>Lightning envelopes\<close>

record lightning_envelope =
  le_Key :: lookup_key
  le_SignedCiphertext :: bytes
  le_raw :: bytes

definition le_Len :: "lightning_envelope \<Rightarrow> nat" where
  "le_Len l = KEY_SIZE + length (le_SignedCiphertext l)"

definition le_InterpretFrom :: "bytes \<Rightarrow> lightning_envelope res" where
  "le_InterpretFrom b =
     sbind (slice b 0 KEY_SIZE) (\<lambda>k.
       Inr \<lparr>le_Key = go_copy (zeros KEY_SIZE) k, le_SignedCiphertext = drop KEY_SIZE b, le_raw = b\<rparr>)"

definition le_PackTo :: "lightning_envelope \<Rightarrow> bytes \<Rightarrow> bytes res" where
  "le_PackTo l b =
     (if length b \<noteq> le_Len l then Inl (Panic (PanicError LengthInvalidError))
      else Inr (go_copy (take KEY_SIZE b) (le_Key l) @ go_copy (drop KEY_SIZE b) (le_SignedCiphertext l)))"

definition le_Marshal :: "lightning_envelope \<Rightarrow> bytes res" where
  "le_Marshal l = le_PackTo l (zeros (le_Len l))"

definition le_GetSignedData :: "int \<Rightarrow> int \<Rightarrow> int \<Rightarrow> lightning_envelope \<Rightarrow> (lightning_envelope \<times> bytes) res" where
  "le_GetSignedData round layer server l =
     sbind (PackSignedData round layer server (le_raw l) KEY_SIZE) (\<lambda>(raw, d).
       Inr (l\<lparr>le_raw := raw, le_SignedCiphertext := drop KEY_SIZE raw\<rparr>, d))"

definition le_GetSignature :: "lightning_envelope \<Rightarrow> signature res" where
  "le_GetSignature l = ReadSignature (le_SignedCiphertext l)"

definition IsDummy :: "lightning_envelope \<Rightarrow> bool" where
  "IsDummy l = (le_Key l = zeros KEY_SIZE)"

section \<open>Path establishment\<close>

record 'g1 path_envelope =
  pe_InKey :: verification_key
  pe_InToken :: 'g1
  pe_SignedCiphertext :: bytes
  pe_raw :: bytes

definition pe_Len :: "('fr, 'g1, 'g2, 'gt) mcl \<Rightarrow> 'g1 path_envelope \<Rightarrow> nat" where
  "pe_Len M p = POINT_SIZE + TOKEN_SIZE M + length (pe_SignedCiphertext p)"

text \<open>The error of the token's \<^verbatim>\<open>InterpretFrom\<close> is dropped; the token keeps whatever was left in it.\<close>

definition token_left :: "('fr, 'g1, 'g2, 'gt) mcl \<Rightarrow> bytes \<Rightarrow> 'g1" where
  "token_left M b =
     (if length b \<noteq> G1_LEN M then g1_zero M else case g1_deser M b of None \<Rightarrow> g1_left M b | Some t \<Rightarrow> t)"

definition pe_InterpretFrom :: "('fr, 'g1, 'g2, 'gt) mcl \<Rightarrow> bytes \<Rightarrow> 'g1 path_envelope res" where
  "pe_InterpretFrom M b =
     sbind (slice b 0 POINT_SIZE) (\<lambda>k. sbind (slice b POINT_SIZE (POINT_SIZE + TOKEN_SIZE M)) (\<lambda>t.
     sbind (vk_InterpretFrom k) (\<lambda>key.
       Inr \<lparr>pe_InKey = key, pe_InToken = token_left M t,
            pe_SignedCiphertext = drop (POINT_SIZE + TOKEN_SIZE M) b, pe_raw = b\<rparr>)))"

definition pe_PackTo :: "('fr, 'g1, 'g2, 'gt) mcl \<Rightarrow> 'g1 path_envelope \<Rightarrow> bytes \<Rightarrow> bytes res" where
  "pe_PackTo M p b =
     sbind (slice b 0 POINT_SIZE) (\<lambda>b1. sbind (vk_PackTo (pe_InKey p) b1) (\<lambda>k.
     sbind (slice b POINT_SIZE (POINT_SIZE + TOKEN_SIZE M)) (\<lambda>b2. sbind (token_PackTo M (pe_InToken p) b2) (\<lambda>t.
       Inr (k @ t @ go_copy (drop (POINT_SIZE + TOKEN_SIZE M) b) (pe_SignedCiphertext p))))))"

definition pe_Marshal :: "('fr, 'g1, 'g2, 'gt) mcl \<Rightarrow> 'g1 path_envelope \<Rightarrow> bytes res" where
  "pe_Marshal M p = pe_PackTo M p (zeros (pe_Len M p))"

text \<open>\<^verbatim>\<open>InKey\<close> and the ciphertext are slices of \<^verbatim>\<open>raw\<close>, so they are read again from the new buffer.\<close>

definition pe_GetSignedData ::
  "('fr, 'g1, 'g2, 'gt) mcl \<Rightarrow> int \<Rightarrow> int \<Rightarrow> int \<Rightarrow> 'g1 path_envelope \<Rightarrow> ('g1 path_envelope \<times> bytes) res" where
  "pe_GetSignedData M round layer server p =
     sbind (PackSignedData round layer server (pe_raw p) (POINT_SIZE + TOKEN_SIZE M)) (\<lambda>(raw, d).
       Inr (p\<lparr>pe_raw := raw, pe_InKey := take POINT_SIZE raw,
              pe_SignedCiphertext := drop (POINT_SIZE + TOKEN_SIZE M) raw\<rparr>, d))"

definition pe_ReadSignature :: "'g1 path_envelope \<Rightarrow> signature res" where
  "pe_ReadSignature p = ReadSignature (pe_SignedCiphertext p)"

definition TokenContent :: "verification_key \<Rightarrow> int \<Rightarrow> int \<Rightarrow> int \<Rightarrow> bytes res" where
  "TokenContent key round layer server =
     sbind (vk_PackTo key (zeros POINT_SIZE)) (\<lambda>k. Inr (put_le 4 round @ put_le 4 layer @ put_le 4 server @ k))"

record 'g1 path_info =
  pi_OutKey :: verification_key
  pi_OutToken :: 'g1
  pi_BoomerangEnvelope :: bytes
  pi_NextEnvelope :: bytes
  pi_raw :: bytes

definition pi_Marshal :: "('fr, 'g1, 'g2, 'gt) mcl \<Rightarrow> 'g1 path_info \<Rightarrow> bytes res" where
  "pi_Marshal M p =
     sbind (vk_PackTo (pi_OutKey p) (zeros POINT_SIZE)) (\<lambda>k. sbind (token_PackTo M (pi_OutToken p) (zeros (TOKEN_SIZE M))) (\<lambda>t.
       Inr (k @ t @ pi_BoomerangEnvelope p @ pi_NextEnvelope p)))"

definition pi_InterpretFrom :: "('fr, 'g1, 'g2, 'gt) mcl \<Rightarrow> bytes \<Rightarrow> nat \<Rightarrow> 'g1 path_info res" where
  "pi_InterpretFrom M b boomerangLength =
     (let pos = POINT_SIZE + TOKEN_SIZE M in
      sbind (slice b 0 POINT_SIZE) (\<lambda>k. sbind (vk_InterpretFrom k) (\<lambda>key.
      sbind (slice b POINT_SIZE pos) (\<lambda>t. sbind (token_InterpretFrom M t) (\<lambda>tok.
      sbind (slice b pos (pos + boomerangLength)) (\<lambda>boom.
        Inr \<lparr>pi_OutKey = key, pi_OutToken = tok, pi_BoomerangEnvelope = boom,
             pi_NextEnvelope = drop (pos + boomerangLength) b, pi_raw = b\<rparr>))))))"

text \<open>The result is the buffer after the call and the signed bytes.\<close>

definition pi_GetSignedData ::
  "('fr, 'g1, 'g2, 'gt) mcl \<Rightarrow> int \<Rightarrow> int \<Rightarrow> int \<Rightarrow> 'g1 path_info \<Rightarrow> ('g1 path_info \<times> bytes) res" where
  "pi_GetSignedData M round layer server p =
     sbind (PackSignedData round layer server (pi_raw p) (POINT_SIZE + TOKEN_SIZE M)) (\<lambda>(raw, d).
       let pos = POINT_SIZE + TOKEN_SIZE M; n = length (pi_BoomerangEnvelope p) in
       Inr (p\<lparr>pi_raw := raw, pi_OutKey := take POINT_SIZE raw, pi_BoomerangEnvelope := take n (drop pos raw),
              pi_NextEnvelope := drop (pos + n) raw\<rparr>, d))"

definition pi_GetSignature :: "'g1 path_info \<Rightarrow> signature res" where
  "pi_GetSignature p = ReadSignature (pi_BoomerangEnvelope p)"

section \<open>Final messages\<close>

definition FINAL_MESSAGE_BASE_LENGTH :: nat where "FINAL_MESSAGE_BASE_LENGTH = SIGNATURE_SIZE"

record final_message =
  fm_AnonymousVerificationKey :: verification_key
  fm_Signature :: signature
  fm_Message :: bytes

definition fm_Len :: "final_message \<Rightarrow> nat" where
  "fm_Len l = VERIFICATION_KEY_SIZE + SIGNATURE_SIZE + length (fm_Message l)"

definition fm_PackTo :: "final_message \<Rightarrow> bytes \<Rightarrow> bytes res" where
  "fm_PackTo l b =
     (if length b \<noteq> fm_Len l then Inl (Panic (PanicError LengthInvalidError))
      else sbind (vk_PackTo (fm_AnonymousVerificationKey l) (take VERIFICATION_KEY_SIZE b)) (\<lambda>k.
        Inr (k @ go_copy (take SIGNATURE_SIZE (drop VERIFICATION_KEY_SIZE b)) (fm_Signature l) @
             go_copy (drop (VERIFICATION_KEY_SIZE + SIGNATURE_SIZE) b) (fm_Message l))))"

definition fm_InterpretFrom :: "bytes \<Rightarrow> final_message res" where
  "fm_InterpretFrom b =
     (if length b < FINAL_MESSAGE_BASE_LENGTH then Inl (Err LengthInvalidError)
      else sbind (slice b 0 VERIFICATION_KEY_SIZE) (\<lambda>k. sbind (vk_InterpretFrom k) (\<lambda>key.
        sbind (slice b VERIFICATION_KEY_SIZE (VERIFICATION_KEY_SIZE + SIGNATURE_SIZE)) (\<lambda>s.
          Inr \<lparr>fm_AnonymousVerificationKey = key, fm_Signature = s,
               fm_Message = drop (VERIFICATION_KEY_SIZE + SIGNATURE_SIZE) b\<rparr>))))"

definition fm_MarshalSigned :: "final_message \<Rightarrow> bytes" where
  "fm_MarshalSigned l = fm_Message l"

definition fm_MarshalI :: "final_message \<Rightarrow> bytes" where
  "fm_MarshalI l = go_copy (zeros SIGNATURE_SIZE) (fm_Signature l) @ fm_Message l"

definition fm_Marshal :: "final_message \<Rightarrow> bytes res" where
  "fm_Marshal l = fm_PackTo l (zeros (fm_Len l))"

section \<open>Checkpoint messages\<close>

record 'g1 checkpoint_info =
  ci_AnonymousVerificationKey :: verification_key
  ci_Token :: 'g1

record 'p checkpoint_response =
  cr_PublicKey :: lookup_key
  cr_PartialKey :: 'p

definition TOKEN_MESSAGE_LENGTH :: "('fr, 'g1, 'g2, 'gt) mcl \<Rightarrow> nat" where
  "TOKEN_MESSAGE_LENGTH M = TOKEN_SIZE M + VERIFICATION_KEY_SIZE"

definition RESPONSE_LENGTH :: nat where "RESPONSE_LENGTH = KEY_SIZE + POINT_SIZE"

definition ci_InterpretFrom :: "('fr, 'g1, 'g2, 'gt) mcl \<Rightarrow> bytes \<Rightarrow> 'g1 checkpoint_info res" where
  "ci_InterpretFrom M b =
     (if length b \<noteq> TOKEN_MESSAGE_LENGTH M then Inl (Err LengthInvalidError)
      else sbind (token_InterpretFrom M (drop VERIFICATION_KEY_SIZE b)) (\<lambda>t.
        Inr \<lparr>ci_AnonymousVerificationKey = take VERIFICATION_KEY_SIZE b, ci_Token = t\<rparr>))"

definition ci_PackTo :: "('fr, 'g1, 'g2, 'gt) mcl \<Rightarrow> 'g1 checkpoint_info \<Rightarrow> bytes \<Rightarrow> bytes res" where
  "ci_PackTo M c b =
     (if length b \<noteq> TOKEN_MESSAGE_LENGTH M then Inl (Panic (PanicError LengthInvalidError))
      else sbind (vk_PackTo (ci_AnonymousVerificationKey c) (take VERIFICATION_KEY_SIZE b)) (\<lambda>k.
        sbind (token_PackTo M (ci_Token c) (drop VERIFICATION_KEY_SIZE b)) (\<lambda>t. Inr (k @ t))))"

definition ci_Marshal :: "('fr, 'g1, 'g2, 'gt) mcl \<Rightarrow> 'g1 checkpoint_info \<Rightarrow> bytes res" where
  "ci_Marshal M c = ci_PackTo M c (zeros (TOKEN_MESSAGE_LENGTH M))"

definition cr_InterpretFrom :: "('s, 'p) lib \<Rightarrow> bytes \<Rightarrow> 'p checkpoint_response res" where
  "cr_InterpretFrom L b =
     (if length b \<noteq> RESPONSE_LENGTH then Inl (Err LengthInvalidError)
      else sbind (dhpk_InterpretFrom L (drop KEY_SIZE b)) (\<lambda>p.
        Inr \<lparr>cr_PublicKey = take KEY_SIZE b, cr_PartialKey = p\<rparr>))"

definition cr_PackTo :: "('s, 'p) lib \<Rightarrow> 'p checkpoint_response \<Rightarrow> bytes \<Rightarrow> bytes res" where
  "cr_PackTo L c b =
     (if length b \<noteq> RESPONSE_LENGTH then Inl (Panic (PanicError LengthInvalidError))
      else sbind (dhpk_PackTo L (cr_PartialKey c) (drop KEY_SIZE b)) (\<lambda>p.
        Inr (go_copy (take KEY_SIZE b) (cr_PublicKey c) @ p)))"

section \<open>Client requests\<close>

record new_client_request =
  ncr_ID :: int
  ncr_VerificationKey :: verification_key

record 'g1 token_request =
  tr_ID :: int
  tr_TokenRequest :: 'g1

definition ncr_Len :: nat where "ncr_Len = 8 + VERIFICATION_KEY_SIZE"

definition ncr_PackTo :: "new_client_request \<Rightarrow> bytes \<Rightarrow> bytes res" where
  "ncr_PackTo t b =
     (if length b \<noteq> ncr_Len then Inl (Panic (PanicError LengthInvalidError))
      else sbind (vk_PackTo (ncr_VerificationKey t) (drop 8 b)) (\<lambda>k. Inr (put_le 8 (ncr_ID t) @ k)))"

definition ncr_InterpretFrom :: "bytes \<Rightarrow> new_client_request res" where
  "ncr_InterpretFrom b =
     (if length b \<noteq> ncr_Len then Inl (Err LengthInvalidError)
      else sbind (vk_InterpretFrom (drop 8 b)) (\<lambda>k.
        Inr \<lparr>ncr_ID = to_int64 (get_le (take 8 b)), ncr_VerificationKey = k\<rparr>))"

definition tr_Len :: "('fr, 'g1, 'g2, 'gt) mcl \<Rightarrow> nat" where "tr_Len M = 8 + G1_LEN M"

definition tr_PackTo :: "('fr, 'g1, 'g2, 'gt) mcl \<Rightarrow> 'g1 token_request \<Rightarrow> bytes \<Rightarrow> bytes res" where
  "tr_PackTo M t b =
     (if length b \<noteq> tr_Len M then Inl (Panic (PanicError LengthInvalidError))
      else sbind (g1_PackTo M (tr_TokenRequest t) (drop 8 b)) (\<lambda>k. Inr (put_le 8 (tr_ID t) @ k)))"

definition tr_InterpretFrom :: "('fr, 'g1, 'g2, 'gt) mcl \<Rightarrow> bytes \<Rightarrow> 'g1 token_request res" where
  "tr_InterpretFrom M b =
     (if length b \<noteq> tr_Len M then Inl (Err LengthInvalidError)
      else sbind (g1_InterpretFrom M (drop 8 b)) (\<lambda>k.
        Inr \<lparr>tr_ID = to_int64 (get_le (take 8 b)), tr_TokenRequest = k\<rparr>))"

section \<open>Lemmas\<close>

lemma g1_encode:
  assumes "enc_ok M"
  shows "length b = G1_LEN M \<Longrightarrow> g1_PackTo M t b = Inr (g1_ser M t)"
    and "g1_valid M t \<Longrightarrow> g1_InterpretFrom M (g1_ser M t) = Inr t"
    and "length (g1_ser M t) = G1_LEN M" "length (g1_ser M t) = TOKEN_SIZE M"
    and "g1_valid M t \<Longrightarrow> token_left M (g1_ser M t) = t"
  using assms by (simp_all add: enc_ok_def g1_PackTo_def g1_InterpretFrom_def TOKEN_SIZE_def token_left_def)

lemma vk_PackTo_zeros: "length k = 32 \<Longrightarrow> vk_PackTo k (zeros 32) = Inr k"
  by (simp add: vk_PackTo_ok)

lemma take_zeros [simp]: "take n (zeros m) = zeros (min n m)"
  by (simp add: zeros_def)

lemma drop_zeros [simp]: "drop n (zeros m) = zeros (m - n)"
  by (simp add: zeros_def)

definition le_wf :: "lightning_envelope \<Rightarrow> bool" where
  "le_wf l \<longleftrightarrow> length (le_Key l) = KEY_SIZE \<and> le_raw l = le_Key l @ le_SignedCiphertext l"

definition fm_wf :: "final_message \<Rightarrow> bool" where
  "fm_wf l \<longleftrightarrow> length (fm_AnonymousVerificationKey l) = VERIFICATION_KEY_SIZE \<and>
     length (fm_Signature l) = SIGNATURE_SIZE"

definition ncr_wf :: "new_client_request \<Rightarrow> bool" where
  "ncr_wf t \<longleftrightarrow> - (2 ^ 63) \<le> ncr_ID t \<and> ncr_ID t < 2 ^ 63 \<and>
     length (ncr_VerificationKey t) = VERIFICATION_KEY_SIZE"

lemma le_Marshal_ok:
  assumes "length (le_Key l) = 32"
  shows "le_Marshal l = Inr (le_Key l @ le_SignedCiphertext l)"
  using assms by (simp add: le_Marshal_def le_PackTo_def le_Len_def size_defs)

lemma le_InterpretFrom_ok:
  assumes "32 \<le> length b"
  shows "le_InterpretFrom b = Inr \<lparr>le_Key = take 32 b, le_SignedCiphertext = drop 32 b, le_raw = b\<rparr>"
  using assms by (simp add: le_InterpretFrom_def slice_def size_defs)

interpretation envelope_codec: wire_codec le_Marshal le_InterpretFrom le_wf le_Len
  by unfold_locales (auto simp: le_wf_def le_Marshal_ok le_InterpretFrom_ok le_Len_def size_defs)

interpretation final_codec: wire_codec fm_Marshal fm_InterpretFrom fm_wf fm_Len
proof unfold_locales
  fix x assume "fm_wf x"
  then have k: "length (fm_AnonymousVerificationKey x) = 32" "length (fm_Signature x) = 64"
    by (simp_all add: fm_wf_def size_defs)
  then have "fm_Marshal x = Inr (fm_AnonymousVerificationKey x @ fm_Signature x @ fm_Message x)"
    by (simp add: fm_Marshal_def fm_PackTo_def fm_Len_def size_defs vk_PackTo_zeros)
  then show "\<exists>b. fm_Marshal x = Inr b \<and> length b = fm_Len x \<and> fm_InterpretFrom b = Inr x"
    using k by (simp add: fm_InterpretFrom_def slice_def fm_Len_def FINAL_MESSAGE_BASE_LENGTH_def size_defs)
qed

lemma get_le_put_le8: "- (2 ^ 63) \<le> x \<Longrightarrow> x < 2 ^ 63 \<Longrightarrow> to_int64 (get_le (put_le 8 x)) = x"
  using to_int64_id [of x] by (simp add: get_put_le)

interpretation registration_codec:
  wire_codec "\<lambda>t. ncr_PackTo t (zeros ncr_Len)" ncr_InterpretFrom ncr_wf "\<lambda>_. ncr_Len"
proof unfold_locales
  fix x assume w: "ncr_wf x"
  then have k: "length (ncr_VerificationKey x) = 32" by (simp add: ncr_wf_def size_defs)
  have i: "to_int64 (get_le (put_le 8 (ncr_ID x))) = ncr_ID x"
    using w by (intro get_le_put_le8) (simp_all add: ncr_wf_def)
  have "ncr_PackTo x (zeros ncr_Len) = Inr (put_le 8 (ncr_ID x) @ ncr_VerificationKey x)"
    using k by (simp add: ncr_PackTo_def ncr_Len_def size_defs vk_PackTo_zeros)
  then show "\<exists>b. ncr_PackTo x (zeros ncr_Len) = Inr b \<and> length b = ncr_Len \<and> ncr_InterpretFrom b = Inr x"
    using k i by (simp add: ncr_InterpretFrom_def ncr_Len_def size_defs)
qed

text \<open>The formats that contain points or tokens satisfy the contract for a library with proper encodings.\<close>

definition pe_wf :: "('fr, 'g1, 'g2, 'gt) mcl \<Rightarrow> 'g1 path_envelope \<Rightarrow> bool" where
  "pe_wf M p \<longleftrightarrow> length (pe_InKey p) = POINT_SIZE \<and> g1_valid M (pe_InToken p) \<and>
     pe_raw p = pe_InKey p @ g1_ser M (pe_InToken p) @ pe_SignedCiphertext p"

lemma pe_Marshal_ok:
  assumes "enc_ok M" "length (pe_InKey p) = 32"
  shows "pe_Marshal M p = Inr (pe_InKey p @ g1_ser M (pe_InToken p) @ pe_SignedCiphertext p)"
  using assms(2) g1_encode(1) [OF assms(1)]
  by (simp add: pe_Marshal_def pe_PackTo_def pe_Len_def slice_def size_defs vk_PackTo_zeros token_PackTo_def
      TOKEN_SIZE_def)

lemma pe_InterpretFrom_ok:
  assumes "enc_ok M" "length k = 32" "g1_valid M t"
  shows "pe_InterpretFrom M (k @ g1_ser M t @ c) =
     Inr \<lparr>pe_InKey = k, pe_InToken = t, pe_SignedCiphertext = c, pe_raw = k @ g1_ser M t @ c\<rparr>"
  using assms(2) g1_encode(4,5) [OF assms(1)] assms(3)
  by (simp add: pe_InterpretFrom_def slice_def size_defs)

lemma path_envelope_codec:
  assumes "enc_ok M"
  shows "wire_codec (pe_Marshal M) (pe_InterpretFrom M) (pe_wf M) (pe_Len M)"
  by unfold_locales
    (auto simp: pe_wf_def pe_Marshal_ok [OF assms] pe_InterpretFrom_ok [OF assms] pe_Len_def g1_encode(4) [OF assms]
      size_defs)

lemma pi_Marshal_ok:
  assumes "enc_ok M" "length (pi_OutKey p) = 32"
  shows "pi_Marshal M p = Inr (pi_OutKey p @ g1_ser M (pi_OutToken p) @ pi_BoomerangEnvelope p @ pi_NextEnvelope p)"
  using assms(2) g1_encode(1) [OF assms(1)]
  by (simp add: pi_Marshal_def size_defs vk_PackTo_zeros token_PackTo_def TOKEN_SIZE_def)

lemma pi_InterpretFrom_ok:
  assumes "enc_ok M" "length k = 32" "g1_valid M t" "length boom = n"
  shows "pi_InterpretFrom M (k @ g1_ser M t @ boom @ next) n =
     Inr \<lparr>pi_OutKey = k, pi_OutToken = t, pi_BoomerangEnvelope = boom, pi_NextEnvelope = next,
          pi_raw = k @ g1_ser M t @ boom @ next\<rparr>"
  using assms(2-4) g1_encode(2,4) [OF assms(1)]
  by (simp add: pi_InterpretFrom_def Let_def slice_def size_defs token_InterpretFrom_def)

definition ci_wf :: "('fr, 'g1, 'g2, 'gt) mcl \<Rightarrow> 'g1 checkpoint_info \<Rightarrow> bool" where
  "ci_wf M c \<longleftrightarrow> length (ci_AnonymousVerificationKey c) = VERIFICATION_KEY_SIZE \<and> g1_valid M (ci_Token c)"

lemma checkpoint_info_codec:
  assumes "enc_ok M"
  shows "wire_codec (ci_Marshal M) (ci_InterpretFrom M) (ci_wf M) (\<lambda>_. TOKEN_MESSAGE_LENGTH M)"
proof unfold_locales
  fix x assume w: "ci_wf M x"
  then have k: "length (ci_AnonymousVerificationKey x) = 32" by (simp add: ci_wf_def size_defs)
  have "ci_Marshal M x = Inr (ci_AnonymousVerificationKey x @ g1_ser M (ci_Token x))"
    using k g1_encode(1) [OF assms]
    by (simp add: ci_Marshal_def ci_PackTo_def TOKEN_MESSAGE_LENGTH_def size_defs vk_PackTo_zeros token_PackTo_def
        TOKEN_SIZE_def)
  then show "\<exists>b. ci_Marshal M x = Inr b \<and> length b = TOKEN_MESSAGE_LENGTH M \<and> ci_InterpretFrom M b = Inr x"
    using k w g1_encode(2,4) [OF assms]
    by (simp add: ci_InterpretFrom_def TOKEN_MESSAGE_LENGTH_def size_defs token_InterpretFrom_def ci_wf_def)
qed

lemma checkpoint_response_codec:
  assumes "point_ok L"
  shows "wire_codec (\<lambda>c. cr_PackTo L c (zeros RESPONSE_LENGTH)) (cr_InterpretFrom L)
    (\<lambda>c. length (cr_PublicKey c) = KEY_SIZE) (\<lambda>_. RESPONSE_LENGTH)"
  using assms
  by unfold_locales
    (simp add: cr_PackTo_def cr_InterpretFrom_def RESPONSE_LENGTH_def dhpk_PackTo_def dhpk_InterpretFrom_def
      point_ok_def size_defs)

lemma token_request_codec:
  assumes "enc_ok M"
  shows "wire_codec (\<lambda>t. tr_PackTo M t (zeros (tr_Len M))) (tr_InterpretFrom M)
    (\<lambda>t. - (2 ^ 63) \<le> tr_ID t \<and> tr_ID t < 2 ^ 63 \<and> g1_valid M (tr_TokenRequest t)) (\<lambda>_. tr_Len M)"
proof unfold_locales
  fix x :: "'b token_request"
  assume w: "- (2 ^ 63) \<le> tr_ID x \<and> tr_ID x < 2 ^ 63 \<and> g1_valid M (tr_TokenRequest x)"
  then have i: "to_int64 (get_le (put_le 8 (tr_ID x))) = tr_ID x" by (intro get_le_put_le8) simp_all
  have "tr_PackTo M x (zeros (tr_Len M)) = Inr (put_le 8 (tr_ID x) @ g1_ser M (tr_TokenRequest x))"
    using g1_encode(1) [OF assms] by (simp add: tr_PackTo_def tr_Len_def)
  then show "\<exists>b. tr_PackTo M x (zeros (tr_Len M)) = Inr b \<and> length b = tr_Len M \<and> tr_InterpretFrom M b = Inr x"
    using w i g1_encode(2,3) [OF assms] by (simp add: tr_InterpretFrom_def tr_Len_def)
qed

lemma length_TokenContent: "TokenContent k r l s = Inr c \<Longrightarrow> length c = 44"
  by (auto simp: TokenContent_def vk_PackTo_def size_defs split: if_splits)

lemma TokenContent_ok:
  "length k = 32 \<Longrightarrow> TokenContent k r l s = Inr (put_le 4 r @ put_le 4 l @ put_le 4 s @ k)"
  by (simp add: TokenContent_def size_defs vk_PackTo_zeros)

section \<open>Properties\<close>

text \<open>C29. What a server sends on a link is what the next one parses: a batch of lightning envelopes of one
  size, written one after the other and cut into messages by the reader, parses back to the same
  envelopes, and takes exactly the sum of their lengths.\<close>

theorem envelope_batch_roundtrip:
  assumes "\<forall>l \<in> set ls. le_wf l \<and> le_Len l = n" and "map le_Marshal ls = map Inr bs" and "0 < n"
  shows "map le_InterpretFrom (chunks n (concat bs)) = map Inr ls \<and> length (concat bs) = length ls * n"
  using envelope_codec.batch_roundtrip [OF assms] by blast

theorem envelope_batch_roundtrip_witness:
  "map le_InterpretFrom (chunks 34 ((zeros 32 @ [1, 2]) @ (zeros 32 @ [3, 4]))) =
     [Inr \<lparr>le_Key = zeros 32, le_SignedCiphertext = [1, 2], le_raw = zeros 32 @ [1, 2]\<rparr>,
      Inr \<lparr>le_Key = zeros 32, le_SignedCiphertext = [3, 4], le_raw = zeros 32 @ [3, 4]\<rparr>]"
proof -
  let ?l = "\<lambda>c. \<lparr>le_Key = zeros 32, le_SignedCiphertext = c, le_raw = zeros 32 @ c\<rparr>"
  have w: "\<forall>l \<in> set [?l [1, 2], ?l [3, 4]]. le_wf l \<and> le_Len l = 34"
    by (simp add: le_wf_def le_Len_def size_defs)
  have m: "map le_Marshal [?l [1, 2], ?l [3, 4]] = map Inr [zeros 32 @ [1, 2], zeros 32 @ [3, 4]]"
    by (simp add: le_Marshal_ok)
  show ?thesis using envelope_batch_roundtrip [OF w m] by simp
qed

text \<open>Every outcome of parsing a final message: the length check uses the signature size only, so a
  message of 64 to 95 bytes passes it and the parser panics on a slice bound instead of returning an error.\<close>

theorem final_message_parse_cases:
  "fm_InterpretFrom b =
     (if length b < 64 then Inl (Err LengthInvalidError)
      else if length b < 96 then Inl (Panic SliceBounds)
      else Inr \<lparr>fm_AnonymousVerificationKey = take 32 b, fm_Signature = take 64 (drop 32 b), fm_Message = drop 96 b\<rparr>)"
  by (auto simp: fm_InterpretFrom_def FINAL_MESSAGE_BASE_LENGTH_def slice_def size_defs)

text \<open>A token is bound to one use: the bytes it signs determine the key, and round, layer and server
  modulo \<open>2 ^ 32\<close>.\<close>

theorem token_content_injective:
  assumes "length k = VERIFICATION_KEY_SIZE" and "length k' = VERIFICATION_KEY_SIZE"
  shows "TokenContent k r l s = TokenContent k' r' l' s' \<longleftrightarrow>
     k = k' \<and> r mod 2 ^ 32 = r' mod 2 ^ 32 \<and> l mod 2 ^ 32 = l' mod 2 ^ 32 \<and> s mod 2 ^ 32 = s' mod 2 ^ 32"
proof -
  have "put_le 4 x = put_le 4 y \<longleftrightarrow> x mod 2 ^ 32 = y mod 2 ^ 32" for x y
    by (simp only: put_le_inj_mod) simp
  then show ?thesis using assms by (auto simp: TokenContent_ok size_defs)
qed

theorem token_content_injective_witness:
  "TokenContent (zeros 32) 1 2 3 \<noteq> TokenContent (zeros 32) 1 2 4"
  using token_content_injective [of "zeros 32" "zeros 32" 1 2 3 1 2 4] by (simp add: size_defs)

end
