(* ===== verification/CommonState.thy ===== *)
theory CommonState
  imports Wire Randomness "HOL-Library.AList"
begin

text \<open>
  The state all parts of a server share, \<^verbatim>\<open>src/server/common/commonState.go\<close>: configuration, message
  lengths, keys and shufflers. A Go map is an association list with distinct keys. The lemmas show that
  a hash always selects an existing server or group, and that what one server signs another accepts.
\<close>

section \<open>State\<close>

text \<open>The fields of \<^verbatim>\<open>config.Server\<close> and \<^verbatim>\<open>config.Group\<close> that are used.\<close>

record server_config =
  sc_Address :: string
  sc_Id :: int
  sc_PublicKey :: bytes
  sc_PrivateKey :: bytes
  sc_VerificationKey :: verification_key
  sc_SignatureKey :: signing_key

type_synonym server_configs = "(int \<times> server_config) list"
type_synonym group_configs = "(int \<times> int list) list"

definition MASTER_GROUP :: int where "MASTER_GROUP = 0"
definition PreExpandKeys :: bool where "PreExpandKeys = False"
definition NoDummies :: bool where "NoDummies = True"

record ('s, 'p, 'g2, 'r) common_state =
  cs_MyId :: int
  cs_Round :: int
  cs_Layer :: int
  cs_NumLayers :: int
  cs_NumServers :: nat
  cs_BinSize :: nat
  cs_GroupBinSize :: nat
  cs_PathMessageLengths :: "nat list"
  cs_OnionMessageLengths :: "nat list"
  cs_BoomerangMessageLengths :: "nat list"
  cs_Configs :: server_configs
  cs_GroupConfigs :: group_configs
  cs_NumGroups :: nat
  cs_MasterGroupSize :: nat
  cs_VerificationKeys :: "verification_key list"
  cs_ExpandedVerificationKeys :: "verification_key list"
  cs_SecretSigningKey :: signing_key
  cs_ServerPublicKeys :: "'p list"
  cs_ServerSecretKey :: 's
  cs_CombinedKey :: "'g2 token_public_key option"
  cs_GroupPublicKey :: 'p
  cs_RevokedKeys :: "('p \<Rightarrow> bool) list"
  cs_Shufflers :: "'r shuffler list"

section \<open>Operations\<close>

definition config_at :: "server_configs \<Rightarrow> int \<Rightarrow> server_config res" where
  "config_at configs i = of_option (Panic NilDereference) (map_of configs i)"

fun map_res :: "('a \<Rightarrow> 'b res) \<Rightarrow> 'a list \<Rightarrow> 'b list res" where
  "map_res f [] = Inr []"
| "map_res f (x # xs) = sbind (f x) (\<lambda>y. sbind (map_res f xs) (\<lambda>ys. Inr (y # ys)))"

text \<open>An error of the library is turned into a panic, \<^verbatim>\<open>panic(err)\<close> or \<^verbatim>\<open>panic("Bad config")\<close>.\<close>

definition or_panic :: "panic \<Rightarrow> 'a res \<Rightarrow> 'a res" where
  "or_panic p r = (case r of Inl (Err e) \<Rightarrow> Inl (Panic p) | _ \<Rightarrow> r)"

fun new_shufflers :: "(bytes \<Rightarrow> 'r) \<Rightarrow> 'q reader \<Rightarrow> 'q \<Rightarrow> nat \<Rightarrow> 'r shuffler list \<times> 'q" where
  "new_shufflers shake source q 0 = ([], q)"
| "new_shufflers shake source q (Suc n) =
     (let (s, q1) = NewPRGShuffler shake source q; (ss, q2) = new_shufflers shake source q1 n in (s # ss, q2))"

definition NewCommonState ::
  "('s, 'p) lib \<Rightarrow> (bytes \<Rightarrow> 'r) \<Rightarrow> 'q reader \<Rightarrow> 'q \<Rightarrow> server_configs \<Rightarrow> int \<Rightarrow> group_configs \<Rightarrow>
     (('s, 'p, 'g2, 'r) common_state \<times> 'q) res" where
  "NewCommonState L shake source q configs myId groups =
     sbind (of_option (Panic NilDereference) (map_of groups MASTER_GROUP)) (\<lambda>master.
     sbind (config_at configs myId) (\<lambda>me.
     sbind (map_res (\<lambda>i. sbind (config_at configs (int i)) (\<lambda>c.
              or_panic (PanicError LibraryError) (ExpandKey L (sc_VerificationKey c)))) [0..<length configs]) (\<lambda>vks.
     sbind (or_panic (PanicMessage ''Bad config'') (dhsk_InterpretFrom L (sc_PrivateKey me))) (\<lambda>secret.
     sbind (map_res (\<lambda>i. sbind (config_at configs (int i)) (\<lambda>c.
              or_panic (PanicMessage ''Bad config'') (dhpk_InterpretFrom L (sc_PublicKey c)))) [0..<length configs]) (\<lambda>pks.
       let (shufflers, q') = new_shufflers shake source q (length configs) in
       Inr (\<lparr>cs_MyId = myId, cs_Round = 0, cs_Layer = 0, cs_NumLayers = 0, cs_NumServers = length configs,
             cs_BinSize = 0, cs_GroupBinSize = 0, cs_PathMessageLengths = [], cs_OnionMessageLengths = [],
             cs_BoomerangMessageLengths = [], cs_Configs = configs, cs_GroupConfigs = groups,
             cs_NumGroups = length groups, cs_MasterGroupSize = length master,
             cs_VerificationKeys = vks, cs_ExpandedVerificationKeys = vks, cs_SecretSigningKey = sc_SignatureKey me,
             cs_ServerPublicKeys = pks, cs_ServerSecretKey = secret, cs_CombinedKey = None,
             cs_GroupPublicKey = pt_zero L, cs_RevokedKeys = [], cs_Shufflers = shufflers\<rparr>, q'))))))"

definition cs_Sign ::
  "('s, 'p) lib \<Rightarrow> ('s, 'p, 'g2, 'r) common_state \<Rightarrow> signed_message \<Rightarrow> signed_message res" where
  "cs_Sign L c m = SignMessage L (cs_SecretSigningKey c) m"

definition cs_Verify ::
  "('s, 'p) lib \<Rightarrow> ('s, 'p, 'g2, 'r) common_state \<Rightarrow> signed_message \<Rightarrow> (signed_message \<times> bool) res" where
  "cs_Verify L c m =
     sbind (go_index_int (cs_ExpandedVerificationKeys c) (md_Sender (sm_Metadata m))) (\<lambda>vk.
     sbind (GetSignedData m) (\<lambda>(m', d). Inr (m', VerifyExpanded L vk d (sm_Signature m'))))"

definition IsRevoked :: "('s, 'p, 'g2, 'r) common_state \<Rightarrow> int \<Rightarrow> 'p \<Rightarrow> bool res" where
  "IsRevoked c layer key = sbind (go_index_int (cs_RevokedKeys c) layer) (\<lambda>m. Inr (m key))"

definition HashToGroup :: "('s, 'p, 'g2, 'r) common_state \<Rightarrow> bytes \<Rightarrow> nat res" where
  "HashToGroup c hash =
     (if cs_NumGroups c = 0 then Inl (Panic DivideByZero)
      else Inr (nat (get_le (take 8 hash) mod int (cs_NumGroups c))))"

definition HashToServer :: "('s, 'p, 'g2, 'r) common_state \<Rightarrow> bytes \<Rightarrow> nat res" where
  "HashToServer c hash =
     (if cs_NumServers c = 0 then Inl (Panic DivideByZero)
      else Inr (nat (get_le (take 8 hash) mod int (cs_NumServers c))))"

section \<open>Lemmas\<close>

lemma map_res_ok: "\<forall>x \<in> set xs. f x = Inr (g x) \<Longrightarrow> map_res f xs = Inr (map g xs)"
  by (induction xs) auto

lemma map_res_Inr: "map_res f xs = Inr ys \<longleftrightarrow> map f xs = map Inr ys"
proof (induction xs arbitrary: ys)
  case (Cons x xs)
  then show ?case by (cases ys) auto
qed auto

lemma map_res_length: "map_res f xs = Inr ys \<Longrightarrow> length ys = length xs"
  by (metis map_res_Inr length_map)

lemma mod_index_less:
  assumes "(if n = 0 then Inl e else Inr (nat (x mod int n))) = Inr i"
  shows "i < n"
proof (cases "n = 0")
  case True
  then show ?thesis using assms by simp
next
  case False
  then have "0 < int n" by simp
  then have "0 \<le> x mod int n \<and> x mod int n < int n" using pos_mod_bound pos_mod_sign by blast
  moreover have "i = nat (x mod int n)" using assms False by (simp only: if_False sum.inject)
  ultimately show ?thesis by linarith
qed

lemma HashToServer_range: "HashToServer c h = Inr i \<Longrightarrow> i < cs_NumServers c"
  unfolding HashToServer_def by (rule mod_index_less)

lemma HashToServer_total: "0 < cs_NumServers c \<Longrightarrow> \<exists>i. HashToServer c h = Inr i \<and> i < cs_NumServers c"
  using HashToServer_range [of c h] unfolding HashToServer_def by (metis less_numeral_extra(3))

lemma HashToGroup_range: "HashToGroup c h = Inr i \<Longrightarrow> i < cs_NumGroups c"
  unfolding HashToGroup_def by (rule mod_index_less)

lemma HashToServer_cong:
  "cs_NumServers c = cs_NumServers d \<Longrightarrow> HashToServer c h = HashToServer d h"
  by (simp add: HashToServer_def)

lemma new_shufflers_ok:
  assumes "reader_ok source"
  shows "length (fst (new_shufflers shake source q n)) = n \<and>
     (\<forall>s \<in> set (fst (new_shufflers shake source q n)). length (sh_buf s) = 128)"
proof (induction n arbitrary: q)
  case (Suc n)
  then show ?case by (auto simp: NewPRGShuffler_def Let_def split: prod.splits) (metis fst_conv)+
qed simp

text \<open>What a new state holds.\<close>

lemma NewCommonState_ok:
  assumes "NewCommonState L shake source q configs myId groups = Inr (c, q')"
  shows "cs_MyId c = myId" "cs_NumServers c = length configs" "cs_NumGroups c = length groups"
    "length (cs_VerificationKeys c) = length configs" "length (cs_ServerPublicKeys c) = length configs"
    "cs_Layer c = 0" "cs_Shufflers c = fst (new_shufflers shake source q (length configs))"
  using assms
  by (auto simp: NewCommonState_def Let_def case_prod_beta dest!: map_res_length)

text \<open>The keys of a state made from consistent configurations are those of the other servers.\<close>

lemma NewCommonState_keys:
  assumes "NewCommonState L shake source q configs myId groups = Inr (c, q')" "i < length configs"
  shows "\<exists>cfg. map_of configs (int i) = Some cfg \<and> cs_ExpandedVerificationKeys c ! i = sc_VerificationKey cfg"
proof -
  obtain vks where "map_res (\<lambda>i. sbind (config_at configs (int i)) (\<lambda>c.
      or_panic (PanicError LibraryError) (ExpandKey L (sc_VerificationKey c)))) [0..<length configs] = Inr vks"
    "cs_ExpandedVerificationKeys c = vks"
    using assms(1) by (auto simp: NewCommonState_def Let_def case_prod_beta)
  then have v: "map (\<lambda>i. sbind (config_at configs (int i)) (\<lambda>c.
      or_panic (PanicError LibraryError) (ExpandKey L (sc_VerificationKey c)))) [0..<length configs] ! i =
      map Inr (cs_ExpandedVerificationKeys c) ! i"
    and l: "length (cs_ExpandedVerificationKeys c) = length configs"
    using map_res_length [of _ "[0..<length configs]" vks] by (simp_all add: map_res_Inr)
  from v l assms(2) show ?thesis
    by (auto simp: config_at_def or_panic_def ExpandKey_def split: sum.splits if_splits failure.splits)
qed

section \<open>Properties\<close>

text \<open>C27. Servers accept each other's messages: a message that server \<open>i\<close> signs with its state and sends
  under its own id passes \<^verbatim>\<open>Verify\<close> at any server \<open>j\<close> whose state was made from the same configurations,
  provided the configured verification key belongs to the signing key.\<close>

theorem server_message_accepted:
  assumes "sig_ok L"
    and "NewCommonState L shake source q configs (int i) groups = Inr (ci, q1)"
    and "NewCommonState L shake source q2 configs j groups = Inr (cj, q3)"
    and "map_of configs (int i) = Some cfg" and "sc_VerificationKey cfg = ed_public L (sc_SignatureKey cfg)"
    and "i < length configs" and "length configs < 2 ^ 32" and "md_Sender (sm_Metadata m) = int i"
    and "28 + sm_len m \<le> length (sm_Raw m)"
    and "cs_Sign L ci m = Inr m'" and "AsNetworkMessage m' = Inr nm"
  shows "\<exists>r r'. ParseSignedMessage nm = Some r \<and> sm_Data r = sm_Data m \<and> cs_Verify L cj r = Inr (r', True)"
proof -
  have key: "cs_SecretSigningKey ci = sc_SignatureKey cfg"
    using assms(2,4) by (auto simp: NewCommonState_def config_at_def Let_def case_prod_beta)
  from signed_message_received [OF assms(9) assms(10) [unfolded cs_Sign_def] assms(11)] obtain r where
    r: "ParseSignedMessage nm = Some r" "sm_Data r = sm_Data m" "sm_Signature r = sm_Signature m'"
      "sm_Raw r = metadata_bytes (sm_Metadata m) @ sm_Data m" "sm_len r = sm_len m"
      "metadata_InterpretFrom (metadata_bytes (sm_Metadata m)) = Inr (sm_Metadata r)" by blast
  have "md_Sender (sm_Metadata r) = int i mod 2 ^ 32"
    using r(6) metadata_read_back [of "sm_Metadata m" "[]"] assms(8) by auto
  moreover have "int i < 2 ^ 32" using assms(6,7) by simp
  ultimately have snd: "md_Sender (sm_Metadata r) = int i" by simp
  have "cs_ExpandedVerificationKeys cj ! i = ed_public L (sc_SignatureKey cfg)" "i < length (cs_ExpandedVerificationKeys cj)"
    using NewCommonState_keys [OF assms(3,6)] assms(3-6)
    by (auto simp: NewCommonState_def Let_def case_prod_beta dest!: map_res_length)
  then have vk: "go_index_int (cs_ExpandedVerificationKeys cj) (int i) = Inr (ed_public L (sc_SignatureKey cfg))"
    by (simp add: go_index_int_def)
  have "metadata_bytes (sm_Metadata r) = metadata_bytes (sm_Metadata m)"
    using metadata_repack [of "sm_Metadata m" "[]"] r(6) by simp
  moreover have "28 + sm_len r \<le> length (sm_Raw r)"
    using assms(9) r(4,5) by (simp add: sm_Data_def Metadata_size_def)
  moreover have "sm_Signature m' = SignData L (sc_SignatureKey cfg) (metadata_bytes (sm_Metadata m) @ sm_Data m)"
    using assms(9,10) key by (auto simp: cs_Sign_def SignMessage_ok)
  ultimately have "cs_Verify L cj r = Inr (r\<lparr>sm_Raw := metadata_bytes (sm_Metadata r) @ drop 28 (sm_Raw r)\<rparr>, True)"
    using r(2,3) sig_okD(2) [OF assms(1)] vk snd
    by (simp add: cs_Verify_def GetSignedData_ok VerifyExpanded_eq SignData_def)
  with r(1,2) show ?thesis by blast
qed

definition sample_config :: server_config where
  "sample_config = \<lparr>sc_Address = ''localhost:8000'', sc_Id = 0, sc_PublicKey = zeros 32, sc_PrivateKey = zeros 32,
     sc_VerificationKey = toy_public [9], sc_SignatureKey = [9]\<rparr>"

lemma sample_state_exists:
  "\<exists>c q'. NewCommonState toy_lib (\<lambda>_. 0 :: nat) zero_reader q [(0, sample_config)] 0 [(0, [0])] = Inr (c, q')"
  by (simp add: NewCommonState_def MASTER_GROUP_def config_at_def sample_config_def ExpandKey_def or_panic_def
      dhsk_InterpretFrom_def dhpk_InterpretFrom_def toy_lib_def size_defs case_prod_beta Let_def)

theorem server_message_accepted_witness:
  "\<exists>(ci :: (256 word, 256 word, 1 word, nat) common_state) q1 m' nm r r'. NewCommonState toy_lib (\<lambda>_. 0 :: nat) zero_reader 0 [(0, sample_config)] 0 [(0, [0])] = Inr (ci, q1) \<and>
     cs_Sign toy_lib ci (NewSignedMessage 2 0 0 0 0 0 1 ServerMessageForward) = Inr m' \<and>
     AsNetworkMessage m' = Inr nm \<and> ParseSignedMessage nm = Some r \<and> cs_Verify toy_lib ci r = Inr (r', True)"
proof -
  let ?m = "NewSignedMessage 2 0 0 0 0 0 1 ServerMessageForward"
  obtain ci :: "(256 word, 256 word, 1 word, nat) common_state" and q1 where c: "NewCommonState toy_lib (\<lambda>_. 0 :: nat) zero_reader 0 [(0, sample_config)] 0 [(0, [0])] = Inr (ci, q1)"
    using sample_state_exists by blast
  then have c': "NewCommonState toy_lib (\<lambda>_. 0 :: nat) zero_reader 0 [(0, sample_config)] (int 0) [(0, [0])] = Inr (ci, q1)"
    by simp
  have len: "28 + sm_len ?m \<le> length (sm_Raw ?m)" and snd: "md_Sender (sm_Metadata ?m) = int 0"
    by (simp_all add: NewSignedMessage_def Metadata_size_def size_defs)
  obtain m' where s: "cs_Sign toy_lib ci ?m = Inr m'" using SignMessage_ok [OF len] by (auto simp: cs_Sign_def)
  then obtain nm where n: "AsNetworkMessage m' = Inr nm"
    using len by (auto simp: cs_Sign_def SignMessage_ok AsNetworkMessage_def slice_def Metadata_size_def)
  have cfg: "map_of [(0, sample_config)] (int 0) = Some sample_config"
    "sc_VerificationKey sample_config = ed_public toy_lib (sc_SignatureKey sample_config)"
    "0 < length [(0 :: int, sample_config)]" "length [(0 :: int, sample_config)] < 2 ^ 32"
    by (simp_all add: sample_config_def toy_lib_def)
  from server_message_accepted [OF lib_okD(2) [OF toy_lib_ok] c' c cfg snd len s n] c s n show ?thesis by blast
qed

text \<open>A concrete state: one server, one group, two layers.\<close>

definition sample_state :: "(256 word, 256 word, 1 word, nat) common_state" where
  "sample_state =
     \<lparr>cs_MyId = 0, cs_Round = 0, cs_Layer = 0, cs_NumLayers = 2, cs_NumServers = 1, cs_BinSize = 4, cs_GroupBinSize = 4,
      cs_PathMessageLengths = [], cs_OnionMessageLengths = [], cs_BoomerangMessageLengths = [],
      cs_Configs = [(0, sample_config)], cs_GroupConfigs = [(0, [0])], cs_NumGroups = 1, cs_MasterGroupSize = 1,
      cs_VerificationKeys = [toy_public [9]], cs_ExpandedVerificationKeys = [toy_public [9]],
      cs_SecretSigningKey = [9], cs_ServerPublicKeys = [3], cs_ServerSecretKey = 3, cs_CombinedKey = None,
      cs_GroupPublicKey = 5, cs_RevokedKeys = [], cs_Shufflers = [\<lparr>sh_src = 0, sh_buf = zeros 128, sh_pos = 0\<rparr>]\<rparr>"

end
