(* ===== verification/Buffers.thy ===== *)
theory Buffers
  imports Randomness Codec
begin

text \<open>
  The outgoing link buffers of \<^verbatim>\<open>src/network/buffers/inMemory.go\<close>.

  A buffer collects the messages for one destination, is shuffled once, and is then read as a byte
  stream in chunks of any size. The shuffler is shared between buffers and is passed explicitly.
  The abstraction \<open>remaining\<close> is the byte stream still to be read; \<open>ReadNextChunk_stream\<close> is the
  refinement: a chunk read takes exactly the next bytes of that stream. It follows that every message
  written to a link is sent exactly once, with as many dummies as were asked for.
\<close>

section \<open>State and operations\<close>

record mem_read_writer =
  mrw_data :: "bytes list"
  mrw_permutation :: "nat list"
  mrw_position :: nat
  elementLength :: nat
  elementCount :: nat
  mrw_offset :: nat
  mrw_element :: bytes
  mrw_zeros :: bytes
  numElements :: nat

definition NewMemReadWriter :: "nat \<Rightarrow> nat \<Rightarrow> mem_read_writer" where
  "NewMemReadWriter len n =
     \<lparr>mrw_data = replicate n [], mrw_permutation = [], mrw_position = 0, elementLength = len,
      elementCount = 0, mrw_offset = len, mrw_element = zeros len, mrw_zeros = zeros len, numElements = n\<rparr>"

definition Shuffle ::
  "'r reader \<Rightarrow> 'r shuffler \<Rightarrow> mem_read_writer \<Rightarrow> bool \<Rightarrow> (mem_read_writer \<times> 'r shuffler) res" where
  "Shuffle rd sh m dummies =
     (let m' = (if \<not> dummies then m\<lparr>numElements := elementCount m\<rparr> else m) in
      sbind (Perm rd sh (numElements m')) (\<lambda>(p, sh'). Inr (m'\<lparr>mrw_permutation := p\<rparr>, sh')))"

definition NumMessages :: "mem_read_writer \<Rightarrow> nat" where
  "NumMessages m = elementCount m"

definition Write :: "mem_read_writer \<Rightarrow> bytes \<Rightarrow> mem_read_writer \<times> unit res" where
  "Write m b =
     (if elementCount m \<ge> length (mrw_data m) then (m, Inl (Err LinkOverflow))
      else (m\<lparr>mrw_data := (mrw_data m)[elementCount m := b], elementCount := elementCount m + 1\<rparr>, Inr ()))"

text \<open>The result holds the buffer \<^verbatim>\<open>b\<close> after the call.\<close>

definition ReadElement :: "mem_read_writer \<Rightarrow> bytes \<Rightarrow> (mem_read_writer \<times> bytes) res" where
  "ReadElement r b =
     sbind (go_index (mrw_permutation r) (mrw_position r)) (\<lambda>i.
       let r' = r\<lparr>mrw_position := mrw_position r + 1\<rparr> in
       if i \<ge> elementCount r then Inr (r', go_copy b (mrw_zeros r))
       else sbind (go_index (mrw_data r) i) (\<lambda>d.
         Inr (r'\<lparr>mrw_data := (mrw_data r)[i := []]\<rparr>, go_copy b d)))"

lemma ReadElement_progress:
  "ReadElement r b = Inr (r', b') \<Longrightarrow>
     mrw_position r' = mrw_position r + 1 \<and> numElements r' = numElements r \<and> elementLength r' = elementLength r"
  by (auto simp: ReadElement_def Let_def split: if_splits)

function read_loop ::
  "mem_read_writer \<Rightarrow> bytes \<Rightarrow> nat \<Rightarrow> (mem_read_writer \<times> bytes \<times> nat) res" where
  "read_loop r b written =
     (if written < length b \<and> mrw_position r < numElements r then
        if written + elementLength r > length b then
          sbind (ReadElement r (mrw_element r)) (\<lambda>(r', e).
            let k = min (length b - written) (length e) in
            read_loop (r'\<lparr>mrw_element := e, mrw_offset := k\<rparr>) (copy_at b written e) (written + k))
        else
          sbind (ReadElement r (take (elementLength r) (drop written b))) (\<lambda>(r', e).
            read_loop r' (copy_at b written e) (written + elementLength r))
      else Inr (r, b, written))"
  by pat_completeness auto
termination
  by (relation "measure (\<lambda>(r, b, w). numElements r - mrw_position r)")
    (auto dest!: ReadElement_progress)

declare read_loop.simps [simp del]

definition ReadNextChunk :: "mem_read_writer \<Rightarrow> bytes \<Rightarrow> (mem_read_writer \<times> bytes \<times> nat) res" where
  "ReadNextChunk r b =
     (if elementLength r - mrw_offset r > 0 then
        let rest = drop (mrw_offset r) (mrw_element r); k = min (length b) (length rest) in
        read_loop (r\<lparr>mrw_offset := mrw_offset r + k\<rparr>) (go_copy b rest) k
      else read_loop r b 0)"

definition Len :: "mem_read_writer \<Rightarrow> nat" where
  "Len r = numElements r * elementLength r"

section \<open>Abstraction and invariant\<close>

text \<open>The messages written so far, the element at a position of the permutation, the elements that
  have not been read, and the bytes that have not been read.\<close>

definition contents :: "mem_read_writer \<Rightarrow> bytes list" where
  "contents m = take (elementCount m) (mrw_data m)"

definition elem_at :: "mem_read_writer \<Rightarrow> nat \<Rightarrow> bytes" where
  "elem_at r i = (if i < elementCount r then mrw_data r ! i else mrw_zeros r)"

definition unread :: "mem_read_writer \<Rightarrow> nat list" where
  "unread r = drop (mrw_position r) (mrw_permutation r)"

definition remaining :: "mem_read_writer \<Rightarrow> bytes" where
  "remaining r = drop (mrw_offset r) (mrw_element r) @ concat (map (elem_at r) (unread r))"

definition filling :: "mem_read_writer \<Rightarrow> bool" where
  "filling m \<longleftrightarrow>
     elementCount m \<le> length (mrw_data m) \<and> length (mrw_data m) = numElements m \<and> mrw_position m = 0 \<and>
     mrw_offset m = elementLength m \<and> length (mrw_element m) = elementLength m \<and>
     mrw_zeros m = zeros (elementLength m) \<and> (\<forall>d \<in> set (contents m). length d = elementLength m)"

definition reading :: "mem_read_writer \<Rightarrow> bool" where
  "reading r \<longleftrightarrow>
     elementCount r \<le> length (mrw_data r) \<and> length (mrw_permutation r) = numElements r \<and>
     distinct (mrw_permutation r) \<and> mrw_position r \<le> numElements r \<and>
     mrw_offset r \<le> elementLength r \<and> length (mrw_element r) = elementLength r \<and>
     mrw_zeros r = zeros (elementLength r) \<and> (\<forall>i \<in> set (unread r). length (elem_at r i) = elementLength r)"

section \<open>Lemmas\<close>

lemma contents_new: "filling (NewMemReadWriter len n)" "contents (NewMemReadWriter len n) = []"
  by (simp_all add: filling_def contents_def NewMemReadWriter_def)

lemma Write_ok:
  assumes "filling m" "length b = elementLength m" "elementCount m < numElements m"
  shows "\<exists>m'. Write m b = (m', Inr ()) \<and> filling m' \<and> contents m' = contents m @ [b] \<and>
              elementLength m' = elementLength m \<and> numElements m' = numElements m"
proof -
  let ?m = "m\<lparr>mrw_data := (mrw_data m)[elementCount m := b], elementCount := elementCount m + 1\<rparr>"
  have lt: "elementCount m < length (mrw_data m)" using assms by (simp add: filling_def)
  then have c: "contents ?m = contents m @ [b]"
    by (simp add: contents_def take_Suc_conv_app_nth)
  moreover have "Write m b = (?m, Inr ())" using lt by (simp add: Write_def)
  moreover have "filling ?m"
    using assms lt c unfolding filling_def by (simp add: ball_Un del: Suc_eq_plus1)
  ultimately show ?thesis by (intro exI [of _ ?m]) simp
qed

lemma unread_Cons:
  assumes "reading r" "mrw_position r < numElements r"
  shows "unread r = mrw_permutation r ! mrw_position r # drop (Suc (mrw_position r)) (mrw_permutation r)"
  using assms by (simp add: unread_def reading_def Cons_nth_drop_Suc)

text \<open>One element is read: the stream loses its first element and nothing else changes.\<close>

lemma ReadElement_ok:
  assumes r: "reading r" and pos: "mrw_position r < numElements r" and b: "length b = elementLength r"
  shows "\<exists>r'. ReadElement r b = Inr (r', elem_at r (mrw_permutation r ! mrw_position r)) \<and> reading r' \<and>
     map (elem_at r) (unread r) = elem_at r (mrw_permutation r ! mrw_position r) # map (elem_at r') (unread r') \<and>
     mrw_element r' = mrw_element r \<and> mrw_offset r' = mrw_offset r \<and> elementLength r' = elementLength r \<and>
     numElements r' = numElements r \<and> mrw_position r' = mrw_position r + 1 \<and>
     mrw_permutation r' = mrw_permutation r \<and> elementCount r' = elementCount r"
proof -
  let ?i = "mrw_permutation r ! mrw_position r"
  let ?rest = "drop (Suc (mrw_position r)) (mrw_permutation r)"
  note u = unread_Cons [OF r pos]
  have dist: "distinct (unread r)" using r by (simp add: unread_def reading_def)
  then have notin: "?i \<notin> set ?rest" using u by simp
  have le: "length (elem_at r ?i) = elementLength r" using r u by (simp add: reading_def)
  have idx: "mrw_position r < length (mrw_permutation r)" using r pos by (simp add: reading_def)
  define r' where "r' = (if ?i \<ge> elementCount r then r\<lparr>mrw_position := mrw_position r + 1\<rparr>
     else r\<lparr>mrw_position := mrw_position r + 1, mrw_data := (mrw_data r)[?i := []]\<rparr>)"
  have read: "ReadElement r b = Inr (r', elem_at r ?i)"
    using r idx le b
    by (auto simp: ReadElement_def r'_def elem_at_def reading_def go_index_def Let_def)
  have u': "unread r' = ?rest" by (simp add: unread_def r'_def)
  have same: "elem_at r' j = elem_at r j" if "j \<in> set ?rest" for j
  proof -
    have "j \<noteq> ?i" using that notin by metis
    then show ?thesis by (simp add: elem_at_def r'_def)
  qed
  have "\<forall>j \<in> set (unread r'). length (elem_at r' j) = elementLength r"
    using r u by (simp add: u' same reading_def)
  then have "reading r'" using r pos by (auto simp: reading_def r'_def)
  moreover have "map (elem_at r) (unread r) = elem_at r ?i # map (elem_at r') (unread r')"
    using u by (simp add: u' same)
  ultimately show ?thesis using read by (intro exI [of _ r']) (simp add: r'_def)
qed

lemma copy_at_filled:
  assumes "w + length e \<le> length b"
  shows "copy_at b w e = take w b @ e @ drop (w + length e) b"
  using assms by (simp add: copy_at_def go_copy_def add.commute)

text \<open>The loop: \<open>out\<close> is the stream to be written from position \<open>written\<close> on.\<close>

lemma read_loop_stream:
  assumes "reading r" "mrw_offset r = elementLength r \<or> written = length b" "written \<le> length b"
  shows "\<exists>r' b'. let n = min (length b - written) (length (remaining r)) in
     read_loop r b written = Inr (r', b', written + n) \<and> reading r' \<and>
     b' = take written b @ take n (remaining r) @ drop (written + n) b \<and>
     remaining r' = drop n (remaining r) \<and> elementLength r' = elementLength r"
  using assms
proof (induction r b written rule: read_loop.induct)
  case (1 r b written)
  show ?case
  proof (cases "written < length b \<and> mrw_position r < numElements r")
    case False
    then have stop: "read_loop r b written = Inr (r, b, written)" by (subst read_loop.simps) auto
    show ?thesis
    proof (cases "written < length b")
      case True
      then have "mrw_position r = numElements r" "mrw_offset r = elementLength r"
        using False "1.prems" by (auto simp: reading_def)
      then have "remaining r = []"
        using "1.prems"(1) by (simp add: remaining_def unread_def reading_def)
      then show ?thesis using stop "1.prems"(1) by simp
    next
      case False
      then show ?thesis using stop "1.prems" by simp
    qed
  next
    case True
    then have off: "mrw_offset r = elementLength r" using "1.prems" by auto
    then have rem: "remaining r = concat (map (elem_at r) (unread r))"
      using "1.prems"(1) by (simp add: remaining_def reading_def)
    let ?e = "elem_at r (mrw_permutation r ! mrw_position r)"
    have le: "length ?e = elementLength r"
      using "1.prems"(1) unread_Cons [OF "1.prems"(1)] True by (simp add: reading_def)
    show ?thesis
    proof (cases "written + elementLength r > length b")
      case partial: True
      obtain r1 where r1: "ReadElement r (mrw_element r) = Inr (r1, ?e)" "reading r1"
        "map (elem_at r) (unread r) = ?e # map (elem_at r1) (unread r1)"
        "elementLength r1 = elementLength r"
        using ReadElement_ok [OF "1.prems"(1), of "mrw_element r"] True "1.prems"(1)
        by (auto simp: reading_def)
      define k where "k = length b - written"
      define r2 where "r2 = r1\<lparr>mrw_element := ?e, mrw_offset := k\<rparr>"
      have k: "min (length b - written) (length ?e) = k" using partial le by (simp add: k_def)
      have kl: "k \<le> elementLength r" using partial by (simp add: k_def)
      have el: "elem_at r2 = elem_at r1" "unread r2 = unread r1"
        by (simp_all add: r2_def elem_at_def unread_def fun_eq_iff)
      have rd2: "reading r2"
        using r1(2,4) le kl el by (auto simp: reading_def r2_def unread_def elem_at_def)
      have rem2: "remaining r = take k ?e @ remaining r2"
        using rem r1(3) el by (simp add: remaining_def r2_def)
      have "read_loop r b written = read_loop r2 (copy_at b written ?e) (written + k)"
        using True partial by (subst read_loop.simps) (simp add: r1(1) k Let_def r2_def)
      moreover have "\<dots> = Inr (r2, copy_at b written ?e, written + k)"
        using True by (subst read_loop.simps) (simp add: k_def)
      moreover have "copy_at b written ?e = take written b @ take k ?e"
        using partial le k_def by (simp add: copy_at_def go_copy_def)
      moreover have "length (take k ?e) = k" using le kl by simp
      moreover have "written + k = length b" using True by (simp add: k_def)
      ultimately show ?thesis
        using rd2 r1(4) by (intro exI [of _ r2] exI [of _ "take written b @ take k ?e"])
          (simp add: rem2 k_def [symmetric] r2_def Let_def)
    next
      case full: False
      let ?b0 = "take (elementLength r) (drop written b)"
      have "length ?b0 = elementLength r" using full by simp
      from ReadElement_ok [OF "1.prems"(1) _ this] True
      obtain r1 where r1: "ReadElement r ?b0 = Inr (r1, ?e)" "reading r1"
        "map (elem_at r) (unread r) = ?e # map (elem_at r1) (unread r1)"
        "elementLength r1 = elementLength r" "mrw_offset r1 = mrw_offset r"
        by auto
      let ?b1 = "copy_at b written ?e"
      have b1: "?b1 = take written b @ ?e @ drop (written + elementLength r) b"
        using full le by (simp add: copy_at_filled)
      have lb: "length ?b1 = length b" using True by simp
      have rem1: "remaining r = ?e @ remaining r1"
        using rem r1(2,3,4,5) off by (simp add: remaining_def reading_def)
      let ?n = "min (length b - (written + elementLength r)) (length (remaining r1))"
      have "\<exists>r' b'. let n = min (length ?b1 - (written + elementLength r)) (length (remaining r1)) in
        read_loop r1 ?b1 (written + elementLength r) = Inr (r', b', written + elementLength r + n) \<and> reading r' \<and>
        b' = take (written + elementLength r) ?b1 @ take n (remaining r1) @ drop (written + elementLength r + n) ?b1 \<and>
        remaining r' = drop n (remaining r1) \<and> elementLength r' = elementLength r1"
        by (rule "1.IH"(2) [OF True full r1(1) refl]) (use r1 full lb off in auto)
      then obtain r' b' where r': "read_loop r1 ?b1 (written + elementLength r) = Inr (r', b', written + elementLength r + ?n)"
        "reading r'" "remaining r' = drop ?n (remaining r1)" "elementLength r' = elementLength r1"
        "b' = take (written + elementLength r) ?b1 @ take ?n (remaining r1) @ drop (written + elementLength r + ?n) ?b1"
        unfolding Let_def lb by blast
      have n: "min (length b - written) (length (remaining r)) = elementLength r + ?n"
        using full le by (simp add: rem1)
      have "read_loop r b written = read_loop r1 ?b1 (written + elementLength r)"
        using True full by (subst read_loop.simps) (simp add: r1(1))
      moreover have "b' = take written b @ take (elementLength r + ?n) (remaining r) @ drop (written + (elementLength r + ?n)) b"
        using full le True by (simp add: r'(5) b1 rem1 ac_simps)
      ultimately show ?thesis
        using r'(1-4) le r1(4) unfolding Let_def n
        by (intro exI [of _ r'] exI [of _ b']) (simp add: rem1 add.assoc)
    qed
  qed
qed

lemma ReadNextChunk_stream:
  assumes r: "reading r"
  shows "\<exists>r' b'. let n = min (length b) (length (remaining r)) in
     ReadNextChunk r b = Inr (r', b', n) \<and> reading r' \<and> b' = take n (remaining r) @ drop n b \<and>
     remaining r' = drop n (remaining r) \<and> elementLength r' = elementLength r"
proof (cases "elementLength r - mrw_offset r > 0")
  case False
  then have "mrw_offset r = elementLength r" using r by (simp add: reading_def)
  then show ?thesis using read_loop_stream [OF r, of 0 b] False by (simp add: ReadNextChunk_def Let_def)
next
  case True
  define rest where "rest = drop (mrw_offset r) (mrw_element r)"
  define k where "k = min (length b) (length rest)"
  define r1 where "r1 = r\<lparr>mrw_offset := mrw_offset r + k\<rparr>"
  have lr: "length rest = elementLength r - mrw_offset r" using r by (simp add: rest_def reading_def)
  have el: "elem_at r1 = elem_at r" "unread r1 = unread r"
    by (simp_all add: r1_def elem_at_def unread_def fun_eq_iff)
  have rd1: "reading r1" using r lr True el by (auto simp: reading_def r1_def k_def unread_def elem_at_def)
  have rem: "remaining r = take k rest @ remaining r1"
    using el by (simp add: remaining_def r1_def rest_def add.commute flip: drop_drop)
  have off: "mrw_offset r1 = elementLength r1 \<or> k = length (go_copy b rest)"
    using lr True by (auto simp: r1_def k_def min_def)
  have kb: "k \<le> length b" by (simp add: k_def)
  have b: "take k (go_copy b rest) = take k rest" "drop j (go_copy b rest) = drop j b" if "k \<le> j" for j
    using that by (auto simp: go_copy_def k_def min_def split: if_splits)
  have lk: "length (take k rest) = k" by (simp add: k_def)
  have "ReadNextChunk r b = read_loop r1 (go_copy b rest) k"
    using True by (simp add: ReadNextChunk_def Let_def r1_def k_def rest_def)
  moreover obtain r' b' where "read_loop r1 (go_copy b rest) k
      = Inr (r', b', k + min (length b - k) (length (remaining r1)))" "reading r'"
    "b' = take k rest @ take (min (length b - k) (length (remaining r1))) (remaining r1) @
       drop (k + min (length b - k) (length (remaining r1))) b"
    "remaining r' = drop (min (length b - k) (length (remaining r1))) (remaining r1)"
    "elementLength r' = elementLength r1"
    using read_loop_stream [OF rd1 off] kb b(1) [of k] b(2) by (auto simp: Let_def)
  ultimately show ?thesis
    using kb lk by (intro exI [of _ r'] exI [of _ b']) (auto simp: rem Let_def min_def r1_def)
qed

lemma length_remaining:
  assumes "reading r"
  shows "length (remaining r) = (elementLength r - mrw_offset r) + length (unread r) * elementLength r"
  using length_concat_const [of "map (elem_at r) (unread r)" "elementLength r"] assms
  by (simp add: remaining_def reading_def)

lemma length_elem_at_filling:
  assumes "filling m"
  shows "length (elem_at m i) = elementLength m"
proof (cases "i < elementCount m")
  case True
  then have "i < length (contents m)" using assms by (simp add: contents_def filling_def)
  then have "contents m ! i \<in> set (contents m)" by simp
  moreover have "contents m ! i = elem_at m i" using True by (simp add: contents_def elem_at_def)
  ultimately show ?thesis using assms by (simp add: filling_def)
next
  case False
  then show ?thesis using assms by (simp add: elem_at_def filling_def)
qed

lemma Shuffle_ok:
  assumes m: "filling m" and sh: "shuffler_ok rd sh" and n: "numElements m < 2 ^ 32"
  shows "\<exists>m' sh' p. Shuffle rd sh m dummies = Inr (m', sh') \<and> shuffler_ok rd sh' \<and> reading m' \<and>
     elementLength m' = elementLength m \<and> elementCount m' = elementCount m \<and>
     numElements m' = (if dummies then numElements m else elementCount m) \<and>
     mset p = mset [0..<numElements m'] \<and> remaining m' = concat (map (elem_at m) p)"
proof -
  let ?n = "if dummies then numElements m else elementCount m"
  have "?n < 2 ^ 32" using m n by (auto simp: filling_def)
  from Perm_ok [OF sh this] obtain p sh' where p: "Perm rd sh ?n = Inr (p, sh')"
    "mset p = mset [0..<?n]" "shuffler_ok rd sh'" by blast
  note q = perm_of_upt [OF p(2)]
  let ?m = "(if \<not> dummies then m\<lparr>numElements := elementCount m\<rparr> else m)\<lparr>mrw_permutation := p\<rparr>"
  have s: "Shuffle rd sh m dummies = Inr (?m, sh')" using p(1) by (auto simp: Shuffle_def Let_def)
  have el: "elem_at ?m = elem_at m" by (simp add: elem_at_def fun_eq_iff)
  note len = length_elem_at_filling [OF m]
  have "unread ?m = p" using m by (simp add: unread_def filling_def)
  then have "reading ?m" using m q len el by (auto simp: reading_def filling_def)
  moreover have "remaining ?m = concat (map (elem_at m) p)"
    using m \<open>unread ?m = p\<close> el by (simp add: remaining_def filling_def)
  ultimately show ?thesis using s p by (intro exI [of _ ?m] exI [of _ sh'] exI [of _ p]) auto
qed

lemma elems_of_filling:
  assumes "filling m" "elementCount m \<le> n"
  shows "map (elem_at m) [0..<n] = contents m @ replicate (n - elementCount m) (mrw_zeros m)"
  using assms
  by (intro nth_equalityI) (auto simp: elem_at_def contents_def filling_def nth_append)

text \<open>A shuffled buffer, read in one piece, is the concatenation of its elements in some order.\<close>

lemma shuffled_stream:
  assumes "filling m" and "shuffler_ok rd sh" and "numElements m < 2 ^ 32"
  shows "\<exists>m' sh' r' ms. Shuffle rd sh m dummies = Inr (m', sh') \<and> shuffler_ok rd sh' \<and>
     elementCount m' = elementCount m \<and> Len m' = length ms * elementLength m \<and>
     ReadNextChunk m' (zeros (Len m')) = Inr (r', concat ms, Len m') \<and> remaining r' = [] \<and>
     (\<forall>x \<in> set ms. length x = elementLength m) \<and>
     mset ms = mset (contents m) +
       (if dummies then replicate_mset (numElements m - elementCount m) (zeros (elementLength m)) else {#})"
proof -
  obtain m' sh' p where m': "Shuffle rd sh m dummies = Inr (m', sh')" "reading m'"
    "elementLength m' = elementLength m" "mset p = mset [0..<numElements m']"
    "numElements m' = (if dummies then numElements m else elementCount m)"
    "remaining m' = concat (map (elem_at m) p)" "shuffler_ok rd sh'" "elementCount m' = elementCount m"
    using Shuffle_ok [OF assms(1-3)] by blast
  have len: "\<forall>x \<in> set (map (elem_at m) p). length x = elementLength m"
    using length_elem_at_filling [OF assms(1)] by simp
  have Len: "Len m' = length (map (elem_at m) p) * elementLength m"
    using perm_of_upt(3) [OF m'(4)] m'(3) by (simp add: Len_def)
  have lr: "length (remaining m') = Len m'"
    unfolding m'(6) Len by (rule length_concat_const [OF len])
  obtain r' out where out: "ReadNextChunk m' (zeros (Len m')) = Inr (r', out, Len m')" "out = remaining m'"
    "remaining r' = []"
    using ReadNextChunk_stream [OF m'(2), of "zeros (Len m')"] lr by (auto simp: Let_def)
  have "mset (map (elem_at m) p) = image_mset (elem_at m) (mset [0..<numElements m'])"
    by (simp only: mset_map m'(4))
  also have "\<dots> = mset (map (elem_at m) [0..<numElements m'])" by (simp only: mset_map)
  also have "map (elem_at m) [0..<numElements m'] =
      contents m @ replicate (numElements m' - elementCount m) (mrw_zeros m)"
    using assms(1) m'(5) by (intro elems_of_filling) (auto simp: filling_def)
  finally have ms: "mset (map (elem_at m) p) = mset (contents m) +
      (if dummies then replicate_mset (numElements m - elementCount m) (zeros (elementLength m)) else {#})"
    using m'(5) assms(1) by (auto simp: filling_def)
  show ?thesis
    using m' len Len out ms
    by (intro exI [of _ m'] exI [of _ sh'] exI [of _ r'] exI [of _ "map (elem_at m) p"]) simp
qed

section \<open>Properties\<close>

text \<open>C18. Chunked reading is exact: in any state of a shuffled buffer a read into a slice of any size
  returns without a panic, delivers exactly the next bytes of the remaining stream, as many as fit,
  leaves the rest of the slice untouched, and leaves the rest of the stream to be read.\<close>

theorem ReadNextChunk_exact:
  assumes "reading r"
  shows "\<exists>r' b' n. ReadNextChunk r b = Inr (r', b', n) \<and> n = min (length b) (length (remaining r)) \<and>
           b' = take n (remaining r) @ drop n b \<and> remaining r' = drop n (remaining r) \<and> reading r'"
  using ReadNextChunk_stream [OF assms, of b] unfolding Let_def by blast

definition sample_buffer :: mem_read_writer where
  "sample_buffer = (fst (Write (NewMemReadWriter 2 3) [7, 8]))\<lparr>mrw_permutation := [2, 0, 1]\<rparr>"

theorem ReadNextChunk_exact_witness:
  "\<exists>r' b' n. ReadNextChunk sample_buffer (zeros 3) = Inr (r', b', n) \<and> n = 3 \<and> b' = [0, 0, 7] \<and>
             remaining r' = [8, 0, 0]"
proof -
  have "elem_at sample_buffer i = (if i = 0 then [7, 8] else [0, 0])" if "i < 3" for i
    using that by (auto simp: sample_buffer_def elem_at_def Write_def NewMemReadWriter_def zeros_def numeral_eq_Suc)
  then have "reading sample_buffer" and rem: "remaining sample_buffer = [0, 0, 7, 8, 0, 0]"
    by (auto simp: reading_def remaining_def unread_def sample_buffer_def Write_def NewMemReadWriter_def)
  from ReadNextChunk_exact [OF this(1), of "zeros 3"] show ?thesis by (auto simp: rem zeros_def numeral_eq_Suc)
qed

text \<open>C17. Every message written to a link leaves it exactly once: after the buffer is shuffled, one read
  of \<^verbatim>\<open>Len()\<close> bytes fills the slice, and cut into elements it is a permutation of the messages written,
  plus, when dummies are asked for, one all-zero element for each free place.\<close>

theorem shuffled_buffer_sends_all:
  assumes "filling m" and "shuffler_ok rd sh" and "numElements m < 2 ^ 32" and "0 < elementLength m"
  shows "\<exists>m' sh' r' out. Shuffle rd sh m dummies = Inr (m', sh') \<and>
     ReadNextChunk m' (zeros (Len m')) = Inr (r', out, Len m') \<and> remaining r' = [] \<and>
     mset (chunks (elementLength m) out) =
       mset (contents m) + (if dummies then replicate_mset (numElements m - elementCount m) (zeros (elementLength m)) else {#})"
proof -
  obtain m' sh' r' ms where ms: "Shuffle rd sh m dummies = Inr (m', sh')" "remaining r' = []"
    "ReadNextChunk m' (zeros (Len m')) = Inr (r', concat ms, Len m')" "\<forall>x \<in> set ms. length x = elementLength m"
    "mset ms = mset (contents m) +
       (if dummies then replicate_mset (numElements m - elementCount m) (zeros (elementLength m)) else {#})"
    using shuffled_stream [OF assms(1-3)] by blast
  have "chunks (elementLength m) (concat ms) = ms" by (rule chunks_concat [OF assms(4) ms(4)])
  then show ?thesis
    using ms by (intro exI [of _ m'] exI [of _ sh'] exI [of _ r'] exI [of _ "concat ms"]) simp
qed

theorem shuffled_buffer_sends_all_witness:
  "\<exists>m' sh' r' out. Shuffle zero_reader \<lparr>sh_src = 0, sh_buf = zeros 8, sh_pos = 0\<rparr>
       (fst (Write (NewMemReadWriter 2 3) [7, 8])) True = Inr (m', sh') \<and>
     ReadNextChunk m' (zeros (Len m')) = Inr (r', out, Len m') \<and>
     mset (chunks 2 out) = {# [7, 8], zeros 2, zeros 2 #}"
proof -
  let ?m = "fst (Write (NewMemReadWriter 2 3) [7, 8])"
  have "filling ?m" "contents ?m = [[7, 8]]"
    using Write_ok [OF contents_new(1), of "[7, 8]" 2 3] unfolding contents_new(2)
    by (auto simp: NewMemReadWriter_def)
  moreover have "shuffler_ok zero_reader \<lparr>sh_src = 0, sh_buf = zeros 8, sh_pos = 0\<rparr>"
    using zero_reader_ok by (simp add: shuffler_ok_def)
  moreover have "elementLength ?m = 2" "numElements ?m = 3" "elementCount ?m = 1"
    by (simp_all add: Write_def NewMemReadWriter_def)
  moreover note shuffled_buffer_sends_all [of ?m zero_reader "\<lparr>sh_src = 0, sh_buf = zeros 8, sh_pos = 0\<rparr>" True]
  moreover have "replicate_mset 2 (zeros 2) = {# zeros 2, zeros 2 #}" by (simp add: numeral_eq_Suc)
  ultimately show ?thesis by fastforce
qed

text \<open>A link never holds more than its bin size: \<^verbatim>\<open>Write\<close> accepts exactly the first \<^verbatim>\<open>numElements\<close>
  messages, in order, and refuses every later one with \<^verbatim>\<open>LinkOverflow\<close> and no change.\<close>

theorem link_overflow:
  assumes "filling m" and "length b = elementLength m"
  shows "if elementCount m < numElements m
         then \<exists>m'. Write m b = (m', Inr ()) \<and> contents m' = contents m @ [b] \<and> filling m'
         else Write m b = (m, Inl (Err LinkOverflow))"
  using Write_ok [OF assms] assms(1) by (auto simp: Write_def filling_def)

theorem link_overflow_witness:
  "Write (fst (Write (NewMemReadWriter 1 1) [5])) [6] = (fst (Write (NewMemReadWriter 1 1) [5]), Inl (Err LinkOverflow))"
proof -
  let ?m = "fst (Write (NewMemReadWriter 1 1) [5])"
  have "filling ?m" using Write_ok [OF contents_new(1), of "[5]" 1 1] by (auto simp: NewMemReadWriter_def)
  moreover have "elementLength ?m = 1" "numElements ?m = 1" "elementCount ?m = 1"
    by (simp_all add: Write_def NewMemReadWriter_def)
  ultimately show ?thesis using link_overflow [of ?m "[6]"] by simp
qed

end
