(* ===== verification/Marking.thy ===== *)
theory Marking
  imports Prelude
begin

text \<open>
  The contract behind "every key is used exactly once". Two tables of the program hold keys that a
  message may use once per round and are asked at the end of the round whether all of them were used:
  the key table of an onion layer (\<^verbatim>\<open>KeyLookupTable\<close> with \<^verbatim>\<open>OnionParser\<close>) and the table of final signing keys of
  an anytrust group (\<^verbatim>\<open>VerificationKeyTable\<close>). The locale \<open>mark_once\<close> states what they promise and derives
  what a whole round of uses amounts to.
\<close>

fun run_marks :: "('st \<Rightarrow> 'k \<Rightarrow> 'st \<times> unit res) \<Rightarrow> 'st \<Rightarrow> 'k list \<Rightarrow> 'st \<times> 'k list" where
  "run_marks mark s [] = (s, [])"
| "run_marks mark s (k # ks) =
     (case mark s k of
        (s', Inr _) \<Rightarrow> (let (t, acc) = run_marks mark s' ks in (t, k # acc))
      | (s', Inl _) \<Rightarrow> run_marks mark s' ks)"

locale mark_once =
  fixes inv :: "'st \<Rightarrow> bool"
    and keys :: "'st \<Rightarrow> 'k set"
    and used :: "'st \<Rightarrow> 'k set"
    and mark :: "'st \<Rightarrow> 'k \<Rightarrow> 'st \<times> unit res"
    and complete :: "'st \<Rightarrow> bool"
  assumes keys_finite: "inv s \<Longrightarrow> finite (keys s)"
    and used_keys: "inv s \<Longrightarrow> used s \<subseteq> keys s"
    and mark_new: "inv s \<Longrightarrow> k \<in> keys s \<Longrightarrow> k \<notin> used s \<Longrightarrow>
      \<exists>s'. mark s k = (s', Inr ()) \<and> inv s' \<and> keys s' = keys s \<and> used s' = insert k (used s)"
    and mark_dup: "inv s \<Longrightarrow> k \<in> used s \<Longrightarrow> mark s k = (s, Inl (Err Duplicate))"
    and complete_iff: "inv s \<Longrightarrow> complete s \<longleftrightarrow> card (used s) = card (keys s)"
begin

lemma complete_all: "inv s \<Longrightarrow> complete s \<longleftrightarrow> used s = keys s"
  using complete_iff keys_finite used_keys by (metis card_subset_eq)

lemma run_marks_ok:
  assumes "inv s" "set ks \<subseteq> keys s" "run_marks mark s ks = (s', acc)"
  shows "inv s' \<and> keys s' = keys s \<and> used s' = used s \<union> set acc \<and> distinct acc \<and>
         set acc = set ks - used s"
  using assms
proof (induction ks arbitrary: s acc)
  case Nil
  then show ?case by simp
next
  case (Cons k ks)
  show ?case
  proof (cases "k \<in> used s")
    case True
    then have "run_marks mark s ks = (s', acc)" using Cons.prems mark_dup [of s k] by simp
    then show ?thesis using Cons.IH [of s acc] Cons.prems True by auto
  next
    case False
    then obtain t where t: "mark s k = (t, Inr ())" "inv t" "keys t = keys s" "used t = insert k (used s)"
      using mark_new [of s k] Cons.prems by auto
    then obtain acc' where a: "run_marks mark t ks = (s', acc')" "acc = k # acc'"
      using Cons.prems(3) by (auto split: prod.splits)
    have "set ks \<subseteq> keys t" using Cons.prems t by auto
    from Cons.IH [OF t(2) this a(1)] show ?thesis using t a(2) False by auto
  qed
qed

text \<open>A round of uses: accepted are exactly the different keys that were tried, each once, and the table
  is complete exactly when that was all of them.\<close>

lemma exactly_once:
  assumes "inv s" "used s = {}" "set ks \<subseteq> keys s" "run_marks mark s ks = (s', acc)"
  shows "distinct acc" "set acc = set ks" "complete s' \<longleftrightarrow> set acc = keys s"
  using run_marks_ok [OF assms(1,3,4)] complete_all [of s'] assms(2) by auto

end

end
