(* ===== verification/KeyTable.thy ===== *)
theory KeyTable
  imports CommonState Buffers Marking
begin

text \<open>
  The key table of an onion layer and the routing of onion messages: \<^verbatim>\<open>keyTable.go\<close>, \<^verbatim>\<open>onion.go\<close> and
  \<^verbatim>\<open>trusteeSender.go\<close> of \<^verbatim>\<open>src/server/processMessages\<close>. The objects \<^verbatim>\<open>*BootstrapKey\<close> are shared by the two
  maps of a table (and by a checkpoint), so a table holds them in a list and the maps hold their
  positions. The lemmas show that a box made for a key is opened with it, that a message is accepted
  at most once per key and round, and that the check at the end of a layer succeeds exactly when every
  key was used.
\<close>

section \<open>Key tables\<close>

record bootstrap_key =
  bk_PrevServer :: int
  bk_SharedKey :: shared_key
  bk_VerificationKey :: verification_key
  bk_ExpandedVerificationKey :: "verification_key option"
  bk_NextServer :: int
  bk_OutgoingSharedKey :: shared_key
  bk_OutgoingVerificationKey :: verification_key
  bk_ExpandedOutgoingVerificationKey :: "verification_key option"
  bk_used :: bool

record 's key_table =
  kt_keys :: "bootstrap_key list"
  kt_table :: "(lookup_key \<times> nat) list"
  kt_reverseTable :: "(lookup_key \<times> nat) list"
  kt_secretKey :: 's

definition NewKeyLookupTable :: "('s, 'p, 'g2, 'r) common_state \<Rightarrow> 's key_table" where
  "NewKeyLookupTable c =
     \<lparr>kt_keys = [], kt_table = [], kt_reverseTable = [], kt_secretKey = cs_ServerSecretKey c\<rparr>"

definition AddKey ::
  "('s, 'p) lib \<Rightarrow> 's key_table \<Rightarrow> verification_key \<Rightarrow> shared_key \<Rightarrow> int \<Rightarrow> int \<Rightarrow> verification_key \<Rightarrow>
     's key_table \<times> nat res" where
  "AddKey L t key sharedKey prev next nextKey =
     (case ToCurvePoint L nextKey of
        Inl _ \<Rightarrow> (t, Inl (Err BadElementError))
      | Inr pt \<Rightarrow>
          let b = \<lparr>bk_PrevServer = prev, bk_SharedKey = sharedKey, bk_VerificationKey = vk_Copy key,
                   bk_ExpandedVerificationKey = None, bk_NextServer = next,
                   bk_OutgoingSharedKey = SharedKey L (kt_secretKey t) pt,
                   bk_OutgoingVerificationKey = vk_Copy nextKey, bk_ExpandedOutgoingVerificationKey = None,
                   bk_used = False\<rparr>;
              add = (\<lambda>b. let id = length (kt_keys t) in
                 (t\<lparr>kt_keys := kt_keys t @ [b], kt_table := AList.update (LookupKey key) id (kt_table t),
                    kt_reverseTable := AList.update (LookupKey nextKey) id (kt_reverseTable t)\<rparr>, Inr id)) in
          if PreExpandKeys then
            (case ExpandKey L (bk_VerificationKey b) of
               Inl e \<Rightarrow> (t, Inl e)
             | Inr e \<Rightarrow> add (b\<lparr>bk_ExpandedVerificationKey := Some e\<rparr>))
          else add b)"

definition Lookup :: "'s key_table \<Rightarrow> lookup_key \<Rightarrow> bool \<Rightarrow> nat option" where
  "Lookup t key reverse = (if reverse then map_of (kt_reverseTable t) key else map_of (kt_table t) key)"

definition NumKeys :: "'s key_table \<Rightarrow> nat" where
  "NumKeys t = length (kt_table t)"

definition RevokeKey :: "'s key_table \<Rightarrow> verification_key \<Rightarrow> 's key_table" where
  "RevokeKey t key = t\<lparr>kt_table := AList.delete (LookupKey key) (kt_table t)\<rparr>"

definition ResetUsage :: "'s key_table \<Rightarrow> 's key_table" where
  "ResetUsage t =
     t\<lparr>kt_keys := foldl (\<lambda>ks i. ks[i := (ks ! i)\<lparr>bk_used := False\<rparr>]) (kt_keys t) (map snd (kt_table t))\<rparr>"

section \<open>Onion parser\<close>

record onion_parser =
  op_count :: nat
  op_reverse :: bool

definition NewOnionParser :: "bool \<Rightarrow> onion_parser" where
  "NewOnionParser reverse = \<lparr>op_count = 0, op_reverse = reverse\<rparr>"

text \<open>The critical section under \<^verbatim>\<open>usageLock\<close>: the key is marked and counted, or it is a duplicate.\<close>

definition mark_used :: "'s key_table \<times> onion_parser \<Rightarrow> nat \<Rightarrow> ('s key_table \<times> onion_parser) \<times> unit res" where
  "mark_used = (\<lambda>(t, p) i.
     if bk_used (kt_keys t ! i) then ((t, p), Inl (Err Duplicate))
     else ((t\<lparr>kt_keys := (kt_keys t)[i := (kt_keys t ! i)\<lparr>bk_used := True\<rparr>]\<rparr>,
            p\<lparr>op_count := op_count p + 1\<rparr>), Inr ()))"

definition parse_layer :: "('s, 'p, 'g2, 'r) common_state \<Rightarrow> onion_parser \<Rightarrow> int" where
  "parse_layer c p = (if op_reverse p then cs_Layer c + cs_NumLayers c else cs_Layer c)"

text \<open>Everything before the critical section: the decryption and the key it was found under.\<close>

definition open_envelope ::
  "('s, 'p) lib \<Rightarrow> ('s, 'p, 'g2, 'r) common_state \<Rightarrow> 's key_table \<Rightarrow> onion_parser \<Rightarrow> bytes \<Rightarrow> (bytes \<times> nat) res" where
  "open_envelope L c t p message =
     (let layer = parse_layer c p; round = cs_Round c; server = cs_MyId c; nonce = Nonce round layer server in
      sbind (le_InterpretFrom message) (\<lambda>lm.
      sbind (of_option (Err KeyNotFound) (Lookup t (le_Key lm) (op_reverse p))) (\<lambda>i.
        let key = kt_keys t ! i;
            decryptionKey = (if op_reverse p then bk_OutgoingSharedKey key else bk_SharedKey key);
            verificationKey = (if op_reverse p then bk_OutgoingVerificationKey key else bk_VerificationKey key);
            expandedKey = (if op_reverse p then bk_ExpandedOutgoingVerificationKey key else bk_ExpandedVerificationKey key)
        in
        sbind (le_GetSignedData round layer server lm) (\<lambda>(lm, m).
        sbind (le_GetSignature lm) (\<lambda>s.
          let ok = (case expandedKey of Some e \<Rightarrow> VerifyExpanded L e m s | None \<Rightarrow> Verify L verificationKey m s) in
          if \<not> ok then Inl (Err DecryptionFailure)
          else sbind (SecretOpen L (le_SignedCiphertext lm) nonce decryptionKey) (\<lambda>d. Inr (d, i)))))))"

definition AuthenticatedOnionParse ::
  "('s, 'p) lib \<Rightarrow> ('s, 'p, 'g2, 'r) common_state \<Rightarrow> 's key_table \<times> onion_parser \<Rightarrow> bytes \<Rightarrow>
     ('s key_table \<times> onion_parser) \<times> (bytes \<times> nat) res" where
  "AuthenticatedOnionParse L c st message =
     (case open_envelope L c (fst st) (snd st) message of
        Inl e \<Rightarrow> (st, Inl e)
      | Inr (d, i) \<Rightarrow> (case mark_used st i of
            (st', Inl e) \<Rightarrow> (st', Inl e)
          | (st', Inr _) \<Rightarrow> (st', Inr (d, i))))"

definition AllKeysAccountedFor :: "'s key_table \<times> onion_parser \<Rightarrow> 's key_table \<times> bool" where
  "AllKeysAccountedFor = (\<lambda>(t, p).
     let ok = (op_count p = NumKeys t) in (if ok then ResetUsage t else t, ok))"

section \<open>Routers\<close>

text \<open>The map of outgoing buffers has an entry for every number below its length.\<close>

type_synonym out_buffers = "mem_read_writer list"

definition new_buffers :: "('s, 'p, 'g2, 'r) common_state \<Rightarrow> nat \<Rightarrow> nat \<Rightarrow> nat \<Rightarrow> out_buffers res" where
  "new_buffers c n len binSize =
     (if n \<le> length (cs_Shufflers c) then Inr (replicate n (NewMemReadWriter len binSize))
      else Inl (Panic IndexOutOfRange))"

definition write_buffer :: "out_buffers \<Rightarrow> int \<Rightarrow> bytes \<Rightarrow> out_buffers \<times> unit res" where
  "write_buffer bufs dest b =
     (if 0 \<le> dest \<and> dest < int (length bufs) then
        (case Write (bufs ! nat dest) b of (m, r) \<Rightarrow> (bufs[nat dest := m], r))
      else (bufs, Inl (Panic NilDereference)))"

definition NewLightningRouter :: "('s, 'p, 'g2, 'r) common_state \<Rightarrow> int \<Rightarrow> bool \<Rightarrow> out_buffers res" where
  "NewLightningRouter c layer reverse =
     sbind (go_index_int (cs_OnionMessageLengths c) (if reverse then layer else layer + 1)) (\<lambda>len.
       new_buffers c (cs_NumServers c) len (cs_BinSize c))"

definition AuthenticatedOnionPack :: "out_buffers \<Rightarrow> bytes \<Rightarrow> bootstrap_key \<Rightarrow> bool \<Rightarrow> out_buffers \<times> unit res" where
  "AuthenticatedOnionPack bufs decrypted k reverse =
     (let dest = (if reverse then bk_PrevServer k else bk_NextServer k);
          key = LookupKey (if reverse then bk_VerificationKey k else bk_OutgoingVerificationKey k) in
      case le_Marshal \<lparr>le_Key = key, le_SignedCiphertext = decrypted, le_raw = []\<rparr> of
        Inl e \<Rightarrow> (bufs, Inl e)
      | Inr b \<Rightarrow> write_buffer bufs dest b)"

definition NewTrusteeRouter :: "('s, 'p, 'g2, 'r) common_state \<Rightarrow> int \<Rightarrow> out_buffers res" where
  "NewTrusteeRouter c layer =
     (if cs_NumGroups c = 0 then Inr []
      else sbind (go_index_int (cs_OnionMessageLengths c) layer) (\<lambda>len.
        new_buffers c (cs_NumGroups c) len (cs_GroupBinSize c)))"

definition trustee_Pack :: "out_buffers \<Rightarrow> bytes \<Rightarrow> bootstrap_key \<Rightarrow> out_buffers \<times> unit res" where
  "trustee_Pack bufs decrypted destination =
     (case sbind (slice decrypted 0 SIGNATURE_SIZE) (\<lambda>s.
             fm_Marshal \<lparr>fm_AnonymousVerificationKey = bk_OutgoingVerificationKey destination, fm_Signature = s,
                         fm_Message = drop SIGNATURE_SIZE decrypted\<rparr>) of
        Inl e \<Rightarrow> (bufs, Inl e)
      | Inr b \<Rightarrow> write_buffer bufs (bk_NextServer destination) b)"

section \<open>Lemmas on tables\<close>

definition ids :: "'s key_table \<Rightarrow> nat set" where
  "ids t = set (map snd (kt_table t))"

definition used_ids :: "'s key_table \<Rightarrow> nat set" where
  "used_ids t = {i \<in> ids t. bk_used (kt_keys t ! i)}"

definition table_inv :: "'s key_table \<Rightarrow> bool" where
  "table_inv t \<longleftrightarrow>
     distinct (map fst (kt_table t)) \<and> distinct (map fst (kt_reverseTable t)) \<and>
     distinct (map snd (kt_table t)) \<and> set (map snd (kt_reverseTable t)) = ids t \<and>
     (\<forall>i \<in> ids t. i < length (kt_keys t))"

definition onion_inv :: "'s key_table \<times> onion_parser \<Rightarrow> bool" where
  "onion_inv st \<longleftrightarrow> table_inv (fst st) \<and> op_count (snd st) = card (used_ids (fst st))"

lemma update_fresh: "k \<notin> fst ` set al \<Longrightarrow> AList.update k v al = al @ [(k, v)]"
  by (induction al) auto

lemma table_inv_new: "table_inv (NewKeyLookupTable c)" "ids (NewKeyLookupTable c) = {}"
  by (simp_all add: table_inv_def ids_def NewKeyLookupTable_def)

text \<open>Adding a key under two fresh lookup keys.\<close>

lemma AddKey_ok:
  assumes "pt_decode L nextKey = Some pt"
    and "map_of (kt_table t) (LookupKey key) = None" "map_of (kt_reverseTable t) (LookupKey nextKey) = None"
  shows "\<exists>t' b. AddKey L t key shared prev next nextKey = (t', Inr (length (kt_keys t))) \<and>
     kt_keys t' = kt_keys t @ [b] \<and> kt_table t' = kt_table t @ [(LookupKey key, length (kt_keys t))] \<and>
     kt_reverseTable t' = kt_reverseTable t @ [(LookupKey nextKey, length (kt_keys t))] \<and>
     kt_secretKey t' = kt_secretKey t \<and>
     b = \<lparr>bk_PrevServer = prev, bk_SharedKey = shared, bk_VerificationKey = vk_Copy key,
          bk_ExpandedVerificationKey = None, bk_NextServer = next,
          bk_OutgoingSharedKey = SharedKey L (kt_secretKey t) pt,
          bk_OutgoingVerificationKey = vk_Copy nextKey, bk_ExpandedOutgoingVerificationKey = None, bk_used = False\<rparr>"
  using assms
  by (simp add: AddKey_def ToCurvePoint_def PreExpandKeys_def Let_def update_fresh map_of_eq_None_iff)

lemma AddKey_inv:
  assumes inv: "table_inv t" and "pt_decode L nextKey = Some pt"
    and "map_of (kt_table t) (LookupKey key) = None" "map_of (kt_reverseTable t) (LookupKey nextKey) = None"
    and a: "AddKey L t key shared prev next nextKey = (t', r)"
  shows "table_inv t' \<and> r = Inr (length (kt_keys t)) \<and> ids t' = insert (length (kt_keys t)) (ids t) \<and>
         used_ids t' = used_ids t"
proof -
  from AddKey_ok [OF assms(2-4), of shared prev "next"] a obtain b where
    t': "kt_keys t' = kt_keys t @ [b]" "kt_table t' = kt_table t @ [(LookupKey key, length (kt_keys t))]"
      "kt_reverseTable t' = kt_reverseTable t @ [(LookupKey nextKey, length (kt_keys t))]" "\<not> bk_used b"
      "r = Inr (length (kt_keys t))" by auto
  have ids: "ids t' = insert (length (kt_keys t)) (ids t)" by (simp add: ids_def t')
  have fresh: "length (kt_keys t) \<notin> ids t" using inv by (auto simp: table_inv_def)
  have lt: "\<forall>i \<in> ids t. i < length (kt_keys t)" using inv by (simp add: table_inv_def)
  have "table_inv t'"
    using inv assms(3,4) ids fresh lt unfolding table_inv_def map_of_eq_None_iff
    by (auto simp: t' ids_def less_Suc_eq)
  moreover have "used_ids t' = used_ids t"
    using lt t'(4) fresh by (auto simp: used_ids_def ids t'(1) nth_append)
  ultimately show ?thesis using ids t'(5) by blast
qed

lemma Lookup_ids: "table_inv t \<Longrightarrow> Lookup t k r = Some i \<Longrightarrow> i \<in> ids t"
  by (force simp: Lookup_def ids_def table_inv_def split: if_splits dest: map_of_SomeD)

lemma reset_fold:
  assumes "\<forall>j \<in> set js. j < length ks"
  shows "length (foldl (\<lambda>ks i. ks[i := (ks ! i)\<lparr>bk_used := False\<rparr>]) ks js) = length ks \<and>
     (\<forall>i < length ks. foldl (\<lambda>ks i. ks[i := (ks ! i)\<lparr>bk_used := False\<rparr>]) ks js ! i =
        (if i \<in> set js then (ks ! i)\<lparr>bk_used := False\<rparr> else ks ! i))"
  using assms
proof (induction js arbitrary: ks)
  case (Cons j js)
  from Cons.IH [of "ks[j := (ks ! j)\<lparr>bk_used := False\<rparr>]"] Cons.prems show ?case
    by (auto simp: nth_list_update)
qed simp

lemma ResetUsage_ok:
  assumes "table_inv t"
  shows "table_inv (ResetUsage t)" "ids (ResetUsage t) = ids t" "used_ids (ResetUsage t) = {}"
    "length (kt_keys (ResetUsage t)) = length (kt_keys t)" "kt_table (ResetUsage t) = kt_table t"
proof -
  have b: "\<forall>j \<in> set (map snd (kt_table t)). j < length (kt_keys t)" using assms by (simp add: table_inv_def ids_def)
  show i: "ids (ResetUsage t) = ids t" and l: "length (kt_keys (ResetUsage t)) = length (kt_keys t)"
    and "kt_table (ResetUsage t) = kt_table t"
    using reset_fold [OF b] by (simp_all add: ResetUsage_def ids_def)
  then show "table_inv (ResetUsage t)" using assms by (simp add: table_inv_def ResetUsage_def)
  show "used_ids (ResetUsage t) = {}"
  proof -
    have "\<not> bk_used (kt_keys (ResetUsage t) ! j)" if "j \<in> ids t" for j
    proof -
      have j: "j \<in> set (map snd (kt_table t))" using that by (simp add: ids_def)
      then have "j < length (kt_keys t)" using b by blast
      then have "kt_keys (ResetUsage t) ! j = (kt_keys t ! j)\<lparr>bk_used := False\<rparr>"
        using conjunct2 [OF reset_fold [OF b]] j by (simp add: ResetUsage_def)
      then show ?thesis by simp
    qed
    then show ?thesis by (auto simp: used_ids_def i)
  qed
qed

lemma mark_used_new:
  assumes inv: "onion_inv (t, p)" and i: "i \<in> ids t" "i \<notin> used_ids t"
  shows "\<exists>t' p'. mark_used (t, p) i = ((t', p'), Inr ()) \<and> onion_inv (t', p') \<and> ids t' = ids t \<and>
     used_ids t' = insert i (used_ids t) \<and> kt_table t' = kt_table t \<and> kt_reverseTable t' = kt_reverseTable t \<and>
     op_reverse p' = op_reverse p \<and> kt_keys t' = (kt_keys t)[i := (kt_keys t ! i)\<lparr>bk_used := True\<rparr>]"
proof -
  let ?t = "t\<lparr>kt_keys := (kt_keys t)[i := (kt_keys t ! i)\<lparr>bk_used := True\<rparr>]\<rparr>"
  have lt: "\<forall>j \<in> ids t. j < length (kt_keys t)" using inv by (simp add: onion_inv_def table_inv_def)
  have ids: "ids ?t = ids t" by (simp add: ids_def)
  have u: "used_ids ?t = insert i (used_ids t)"
    using i lt by (auto simp: used_ids_def ids nth_list_update)
  have "table_inv ?t" using inv by (simp add: onion_inv_def table_inv_def ids)
  moreover have "finite (used_ids t)" by (simp add: used_ids_def ids_def)
  ultimately have "onion_inv (?t, p\<lparr>op_count := op_count p + 1\<rparr>)"
    using inv i(2) by (simp add: onion_inv_def u)
  moreover have "mark_used (t, p) i = ((?t, p\<lparr>op_count := op_count p + 1\<rparr>), Inr ())"
    using i by (simp add: mark_used_def used_ids_def)
  ultimately show ?thesis using u ids by simp
qed

interpretation onion_keys: mark_once onion_inv "\<lambda>st. ids (fst st)" "\<lambda>st. used_ids (fst st)" mark_used
  "\<lambda>st. snd (AllKeysAccountedFor st)"
proof unfold_locales
  fix s :: "'a key_table \<times> onion_parser" and k
  obtain t p where s: "s = (t, p)" by fastforce
  assume inv: "onion_inv s"
  show "finite (ids (fst s))" by (simp add: ids_def)
  show "used_ids (fst s) \<subseteq> ids (fst s)" by (auto simp: used_ids_def)
  show "\<exists>s'. mark_used s k = (s', Inr ()) \<and> onion_inv s' \<and> ids (fst s') = ids (fst s) \<and>
      used_ids (fst s') = insert k (used_ids (fst s))"
    if "k \<in> ids (fst s)" "k \<notin> used_ids (fst s)"
    using mark_used_new [of t p k] inv that s by fastforce
  show "mark_used s k = (s, Inl (Err Duplicate))" if "k \<in> used_ids (fst s)"
    using that s by (simp add: mark_used_def used_ids_def)
  have "card (ids t) = length (kt_table t)"
    using inv s distinct_card [of "map snd (kt_table t)"] by (simp add: onion_inv_def table_inv_def ids_def)
  then show "snd (AllKeysAccountedFor s) = (card (used_ids (fst s)) = card (ids (fst s)))"
    using inv s by (simp add: AllKeysAccountedFor_def onion_inv_def NumKeys_def Let_def)
qed

section \<open>Parsing\<close>

text \<open>The keys a parser uses, by direction.\<close>

definition dec_key :: "onion_parser \<Rightarrow> bootstrap_key \<Rightarrow> shared_key" where
  "dec_key p k = (if op_reverse p then bk_OutgoingSharedKey k else bk_SharedKey k)"

definition ver_key :: "onion_parser \<Rightarrow> bootstrap_key \<Rightarrow> verification_key" where
  "ver_key p k = (if op_reverse p then bk_OutgoingVerificationKey k else bk_VerificationKey k)"

definition exp_key :: "onion_parser \<Rightarrow> bootstrap_key \<Rightarrow> verification_key option" where
  "exp_key p k = (if op_reverse p then bk_ExpandedOutgoingVerificationKey k else bk_ExpandedVerificationKey k)"

text \<open>A box sealed for round, layer and server, sent under the lookup key of the signer, opens.\<close>

lemma open_envelope_sealed:
  assumes L: "aes_ok L" "sig_ok L"
    and look: "Lookup t lk (op_reverse p) = Some i" and k: "kt_keys t ! i = k" and lk: "length lk = 32"
    and ver: "ver_key p k = ed_public L sk" "exp_key p k = None" and dec: "16 \<le> length (dec_key p k)"
    and box: "SignedSecretSeal L m (Nonce (cs_Round c) (parse_layer c p) (cs_MyId c)) (dec_key p k) sk = Inr box"
  shows "open_envelope L c t p (lk @ box) = Inr (m, i)"
proof -
  let ?r = "cs_Round c" and ?l = "parse_layer c p" and ?s = "cs_MyId c"
  have pre: "24 \<le> length lk" using lk by simp
  from sealed_box_checks [OF L dec pre box] obtain raw d sg where
    chk: "PackSignedData ?r ?l ?s (lk @ box) (length lk) = Inr (raw, d)" "ReadSignature box = Inr sg"
      "Verify L (ed_public L sk) d sg" "SecretOpen L box (Nonce ?r ?l ?s) (dec_key p k) = Inr m" by blast
  have "64 \<le> length box" using SignedSecretSeal_length [OF L box] by (simp add: size_defs)
  then have raw: "drop 32 raw = box"
    using PackSignedData_append [OF pre, of box ?r ?l ?s] chk(1) lk by auto
  show ?thesis
    using look k lk chk ver raw
    by (simp add: open_envelope_def Let_def le_InterpretFrom_ok le_GetSignedData_def le_GetSignature_def size_defs
        ver_key_def dec_key_def exp_key_def split: if_splits)
qed

lemma open_envelope_ids:
  assumes "table_inv t" "open_envelope L c t p m = Inr (d, i)"
  shows "i \<in> ids t"
  using assms Lookup_ids [OF assms(1)]
  by (auto simp: open_envelope_def Let_def split: if_splits option.splits)

lemma AuthenticatedOnionParse_effect:
  assumes "onion_inv st" "AuthenticatedOnionParse L c st m = (st', r)"
  shows "(\<exists>e. r = Inl e \<and> st' = st) \<or>
     (\<exists>d i. r = Inr (d, i) \<and> i \<in> ids (fst st) \<and> i \<notin> used_ids (fst st) \<and> mark_used st i = (st', Inr ()) \<and>
            open_envelope L c (fst st) (snd st) m = Inr (d, i))"
proof (cases "open_envelope L c (fst st) (snd st) m")
  case (Inl e)
  then have "AuthenticatedOnionParse L c st m = (st, Inl e)" by (simp add: AuthenticatedOnionParse_def)
  then show ?thesis using assms(2) by simp
next
  case (Inr di)
  obtain d i where di: "di = (d, i)" by fastforce
  have i: "i \<in> ids (fst st)"
    using open_envelope_ids [of "fst st"] assms(1) Inr di by (simp add: onion_inv_def)
  show ?thesis
  proof (cases "i \<in> used_ids (fst st)")
    case True
    then show ?thesis
      using onion_keys.mark_dup [OF assms(1) True] assms(2) Inr di by (auto simp: AuthenticatedOnionParse_def)
  next
    case False
    then obtain s' where mk: "mark_used st i = (s', Inr ())"
      using onion_keys.mark_new [OF assms(1) i False] by blast
    then have "AuthenticatedOnionParse L c st m = (s', Inr (d, i))"
      using Inr di by (simp add: AuthenticatedOnionParse_def)
    then show ?thesis using assms(2) Inr di i False mk by simp
  qed
qed

fun parse_all ::
  "('s, 'p) lib \<Rightarrow> ('s, 'p, 'g2, 'r) common_state \<Rightarrow> 's key_table \<times> onion_parser \<Rightarrow> bytes list \<Rightarrow>
     ('s key_table \<times> onion_parser) \<times> (bytes \<times> nat) list" where
  "parse_all L c st [] = (st, [])"
| "parse_all L c st (m # ms) =
     (case AuthenticatedOnionParse L c st m of
        (st', Inl _) \<Rightarrow> parse_all L c st' ms
      | (st', Inr x) \<Rightarrow> (let (st'', xs) = parse_all L c st' ms in (st'', x # xs)))"

lemma parse_all_marks:
  assumes "onion_inv st" "parse_all L c st ms = (st', xs)"
  shows "run_marks mark_used st (map snd xs) = (st', map snd xs) \<and> set (map snd xs) \<subseteq> ids (fst st)"
  using assms
proof (induction ms arbitrary: st xs)
  case Nil
  then show ?case by simp
next
  case (Cons m ms)
  obtain st1 r where p: "AuthenticatedOnionParse L c st m = (st1, r)" by fastforce
  from AuthenticatedOnionParse_effect [OF Cons.prems(1) p] show ?case
  proof (elim disjE exE conjE)
    fix e assume "r = Inl e" "st1 = st"
    then show ?case using Cons p by simp
  next
    fix d i assume r: "r = Inr (d, i)" and i: "i \<in> ids (fst st)" "i \<notin> used_ids (fst st)"
      and mk: "mark_used st i = (st1, Inr ())"
    from onion_keys.mark_new [OF Cons.prems(1) i] mk have s1: "onion_inv st1" "ids (fst st1) = ids (fst st)" by auto
    obtain ys where ys: "parse_all L c st1 ms = (st', ys)" "xs = (d, i) # ys"
      using Cons.prems(2) p r by (auto split: prod.splits)
    from Cons.IH [OF s1(1) ys(1)] show ?case using ys(2) mk s1(2) i by simp
  qed
qed

section \<open>Properties\<close>

text \<open>C3. Every key is used exactly once: from a table with no key in use, over any sequence of received
  messages, no key is accepted twice, and the check at the end of the layer succeeds if and only if a
  message was accepted under every key of the table; it then makes all keys usable again.\<close>

theorem layer_keys_exactly_once:
  assumes "table_inv t" and "used_ids t = {}" and "parse_all L c (t, NewOnionParser reverse) ms = ((t', p'), xs)"
  shows "distinct (map snd xs) \<and> set (map snd xs) \<subseteq> ids t \<and>
     (snd (AllKeysAccountedFor (t', p')) \<longleftrightarrow> set (map snd xs) = ids t) \<and>
     (snd (AllKeysAccountedFor (t', p')) \<longrightarrow>
        used_ids (fst (AllKeysAccountedFor (t', p'))) = {} \<and> ids (fst (AllKeysAccountedFor (t', p'))) = ids t)"
proof -
  let ?s = "(t, NewOnionParser reverse)"
  have inv: "onion_inv ?s" using assms(1,2) by (simp add: onion_inv_def NewOnionParser_def)
  from parse_all_marks [OF this assms(3)] have r: "run_marks mark_used ?s (map snd xs) = ((t', p'), map snd xs)"
    "set (map snd xs) \<subseteq> ids (fst ?s)" by blast+
  have u: "used_ids (fst ?s) = {}" using assms(2) by simp
  from onion_keys.run_marks_ok [OF inv r(2,1)] have t': "table_inv t'" "ids t' = ids t"
    by (simp_all add: onion_inv_def)
  show ?thesis
    using onion_keys.exactly_once [OF inv u r(2,1)] ResetUsage_ok [OF t'(1)] r(2) t'(2)
    by (auto simp: AllKeysAccountedFor_def Let_def)
qed

text \<open>A table with one key and a message that is accepted under it.\<close>

definition sample_table :: "256 word key_table" where
  "sample_table = fst (AddKey toy_lib \<lparr>kt_keys = [], kt_table = [], kt_reverseTable = [], kt_secretKey = 3\<rparr>
     (toy_public [9]) (zeros 32) 0 0 (zeros 32))"

definition round_onion :: "int \<Rightarrow> bytes" where
  "round_onion r = toy_public [9] @ projr (SignedSecretSeal toy_lib [7] (Nonce r 0 0) (zeros 32) [9])"

definition sample_onion :: bytes where
  "sample_onion = round_onion 0"

lemma length_toy_public [simp]: "length (toy_public k) = 32"
  by (simp add: toy_public_def)

lemma sample_table_inv: "table_inv sample_table" "ids sample_table = {0}" "used_ids sample_table = {}"
  and sample_table_key: "Lookup sample_table (toy_public [9]) False = Some 0"
    "bk_SharedKey (kt_keys sample_table ! 0) = zeros 32" "bk_VerificationKey (kt_keys sample_table ! 0) = toy_public [9]"
    "bk_ExpandedVerificationKey (kt_keys sample_table ! 0) = None"
proof -
  let ?t = "\<lparr>kt_keys = [], kt_table = [], kt_reverseTable = [], kt_secretKey = 3 :: 256 word\<rparr>"
  obtain t r where a: "AddKey toy_lib ?t (toy_public [9]) (zeros 32) 0 0 (zeros 32) = (t, r)" by fastforce
  have i: "table_inv ?t" "ids ?t = {}" "used_ids ?t = {}" by (simp_all add: table_inv_def ids_def used_ids_def)
  have p: "pt_decode toy_lib (zeros 32) = Some (word_of_int (get_le (zeros 32)))" by (simp add: toy_lib_def)
  from AddKey_inv [OF i(1) p _ _ a] i show "table_inv sample_table" "ids sample_table = {0}" "used_ids sample_table = {}"
    by (simp_all add: sample_table_def a)
  from AddKey_ok [OF p, of ?t "toy_public [9]" "zeros 32" 0 0] a
  show "Lookup sample_table (toy_public [9]) False = Some 0"
    "bk_SharedKey (kt_keys sample_table ! 0) = zeros 32" "bk_VerificationKey (kt_keys sample_table ! 0) = toy_public [9]"
    "bk_ExpandedVerificationKey (kt_keys sample_table ! 0) = None"
    by (simp_all add: sample_table_def Lookup_def LookupKey_id vk_Copy_id)
qed

lemma round_onion_opens:
  assumes "cs_Round c = r" "parse_layer c (NewOnionParser False) = 0" "cs_MyId c = 0"
  shows "open_envelope toy_lib c sample_table (NewOnionParser False) (round_onion r) = Inr ([7], 0)"
proof -
  note L = lib_okD(1,2) [OF toy_lib_ok]
  let ?p = "NewOnionParser False"
  have k: "ver_key ?p (kt_keys sample_table ! 0) = ed_public toy_lib [9]" "exp_key ?p (kt_keys sample_table ! 0) = None"
    "dec_key ?p (kt_keys sample_table ! 0) = zeros 32"
    using sample_table_key by (simp_all add: ver_key_def exp_key_def dec_key_def NewOnionParser_def toy_lib_def)
  have b: "SignedSecretSeal toy_lib [7] (Nonce r 0 0) (zeros 32) [9] =
      Inr (projr (SignedSecretSeal toy_lib [7] (Nonce r 0 0) (zeros 32) [9]))"
    using SignedSecretSeal_ok [OF L, of "zeros 32"] by simp
  show ?thesis
    unfolding round_onion_def
    by (rule open_envelope_sealed [OF L _ refl _ k(1,2)])
      (use sample_table_key(1) b in \<open>simp_all add: NewOnionParser_def k [unfolded NewOnionParser_def] assms [unfolded NewOnionParser_def]\<close>)
qed

lemma sample_onion_opens: "open_envelope toy_lib sample_state sample_table (NewOnionParser False) sample_onion = Inr ([7], 0)"
  unfolding sample_onion_def by (rule round_onion_opens) (simp_all add: sample_state_def parse_layer_def NewOnionParser_def)

lemma round_onion_parses:
  assumes "cs_Round c = r" "parse_layer c (NewOnionParser False) = 0" "cs_MyId c = 0"
  shows "\<exists>t' p'. AuthenticatedOnionParse toy_lib c (sample_table, NewOnionParser False) (round_onion r) = ((t', p'), Inr ([7], 0)) \<and>
     onion_inv (t', p') \<and> ids t' = {0} \<and> used_ids t' = {0}"
proof -
  have "onion_inv (sample_table, NewOnionParser False)"
    using sample_table_inv by (simp add: onion_inv_def NewOnionParser_def)
  then show ?thesis
    using onion_keys.mark_new [of "(sample_table, NewOnionParser False)" 0] sample_table_inv round_onion_opens [OF assms]
    by (auto simp: AuthenticatedOnionParse_def)
qed

lemma sample_onion_parses:
  "\<exists>st'. AuthenticatedOnionParse toy_lib sample_state (sample_table, NewOnionParser False) sample_onion = (st', Inr ([7], 0))"
  unfolding sample_onion_def using round_onion_parses [of sample_state 0] by (auto simp: sample_state_def parse_layer_def NewOnionParser_def)

theorem layer_keys_exactly_once_witness:
  "\<exists>t' p'. parse_all toy_lib sample_state (sample_table, NewOnionParser False) [sample_onion] = ((t', p'), [([7], 0)]) \<and>
     snd (AllKeysAccountedFor (t', p'))"
proof -
  obtain t' p' where "AuthenticatedOnionParse toy_lib sample_state (sample_table, NewOnionParser False) sample_onion =
      ((t', p'), Inr ([7], 0))" using sample_onion_parses by fastforce
  then have "parse_all toy_lib sample_state (sample_table, NewOnionParser False) [sample_onion] = ((t', p'), [([7], 0)])"
    by simp
  with layer_keys_exactly_once [OF sample_table_inv(1,3) this] sample_table_inv(2) show ?thesis by simp
qed

text \<open>C4. A rejected message changes nothing, and a replay is rejected: whatever the bytes of a message, if
  parsing returns an error or panics, table and parser are as before; and a message that was accepted is
  refused as a duplicate when it arrives again in the same layer.\<close>

theorem replay_rejected:
  assumes "onion_inv (t, p)" and "AuthenticatedOnionParse L c (t, p) m = (st', r)"
  shows "case r of Inl e \<Rightarrow> st' = (t, p)
         | Inr (d, i) \<Rightarrow> AuthenticatedOnionParse L c st' m = (st', Inl (Err Duplicate))"
proof -
  from AuthenticatedOnionParse_effect [OF assms] show ?thesis
  proof (elim disjE exE conjE)
    fix d i assume r: "r = Inr (d, i)" and i: "i \<in> ids (fst (t, p))" "i \<notin> used_ids (fst (t, p))"
      and mk: "mark_used (t, p) i = (st', Inr ())" and op: "open_envelope L c (fst (t, p)) (snd (t, p)) m = Inr (d, i)"
    obtain t' p' where st': "st' = (t', p')" by fastforce
    from mark_used_new [of t p i] assms(1) i mk st' have
      t': "kt_table t' = kt_table t" "kt_reverseTable t' = kt_reverseTable t" "op_reverse p' = op_reverse p"
        "kt_keys t' = (kt_keys t)[i := (kt_keys t ! i)\<lparr>bk_used := True\<rparr>]" "onion_inv (t', p')"
        "used_ids t' = insert i (used_ids t)" by auto
    have lt: "\<forall>j \<in> ids t. j < length (kt_keys t)" using assms(1) by (simp add: onion_inv_def table_inv_def)
    have look: "Lookup t' k (op_reverse p) = Lookup t k (op_reverse p)" for k by (simp add: Lookup_def t')
    have eq: "dec_key p (kt_keys t' ! j) = dec_key p (kt_keys t ! j)" "ver_key p (kt_keys t' ! j) = ver_key p (kt_keys t ! j)"
      "exp_key p (kt_keys t' ! j) = exp_key p (kt_keys t ! j)" for j
      using lt i(1) by (auto simp: t' nth_list_update dec_key_def ver_key_def exp_key_def)
    have "open_envelope L c t' p' m = open_envelope L c t p m"
      unfolding open_envelope_def parse_layer_def Let_def t'(3) look dec_key_def [symmetric] ver_key_def [symmetric]
        exp_key_def [symmetric] eq by (rule refl)
    then have "open_envelope L c t' p' m = Inr (d, i)" using op by simp
    moreover have "mark_used (t', p') i = ((t', p'), Inl (Err Duplicate))"
      using t'(5,6) by (intro onion_keys.mark_dup) auto
    ultimately show ?thesis using r st' by (simp add: AuthenticatedOnionParse_def)
  qed simp
qed

theorem replay_rejected_witness:
  "\<exists>st'. AuthenticatedOnionParse toy_lib sample_state (sample_table, NewOnionParser False) sample_onion = (st', Inr ([7], 0)) \<and>
     AuthenticatedOnionParse toy_lib sample_state st' sample_onion = (st', Inl (Err Duplicate))"
proof -
  have inv: "onion_inv (sample_table, NewOnionParser False)"
    using sample_table_inv by (simp add: onion_inv_def NewOnionParser_def)
  obtain st' where a: "AuthenticatedOnionParse toy_lib sample_state (sample_table, NewOnionParser False) sample_onion =
      (st', Inr ([7], 0))" using sample_onion_parses by blast
  from replay_rejected [OF inv a] a show ?thesis by auto
qed

end
