(* ===== verification/Checkpoint.thy ===== *)
theory Checkpoint
  imports CommonState Marking
begin

text \<open>
  The checkpoint of an anytrust group, \<^verbatim>\<open>src/server/checkpoint/checkpoint.go\<close>: during path establishment it
  checks tokens, records the final signing keys and contributes its share of the group's decryption; in
  a lightning round it accepts one signed message for each recorded key. The lemmas show that the
  table of signing keys is an instance of \<open>mark_once\<close>, what each message does to the state, and that the
  contributions of all members, added up in any order, are the key shared by the client and the group.
\<close>

section \<open>State and operations\<close>

record verification_key_table =
  vt_keys :: "(bytes \<times> bool) list"
  vt_count :: nat

record 's checkpoint =
  cp_myGroupId :: int
  cp_numGroups :: nat
  cp_groupKeyShare :: 's
  cp_AnonymousSigningKeys :: verification_key_table
  cp_FinalMessages :: "bytes list"

definition NewCheckpointState :: "('s, 'p, 'g2, 'r) common_state \<Rightarrow> int \<Rightarrow> 's \<Rightarrow> 's checkpoint" where
  "NewCheckpointState c myGroupId secret =
     \<lparr>cp_myGroupId = myGroupId, cp_numGroups = cs_NumGroups c, cp_groupKeyShare = secret,
      cp_AnonymousSigningKeys = \<lparr>vt_keys = [], vt_count = 0\<rparr>, cp_FinalMessages = []\<rparr>"

definition key_buf :: "verification_key \<Rightarrow> bytes" where
  "key_buf key = go_copy (zeros VERIFICATION_KEY_SIZE) key"

definition vt_Add :: "verification_key_table \<Rightarrow> verification_key \<Rightarrow> verification_key_table" where
  "vt_Add s key = s\<lparr>vt_keys := AList.update (key_buf key) False (vt_keys s)\<rparr>"

definition GetAndMark :: "verification_key_table \<Rightarrow> verification_key \<Rightarrow> verification_key_table \<times> unit res" where
  "GetAndMark s key =
     (case map_of (vt_keys s) (key_buf key) of
        None \<Rightarrow> (s, Inl (Err KeyNotFound))
      | Some used \<Rightarrow>
          if used then (s, Inl (Err Duplicate))
          else (s\<lparr>vt_keys := AList.update (key_buf key) True (vt_keys s), vt_count := vt_count s + 1\<rparr>, Inr ()))"

definition ResetSignatureMarking :: "verification_key_table \<Rightarrow> verification_key_table" where
  "ResetSignatureMarking s = s\<lparr>vt_keys := map (\<lambda>(k, _). (k, False)) (vt_keys s), vt_count := 0\<rparr>"

text \<open>The result is the content of \<^verbatim>\<open>response\<close> after the call.\<close>

definition HandleCheckpointMessage ::
  "('s, 'p) lib \<Rightarrow> ('fr, 'g1, 'g2, 'gt) mcl \<Rightarrow> ('s, 'p, 'g2, 'r) common_state \<Rightarrow> 's checkpoint \<Rightarrow>
     metadata \<Rightarrow> bytes \<Rightarrow> bytes \<Rightarrow> 's checkpoint \<times> bytes res" where
  "HandleCheckpointMessage L M c st md message response =
     (case ci_InterpretFrom M message of
        Inl e \<Rightarrow> (st, Inl e)
      | Inr cm \<Rightarrow>
          let vk = ci_AnonymousVerificationKey cm in
          (case sbind (TokenContent vk (cs_NumLayers c) (cs_NumLayers c) (md_Sender md))
                  (verify_with M (cs_CombinedKey c) (ci_Token cm)) of
             Inl e \<Rightarrow> (st, Inl e)
           | Inr ok \<Rightarrow>
               if \<not> ok then (st, Inl (Err TokenInvalid))
               else (case ToCurvePoint L vk of
                   Inl _ \<Rightarrow> (st, Inl (Err BadElementError))
                 | Inr pt \<Rightarrow>
                     let st' = st\<lparr>cp_AnonymousSigningKeys := vt_Add (cp_AnonymousSigningKeys st) vk\<rparr>;
                         r = \<lparr>cr_PublicKey = LookupKey vk, cr_PartialKey = dh_Mul L (cp_groupKeyShare st) pt\<rparr>
                     in (st', cr_PackTo L r response))))"

definition HandleTrusteeMessage :: "('s, 'p) lib \<Rightarrow> 's checkpoint \<Rightarrow> bytes \<Rightarrow> 's checkpoint \<times> unit res" where
  "HandleTrusteeMessage L st message =
     (case fm_InterpretFrom message of
        Inl e \<Rightarrow> (st, Inl e)
      | Inr fm \<Rightarrow>
          (case GetAndMark (cp_AnonymousSigningKeys st) (fm_AnonymousVerificationKey fm) of
             (t, Inl e) \<Rightarrow> (st\<lparr>cp_AnonymousSigningKeys := t\<rparr>, Inl e)
           | (t, Inr _) \<Rightarrow>
               let st' = st\<lparr>cp_AnonymousSigningKeys := t\<rparr> in
               if \<not> VerifyMessage L (fm_AnonymousVerificationKey fm) (fm_Message fm) (fm_Signature fm)
               then (st', Inl (Err DecryptionFailure))
               else (st'\<lparr>cp_FinalMessages := cp_FinalMessages st @ [fm_Message fm]\<rparr>, Inr ())))"

definition AllSignaturesAccountedFor :: "'s checkpoint \<Rightarrow> bool" where
  "AllSignaturesAccountedFor st =
     (vt_count (cp_AnonymousSigningKeys st) = length (vt_keys (cp_AnonymousSigningKeys st)))"

section \<open>The table of signing keys\<close>

definition vt_all :: "verification_key_table \<Rightarrow> bytes set" where
  "vt_all s = fst ` set (vt_keys s)"

definition vt_used :: "verification_key_table \<Rightarrow> bytes set" where
  "vt_used s = {k. map_of (vt_keys s) k = Some True}"

definition vt_inv :: "verification_key_table \<Rightarrow> bool" where
  "vt_inv s \<longleftrightarrow> distinct (map fst (vt_keys s)) \<and> vt_count s = card (vt_used s) \<and> (\<forall>k \<in> vt_all s. length k = 32)"

lemma vt_used_all: "vt_used s \<subseteq> vt_all s"
  by (auto simp: vt_used_def vt_all_def) (metis fst_conv image_eqI map_of_SomeD)

lemma key_buf_id [simp]: "length k = 32 \<Longrightarrow> key_buf k = k"
  by (simp add: key_buf_def size_defs)

lemma length_key_buf [simp]: "length (key_buf k) = 32"
  by (simp add: key_buf_def size_defs)

lemma vt_Add_ok:
  assumes "vt_inv s" "key_buf k \<notin> vt_used s"
  shows "vt_inv (vt_Add s k)" "vt_all (vt_Add s k) = insert (key_buf k) (vt_all s)" "vt_used (vt_Add s k) = vt_used s"
proof -
  show u: "vt_used (vt_Add s k) = vt_used s"
    using assms(2) by (auto simp: vt_used_def vt_Add_def AList.update_conv' split: if_splits)
  show a: "vt_all (vt_Add s k) = insert (key_buf k) (vt_all s)"
    by (simp add: vt_all_def vt_Add_def AList.dom_update)
  then show "vt_inv (vt_Add s k)"
    using assms(1) u by (auto simp: vt_inv_def) (simp_all add: vt_Add_def distinct_update)
qed

lemma ResetSignatureMarking_ok:
  assumes "vt_inv s"
  shows "vt_inv (ResetSignatureMarking s)" "vt_all (ResetSignatureMarking s) = vt_all s"
    "vt_used (ResetSignatureMarking s) = {}"
proof -
  have m: "map_of (map (\<lambda>(k, _). (k, False)) al) k \<noteq> Some True" for al :: "(bytes \<times> bool) list" and k
    by (induction al) auto
  show a: "vt_all (ResetSignatureMarking s) = vt_all s"
    by (simp add: vt_all_def ResetSignatureMarking_def image_image case_prod_beta)
  show u: "vt_used (ResetSignatureMarking s) = {}" using m by (auto simp: vt_used_def ResetSignatureMarking_def)
  have "map fst (vt_keys (ResetSignatureMarking s)) = map fst (vt_keys s)" "vt_count (ResetSignatureMarking s) = 0"
    by (auto simp: ResetSignatureMarking_def)
  then show "vt_inv (ResetSignatureMarking s)" using assms u a by (simp add: vt_inv_def)
qed

interpretation signing_keys: mark_once vt_inv vt_all vt_used GetAndMark "\<lambda>s. vt_count s = length (vt_keys s)"
proof unfold_locales
  fix s k
  assume inv: "vt_inv s"
  show fin: "finite (vt_all s)" by (simp add: vt_all_def)
  show "vt_used s \<subseteq> vt_all s" by (rule vt_used_all)
  have len: "key_buf k = k" if "k \<in> vt_all s" using that inv by (simp add: vt_inv_def)
  show "GetAndMark s k = (s, Inl (Err Duplicate))" if "k \<in> vt_used s"
    using that len vt_used_all [of s] by (auto simp: GetAndMark_def vt_used_def)
  show "\<exists>s'. GetAndMark s k = (s', Inr ()) \<and> vt_inv s' \<and> vt_all s' = vt_all s \<and> vt_used s' = insert k (vt_used s)"
    if k: "k \<in> vt_all s" "k \<notin> vt_used s"
  proof -
    let ?s = "s\<lparr>vt_keys := AList.update k True (vt_keys s), vt_count := vt_count s + 1\<rparr>"
    have some: "map_of (vt_keys s) k = Some False"
      using k by (auto simp: vt_all_def vt_used_def dom_map_of_conv_image_fst [symmetric])
    then have g: "GetAndMark s k = (?s, Inr ())" using len k(1) by (simp add: GetAndMark_def)
    have a: "vt_all ?s = vt_all s"
      using k(1) by (auto simp: vt_all_def dom_map_of_conv_image_fst [symmetric] AList.update_conv')
    have u: "vt_used ?s = insert k (vt_used s)" by (auto simp: vt_used_def AList.update_conv')
    have "finite (vt_used s)" using vt_used_all fin finite_subset by blast
    then have "vt_inv ?s"
      using inv a u k(2) by (simp add: vt_inv_def distinct_update)
    then show ?thesis using g a u by blast
  qed
  have "card (vt_all s) = length (vt_keys s)"
    using inv distinct_card [of "map fst (vt_keys s)"] by (simp add: vt_inv_def vt_all_def)
  then show "(vt_count s = length (vt_keys s)) = (card (vt_used s) = card (vt_all s))"
    using inv by (simp add: vt_inv_def)
qed

section \<open>Lemmas\<close>

text \<open>What one message does to the table of signing keys.\<close>

lemma HandleTrusteeMessage_cases:
  assumes inv: "vt_inv (cp_AnonymousSigningKeys st)" and fm: "fm_InterpretFrom m = Inr fm"
  defines "k \<equiv> fm_AnonymousVerificationKey fm" and "t \<equiv> cp_AnonymousSigningKeys st"
  shows "if k \<notin> vt_all t then HandleTrusteeMessage L st m = (st, Inl (Err KeyNotFound))
         else if k \<in> vt_used t then HandleTrusteeMessage L st m = (st, Inl (Err Duplicate))
         else \<exists>t'. vt_inv t' \<and> vt_all t' = vt_all t \<and> vt_used t' = insert k (vt_used t) \<and>
           HandleTrusteeMessage L st m =
             (if VerifyMessage L k (fm_Message fm) (fm_Signature fm)
              then (st\<lparr>cp_AnonymousSigningKeys := t', cp_FinalMessages := cp_FinalMessages st @ [fm_Message fm]\<rparr>, Inr ())
              else (st\<lparr>cp_AnonymousSigningKeys := t'\<rparr>, Inl (Err DecryptionFailure)))"
proof -
  have len: "length k = 32"
    using fm by (auto simp: final_message_parse_cases k_def split: if_splits)
  consider "k \<notin> vt_all t" | "k \<in> vt_used t" "k \<in> vt_all t" | "k \<in> vt_all t" "k \<notin> vt_used t" by blast
  then show ?thesis
  proof cases
    case 1
    then have "map_of (vt_keys t) k = None" by (simp add: vt_all_def map_of_eq_None_iff)
    then have "GetAndMark t k = (t, Inl (Err KeyNotFound))" using len by (simp add: GetAndMark_def)
    then show ?thesis using 1 fm by (simp add: HandleTrusteeMessage_def k_def t_def)
  next
    case 2
    then have "GetAndMark t k = (t, Inl (Err Duplicate))" using signing_keys.mark_dup inv by (simp add: t_def)
    then show ?thesis using 2 fm by (simp add: HandleTrusteeMessage_def k_def t_def)
  next
    case 3
    then obtain t' where "GetAndMark t k = (t', Inr ())" "vt_inv t'" "vt_all t' = vt_all t" "vt_used t' = insert k (vt_used t)"
      using signing_keys.mark_new inv unfolding t_def by blast
    then show ?thesis using 3 fm by (auto simp: HandleTrusteeMessage_def k_def t_def Let_def)
  qed
qed

fun trustee_all :: "('s, 'p) lib \<Rightarrow> 's checkpoint \<Rightarrow> bytes list \<Rightarrow> 's checkpoint \<times> final_message list" where
  "trustee_all L st [] = (st, [])"
| "trustee_all L st (m # ms) =
     (let (st', r) = HandleTrusteeMessage L st m; (st'', acc) = trustee_all L st' ms in
      (st'', (case (r, fm_InterpretFrom m) of (Inr _, Inr fm) \<Rightarrow> fm # acc | _ \<Rightarrow> acc)))"

definition presented :: "bytes list \<Rightarrow> bytes set" where
  "presented ms = {fm_AnonymousVerificationKey fm | m fm. m \<in> set ms \<and> fm_InterpretFrom m = Inr fm}"

lemma presented_Cons:
  "presented (m # ms) = (case fm_InterpretFrom m of Inl _ \<Rightarrow> {} | Inr fm \<Rightarrow> {fm_AnonymousVerificationKey fm}) \<union> presented ms"
  by (auto simp: presented_def split: sum.splits)

lemma trustee_all_ok:
  assumes "vt_inv (cp_AnonymousSigningKeys st)" "trustee_all L st ms = (st', acc)"
  defines "t \<equiv> cp_AnonymousSigningKeys st" and "t' \<equiv> cp_AnonymousSigningKeys st'"
  shows "vt_inv t' \<and> vt_all t' = vt_all t \<and> vt_used t' = vt_used t \<union> (presented ms \<inter> vt_all t) \<and>
     cp_FinalMessages st' = cp_FinalMessages st @ map fm_Message acc \<and>
     distinct (map fm_AnonymousVerificationKey acc) \<and>
     (\<forall>fm \<in> set acc. fm_AnonymousVerificationKey fm \<in> vt_all t - vt_used t \<and>
        VerifyMessage L (fm_AnonymousVerificationKey fm) (fm_Message fm) (fm_Signature fm))"
  using assms(1,2) unfolding t_def t'_def
proof (induction ms arbitrary: st acc)
  case Nil
  then show ?case by (simp add: presented_def)
next
  case (Cons m ms)
  obtain st1 r where h: "HandleTrusteeMessage L st m = (st1, r)" by fastforce
  obtain acc1 where a: "trustee_all L st1 ms = (st', acc1)"
    "acc = (case (r, fm_InterpretFrom m) of (Inr _, Inr fm) \<Rightarrow> fm # acc1 | _ \<Rightarrow> acc1)"
    using Cons.prems(2) h by (auto simp: Let_def split: prod.splits)
  show ?case
  proof (cases "fm_InterpretFrom m")
    case (Inl e)
    then have "st1 = st" using h by (simp add: HandleTrusteeMessage_def)
    then show ?thesis
      using Cons.IH [OF _ a(1)] Cons.prems(1) a(2) Inl by (auto simp: presented_Cons split: sum.splits)
  next
    case (Inr fm)
    let ?k = "fm_AnonymousVerificationKey fm" and ?t = "cp_AnonymousSigningKeys st"
    note c = HandleTrusteeMessage_cases [OF Cons.prems(1) Inr, of L]
    show ?thesis
    proof (cases "?k \<in> vt_all ?t \<and> ?k \<notin> vt_used ?t")
      case False
      then have "st1 = st" "\<exists>e. r = Inl e" using c h by (auto split: if_splits)
      then show ?thesis
        using Cons.IH [OF _ a(1)] Cons.prems(1) a(2) Inr False by (auto simp: presented_Cons)
    next
      case True
      with c h obtain t' where t': "vt_inv t'" "vt_all t' = vt_all ?t" "vt_used t' = insert ?k (vt_used ?t)"
        and e: "(st1, r) = (if VerifyMessage L ?k (fm_Message fm) (fm_Signature fm)
              then (st\<lparr>cp_AnonymousSigningKeys := t', cp_FinalMessages := cp_FinalMessages st @ [fm_Message fm]\<rparr>, Inr ())
              else (st\<lparr>cp_AnonymousSigningKeys := t'\<rparr>, Inl (Err DecryptionFailure)))" by auto
      have s1: "cp_AnonymousSigningKeys st1 = t'" using e by (auto split: if_splits)
      have IH: "vt_inv (cp_AnonymousSigningKeys st')" "vt_all (cp_AnonymousSigningKeys st') = vt_all ?t"
        "vt_used (cp_AnonymousSigningKeys st') = insert ?k (vt_used ?t) \<union> (presented ms \<inter> vt_all ?t)"
        "cp_FinalMessages st' = cp_FinalMessages st1 @ map fm_Message acc1"
        "distinct (map fm_AnonymousVerificationKey acc1)"
        "\<forall>fm' \<in> set acc1. fm_AnonymousVerificationKey fm' \<in> vt_all ?t - insert ?k (vt_used ?t) \<and>
           VerifyMessage L (fm_AnonymousVerificationKey fm') (fm_Message fm') (fm_Signature fm')"
        using Cons.IH [OF _ a(1)] s1 t' by simp_all
      show ?thesis
      proof (cases "VerifyMessage L ?k (fm_Message fm) (fm_Signature fm)")
        case ver: True
        then have "acc = fm # acc1" "cp_FinalMessages st1 = cp_FinalMessages st @ [fm_Message fm]"
          using a(2) Inr e by simp_all
        then show ?thesis using IH True ver Inr by (auto simp: presented_Cons)
      next
        case ver: False
        then have "acc = acc1" "cp_FinalMessages st1 = cp_FinalMessages st" using a(2) Inr e by simp_all
        then show ?thesis using IH True ver Inr by (auto simp: presented_Cons)
      qed
    qed
  qed
qed

text \<open>The members' partial keys, added up in any order, are the key shared with the group secret.\<close>

lemma group_key_shares:
  assumes "scalar_ok L z" "mul_ok L z" "dh_AdditiveShares L rnd secret n = Inr shares"
    and "mset ys = mset (map (\<lambda>x. dh_Mul L x (PublicKey L client)) shares)"
  shows "foldl (pk_Accumulate L) (ZeroPoint L) ys = dh_Mul L secret (PublicKey L client)"
proof -
  let ?pt = "PublicKey L client"
  note m = assms(2) [unfolded mul_ok_def]
  show ?thesis
    unfolding pk_Accumulate_def ZeroPoint_def
  proof (rule secret_sharing.combine_shares [OF dh_secret_sharing [OF assms(1)] TrueI TrueI assms(3) _ _ _ _ assms(4)])
    show "dh_Mul L (sc_add L a b) ?pt = pt_add L (dh_Mul L a ?pt) (dh_Mul L b ?pt)" for a b
      using m by (simp add: dh_Mul_def PublicKey_def)
    show "dh_Mul L z ?pt = pt_zero L" using m by (simp add: dh_Mul_def PublicKey_def)
    show "pt_add L a b = pt_add L b a" for a b using m by blast
    show "pt_add L (pt_add L a b) c = pt_add L a (pt_add L b c)" for a b c using m by blast
  qed
qed

section \<open>Properties\<close>

text \<open>When no message is refused, the keys presented are those of the accepted messages.\<close>

lemma trustee_all_accepted:
  assumes "trustee_all L st ms = (st', acc)"
  shows "length acc \<le> length ms" "length acc = length ms \<Longrightarrow> presented ms = fm_AnonymousVerificationKey ` set acc"
proof -
  have "length acc \<le> length ms \<and> (length acc = length ms \<longrightarrow> presented ms = fm_AnonymousVerificationKey ` set acc)"
    using assms
  proof (induction ms arbitrary: st acc)
    case Nil
    then show ?case by (simp add: presented_def)
  next
    case (Cons m ms)
    obtain st1 r where h: "HandleTrusteeMessage L st m = (st1, r)" by fastforce
    obtain acc1 where a: "trustee_all L st1 ms = (st', acc1)"
      "acc = (case (r, fm_InterpretFrom m) of (Inr _, Inr fm) \<Rightarrow> fm # acc1 | _ \<Rightarrow> acc1)"
      using Cons.prems h by (auto simp: Let_def split: prod.splits)
    from Cons.IH [OF a(1)] a(2) show ?case by (auto simp: presented_Cons split: sum.splits)
  qed
  then show "length acc \<le> length ms" "length acc = length ms \<Longrightarrow> presented ms = fm_AnonymousVerificationKey ` set acc" by simp_all
qed

text \<open>C19. The trustees release at most one message per registered key: over any sequence of final messages
  from a fresh marking, what is appended to the final messages are exactly the accepted ones, and they carry
  valid signatures under pairwise different registered keys. The end-of-round check holds if and only
  if some well-formed message arrived for every registered key, whether its signature was valid or not, because the
  key is marked before the signature is verified. A refused message stops the server; if none was refused, the
  check holds if and only if each registered key has delivered one valid message.\<close>

theorem trustee_round_once_per_key:
  assumes "vt_inv (cp_AnonymousSigningKeys st)" and "vt_used (cp_AnonymousSigningKeys st) = {}"
    and "trustee_all L st ms = (st', acc)"
  shows "cp_FinalMessages st' = cp_FinalMessages st @ map fm_Message acc \<and>
     distinct (map fm_AnonymousVerificationKey acc) \<and>
     (\<forall>fm \<in> set acc. fm_AnonymousVerificationKey fm \<in> vt_all (cp_AnonymousSigningKeys st) \<and>
        VerifyMessage L (fm_AnonymousVerificationKey fm) (fm_Message fm) (fm_Signature fm)) \<and>
     (AllSignaturesAccountedFor st' \<longleftrightarrow> vt_all (cp_AnonymousSigningKeys st) \<subseteq> presented ms) \<and>
     (length acc = length ms \<longrightarrow>
        (AllSignaturesAccountedFor st' \<longleftrightarrow> vt_all (cp_AnonymousSigningKeys st) = fm_AnonymousVerificationKey ` set acc))"
proof -
  note t = trustee_all_ok [OF assms(1,3)]
  have c: "AllSignaturesAccountedFor st' \<longleftrightarrow> vt_all (cp_AnonymousSigningKeys st) \<subseteq> presented ms"
    unfolding AllSignaturesAccountedFor_def using t assms(2) by (subst signing_keys.complete_all) auto
  have "fm_AnonymousVerificationKey ` set acc \<subseteq> vt_all (cp_AnonymousSigningKeys st)" using t by auto
  then have "AllSignaturesAccountedFor st' \<longleftrightarrow> vt_all (cp_AnonymousSigningKeys st) = fm_AnonymousVerificationKey ` set acc"
    if "length acc = length ms" using c trustee_all_accepted(2) [OF assms(3) that] by auto
  then show ?thesis using t c assms(2) by auto
qed

definition sample_checkpoint :: "256 word checkpoint" where
  "sample_checkpoint =
     (NewCheckpointState sample_state 0 4)\<lparr>cp_AnonymousSigningKeys := vt_Add \<lparr>vt_keys = [], vt_count = 0\<rparr> (zeros 32)\<rparr>"

lemma sample_checkpoint_keys:
  "vt_inv (cp_AnonymousSigningKeys sample_checkpoint)" "vt_all (cp_AnonymousSigningKeys sample_checkpoint) = {zeros 32}"
  "vt_used (cp_AnonymousSigningKeys sample_checkpoint) = {}"
proof -
  let ?t = "\<lparr>vt_keys = [], vt_count = 0\<rparr>"
  have "vt_inv ?t" "vt_all ?t = {}" "vt_used ?t = {}" by (simp_all add: vt_inv_def vt_all_def vt_used_def)
  with vt_Add_ok [of ?t "zeros 32"] show
    "vt_inv (cp_AnonymousSigningKeys sample_checkpoint)" "vt_all (cp_AnonymousSigningKeys sample_checkpoint) = {zeros 32}"
    "vt_used (cp_AnonymousSigningKeys sample_checkpoint) = {}"
    by (simp_all add: sample_checkpoint_def)
qed

text \<open>A message of zeros under the key of zeros.\<close>

lemma sample_final: "fm_InterpretFrom (zeros 97) =
  Inr \<lparr>fm_AnonymousVerificationKey = zeros 32, fm_Signature = zeros 64, fm_Message = [0]\<rparr>"
  by (simp add: final_message_parse_cases) (simp add: zeros_def)

lemma sample_forged: "fm_InterpretFrom (zeros 96 @ [1]) =
  Inr \<lparr>fm_AnonymousVerificationKey = zeros 32, fm_Signature = zeros 64, fm_Message = [1]\<rparr>"
  by (simp add: final_message_parse_cases) (simp add: zeros_def)

lemma sample_signatures:
  "VerifyMessage toy_lib (zeros 32) [0] (zeros 64)" "\<not> VerifyMessage toy_lib (zeros 32) [1] (zeros 64)"
proof -
  have "put_le 32 0 = zeros 32" by (simp add: numeral_eq_Suc zeros_def)
  moreover have "zeros 64 = zeros 32 @ zeros 32" by (simp add: zeros_def replicate_add [symmetric])
  ultimately show "VerifyMessage toy_lib (zeros 32) [0] (zeros 64)"
    by (simp add: VerifyMessage_def Verify_def toy_lib_def)
  have "put_le 32 1 \<noteq> zeros 32" by (simp add: numeral_eq_Suc zeros_def)
  then show "\<not> VerifyMessage toy_lib (zeros 32) [1] (zeros 64)"
    using append_eq_append_conv [of "zeros 32" "zeros 32" "zeros 32" "put_le 32 1"]
    by (auto simp: VerifyMessage_def Verify_def toy_lib_def zeros_def replicate_add [symmetric])
qed

text \<open>The one registered key delivers its message; a forged message under it releases nothing, and passes the check.\<close>

theorem trustee_round_once_per_key_witness:
  "(let (st, acc) = trustee_all toy_lib sample_checkpoint [zeros 97] in
      AllSignaturesAccountedFor st \<and> cp_FinalMessages st = [[0]] \<and> fm_AnonymousVerificationKey ` set acc = {zeros 32}) \<and>
   (let (st, acc) = trustee_all toy_lib sample_checkpoint [zeros 96 @ [1]] in AllSignaturesAccountedFor st \<and> cp_FinalMessages st = [])"
proof -
  note k = sample_checkpoint_keys
  have g: "\<exists>st. trustee_all toy_lib sample_checkpoint [zeros 97] =
      (st, [\<lparr>fm_AnonymousVerificationKey = zeros 32, fm_Signature = zeros 64, fm_Message = [0]\<rparr>])"
    and f: "\<exists>st. trustee_all toy_lib sample_checkpoint [zeros 96 @ [1]] = (st, [])"
    using HandleTrusteeMessage_cases [OF k(1) sample_final, of toy_lib] HandleTrusteeMessage_cases [OF k(1) sample_forged, of toy_lib]
      k sample_signatures by (auto simp: sample_final sample_forged)
  have p: "presented [zeros 97] = {zeros 32}" "presented [zeros 96 @ [1]] = {zeros 32}"
    by (simp_all add: presented_def sample_final sample_forged)
  have m: "cp_FinalMessages sample_checkpoint = []" by (simp add: sample_checkpoint_def NewCheckpointState_def)
  note all = trustee_round_once_per_key [OF k(1,3), unfolded k(2) m]
  obtain st1 st2 where s1: "trustee_all toy_lib sample_checkpoint [zeros 97] =
      (st1, [\<lparr>fm_AnonymousVerificationKey = zeros 32, fm_Signature = zeros 64, fm_Message = [0]\<rparr>])"
    and s2: "trustee_all toy_lib sample_checkpoint [zeros 96 @ [1]] = (st2, [])" using g f by blast
  show ?thesis unfolding s1 s2 using all [OF s1] all [OF s2] p by simp
qed

text \<open>A forged message uses up a key: a final message under a registered, unused key whose signature does
  not verify is refused, but the key is marked before the signature is checked, so that the genuine
  message under the same key is then refused as a duplicate.\<close>

theorem forged_message_consumes_key:
  assumes "vt_inv (cp_AnonymousSigningKeys st)" and "fm_InterpretFrom forged = Inr f" and "fm_InterpretFrom genuine = Inr g"
    and "fm_AnonymousVerificationKey f = k" and "fm_AnonymousVerificationKey g = k"
    and "k \<in> vt_all (cp_AnonymousSigningKeys st)" and "k \<notin> vt_used (cp_AnonymousSigningKeys st)"
    and "\<not> VerifyMessage L k (fm_Message f) (fm_Signature f)"
  shows "\<exists>st'. HandleTrusteeMessage L st forged = (st', Inl (Err DecryptionFailure)) \<and>
              HandleTrusteeMessage L st' genuine = (st', Inl (Err Duplicate))"
proof -
  from HandleTrusteeMessage_cases [OF assms(1,2), of L] assms(4,6-8) obtain t' where
    t': "vt_inv t'" "vt_all t' = vt_all (cp_AnonymousSigningKeys st)" "vt_used t' = insert k (vt_used (cp_AnonymousSigningKeys st))"
      "HandleTrusteeMessage L st forged = (st\<lparr>cp_AnonymousSigningKeys := t'\<rparr>, Inl (Err DecryptionFailure))"
    by auto
  have "HandleTrusteeMessage L (st\<lparr>cp_AnonymousSigningKeys := t'\<rparr>) genuine =
      (st\<lparr>cp_AnonymousSigningKeys := t'\<rparr>, Inl (Err Duplicate))"
    using HandleTrusteeMessage_cases [OF _ assms(3), of "st\<lparr>cp_AnonymousSigningKeys := t'\<rparr>" L] t' assms(5,6) by auto
  with t'(4) show ?thesis by blast
qed

theorem forged_message_consumes_key_witness:
  "\<exists>st'. HandleTrusteeMessage toy_lib sample_checkpoint (zeros 96 @ [1]) = (st', Inl (Err DecryptionFailure)) \<and>
        HandleTrusteeMessage toy_lib st' (zeros 97) = (st', Inl (Err Duplicate))"
proof -
  show ?thesis
    using forged_message_consumes_key [OF sample_checkpoint_keys(1) sample_forged sample_final, of "zeros 32" toy_lib]
      sample_checkpoint_keys(2,3) sample_signatures(2) by simp
qed

lemma toy_scalars: "scalar_ok toy_lib 0" "mul_ok toy_lib 0"
  by (simp_all add: scalar_ok_def mul_ok_def toy_lib_def algebra_simps)

end
