(* ===== verification/PathEstablishment.thy ===== *)
theory PathEstablishment
  imports KeyTable Checkpoint
begin

text \<open>
  Path establishment at a server: \<^verbatim>\<open>pathEstablishment.go\<close> and \<^verbatim>\<open>checkpointSender.go\<close> of
  \<^verbatim>\<open>src/server/processMessages\<close>. A path message is authenticated by two tokens and a signature, its key is
  recorded, and it is forwarded to the next server or, in the last layer, sent to an anytrust group,
  whose members' answers are added up to decrypt the receipt that travels back.
\<close>

section \<open>Sending to the groups\<close>

record 'p progress =
  pg_boomerang :: bytes
  pg_partialKey :: 'p
  pg_group :: int
  pg_key :: nat
  pg_used :: bool

record 'p checkpoint_sender =
  cks_reverseMessages :: "(lookup_key \<times> 'p progress) list"
  cks_toGroupBuffers :: out_buffers

definition NewCheckpointSender ::
  "('fr, 'g1, 'g2, 'gt) mcl \<Rightarrow> ('s, 'p, 'g2, 'r) common_state \<Rightarrow> 'p checkpoint_sender res" where
  "NewCheckpointSender M c =
     sbind (new_buffers c (cs_NumGroups c) (TOKEN_MESSAGE_LENGTH M) (cs_GroupBinSize c)) (\<lambda>bufs.
       Inr \<lparr>cks_reverseMessages = [], cks_toGroupBuffers = bufs\<rparr>)"

definition AddReverseMessage ::
  "('s, 'p) lib \<Rightarrow> ('fr, 'g1, 'g2, 'gt) mcl \<Rightarrow> 'p checkpoint_sender \<Rightarrow> bytes \<Rightarrow> 'g1 checkpoint_info \<Rightarrow> nat \<Rightarrow> int \<Rightarrow>
     'p checkpoint_sender \<times> unit res" where
  "AddReverseMessage L M cs boomerang info key gid =
     (let p = \<lparr>pg_boomerang = boomerang, pg_partialKey = ZeroPoint L, pg_group = gid, pg_key = key, pg_used = False\<rparr> in
      case ci_Marshal M info of
        Inl e \<Rightarrow> (cs, Inl e)
      | Inr b \<Rightarrow> (case write_buffer (cks_toGroupBuffers cs) gid b of
            (bufs, Inl e) \<Rightarrow> (cs\<lparr>cks_toGroupBuffers := bufs\<rparr>, Inl e)
          | (bufs, Inr _) \<Rightarrow>
              (cs\<lparr>cks_toGroupBuffers := bufs,
                  cks_reverseMessages := AList.update (LookupKey (ci_AnonymousVerificationKey info)) p (cks_reverseMessages cs)\<rparr>,
               Inr ())))"

text \<open>The loop of \<^verbatim>\<open>HandleResponse\<close> over the bytes that are left.\<close>

function handle_responses ::
  "('s, 'p) lib \<Rightarrow> (lookup_key \<times> 'p progress) list \<Rightarrow> bytes \<Rightarrow> (lookup_key \<times> 'p progress) list \<times> unit res" where
  "handle_responses L rm data =
     (if data = [] then (rm, Inr ())
      else if length data < RESPONSE_LENGTH then (rm, Inl (Panic SliceBounds))
      else (case cr_InterpretFrom L (take RESPONSE_LENGTH data) of
          Inl e \<Rightarrow> (rm, Inl e)
        | Inr cm \<Rightarrow> (case map_of rm (cr_PublicKey cm) of
              None \<Rightarrow> (rm, Inl (Panic NilDereference))
            | Some p \<Rightarrow>
                handle_responses L
                  (AList.update (cr_PublicKey cm) (p\<lparr>pg_partialKey := pk_Accumulate L (pg_partialKey p) (cr_PartialKey cm)\<rparr>) rm)
                  (drop RESPONSE_LENGTH data))))"
  by pat_completeness auto
termination
  by (relation "measure (\<lambda>(L, rm, data). length data)") (auto simp: RESPONSE_LENGTH_def size_defs)

declare handle_responses.simps [simp del]

definition HandleResponse ::
  "('s, 'p) lib \<Rightarrow> ('s, 'p, 'g2, 'r) common_state \<Rightarrow> 'p checkpoint_sender \<Rightarrow> signed_message \<Rightarrow>
     'p checkpoint_sender \<times> unit res" where
  "HandleResponse L c cs sm =
     (case cs_Verify L c sm of
        Inl e \<Rightarrow> (cs, Inl e)
      | Inr (sm', ok) \<Rightarrow>
          if \<not> ok then (cs, Inl (Err SignatureError))
          else (case handle_responses L (cks_reverseMessages cs) (sm_Data sm') of
            (rm, r) \<Rightarrow> (cs\<lparr>cks_reverseMessages := rm\<rparr>, r)))"

definition HandleOne ::
  "('s, 'p) lib \<Rightarrow> ('s, 'p, 'g2, 'r) common_state \<Rightarrow> 'p progress \<Rightarrow> 'p progress res" where
  "HandleOne L c s =
     (let nonce = Nonce (cs_NumLayers c) (cs_NumLayers c) (cs_MyId c); sharedKey = AsShared L (pg_partialKey s) in
      sbind (SecretOpen L (pg_boomerang s) nonce sharedKey) (\<lambda>decrypted.
        if pg_used s then Inl (Err Duplicate) else Inr (s\<lparr>pg_used := True, pg_boomerang := decrypted\<rparr>)))"

text \<open>The loop over the map; each step changes one entry.\<close>

fun decrypt_all ::
  "('s, 'p) lib \<Rightarrow> ('s, 'p, 'g2, 'r) common_state \<Rightarrow> int \<Rightarrow> (lookup_key \<times> 'p progress) list \<Rightarrow>
     (lookup_key \<times> 'p progress) list \<times> unit res" where
  "decrypt_all L c gid [] = ([], Inr ())"
| "decrypt_all L c gid ((k, s) # rm) =
     (if pg_group s = gid then
        (case HandleOne L c s of
           Inl e \<Rightarrow> ((k, s) # rm, Inl e)
         | Inr s' \<Rightarrow> (case decrypt_all L c gid rm of (rm', r) \<Rightarrow> ((k, s') # rm', r)))
      else (case decrypt_all L c gid rm of (rm', r) \<Rightarrow> ((k, s) # rm', r)))"

definition DecryptGroup ::
  "('s, 'p) lib \<Rightarrow> ('s, 'p, 'g2, 'r) common_state \<Rightarrow> 'p checkpoint_sender \<Rightarrow> int \<Rightarrow> 'p checkpoint_sender \<times> unit res" where
  "DecryptGroup L c cs gid =
     (case decrypt_all L c gid (cks_reverseMessages cs) of (rm, r) \<Rightarrow> (cs\<lparr>cks_reverseMessages := rm\<rparr>, r))"

text \<open>What \<^verbatim>\<open>SendAndRecieve\<close> does with one answer of a member of group \<open>gid\<close>, under that group's lock:
  the state, the counters, and the value sent to \<^verbatim>\<open>done\<close>, if any.\<close>

definition receive_answer ::
  "('s, 'p) lib \<Rightarrow> ('s, 'p, 'g2, 'r) common_state \<Rightarrow> 'p checkpoint_sender \<times> int list \<Rightarrow> nat \<Rightarrow> signed_message \<Rightarrow>
     ('p checkpoint_sender \<times> int list) \<times> unit res list" where
  "receive_answer L c st gid sm =
     (let (cs1, r1) = HandleResponse L c (fst st) sm;
          err1 = (case r1 of Inl e \<Rightarrow> [Inl e] | Inr _ \<Rightarrow> []);
          n = snd st ! gid - 1; counts = (snd st)[gid := n] in
      if n = 0 then let (cs2, r2) = DecryptGroup L c cs1 (int gid) in ((cs2, counts), err1 @ [r2])
      else if n < 0 then ((cs1, counts), err1 @ [Inl (Panic (PanicMessage ''Group count went negative''))])
      else ((cs1, counts), err1))"

definition GetDecrypted :: "'p checkpoint_sender \<Rightarrow> bytes list \<times> nat list" where
  "GetDecrypted cs = (map (pg_boomerang \<circ> snd) (cks_reverseMessages cs), map (pg_key \<circ> snd) (cks_reverseMessages cs))"

section \<open>Path messages\<close>

record 'p path_parser =
  pp_layer :: int
  pp_OutgoingBuffers :: out_buffers
  pp_Checkpoint :: "'p checkpoint_sender option"

definition NewPathEstablishmentParser ::
  "('s, 'p, 'g2, 'r) common_state \<Rightarrow> int \<Rightarrow> 'p checkpoint_sender option \<Rightarrow> 'p path_parser res" where
  "NewPathEstablishmentParser c layer checkpoint =
     (case checkpoint of
        Some _ \<Rightarrow> Inr \<lparr>pp_layer = layer, pp_OutgoingBuffers = [], pp_Checkpoint = checkpoint\<rparr>
      | None \<Rightarrow> if cs_NumServers c = 0 then Inr \<lparr>pp_layer = layer, pp_OutgoingBuffers = [], pp_Checkpoint = None\<rparr>
          else sbind (go_index_int (cs_PathMessageLengths c) (layer + 1)) (\<lambda>len.
            sbind (new_buffers c (cs_NumServers c) len (cs_BinSize c)) (\<lambda>bufs.
              Inr \<lparr>pp_layer = layer, pp_OutgoingBuffers = bufs, pp_Checkpoint = None\<rparr>)))"

definition VerifyToken ::
  "('fr, 'g1, 'g2, 'gt) mcl \<Rightarrow> 'g2 token_public_key option \<Rightarrow> 'g1 \<Rightarrow> int \<Rightarrow> int \<Rightarrow> int \<Rightarrow> verification_key \<Rightarrow> bool res" where
  "VerifyToken M pk t round layer server key =
     sbind (TokenContent key round layer server) (verify_with M pk t)"

text \<open>Everything up to the recording of the key: the parsed envelope, the shared key, the decrypted
  information and the server the second token selects.\<close>

definition authenticate_path ::
  "('s, 'p) lib \<Rightarrow> ('fr, 'g1, 'g2, 'gt) mcl \<Rightarrow> ('s, 'p, 'g2, 'r) common_state \<Rightarrow> 's \<Rightarrow> int \<Rightarrow> metadata \<Rightarrow> bytes \<Rightarrow>
     ('g1 path_envelope \<times> shared_key \<times> 'g1 path_info \<times> nat) res" where
  "authenticate_path L M c secretKey player md message =
     (let round = cs_Round c; layer = cs_Layer c; server = cs_MyId c; source = md_Sender md in
      sbind (go_index_int (cs_BoomerangMessageLengths c) player) (\<lambda>boomerangLength.
      sbind (pe_InterpretFrom M message) (\<lambda>pm.
      sbind (VerifyToken M (cs_CombinedKey c) (pe_InToken pm) round round source (pe_InKey pm)) (\<lambda>ok1.
      sbind (guard ok1 (Err TokenInvalid)) (\<lambda>_.
      sbind (HashToServer c (token_Hash L M (pe_InToken pm))) (\<lambda>h.
      sbind (guard (int h = server mod 2 ^ 64) (Err WrongServerError)) (\<lambda>_.
      sbind (case ToCurvePoint L (pe_InKey pm) of Inl _ \<Rightarrow> Inl (Err BadElementError) | Inr p \<Rightarrow> Inr p) (\<lambda>inPoint.
        let sharedKey = SharedKey L secretKey inPoint in
      sbind (pe_GetSignedData M round layer server pm) (\<lambda>(pm, d).
      sbind (pe_ReadSignature pm) (\<lambda>sg.
      sbind (guard (Verify L (pe_InKey pm) d sg) (Err DecryptionFailure)) (\<lambda>_.
      sbind (SecretOpen L (pe_SignedCiphertext pm) (Nonce round layer server) sharedKey) (\<lambda>decrypted.
      sbind (pi_InterpretFrom M decrypted boomerangLength) (\<lambda>pi.
      sbind (VerifyToken M (cs_CombinedKey c) (pi_OutToken pi) (round + 1) (round + 1) server (pi_OutKey pi)) (\<lambda>ok2.
      sbind (guard ok2 (Err TokenInvalid)) (\<lambda>_.
      sbind (HashToServer c (token_Hash L M (pi_OutToken pi))) (\<lambda>next.
        Inr (pm, sharedKey, pi, next)))))))))))))))))"

text \<open>The check of the receipt in the last layer. \<^verbatim>\<open>signedData\<close> is a slice of the buffer, and the arguments
  of the \<^verbatim>\<open>DebugPrint\<close> between the two calls write the nonce of \<^verbatim>\<open>NumLayers\<close> into the same bytes: what is
  verified is what the second call left there.\<close>

definition check_boomerang ::
  "('s, 'p) lib \<Rightarrow> ('fr, 'g1, 'g2, 'gt) mcl \<Rightarrow> ('s, 'p, 'g2, 'r) common_state \<Rightarrow> 'g1 path_info \<Rightarrow> 'g1 path_info res" where
  "check_boomerang L M c pi =
     sbind (pi_GetSignedData M (cs_Round c) (cs_Layer c) (cs_MyId c) pi) (\<lambda>(pi1, _).
     sbind (pi_GetSignature pi1) (\<lambda>_.
     sbind (pi_GetSignedData M (cs_NumLayers c) (cs_NumLayers c) (cs_MyId c) pi1) (\<lambda>(pi2, signedData).
     sbind (pi_GetSignature pi2) (\<lambda>sg.
     sbind (guard (Verify L (pi_OutKey pi2) signedData sg) (Err DecryptionFailure)) (\<lambda>_. Inr pi2)))))"

definition ParseRecordAndGetNext ::
  "('s, 'p) lib \<Rightarrow> ('fr, 'g1, 'g2, 'gt) mcl \<Rightarrow> ('s, 'p, 'g2, 'r) common_state \<Rightarrow> 's key_table \<times> 'p path_parser \<Rightarrow>
     metadata \<Rightarrow> bytes \<Rightarrow> ('s key_table \<times> 'p path_parser) \<times> (bytes \<times> nat) res" where
  "ParseRecordAndGetNext L M c st md message = (case st of (t, p) \<Rightarrow>
     (case authenticate_path L M c (kt_secretKey t) (pp_layer p) md message of
        Inl e \<Rightarrow> ((t, p), Inl e)
      | Inr (pm, sharedKey, pi, next) \<Rightarrow>
          (case AddKey L t (pe_InKey pm) sharedKey (md_Sender md) (int next) (pi_OutKey pi) of
             (t1, Inl _) \<Rightarrow> ((t1, p), Inl (Err BadElementError))
           | (t1, Inr key) \<Rightarrow>
               (case pp_Checkpoint p of
                  None \<Rightarrow>
                    (case pe_Marshal M \<lparr>pe_InKey = pi_OutKey pi, pe_InToken = pi_OutToken pi,
                                        pe_SignedCiphertext = pi_NextEnvelope pi, pe_raw = []\<rparr> of
                       Inl e \<Rightarrow> ((t1, p), Inl e)
                     | Inr b \<Rightarrow> (case write_buffer (pp_OutgoingBuffers p) (int next) b of
                           (bufs, Inl e) \<Rightarrow> ((t1, p\<lparr>pp_OutgoingBuffers := bufs\<rparr>), Inl e)
                         | (bufs, Inr _) \<Rightarrow>
                             ((t1, p\<lparr>pp_OutgoingBuffers := bufs\<rparr>), Inr (pi_BoomerangEnvelope pi, key))))
                | Some cks \<Rightarrow>
                    (case HashToGroup c (token_Hash L M (pi_OutToken pi)) of
                       Inl e \<Rightarrow> ((t1, p), Inl e)
                     | Inr gid \<Rightarrow>
                         let t2 = t1\<lparr>kt_keys := (kt_keys t1)[key := (kt_keys t1 ! key)\<lparr>bk_NextServer := int gid\<rparr>]\<rparr> in
                         (case check_boomerang L M c pi of
                            Inl e \<Rightarrow> ((t2, p), Inl e)
                          | Inr pi' \<Rightarrow>
                              (case AddReverseMessage L M cks (pi_BoomerangEnvelope pi')
                                      \<lparr>ci_AnonymousVerificationKey = pi_OutKey pi', ci_Token = pi_OutToken pi'\<rparr> key (int gid) of
                                 (cks', Inl e) \<Rightarrow> ((t2, p\<lparr>pp_Checkpoint := Some cks'\<rparr>), Inl e)
                               | (cks', Inr _) \<Rightarrow>
                                   ((t2, p\<lparr>pp_Checkpoint := Some cks'\<rparr>), Inr (pi_BoomerangEnvelope pi', key)))))))))"

section \<open>Lemmas on the answers of a group\<close>

definition answer_bytes :: "('s, 'p) lib \<Rightarrow> 'p checkpoint_response \<Rightarrow> bytes" where
  "answer_bytes L r = cr_PublicKey r @ pt_encode L (cr_PartialKey r)"

definition answers_for :: "lookup_key \<Rightarrow> 'p checkpoint_response list \<Rightarrow> 'p list" where
  "answers_for k rs = map cr_PartialKey (filter (\<lambda>r. cr_PublicKey r = k) rs)"

definition add_answers :: "('s, 'p) lib \<Rightarrow> 'p list \<Rightarrow> 'p progress \<Rightarrow> 'p progress" where
  "add_answers L ps p = p\<lparr>pg_partialKey := foldl (pk_Accumulate L) (pg_partialKey p) ps\<rparr>"

lemma cr_PackTo_bytes:
  assumes "point_ok L" "length (cr_PublicKey r) = 32" "length b = RESPONSE_LENGTH"
  shows "cr_PackTo L r b = Inr (answer_bytes L r)"
  using assms by (simp add: cr_PackTo_def dhpk_PackTo_def point_ok_def RESPONSE_LENGTH_def size_defs answer_bytes_def)

lemma cr_InterpretFrom_bytes:
  assumes "point_ok L" "length (cr_PublicKey r) = 32"
  shows "cr_InterpretFrom L (answer_bytes L r) = Inr r" "length (answer_bytes L r) = RESPONSE_LENGTH"
  using assms
  by (simp_all add: cr_InterpretFrom_def dhpk_InterpretFrom_def point_ok_def RESPONSE_LENGTH_def size_defs answer_bytes_def)

text \<open>The answers in a message are added to the keys they are for, and to no others.\<close>

lemma handle_responses_ok:
  assumes "point_ok L" "\<forall>r \<in> set rs. length (cr_PublicKey r) = 32 \<and> cr_PublicKey r \<in> fst ` set rm"
  shows "\<exists>rm'. handle_responses L rm (concat (map (answer_bytes L) rs)) = (rm', Inr ()) \<and> map fst rm' = map fst rm \<and>
     (\<forall>k. map_of rm' k = map_option (add_answers L (answers_for k rs)) (map_of rm k))"
  using assms(2)
proof (induction rs arbitrary: rm)
  case Nil
  have "map_option (add_answers L []) x = x" for x by (cases x) (simp_all add: add_answers_def)
  then show ?case by (subst handle_responses.simps) (simp add: answers_for_def)
next
  case (Cons r rs)
  note cr = cr_InterpretFrom_bytes [OF assms(1), of r]
  let ?k = "cr_PublicKey r" and ?data = "concat (map (answer_bytes L) rs)"
  have len: "length ?k = 32" using Cons.prems by simp
  obtain p where p: "map_of rm ?k = Some p"
    using Cons.prems by (metis list.set_intros(1) map_of_eq_None_iff option.exhaust)
  let ?p = "p\<lparr>pg_partialKey := pk_Accumulate L (pg_partialKey p) (cr_PartialKey r)\<rparr>"
  let ?rm = "AList.update ?k ?p rm"
  have step: "handle_responses L rm (concat (map (answer_bytes L) (r # rs))) = handle_responses L ?rm ?data"
    using cr [OF len] p
    by (subst handle_responses.simps) (auto simp: RESPONSE_LENGTH_def size_defs)
  have keys: "map fst ?rm = map fst rm"
  proof -
    have "?k \<in> set (map fst rm)" using Cons.prems by simp
    then show ?thesis by (simp add: AList.update_keys)
  qed
  then have dom: "fst ` set ?rm = fst ` set rm" by (metis list.set_map)
  have "\<forall>x \<in> set rs. length (cr_PublicKey x) = 32 \<and> cr_PublicKey x \<in> fst ` set ?rm"
    using Cons.prems unfolding dom by simp
  from Cons.IH [OF this] obtain rm' where rm': "handle_responses L ?rm ?data = (rm', Inr ())" "map fst rm' = map fst ?rm"
    "\<forall>k. map_of rm' k = map_option (add_answers L (answers_for k rs)) (map_of ?rm k)" by blast
  have "map_of rm' k = map_option (add_answers L (answers_for k (r # rs))) (map_of rm k)" for k
  proof (cases "k = ?k")
    case True
    then show ?thesis using rm'(3) p by (simp add: AList.update_conv' answers_for_def add_answers_def)
  next
    case False
    then show ?thesis using rm'(3) by (simp add: AList.update_conv' answers_for_def)
  qed
  then show ?case using step rm'(1,2) keys by simp
qed

fun handle_seq ::
  "('s, 'p) lib \<Rightarrow> (lookup_key \<times> 'p progress) list \<Rightarrow> bytes list \<Rightarrow> (lookup_key \<times> 'p progress) list \<times> unit res" where
  "handle_seq L rm [] = (rm, Inr ())"
| "handle_seq L rm (d # ds) = (case handle_responses L rm d of (rm', Inl e) \<Rightarrow> (rm', Inl e) | (rm', Inr _) \<Rightarrow> handle_seq L rm' ds)"

lemma add_answers_append: "add_answers L ys (add_answers L xs p) = add_answers L (xs @ ys) p"
  by (simp add: add_answers_def)

lemma handle_seq_ok:
  assumes "point_ok L" "\<forall>rs \<in> set rss. \<forall>r \<in> set rs. length (cr_PublicKey r) = 32 \<and> cr_PublicKey r \<in> fst ` set rm"
  shows "\<exists>rm'. handle_seq L rm (map (\<lambda>rs. concat (map (answer_bytes L) rs)) rss) = (rm', Inr ()) \<and>
     (\<forall>k. map_of rm' k = map_option (add_answers L (answers_for k (concat rss))) (map_of rm k))"
  using assms(2)
proof (induction rss arbitrary: rm)
  case Nil
  have "map_option (add_answers L []) x = x" for x by (cases x) (simp_all add: add_answers_def)
  then show ?case by (simp add: answers_for_def)
next
  case (Cons rs rss)
  from handle_responses_ok [OF assms(1), of rs rm] Cons.prems obtain rm1 where
    rm1: "handle_responses L rm (concat (map (answer_bytes L) rs)) = (rm1, Inr ())" "map fst rm1 = map fst rm"
      "\<forall>k. map_of rm1 k = map_option (add_answers L (answers_for k rs)) (map_of rm k)" by auto
  have dom: "fst ` set rm1 = fst ` set rm" using rm1(2) by (metis list.set_map)
  have "\<forall>x \<in> set rss. \<forall>r \<in> set x. length (cr_PublicKey r) = 32 \<and> cr_PublicKey r \<in> fst ` set rm1"
    using Cons.prems unfolding dom by simp
  from Cons.IH [OF this] obtain rm' where rm': "handle_seq L rm1 (map (\<lambda>rs. concat (map (answer_bytes L) rs)) rss) = (rm', Inr ())"
    "\<forall>k. map_of rm' k = map_option (add_answers L (answers_for k (concat rss))) (map_of rm1 k)" by blast
  have "map_of rm' k = map_option (add_answers L (answers_for k (concat (rs # rss)))) (map_of rm k)" for k
    using rm'(2) rm1(3)
    by (simp add: option.map_comp comp_def add_answers_append) (simp add: answers_for_def)
  then show ?case using rm1(1) rm'(1) by simp
qed

lemma HandleOne_sealed:
  assumes "aes_ok L" "sig_ok L" "pg_used p = False" "AsShared L (pg_partialKey p) = key" "16 \<le> length key"
    and "SignedSecretSeal L m (Nonce (cs_NumLayers c) (cs_NumLayers c) (cs_MyId c)) key sk = Inr (pg_boomerang p)"
  shows "HandleOne L c p = Inr (p\<lparr>pg_used := True, pg_boomerang := m\<rparr>)"
  using sealed_box_checks [OF assms(1,2,5) _ assms(6), of "zeros 24"] assms(3,4)
  by (auto simp: HandleOne_def Let_def)

section \<open>Lemmas on path messages\<close>

text \<open>What \<open>authenticate_path\<close> has established when it returns.\<close>

lemma authenticate_path_sound:
  assumes "authenticate_path L M c secretKey player md m = Inr (pm, sharedKey, pi, next)"
  shows "\<exists>pm0 d sg decrypted. pe_InterpretFrom M m = Inr pm0 \<and>
     VerifyToken M (cs_CombinedKey c) (pe_InToken pm0) (cs_Round c) (cs_Round c) (md_Sender md) (pe_InKey pm0) = Inr True \<and>
     (\<exists>h. HashToServer c (token_Hash L M (pe_InToken pm0)) = Inr h \<and> int h = cs_MyId c mod 2 ^ 64) \<and>
     pe_GetSignedData M (cs_Round c) (cs_Layer c) (cs_MyId c) pm0 = Inr (pm, d) \<and> pe_ReadSignature pm = Inr sg \<and>
     Verify L (pe_InKey pm) d sg \<and>
     SecretOpen L (pe_SignedCiphertext pm) (Nonce (cs_Round c) (cs_Layer c) (cs_MyId c)) sharedKey = Inr decrypted \<and>
     VerifyToken M (cs_CombinedKey c) (pi_OutToken pi) (cs_Round c + 1) (cs_Round c + 1) (cs_MyId c) (pi_OutKey pi) = Inr True \<and>
     HashToServer c (token_Hash L M (pi_OutToken pi)) = Inr next"
  using assms by (auto simp: authenticate_path_def Let_def case_prod_beta)

lemma pi_GetSignedData_twice:
  assumes t: "24 \<le> TOKEN_SIZE M" and k: "length k = 32" and tok: "length tok = TOKEN_SIZE M" and b: "64 \<le> length boom"
    and raw: "pi_raw pi = k @ tok @ boom" "pi_BoomerangEnvelope pi = boom"
  shows "\<exists>pi'. pi_GetSignedData M r l s pi = Inr (pi', Nonce r l s @ take (length boom - 64) boom) \<and>
     pi_raw pi' = k @ take (TOKEN_SIZE M - 24) tok @ Nonce r l s @ boom \<and> pi_OutKey pi' = k \<and>
     pi_BoomerangEnvelope pi' = boom \<and> pi_OutToken pi' = pi_OutToken pi"
proof -
  have pre: "24 \<le> length (k @ tok)" using k by simp
  have p: "length (k @ tok) = POINT_SIZE + TOKEN_SIZE M" using k tok by (simp add: size_defs)
  have "PackSignedData r l s (pi_raw pi) (POINT_SIZE + TOKEN_SIZE M) =
      Inr (take (length (k @ tok) - 24) (k @ tok) @ Nonce r l s @ boom, Nonce r l s @ take (length boom - 64) boom)"
    using PackSignedData_append [OF pre b, of r l s] unfolding p raw(1) append_assoc by simp
  moreover have "take (length (k @ tok) - 24) (k @ tok) = k @ take (TOKEN_SIZE M - 24) tok"
    using k tok t by simp
  ultimately show ?thesis
    using k tok t raw by (simp add: pi_GetSignedData_def Let_def size_defs)
qed

lemma check_boomerang_iff:
  assumes t: "24 \<le> TOKEN_SIZE M" and k: "length k = 32" and tok: "length tok = TOKEN_SIZE M" and b: "64 \<le> length boom"
    and raw: "pi_raw pi = k @ tok @ boom" "pi_BoomerangEnvelope pi = boom"
  shows "(\<exists>pi'. check_boomerang L M c pi = Inr pi' \<and> pi_OutKey pi' = k \<and> pi_BoomerangEnvelope pi' = boom \<and>
            pi_OutToken pi' = pi_OutToken pi) \<longleftrightarrow>
     Verify L k (Nonce (cs_NumLayers c) (cs_NumLayers c) (cs_MyId c) @ take (length boom - 64) boom) (drop (length boom - 64) boom)"
    and "\<not> Verify L k (Nonce (cs_NumLayers c) (cs_NumLayers c) (cs_MyId c) @ take (length boom - 64) boom) (drop (length boom - 64) boom)
     \<Longrightarrow> check_boomerang L M c pi = Inl (Err DecryptionFailure)"
proof -
  from pi_GetSignedData_twice [OF t k tok b raw, of "cs_Round c" "cs_Layer c" "cs_MyId c"] obtain pi1 where
    pi1: "pi_GetSignedData M (cs_Round c) (cs_Layer c) (cs_MyId c) pi =
        Inr (pi1, Nonce (cs_Round c) (cs_Layer c) (cs_MyId c) @ take (length boom - 64) boom)"
      "pi_raw pi1 = k @ (take (TOKEN_SIZE M - 24) tok @ Nonce (cs_Round c) (cs_Layer c) (cs_MyId c)) @ boom"
      "pi_BoomerangEnvelope pi1 = boom" "pi_OutToken pi1 = pi_OutToken pi" by auto
  have "length (take (TOKEN_SIZE M - 24) tok @ Nonce (cs_Round c) (cs_Layer c) (cs_MyId c)) = TOKEN_SIZE M"
    using t tok by simp
  from pi_GetSignedData_twice [OF t k this b pi1(2,3), of "cs_NumLayers c" "cs_NumLayers c" "cs_MyId c"] pi1(4)
  obtain pi2 where
    pi2: "pi_GetSignedData M (cs_NumLayers c) (cs_NumLayers c) (cs_MyId c) pi1 =
        Inr (pi2, Nonce (cs_NumLayers c) (cs_NumLayers c) (cs_MyId c) @ take (length boom - 64) boom)"
      "pi_OutKey pi2 = k" "pi_BoomerangEnvelope pi2 = boom" "pi_OutToken pi2 = pi_OutToken pi" by auto
  have sg: "ReadSignature boom = Inr (drop (length boom - 64) boom)" using b by (simp add: ReadSignature_def size_defs)
  have chk: "check_boomerang L M c pi =
      (if Verify L k (Nonce (cs_NumLayers c) (cs_NumLayers c) (cs_MyId c) @ take (length boom - 64) boom) (drop (length boom - 64) boom)
       then Inr pi2 else Inl (Err DecryptionFailure))"
    using pi1(1,3) pi2 sg by (simp add: check_boomerang_def pi_GetSignature_def)
  then show "(\<exists>pi'. check_boomerang L M c pi = Inr pi' \<and> pi_OutKey pi' = k \<and> pi_BoomerangEnvelope pi' = boom \<and>
            pi_OutToken pi' = pi_OutToken pi) \<longleftrightarrow>
     Verify L k (Nonce (cs_NumLayers c) (cs_NumLayers c) (cs_MyId c) @ take (length boom - 64) boom) (drop (length boom - 64) boom)"
    and "\<not> Verify L k (Nonce (cs_NumLayers c) (cs_NumLayers c) (cs_MyId c) @ take (length boom - 64) boom) (drop (length boom - 64) boom)
     \<Longrightarrow> check_boomerang L M c pi = Inl (Err DecryptionFailure)"
    using pi2(2-4) by auto
qed

text \<open>A path message as a client makes it: two tokens, and the information for this server sealed under the
  key of the first. \<open>x\<close> is the scalar of the client's signing key \<open>sk\<close>, \<open>s\<close> the secret of the server.\<close>

definition path_message_ok ::
  "('s, 'p) lib \<Rightarrow> ('fr, 'g1, 'g2, 'gt) mcl \<Rightarrow> ('s, 'p, 'g2, 'r) common_state \<Rightarrow> 's \<Rightarrow> int \<Rightarrow> int \<Rightarrow>
     signing_key \<Rightarrow> 's \<Rightarrow> 'g1 \<Rightarrow> verification_key \<Rightarrow> 'g1 \<Rightarrow> bytes \<Rightarrow> nat \<Rightarrow> bool" where
  "path_message_ok L M c s player sender sk x t1 outKey t2 boom next \<longleftrightarrow>
     (\<exists>pk. cs_CombinedKey c = Some pk \<and>
        sbind (TokenContent (ed_public L sk) (cs_Round c) (cs_Round c) sender) (verify_with M (Some pk) t1) = Inr True \<and>
        sbind (TokenContent outKey (cs_Round c + 1) (cs_Round c + 1) (cs_MyId c)) (verify_with M (Some pk) t2) = Inr True) \<and>
     go_index_int (cs_BoomerangMessageLengths c) player = Inr (length boom) \<and> ToScalar L sk = Inr x \<and>
     g1_valid M t1 \<and> g1_valid M t2 \<and> length outKey = 32 \<and>
     (\<exists>h. HashToServer c (token_Hash L M t1) = Inr h \<and> int h = cs_MyId c) \<and> cs_MyId c < 2 ^ 64 \<and>
     HashToServer c (token_Hash L M t2) = Inr next"

lemma authenticate_path_complete:
  assumes L: "lib_ok L" and M: "enc_ok M" and T: "24 \<le> TOKEN_SIZE M"
    and ok: "path_message_ok L M c s player (md_Sender md) sk x t1 outKey t2 boom next"
    and inner: "inner = outKey @ g1_ser M t2 @ boom @ rest"
    and box: "SignedSecretSeal L inner (Nonce (cs_Round c) (cs_Layer c) (cs_MyId c)) (SharedKey L x (PublicKey L s)) sk = Inr box"
  shows "\<exists>pm. authenticate_path L M c s player md (ed_public L sk @ g1_ser M t1 @ box) =
     Inr (pm, SharedKey L x (PublicKey L s), \<lparr>pi_OutKey = outKey, pi_OutToken = t2, pi_BoomerangEnvelope = boom,
            pi_NextEnvelope = rest, pi_raw = inner\<rparr>, next) \<and> pe_InKey pm = ed_public L sk"
proof -
  note lib = lib_okD [OF L]
  note o = ok [unfolded path_message_ok_def]
  let ?k = "ed_public L sk" and ?r = "cs_Round c" and ?l = "cs_Layer c" and ?me = "cs_MyId c"
  let ?sh = "SharedKey L x (PublicKey L s)" and ?tok = "g1_ser M t1"
  obtain pk where pk: "cs_CombinedKey c = Some pk"
    "sbind (TokenContent ?k ?r ?r (md_Sender md)) (verify_with M (Some pk) t1) = Inr True"
    "sbind (TokenContent outKey (?r + 1) (?r + 1) ?me) (verify_with M (Some pk) t2) = Inr True" using o by blast
  obtain h where h: "HashToServer c (token_Hash L M t1) = Inr h" "int h = ?me" using o by blast
  have hm: "int h = ?me mod 2 ^ 64" using h(2) o by (metis mod_pos_pos_trivial of_nat_0_le_iff)
  have k: "length ?k = 32" using sig_okD(3) [OF lib(2)] .
  have lt: "length ?tok = TOKEN_SIZE M" using g1_encode(4) [OF M] .
  have cl: "sc_clamp L (take 32 (sha512 L (ed_seed L sk))) = Some x" using o by (simp add: ToScalar_def)
  have pt: "pt_decode L ?k = Some (PublicKey L x)" using lib(5) cl by (simp add: key_ok_def PublicKey_def)
  have sh: "SharedKey L s (PublicKey L x) = ?sh" by (rule shared_key_agreement [OF lib(4)])
  have key: "16 \<le> length ?sh" using length_SharedKey [OF lib(3)] by simp
  have pre: "24 \<le> length (?k @ ?tok)" using k by simp
  have pos: "length (?k @ ?tok) = POINT_SIZE + TOKEN_SIZE M" using k lt by (simp add: size_defs)
  from sealed_box_checks [OF lib(1,2) key pre box] obtain raw d sg where
    chk: "PackSignedData ?r ?l ?me ((?k @ ?tok) @ box) (length (?k @ ?tok)) = Inr (raw, d)" "ReadSignature box = Inr sg"
      "Verify L ?k d sg" "SecretOpen L box (Nonce ?r ?l ?me) ?sh = Inr inner" by blast
  have "64 \<le> length box" using SignedSecretSeal_length [OF lib(1,2) box] by (simp add: size_defs)
  then have raw: "raw = take (length (?k @ ?tok) - 24) (?k @ ?tok) @ Nonce ?r ?l ?me @ box"
    using PackSignedData_append [OF pre, of box ?r ?l ?me] chk(1) by simp
  have rk: "take 32 raw = ?k" "drop (32 + TOKEN_SIZE M) raw = box" using k lt T by (simp_all add: raw)
  define pm where "pm = \<lparr>pe_InKey = ?k, pe_InToken = t1, pe_SignedCiphertext = box, pe_raw = ?k @ ?tok @ box\<rparr>"
  have pm: "pe_InterpretFrom M (?k @ ?tok @ box) = Inr pm"
    unfolding pm_def using o by (intro pe_InterpretFrom_ok [OF M k]) blast
  have gs: "pe_GetSignedData M ?r ?l ?me pm = Inr (pm\<lparr>pe_raw := raw\<rparr>, d)"
    using chk(1) rk pos by (simp add: pe_GetSignedData_def pm_def size_defs)
  have pi: "pi_InterpretFrom M inner (length boom) = Inr \<lparr>pi_OutKey = outKey, pi_OutToken = t2, pi_BoomerangEnvelope = boom,
            pi_NextEnvelope = rest, pi_raw = inner\<rparr>"
    unfolding inner using o by (intro pi_InterpretFrom_ok [OF M]) blast+
  have "authenticate_path L M c s player md (?k @ ?tok @ box) =
     Inr (pm\<lparr>pe_raw := raw\<rparr>, ?sh, \<lparr>pi_OutKey = outKey, pi_OutToken = t2, pi_BoomerangEnvelope = boom,
            pi_NextEnvelope = rest, pi_raw = inner\<rparr>, next)"
    unfolding authenticate_path_def Let_def pm sbind_Inr pk(1)
    using o h(1) hm pt sh gs chk(2-4) pi pk(2,3) [folded VerifyToken_def]
    by (simp add: pm_def ToCurvePoint_def pe_ReadSignature_def)
  then show ?thesis by (simp add: pm_def)
qed

lemma write_buffer_ok:
  assumes "i < length bufs" "filling (bufs ! i)" "length b = elementLength (bufs ! i)"
    "elementCount (bufs ! i) < numElements (bufs ! i)"
  shows "\<exists>m. write_buffer bufs (int i) b = (bufs[i := m], Inr ()) \<and> filling m \<and> contents m = contents (bufs ! i) @ [b]"
  using Write_ok [OF assms(2-4)] assms(1) by (auto simp: write_buffer_def)

text \<open>The state of the sample server during path establishment, and a path message for it.\<close>

definition path_state :: "(256 word, 256 word, 1 word, nat) common_state" where
  "path_state = sample_state\<lparr>cs_CombinedKey := Some (TokenPublicKey toy_mcl 1), cs_BoomerangMessageLengths := [1]\<rparr>"

definition path_scalar :: "256 word" where
  "path_scalar = projr (ToScalar toy_lib [9])"

definition path_token :: "int \<Rightarrow> 1 word" where
  "path_token r = SkipToken toy_mcl 1 (projr (TokenContent (toy_public [9]) r r 0))"

lemma path_message_sample:
  "path_message_ok toy_lib toy_mcl path_state 3 0 0 [9] path_scalar (path_token 0) (toy_public [9]) (path_token 1) [8] 0"
proof -
  have key: "ed_public toy_lib [9] = toy_public [9]" by (simp add: toy_lib_def)
  have tok: "sbind (TokenContent (toy_public [9]) r r 0) (verify_with toy_mcl (Some (TokenPublicKey toy_mcl 1)) (path_token r)) = Inr True"
    for r using skip_token_signature(1) [OF toy_mcl_ok]
    by (simp add: path_token_def TokenContent_ok verify_with_def)
  have val: "g1_valid toy_mcl (path_token r)" for r
    unfolding path_token_def by (rule skip_token_signature(2) [OF toy_mcl_ok])
  have "ToScalar toy_lib [9] = Inr path_scalar" by (simp add: path_scalar_def ToScalar_def toy_lib_def)
  moreover have "HashToServer path_state h = Inr 0" for h by (simp add: HashToServer_def path_state_def sample_state_def)
  ultimately show ?thesis
    using tok [of 0] tok [of 1] val
    by (auto simp: path_message_ok_def path_state_def sample_state_def key go_index_int_def)
qed

section \<open>Properties\<close>

text \<open>C21. A path message made by a client is accepted and forwarded: if both tokens are valid for their
  uses, the message arrives at the server its first token selects, and the place for it in the link
  buffer is free, then the server recovers the inner information, records the client's key with the
  Diffie-Hellman key both can compute, returns the receipt, and writes to the link of the server that the
  second token selects exactly the path message for that server.\<close>

theorem path_message_forwarded:
  assumes "lib_ok L" and "enc_ok M" and "24 \<le> TOKEN_SIZE M"
    and "path_message_ok L M c (kt_secretKey t) (pp_layer p) (md_Sender md) sk x t1 outKey t2 boom next"
    and "SignedSecretSeal L (outKey @ g1_ser M t2 @ boom @ rest) (Nonce (cs_Round c) (cs_Layer c) (cs_MyId c))
           (SharedKey L x (PublicKey L (kt_secretKey t))) sk = Inr box"
    and "pp_Checkpoint p = None" and "pt_decode L outKey = Some q"
    and "map_of (kt_table t) (ed_public L sk) = None" and "map_of (kt_reverseTable t) outKey = None"
    and "next < length (pp_OutgoingBuffers p)" and "filling (pp_OutgoingBuffers p ! next)"
    and "elementLength (pp_OutgoingBuffers p ! next) = length (outKey @ g1_ser M t2 @ rest)"
    and "elementCount (pp_OutgoingBuffers p ! next) < numElements (pp_OutgoingBuffers p ! next)"
  shows "\<exists>t' p' i. ParseRecordAndGetNext L M c (t, p) md (ed_public L sk @ g1_ser M t1 @ box) = ((t', p'), Inr (boom, i)) \<and>
     Lookup t' (ed_public L sk) False = Some i \<and> Lookup t' outKey True = Some i \<and>
     bk_SharedKey (kt_keys t' ! i) = SharedKey L x (PublicKey L (kt_secretKey t)) \<and>
     bk_VerificationKey (kt_keys t' ! i) = ed_public L sk \<and> bk_PrevServer (kt_keys t' ! i) = md_Sender md \<and>
     bk_NextServer (kt_keys t' ! i) = int next \<and>
     contents (pp_OutgoingBuffers p' ! next) = contents (pp_OutgoingBuffers p ! next) @ [outKey @ g1_ser M t2 @ rest]"
proof -
  from authenticate_path_complete [OF assms(1-4) refl assms(5)] obtain pm where
    a: "authenticate_path L M c (kt_secretKey t) (pp_layer p) md (ed_public L sk @ g1_ser M t1 @ box) =
      Inr (pm, SharedKey L x (PublicKey L (kt_secretKey t)),
        \<lparr>pi_OutKey = outKey, pi_OutToken = t2, pi_BoomerangEnvelope = boom, pi_NextEnvelope = rest,
         pi_raw = outKey @ g1_ser M t2 @ boom @ rest\<rparr>, next)" "pe_InKey pm = ed_public L sk" by blast
  have lk: "LookupKey (ed_public L sk) = ed_public L sk" "vk_Copy (ed_public L sk) = ed_public L sk"
    using sig_okD(3) [OF lib_okD(2) [OF assms(1)]] by (simp_all add: LookupKey_id vk_Copy_id)
  have lo: "LookupKey outKey = outKey" "length outKey = 32" using assms(4) by (simp_all add: path_message_ok_def LookupKey_id)
  from AddKey_ok [OF assms(7), of t "ed_public L sk"] assms(8,9) lk lo obtain t' b where
    t': "AddKey L t (ed_public L sk) (SharedKey L x (PublicKey L (kt_secretKey t))) (md_Sender md) (int next) outKey =
        (t', Inr (length (kt_keys t)))" "kt_keys t' = kt_keys t @ [b]"
      "kt_table t' = kt_table t @ [(ed_public L sk, length (kt_keys t))]"
      "kt_reverseTable t' = kt_reverseTable t @ [(outKey, length (kt_keys t))]"
      "bk_SharedKey b = SharedKey L x (PublicKey L (kt_secretKey t))" "bk_VerificationKey b = ed_public L sk"
      "bk_PrevServer b = md_Sender md" "bk_NextServer b = int next" by fastforce
  have pe: "pe_Marshal M \<lparr>pe_InKey = outKey, pe_InToken = t2, pe_SignedCiphertext = rest, pe_raw = []\<rparr> =
      Inr (outKey @ g1_ser M t2 @ rest)"
    using pe_Marshal_ok [OF assms(2)] lo(2) by simp
  from write_buffer_ok [OF assms(10,11) assms(12) [symmetric] assms(13)] obtain m where
    m: "write_buffer (pp_OutgoingBuffers p) (int next) (outKey @ g1_ser M t2 @ rest) = ((pp_OutgoingBuffers p)[next := m], Inr ())"
      "contents m = contents (pp_OutgoingBuffers p ! next) @ [outKey @ g1_ser M t2 @ rest]" by blast
  have "ParseRecordAndGetNext L M c (t, p) md (ed_public L sk @ g1_ser M t1 @ box) =
      ((t', p\<lparr>pp_OutgoingBuffers := (pp_OutgoingBuffers p)[next := m]\<rparr>), Inr (boom, length (kt_keys t)))"
    using a t'(1) pe m(1) assms(6) by (simp add: ParseRecordAndGetNext_def)
  then show ?thesis
    using t' m(2) assms(8-10) by (simp add: Lookup_def map_add_def)
qed

text \<open>A table without keys, a parser for layer 0 with one link, and the message of the sample client.\<close>

definition empty_table :: "256 word key_table" where
  "empty_table = \<lparr>kt_keys = [], kt_table = [], kt_reverseTable = [], kt_secretKey = 3\<rparr>"

definition path_parser0 :: "256 word path_parser" where
  "path_parser0 = \<lparr>pp_layer = 0, pp_OutgoingBuffers = [NewMemReadWriter 80 4], pp_Checkpoint = None\<rparr>"

definition path_box :: bytes where
  "path_box = projr (SignedSecretSeal toy_lib (toy_public [9] @ g1_ser toy_mcl (path_token 1) @ [8] @ [])
     (Nonce 0 0 0) (SharedKey toy_lib path_scalar (PublicKey toy_lib 3)) [9])"

definition path_metadata :: metadata where
  "path_metadata = \<lparr>md_Type = PathMessageForward, md_Round = 0, md_Layer = 0, md_Sender = 0, md_Dest = 0, md_Group = 0,
     md_NumMessages = 1\<rparr>"

lemma path_box_sealed:
  "SignedSecretSeal toy_lib (toy_public [9] @ g1_ser toy_mcl (path_token 1) @ [8] @ [])
     (Nonce (cs_Round path_state) (cs_Layer path_state) (cs_MyId path_state))
     (SharedKey toy_lib path_scalar (PublicKey toy_lib (kt_secretKey empty_table))) [9] = Inr path_box"
proof -
  note L = lib_okD [OF toy_lib_ok]
  have "16 \<le> length (SharedKey toy_lib path_scalar (PublicKey toy_lib 3))" using length_SharedKey [OF L(3)] by simp
  from SignedSecretSeal_ok [OF L(1,2) this] show ?thesis
    by (simp add: path_box_def path_state_def sample_state_def empty_table_def)
qed

lemma toy_token_size: "TOKEN_SIZE toy_mcl = 48" "length (g1_ser toy_mcl t) = 48"
  by (simp_all add: TOKEN_SIZE_def G1_LEN_def toy_mcl_def)

theorem path_message_forwarded_witness:
  "\<exists>t' p' i. ParseRecordAndGetNext toy_lib toy_mcl path_state (empty_table, path_parser0) path_metadata
       (ed_public toy_lib [9] @ g1_ser toy_mcl (path_token 0) @ path_box) = ((t', p'), Inr ([8], i)) \<and>
     contents (pp_OutgoingBuffers p' ! 0) = [toy_public [9] @ g1_ser toy_mcl (path_token 1)]"
proof -
  have ok: "path_message_ok toy_lib toy_mcl path_state (kt_secretKey empty_table) (pp_layer path_parser0)
      (md_Sender path_metadata) [9] path_scalar (path_token 0) (toy_public [9]) (path_token 1) [8] 0"
    using path_message_sample by (simp add: empty_table_def path_parser0_def path_metadata_def)
  have pt: "pt_decode toy_lib (toy_public [9]) = Some (word_of_int (get_le (toy_public [9])))" by (simp add: toy_lib_def)
  have m: "contents (NewMemReadWriter 80 4) = []" "filling (NewMemReadWriter 80 4)" by (rule contents_new)+
  have n: "elementLength (NewMemReadWriter 80 4) = 80" "elementCount (NewMemReadWriter 80 4) = 0" "numElements (NewMemReadWriter 80 4) = 4"
    by (simp_all add: NewMemReadWriter_def)
  have c: "pp_Checkpoint path_parser0 = None" "map_of (kt_table empty_table) (ed_public toy_lib [9]) = None"
    "map_of (kt_reverseTable empty_table) (toy_public [9]) = None" "pp_OutgoingBuffers path_parser0 = [NewMemReadWriter 80 4]"
    by (simp_all add: path_parser0_def empty_table_def)
  have e: "enc_ok toy_mcl" using mcl_okD(4) [OF toy_mcl_ok] .
  have t: "24 \<le> TOKEN_SIZE toy_mcl" by (simp add: toy_token_size)
  from path_message_forwarded [OF toy_lib_ok e t ok path_box_sealed c(1) pt c(2,3)] m n c(4) show ?thesis
    by (simp add: toy_token_size) blast
qed

text \<open>C6. Only authenticated keys are recorded: if a path message, whatever its bytes, makes a server record a
  key, then the message carries a token that verifies for this round, the sender and the key it was sent
  under, this token selects this server, the message is signed with that key for this round, layer and
  server, and the next key carries a token that verifies for the next round and this server.\<close>

theorem path_key_recorded_only_if_authenticated:
  fixes M :: "('fr, 'g1, 'g2, 'gt) mcl"
  assumes "ParseRecordAndGetNext L M c (t, p) md m = ((t', p'), r)" and "kt_keys t' \<noteq> kt_keys t"
  shows "\<exists>pm0 pm d sg (pi :: 'g1 path_info) h. pe_InterpretFrom M m = Inr pm0 \<and>
     VerifyToken M (cs_CombinedKey c) (pe_InToken pm0) (cs_Round c) (cs_Round c) (md_Sender md) (pe_InKey pm0) = Inr True \<and>
     HashToServer c (token_Hash L M (pe_InToken pm0)) = Inr h \<and> int h = cs_MyId c mod 2 ^ 64 \<and>
     pe_GetSignedData M (cs_Round c) (cs_Layer c) (cs_MyId c) pm0 = Inr (pm, d) \<and> pe_ReadSignature pm = Inr sg \<and>
     Verify L (pe_InKey pm) d sg \<and>
     VerifyToken M (cs_CombinedKey c) (pi_OutToken pi) (cs_Round c + 1) (cs_Round c + 1) (cs_MyId c) (pi_OutKey pi) = Inr True \<and>
     map_of (kt_table t') (LookupKey (pe_InKey pm)) = Some (length (kt_keys t))"
proof (cases "authenticate_path L M c (kt_secretKey t) (pp_layer p) md m")
  case (Inl e)
  then show ?thesis using assms by (simp add: ParseRecordAndGetNext_def)
next
  case (Inr x)
  obtain pm sh pi nxt where x: "x = (pm, sh, pi, nxt)" by (metis prod.exhaust)
  obtain t1 a where a: "AddKey L t (pe_InKey pm) sh (md_Sender md) (int nxt) (pi_OutKey pi) = (t1, a)" by fastforce
  have "map_of (kt_table t1) (LookupKey (pe_InKey pm)) = Some (length (kt_keys t))" if "a = Inr i" for i
    using a that by (auto simp: AddKey_def Let_def PreExpandKeys_def AList.update_conv' split: sum.splits)
  moreover have "t1 = t" if "a = Inl e" for e
    using a that by (auto simp: AddKey_def Let_def PreExpandKeys_def split: sum.splits)
  moreover have "(\<exists>i. a = Inr i \<and> kt_table t' = kt_table t1) \<or> (\<exists>e. a = Inl e \<and> t' = t1)"
    using assms(1) Inr x a
    by (auto simp: ParseRecordAndGetNext_def Let_def split: sum.splits prod.splits option.splits)
  ultimately have "map_of (kt_table t') (LookupKey (pe_InKey pm)) = Some (length (kt_keys t))"
    using assms(2) by metis
  then show ?thesis using authenticate_path_sound [OF Inr [unfolded x]] by blast
qed

theorem path_key_recorded_only_if_authenticated_witness:
  "\<exists>pm0. pe_InterpretFrom toy_mcl (ed_public toy_lib [9] @ g1_ser toy_mcl (path_token 0) @ path_box) = Inr pm0 \<and>
     VerifyToken toy_mcl (cs_CombinedKey path_state) (pe_InToken pm0) 0 0 0 (pe_InKey pm0) = Inr True"
proof -
  let ?m = "ed_public toy_lib [9] @ g1_ser toy_mcl (path_token 0) @ path_box"
  have ok: "path_message_ok toy_lib toy_mcl path_state (kt_secretKey empty_table) 0
      (md_Sender path_metadata) [9] path_scalar (path_token 0) (toy_public [9]) (path_token 1) [8] 0"
    using path_message_sample by (simp add: empty_table_def path_metadata_def)
  have e: "enc_ok toy_mcl" using mcl_okD(4) [OF toy_mcl_ok] .
  have t: "24 \<le> TOKEN_SIZE toy_mcl" by (simp add: toy_token_size)
  have pt: "pt_decode toy_lib (toy_public [9]) = Some (word_of_int (get_le (toy_public [9])))" by (simp add: toy_lib_def)
  obtain pm where a: "authenticate_path toy_lib toy_mcl path_state (kt_secretKey empty_table) 0 path_metadata ?m =
      Inr (pm, SharedKey toy_lib path_scalar (PublicKey toy_lib (kt_secretKey empty_table)),
        \<lparr>pi_OutKey = toy_public [9], pi_OutToken = path_token 1, pi_BoomerangEnvelope = [8], pi_NextEnvelope = [],
         pi_raw = toy_public [9] @ g1_ser toy_mcl (path_token 1) @ [8] @ []\<rparr>, 0)"
    using authenticate_path_complete [OF toy_lib_ok e t ok refl path_box_sealed] by blast
  obtain t' p' r where p: "ParseRecordAndGetNext toy_lib toy_mcl path_state (empty_table, path_parser0) path_metadata ?m = ((t', p'), r)"
    by (metis prod.exhaust)
  have "kt_keys t' \<noteq> kt_keys empty_table"
    using p a AddKey_ok [OF pt, of empty_table]
    by (auto simp: ParseRecordAndGetNext_def path_parser0_def empty_table_def AddKey_def ToCurvePoint_def pt Let_def
        PreExpandKeys_def split: sum.splits prod.splits)
  from path_key_recorded_only_if_authenticated [OF p this] show ?thesis
    by (auto simp: path_state_def sample_state_def path_metadata_def)
qed

text \<open>C9. The group opens the receipt: when the group secret is shared among the members and their answers for
  a client's key arrive in messages of any size and order, together with answers for other keys, then
  after the last answer the receipt the client sealed for the group decrypts to what the client put in.\<close>

theorem group_opens_receipt:
  assumes "lib_ok L" and "scalar_ok L z" and "mul_ok L z" and "dh_AdditiveShares L rnd secret n = Inr shares"
    and "map_of rm k = Some p" and "pg_used p = False" and "pg_partialKey p = ZeroPoint L"
    and "\<forall>rs \<in> set rss. \<forall>r \<in> set rs. length (cr_PublicKey r) = 32 \<and> cr_PublicKey r \<in> fst ` set rm"
    and "mset (answers_for k (concat rss)) = mset (map (\<lambda>s. dh_Mul L s (PublicKey L client)) shares)"
    and "SignedSecretSeal L m (Nonce (cs_NumLayers c) (cs_NumLayers c) (cs_MyId c))
           (SharedKey L client (PublicKey L secret)) sk = Inr (pg_boomerang p)"
  shows "\<exists>rm' p'. handle_seq L rm (map (\<lambda>rs. concat (map (answer_bytes L) rs)) rss) = (rm', Inr ()) \<and>
     map_of rm' k = Some p' \<and> HandleOne L c p' = Inr (p'\<lparr>pg_used := True, pg_boomerang := m\<rparr>)"
proof -
  note L = lib_okD [OF assms(1)]
  from handle_seq_ok [OF L(3) assms(8)] obtain rm' where
    rm': "handle_seq L rm (map (\<lambda>rs. concat (map (answer_bytes L) rs)) rss) = (rm', Inr ())"
      "map_of rm' k = Some (add_answers L (answers_for k (concat rss)) p)" using assms(5) by auto
  let ?p = "add_answers L (answers_for k (concat rss)) p"
  have "pg_partialKey ?p = dh_Mul L secret (PublicKey L client)"
    using group_key_shares [OF assms(2-4,9)] assms(7) by (simp add: add_answers_def)
  then have key: "AsShared L (pg_partialKey ?p) = SharedKey L client (PublicKey L secret)"
    using shared_key_agreement [OF L(4), of secret client] by (simp add: AsShared_def SharedKey_def)
  have "HandleOne L c ?p = Inr (?p\<lparr>pg_used := True, pg_boomerang := m\<rparr>)"
    by (rule HandleOne_sealed [OF L(1,2) _ key]) (use assms(6,10) length_SharedKey [OF L(3)] in \<open>simp_all add: add_answers_def\<close>)
  then show ?thesis using rm' by blast
qed

definition sample_progress :: "256 word progress" where
  "sample_progress = \<lparr>pg_boomerang = projr (SignedSecretSeal toy_lib [7] (Nonce 2 2 0) (SharedKey toy_lib 6 (PublicKey toy_lib 11)) [9]),
     pg_partialKey = ZeroPoint toy_lib, pg_group = 0, pg_key = 0, pg_used = False\<rparr>"

theorem group_opens_receipt_witness:
  "\<exists>shares rm' p'. dh_AdditiveShares toy_lib of_nat 11 2 = Inr shares \<and>
     handle_seq toy_lib [(zeros 32, sample_progress)]
       (map (\<lambda>s. answer_bytes toy_lib \<lparr>cr_PublicKey = zeros 32, cr_PartialKey = dh_Mul toy_lib s (PublicKey toy_lib 6)\<rparr>) shares) =
       (rm', Inr ()) \<and>
     map_of rm' (zeros 32) = Some p' \<and> HandleOne toy_lib path_state p' = Inr (p'\<lparr>pg_used := True, pg_boomerang := [7]\<rparr>)"
proof -
  note L = lib_okD [OF toy_lib_ok]
  obtain shares where s: "dh_AdditiveShares toy_lib of_nat 11 2 = Inr shares" by (simp add: dh_AdditiveShares_def)
  let ?rss = "map (\<lambda>s. [\<lparr>cr_PublicKey = zeros 32, cr_PartialKey = dh_Mul toy_lib s (PublicKey toy_lib 6)\<rparr>]) shares"
  have k: "map_of [(zeros 32, sample_progress)] (zeros 32) = Some sample_progress" "pg_used sample_progress = False"
    "pg_partialKey sample_progress = ZeroPoint toy_lib" by (simp_all add: sample_progress_def)
  have r: "\<forall>rs \<in> set ?rss. \<forall>r \<in> set rs. length (cr_PublicKey r) = 32 \<and> cr_PublicKey r \<in> fst ` set [(zeros 32, sample_progress)]"
    by auto
  have "answers_for (zeros 32) (concat ?rss) = map (\<lambda>s. dh_Mul toy_lib s (PublicKey toy_lib 6)) shares"
    by (induction shares) (auto simp: answers_for_def)
  then have a: "mset (answers_for (zeros 32) (concat ?rss)) = mset (map (\<lambda>s. dh_Mul toy_lib s (PublicKey toy_lib 6)) shares)"
    by (rule arg_cong)
  have "16 \<le> length (SharedKey toy_lib 6 (PublicKey toy_lib 11))" using length_SharedKey [OF L(3)] by simp
  from SignedSecretSeal_ok [OF L(1,2) this] have b: "SignedSecretSeal toy_lib [7]
      (Nonce (cs_NumLayers path_state) (cs_NumLayers path_state) (cs_MyId path_state))
      (SharedKey toy_lib 6 (PublicKey toy_lib 11)) [9] = Inr (pg_boomerang sample_progress)"
    by (simp add: sample_progress_def path_state_def sample_state_def)
  from group_opens_receipt [OF toy_lib_ok toy_scalars s k r a b] s show ?thesis by (auto simp: comp_def)
qed

text \<open>What a member of the group answers to a well-formed message with a valid token.\<close>

lemma HandleCheckpointMessage_answer:
  assumes "lib_ok L" "enc_ok M" "ToScalar L sk = Inr client" "g1_valid M tok"
    and "ci_Marshal M \<lparr>ci_AnonymousVerificationKey = ed_public L sk, ci_Token = tok\<rparr> = Inr m"
    and "VerifyToken M (cs_CombinedKey c) tok (cs_NumLayers c) (cs_NumLayers c) (md_Sender md) (ed_public L sk) = Inr True"
  shows "HandleCheckpointMessage L M c st md m (zeros RESPONSE_LENGTH) =
     (st\<lparr>cp_AnonymousSigningKeys := vt_Add (cp_AnonymousSigningKeys st) (ed_public L sk)\<rparr>,
      Inr (answer_bytes L \<lparr>cr_PublicKey = ed_public L sk, cr_PartialKey = dh_Mul L (cp_groupKeyShare st) (PublicKey L client)\<rparr>))"
proof -
  note L = lib_okD [OF assms(1)]
  let ?vk = "ed_public L sk" and ?info = "\<lparr>ci_AnonymousVerificationKey = ed_public L sk, ci_Token = tok\<rparr>"
  have vk: "length ?vk = 32" using sig_okD(3) [OF L(2)] .
  have "ci_InterpretFrom M m = Inr ?info"
    using wire_codec.packed(2) [OF checkpoint_info_codec [OF assms(2)] _ assms(5)] assms(4) vk by (simp add: ci_wf_def size_defs)
  moreover have "pt_decode L ?vk = Some (PublicKey L client)"
    using L(5) assms(3) by (auto simp: key_ok_def ToScalar_def PublicKey_def of_option_def split: option.splits)
  then have "ToCurvePoint L ?vk = Inr (PublicKey L client)" by (simp add: ToCurvePoint_def)
  ultimately show ?thesis
    using assms(6) cr_PackTo_bytes [OF L(3)] vk
    by (auto simp: HandleCheckpointMessage_def VerifyToken_def Let_def LookupKey_id)
qed

text \<open>C20. Threshold decryption by an anytrust group: when the group secret is shared additively among the
  members and each of them handles the checkpoint message of a client, with a token that is valid for it, then each
  records the client's key and answers, and the partial keys read from the answers, in whatever order
  they arrive, add up to the Diffie-Hellman key between that client and the group.\<close>

theorem group_decryption_key:
  assumes "lib_ok L" and "scalar_ok L z" and "mul_ok L z" and "enc_ok M"
    and "dh_AdditiveShares L rnd secret n = Inr shares" and "map (cp_groupKeyShare \<circ> snd) members = shares"
    and "ToScalar L sk = Inr client" and "g1_valid M tok"
    and "ci_Marshal M \<lparr>ci_AnonymousVerificationKey = ed_public L sk, ci_Token = tok\<rparr> = Inr m"
    and "\<forall>(c, st) \<in> set members. VerifyToken M (cs_CombinedKey c) tok (cs_NumLayers c) (cs_NumLayers c) (md_Sender md) (ed_public L sk) = Inr True"
    and "mset replies = mset (map (\<lambda>(c, st). snd (HandleCheckpointMessage L M c st md m (zeros RESPONSE_LENGTH))) members)"
  shows "(\<exists>answers. map (\<lambda>r. sbind r (cr_InterpretFrom L)) replies = map Inr answers \<and> length answers = n \<and>
       (\<forall>a \<in> set answers. cr_PublicKey a = ed_public L sk) \<and>
       AsShared L (foldl (pk_Accumulate L) (ZeroPoint L) (map cr_PartialKey answers)) = SharedKey L client (PublicKey L secret)) \<and>
     (\<forall>(c, st) \<in> set members.
       ed_public L sk \<in> vt_all (cp_AnonymousSigningKeys (fst (HandleCheckpointMessage L M c st md m (zeros RESPONSE_LENGTH)))))"
proof -
  note L = lib_okD [OF assms(1)]
  let ?vk = "ed_public L sk"
  let ?a = "\<lambda>x. \<lparr>cr_PublicKey = ?vk, cr_PartialKey = dh_Mul L x (PublicKey L client)\<rparr>"
  have vk: "length ?vk = 32" using sig_okD(3) [OF L(2)] .
  have h: "HandleCheckpointMessage L M c st md m (zeros RESPONSE_LENGTH) =
      (st\<lparr>cp_AnonymousSigningKeys := vt_Add (cp_AnonymousSigningKeys st) ?vk\<rparr>, Inr (answer_bytes L (?a (cp_groupKeyShare st))))"
    if "(c, st) \<in> set members" for c st
    using HandleCheckpointMessage_answer [OF assms(1,4,7,8,9)] assms(10) that by blast
  define f where "f = (\<lambda>r. projr (sbind r (cr_InterpretFrom L)))"
  have reply: "mset replies = mset (map (\<lambda>(c, st). Inr (answer_bytes L (?a (cp_groupKeyShare st)))) members)"
    unfolding assms(11) by (rule arg_cong [of _ _ mset]) (auto intro!: map_cong simp: h)
  have cr: "cr_InterpretFrom L (answer_bytes L (?a x)) = Inr (?a x)" for x
    using cr_InterpretFrom_bytes(1) [OF L(3)] vk by simp
  have "set replies = set (map (\<lambda>(c, st). Inr (answer_bytes L (?a (cp_groupKeyShare st)))) members)" using reply by (rule mset_eq_setD)
  then have each: "\<exists>x. r = Inr (answer_bytes L (?a x))" if "r \<in> set replies" for r using that by auto
  have "sbind r (cr_InterpretFrom L) = Inr (f r)" if "r \<in> set replies" for r using each [OF that] by (auto simp: f_def cr)
  then have "map (\<lambda>r. sbind r (cr_InterpretFrom L)) replies = map Inr (map f replies)" by simp
  moreover have "\<forall>a \<in> set (map f replies). cr_PublicKey a = ?vk" using each by (fastforce simp: f_def cr)
  moreover have "mset (map cr_PartialKey (map f replies)) = mset (map (\<lambda>x. dh_Mul L x (PublicKey L client)) shares)"
  proof -
    have "mset (map cr_PartialKey (map f replies)) = image_mset (cr_PartialKey \<circ> f) (mset replies)" by (simp add: multiset.map_comp)
    also have "\<dots> = mset (map (\<lambda>x. dh_Mul L (cp_groupKeyShare (snd x)) (PublicKey L client)) members)"
      unfolding reply by (simp add: multiset.map_comp comp_def f_def cr case_prod_beta)
    finally show ?thesis by (simp add: assms(6) [symmetric] comp_def)
  qed
  then have "foldl (pk_Accumulate L) (ZeroPoint L) (map cr_PartialKey (map f replies)) = dh_Mul L secret (PublicKey L client)"
    by (rule group_key_shares [OF assms(2,3,5)])
  then have "AsShared L (foldl (pk_Accumulate L) (ZeroPoint L) (map cr_PartialKey (map f replies))) = SharedKey L client (PublicKey L secret)"
    using shared_key_agreement [OF L(4), of secret client] by (simp add: AsShared_def SharedKey_def)
  moreover have "length (map f replies) = n"
    using secret_sharing.shares_cases(1) [OF dh_secret_sharing [OF assms(2)] TrueI TrueI assms(5)] mset_eq_length [OF assms(11)] assms(6)
    by (metis length_map)
  moreover have "?vk \<in> vt_all (cp_AnonymousSigningKeys (fst (HandleCheckpointMessage L M c st md m (zeros RESPONSE_LENGTH))))"
    if "(c, st) \<in> set members" for c st
    using h [OF that] vk by (simp add: vt_all_def vt_Add_def AList.dom_update)
  ultimately show ?thesis by blast
qed

definition group_members :: "((256 word, 256 word, 1 word, nat) common_state \<times> 256 word checkpoint) list" where
  "group_members = map (\<lambda>s. (path_state, NewCheckpointState path_state 0 s)) (projr (dh_AdditiveShares toy_lib of_nat 11 3))"

theorem group_decryption_key_witness:
  "\<exists>m answers. ci_Marshal toy_mcl \<lparr>ci_AnonymousVerificationKey = toy_public [9], ci_Token = path_token 2\<rparr> = Inr m \<and>
     length group_members = 3 \<and>
     map (\<lambda>(c, st). sbind (snd (HandleCheckpointMessage toy_lib toy_mcl c st path_metadata m (zeros RESPONSE_LENGTH))) (cr_InterpretFrom toy_lib))
       (rev group_members) = map Inr answers \<and>
     AsShared toy_lib (foldl (pk_Accumulate toy_lib) (ZeroPoint toy_lib) (map cr_PartialKey answers)) =
       SharedKey toy_lib path_scalar (PublicKey toy_lib 11)"
proof -
  have e: "enc_ok toy_mcl" using mcl_okD(4) [OF toy_mcl_ok] .
  have key: "ed_public toy_lib [9] = toy_public [9]" by (simp add: toy_lib_def)
  have sc: "ToScalar toy_lib [9] = Inr path_scalar" by (simp add: path_scalar_def ToScalar_def toy_lib_def)
  have val: "g1_valid toy_mcl (path_token 2)" unfolding path_token_def by (rule skip_token_signature(2) [OF toy_mcl_ok])
  obtain shares where s: "dh_AdditiveShares toy_lib of_nat 11 3 = Inr shares" by (simp add: dh_AdditiveShares_def)
  have mem: "map (cp_groupKeyShare \<circ> snd) group_members = shares"
    by (simp add: group_members_def s comp_def NewCheckpointState_def)
  let ?info = "\<lparr>ci_AnonymousVerificationKey = ed_public toy_lib [9], ci_Token = path_token 2\<rparr>"
  obtain m where m: "ci_Marshal toy_mcl ?info = Inr m"
    using wire_codec.pack_total [OF checkpoint_info_codec [OF e], of ?info] val by (auto simp: ci_wf_def size_defs key)
  have "VerifyToken toy_mcl (cs_CombinedKey path_state) (path_token 2) (cs_NumLayers path_state) (cs_NumLayers path_state)
      (md_Sender path_metadata) (ed_public toy_lib [9]) = Inr True"
    using skip_token_signature(1) [OF toy_mcl_ok]
    by (simp add: VerifyToken_def path_token_def TokenContent_ok verify_with_def path_state_def sample_state_def path_metadata_def key)
  then have tok: "\<forall>(c, st) \<in> set group_members. VerifyToken toy_mcl (cs_CombinedKey c) (path_token 2) (cs_NumLayers c) (cs_NumLayers c)
      (md_Sender path_metadata) (ed_public toy_lib [9]) = Inr True" by (auto simp: group_members_def)
  let ?f = "\<lambda>(c, st). snd (HandleCheckpointMessage toy_lib toy_mcl c st path_metadata m (zeros RESPONSE_LENGTH))"
  have f: "map (\<lambda>r. sbind r (cr_InterpretFrom toy_lib)) (map ?f xs) = map (\<lambda>(c, st).
      sbind (snd (HandleCheckpointMessage toy_lib toy_mcl c st path_metadata m (zeros RESPONSE_LENGTH))) (cr_InterpretFrom toy_lib)) xs"
    for xs by (simp add: comp_def case_prod_beta)
  have r: "mset (map ?f (rev group_members)) = mset (map ?f group_members)" by simp
  have "length group_members = 3" using s by (auto simp: group_members_def dh_AdditiveShares_def)
  then show ?thesis
    using group_decryption_key [OF toy_lib_ok toy_scalars e s mem sc val m tok r, unfolded f] m unfolding key by blast
qed

text \<open>The signature on the receipt is checked under the nonce of \<^verbatim>\<open>NumLayers\<close>, which is the one the client signs,
  and not under that of the current round and layer, which the code passes to the call whose result it
  verifies. The two agree only because the arguments of the debugging output between the call and the
  verification are evaluated and overwrite the bytes in place.\<close>

theorem receipt_checked_under_numlayers:
  assumes "24 \<le> TOKEN_SIZE M" and "length k = 32" and "length tok = TOKEN_SIZE M" and "64 \<le> length boom"
    and "pi_raw pi = k @ tok @ boom" and "pi_BoomerangEnvelope pi = boom"
  shows "(\<exists>pi'. check_boomerang L M c pi = Inr pi') \<longleftrightarrow>
     Verify L k (Nonce (cs_NumLayers c) (cs_NumLayers c) (cs_MyId c) @ take (length boom - 64) boom) (drop (length boom - 64) boom)"
  using check_boomerang_iff [OF assms, of L c] by (metis Inl_Inr_False)

theorem receipt_checked_under_numlayers_witness:
  "\<exists>pi'. check_boomerang toy_lib toy_mcl path_state
     \<lparr>pi_OutKey = toy_public [9], pi_OutToken = 0,
      pi_BoomerangEnvelope = Sign toy_lib [9] (Nonce 2 2 0), pi_NextEnvelope = [],
      pi_raw = toy_public [9] @ zeros 48 @ Sign toy_lib [9] (Nonce 2 2 0)\<rparr> = Inr pi'"
proof -
  note L = lib_okD [OF toy_lib_ok]
  let ?b = "Sign toy_lib [9] (Nonce 2 2 0)"
  have lb: "length ?b = 64" using sig_okD(1) [OF L(2)] .
  have "Verify toy_lib (ed_public toy_lib [9]) (Nonce 2 2 0) ?b" using sig_okD(2) [OF L(2)] .
  moreover have "ed_public toy_lib [9] = toy_public [9]" by (simp add: toy_lib_def)
  ultimately show ?thesis
    using receipt_checked_under_numlayers [of toy_mcl "toy_public [9]" "zeros 48" ?b
        "\<lparr>pi_OutKey = toy_public [9], pi_OutToken = 0, pi_BoomerangEnvelope = ?b, pi_NextEnvelope = [],
          pi_raw = toy_public [9] @ zeros 48 @ ?b\<rparr>" toy_lib path_state] lb
    by (simp add: toy_token_size path_state_def sample_state_def)
qed

end
