(* ===== verification/Lengths.thy ===== *)
theory Lengths
  imports Wire
begin

text \<open>
  The message sizes of every layer, \<^verbatim>\<open>src/server/prepareMessages/lengths.go\<close>. Servers cut the streams they
  receive by these sizes, so they have to be the sizes of what clients make; the closed forms proved
  here are compared with the actual messages in theory \<open>Client\<close>. The loops over a slice are folds over
  its indices.
\<close>

section \<open>Definitions\<close>

fun onion_loop :: "nat \<Rightarrow> nat \<Rightarrow> nat list \<Rightarrow> nat list" where
  "onion_loop layer sz lengths =
     (let lengths' = lengths[layer := sz] in
      case layer of 0 \<Rightarrow> lengths' | Suc l \<Rightarrow> onion_loop l (sz + Overhead) lengths')"

declare onion_loop.simps [simp del]

definition OnionLengths :: "nat \<Rightarrow> nat \<Rightarrow> nat list" where
  "OnionLengths layers sz = onion_loop layers sz (replicate (layers + 1) 0)"

definition add_each :: "nat \<Rightarrow> nat list \<Rightarrow> nat list \<Rightarrow> nat list" where
  "add_each n lengths idx = foldl (\<lambda>ls i. ls[i := ls ! i + n]) lengths idx"

definition LightningMessageLengths :: "nat \<Rightarrow> nat \<Rightarrow> nat list" where
  "LightningMessageLengths layers payloadSize =
     (let lengths = OnionLengths layers (payloadSize + FINAL_MESSAGE_BASE_LENGTH);
          lengths = add_each KEY_SIZE lengths [0..<layers]
      in lengths[layers := lengths ! layers + VERIFICATION_KEY_SIZE])"

definition BoomerangLengths :: "nat \<Rightarrow> nat \<Rightarrow> nat \<Rightarrow> nat list res" where
  "BoomerangLengths numLayers sz limitSize =
     (if numLayers = 0 then Inl (Panic IndexOutOfRange)
      else
        let lengths = (replicate numLayers 0)[0 := sz];
            lengths = foldl (\<lambda>ls l. ls[l := ls ! (l - 1) + Overhead]) lengths [1..<min (limitSize + 1) numLayers];
            lengths = foldl (\<lambda>ls l. ls[l := ls ! (l - 1)]) lengths [limitSize + 1..<numLayers]
        in Inr (lengths[numLayers - 1 := lengths ! (numLayers - 1) + Overhead]))"

definition WireBoomerangLengths :: "nat \<Rightarrow> nat \<Rightarrow> nat \<Rightarrow> nat list res" where
  "WireBoomerangLengths numLayers sz limitSize =
     sbind (BoomerangLengths numLayers sz limitSize) (\<lambda>lengths.
       let lengths = lengths[numLayers - 1 := lengths ! (numLayers - 1) - Overhead]
       in Inr (add_each KEY_SIZE lengths [1..<length lengths]))"

definition PathEstablishmentLengths ::
  "('fr, 'g1, 'g2, 'gt) mcl \<Rightarrow> nat \<Rightarrow> nat \<Rightarrow> nat \<Rightarrow> nat list res" where
  "PathEstablishmentLengths M layers receiptSize limitSize =
     sbind (BoomerangLengths layers receiptSize limitSize) (\<lambda>reverseLengths.
       let lengths = replicate (layers + 1) 0;
           lengths = foldl (\<lambda>ls l. ls[l := Overhead + POINT_SIZE + TOKEN_SIZE M + ls ! (l + 1) + reverseLengths ! l])
                       lengths (rev [0..<layers])
       in Inr (add_each (POINT_SIZE + TOKEN_SIZE M) lengths [0..<length lengths]))"

section \<open>Closed forms\<close>

lemma length_onion_loop [simp]: "length (onion_loop layer sz ls) = length ls"
proof (induction layer arbitrary: sz ls)
  case 0
  show ?case by (simp add: onion_loop.simps)
next
  case (Suc l)
  then show ?case by (subst onion_loop.simps) (simp add: Let_def)
qed

lemma nth_onion_loop:
  "layer < length ls \<Longrightarrow> j < length ls \<Longrightarrow>
     onion_loop layer sz ls ! j = (if j \<le> layer then sz + 64 * (layer - j) else ls ! j)"
proof (induction layer arbitrary: sz ls)
  case 0
  then show ?case by (simp add: onion_loop.simps nth_list_update)
next
  case (Suc l)
  have "onion_loop (Suc l) sz ls = onion_loop l (sz + 64) (ls[Suc l := sz])"
    by (subst onion_loop.simps) (simp add: Let_def size_defs)
  then show ?case using Suc by (auto simp: nth_list_update Suc_diff_le not_le le_Suc_eq)
qed

lemma OnionLengths_nth:
  "length (OnionLengths n sz) = n + 1" "l \<le> n \<Longrightarrow> OnionLengths n sz ! l = sz + 64 * (n - l)"
  by (simp_all add: OnionLengths_def nth_onion_loop)

lemma add_each_nth:
  assumes "distinct idx" "\<forall>i \<in> set idx. i < length ls"
  shows "length (add_each n ls idx) = length ls \<and>
     (\<forall>j < length ls. add_each n ls idx ! j = (if j \<in> set idx then ls ! j + n else ls ! j))"
  using assms unfolding add_each_def
proof (induction idx arbitrary: ls)
  case (Cons i idx)
  from Cons.IH [of "ls[i := ls ! i + n]"] Cons.prems show ?case by (auto simp: nth_list_update)
qed simp

lemma LightningMessageLengths_nth:
  "length (LightningMessageLengths n sz) = n + 1"
  "l < n \<Longrightarrow> LightningMessageLengths n sz ! l = 32 + (sz + 64 + 64 * (n - l))"
  "LightningMessageLengths n sz ! n = 32 + (sz + 64)"
proof -
  let ?o = "OnionLengths n (sz + 64)"
  note a = add_each_nth [of "[0..<n]" ?o 32] and o = OnionLengths_nth(1) [of n "sz + 64"]
    OnionLengths_nth(2) [of _ n "sz + 64"]
  have a': "length (add_each 32 ?o [0..<n]) = n + 1" "\<forall>j < n + 1. add_each 32 ?o [0..<n] ! j =
      (if j < n then ?o ! j + 32 else ?o ! j)" using a o(1) by simp_all
  show "length (LightningMessageLengths n sz) = n + 1"
    "l < n \<Longrightarrow> LightningMessageLengths n sz ! l = 32 + (sz + 64 + 64 * (n - l))"
    "LightningMessageLengths n sz ! n = 32 + (sz + 64)"
    using a' o by (simp_all add: LightningMessageLengths_def Let_def FINAL_MESSAGE_BASE_LENGTH_def size_defs)
qed

text \<open>A fold that fills a list from the left, each entry from the one before.\<close>

lemma fold_up_nth:
  assumes "a \<le> b" "b \<le> length ls" "0 < a"
  shows "length (foldl (\<lambda>ls l. ls[l := f (ls ! (l - 1))]) ls [a..<b]) = length ls \<and>
     (\<forall>j < length ls. foldl (\<lambda>ls l. ls[l := f (ls ! (l - 1))]) ls [a..<b] ! j =
        (if a \<le> j \<and> j < b then (f ^^ (j - a + 1)) (ls ! (a - 1)) else ls ! j))"
  using assms
proof (induction b)
  case (Suc b)
  show ?case
  proof (cases "a \<le> b")
    case False
    then have "a = Suc b" "[a..<Suc b] = []" "\<not> (a \<le> j \<and> j < Suc b)" for j using Suc.prems by auto
    then show ?thesis by auto
  next
    case True
    let ?F = "foldl (\<lambda>ls l. ls[l := f (ls ! (l - 1))]) ls"
    have IH: "length (?F [a..<b]) = length ls" "\<forall>j < length ls. ?F [a..<b] ! j =
        (if a \<le> j \<and> j < b then (f ^^ (j - a + 1)) (ls ! (a - 1)) else ls ! j)"
      using Suc.IH True Suc.prems by simp_all
    have F: "?F [a..<Suc b] = (?F [a..<b])[b := f (?F [a..<b] ! (b - 1))]"
      using True by simp
    have prev: "?F [a..<b] ! (b - 1) = (f ^^ (b - a)) (ls ! (a - 1))"
    proof (cases "a = b")
      case True
      then show ?thesis by simp
    next
      case False
      then have "a \<le> b - 1" "b - 1 < b" "b - 1 < length ls" "b - 1 - a + 1 = b - a"
        using True Suc.prems by auto
      then show ?thesis using IH(2) by simp
    qed
    have "j - a + 1 = Suc (b - a)" if "j = b" for j using True that by simp
    then show ?thesis
      using IH prev Suc.prems True unfolding F by (auto simp: nth_list_update less_Suc_eq)
  qed
qed auto

lemma funpow_add: "((\<lambda>x. x + c) ^^ n) a = a + c * (n :: nat)"
  by (induction n) auto

lemma funpow_id: "((\<lambda>x. x) ^^ n) a = a"
  by (induction n) auto

definition receipt_length :: "nat \<Rightarrow> nat \<Rightarrow> nat \<Rightarrow> nat" where
  "receipt_length sz limit l = sz + 64 * min l limit"

lemma BoomerangLengths_ok:
  assumes "0 < n"
  shows "\<exists>ls. BoomerangLengths n sz limit = Inr ls \<and> length ls = n \<and>
     (\<forall>j < n. ls ! j = receipt_length sz limit j + (if j = n - 1 then 64 else 0))"
proof -
  let ?m = "min (limit + 1) n"
  define l0 where "l0 = (replicate n 0)[0 := sz]"
  define l1 where "l1 = foldl (\<lambda>ls l. ls[l := ls ! (l - 1) + 64]) l0 [1..<?m]"
  define l2 where "l2 = foldl (\<lambda>ls l. ls[l := ls ! (l - 1)]) l1 [limit + 1..<n]"
  have len0: "length l0 = n" by (simp add: l0_def)
  have z: "l0 ! 0 = sz" using assms by (simp add: l0_def)
  have one: "1 \<le> ?m" using assms by simp
  have len1: "length l1 = n" and nth1: "\<forall>j < n. l1 ! j = (if 1 \<le> j \<and> j < ?m then sz + 64 * j else l0 ! j)"
    using fold_up_nth [of 1 ?m l0 "\<lambda>x. x + 64"] one len0 z by (auto simp: l1_def funpow_add)
  have nth1': "l1 ! j = sz + 64 * j" if "j < ?m" for j
    using that nth1 z by (cases "j = 0") auto
  have l2: "length l2 = n \<and> (\<forall>j < n. l2 ! j = sz + 64 * min j limit)"
  proof (cases "limit + 1 \<le> n")
    case True
    have f: "length l2 = n" "\<forall>j < n. l2 ! j = (if limit + 1 \<le> j \<and> j < n then l1 ! limit else l1 ! j)"
      using fold_up_nth [of "limit + 1" n l1 "\<lambda>x. x"] True len1 by (auto simp: l2_def funpow_id)
    have "l2 ! j = sz + 64 * min j limit" if "j < n" for j
      using f(2) [rule_format, OF that] nth1' [of j] nth1' [of limit] True that
      by (cases "limit + 1 \<le> j") (simp_all add: min_def)
    then show ?thesis using f(1) by simp
  next
    case False
    then have "l2 = l1" "?m = n" by (simp_all add: l2_def)
    then show ?thesis using len1 nth1' False by (simp add: min_def)
  qed
  have "BoomerangLengths n sz limit = Inr (l2[n - 1 := l2 ! (n - 1) + 64])"
    using assms by (simp add: BoomerangLengths_def Let_def l2_def l1_def l0_def size_defs)
  then show ?thesis using l2 assms by (auto simp: receipt_length_def nth_list_update)
qed

text \<open>What travels on the wire is the receipt of its layer and the key it is opened with.\<close>

lemma WireBoomerangLengths_ok:
  assumes "0 < n"
  shows "\<exists>ls. WireBoomerangLengths n sz limit = Inr ls \<and> length ls = n \<and>
     (\<forall>j < n. ls ! j = receipt_length sz limit j + (if j = 0 then 0 else 32))"
proof -
  obtain ls where ls: "BoomerangLengths n sz limit = Inr ls" "length ls = n"
    "\<forall>j < n. ls ! j = receipt_length sz limit j + (if j = n - 1 then 64 else 0)"
    using BoomerangLengths_ok [OF assms] by blast
  let ?ls = "ls[n - 1 := ls ! (n - 1) - 64]"
  have "\<forall>j < n. ?ls ! j = receipt_length sz limit j" using ls assms by (auto simp: nth_list_update)
  moreover have "WireBoomerangLengths n sz limit = Inr (add_each 32 ?ls [1..<n])"
    using ls by (simp add: WireBoomerangLengths_def Let_def size_defs)
  moreover have "length (add_each 32 ?ls [1..<n]) = n \<and>
      (\<forall>j < n. add_each 32 ?ls [1..<n] ! j = (if j \<in> set [1..<n] then ?ls ! j + 32 else ?ls ! j))"
    using add_each_nth [of "[1..<n]" ?ls 32] ls(2) by simp
  ultimately show ?thesis by auto
qed

text \<open>The path-establishment onion, from the last layer inwards.\<close>

definition path_length :: "nat \<Rightarrow> nat \<Rightarrow> nat \<Rightarrow> nat \<Rightarrow> nat \<Rightarrow> nat" where
  "path_length ts n sz limit l =
     (\<Sum>i\<leftarrow>[l..<n]. 96 + ts + receipt_length sz limit i + (if i = n - 1 then 64 else 0))"

lemma fold_down_nth:
  assumes "length ls = Suc n" "ls ! n = 0" "m \<le> n"
  shows "length (foldl (\<lambda>ls l. ls[l := g l + ls ! (l + 1)]) ls (rev [m..<n])) = Suc n \<and>
     (\<forall>j \<le> n. m \<le> j \<longrightarrow> foldl (\<lambda>ls l. ls[l := g l + ls ! (l + 1)]) ls (rev [m..<n]) ! j = (\<Sum>i\<leftarrow>[j..<n]. g i :: nat))"
  using assms(3)
proof (induction rule: inc_induct)
  case base
  show ?case using assms by auto
next
  case (step m)
  let ?F = "foldl (\<lambda>ls l. ls[l := g l + ls ! (l + 1)]) ls"
  have "?F (rev [m..<n]) = (?F (rev [Suc m..<n]))[m := g m + ?F (rev [Suc m..<n]) ! Suc m]"
    using step.hyps by (simp add: upt_conv_Cons)
  moreover have "(\<Sum>i\<leftarrow>[m..<n]. g i) = g m + (\<Sum>i\<leftarrow>[Suc m..<n]. g i)"
    using step.hyps by (simp add: upt_conv_Cons)
  ultimately show ?case using step by (auto simp: nth_list_update)
qed

lemma PathEstablishmentLengths_ok:
  assumes "0 < n"
  shows "\<exists>ls. PathEstablishmentLengths M n sz limit = Inr ls \<and> length ls = n + 1 \<and>
     (\<forall>j \<le> n. ls ! j = 32 + TOKEN_SIZE M + path_length (TOKEN_SIZE M) n sz limit j)"
proof -
  obtain rl where rl: "BoomerangLengths n sz limit = Inr rl" "length rl = n"
    "\<forall>j < n. rl ! j = receipt_length sz limit j + (if j = n - 1 then 64 else 0)"
    using BoomerangLengths_ok [OF assms] by blast
  let ?g = "\<lambda>l. 96 + TOKEN_SIZE M + rl ! l"
  let ?ls = "foldl (\<lambda>ls l. ls[l := ?g l + ls ! (l + 1)]) (replicate (n + 1) 0) (rev [0..<n])"
  have ls: "length ?ls = Suc n" "\<forall>j \<le> n. ?ls ! j = (\<Sum>i\<leftarrow>[j..<n]. ?g i)"
    using fold_down_nth [of "replicate (n + 1) 0" n 0 ?g] nth_replicate [of n "n + 1" "0 :: nat"]
    by (simp_all del: replicate.simps nth_replicate)
  have "(\<Sum>i\<leftarrow>[j..<n]. ?g i) = path_length (TOKEN_SIZE M) n sz limit j" for j
    unfolding path_length_def using rl(3) by (intro arg_cong [where f = sum_list] map_cong) auto
  moreover have "PathEstablishmentLengths M n sz limit = Inr (add_each (32 + TOKEN_SIZE M) ?ls [0..<n + 1])"
    using rl ls(1) by (simp add: PathEstablishmentLengths_def Let_def size_defs POINT_SIZE_def algebra_simps)
  moreover have "length (add_each (32 + TOKEN_SIZE M) ?ls [0..<n + 1]) = n + 1 \<and>
      (\<forall>j < n + 1. add_each (32 + TOKEN_SIZE M) ?ls [0..<n + 1] ! j = ?ls ! j + (32 + TOKEN_SIZE M))"
    using add_each_nth [of "[0..<n + 1]" ?ls "32 + TOKEN_SIZE M"] ls(1) by simp
  ultimately show ?thesis using ls(2) by auto
qed

end
