(* ===== verification/Network.thy ===== *)
theory Network
  imports CommonState KeyTable
begin

text \<open>
  The network package: the in-memory connections of \<^verbatim>\<open>src/network/mockconn.go\<close>, the batch reader and the
  shuffled sender of \<^verbatim>\<open>batching.go\<close> and \<^verbatim>\<open>send_chunks.go\<close>, the reads of \<^verbatim>\<open>tls.go\<close>, and the caller of
  \<^verbatim>\<open>rpc_call.go\<close> with the copies of \<^verbatim>\<open>mockcall.go\<close>.

  A connection is a value of any type with a read and a write operation. \<open>rd c n\<close> is \<^verbatim>\<open>io.ReadFull\<close> of
  \<open>n\<close> bytes: \<open>None\<close> when it waits for ever, otherwise the connection afterwards, the bytes read and
  the error, if any. \<open>wr c b\<close> is \<^verbatim>\<open>Write\<close>: the connection afterwards, the number of bytes accepted and
  the error. The locale \<open>byte_stream\<close> states what the code relies on, and the channel of
  \<^verbatim>\<open>mockconn.go\<close> is its instance. A remote procedure call runs a handler \<open>handle\<close> on the state of the
  rest of the system; calls that the code makes in parallel are made in the order of the list.
\<close>

section \<open>Connections\<close>

type_synonym 'c read_op = "'c \<Rightarrow> nat \<Rightarrow> ('c \<times> bytes \<times> error option) option"
type_synonym 'c write_op = "'c \<Rightarrow> bytes \<Rightarrow> 'c \<times> nat \<times> error option"

text \<open>\<^verbatim>\<open>MockChan\<close>: the content of its buffer. A read waits until the buffer holds enough.\<close>

type_synonym mock_chan = bytes

definition mock_Read :: "mock_chan read_op" where
  "mock_Read c n = (if length c < n then None else Some (drop n c, take n c, None))"

definition mock_Write :: "mock_chan write_op" where
  "mock_Write c b = (c @ b, length b, None)"

text \<open>A write that accepts nothing and reports no error is tried again for ever.\<close>

partial_function (option) send_loop :: "'c write_op \<Rightarrow> 'c \<Rightarrow> bytes \<Rightarrow> nat \<Rightarrow> ('c \<times> error option) option" where
  "send_loop wr c b written =
     (if written < length b then
        case wr c (drop written b) of
          (c', n, Some e) \<Rightarrow> Some (c', Some e)
        | (c', n, None) \<Rightarrow> send_loop wr c' b (written + n)
      else Some (c, None))"

definition send :: "'c write_op \<Rightarrow> 'c \<Rightarrow> bytes \<Rightarrow> ('c \<times> error option) option" where
  "send wr c b = send_loop wr c b 0"

record connection_reader =
  cn_numMessages :: nat
  cn_messageSize :: nat
  cn_baseBatchSize :: nat
  cn_Signature :: bytes
  cn_Buff :: "bytes list"
  cn_Err :: "error option"

definition NewConnectionReader :: "nat \<Rightarrow> nat \<Rightarrow> nat \<Rightarrow> connection_reader" where
  "NewConnectionReader numMessages messageSize baseBatchSize =
     \<lparr>cn_numMessages = numMessages, cn_messageSize = messageSize,
      cn_baseBatchSize = (if baseBatchSize = 0 then 1 else baseBatchSize),
      cn_Signature = zeros SIGNATURE_SIZE, cn_Buff = [], cn_Err = None\<rparr>"

text \<open>The loop of \<^verbatim>\<open>ContinuousReader\<close>; \<open>left\<close> is \<^verbatim>\<open>numMessages - i\<close>. The messages are put into the channel
  \<^verbatim>\<open>Buff\<close> in the order of the list \<open>cn_Buff\<close>.\<close>

function read_batches ::
  "'c read_op \<Rightarrow> nat \<Rightarrow> nat \<Rightarrow> 'c \<Rightarrow> nat \<Rightarrow> bytes list \<Rightarrow> ('c \<times> bytes list \<times> error option) option" where
  "read_batches rd sz batch c left acc =
     (if left = 0 then Some (c, acc, None)
      else if batch = 0 then None
      else
        let k = (if left < batch then left else batch) in
        case rd c (sz * k) of
          None \<Rightarrow> None
        | Some (c', b, Some e) \<Rightarrow> Some (c', acc, Some e)
        | Some (c', b, None) \<Rightarrow> read_batches rd sz batch c' (left - k) (acc @ chunks sz b))"
  by pat_completeness auto
termination
  by (relation "measure (\<lambda>(rd, sz, batch, c, left, acc). left)") auto

declare read_batches.simps [simp del]

text \<open>The error of the last read is dropped; the signature buffer then keeps what was read.\<close>

definition ContinuousReader :: "'c read_op \<Rightarrow> 'c \<Rightarrow> connection_reader \<Rightarrow> ('c \<times> connection_reader) option" where
  "ContinuousReader rd conn c =
     (case read_batches rd (cn_messageSize c) (cn_baseBatchSize c) conn (cn_numMessages c) [] of
        None \<Rightarrow> None
      | Some (conn', ms, Some e) \<Rightarrow> Some (conn', c\<lparr>cn_Buff := ms, cn_Err := Some e\<rparr>)
      | Some (conn', ms, None) \<Rightarrow>
          (case rd conn' SIGNATURE_SIZE of
             None \<Rightarrow> None
           | Some (conn'', s, e) \<Rightarrow> Some (conn'', c\<lparr>cn_Buff := ms, cn_Signature := go_copy (cn_Signature c) s\<rparr>)))"

definition CheckSignature :: "('s, 'p) lib \<Rightarrow> connection_reader \<Rightarrow> bytes \<Rightarrow> verification_key \<Rightarrow> bool" where
  "CheckSignature L c h vk = PreHashVerify L h vk (cn_Signature c)"

definition CalculateBatchSize :: "nat \<Rightarrow> nat \<Rightarrow> nat" where
  "CalculateBatchSize readSize messageSize =
     (if messageSize \<ge> readSize \<or> messageSize = 0 then 1 else readSize div messageSize)"

definition ReadMetadata :: "'c read_op \<Rightarrow> 'c \<Rightarrow> ('c \<times> (metadata \<times> bytes) res) option" where
  "ReadMetadata rd conn =
     (case rd conn Metadata_size of
        None \<Rightarrow> None
      | Some (conn', m, Some e) \<Rightarrow> Some (conn', Inl (Err e))
      | Some (conn', m, None) \<Rightarrow> Some (conn', sbind (metadata_InterpretFrom m) (\<lambda>md. Inr (md, m))))"

definition ReadReverse :: "'c read_op \<Rightarrow> 'c \<Rightarrow> nat \<Rightarrow> ('c \<times> signed_message res) option" where
  "ReadReverse rd conn len =
     (let sm = NewSignedMessage len 0 0 0 0 0 0 0 in
      case rd conn (length (sm_Raw sm)) of
        None \<Rightarrow> None
      | Some (conn', raw, Some e) \<Rightarrow> Some (conn', Inl (Err e))
      | Some (conn', raw, None) \<Rightarrow>
          Some (conn', sbind (slice raw 0 Metadata_size) (\<lambda>h. sbind (metadata_InterpretFrom h) (\<lambda>md.
            Inr (sm\<lparr>sm_Metadata := md, sm_Raw := raw, sm_Signature := drop (length raw - SIGNATURE_SIZE) raw\<rparr>)))))"

section \<open>Shuffled sending\<close>

definition net_PreHashSign :: "('s, 'p) lib \<Rightarrow> signing_key \<Rightarrow> signed_message \<Rightarrow> signed_message res" where
  "net_PreHashSign L key m =
     sbind (GetSignedData m) (\<lambda>(m', d). Inr (m'\<lparr>sm_Signature := PreHashSign L d key\<rparr>))"

text \<open>The state of a sender: the outgoing buffers, the shufflers they share by index, the connections.\<close>

record ('r, 'c) sender =
  sn_bufs :: out_buffers
  sn_shufs :: "'r shuffler list"
  sn_conns :: "'c list"

text \<open>One message of all elements of a buffer: shuffle, read the whole buffer, sign.\<close>

definition pack_link ::
  "('s, 'p) lib \<Rightarrow> 'r reader \<Rightarrow> signing_key \<Rightarrow> metadata \<Rightarrow> int \<Rightarrow> int \<Rightarrow> bool \<Rightarrow>
     mem_read_writer \<Rightarrow> 'r shuffler \<Rightarrow> (mem_read_writer \<times> 'r shuffler \<times> bytes) res" where
  "pack_link L srd key m gid dest dummies f sh =
     sbind (Shuffle srd sh f dummies) (\<lambda>(f, sh).
       let sm = NewSignedMessage (Len f) (md_Round m) (md_Layer m) (md_Sender m) gid dest (int (NumMessages f)) (md_Type m) in
       sbind (ReadNextChunk f (sm_Data sm)) (\<lambda>(f, d, r).
       sbind (net_PreHashSign L key ((fill_data sm d)\<lparr>sm_len := r\<rparr>)) (\<lambda>sm.
       sbind (AsArray sm) (\<lambda>(sm, a). Inr (f, sh, a)))))"

fun SendSignedMessageChunks ::
  "('s, 'p) lib \<Rightarrow> 'r reader \<Rightarrow> 'c write_op \<Rightarrow> signing_key \<Rightarrow> metadata \<Rightarrow> nat list \<Rightarrow> ('r, 'c) sender \<Rightarrow>
     (('r, 'c) sender \<times> unit res) option" where
  "SendSignedMessageChunks L srd wr key m [] s = Some (s, Inr ())"
| "SendSignedMessageChunks L srd wr key m (sid # jobs) s =
     (if sid < length (sn_bufs s) \<and> sid < length (sn_shufs s) \<and> sid < length (sn_conns s) then
        case pack_link L srd key m 0 (int sid) (\<not> NoDummies) (sn_bufs s ! sid) (sn_shufs s ! sid) of
          Inl e \<Rightarrow> Some (s, Inl e)
        | Inr (f, sh, a) \<Rightarrow>
            (case send wr (sn_conns s ! sid) a of
               None \<Rightarrow> None
             | Some (c, e) \<Rightarrow>
                 let s' = s\<lparr>sn_bufs := (sn_bufs s)[sid := f], sn_shufs := (sn_shufs s)[sid := sh],
                            sn_conns := (sn_conns s)[sid := c]\<rparr> in
                 case e of Some err \<Rightarrow> Some (s', Inl (Err err))
                 | None \<Rightarrow> SendSignedMessageChunks L srd wr key m jobs s')
      else Some (s, Inl (Panic NilDereference)))"

text \<open>The recipients, in the order \<^verbatim>\<open>GetJobs\<close> gives them.\<close>

definition GetJobs :: "nat list \<Rightarrow> nat list" where
  "GetJobs ServersSortedByLatency = rev ServersSortedByLatency"

definition SendShuffleMessages ::
  "('s, 'p) lib \<Rightarrow> 'r reader \<Rightarrow> 'c write_op \<Rightarrow> signing_key \<Rightarrow> nat list \<Rightarrow> ('s, 'p, 'g2, 'r) common_state \<Rightarrow>
     int \<Rightarrow> message_type \<Rightarrow> ('r, 'c) sender \<Rightarrow> (('r, 'c) sender \<times> unit res) option" where
  "SendShuffleMessages L srd wr key byLatency common layer t s =
     SendSignedMessageChunks L srd wr key
       \<lparr>md_Type = t, md_Round = cs_Round common, md_Layer = layer, md_Sender = cs_MyId common, md_Dest = 0,
        md_Group = 0, md_NumMessages = int (cs_BinSize common) mod 2 ^ 32\<rparr>
       (GetJobs byLatency) s"

text \<open>The workers of \<^verbatim>\<open>CreateGroupMessages\<close> each take the indices of one remainder; every index is taken
  once, and the buffers of different indices are independent.\<close>

fun group_messages ::
  "('s, 'p) lib \<Rightarrow> 'r reader \<Rightarrow> signing_key \<Rightarrow> metadata \<Rightarrow> nat \<Rightarrow> out_buffers \<Rightarrow> 'r shuffler list \<Rightarrow>
     (out_buffers \<times> 'r shuffler list \<times> nat list \<times> bytes list) res" where
  "group_messages L srd key m j [] shufs = Inr ([], shufs, [], [])"
| "group_messages L srd key m j (f # fs) shufs =
     sbind (go_index shufs j) (\<lambda>sh. sbind (pack_link L srd key m (int j) 0 False f sh) (\<lambda>(f', sh', a).
     sbind (group_messages L srd key m (Suc j) fs (shufs[j := sh'])) (\<lambda>(fs', shufs', counts, as).
       Inr (f' # fs', shufs', NumMessages f' # counts, a # as))))"

definition CreateGroupMessages ::
  "('s, 'p) lib \<Rightarrow> 'r reader \<Rightarrow> ('s, 'p, 'g2, 'r) common_state \<Rightarrow> message_type \<Rightarrow> out_buffers \<Rightarrow> 'r shuffler list \<Rightarrow>
     (out_buffers \<times> 'r shuffler list \<times> nat list \<times> bytes list) res" where
  "CreateGroupMessages L srd c t bufs shufs =
     group_messages L srd (cs_SecretSigningKey c)
       \<lparr>md_Type = t, md_Round = cs_Round c, md_Layer = cs_Layer c, md_Sender = cs_MyId c, md_Dest = 0,
        md_Group = 0, md_NumMessages = 0\<rparr> 0 bufs shufs"

fun send_to_members ::
  "'c write_op \<Rightarrow> int list list \<Rightarrow> bytes list \<Rightarrow> nat list \<Rightarrow> 'c list \<Rightarrow> ('c list \<times> unit res) option" where
  "send_to_members wr reverseGroups groupMessages [] conns = Some (conns, Inr ())"
| "send_to_members wr reverseGroups groupMessages (sid # jobs) conns =
     (if \<not> sid < length reverseGroups then Some (conns, Inl (Panic IndexOutOfRange))
      else case map_res (go_index_int groupMessages) (reverseGroups ! sid) of
        Inl e \<Rightarrow> Some (conns, Inl e)
      | Inr bs \<Rightarrow>
          if \<not> sid < length conns then Some (conns, Inl (Panic IndexOutOfRange))
          else (case send wr (conns ! sid) (concat bs) of
             None \<Rightarrow> None
           | Some (c, Some err) \<Rightarrow> Some (conns[sid := c], Inl (Err err))
           | Some (c, None) \<Rightarrow> send_to_members wr reverseGroups groupMessages jobs (conns[sid := c])))"

definition SendGroupShuffleMessages ::
  "('s, 'p) lib \<Rightarrow> 'r reader \<Rightarrow> 'c write_op \<Rightarrow> nat list \<Rightarrow> int list list \<Rightarrow> ('s, 'p, 'g2, 'r) common_state \<Rightarrow>
     message_type \<Rightarrow> ('r, 'c) sender \<Rightarrow> (('r, 'c) sender \<times> nat list res) option" where
  "SendGroupShuffleMessages L srd wr byLatency reverseGroups common t s =
     (case CreateGroupMessages L srd common t (sn_bufs s) (sn_shufs s) of
        Inl e \<Rightarrow> Some (s, Inl e)
      | Inr (bufs, shufs, counts, msgs) \<Rightarrow>
          (case send_to_members wr reverseGroups msgs (GetJobs byLatency) (sn_conns s) of
             None \<Rightarrow> None
           | Some (conns, r) \<Rightarrow>
               Some (s\<lparr>sn_bufs := bufs, sn_shufs := shufs, sn_conns := conns\<rparr>, sbind r (\<lambda>_. Inr counts))))"

section \<open>Remote calls\<close>

record skip_path_gen_message =
  sp_SendingKey :: bytes
  sp_Layer :: int
  sp_SendingServer :: int
  sp_ForwardingServer :: int
  sp_ForwardKey :: bytes
  sp_Group :: int

text \<open>What the other servers do with a call, on the state \<open>'n\<close> of the rest of the system. The reply
  \<open>None\<close> is a nil message.\<close>

record 'n remote =
  rm_handle :: "'n \<Rightarrow> nat \<Rightarrow> network_message \<Rightarrow> 'n \<times> network_message option res"
  rm_skip :: "'n \<Rightarrow> nat \<Rightarrow> skip_path_gen_message \<Rightarrow> 'n \<times> unit res"

record caller =
  ca_mock :: bool
  ca_size :: nat
  ca_Groups :: "(nat \<times> nat) list list"
  ca_ReverseGroups :: "int list list"
  ca_ServersSortedByLatency :: "nat list"

definition copyMessage :: "network_message \<Rightarrow> network_message" where
  "copyMessage m =
     \<lparr>nm_MessageType = nm_MessageType m, nm_Data = go_copy (zeros (length (nm_Data m))) (nm_Data m),
      nm_Signature = go_copy (zeros (length (nm_Signature m))) (nm_Signature m)\<rparr>"

fun add_members :: "nat \<Rightarrow> nat \<Rightarrow> int list \<Rightarrow> (nat \<times> nat) list list \<Rightarrow> int list list \<Rightarrow> ((nat \<times> nat) list list \<times> int list list) res" where
  "add_members k idx [] gs rgs = Inr (gs, rgs)"
| "add_members k idx (sid # sids) gs rgs =
     (if 0 \<le> sid \<and> sid < int (length rgs)
      then add_members k (Suc idx) sids (gs[k := gs ! k @ [(idx, nat sid)]]) (rgs[nat sid := rgs ! nat sid @ [int k]])
      else Inl (Panic IndexOutOfRange))"

fun add_groups :: "group_configs \<Rightarrow> (nat \<times> nat) list list \<Rightarrow> int list list \<Rightarrow> ((nat \<times> nat) list list \<times> int list list) res" where
  "add_groups [] gs rgs = Inr (gs, rgs)"
| "add_groups ((k, servers) # rest) gs rgs =
     (if 0 \<le> k \<and> k < int (length gs)
      then sbind (add_members (nat k) 0 servers (gs[nat k := []]) rgs) (\<lambda>(gs', rgs'). add_groups rest gs' rgs')
      else Inl (Panic IndexOutOfRange))"

definition SetGroups :: "group_configs \<Rightarrow> caller \<Rightarrow> caller res" where
  "SetGroups groups c =
     (let numServers = foldl (\<lambda>n sid. if sid > n then sid else n) 0 (concat (map snd groups)) in
      sbind (add_groups groups (replicate (length groups) []) (replicate (nat numServers + 1) [])) (\<lambda>(gs, rgs).
        Inr (c\<lparr>ca_Groups := gs, ca_ReverseGroups := rgs\<rparr>)))"

definition SendNetworkMessage ::
  "'n remote \<Rightarrow> caller \<Rightarrow> 'n \<Rightarrow> int \<Rightarrow> network_message \<Rightarrow> 'n \<times> signed_message option res" where
  "SendNetworkMessage R c n dest message =
     (if \<not> (0 \<le> dest \<and> dest < int (ca_size c)) then (n, Inl (Panic IndexOutOfRange))
      else case rm_handle R n (nat dest) (if ca_mock c then copyMessage message else message) of
          (n', Inl e) \<Rightarrow> (n', Inl e)
        | (n', Inr None) \<Rightarrow> (n', Inr None)
        | (n', Inr (Some resp)) \<Rightarrow> (n', Inr (ParseSignedMessage (if ca_mock c then copyMessage resp else resp))))"

definition SendSignedMessage ::
  "'n remote \<Rightarrow> caller \<Rightarrow> 'n \<Rightarrow> int \<Rightarrow> signed_message \<Rightarrow> 'n \<times> signed_message option res" where
  "SendSignedMessage R c n dest message =
     (case AsNetworkMessage message of Inl e \<Rightarrow> (n, Inl e) | Inr nm \<Rightarrow> SendNetworkMessage R c n dest nm)"

fun send_group ::
  "'n remote \<Rightarrow> caller \<Rightarrow> signed_message \<Rightarrow> (nat \<times> nat) list \<Rightarrow> 'n \<Rightarrow> signed_message option list \<Rightarrow>
     'n \<times> signed_message option list \<times> unit res" where
  "send_group R c m [] n rs = (n, rs, Inr ())"
| "send_group R c m ((i, dest) # g) n rs =
     (case SendSignedMessage R c n (int dest) m of
        (n', Inr resp) \<Rightarrow> send_group R c m g n' (rs[i := resp])
      | (n', Inl e) \<Rightarrow> (case send_group R c m g n' rs of (n'', rs', _) \<Rightarrow> (n'', rs', Inl e)))"

definition SendToGroup ::
  "'n remote \<Rightarrow> caller \<Rightarrow> 'n \<Rightarrow> int \<Rightarrow> signed_message \<Rightarrow> 'n \<times> signed_message option list res" where
  "SendToGroup R c n groupNumber message =
     (case go_index_int (ca_Groups c) groupNumber of
        Inl e \<Rightarrow> (n, Inl e)
      | Inr g \<Rightarrow> (case send_group R c message g n (replicate (length g) None) of
            (n', rs, r) \<Rightarrow> (n', sbind r (\<lambda>_. Inr rs))))"

definition skip_one ::
  "'n remote \<Rightarrow> caller \<Rightarrow> 'n \<Rightarrow> skip_path_gen_message \<Rightarrow> int \<Rightarrow> 'n \<times> unit res" where
  "skip_one R c n s dest =
     (if \<not> (0 \<le> dest \<and> dest < int (ca_size c)) then (n, Inl (Panic IndexOutOfRange))
      else case rm_skip R n (nat dest) s of
          (n', Inl (Panic p)) \<Rightarrow> (n', Inl (Panic p))
        | (n', r) \<Rightarrow> (n', if ca_mock c then Inr () else r))"

fun skip_all ::
  "'n remote \<Rightarrow> caller \<Rightarrow> skip_path_gen_message \<Rightarrow> (nat \<times> nat) list \<Rightarrow> 'n \<Rightarrow> 'n \<times> unit res" where
  "skip_all R c s [] n = (n, Inr ())"
| "skip_all R c s ((i, dest) # g) n =
     (case skip_one R c n s (int dest) of (n', Inl e) \<Rightarrow> (n', Inl e) | (n', Inr _) \<Rightarrow> skip_all R c s g n')"

definition caller_SkipPathGen ::
  "'n remote \<Rightarrow> caller \<Rightarrow> 'n \<Rightarrow> skip_path_gen_message \<Rightarrow> int \<Rightarrow> bool \<Rightarrow> 'n \<times> unit res" where
  "caller_SkipPathGen R c n s dest grp =
     (if grp then
        (case go_index_int (ca_Groups c) (sp_Group s) of Inl e \<Rightarrow> (n, Inl e) | Inr g \<Rightarrow> skip_all R c s g n)
      else skip_one R c n s dest)"

section \<open>Lemmas on streams\<close>

locale byte_stream =
  fixes rd :: "'c read_op" and wr :: "'c write_op" and pending :: "'c \<Rightarrow> bytes"
  assumes read_pending: "n \<le> length (pending c) \<Longrightarrow>
      \<exists>c'. rd c n = Some (c', take n (pending c), None) \<and> pending c' = drop n (pending c)"
    and write_pending: "b \<noteq> [] \<Longrightarrow>
      \<exists>c' n. wr c b = (c', n, None) \<and> 0 < n \<and> n \<le> length b \<and> pending c' = pending c @ take n b"
begin

lemma send_loop_ok:
  "written \<le> length b \<Longrightarrow>
     \<exists>c'. send_loop wr c b written = Some (c', None) \<and> pending c' = pending c @ drop written b"
proof (induction "length b - written" arbitrary: c written rule: less_induct)
  case less
  show ?case
  proof (cases "written < length b")
    case False
    then show ?thesis by (subst send_loop.simps) simp
  next
    case True
    then obtain c1 n where w: "wr c (drop written b) = (c1, n, None)" "0 < n" "n \<le> length b - written"
      "pending c1 = pending c @ take n (drop written b)" using write_pending [of "drop written b" c] by auto
    obtain c2 where c2: "send_loop wr c1 b (written + n) = Some (c2, None)"
      "pending c2 = pending c1 @ drop (written + n) b"
    proof -
      have "length b - (written + n) < length b - written" "written + n \<le> length b"
        using w(2,3) True by linarith+
      from less.hyps [OF this, of c1] that show ?thesis by blast
    qed
    have "take n (drop written b) @ drop (written + n) b = drop written b"
      using append_take_drop_id [of n "drop written b"] by (simp add: add.commute)
    then show ?thesis using True w(1,4) c2 by (subst send_loop.simps) simp
  qed
qed

text \<open>A send returns, and has handed over exactly the bytes.\<close>

lemma send_ok: "\<exists>c'. send wr c b = Some (c', None) \<and> pending c' = pending c @ b"
  using send_loop_ok [of 0 b c] by (simp add: send_def)

lemma read_batches_ok:
  assumes "0 < sz" "0 < batch" "pending c = concat ms @ rest" "\<forall>x \<in> set ms. length x = sz"
  shows "\<exists>c'. read_batches rd sz batch c (length ms) acc = Some (c', acc @ ms, None) \<and> pending c' = rest"
  using assms(3,4)
proof (induction "length ms" arbitrary: c ms acc rule: less_induct)
  case less
  show ?case
  proof (cases "ms = []")
    case True
    then show ?thesis using less.prems by (subst read_batches.simps) simp
  next
    case False
    define k where "k = (if length ms < batch then length ms else batch)"
    have k: "0 < k" "k \<le> length ms" using False assms(2) by (simp_all add: k_def)
    have len: "length (concat (take k ms)) = sz * k"
    proof -
      have "\<forall>x \<in> set (take k ms). length x = sz" using less.prems(2) by (auto dest: in_set_takeD)
      from length_concat_const [OF this] k show ?thesis by simp
    qed
    have split: "concat ms @ rest = concat (take k ms) @ concat (drop k ms) @ rest"
      by (metis append.assoc append_take_drop_id concat_append)
    obtain c1 where c1: "rd c (sz * k) = Some (c1, concat (take k ms), None)"
      "pending c1 = concat (drop k ms) @ rest"
      using read_pending [of "sz * k" c] less.prems(1) len split by auto
    have ch: "chunks sz (concat (take k ms)) = take k ms"
      using less.prems(2) assms(1) by (intro chunks_concat) (auto dest: in_set_takeD)
    obtain c2 where c2: "read_batches rd sz batch c1 (length (drop k ms)) (acc @ take k ms) =
        Some (c2, (acc @ take k ms) @ drop k ms, None)" "pending c2 = rest"
      using less.hyps [of "drop k ms" c1 "acc @ take k ms"] c1(2) less.prems(2) k False
      by (auto dest: in_set_dropD)
    have "read_batches rd sz batch c (length ms) acc =
        read_batches rd sz batch c1 (length ms - k) (acc @ chunks sz (concat (take k ms)))"
      using False assms(2) c1(1) by (subst read_batches.simps) (simp add: Let_def flip: k_def)
    then show ?thesis using ch c2 by simp
  qed
qed

lemma ContinuousReader_ok:
  assumes "0 < sz" "pending c = concat ms @ s @ rest" "\<forall>x \<in> set ms. length x = sz" "length s = 64"
  shows "\<exists>c' r. ContinuousReader rd c (NewConnectionReader (length ms) sz batch) = Some (c', r) \<and>
     cn_Buff r = ms \<and> cn_Signature r = s \<and> cn_Err r = None \<and> pending c' = rest"
proof -
  let ?r = "NewConnectionReader (length ms) sz batch"
  have "0 < cn_baseBatchSize ?r" by (simp add: NewConnectionReader_def)
  from read_batches_ok [OF assms(1) this assms(2,3), of "[]"] obtain c1 where
    c1: "read_batches rd sz (cn_baseBatchSize ?r) c (length ms) [] = Some (c1, ms, None)"
      "pending c1 = s @ rest" by auto
  obtain c2 where "rd c1 64 = Some (c2, s, None)" "pending c2 = rest"
    using read_pending [of 64 c1] c1(2) assms(4) by auto
  then show ?thesis using c1(1) assms(4)
    by (simp add: ContinuousReader_def NewConnectionReader_def size_defs)
qed

lemma ReadMetadata_ok:
  assumes "pending c = metadata_bytes m @ rest"
  shows "\<exists>c' md. ReadMetadata rd c = Some (c', Inr (md, metadata_bytes m)) \<and>
     metadata_InterpretFrom (metadata_bytes m) = Inr md \<and> pending c' = rest"
proof -
  obtain c' where "rd c 28 = Some (c', metadata_bytes m, None)" "pending c' = rest"
    using read_pending [of 28 c] assms by auto
  moreover obtain md where "metadata_InterpretFrom (metadata_bytes m) = Inr md"
    using metadata_read_back [of m "[]"] by auto
  ultimately show ?thesis by (auto simp: ReadMetadata_def Metadata_size_def)
qed

end

interpretation mock: byte_stream mock_Read mock_Write "\<lambda>c. c"
  by unfold_locales (auto simp: mock_Read_def mock_Write_def)

section \<open>Lemmas on sending\<close>

text \<open>Prehashed signatures verify under the key of the signer.\<close>

definition ph_ok :: "('s, 'p) lib \<Rightarrow> bool" where
  "ph_ok L \<longleftrightarrow> (\<forall>k h. length (ph_sign L k h) = SIGNATURE_SIZE \<and> ph_verify L (ed_public L k) h (ph_sign L k h))"

lemma toy_ph_ok: "ph_ok toy_lib"
  by (simp add: ph_ok_def toy_lib_def toy_public_def size_defs)

lemma ph_okD:
  assumes "ph_ok L"
  shows "length (PreHashSign L d k) = 64" "PreHashVerify L d (ed_public L k) (PreHashSign L d k)"
  using assms by (simp_all add: ph_ok_def PreHashSign_def PreHashVerify_def size_defs)

text \<open>The header a link message has.\<close>

definition link_header :: "metadata \<Rightarrow> int \<Rightarrow> int \<Rightarrow> nat \<Rightarrow> metadata" where
  "link_header m gid dest cnt = m\<lparr>md_Dest := dest, md_Group := to_int32 gid, md_NumMessages := int cnt mod 2 ^ 32\<rparr>"

lemma signed_array:
  assumes "ph_ok L" "length d = n"
  shows "sbind (net_PreHashSign L key ((fill_data (NewSignedMessage n round layer sender gid dest cnt t) d)\<lparr>sm_len := n\<rparr>)) AsArray =
     (let h = metadata_bytes (sm_Metadata (NewSignedMessage n round layer sender gid dest cnt t)); s = PreHashSign L (h @ d) key in
      Inr (\<lparr>sm_Metadata = sm_Metadata (NewSignedMessage n round layer sender gid dest cnt t),
            sm_Raw = h @ d @ s, sm_len = n, sm_Signature = s\<rparr>, h @ d @ s))"
proof -
  let ?m = "NewSignedMessage n round layer sender gid dest cnt t"
  let ?m1 = "(fill_data ?m d)\<lparr>sm_len := n\<rparr>" and ?h = "metadata_bytes (sm_Metadata ?m)"
  let ?s = "PreHashSign L (?h @ d) key"
  have raw1: "sm_Raw ?m1 = zeros 28 @ d @ zeros 64" and md: "sm_Metadata ?m1 = sm_Metadata ?m"
    using assms(2) by (simp_all add: fill_data_def NewSignedMessage_def copy_at_def go_copy_def zeros_def
        Metadata_size_def size_defs)
  have "28 + sm_len ?m1 \<le> length (sm_Raw ?m1)" using raw1 assms(2) by simp
  from GetSignedData_ok [OF this] raw1 md assms(2)
  have "GetSignedData ?m1 = Inr (?m1\<lparr>sm_Raw := ?h @ d @ zeros 64\<rparr>, ?h @ d)"
    by (simp add: sm_Data_def Metadata_size_def zeros_def)
  moreover have "copy_at (?h @ d @ zeros 64) (n + 28) ?s = ?h @ d @ ?s"
    using copy_at_append [of "?h @ d" "n + 28" ?s "zeros 64" "[]"] assms(2) ph_okD(1) [OF assms(1)] by simp
  moreover have "slice (?h @ d @ ?s) 0 (n + 28 + 64) = Inr (?h @ d @ ?s)"
    using assms(2) ph_okD(1) [OF assms(1)] by (simp add: slice_def)
  ultimately show ?thesis
    using md assms(2) ph_okD(1) [OF assms(1)]
    by (simp add: net_PreHashSign_def AsArray_def Let_def Metadata_size_def size_defs)
qed

lemma sm_Data_new [simp]: "sm_Data (NewSignedMessage n round layer sender gid dest cnt t) = zeros n"
  by (simp add: sm_Data_def NewSignedMessage_def zeros_def)

lemma pack_link_ok:
  assumes "ph_ok L" "filling f" "shuffler_ok srd sh" "numElements f < 2 ^ 32"
  shows "\<exists>f' sh' ms. pack_link L srd key m gid dest dummies f sh = Inr (f', sh',
       metadata_bytes (link_header m gid dest (elementCount f)) @ concat ms @
       PreHashSign L (metadata_bytes (link_header m gid dest (elementCount f)) @ concat ms) key) \<and>
     shuffler_ok srd sh' \<and> (\<forall>x \<in> set ms. length x = elementLength f) \<and>
     mset ms = mset (contents f) +
       (if dummies then replicate_mset (numElements f - elementCount f) (zeros (elementLength f)) else {#})"
proof -
  obtain m' sh' r' ms where ms: "Shuffle srd sh f dummies = Inr (m', sh')" "shuffler_ok srd sh'"
    "elementCount m' = elementCount f" "ReadNextChunk m' (zeros (Len m')) = Inr (r', concat ms, Len m')"
    "Len m' = length ms * elementLength f" "\<forall>x \<in> set ms. length x = elementLength f"
    "mset ms = mset (contents f) +
       (if dummies then replicate_mset (numElements f - elementCount f) (zeros (elementLength f)) else {#})"
    using shuffled_stream [OF assms(2-4)] by blast
  have len: "length (concat ms) = Len m'" using length_concat_const [OF ms(6)] ms(5) by simp
  have h: "sm_Metadata (NewSignedMessage (Len m') (md_Round m) (md_Layer m) (md_Sender m) gid dest (int (elementCount f)) (md_Type m)) =
      link_header m gid dest (elementCount f)"
    by (simp add: NewSignedMessage_def link_header_def)
  note sa = signed_array [OF assms(1) len, of key "md_Round m" "md_Layer m" "md_Sender m" gid dest "int (elementCount f)" "md_Type m"]
  obtain sm where sm: "net_PreHashSign L key ((fill_data (NewSignedMessage (Len m') (md_Round m) (md_Layer m) (md_Sender m) gid dest
      (int (elementCount f)) (md_Type m)) (concat ms))\<lparr>sm_len := Len m'\<rparr>) = Inr sm" and arr: "\<exists>sm'. AsArray sm = Inr (sm',
       metadata_bytes (link_header m gid dest (elementCount f)) @ concat ms @
       PreHashSign L (metadata_bytes (link_header m gid dest (elementCount f)) @ concat ms) key)"
    using sa unfolding h Let_def by auto
  show ?thesis
    using ms sm arr unfolding pack_link_def ms(1)
    by (intro exI [of _ r'] exI [of _ sh'] exI [of _ ms]) (auto simp: Let_def NumMessages_def)
qed

text \<open>What the receiver of a link message finds.\<close>

definition receive_link ::
  "('s, 'p) lib \<Rightarrow> 'c read_op \<Rightarrow> nat \<Rightarrow> nat \<Rightarrow> verification_key \<Rightarrow> 'c \<Rightarrow> ('c \<times> metadata \<times> bytes list \<times> bool) option" where
  "receive_link L rd sz batch vk conn =
     (case ReadMetadata rd conn of
        Some (conn', Inr (md, raw)) \<Rightarrow>
          (case ContinuousReader rd conn' (NewConnectionReader (nat (md_NumMessages md)) sz batch) of
             Some (conn'', r) \<Rightarrow>
               Some (conn'', md, cn_Buff r, cn_Err r = None \<and> CheckSignature L r (raw @ concat (cn_Buff r)) vk)
           | None \<Rightarrow> None)
      | _ \<Rightarrow> None)"

context byte_stream
begin

lemma receive_link_ok:
  assumes "ph_ok L" "0 < sz" "\<forall>x \<in> set ms. length x = sz" "length ms < 2 ^ 32"
    and "pending c = metadata_bytes m @ concat ms @ PreHashSign L (metadata_bytes m @ concat ms) key @ rest"
    and "md_NumMessages m = int (length ms)"
  shows "\<exists>c' md. receive_link L rd sz batch (ed_public L key) c = Some (c', md, ms, True) \<and> pending c' = rest \<and>
     metadata_InterpretFrom (metadata_bytes m) = Inr md"
proof -
  from ReadMetadata_ok [OF assms(5)] obtain c1 md where c1: "ReadMetadata rd c = Some (c1, Inr (md, metadata_bytes m))"
    "metadata_InterpretFrom (metadata_bytes m) = Inr md"
    "pending c1 = concat ms @ PreHashSign L (metadata_bytes m @ concat ms) key @ rest" by blast
  have "md_NumMessages md = int (length ms)"
    using c1(2) metadata_read_back [of m "[]"] assms(4,6) by auto
  then have n: "nat (md_NumMessages md) = length ms" by simp
  from ContinuousReader_ok [OF assms(2) c1(3) assms(3) ph_okD(1) [OF assms(1)], of batch] obtain c2 r where
    "ContinuousReader rd c1 (NewConnectionReader (length ms) sz batch) = Some (c2, r)" "cn_Buff r = ms" "cn_Err r = None"
    "cn_Signature r = PreHashSign L (metadata_bytes m @ concat ms) key" "pending c2 = rest" by blast
  then show ?thesis using c1 n ph_okD(2) [OF assms(1)]
    by (simp add: receive_link_def CheckSignature_def)
qed

text \<open>A buffer packed, sent over the connection and received.\<close>

lemma link_delivery:
  assumes "ph_ok L" "filling f" "shuffler_ok srd sh" "numElements f < 2 ^ 32" "0 < elementLength f" "pending c = []"
    and "pack_link L srd key m gid dest False f sh = Inr (f', sh', a)"
  shows "\<exists>c' c'' md ms. send wr c a = Some (c', None) \<and>
     receive_link L rd (elementLength f) batch (ed_public L key) c' = Some (c'', md, ms, True) \<and> pending c'' = [] \<and>
     mset ms = mset (contents f) \<and>
     metadata_InterpretFrom (metadata_bytes (link_header m gid dest (elementCount f))) = Inr md"
proof -
  let ?h = "link_header m gid dest (elementCount f)"
  obtain ms where ms: "a = metadata_bytes ?h @ concat ms @ PreHashSign L (metadata_bytes ?h @ concat ms) key"
    "\<forall>x \<in> set ms. length x = elementLength f" "mset ms = mset (contents f)"
    using pack_link_ok [OF assms(1-4), of key m gid dest False] assms(7) by auto
  have "length ms = length (contents f)" using ms(3) by (metis size_mset)
  also have "\<dots> = elementCount f" using assms(2) by (simp add: contents_def filling_def)
  finally have l: "length ms = elementCount f" .
  have lt: "elementCount f < 2 ^ 32" using assms(2,4) by (simp add: filling_def)
  then have "int (elementCount f) < 2 ^ 32" by simp
  then have n: "md_NumMessages ?h = int (length ms)" by (simp add: link_header_def l)
  obtain c' where c': "send wr c a = Some (c', None)" "pending c' = a" using send_ok [of c a] assms(6) by auto
  have "pending c' = metadata_bytes ?h @ concat ms @ PreHashSign L (metadata_bytes ?h @ concat ms) key @ []"
    using c'(2) ms(1) by simp
  from receive_link_ok [OF assms(1,5) ms(2) _ this n, of batch] l lt c'(1) ms(3) show ?thesis by auto
qed

end

section \<open>Lemmas on groups\<close>

text \<open>The groups of server \<open>j\<close>, in the order in which they are listed.\<close>

definition groups_of :: "group_configs \<Rightarrow> nat \<Rightarrow> int list" where
  "groups_of groups j = concat (map (\<lambda>(k, servers). map (\<lambda>_. k) (filter ((=) (int j)) servers)) groups)"

lemma add_members_ok:
  assumes "k < length gs" "\<forall>sid \<in> set sids. 0 \<le> sid \<and> sid < int (length rgs)"
  shows "\<exists>rgs'. add_members k idx sids gs rgs =
       Inr (gs[k := gs ! k @ zip [idx..<idx + length sids] (map nat sids)], rgs') \<and> length rgs' = length rgs \<and>
     (\<forall>j < length rgs. rgs' ! j = rgs ! j @ map (\<lambda>_. int k) (filter ((=) (int j)) sids))"
  using assms
proof (induction sids arbitrary: idx gs rgs)
  case Nil
  then show ?case by simp
next
  case (Cons sid sids)
  let ?gs = "gs[k := gs ! k @ [(idx, nat sid)]]" and ?rgs = "rgs[nat sid := rgs ! nat sid @ [int k]]"
  have sid: "0 \<le> sid" "sid < int (length rgs)" using Cons.prems by auto
  then have lt: "nat sid < length rgs" by linarith
  obtain rgs' where r: "add_members k (Suc idx) sids ?gs ?rgs =
      Inr (?gs[k := ?gs ! k @ zip [Suc idx..<Suc idx + length sids] (map nat sids)], rgs')" "length rgs' = length rgs"
    "\<forall>j < length rgs. rgs' ! j = ?rgs ! j @ map (\<lambda>_. int k) (filter ((=) (int j)) sids)"
    using Cons.IH [of ?gs ?rgs "Suc idx"] Cons.prems by auto
  have "?gs[k := ?gs ! k @ zip [Suc idx..<Suc idx + length sids] (map nat sids)] =
      gs[k := gs ! k @ zip [idx..<idx + length (sid # sids)] (map nat (sid # sids))]"
  proof -
    have "[idx..<idx + length (sid # sids)] = idx # [Suc idx..<Suc idx + length sids]" by (simp add: upt_conv_Cons del: upt_Suc)
    then show ?thesis using Cons.prems(1) by (simp del: upt_Suc)
  qed
  moreover have "rgs' ! j = rgs ! j @ map (\<lambda>_. int k) (filter ((=) (int j)) (sid # sids))" if "j < length rgs" for j
    using r(3) that sid lt by (auto simp: nth_list_update)
  ultimately show ?case using r(1,2) sid by simp
qed

lemma add_groups_ok:
  assumes "\<forall>(k, servers) \<in> set groups. 0 \<le> k \<and> k < int (length gs) \<and> (\<forall>sid \<in> set servers. 0 \<le> sid \<and> sid < int (length rgs))"
    and "distinct (map fst groups)"
  shows "\<exists>gs' rgs'. add_groups groups gs rgs = Inr (gs', rgs') \<and> length gs' = length gs \<and> length rgs' = length rgs \<and>
     (\<forall>k < length gs. gs' ! k = (case map_of groups (int k) of
        Some servers \<Rightarrow> zip [0..<length servers] (map nat servers) | None \<Rightarrow> gs ! k)) \<and>
     (\<forall>j < length rgs. rgs' ! j = rgs ! j @ groups_of groups j)"
  using assms
proof (induction groups arbitrary: gs rgs)
  case Nil
  then show ?case by (simp add: groups_of_def)
next
  case (Cons g groups)
  obtain k servers where g: "g = (k, servers)" by fastforce
  have k: "0 \<le> k" "k < int (length gs)" and sv: "\<forall>sid \<in> set servers. 0 \<le> sid \<and> sid < int (length rgs)"
    using Cons.prems(1) g by auto
  have kn: "nat k < length gs" using k by linarith
  obtain rgs1 where a: "add_members (nat k) 0 servers (gs[nat k := []]) rgs =
      Inr (gs[nat k := zip [0..<length servers] (map nat servers)], rgs1)" "length rgs1 = length rgs"
    "\<forall>j < length rgs. rgs1 ! j = rgs ! j @ map (\<lambda>_. k) (filter ((=) (int j)) servers)"
    using add_members_ok [of "nat k" "gs[nat k := []]" servers rgs 0] kn sv k(1) by auto
  let ?gs = "gs[nat k := zip [0..<length servers] (map nat servers)]"
  obtain gs2 rgs2 where b: "add_groups groups ?gs rgs1 = Inr (gs2, rgs2)" "length gs2 = length gs" "length rgs2 = length rgs"
    "\<forall>k < length gs. gs2 ! k = (case map_of groups (int k) of
        Some servers \<Rightarrow> zip [0..<length servers] (map nat servers) | None \<Rightarrow> ?gs ! k)"
    "\<forall>j < length rgs. rgs2 ! j = rgs1 ! j @ groups_of groups j"
    using Cons.IH [of ?gs rgs1] Cons.prems a(2) by auto
  have nk: "map_of groups k = None" using Cons.prems(2) g by (simp add: map_of_eq_None_iff)
  have "gs2 ! j = (case map_of (g # groups) (int j) of
        Some servers \<Rightarrow> zip [0..<length servers] (map nat servers) | None \<Rightarrow> gs ! j)" if "j < length gs" for j
    using b(4) that nk g k(1) kn by (cases "int j = k") (auto simp: nth_list_update split: option.splits)
  moreover have "rgs2 ! j = rgs ! j @ groups_of (g # groups) j" if "j < length rgs" for j
    using b(5) a(3) that g by (simp add: groups_of_def)
  ultimately show ?case using a(1) b(1-3) g k by simp
qed

lemma fold_max:
  "(n :: int) \<le> foldl (\<lambda>n sid. if sid > n then sid else n) n xs \<and>
   (\<forall>x \<in> set xs. x \<le> foldl (\<lambda>n sid. if sid > n then sid else n) n xs)"
proof (induction xs arbitrary: n)
  case (Cons x xs)
  let ?F = "foldl (\<lambda>n sid. if sid > n then sid else n)"
  have a: "x \<le> ?F x xs" "n \<le> ?F n xs" and b: "\<forall>y \<in> set xs. y \<le> ?F m xs" for m using Cons.IH by blast+
  show ?case
  proof (cases "x > n")
    case True
    then show ?thesis using a(1) b [of x] by auto
  next
    case False
    then show ?thesis using a(2) b [of n] by auto
  qed
qed simp

section \<open>Properties\<close>

text \<open>C16. A link between servers loses, invents and alters nothing: when a server packs a link's buffer (shuffled,
  without dummies), sends the result over an in-memory connection and the receiver reads it with the
  element size of the buffer and any batch size, the send returns, the receiver reads the sender's metadata with the number
  of messages, the received messages are exactly those written to the buffer, in some order, the
  batch signature verifies under the sender's key, and the connection is empty again.\<close>

theorem link_delivers_batch:
  assumes "ph_ok L" and "filling f" and "shuffler_ok srd sh" and "numElements f < 2 ^ 32" and "0 < elementLength f"
    and "pack_link L srd key m gid dest False f sh = Inr (f', sh', a)"
  shows "\<exists>c' md ms. send mock_Write [] a = Some (c', None) \<and>
     receive_link L mock_Read (elementLength f) batch (ed_public L key) c' = Some ([], md, ms, True) \<and>
     mset ms = mset (contents f) \<and>
     metadata_InterpretFrom (metadata_bytes (link_header m gid dest (elementCount f))) = Inr md"
  using mock.link_delivery [OF assms(1-5) _ assms(6), of "[]" batch] by auto

theorem link_delivers_batch_witness:
  "\<exists>f' sh' a c' md ms. pack_link toy_lib zero_reader [9] \<lparr>md_Type = 4, md_Round = 1, md_Layer = 2, md_Sender = 3, md_Dest = 0,
        md_Group = 0, md_NumMessages = 0\<rparr> 0 7 False (fst (Write (NewMemReadWriter 2 3) [7, 8]))
        \<lparr>sh_src = 0, sh_buf = zeros 8, sh_pos = 0\<rparr> = Inr (f', sh', a) \<and> send mock_Write [] a = Some (c', None) \<and>
     receive_link toy_lib mock_Read 2 5 (toy_public [9]) c' = Some ([], md, ms, True) \<and> mset ms = {# [7, 8] #}"
proof -
  let ?f = "fst (Write (NewMemReadWriter 2 3) [7, 8])" and ?sh = "\<lparr>sh_src = 0, sh_buf = zeros 8, sh_pos = 0\<rparr>"
  let ?m = "\<lparr>md_Type = 4, md_Round = 1, md_Layer = 2, md_Sender = 3, md_Dest = 0, md_Group = 0, md_NumMessages = 0\<rparr>"
  have f: "filling ?f" "contents ?f = [[7, 8]]"
    using Write_ok [OF contents_new(1), of "[7, 8]" 2 3] unfolding contents_new(2)
    by (auto simp: NewMemReadWriter_def)
  have sh: "shuffler_ok zero_reader ?sh" using zero_reader_ok by (simp add: shuffler_ok_def)
  have n: "numElements ?f < 2 ^ 32" "0 < elementLength ?f" "elementLength ?f = 2" by (simp_all add: Write_def NewMemReadWriter_def)
  obtain f' sh' a where p: "pack_link toy_lib zero_reader [9] ?m 0 7 False ?f ?sh = Inr (f', sh', a)"
    using pack_link_ok [OF toy_ph_ok f(1) sh n(1)] by blast
  have "ed_public toy_lib [9] = toy_public [9]" by (simp add: toy_lib_def)
  with link_delivers_batch [OF toy_ph_ok f(1) sh n(1,2) p, of 5] f(2) n(3) p show ?thesis by auto
qed

text \<open>The group tables of a caller agree: for groups numbered \<open>0\<close> to \<open>m - 1\<close> with non-negative server ids, \<^verbatim>\<open>SetGroups\<close> gives
  every group its members under their positions, and the reverse table lists for each server exactly
  the groups that contain it, so that a server is sent the messages of its own groups and no others.\<close>

theorem SetGroups_tables:
  assumes "distinct (map fst groups)" and "\<forall>k \<in> set (map fst groups). 0 \<le> k \<and> k < int (length groups)"
    and "\<forall>sid \<in> set (concat (map snd groups)). 0 \<le> sid"
  shows "\<exists>c'. SetGroups groups c = Inr c' \<and>
     (\<forall>(k, servers) \<in> set groups. ca_Groups c' ! nat k = zip [0..<length servers] (map nat servers)) \<and>
     (\<forall>sid < length (ca_ReverseGroups c'). set (ca_ReverseGroups c' ! sid) = {k. \<exists>servers. (k, servers) \<in> set groups \<and> int sid \<in> set servers}) \<and>
     (\<forall>sid \<in> set (concat (map snd groups)). nat sid < length (ca_ReverseGroups c'))"
proof -
  let ?n = "foldl (\<lambda>n sid. if sid > n then sid else n) 0 (concat (map snd groups))"
  have "0 \<le> ?n \<and> (\<forall>x \<in> set (concat (map snd groups)). x \<le> ?n)" by (rule fold_max)
  then have mx: "0 \<le> ?n" "\<And>k ss sid. (k, ss) \<in> set groups \<Longrightarrow> sid \<in> set ss \<Longrightarrow> sid \<le> ?n" by auto
  have "\<forall>(k, servers) \<in> set groups. 0 \<le> k \<and> k < int (length (replicate (length groups) ([] :: (nat \<times> nat) list))) \<and>
      (\<forall>sid \<in> set servers. 0 \<le> sid \<and> sid < int (length (replicate (nat ?n + 1) ([] :: int list))))"
    using assms(2,3) mx by fastforce
  from add_groups_ok [OF this assms(1)] obtain gs rgs where
    ag: "add_groups groups (replicate (length groups) []) (replicate (nat ?n + 1) []) = Inr (gs, rgs)"
      "length rgs = nat ?n + 1"
      "\<forall>k < length groups. gs ! k = (case map_of groups (int k) of
        Some servers \<Rightarrow> zip [0..<length servers] (map nat servers) | None \<Rightarrow> replicate (length groups) [] ! k)"
      "\<forall>j < nat ?n + 1. rgs ! j = groups_of groups j" by (auto simp del: replicate.simps)
  have "ca_Groups (c\<lparr>ca_Groups := gs, ca_ReverseGroups := rgs\<rparr>) ! nat k = zip [0..<length servers] (map nat servers)"
    if "(k, servers) \<in> set groups" for k servers
  proof -
    have "0 \<le> k" "k < int (length groups)" using that assms(2) by force+
    then show ?thesis using ag(3) map_of_is_SomeI [OF assms(1) that] by simp
  qed
  moreover have "set (rgs ! sid) = {k. \<exists>servers. (k, servers) \<in> set groups \<and> int sid \<in> set servers}" if "sid < length rgs" for sid
    using ag(2,4) that by (force simp: groups_of_def)
  moreover have "\<forall>sid \<in> set (concat (map snd groups)). nat sid < length rgs" using mx ag(2) by fastforce
  ultimately show ?thesis
    using ag(1) by (intro exI [of _ "c\<lparr>ca_Groups := gs, ca_ReverseGroups := rgs\<rparr>"]) (auto simp: SetGroups_def Let_def)
qed

theorem SetGroups_tables_witness:
  "\<exists>c'. SetGroups [(0, [2, 0]), (1, [2, 1])] \<lparr>ca_mock = True, ca_size = 3, ca_Groups = [], ca_ReverseGroups = [],
       ca_ServersSortedByLatency = [0, 1, 2]\<rparr> = Inr c' \<and> ca_Groups c' ! 1 = [(0, 2), (1, 1)] \<and> set (ca_ReverseGroups c' ! 2) = {0, 1}"
proof -
  let ?g = "[(0, [2, 0]), (1, [2, 1])] :: group_configs"
  have "distinct (map fst ?g)" "\<forall>k \<in> set (map fst ?g). 0 \<le> k \<and> k < int (length ?g)" "\<forall>sid \<in> set (concat (map snd ?g)). 0 \<le> sid"
    by simp_all
  from SetGroups_tables [OF this, of "\<lparr>ca_mock = True, ca_size = 3, ca_Groups = [], ca_ReverseGroups = [],
       ca_ServersSortedByLatency = [0, 1, 2]\<rparr>"] obtain c' where c: "SetGroups ?g \<lparr>ca_mock = True, ca_size = 3, ca_Groups = [], ca_ReverseGroups = [],
       ca_ServersSortedByLatency = [0, 1, 2]\<rparr> = Inr c'" "\<forall>(k, servers) \<in> set ?g. ca_Groups c' ! nat k = zip [0..<length servers] (map nat servers)"
     "\<forall>sid < length (ca_ReverseGroups c'). set (ca_ReverseGroups c' ! sid) = {k. \<exists>servers. (k, servers) \<in> set ?g \<and> int sid \<in> set servers}"
     "\<forall>sid \<in> set (concat (map snd ?g)). nat sid < length (ca_ReverseGroups c')" by blast
  have "2 < length (ca_ReverseGroups c')" using c(4) by auto
  then have "set (ca_ReverseGroups c' ! 2) = {k. \<exists>servers. (k, servers) \<in> set ?g \<and> 2 \<in> set servers}" using c(3) by force
  also have "\<dots> = {0, 1}" by force
  finally show ?thesis using c(1,2) by (auto simp: upt_rec)
qed

end
