(* ===== verification/Client.thy ===== *)
theory Client
  imports PathEstablishment Lengths Network
begin

text \<open>
  The client of \<^verbatim>\<open>src/server/prepareMessages/client.go\<close> and the form it is stored in
  (\<^verbatim>\<open>marshalling.go\<close>): registration, tokens and path keys, the path-establishment onion with its
  receipts, and the onion of a lightning round. Random choices are arguments: \<open>sks i\<close> is the signing key
  of the \<open>i\<close>-th key pair, \<open>nonces l\<close> the 8 random bytes of the receipt of layer \<open>l\<close>, \<open>blinds i\<close> the blinding
  of the \<open>i\<close>-th token; \<open>skey\<close> is the fixed key of \<^verbatim>\<open>SkipToken\<close>. The rest of the system is reached through
  the caller of theory \<open>Network\<close>. A slice of pointers is a list of options.
\<close>

section \<open>State\<close>

record 's path_key =
  pk_SigningKey :: signing_key
  pk_Secret :: 's
  pk_ServerID :: int
  pk_Shared :: shared_key
  pk_PrevServerID :: int
  pk_PrevShared :: shared_key

record ('s, 'p, 'g2, 'r) client =
  cl_CombinedKey :: "'g2 token_public_key option"
  cl_Common :: "('s, 'p, 'g2, 'r) common_state"
  cl_ID :: int
  cl_submissionKey :: signing_key
  cl_verificationKey :: verification_key
  cl_GroupPublicKey :: 'p
  cl_group :: int
  cl_PathKeys :: "'s path_key option list"
  cl_routingKey :: lookup_key
  cl_AnonymousVerificationKey :: verification_key
  cl_Receipts :: "bytes list"

record 's marshallable_client =
  mc_ID :: int
  mc_SubmissionKey :: signing_key
  mc_VerificationKey :: verification_key
  mc_AnonymousPublicKey :: verification_key
  mc_AnonymousSecretKey :: signing_key
  mc_Group :: int
  mc_PathKeys :: "'s path_key option list"
  mc_Receipts :: "bytes list"
  mc_Message :: bytes

definition NewClient ::
  "('s, 'p) lib \<Rightarrow> signing_key \<Rightarrow> ('s, 'p, 'g2, 'r) common_state \<Rightarrow> int \<Rightarrow> int \<Rightarrow> ('s, 'p, 'g2, 'r) client" where
  "NewClient L ssk c ID gid =
     \<lparr>cl_CombinedKey = cs_CombinedKey c, cl_Common = c, cl_ID = ID, cl_submissionKey = ssk,
      cl_verificationKey = ed_public L ssk, cl_GroupPublicKey = cs_GroupPublicKey c, cl_group = gid,
      cl_PathKeys = [], cl_routingKey = zeros KEY_SIZE, cl_AnonymousVerificationKey = [], cl_Receipts = []\<rparr>"

definition client_Marshal :: "('s, 'p, 'g2, 'r) client \<Rightarrow> 's marshallable_client" where
  "client_Marshal c =
     \<lparr>mc_ID = cl_ID c, mc_SubmissionKey = cl_submissionKey c, mc_VerificationKey = cl_verificationKey c,
      mc_AnonymousPublicKey = cl_AnonymousVerificationKey c, mc_AnonymousSecretKey = [], mc_Group = cl_group c,
      mc_PathKeys = cl_PathKeys c, mc_Receipts = cl_Receipts c, mc_Message = []\<rparr>"

definition client_Unmarshal ::
  "'s marshallable_client \<Rightarrow> ('s, 'p, 'g2, 'r) common_state \<Rightarrow> ('s, 'p, 'g2, 'r) client" where
  "client_Unmarshal m c =
     \<lparr>cl_CombinedKey = cs_CombinedKey c, cl_Common = c, cl_ID = mc_ID m, cl_submissionKey = mc_SubmissionKey m,
      cl_verificationKey = mc_VerificationKey m, cl_GroupPublicKey = cs_GroupPublicKey c, cl_group = mc_Group m,
      cl_PathKeys = mc_PathKeys m, cl_routingKey = zeros KEY_SIZE,
      cl_AnonymousVerificationKey = mc_AnonymousPublicKey m, cl_Receipts = mc_Receipts m\<rparr>"

section \<open>Requests\<close>

definition deref :: "'a option \<Rightarrow> 'a res" where
  "deref x = of_option (Panic NilDereference) x"

text \<open>Fill the data of a new message with a packed request and sign it.\<close>

definition signed_request ::
  "('s, 'p) lib \<Rightarrow> signing_key \<Rightarrow> signed_message \<Rightarrow> (bytes \<Rightarrow> bytes res) \<Rightarrow> signed_message res" where
  "signed_request L key m pack = sbind (pack (sm_Data m)) (\<lambda>d. SignMessage L key (fill_data m d))"

definition client_RegisterClient ::
  "('s, 'p) lib \<Rightarrow> 'n remote \<Rightarrow> caller \<Rightarrow> 'n \<Rightarrow> ('s, 'p, 'g2, 'r) client \<Rightarrow> 'n \<times> unit res" where
  "client_RegisterClient L R c n t =
     (case signed_request L (cl_submissionKey t)
         (NewSignedMessage ncr_Len (cs_Round (cl_Common t)) (-1) (cl_ID t) (cl_group t) 0 1 ClientRegister)
         (ncr_PackTo \<lparr>ncr_ID = cl_ID t, ncr_VerificationKey = cl_verificationKey t\<rparr>) of
        Inl e \<Rightarrow> (n, Inl e)
      | Inr m \<Rightarrow> (case SendToGroup R c n (cl_group t) m of (n', r) \<Rightarrow> (n', sbind r (\<lambda>_. Inr ()))))"

definition GetToken ::
  "('s, 'p) lib \<Rightarrow> ('fr, 'g1, 'g2, 'gt) mcl \<Rightarrow> 'n remote \<Rightarrow> caller \<Rightarrow> 'fr \<Rightarrow> 'n \<Rightarrow> ('s, 'p, 'g2, 'r) client \<Rightarrow>
     bytes \<Rightarrow> int \<Rightarrow> 'n \<times> 'g1 res" where
  "GetToken L M R c rnd n t message layer =
     (let (blindedHash, issuanceInfo) = (case cl_CombinedKey t of
            Some k \<Rightarrow> Prepare M k rnd message
          | None \<Rightarrow> (blind M (hashToCurvePoint M message) rnd,
                    \<lparr>ti_key = None, ti_hash = hashToCurvePoint M message, ti_blinding = rnd\<rparr>)) in
      case signed_request L (cl_submissionKey t)
         (NewSignedMessage (tr_Len M) (cs_Round (cl_Common t)) layer (cl_ID t) (cl_group t) 0 1 ClientTokenRequest)
         (tr_PackTo M \<lparr>tr_ID = cl_ID t, tr_TokenRequest = blindedHash\<rparr>) of
        Inl e \<Rightarrow> (n, Inl e)
      | Inr m \<Rightarrow> (case SendToGroup R c n (cl_group t) m of
            (n', Inl e) \<Rightarrow> (n', Inl e)
          | (n', Inr responses) \<Rightarrow>
              (n', sbind (map_res (\<lambda>r. sbind (deref r) (\<lambda>r. g1_InterpretFrom M (sm_Data r))) responses)
                     (\<lambda>partialSignatures. snd (Create M issuanceInfo partialSignatures)))))"

definition get_token ::
  "('s, 'p) lib \<Rightarrow> ('fr, 'g1, 'g2, 'gt) mcl \<Rightarrow> 'fr \<Rightarrow> 'n remote \<Rightarrow> caller \<Rightarrow> 'fr \<Rightarrow> 'n \<Rightarrow> ('s, 'p, 'g2, 'r) client \<Rightarrow>
     bytes \<Rightarrow> int \<Rightarrow> 'n \<times> 'g1 res" where
  "get_token L M skey R c rnd n t content layer =
     (if SkipToken_config then (n, Inr (SkipToken M skey content)) else GetToken L M R c rnd n t content layer)"

section \<open>Tokens and path keys\<close>

text \<open>One round of the loop of \<^verbatim>\<open>MakeTokensAndPath\<close>: the new state of the rest of the system, the client, and
  the next server, the token and the public key.\<close>

definition path_step ::
  "('s, 'p) lib \<Rightarrow> ('fr, 'g1, 'g2, 'gt) mcl \<Rightarrow> 'fr \<Rightarrow> 'n remote \<Rightarrow> caller \<Rightarrow> (nat \<Rightarrow> signing_key) \<Rightarrow> (nat \<Rightarrow> 'fr) \<Rightarrow>
     nat \<Rightarrow> int \<Rightarrow> 'n \<Rightarrow> ('s, 'p, 'g2, 'r) client \<Rightarrow> 'n \<times> ('s, 'p, 'g2, 'r) client \<times> (int \<times> 'g1 \<times> verification_key) res" where
  "path_step L M skey R c sks blinds i prevServer n t =
     (let sk = sks i; pk = ed_public L sk; ks = cs_ServerPublicKeys (cl_Common t) in
      case sbind (ToScalar L sk) (\<lambda>secret. sbind (TokenContent pk (int i) (int i) prevServer) (\<lambda>content. Inr (secret, content))) of
        Inl e \<Rightarrow> (n, t, Inl e)
      | Inr (secret, content) \<Rightarrow>
          (case get_token L M skey R c (blinds i) n t content (int i) of
             (n', Inl e) \<Rightarrow> (n', t, Inl e)
           | (n', Inr tok) \<Rightarrow>
               (case sbind (HashToServer (cl_Common t) (token_Hash L M tok)) (\<lambda>nextServer.
                     sbind (go_index ks nextServer) (\<lambda>spk. Inr (nextServer, SharedKey L secret spk))) of
                  Inl e \<Rightarrow> (n', t, Inl e)
                | Inr (nextServer, shared) \<Rightarrow>
                    let k = \<lparr>pk_SigningKey = sk, pk_Secret = secret, pk_ServerID = int nextServer, pk_Shared = shared,
                             pk_PrevServerID = 0, pk_PrevShared = []\<rparr> in
                    if i = 0 then (n', t\<lparr>cl_PathKeys := (cl_PathKeys t)[i := Some k]\<rparr>, Inr (int nextServer, tok, pk))
                    else (case go_index_int ks prevServer of
                        Inl e \<Rightarrow> (n', t\<lparr>cl_PathKeys := (cl_PathKeys t)[i := Some (k\<lparr>pk_PrevServerID := prevServer\<rparr>)]\<rparr>, Inl e)
                      | Inr spk \<Rightarrow>
                          (n', t\<lparr>cl_PathKeys := (cl_PathKeys t)[i := Some (k\<lparr>pk_PrevServerID := prevServer,
                                  pk_PrevShared := SharedKey L secret spk\<rparr>)]\<rparr>, Inr (int nextServer, tok, pk))))))"

fun path_loop ::
  "('s, 'p) lib \<Rightarrow> ('fr, 'g1, 'g2, 'gt) mcl \<Rightarrow> 'fr \<Rightarrow> 'n remote \<Rightarrow> caller \<Rightarrow> (nat \<Rightarrow> signing_key) \<Rightarrow> (nat \<Rightarrow> 'fr) \<Rightarrow>
     nat list \<Rightarrow> int \<Rightarrow> 'n \<Rightarrow> ('s, 'p, 'g2, 'r) client \<Rightarrow>
     'n \<times> ('s, 'p, 'g2, 'r) client \<times> (int \<times> 'g1 list \<times> verification_key list) res" where
  "path_loop L M skey R c sks blinds [] prevServer n t = (n, t, Inr (prevServer, [], []))"
| "path_loop L M skey R c sks blinds (i # is) prevServer n t =
     (case path_step L M skey R c sks blinds i prevServer n t of
        (n', t', Inl e) \<Rightarrow> (n', t', Inl e)
      | (n', t', Inr (nextServer, tok, pk)) \<Rightarrow>
          (case path_loop L M skey R c sks blinds is nextServer n' t' of
             (n'', t'', Inl e) \<Rightarrow> (n'', t'', Inl e)
           | (n'', t'', Inr (lastServer, toks, pks)) \<Rightarrow> (n'', t'', Inr (lastServer, tok # toks, pk # pks))))"

text \<open>The keys of the last entry are shared with the anytrust group. The error of its \<^verbatim>\<open>ToScalar\<close> is dropped,
  and the nil pointer it leaves is dereferenced.\<close>

definition MakeTokensAndPath ::
  "('s, 'p) lib \<Rightarrow> ('fr, 'g1, 'g2, 'gt) mcl \<Rightarrow> 'fr \<Rightarrow> 'n remote \<Rightarrow> caller \<Rightarrow> (nat \<Rightarrow> signing_key) \<Rightarrow> (nat \<Rightarrow> 'fr) \<Rightarrow>
     'n \<Rightarrow> ('s, 'p, 'g2, 'r) client \<Rightarrow> nat \<Rightarrow>
     'n \<times> ('s, 'p, 'g2, 'r) client \<times> ('g1 list \<times> verification_key list) res" where
  "MakeTokensAndPath L M skey R c sks blinds n t numLayers =
     (case path_loop L M skey R c sks blinds [0..<numLayers] (cl_ID t) n
         (t\<lparr>cl_PathKeys := replicate (numLayers + 1) None\<rparr>) of
        (n', t', Inl e) \<Rightarrow> (n', t', Inl e)
      | (n', t', Inr (prevServer, toks, pks)) \<Rightarrow>
          let sk = sks numLayers; pk = ed_public L sk in
          case ToScalar L sk of
            Inl e \<Rightarrow> (n', t', Inl (Panic NilDereference))
          | Inr secret \<Rightarrow>
              let k = \<lparr>pk_SigningKey = sk, pk_Secret = secret, pk_ServerID = 0, pk_Shared = [],
                       pk_PrevServerID = prevServer, pk_PrevShared = SharedKey L secret (cl_GroupPublicKey t')\<rparr>;
                  t1 = t'\<lparr>cl_PathKeys := (cl_PathKeys t')[numLayers := Some k], cl_AnonymousVerificationKey := pk\<rparr>
              in
              case TokenContent pk (int numLayers) (int numLayers) prevServer of
                Inl e \<Rightarrow> (n', t1, Inl e)
              | Inr content \<Rightarrow>
                  (case get_token L M skey R c (blinds numLayers) n' t1 content (int numLayers) of
                     (n'', r) \<Rightarrow>
                       let t2 = t1\<lparr>cl_routingKey := LookupKey (hd (pks @ [pk]))\<rparr> in
                       (n'', t2, sbind r (\<lambda>tok. Inr (toks @ [tok], pks @ [pk])))))"

section \<open>Onions\<close>

definition Encrypt ::
  "('s, 'p) lib \<Rightarrow> bytes \<Rightarrow> 's path_key \<Rightarrow> int \<Rightarrow> int \<Rightarrow> int \<Rightarrow> bool \<Rightarrow> bytes res" where
  "Encrypt L message key round layer serverId boomerang =
     (let nonce = Nonce round layer serverId; sharedKey = (if \<not> boomerang then pk_Shared key else pk_PrevShared key)
      in SignedSecretSeal L message nonce sharedKey (pk_SigningKey key))"

definition BoomerangBase ::
  "('s, 'p) lib \<Rightarrow> ('s, 'p, 'g2, 'r) client \<Rightarrow> bytes \<Rightarrow> 's path_key option list \<Rightarrow> nat \<Rightarrow> nat \<Rightarrow> (bytes \<times> bytes) res" where
  "BoomerangBase L t nonce currentPath round boomerangLimit =
     sbind (foldl (\<lambda>r layer. sbind r (\<lambda>message.
              sbind (go_index currentPath (layer + 1)) (\<lambda>k1. sbind (deref k1) (\<lambda>k1.
              sbind (go_index currentPath layer) (\<lambda>k0. sbind (deref k0) (\<lambda>k0.
                Encrypt L message k1 (int round) (int layer + cs_NumLayers (cl_Common t)) (pk_ServerID k0) True))))))
            (Inr nonce) [round - boomerangLimit..<round])
       (\<lambda>message. Inr (message, nonce))"

definition OnionEncrypt ::
  "('s, 'p) lib \<Rightarrow> ('s, 'p, 'g2, 'r) client \<Rightarrow> bytes \<Rightarrow> 's path_key option list \<Rightarrow> bytes res" where
  "OnionEncrypt L t message keys =
     foldr (\<lambda>(layer, key) r. sbind r (\<lambda>message. sbind (deref key) (\<lambda>key.
              Encrypt L message key (cs_Round (cl_Common t)) (int layer) (pk_ServerID key) False)))
       (zip [0..<length keys] keys) (Inr message)"

definition path_layer ::
  "('s, 'p) lib \<Rightarrow> ('fr, 'g1, 'g2, 'gt) mcl \<Rightarrow> ('s, 'p, 'g2, 'r) client \<Rightarrow> 'g1 list \<Rightarrow> verification_key list \<Rightarrow>
     (nat \<Rightarrow> bytes) \<Rightarrow> nat \<Rightarrow> nat \<Rightarrow> nat \<Rightarrow> bytes \<Rightarrow> (bytes \<times> bytes) res" where
  "path_layer L M t tokens pks nonces numLayers boomerangLimit l nextEnvelope =
     sbind (go_index tokens (l + 1)) (\<lambda>outToken. sbind (go_index pks (l + 1)) (\<lambda>outKey.
     sbind (BoomerangBase L t (nonces l) (cl_PathKeys t) l boomerangLimit) (\<lambda>(boom, receipt).
     sbind (if l = numLayers - 1 then
              sbind (go_index (cl_PathKeys t) numLayers) (\<lambda>k. sbind (deref k) (\<lambda>k.
                Encrypt L boom k (int numLayers) (int numLayers) (pk_PrevServerID k) True))
            else Inr boom) (\<lambda>boom.
     sbind (pi_Marshal M \<lparr>pi_OutKey = outKey, pi_OutToken = outToken, pi_BoomerangEnvelope = boom,
                          pi_NextEnvelope = nextEnvelope, pi_raw = []\<rparr>) (\<lambda>b.
     sbind (go_index (cl_PathKeys t) l) (\<lambda>k. sbind (deref k) (\<lambda>k.
     sbind (Encrypt L b k (int l) (int l) (pk_ServerID k) False) (\<lambda>env. Inr (env, receipt)))))))))"

text \<open>The loop from the last layer to the first; the receipts are collected in the order of the layers.\<close>

fun path_layers ::
  "('s, 'p) lib \<Rightarrow> ('fr, 'g1, 'g2, 'gt) mcl \<Rightarrow> ('s, 'p, 'g2, 'r) client \<Rightarrow> 'g1 list \<Rightarrow> verification_key list \<Rightarrow>
     (nat \<Rightarrow> bytes) \<Rightarrow> nat \<Rightarrow> nat \<Rightarrow> nat \<Rightarrow> bytes \<Rightarrow> bytes list \<Rightarrow> (bytes \<times> bytes list) res" where
  "path_layers L M t tokens pks nonces numLayers boomerangLimit 0 env receipts = Inr (env, receipts)"
| "path_layers L M t tokens pks nonces numLayers boomerangLimit (Suc l) env receipts =
     sbind (path_layer L M t tokens pks nonces numLayers boomerangLimit l env) (\<lambda>(env', receipt).
       path_layers L M t tokens pks nonces numLayers boomerangLimit l env' (receipt # receipts))"

definition MakeOptimizedPathEstablishmentMessage ::
  "('s, 'p) lib \<Rightarrow> ('fr, 'g1, 'g2, 'gt) mcl \<Rightarrow> 'fr \<Rightarrow> 'n remote \<Rightarrow> caller \<Rightarrow> (nat \<Rightarrow> signing_key) \<Rightarrow> (nat \<Rightarrow> 'fr) \<Rightarrow>
     (nat \<Rightarrow> bytes) \<Rightarrow> 'n \<Rightarrow> ('s, 'p, 'g2, 'r) client \<Rightarrow> nat \<Rightarrow> nat \<Rightarrow>
     'n \<times> ('s, 'p, 'g2, 'r) client \<times> ('g1 path_envelope \<times> bytes list) res" where
  "MakeOptimizedPathEstablishmentMessage L M skey R c sks blinds nonces n t numLayers boomerangLimit =
     (case MakeTokensAndPath L M skey R c sks blinds n t numLayers of
        (n', t', Inl e) \<Rightarrow> (n', t', Inl e)
      | (n', t', Inr (tokens, pks)) \<Rightarrow>
          (case path_layers L M t' tokens pks nonces numLayers boomerangLimit numLayers [] [] of
             Inl e \<Rightarrow> (n', t', Inl e)
           | Inr (env, receipts) \<Rightarrow>
               (n', t'\<lparr>cl_Receipts := receipts\<rparr>,
                sbind (go_index pks 0) (\<lambda>k. sbind (go_index tokens 0) (\<lambda>tok.
                  Inr (\<lparr>pe_InKey = k, pe_InToken = tok, pe_SignedCiphertext = env, pe_raw = []\<rparr>, receipts))))))"

definition first_server :: "'s path_key option list \<Rightarrow> int res" where
  "first_server keys = sbind (go_index keys 0) (\<lambda>k. sbind (deref k) (\<lambda>k. Inr (pk_ServerID k)))"

definition SubmitPathEstablishmentMessage ::
  "('s, 'p) lib \<Rightarrow> ('fr, 'g1, 'g2, 'gt) mcl \<Rightarrow> 'n remote \<Rightarrow> caller \<Rightarrow> 'n \<Rightarrow> ('s, 'p, 'g2, 'r) client \<Rightarrow> 'g1 path_envelope \<Rightarrow>
     'n \<times> unit res" where
  "SubmitPathEstablishmentMessage L M R c n t message =
     (case sbind (first_server (cl_PathKeys t)) (\<lambda>dest.
           sbind (signed_request L (cl_submissionKey t)
             (NewSignedMessage (pe_Len M message) (cs_Round (cl_Common t)) 0 (cl_ID t) (cl_group t) dest 1 ClientMessageSubmission)
             (pe_PackTo M message)) (\<lambda>m. Inr (dest, m))) of
        Inl e \<Rightarrow> (n, Inl e)
      | Inr (dest, m) \<Rightarrow> (case SendSignedMessage R c n dest m of (n', r) \<Rightarrow> (n', sbind r (\<lambda>_. Inr ()))))"

definition GetFinalMessage ::
  "('s, 'p) lib \<Rightarrow> ('s, 'p, 'g2, 'r) client \<Rightarrow> nat \<Rightarrow> bytes \<Rightarrow> final_message res" where
  "GetFinalMessage L t numLayers message =
     (let fm = \<lparr>fm_AnonymousVerificationKey = [], fm_Signature = [], fm_Message = message\<rparr> in
      sbind (go_index (cl_PathKeys t) numLayers) (\<lambda>k. sbind (deref k) (\<lambda>k.
        Inr (fm\<lparr>fm_Signature := SignData L (pk_SigningKey k) (fm_MarshalSigned fm)\<rparr>))))"

text \<open>The envelope \<^verbatim>\<open>SendLightningMessage\<close> submits.\<close>

definition lightning_submission ::
  "('s, 'p) lib \<Rightarrow> ('s, 'p, 'g2, 'r) client \<Rightarrow> 's path_key option list \<Rightarrow> bytes \<Rightarrow> lightning_envelope res" where
  "lightning_submission L t keys message =
     (if keys = [] then Inl (Panic IndexOutOfRange)
      else sbind (GetFinalMessage L t (length keys - 1) message) (\<lambda>fm.
        let n = cs_NumLayers (cl_Common t) in
        sbind (if n < 0 then Inl (Panic SliceBounds) else slice keys 0 (nat n)) (\<lambda>ks.
        sbind (OnionEncrypt L t (fm_MarshalI fm) ks) (\<lambda>box.
          Inr \<lparr>le_Key = cl_routingKey t, le_SignedCiphertext = box, le_raw = []\<rparr>))))"

definition SendLightningMessage ::
  "('s, 'p) lib \<Rightarrow> 'n remote \<Rightarrow> caller \<Rightarrow> 'n \<Rightarrow> ('s, 'p, 'g2, 'r) client \<Rightarrow> 's path_key option list \<Rightarrow> bytes \<Rightarrow> 'n \<times> unit res" where
  "SendLightningMessage L R c n t keys message =
     (case sbind (lightning_submission L t keys message) (\<lambda>submission.
           sbind (signed_request L (cl_submissionKey t)
             (NewSignedMessage (le_Len submission) (cs_Round (cl_Common t)) 0 (cl_ID t) (cl_group t) 0 1 ClientMessageSubmission)
             (le_PackTo submission)) (\<lambda>m. sbind (first_server keys) (\<lambda>dest. Inr (dest, m)))) of
        Inl e \<Rightarrow> (n, Inl e)
      | Inr (dest, m) \<Rightarrow> (case SendSignedMessage R c n dest m of (n', r) \<Rightarrow> (n', sbind r (\<lambda>_. Inr ()))))"

definition CheckReceipt ::
  "('s, 'p) lib \<Rightarrow> 'n remote \<Rightarrow> caller \<Rightarrow> 'n \<Rightarrow> ('s, 'p, 'g2, 'r) client \<Rightarrow> nat \<Rightarrow> 'n \<times> unit res" where
  "CheckReceipt L R c n t round =
     (let m = NewSignedMessage ncr_Len (cs_Round (cl_Common t)) (-1) (cl_ID t) (cl_group t) 0 1 ClientGetReceipt in
      case sbind (ncr_PackTo \<lparr>ncr_ID = cl_ID t, ncr_VerificationKey = cl_verificationKey t\<rparr> (sm_Data m)) (\<lambda>d.
           sbind (GetSignedData (fill_data m d)) (\<lambda>(m, _). sbind (first_server (cl_PathKeys t)) (\<lambda>dest. Inr (dest, m)))) of
        Inl e \<Rightarrow> (n, Inl e)
      | Inr (dest, m) \<Rightarrow> (case SendSignedMessage R c n dest m of
            (n', Inl e) \<Rightarrow> (n', Inl e)
          | (n', Inr receipt) \<Rightarrow>
              (n', sbind (deref receipt) (\<lambda>receipt. sbind (cs_Verify L (cl_Common t) receipt) (\<lambda>(receipt, ok).
                   sbind (guard ok (Err SignatureError)) (\<lambda>_. sbind (go_index (cl_Receipts t) round) (\<lambda>expected.
                   guard (expected = sm_Data receipt) (Err WrongReceipt))))))))"

section \<open>Lightning rounds without path establishment\<close>

definition skip_key ::
  "('s, 'p) lib \<Rightarrow> 'p list \<Rightarrow> signing_key \<Rightarrow> int \<Rightarrow> 'p res \<Rightarrow> 's path_key res" where
  "skip_key L ks sk server pub =
     sbind (case ToScalar L sk of Inl _ \<Rightarrow> Inl (Panic NilDereference) | Inr s \<Rightarrow> Inr s) (\<lambda>s. sbind pub (\<lambda>p.
       Inr \<lparr>pk_SigningKey = sk, pk_Secret = s, pk_ServerID = server, pk_Shared = SharedKey L s p,
            pk_PrevServerID = 0, pk_PrevShared = []\<rparr>))"

fun skip_keys ::
  "('s, 'p) lib \<Rightarrow> 'r reader \<Rightarrow> (nat \<Rightarrow> signing_key) \<Rightarrow> 'p list \<Rightarrow> nat \<Rightarrow> nat list \<Rightarrow> 'r shuffler \<Rightarrow>
     ('s path_key list \<times> 'r shuffler) res" where
  "skip_keys L srd sks ks numServers [] r = Inr ([], r)"
| "skip_keys L srd sks ks numServers (i # is) r =
     sbind (Intn srd r (int numServers)) (\<lambda>(server, r').
     sbind (skip_key L ks (sks i) server (go_index_int ks server)) (\<lambda>k.
     sbind (skip_keys L srd sks ks numServers is r') (\<lambda>(rest, r''). Inr (k # rest, r''))))"

fun skip_sends ::
  "('s, 'p) lib \<Rightarrow> 'n remote \<Rightarrow> caller \<Rightarrow> int \<Rightarrow> 's path_key list \<Rightarrow> nat \<Rightarrow> 'n \<Rightarrow> 'n \<times> unit res" where
  "skip_sends L R c ID keys 0 n = (n, Inr ())"
| "skip_sends L R c ID keys (Suc l) n =
     (case caller_SkipPathGen R c n
         \<lparr>sp_SendingKey = ed_public L (pk_SigningKey (keys ! l)), sp_Layer = to_int32 (int l),
          sp_SendingServer = to_int32 (if l > 0 then pk_ServerID (keys ! (l - 1)) else ID),
          sp_ForwardingServer = to_int32 (pk_ServerID (keys ! (l + 1))),
          sp_ForwardKey = ed_public L (pk_SigningKey (keys ! (l + 1))), sp_Group = -1\<rparr>
         (pk_ServerID (keys ! l)) False of
        (n', Inl e) \<Rightarrow> (n', Inl e)
      | (n', Inr _) \<Rightarrow> skip_sends L R c ID keys l n')"

definition client_SkipPathGen ::
  "('s, 'p) lib \<Rightarrow> (bytes \<Rightarrow> 'r) \<Rightarrow> 'r reader \<Rightarrow> 'q reader \<Rightarrow> 'q \<Rightarrow> (nat \<Rightarrow> signing_key) \<Rightarrow> 'n remote \<Rightarrow> caller \<Rightarrow> 'n \<Rightarrow>
     ('s, 'p, 'g2, 'r) client \<Rightarrow> nat \<Rightarrow> 'n \<times> ('s, 'p, 'g2, 'r) client \<times> unit res" where
  "client_SkipPathGen L shake srd source q sks R c n t numLayers =
     (let com = cl_Common t; (r, q') = NewPRGShuffler shake source q in
      case sbind (skip_keys L srd sks (cs_ServerPublicKeys com) (cs_NumServers com) [0..<numLayers] r) (\<lambda>(ks, r).
           sbind (Intn srd r (int (cs_NumGroups com))) (\<lambda>(gid, r).
           sbind (skip_key L (cs_ServerPublicKeys com) (sks numLayers) gid (Inr (cl_GroupPublicKey t))) (\<lambda>k.
             Inr (ks @ [k], gid)))) of
        Inl e \<Rightarrow> (n, t, Inl e)
      | Inr (keys, gid) \<Rightarrow>
          let pk = ed_public L (sks numLayers);
              t' = t\<lparr>cl_PathKeys := map Some keys, cl_AnonymousVerificationKey := pk,
                     cl_routingKey := LookupKey (ed_public L (pk_SigningKey (hd keys)))\<rparr> in
          case skip_sends L R c (cl_ID t) keys numLayers n of
            (n', Inl e) \<Rightarrow> (n', t', Inl e)
          | (n', Inr _) \<Rightarrow>
              (case caller_SkipPathGen R c n'
                 \<lparr>sp_SendingKey = pk, sp_Layer = 0, sp_SendingServer = 0, sp_ForwardingServer = 0, sp_ForwardKey = [],
                  sp_Group = to_int32 gid\<rparr> gid True of
                 (n'', r) \<Rightarrow> (n'', t', r)))"

section \<open>Lemmas on onions\<close>

text \<open>The boxes and the onion as total functions.\<close>

definition seal_box :: "('s, 'p) lib \<Rightarrow> bytes \<Rightarrow> bytes \<Rightarrow> shared_key \<Rightarrow> signing_key \<Rightarrow> bytes" where
  "seal_box L m nonce key sk =
     (let c = XORKeyStream L (take 16 key) (take 16 nonce) m in c @ Sign L sk (nonce @ c))"

lemma seal_box_ok:
  "aes_ok L \<Longrightarrow> sig_ok L \<Longrightarrow> 16 \<le> length key \<Longrightarrow> SignedSecretSeal L m nonce key sk = Inr (seal_box L m nonce key sk)"
  by (simp add: SignedSecretSeal_ok seal_box_def Let_def)

lemma length_seal_box: "aes_ok L \<Longrightarrow> sig_ok L \<Longrightarrow> length (seal_box L m nonce key sk) = length m + 64"
  by (simp add: seal_box_def Let_def sig_okD(1))

lemma Encrypt_ok:
  assumes "aes_ok L" "sig_ok L" "16 \<le> length (if b then pk_PrevShared k else pk_Shared k)"
  shows "Encrypt L m k r l s b = Inr (seal_box L m (Nonce r l s) (if b then pk_PrevShared k else pk_Shared k) (pk_SigningKey k))"
  using seal_box_ok [OF assms(1,2)] assms(3) by (simp add: Encrypt_def Let_def split: if_splits)

fun onion :: "('s, 'p) lib \<Rightarrow> int \<Rightarrow> nat \<Rightarrow> 's path_key list \<Rightarrow> bytes \<Rightarrow> bytes" where
  "onion L r l [] m = m"
| "onion L r l (k # ks) m =
     seal_box L (onion L r (Suc l) ks m) (Nonce r (int l) (pk_ServerID k)) (pk_Shared k) (pk_SigningKey k)"

lemma length_onion: "aes_ok L \<Longrightarrow> sig_ok L \<Longrightarrow> length (onion L r l ks m) = length m + 64 * length ks"
  by (induction ks arbitrary: l) (simp_all add: length_seal_box)

lemma onion_foldr:
  assumes "aes_ok L" "sig_ok L" "\<forall>k \<in> set ks. 16 \<le> length (pk_Shared k)"
  shows "foldr (\<lambda>(layer, key) r. sbind r (\<lambda>message. sbind (deref key) (\<lambda>key.
              Encrypt L message key round (int layer) (pk_ServerID key) False)))
       (zip [l..<l + length ks] (map Some ks)) (Inr m) = Inr (onion L round l ks m)"
  using assms(3)
proof (induction ks arbitrary: l)
  case (Cons k ks)
  have "[l..<l + length (k # ks)] = l # [Suc l..<Suc l + length ks]" by (simp add: upt_conv_Cons del: upt_Suc)
  then show ?case using Cons.IH [of "Suc l"] Cons.prems Encrypt_ok [OF assms(1,2), of False k]
    by (simp add: deref_def del: upt_Suc)
qed simp

lemma OnionEncrypt_ok:
  assumes "aes_ok L" "sig_ok L" "\<forall>k \<in> set ks. 16 \<le> length (pk_Shared k)"
  shows "OnionEncrypt L t m (map Some ks) = Inr (onion L (cs_Round (cl_Common t)) 0 ks m)"
  using onion_foldr [OF assms, of _ 0] by (simp add: OnionEncrypt_def)

text \<open>What a client with path keys \<open>ks\<close> and signing key \<open>last\<close> submits.\<close>

definition final_bytes :: "('s, 'p) lib \<Rightarrow> signing_key \<Rightarrow> bytes \<Rightarrow> bytes" where
  "final_bytes L sk m = Sign L sk m @ m"

lemma lightning_submission_ok:
  assumes "aes_ok L" "sig_ok L" "\<forall>k \<in> set ks. 16 \<le> length (pk_Shared k)"
    and "cl_PathKeys t = map Some (ks @ [k])" "cs_NumLayers (cl_Common t) = int (length ks)"
  shows "lightning_submission L t (cl_PathKeys t) m =
     Inr \<lparr>le_Key = cl_routingKey t, le_SignedCiphertext = onion L (cs_Round (cl_Common t)) 0 ks (final_bytes L (pk_SigningKey k) m),
          le_raw = []\<rparr>"
proof -
  have fm: "GetFinalMessage L t (length ks) m =
      Inr \<lparr>fm_AnonymousVerificationKey = [], fm_Signature = Sign L (pk_SigningKey k) m, fm_Message = m\<rparr>"
    using assms(4)
    by (simp add: GetFinalMessage_def Let_def go_index_def deref_def SignData_def fm_MarshalSigned_def nth_append)
  have mi: "fm_MarshalI \<lparr>fm_AnonymousVerificationKey = [], fm_Signature = Sign L (pk_SigningKey k) m, fm_Message = m\<rparr> =
      final_bytes L (pk_SigningKey k) m"
    using sig_okD(1) [OF assms(2)] by (simp add: fm_MarshalI_def final_bytes_def size_defs)
  have sl: "slice (map Some (ks @ [k])) 0 (length ks) = Inr (map Some ks)" by (simp add: slice_def)
  show ?thesis
    unfolding lightning_submission_def assms(4,5)
    using fm mi sl OnionEncrypt_ok [OF assms(1-3)] by (simp add: Let_def)
qed

section \<open>Lemmas on paths\<close>

text \<open>What \<^verbatim>\<open>MakeTokensAndPath\<close> makes when tokens are not requested from the group: \<open>path_prev i\<close> is the server
  before layer \<open>i\<close> (the client for the first), \<open>path_tok i\<close> the token of layer \<open>i\<close>, \<open>path_srv i\<close> the server it
  selects.\<close>

definition server_of :: "('s, 'p) lib \<Rightarrow> ('fr, 'g1, 'g2, 'gt) mcl \<Rightarrow> nat \<Rightarrow> 'g1 \<Rightarrow> nat" where
  "server_of L M n tok = nat (get_le (take 8 (token_Hash L M tok)) mod int n)"

definition content_bytes :: "verification_key \<Rightarrow> int \<Rightarrow> int \<Rightarrow> bytes" where
  "content_bytes k i prev = put_le 4 i @ put_le 4 i @ put_le 4 prev @ k"

fun path_prev :: "('s, 'p) lib \<Rightarrow> ('fr, 'g1, 'g2, 'gt) mcl \<Rightarrow> 'fr \<Rightarrow> (nat \<Rightarrow> signing_key) \<Rightarrow> nat \<Rightarrow> int \<Rightarrow> nat \<Rightarrow> int" where
  "path_prev L M skey sks N ID 0 = ID"
| "path_prev L M skey sks N ID (Suc i) =
     int (server_of L M N (SkipToken M skey (content_bytes (ed_public L (sks i)) (int i) (path_prev L M skey sks N ID i))))"

definition path_tok :: "('s, 'p) lib \<Rightarrow> ('fr, 'g1, 'g2, 'gt) mcl \<Rightarrow> 'fr \<Rightarrow> (nat \<Rightarrow> signing_key) \<Rightarrow> nat \<Rightarrow> int \<Rightarrow> nat \<Rightarrow> 'g1" where
  "path_tok L M skey sks N ID i =
     SkipToken M skey (content_bytes (ed_public L (sks i)) (int i) (path_prev L M skey sks N ID i))"

definition path_srv :: "('s, 'p) lib \<Rightarrow> ('fr, 'g1, 'g2, 'gt) mcl \<Rightarrow> 'fr \<Rightarrow> (nat \<Rightarrow> signing_key) \<Rightarrow> nat \<Rightarrow> int \<Rightarrow> nat \<Rightarrow> nat" where
  "path_srv L M skey sks N ID i = server_of L M N (path_tok L M skey sks N ID i)"

lemma path_prev_Suc: "path_prev L M skey sks N ID (Suc i) = int (path_srv L M skey sks N ID i)"
  by (simp add: path_srv_def path_tok_def)

text \<open>The path key of layer \<open>i\<close> of \<open>n\<close>, with \<open>xs i\<close> the scalar of the signing key.\<close>

definition path_entry ::
  "('s, 'p) lib \<Rightarrow> ('fr, 'g1, 'g2, 'gt) mcl \<Rightarrow> 'fr \<Rightarrow> (nat \<Rightarrow> signing_key) \<Rightarrow> (nat \<Rightarrow> 's) \<Rightarrow> ('s, 'p, 'g2, 'r) client \<Rightarrow> nat \<Rightarrow> nat \<Rightarrow> 's path_key" where
  "path_entry L M skey sks xs t n i =
     (let N = cs_NumServers (cl_Common t); pubs = cs_ServerPublicKeys (cl_Common t); prev = path_prev L M skey sks N (cl_ID t) i;
          srv = path_srv L M skey sks N (cl_ID t) i in
      if i < n then
        \<lparr>pk_SigningKey = sks i, pk_Secret = xs i, pk_ServerID = int srv, pk_Shared = SharedKey L (xs i) (pubs ! srv),
         pk_PrevServerID = (if i = 0 then 0 else prev), pk_PrevShared = (if i = 0 then [] else SharedKey L (xs i) (pubs ! nat prev))\<rparr>
      else \<lparr>pk_SigningKey = sks i, pk_Secret = xs i, pk_ServerID = 0, pk_Shared = [], pk_PrevServerID = prev,
            pk_PrevShared = SharedKey L (xs i) (cl_GroupPublicKey t)\<rparr>)"

lemma server_of_ok:
  assumes "0 < cs_NumServers c"
  shows "HashToServer c (token_Hash L M tok) = Inr (server_of L M (cs_NumServers c) tok)"
    "server_of L M (cs_NumServers c) tok < cs_NumServers c"
proof -
  show h: "HashToServer c (token_Hash L M tok) = Inr (server_of L M (cs_NumServers c) tok)"
    using assms by (simp add: HashToServer_def server_of_def)
  show "server_of L M (cs_NumServers c) tok < cs_NumServers c" by (rule HashToServer_range [OF h])
qed

lemma path_step_ok:
  fixes t :: "('s, 'p, 'g2, 'r) client" and M :: "('fr, 'g1, 'g2, 'gt) mcl"
  defines "N \<equiv> cs_NumServers (cl_Common t)"
  assumes "sig_ok L" "ToScalar L (sks i) = Inr (xs i)" "0 < N" "length (cs_ServerPublicKeys (cl_Common t)) = N" "i < m"
  shows "path_step L M skey R c sks blinds i (path_prev L M skey sks N (cl_ID t) i) n t =
     (n, t\<lparr>cl_PathKeys := (cl_PathKeys t)[i := Some (path_entry L M skey sks xs t m i)]\<rparr>,
      Inr (path_prev L M skey sks N (cl_ID t) (Suc i), path_tok L M skey sks N (cl_ID t) i, ed_public L (sks i)))"
proof -
  let ?prev = "path_prev L M skey sks N (cl_ID t) i" and ?tok = "path_tok L M skey sks N (cl_ID t) i"
  have tc: "TokenContent (ed_public L (sks i)) (int i) (int i) ?prev = Inr (content_bytes (ed_public L (sks i)) (int i) ?prev)"
    using sig_okD(3) [OF assms(2)] by (simp add: TokenContent_ok content_bytes_def)
  let ?srv = "path_srv L M skey sks N (cl_ID t) i" and ?pubs = "cs_ServerPublicKeys (cl_Common t)"
  have N: "0 < cs_NumServers (cl_Common t)" using assms(4) by (simp add: N_def)
  have lt: "?srv < N" unfolding path_srv_def N_def by (rule server_of_ok(2) [OF N])
  have gt: "get_token L M skey R c (blinds i) n t (content_bytes (ed_public L (sks i)) (int i) ?prev) (int i) = (n, Inr ?tok)"
    by (simp add: get_token_def SkipToken_config_def path_tok_def)
  have hs: "sbind (HashToServer (cl_Common t) (token_Hash L M ?tok)) (\<lambda>nextServer.
      sbind (go_index ?pubs nextServer) (\<lambda>spk. Inr (nextServer, SharedKey L (xs i) spk))) =
      Inr (?srv, SharedKey L (xs i) (?pubs ! ?srv))"
    unfolding server_of_ok(1) [OF N] path_srv_def [symmetric] N_def [symmetric] using lt assms(5) by (simp add: go_index_def)
  have sc: "sbind (ToScalar L (sks i)) (\<lambda>secret. sbind (TokenContent (ed_public L (sks i)) (int i) (int i) ?prev)
      (\<lambda>content. Inr (secret, content))) = Inr (xs i, content_bytes (ed_public L (sks i)) (int i) ?prev)"
    unfolding assms(3) tc by simp
  have e: "path_entry L M skey sks xs t m i =
      \<lparr>pk_SigningKey = sks i, pk_Secret = xs i, pk_ServerID = int ?srv, pk_Shared = SharedKey L (xs i) (?pubs ! ?srv),
         pk_PrevServerID = (if i = 0 then 0 else ?prev), pk_PrevShared = (if i = 0 then [] else SharedKey L (xs i) (?pubs ! nat ?prev))\<rparr>"
    using assms(6) by (simp add: path_entry_def Let_def N_def)
  note step = path_step_def [of L M skey R c sks blinds i ?prev n t, unfolded Let_def sc sum.case prod.case gt hs]
  show ?thesis
  proof (cases i)
    case 0
    then show ?thesis unfolding step e path_prev_Suc by simp
  next
    case (Suc j)
    have "path_srv L M skey sks N (cl_ID t) j < N" unfolding path_srv_def N_def by (rule server_of_ok(2) [OF N])
    then have pv: "go_index_int ?pubs ?prev = Inr (?pubs ! nat ?prev)"
      unfolding Suc path_prev_Suc using assms(5) by (simp add: go_index_int_def)
    have "i \<noteq> 0" using Suc by simp
    then show ?thesis unfolding step e path_prev_Suc pv by simp
  qed
qed

lemma path_entry_cong [simp]:
  "path_entry L M skey sks xs (t\<lparr>cl_PathKeys := ks\<rparr>) m i = path_entry L M skey sks xs t m i"
  by (simp add: path_entry_def Let_def)

lemma path_loop_ok:
  fixes t :: "('s, 'p, 'g2, 'r) client" and M :: "('fr, 'g1, 'g2, 'gt) mcl"
  assumes "sig_ok L" "\<forall>i < m. ToScalar L (sks i) = Inr (xs i)" "0 < cs_NumServers (cl_Common t)"
    "length (cs_ServerPublicKeys (cl_Common t)) = cs_NumServers (cl_Common t)" "i \<le> m" "m \<le> length (cl_PathKeys t)"
  shows "path_loop L M skey R c sks blinds [i..<m] (path_prev L M skey sks (cs_NumServers (cl_Common t)) (cl_ID t) i) n t =
     (n, t\<lparr>cl_PathKeys := take i (cl_PathKeys t) @ map (\<lambda>j. Some (path_entry L M skey sks xs t m j)) [i..<m] @ drop m (cl_PathKeys t)\<rparr>,
      Inr (path_prev L M skey sks (cs_NumServers (cl_Common t)) (cl_ID t) m,
           map (path_tok L M skey sks (cs_NumServers (cl_Common t)) (cl_ID t)) [i..<m], map (\<lambda>j. ed_public L (sks j)) [i..<m]))"
  using assms(5,6,3,4)
proof (induction i arbitrary: t rule: inc_induct)
  case base
  then show ?case by simp
next
  case (step i)
  let ?e = "path_entry L M skey sks xs t m i"
  let ?t = "t\<lparr>cl_PathKeys := (cl_PathKeys t)[i := Some ?e]\<rparr>"
  have u: "[i..<m] = i # [Suc i..<m]" using step.hyps by (simp add: upt_conv_Cons)
  have s: "path_step L M skey R c sks blinds i (path_prev L M skey sks (cs_NumServers (cl_Common t)) (cl_ID t) i) n t =
     (n, ?t, Inr (path_prev L M skey sks (cs_NumServers (cl_Common t)) (cl_ID t) (Suc i),
       path_tok L M skey sks (cs_NumServers (cl_Common t)) (cl_ID t) i, ed_public L (sks i)))"
    using step.prems step.hyps assms(2) by (intro path_step_ok [OF assms(1)]) auto
  have "take (Suc i) (cl_PathKeys ?t) = take i (cl_PathKeys t) @ [Some ?e]"
    using step.hyps step.prems by (simp add: take_Suc_conv_app_nth)
  moreover have "drop m (cl_PathKeys ?t) = drop m (cl_PathKeys t)" using step.hyps by simp
  ultimately show ?case
    using step.IH [of ?t] step.prems unfolding u path_loop.simps s by (simp del: path_prev.simps)
qed

lemma MakeTokensAndPath_ok:
  fixes t :: "('s, 'p, 'g2, 'r) client" and M :: "('fr, 'g1, 'g2, 'gt) mcl"
  assumes "sig_ok L" "\<forall>i \<le> m. ToScalar L (sks i) = Inr (xs i)" "0 < cs_NumServers (cl_Common t)"
    "length (cs_ServerPublicKeys (cl_Common t)) = cs_NumServers (cl_Common t)"
  shows "MakeTokensAndPath L M skey R c sks blinds n t m =
     (n, t\<lparr>cl_PathKeys := map (\<lambda>j. Some (path_entry L M skey sks xs t m j)) [0..<m + 1],
           cl_AnonymousVerificationKey := ed_public L (sks m), cl_routingKey := ed_public L (sks 0)\<rparr>,
      Inr (map (path_tok L M skey sks (cs_NumServers (cl_Common t)) (cl_ID t)) [0..<m + 1],
           map (\<lambda>j. ed_public L (sks j)) [0..<m + 1]))"
proof -
  let ?N = "cs_NumServers (cl_Common t)" and ?t = "t\<lparr>cl_PathKeys := replicate (m + 1) None\<rparr>"
  let ?ks = "map (\<lambda>j. Some (path_entry L M skey sks xs t m j)) [0..<m]"
  have pl: "path_loop L M skey R c sks blinds [0..<m] (cl_ID t) n ?t =
     (n, t\<lparr>cl_PathKeys := ?ks @ [None]\<rparr>, Inr (path_prev L M skey sks ?N (cl_ID t) m,
        map (path_tok L M skey sks ?N (cl_ID t)) [0..<m], map (\<lambda>j. ed_public L (sks j)) [0..<m]))"
  proof -
    have "drop m (replicate (m + 1) None) = [None :: 's path_key option]" by (simp only: drop_replicate) simp
    then show ?thesis
      using path_loop_ok [OF assms(1), where t = ?t and i = 0 and m = m and xs = xs and sks = sks and M = M] assms(2-4)
      by (simp del: replicate.simps replicate_Suc drop_replicate)
  qed
  have tc: "TokenContent (ed_public L (sks m)) (int m) (int m) p = Inr (content_bytes (ed_public L (sks m)) (int m) p)" for p
    using sig_okD(3) [OF assms(1)] by (simp add: TokenContent_ok content_bytes_def)
  have tok: "get_token L M skey R c b n' t' (content_bytes (ed_public L (sks m)) (int m) (path_prev L M skey sks ?N (cl_ID t) m)) l =
      (n', Inr (path_tok L M skey sks ?N (cl_ID t) m))" for b n' l and t' :: "('s, 'p, 'g2, 'r) client"
    by (simp add: get_token_def SkipToken_config_def path_tok_def)
  have e: "path_entry L M skey sks xs t m m = \<lparr>pk_SigningKey = sks m, pk_Secret = xs m, pk_ServerID = 0, pk_Shared = [],
      pk_PrevServerID = path_prev L M skey sks ?N (cl_ID t) m, pk_PrevShared = SharedKey L (xs m) (cl_GroupPublicKey t)\<rparr>"
    by (simp add: path_entry_def Let_def)
  have lk: "LookupKey (hd (map (\<lambda>j. ed_public L (sks j)) [0..<m] @ [ed_public L (sks m)])) = ed_public L (sks 0)"
    using LookupKey_id [OF sig_okD(3) [OF assms(1)]] by (cases m) (simp_all add: upt_conv_Cons del: upt_Suc)
  have "ToScalar L (sks m) = Inr (xs m)" using assms(2) by simp
  then show ?thesis
    unfolding MakeTokensAndPath_def pl prod.case sum.case using e lk
    by (simp add: Let_def tc tok list_update_append)
qed

lemma boomerang_fold:
  assumes "aes_ok L" "sig_ok L" "\<forall>j \<in> set js. j < m \<and> 16 \<le> length (pk_PrevShared (e (j + 1)))"
  shows "\<exists>boom. foldl (\<lambda>r layer. sbind r (\<lambda>message.
              sbind (go_index (map (\<lambda>j. Some (e j)) [0..<m + 1]) (layer + 1)) (\<lambda>k1. sbind (deref k1) (\<lambda>k1.
              sbind (go_index (map (\<lambda>j. Some (e j)) [0..<m + 1]) layer) (\<lambda>k0. sbind (deref k0) (\<lambda>k0.
                Encrypt L message k1 r0 (int layer + n0) (pk_ServerID k0) True)))))) (Inr msg) js = Inr boom \<and>
     length boom = length msg + 64 * length js"
  using assms(3)
proof (induction js arbitrary: msg)
  case (Cons j js)
  let ?b = "seal_box L msg (Nonce r0 (int j + n0) (pk_ServerID (e j))) (pk_PrevShared (e (j + 1))) (pk_SigningKey (e (j + 1)))"
  have "j < m" "16 \<le> length (pk_PrevShared (e (j + 1)))" using Cons.prems by auto
  then have step: "sbind (go_index (map (\<lambda>j. Some (e j)) [0..<m + 1]) (j + 1)) (\<lambda>k1. sbind (deref k1) (\<lambda>k1.
              sbind (go_index (map (\<lambda>j. Some (e j)) [0..<m + 1]) j) (\<lambda>k0. sbind (deref k0) (\<lambda>k0.
                Encrypt L msg k1 r0 (int j + n0) (pk_ServerID k0) True)))) = Inr ?b"
    using Encrypt_ok [OF assms(1,2), of True "e (j + 1)"] by (simp add: go_index_def deref_def nth_append del: upt_Suc)
  obtain boom where boom: "foldl (\<lambda>r layer. sbind r (\<lambda>message.
              sbind (go_index (map (\<lambda>j. Some (e j)) [0..<m + 1]) (layer + 1)) (\<lambda>k1. sbind (deref k1) (\<lambda>k1.
              sbind (go_index (map (\<lambda>j. Some (e j)) [0..<m + 1]) layer) (\<lambda>k0. sbind (deref k0) (\<lambda>k0.
                Encrypt L message k1 r0 (int layer + n0) (pk_ServerID k0) True)))))) (Inr ?b) js = Inr boom"
     "length boom = length ?b + 64 * length js"
    using Cons.IH [of ?b] Cons.prems by auto
  then show ?case
    unfolding foldl_Cons sbind_Inr step by (simp add: length_seal_box [OF assms(1,2)])
qed simp

lemma BoomerangBase_ok:
  assumes "aes_ok L" "sig_ok L" "\<forall>j < m. 16 \<le> length (pk_PrevShared (e (j + 1)))" "l \<le> m"
  shows "\<exists>boom. BoomerangBase L t nonce (map (\<lambda>j. Some (e j)) [0..<m + 1]) l limit = Inr (boom, nonce) \<and>
     length boom = receipt_length (length nonce) limit l"
proof -
  have j: "\<forall>j \<in> set [l - limit..<l]. j < m \<and> 16 \<le> length (pk_PrevShared (e (j + 1)))" using assms(3,4) by auto
  have "length [l - limit..<l] = min l limit" by simp
  with boomerang_fold [OF assms(1,2) j, of "int l" "cs_NumLayers (cl_Common t)" nonce] show ?thesis
    unfolding BoomerangBase_def by (auto simp: receipt_length_def simp del: upt_Suc)
qed

text \<open>The information sealed for layer \<open>l\<close>.\<close>

definition layer_info ::
  "('s, 'p) lib \<Rightarrow> ('fr, 'g1, 'g2, 'gt) mcl \<Rightarrow> verification_key list \<Rightarrow> 'g1 list \<Rightarrow> nat \<Rightarrow> bytes \<Rightarrow> bytes \<Rightarrow> bytes" where
  "layer_info L M pks tokens l boom rest = pks ! (l + 1) @ g1_ser M (tokens ! (l + 1)) @ boom @ rest"

lemma path_layer_ok:
  fixes e :: "nat \<Rightarrow> 's path_key"
  assumes L: "aes_ok L" "sig_ok L" and M: "enc_ok M" and l: "l < m"
    and keys: "cl_PathKeys t = map (\<lambda>j. Some (e j)) [0..<m + 1]"
    and sh: "\<forall>j < m. 16 \<le> length (pk_PrevShared (e (j + 1))) \<and> 16 \<le> length (pk_Shared (e j))"
    and len: "length tokens = m + 1" "length pks = m + 1" "\<forall>k \<in> set pks. length k = 32"
  shows "\<exists>boom. length boom = receipt_length (length (nonces l)) limit l + (if l = m - 1 then 64 else 0) \<and>
     path_layer L M t tokens pks nonces m limit l env =
       Inr (seal_box L (layer_info L M pks tokens l boom env) (Nonce (int l) (int l) (pk_ServerID (e l)))
              (pk_Shared (e l)) (pk_SigningKey (e l)), nonces l)"
proof -
  obtain b0 where b0: "BoomerangBase L t (nonces l) (cl_PathKeys t) l limit = Inr (b0, nonces l)"
    "length b0 = receipt_length (length (nonces l)) limit l"
    using BoomerangBase_ok [OF L, of m e l t "nonces l" limit] sh l unfolding keys by auto
  have g: "go_index (cl_PathKeys t) j = Inr (Some (e j))" if "j \<le> m" for j
    using that unfolding keys by (simp add: go_index_def del: upt_Suc)
  let ?b = "if l = m - 1 then seal_box L b0 (Nonce (int m) (int m) (pk_PrevServerID (e m))) (pk_PrevShared (e m)) (pk_SigningKey (e m)) else b0"
  have pm: "16 \<le> length (pk_PrevShared (e m))" using sh l by (cases m) auto
  have bo: "(if l = m - 1 then sbind (go_index (cl_PathKeys t) m) (\<lambda>k. sbind (deref k) (\<lambda>k.
                Encrypt L b0 k (int m) (int m) (pk_PrevServerID k) True)) else Inr b0) = Inr ?b"
    unfolding g [OF order_refl] sbind_Inr deref_def of_option_Some
    using Encrypt_ok [OF L, of True "e m"] pm by simp
  have "length (pks ! (l + 1)) = 32" using len l by simp
  then have mar: "pi_Marshal M \<lparr>pi_OutKey = pks ! (l + 1), pi_OutToken = tokens ! (l + 1), pi_BoomerangEnvelope = ?b,
      pi_NextEnvelope = env, pi_raw = []\<rparr> = Inr (layer_info L M pks tokens l ?b env)"
    using pi_Marshal_ok [OF M] by (simp add: layer_info_def)
  have "path_layer L M t tokens pks nonces m limit l env =
       Inr (seal_box L (layer_info L M pks tokens l ?b env) (Nonce (int l) (int l) (pk_ServerID (e l)))
              (pk_Shared (e l)) (pk_SigningKey (e l)), nonces l)"
    unfolding path_layer_def b0(1) bo sbind_Inr prod.case
    using l len g [of l] mar Encrypt_ok [OF L, of False "e l"] sh
    by (simp add: go_index_def deref_def)
  moreover have "length ?b = receipt_length (length (nonces l)) limit l + (if l = m - 1 then 64 else 0)"
    using b0(2) by (simp add: length_seal_box [OF L])
  ultimately show ?thesis by blast
qed

text \<open>All layers: the message that is left for layer \<open>j\<close> is \<open>envs j\<close>.\<close>

lemma path_layers_ok:
  fixes e :: "nat \<Rightarrow> 's path_key"
  assumes "aes_ok L" "sig_ok L" "enc_ok M" "cl_PathKeys t = map (\<lambda>j. Some (e j)) [0..<m + 1]"
    and "\<forall>j < m. 16 \<le> length (pk_PrevShared (e (j + 1))) \<and> 16 \<le> length (pk_Shared (e j))"
    and "length tokens = m + 1" "length pks = m + 1" "\<forall>k \<in> set pks. length k = 32" "l \<le> m"
  shows "\<exists>envs. envs l = env \<and> path_layers L M t tokens pks nonces m limit l env receipts = Inr (envs 0, map nonces [0..<l] @ receipts) \<and>
     (\<forall>j < l. \<exists>boom. length boom = receipt_length (length (nonces j)) limit j + (if j = m - 1 then 64 else 0) \<and>
        envs j = seal_box L (layer_info L M pks tokens j boom (envs (Suc j))) (Nonce (int j) (int j) (pk_ServerID (e j)))
              (pk_Shared (e j)) (pk_SigningKey (e j)))"
  using assms(9)
proof (induction l arbitrary: env receipts)
  case 0
  show ?case by (rule exI [of _ "\<lambda>_. env"]) simp
next
  case (Suc l)
  then obtain boom where b: "length boom = receipt_length (length (nonces l)) limit l + (if l = m - 1 then 64 else 0)"
    "path_layer L M t tokens pks nonces m limit l env =
       Inr (seal_box L (layer_info L M pks tokens l boom env) (Nonce (int l) (int l) (pk_ServerID (e l)))
              (pk_Shared (e l)) (pk_SigningKey (e l)), nonces l)"
    using path_layer_ok [OF assms(1-3) _ assms(4-8), where l = l and nonces = nonces and limit = limit and env = env] by auto
  let ?E = "seal_box L (layer_info L M pks tokens l boom env) (Nonce (int l) (int l) (pk_ServerID (e l))) (pk_Shared (e l)) (pk_SigningKey (e l))"
  obtain envs where envs: "envs l = ?E"
    "path_layers L M t tokens pks nonces m limit l ?E (nonces l # receipts) = Inr (envs 0, map nonces [0..<l] @ nonces l # receipts)"
    "\<forall>j < l. \<exists>boom. length boom = receipt_length (length (nonces j)) limit j + (if j = m - 1 then 64 else 0) \<and>
        envs j = seal_box L (layer_info L M pks tokens j boom (envs (Suc j))) (Nonce (int j) (int j) (pk_ServerID (e j)))
              (pk_Shared (e j)) (pk_SigningKey (e j))"
    using Suc.IH [of ?E "nonces l # receipts"] Suc.prems by auto
  let ?envs = "envs(Suc l := env)"
  have "\<forall>j < Suc l. \<exists>boom. length boom = receipt_length (length (nonces j)) limit j + (if j = m - 1 then 64 else 0) \<and>
        ?envs j = seal_box L (layer_info L M pks tokens j boom (?envs (Suc j))) (Nonce (int j) (int j) (pk_ServerID (e j)))
              (pk_Shared (e j)) (pk_SigningKey (e j))"
    using envs(1,3) b(1) by (auto simp: less_Suc_eq)
  then show ?case using envs(2) b(2) by (intro exI [of _ ?envs]) simp
qed

text \<open>The state of the server of layer \<open>l\<close> on a path of \<open>m\<close> layers, as far as a path message depends on it.\<close>

definition path_server ::
  "('fr, 'g1, 'g2, 'gt) mcl \<Rightarrow> 'fr \<Rightarrow> nat \<Rightarrow> nat \<Rightarrow> nat \<Rightarrow> nat \<Rightarrow> nat \<Rightarrow> ('s, 'p, 'g2, 'r) common_state \<Rightarrow> bool" where
  "path_server M skey N m limit l srv c \<longleftrightarrow>
     cs_Round c = int l \<and> cs_Layer c = int l \<and> cs_MyId c = int srv \<and> cs_NumServers c = N \<and>
     cs_CombinedKey c = Some (TokenPublicKey M skey) \<and> BoomerangLengths m 8 limit = Inr (cs_BoomerangMessageLengths c)"

lemma skip_token_verifies_for:
  assumes "mcl_ok M" "length k = 32"
  shows "sbind (TokenContent k i i prev) (verify_with M (Some (TokenPublicKey M skey)) (SkipToken M skey (content_bytes k i prev))) = Inr True"
  using skip_token_signature(1) [OF assms(1)] assms(2)
  by (simp add: TokenContent_ok content_bytes_def verify_with_def)

lemma path_message_ok_client:
  fixes M :: "('fr, 'g1, 'g2, 'gt) mcl"
  assumes "lib_ok L" "mcl_ok M" "0 < N" "N \<le> 2 ^ 64" "l < m" "ToScalar L (sks l) = Inr x"
    and "path_server M skey N m limit l (path_srv L M skey sks N ID l) c"
    and "length boom = receipt_length 8 limit l + (if l = m - 1 then 64 else 0)"
  shows "path_message_ok L M c s (int l) (path_prev L M skey sks N ID l) (sks l) x (path_tok L M skey sks N ID l)
     (ed_public L (sks (l + 1))) (path_tok L M skey sks N ID (l + 1)) boom (path_srv L M skey sks N ID (l + 1))"
proof -
  note c = assms(7) [unfolded path_server_def] and k = sig_okD(3) [OF lib_okD(2) [OF assms(1)]]
  have n: "0 < cs_NumServers c" using c assms(3) by simp
  have h: "HashToServer c (token_Hash L M (path_tok L M skey sks N ID i)) = Inr (path_srv L M skey sks N ID i)" for i
    using server_of_ok(1) [OF n] c by (simp add: path_srv_def)
  have v: "sbind (TokenContent (ed_public L (sks i)) (int i) (int i) (path_prev L M skey sks N ID i))
      (verify_with M (Some (TokenPublicKey M skey)) (path_tok L M skey sks N ID i)) = Inr True" for i
    unfolding path_tok_def by (rule skip_token_verifies_for [OF assms(2) k])
  have v1: "sbind (TokenContent (ed_public L (sks (l + 1))) (int l + 1) (int l + 1) (int (path_srv L M skey sks N ID l)))
      (verify_with M (Some (TokenPublicKey M skey)) (path_tok L M skey sks N ID (l + 1))) = Inr True"
    using v [of "l + 1"] unfolding Suc_eq_plus1 [symmetric] path_prev_Suc by (simp add: add.commute)
  have g: "g1_valid M (path_tok L M skey sks N ID i)" for i
    unfolding path_tok_def by (rule skip_token_signature(2) [OF assms(2)])
  have "\<exists>ls. BoomerangLengths m 8 limit = Inr ls \<and> length ls = m \<and>
     (\<forall>j < m. ls ! j = receipt_length 8 limit j + (if j = m - 1 then 64 else 0))"
    using assms(5) by (intro BoomerangLengths_ok) simp
  then have b: "go_index_int (cs_BoomerangMessageLengths c) (int l) = Inr (length boom)"
    using c assms(5,8) by (auto simp: go_index_int_def)
  have "path_srv L M skey sks N ID l < N" using server_of_ok(2) [OF n, of L M] c by (simp add: path_srv_def)
  then have "path_srv L M skey sks N ID l < 2 ^ 64" using assms(4) by (rule order_less_le_trans)
  then have lt: "int (path_srv L M skey sks N ID l) < 2 ^ 64" by simp
  have cc: "cs_Round c = int l" "cs_MyId c = int (path_srv L M skey sks N ID l)"
    "cs_CombinedKey c = Some (TokenPublicKey M skey)" using c by simp_all
  show ?thesis
    unfolding path_message_ok_def
  proof (intro conjI)
    show "\<exists>pk. cs_CombinedKey c = Some pk \<and>
        sbind (TokenContent (ed_public L (sks l)) (cs_Round c) (cs_Round c) (path_prev L M skey sks N ID l))
          (verify_with M (Some pk) (path_tok L M skey sks N ID l)) = Inr True \<and>
        sbind (TokenContent (ed_public L (sks (l + 1))) (cs_Round c + 1) (cs_Round c + 1) (cs_MyId c))
          (verify_with M (Some pk) (path_tok L M skey sks N ID (l + 1))) = Inr True"
      unfolding cc by (intro exI [of _ "TokenPublicKey M skey"] conjI refl v v1)
    show "\<exists>h'. HashToServer c (token_Hash L M (path_tok L M skey sks N ID l)) = Inr h' \<and> int h' = cs_MyId c"
      unfolding cc by (intro exI [of _ "path_srv L M skey sks N ID l"] conjI refl h)
    show "cs_MyId c < 2 ^ 64" unfolding cc by (rule lt)
  qed (use b g k h assms(6) in blast)+
qed

lemma path_entries_shared:
  assumes "point_ok L"
  shows "\<forall>j < m. 16 \<le> length (pk_PrevShared (path_entry L M skey sks xs t m (j + 1))) \<and>
           16 \<le> length (pk_Shared (path_entry L M skey sks xs t m j))"
  using length_SharedKey [OF assms] by (simp add: path_entry_def Let_def)

section \<open>Properties\<close>

text \<open>C5. A client's path message is accepted at every server of its path: with the tokens and keys a client
  makes, the message left for layer \<open>l\<close> is authenticated by the server that the token of layer \<open>l\<close> selects (for
  any state of that server with the round's parameters), whatever the number of layers and the limit on
  receipts; the server finds the key and token of the next layer, the server they select, a receipt of the
  size it expects, and the message for layer \<open>l + 1\<close>. The receipts the client keeps are the random bytes it
  chose, in the order of the layers.\<close>

theorem client_path_accepted:
  fixes M :: "('fr, 'g1, 'g2, 'gt) mcl" and t :: "('s, 'p, 'g2, 'r) client"
  defines "N \<equiv> cs_NumServers (cl_Common t)"
  assumes "lib_ok L" and "mcl_ok M" and "24 \<le> TOKEN_SIZE M"
    and "\<forall>i \<le> m. ToScalar L (sks i) = Inr (xs i)" and "\<forall>l. length (nonces l) = 8" and "0 < N" and "N \<le> 2 ^ 64"
    and "cs_ServerPublicKeys (cl_Common t) = map (\<lambda>j. PublicKey L (secrets j)) [0..<N]"
    and "MakeOptimizedPathEstablishmentMessage L M skey R c sks blinds nonces n t m limit = (n', t', r)"
  shows "\<exists>env envs. r = Inr (env, map nonces [0..<m]) \<and> cl_Receipts t' = map nonces [0..<m] \<and>
     pe_InKey env = ed_public L (sks 0) \<and> pe_InToken env = path_tok L M skey sks N (cl_ID t) 0 \<and>
     pe_SignedCiphertext env = envs 0 \<and> envs m = [] \<and>
     (\<forall>l < m. \<forall>(c :: ('s, 'p, 'g2, 'r) common_state) md. path_server M skey N m limit l (path_srv L M skey sks N (cl_ID t) l) c \<and> md_Sender md = path_prev L M skey sks N (cl_ID t) l \<longrightarrow>
        (\<exists>pm pi boom. authenticate_path L M c (secrets (path_srv L M skey sks N (cl_ID t) l)) (int l) md
             (ed_public L (sks l) @ g1_ser M (path_tok L M skey sks N (cl_ID t) l) @ envs l) =
           Inr (pm, pk_Shared (path_entry L M skey sks xs t m l), pi, path_srv L M skey sks N (cl_ID t) (l + 1)) \<and>
         pi_OutKey pi = ed_public L (sks (l + 1)) \<and> pi_OutToken pi = path_tok L M skey sks N (cl_ID t) (l + 1) \<and>
         pi_BoomerangEnvelope pi = boom \<and> pi_NextEnvelope pi = envs (l + 1)))"
proof -
  note lib = lib_okD [OF assms(2)] and enc = mcl_okD(4) [OF assms(3)]
  let ?tok = "path_tok L M skey sks N (cl_ID t)" and ?srv = "path_srv L M skey sks N (cl_ID t)"
  let ?e = "path_entry L M skey sks xs t m" and ?pub = "\<lambda>j. ed_public L (sks j)"
  define t1 where "t1 = t\<lparr>cl_PathKeys := map (\<lambda>j. Some (?e j)) [0..<m + 1], cl_AnonymousVerificationKey := ?pub m, cl_routingKey := ?pub 0\<rparr>"
  have pubs: "length (cs_ServerPublicKeys (cl_Common t)) = cs_NumServers (cl_Common t)" using assms(9) by (simp add: N_def)
  have mk: "MakeTokensAndPath L M skey R c sks blinds n t m = (n, t1, Inr (map ?tok [0..<m + 1], map ?pub [0..<m + 1]))"
    unfolding t1_def N_def using assms(5,7) pubs by (intro MakeTokensAndPath_ok [OF lib(2)]) (simp_all add: N_def)
  have keys: "cl_PathKeys t1 = map (\<lambda>j. Some (?e j)) [0..<m + 1]" by (simp add: t1_def)
  have k32: "\<forall>k \<in> set (map ?pub [0..<m + 1]). length k = 32" using sig_okD(3) [OF lib(2)] by auto
  obtain envs where envs: "envs m = []"
    "path_layers L M t1 (map ?tok [0..<m + 1]) (map ?pub [0..<m + 1]) nonces m limit m [] [] = Inr (envs 0, map nonces [0..<m] @ [])"
    "\<forall>j < m. \<exists>boom. length boom = receipt_length (length (nonces j)) limit j + (if j = m - 1 then 64 else 0) \<and>
        envs j = seal_box L (layer_info L M (map ?pub [0..<m + 1]) (map ?tok [0..<m + 1]) j boom (envs (Suc j)))
          (Nonce (int j) (int j) (pk_ServerID (?e j))) (pk_Shared (?e j)) (pk_SigningKey (?e j))"
  proof -
    have len: "length (map ?tok [0..<m + 1]) = m + 1" "length (map ?pub [0..<m + 1]) = m + 1" by simp_all
    from path_layers_ok [OF lib(1,2) enc keys path_entries_shared [OF lib(3)] len k32 order_refl,
        where env = "[]" and receipts = "[]" and nonces = nonces and limit = limit] that show ?thesis by blast
  qed
  have r: "r = Inr (\<lparr>pe_InKey = ?pub 0, pe_InToken = ?tok 0, pe_SignedCiphertext = envs 0, pe_raw = []\<rparr>, map nonces [0..<m])"
    "cl_Receipts t' = map nonces [0..<m]"
    using assms(10) unfolding MakeOptimizedPathEstablishmentMessage_def mk prod.case sum.case envs(2)
    by (auto simp: go_index_def simp del: upt_Suc)
  have "\<exists>pm pi boom. authenticate_path L M c (secrets (?srv l)) (int l) md (?pub l @ g1_ser M (?tok l) @ envs l) =
           Inr (pm, pk_Shared (?e l), pi, ?srv (l + 1)) \<and> pi_OutKey pi = ?pub (l + 1) \<and> pi_OutToken pi = ?tok (l + 1) \<and>
         pi_BoomerangEnvelope pi = boom \<and> pi_NextEnvelope pi = envs (l + 1)"
    if l: "l < m" and c: "path_server M skey N m limit l (?srv l) c" and md: "md_Sender md = path_prev L M skey sks N (cl_ID t) l"
    for l md and c :: "('s, 'p, 'g2, 'r) common_state"
  proof -
    have N: "0 < cs_NumServers (cl_Common t)" using assms(7) by (simp add: N_def)
    from server_of_ok(2) [OF N, of L M] have "?srv l < N" by (simp add: path_srv_def N_def)
    then have sh: "pk_Shared (?e l) = SharedKey L (xs l) (PublicKey L (secrets (?srv l)))"
      and ek: "pk_ServerID (?e l) = int (?srv l)" "pk_SigningKey (?e l) = sks l"
      using l assms(9) by (simp_all add: path_entry_def Let_def flip: N_def)
    have li: "layer_info L M (map ?pub [0..<m + 1]) (map ?tok [0..<m + 1]) l boom rest = ?pub (l + 1) @ g1_ser M (?tok (l + 1)) @ boom @ rest"
      for boom rest using l by (simp add: layer_info_def nth_append del: upt_Suc)
    obtain boom where boom: "length boom = receipt_length 8 limit l + (if l = m - 1 then 64 else 0)"
      "envs l = seal_box L (?pub (l + 1) @ g1_ser M (?tok (l + 1)) @ boom @ envs (l + 1))
          (Nonce (int l) (int l) (int (?srv l))) (SharedKey L (xs l) (PublicKey L (secrets (?srv l)))) (sks l)"
      using envs(3) [rule_format, OF l] unfolding sh ek li assms(6) [rule_format] Suc_eq_plus1 by blast
    have ok: "path_message_ok L M c (secrets (?srv l)) (int l) (md_Sender md) (sks l) (xs l) (?tok l) (?pub (l + 1)) (?tok (l + 1)) boom (?srv (l + 1))"
      unfolding md using l c boom(1) assms(5) by (intro path_message_ok_client [OF assms(2,3,7,8)]) simp_all
    have cc: "cs_Round c = int l" "cs_Layer c = int l" "cs_MyId c = int (?srv l)" using c by (simp_all add: path_server_def)
    have box: "SignedSecretSeal L (?pub (l + 1) @ g1_ser M (?tok (l + 1)) @ boom @ envs (l + 1))
        (Nonce (cs_Round c) (cs_Layer c) (cs_MyId c)) (SharedKey L (xs l) (PublicKey L (secrets (?srv l)))) (sks l) = Inr (envs l)"
      unfolding cc boom(2) using length_SharedKey [OF lib(3)] by (intro seal_box_ok [OF lib(1,2)]) simp
    from authenticate_path_complete [OF assms(2) enc assms(4) ok refl box] sh show ?thesis by auto
  qed
  then show ?thesis using r envs(1) by (intro exI [of _ "\<lparr>pe_InKey = ?pub 0, pe_InToken = ?tok 0, pe_SignedCiphertext = envs 0, pe_raw = []\<rparr>"] exI [of _ envs]) auto
qed

text \<open>C26. What clients send has the sizes servers expect: the envelope a client submits in a lightning round,
  and every onion that is left after \<open>l\<close> layers have been removed, together with the key it travels
  under, is exactly as long as \<^verbatim>\<open>LightningMessageLengths\<close> says for layer \<open>l\<close>, and the signed message with
  its verification key as it says for the last entry.\<close>

theorem lightning_sizes_match:
  assumes "aes_ok L" and "sig_ok L" and "\<forall>k \<in> set ks. 16 \<le> length (pk_Shared k)"
    and "cl_PathKeys t = map Some (ks @ [k])" and "cs_NumLayers (cl_Common t) = int (length ks)" and "ks \<noteq> []"
    and "lightning_submission L t (cl_PathKeys t) m = Inr env"
  shows "le_Len env = LightningMessageLengths (length ks) (length m) ! 0 \<and>
     (\<forall>l < length ks. KEY_SIZE + length (onion L (cs_Round (cl_Common t)) l (drop l ks) (final_bytes L (pk_SigningKey k) m)) =
        LightningMessageLengths (length ks) (length m) ! l) \<and>
     VERIFICATION_KEY_SIZE + length (final_bytes L (pk_SigningKey k) m) = LightningMessageLengths (length ks) (length m) ! length ks"
proof -
  let ?f = "final_bytes L (pk_SigningKey k) m"
  have f: "length ?f = length m + 64" using sig_okD(1) [OF assms(2)] by (simp add: final_bytes_def)
  have "le_SignedCiphertext env = onion L (cs_Round (cl_Common t)) 0 ks ?f"
    using lightning_submission_ok [OF assms(1-5), of m] assms(7) by auto
  then have "le_Len env = 32 + (length m + 64 + 64 * length ks)"
    using f by (simp add: le_Len_def size_defs length_onion [OF assms(1,2)])
  moreover have "KEY_SIZE + length (onion L (cs_Round (cl_Common t)) l (drop l ks) ?f) =
      32 + (length m + 64 + 64 * (length ks - l))" for l
    using f by (simp add: size_defs length_onion [OF assms(1,2)])
  moreover have "VERIFICATION_KEY_SIZE + length ?f = 32 + (length m + 64)" using f by (simp add: size_defs)
  moreover note LightningMessageLengths_nth(2) [of _ "length ks" "length m"] LightningMessageLengths_nth(3) [of "length ks" "length m"]
  ultimately show ?thesis using assms(6) by simp
qed

text \<open>A client with one layer.\<close>

definition sample_path_key :: "256 word path_key" where
  "sample_path_key = \<lparr>pk_SigningKey = [9], pk_Secret = projr (ToScalar toy_lib [9]), pk_ServerID = 0,
     pk_Shared = SharedKey toy_lib (projr (ToScalar toy_lib [9])) 3, pk_PrevServerID = 0, pk_PrevShared = []\<rparr>"

definition sample_client :: "(256 word, 256 word, 1 word, nat) client" where
  "sample_client = (NewClient toy_lib [7] (sample_state\<lparr>cs_NumLayers := 1\<rparr>) 5 0)
     \<lparr>cl_PathKeys := [Some sample_path_key, Some sample_path_key], cl_routingKey := toy_public [9]\<rparr>"

lemma sample_client_fields:
  "cl_PathKeys sample_client = map Some ([sample_path_key] @ [sample_path_key])"
  "cs_NumLayers (cl_Common sample_client) = int (length [sample_path_key])"
  "\<forall>k \<in> set [sample_path_key]. 16 \<le> length (pk_Shared k)" "cs_Round (cl_Common sample_client) = 0"
  "cl_routingKey sample_client = toy_public [9]"
  using length_SharedKey [OF lib_okD(3) [OF toy_lib_ok]]
  by (simp_all add: sample_client_def NewClient_def sample_state_def sample_path_key_def)

theorem lightning_sizes_match_witness:
  "\<exists>env. lightning_submission toy_lib sample_client (cl_PathKeys sample_client) [1, 2] = Inr env \<and> le_Len env = 162"
proof -
  note L = lib_okD(1,2) [OF toy_lib_ok] and f = sample_client_fields
  obtain env where e: "lightning_submission toy_lib sample_client (cl_PathKeys sample_client) [1, 2] = Inr env"
    using lightning_submission_ok [OF L f(3,1,2)] by blast
  have "LightningMessageLengths 1 2 ! 0 = 162" using LightningMessageLengths_nth(2) [of 0 1 2] by simp
  then show ?thesis using lightning_sizes_match [OF L f(3,1,2) _ e] e by (simp add: numeral_2_eq_2)
qed

text \<open>A client that was written to a file and read back has lost its routing key: whatever path it has,
  the envelope it submits in a lightning round carries the all-zero key, which marks a dummy.\<close>

theorem restored_client_sends_dummy:
  assumes "aes_ok L" and "sig_ok L" and "\<forall>k \<in> set ks. 16 \<le> length (pk_Shared k)"
    and "cl_PathKeys t = map Some (ks @ [k])" and "cs_NumLayers c = int (length ks)"
  shows "\<exists>env. lightning_submission L (client_Unmarshal (client_Marshal t) c) (cl_PathKeys t) m = Inr env \<and> IsDummy env"
proof -
  let ?t = "client_Unmarshal (client_Marshal t) c"
  have "cl_PathKeys ?t = map Some (ks @ [k])" "cs_NumLayers (cl_Common ?t) = int (length ks)" "cl_routingKey ?t = zeros KEY_SIZE"
    "cl_PathKeys ?t = cl_PathKeys t"
    using assms(4,5) by (simp_all add: client_Unmarshal_def client_Marshal_def)
  then show ?thesis using lightning_submission_ok [OF assms(1-3), of ?t k m] by (simp add: IsDummy_def)
qed

theorem restored_client_sends_dummy_witness:
  "\<exists>env. lightning_submission toy_lib (client_Unmarshal (client_Marshal sample_client) (cl_Common sample_client))
      (cl_PathKeys sample_client) [1, 2] = Inr env \<and> IsDummy env"
  by (rule restored_client_sends_dummy [OF lib_okD(1,2) [OF toy_lib_ok] sample_client_fields(3,1,2)])

text \<open>Everything a server of the path needs is satisfied by the sample client with one layer.\<close>

definition sample_path_server :: "(256 word, 256 word, 1 word, nat) common_state" where
  "sample_path_server = sample_state\<lparr>cs_CombinedKey := Some (TokenPublicKey toy_mcl 1), cs_BoomerangMessageLengths := [72]\<rparr>"

definition silent_remote :: "unit remote" where
  "silent_remote = \<lparr>rm_handle = (\<lambda>n d m. (n, Inr None)), rm_skip = (\<lambda>n d m. (n, Inr ()))\<rparr>"

theorem client_path_accepted_witness:
  "\<exists>(t' :: (256 word, 256 word, 1 word, nat) client) env pm pi. MakeOptimizedPathEstablishmentMessage toy_lib toy_mcl 1 silent_remote
       \<lparr>ca_mock = True, ca_size = 1, ca_Groups = [], ca_ReverseGroups = [], ca_ServersSortedByLatency = []\<rparr>
       (\<lambda>_. [9]) (\<lambda>_. 1) (\<lambda>_. zeros 8) () sample_client 1 1 = ((), t', Inr (env, [zeros 8])) \<and>
     authenticate_path toy_lib toy_mcl sample_path_server 3 0 \<lparr>md_Type = 7, md_Round = 0, md_Layer = 0, md_Sender = 5, md_Dest = 0, md_Group = 0, md_NumMessages = 1\<rparr>
       (pe_InKey env @ g1_ser toy_mcl (pe_InToken env) @ pe_SignedCiphertext env) = Inr (pm, SharedKey toy_lib (projr (ToScalar toy_lib [9])) 3, pi, 0) \<and>
     pi_NextEnvelope pi = []"
proof -
  let ?c = "\<lparr>ca_mock = True, ca_size = 1, ca_Groups = [], ca_ReverseGroups = [], ca_ServersSortedByLatency = []\<rparr>"
  let ?md = "\<lparr>md_Type = 7, md_Round = 0, md_Layer = 0, md_Sender = 5, md_Dest = 0, md_Group = 0, md_NumMessages = 1\<rparr>"
  obtain n' t' r where mk: "MakeOptimizedPathEstablishmentMessage toy_lib toy_mcl 1 silent_remote ?c
       (\<lambda>_. [9]) (\<lambda>_. 1) (\<lambda>_. zeros 8) () sample_client 1 1 = (n', t', r)" by (metis prod_cases3)
  have x: "\<forall>i \<le> 1. ToScalar toy_lib [9] = Inr (projr (ToScalar toy_lib [9]))" by (simp add: ToScalar_def toy_lib_def)
  have sc: "cs_NumServers (cl_Common sample_client) = 1" "cl_ID sample_client = 5"
    "cs_ServerPublicKeys (cl_Common sample_client) = [3]"
    by (simp_all add: sample_client_def NewClient_def sample_state_def)
  have pubs: "cs_ServerPublicKeys (cl_Common sample_client) = map (\<lambda>j. PublicKey toy_lib 3) [0..<cs_NumServers (cl_Common sample_client)]"
    by (simp add: sc PublicKey_def toy_lib_def)
  have t: "24 \<le> TOKEN_SIZE toy_mcl" by (simp add: toy_token_size)
  have len: "\<forall>l :: nat. length (zeros 8) = 8" by simp
  have N: "0 < cs_NumServers (cl_Common sample_client)" "cs_NumServers (cl_Common sample_client) \<le> 2 ^ 64" by (simp_all add: sc)
  let ?srv = "path_srv toy_lib toy_mcl 1 (\<lambda>_. [9]) 1 5"
  have z: "?srv i = 0" for i by (simp add: path_srv_def server_of_def)
  have ps: "path_server toy_mcl 1 1 1 1 0 (?srv 0) sample_path_server"
    unfolding z by (simp add: path_server_def sample_path_server_def sample_state_def BoomerangLengths_def size_defs)
  from client_path_accepted [OF toy_lib_ok toy_mcl_ok t x len N pubs mk, unfolded sc] obtain env envs where
    e: "r = Inr (env, map (\<lambda>_. zeros 8) [0..<1])" "pe_InKey env = ed_public toy_lib [9]"
      "pe_InToken env = path_tok toy_lib toy_mcl 1 (\<lambda>_. [9]) 1 5 0" "pe_SignedCiphertext env = envs 0" "envs 1 = []"
    and all: "\<forall>l < 1. \<forall>(c :: (256 word, 256 word, 1 word, nat) common_state) md. path_server toy_mcl 1 1 1 1 l (?srv l) c \<and>
          md_Sender md = path_prev toy_lib toy_mcl 1 (\<lambda>_. [9]) 1 5 l \<longrightarrow>
        (\<exists>pm pi boom. authenticate_path toy_lib toy_mcl c 3 (int l) md
             (ed_public toy_lib [9] @ g1_ser toy_mcl (path_tok toy_lib toy_mcl 1 (\<lambda>_. [9]) 1 5 l) @ envs l) =
           Inr (pm, pk_Shared (path_entry toy_lib toy_mcl 1 (\<lambda>_. [9]) (\<lambda>_. projr (ToScalar toy_lib [9])) sample_client 1 l), pi, ?srv (l + 1)) \<and>
         pi_OutKey pi = ed_public toy_lib [9] \<and> pi_OutToken pi = path_tok toy_lib toy_mcl 1 (\<lambda>_. [9]) 1 5 (l + 1) \<and>
         pi_BoomerangEnvelope pi = boom \<and> pi_NextEnvelope pi = envs (l + 1))"
    by (elim exE conjE) (rule that)
  have prv: "md_Sender ?md = path_prev toy_lib toy_mcl 1 (\<lambda>_. [9]) 1 5 0" by simp
  note acc = all [rule_format, OF zero_less_one conjI, OF ps prv]
  have "pk_Shared (path_entry toy_lib toy_mcl 1 (\<lambda>_. [9]) (\<lambda>_. projr (ToScalar toy_lib [9])) sample_client 1 0) =
      SharedKey toy_lib (projr (ToScalar toy_lib [9])) 3" using z by (simp add: path_entry_def Let_def sc)
  then show ?thesis using acc e mk z by auto
qed

end
