(* ===== verification/Preparer.thy ===== *)
theory Preparer
  imports CommonState "HOL-Library.AList"
begin

text \<open>
  The clients known to a member of an anytrust group, \<^verbatim>\<open>src/server/prepareMessages/server.go\<close>:
  registration, the mark that a client has submitted a message, and the blind signing of one token for each
  layer. The map of clients is an association list; its values are pointers, nil after a
  revocation. Operations that change the state before they fail return the state with the failure.
  The lemmas show that a registered key stays with its client and that no client gets two tokens for one
  layer, whatever the requests.
\<close>

section \<open>State and operations\<close>

record per_client_info =
  pc_SignatureKey :: verification_key
  pc_signed :: int
  pc_submitted :: bool

record ('fr, 'g2) message_preparer =
  mp_Clients :: "(int \<times> per_client_info option) list"
  mp_signer :: "('fr, 'g2) token_signing_key"
  mp_group :: int

definition NewMessagePreparer :: "('fr, 'g2) token_signing_key \<Rightarrow> int \<Rightarrow> ('fr, 'g2) message_preparer" where
  "NewMessagePreparer signer gid = \<lparr>mp_Clients = [], mp_signer = signer, mp_group = gid\<rparr>"

text \<open>\<^verbatim>\<open>p.Clients[id]\<close>: nil for a missing key.\<close>

definition client_at :: "('fr, 'g2) message_preparer \<Rightarrow> int \<Rightarrow> per_client_info option" where
  "client_at p i = (case map_of (mp_Clients p) i of Some info \<Rightarrow> info | None \<Rightarrow> None)"

definition set_client :: "('fr, 'g2) message_preparer \<Rightarrow> int \<Rightarrow> per_client_info option \<Rightarrow> ('fr, 'g2) message_preparer" where
  "set_client p i info = p\<lparr>mp_Clients := AList.update i info (mp_Clients p)\<rparr>"

definition register_request :: "('s, 'p) lib \<Rightarrow> signed_message \<Rightarrow> new_client_request res" where
  "register_request L m =
     sbind (ncr_InterpretFrom (sm_Data m)) (\<lambda>n.
     sbind (ValidateSignature L (ncr_VerificationKey n) m) (\<lambda>v.
     sbind (guard (snd v) (Err SignatureError)) (\<lambda>_. Inr n)))"

definition preparer_RegisterClient ::
  "('s, 'p) lib \<Rightarrow> ('fr, 'g2) message_preparer \<Rightarrow> signed_message \<Rightarrow> ('fr, 'g2) message_preparer \<times> unit res" where
  "preparer_RegisterClient L p m =
     (case register_request L m of
        Inl e \<Rightarrow> (p, Inl e)
      | Inr n \<Rightarrow>
          if client_at p (ncr_ID n) \<noteq> None then (p, Inl (Err Duplicate))
          else (set_client p (ncr_ID n)
                  (Some \<lparr>pc_SignatureKey = ncr_VerificationKey n, pc_signed = -1, pc_submitted = False\<rparr>), Inr ()))"

definition MarkSubmitted ::
  "('s, 'p) lib \<Rightarrow> ('fr, 'g2) message_preparer \<Rightarrow> int \<Rightarrow> signed_message \<Rightarrow> ('fr, 'g2) message_preparer \<times> unit res" where
  "MarkSubmitted L p ID m =
     (case client_at p ID of
        None \<Rightarrow> (p, Inl (Err ClientNotFoundError))
      | Some info \<Rightarrow>
          (case ValidateSignature L (pc_SignatureKey info) m of
             Inl e \<Rightarrow> (p, Inl e)
           | Inr (m, ok) \<Rightarrow>
               if \<not> ok then (p, Inl (Err SignatureError))
               else if pc_submitted info then (p, Inl (Err Duplicate))
               else (set_client p ID (Some (info\<lparr>pc_submitted := True\<rparr>)), Inr ())))"

definition RevokeClient :: "('fr, 'g2) message_preparer \<Rightarrow> int \<Rightarrow> ('fr, 'g2) message_preparer" where
  "RevokeClient p ID = set_client p ID None"

text \<open>The blind signature overwrites the request it was computed from. The reply is made and signed before
  the check that this layer has not been signed for the client.\<close>

definition token_reply ::
  "('s, 'p) lib \<Rightarrow> ('fr, 'g1, 'g2, 'gt) mcl \<Rightarrow> ('s, 'p, 'g2, 'r) common_state \<Rightarrow> ('fr, 'g2) message_preparer \<Rightarrow> signed_message \<Rightarrow>
     (int \<times> per_client_info \<times> signed_message) res" where
  "token_reply L M c p m =
     (let layer = md_Layer (sm_Metadata m) in
      sbind (tr_InterpretFrom M (sm_Data m)) (\<lambda>request.
      sbind (guard (0 \<le> layer \<and> layer \<le> cs_NumLayers c) (Err BadMetadataError)) (\<lambda>_.
      sbind (of_option (Err ClientNotFoundError) (client_at p (tr_ID request))) (\<lambda>info.
      sbind (ValidateSignature L (pc_SignatureKey info) m) (\<lambda>v.
      sbind (guard (snd v) (Err SignatureError)) (\<lambda>_.
      sbind (BlindSign M (mp_signer p) (tr_TokenRequest request)) (\<lambda>t.
        let response = NewSignedMessage (G1_LEN M) (cs_Round c) layer (cs_MyId c) (mp_group p) 0 1 (md_Type (sm_Metadata m)) in
      sbind (g1_PackTo M t (sm_Data response)) (\<lambda>d.
      sbind (cs_Sign L c (fill_data response d)) (\<lambda>response.
        Inr (tr_ID request, info, response))))))))))"

definition HandleTokenRequest ::
  "('s, 'p) lib \<Rightarrow> ('fr, 'g1, 'g2, 'gt) mcl \<Rightarrow> ('s, 'p, 'g2, 'r) common_state \<Rightarrow> ('fr, 'g2) message_preparer \<Rightarrow> signed_message \<Rightarrow>
     ('fr, 'g2) message_preparer \<times> signed_message res" where
  "HandleTokenRequest L M c p m =
     (case token_reply L M c p m of
        Inl e \<Rightarrow> (p, Inl e)
      | Inr (i, info, response) \<Rightarrow>
          if pc_signed info \<ge> md_Layer (sm_Metadata m) then (p, Inl (Err Duplicate))
          else (set_client p i (Some (info\<lparr>pc_signed := md_Layer (sm_Metadata m)\<rparr>)), Inr response))"

text \<open>A loop over all clients; a nil entry stops it with a panic.\<close>

fun for_clients ::
  "(per_client_info \<Rightarrow> per_client_info) \<Rightarrow> (int \<times> per_client_info option) list \<Rightarrow>
     (int \<times> per_client_info option) list \<times> unit res" where
  "for_clients f [] = ([], Inr ())"
| "for_clients f ((i, None) # cs) = ((i, None) # cs, Inl (Panic NilDereference))"
| "for_clients f ((i, Some info) # cs) = (case for_clients f cs of (cs', r) \<Rightarrow> ((i, Some (f info)) # cs', r))"

definition ResetSigned :: "('fr, 'g2) message_preparer \<Rightarrow> ('fr, 'g2) message_preparer \<times> unit res" where
  "ResetSigned p =
     (case for_clients (\<lambda>i. i\<lparr>pc_signed := -1\<rparr>) (mp_Clients p) of (cs, r) \<Rightarrow> (p\<lparr>mp_Clients := cs\<rparr>, r))"

definition ResetSubmitted :: "('fr, 'g2) message_preparer \<Rightarrow> ('fr, 'g2) message_preparer \<times> unit res" where
  "ResetSubmitted p =
     (case for_clients (\<lambda>i. i\<lparr>pc_submitted := False\<rparr>) (mp_Clients p) of (cs, r) \<Rightarrow> (p\<lparr>mp_Clients := cs\<rparr>, r))"

section \<open>Lemmas\<close>

lemma client_at_set [simp]: "client_at (set_client p i info) j = (if j = i then info else client_at p j)"
  by (simp add: client_at_def set_client_def AList.update_conv')

lemma set_client_fields [simp]: "mp_signer (set_client p i info) = mp_signer p" "mp_group (set_client p i info) = mp_group p"
  by (simp_all add: set_client_def)

lemma token_reply_Inr:
  assumes "token_reply L M c p m = Inr (i, info, resp)"
  shows "\<exists>request. tr_InterpretFrom M (sm_Data m) = Inr request \<and> i = tr_ID request \<and> client_at p i = Some info \<and>
     0 \<le> md_Layer (sm_Metadata m) \<and> md_Layer (sm_Metadata m) \<le> cs_NumLayers c"
  using assms by (auto simp: token_reply_def Let_def)

lemma HandleTokenRequest_cases:
  assumes "HandleTokenRequest L M c p m = (p', r)"
  obtains (refused) e where "r = Inl e" "p' = p"
  | (signed) request info resp where "tr_InterpretFrom M (sm_Data m) = Inr request"
      "client_at p (tr_ID request) = Some info" "r = Inr resp" "pc_signed info < md_Layer (sm_Metadata m)"
      "p' = set_client p (tr_ID request) (Some (info\<lparr>pc_signed := md_Layer (sm_Metadata m)\<rparr>))"
      "0 \<le> md_Layer (sm_Metadata m)" "md_Layer (sm_Metadata m) \<le> cs_NumLayers c"
proof (cases "token_reply L M c p m")
  case (Inl e)
  then show ?thesis using assms refused [of e] by (simp add: HandleTokenRequest_def)
next
  case (Inr x)
  obtain i info resp where x: "x = (i, info, resp)" by (cases x) auto
  from token_reply_Inr [OF Inr [unfolded x]] obtain request where
    r: "tr_InterpretFrom M (sm_Data m) = Inr request" "i = tr_ID request" "client_at p i = Some info"
       "0 \<le> md_Layer (sm_Metadata m)" "md_Layer (sm_Metadata m) \<le> cs_NumLayers c" by blast
  show ?thesis
  proof (cases "pc_signed info \<ge> md_Layer (sm_Metadata m)")
    case True
    then show ?thesis using assms Inr x refused [of "Err Duplicate"] by (simp add: HandleTokenRequest_def)
  next
    case False
    then show ?thesis using assms Inr x r signed [of request info resp] by (simp add: HandleTokenRequest_def)
  qed
qed

lemma RegisterClient_cases:
  assumes "preparer_RegisterClient L p m = (p', r)"
  obtains (refused) e where "r = Inl e" "p' = p"
  | (registered) n where "register_request L m = Inr n" "client_at p (ncr_ID n) = None" "r = Inr ()"
      "p' = set_client p (ncr_ID n) (Some \<lparr>pc_SignatureKey = ncr_VerificationKey n, pc_signed = -1, pc_submitted = False\<rparr>)"
  using assms unfolding preparer_RegisterClient_def
  by (cases "register_request L m") (simp_all split: if_splits, blast+)

lemma MarkSubmitted_cases:
  assumes "MarkSubmitted L p i m = (p', r)"
  obtains (refused) e where "r = Inl e" "p' = p"
  | (marked) info where "client_at p i = Some info" "\<not> pc_submitted info" "r = Inr ()"
      "p' = set_client p i (Some (info\<lparr>pc_submitted := True\<rparr>))"
  using assms by (auto simp: MarkSubmitted_def case_prod_beta split: sum.splits if_splits option.splits)

text \<open>A signed request of a registered client for a layer above those signed is granted.\<close>

lemma token_request_granted:
  assumes "enc_ok M" "tr_InterpretFrom M (sm_Data m) = Inr request" "client_at p (tr_ID request) = Some info"
    and "0 \<le> md_Layer (sm_Metadata m)" "md_Layer (sm_Metadata m) \<le> cs_NumLayers c" "pc_signed info < md_Layer (sm_Metadata m)"
    and "ValidateSignature L (pc_SignatureKey info) m = Inr (m', True)"
  shows "\<exists>resp. HandleTokenRequest L M c p m =
     (set_client p (tr_ID request) (Some (info\<lparr>pc_signed := md_Layer (sm_Metadata m)\<rparr>)), Inr resp)"
proof -
  let ?resp = "NewSignedMessage (G1_LEN M) (cs_Round c) (md_Layer (sm_Metadata m)) (cs_MyId c) (mp_group p) 0 1 (md_Type (sm_Metadata m))"
  let ?t = "g1_mul M (tr_TokenRequest request) (tsk_Share (mp_signer p))"
  have d: "length (sm_Data ?resp) = G1_LEN M"
    by (simp add: sm_Data_def NewSignedMessage_def Metadata_size_def size_defs)
  have len: "28 + sm_len (fill_data ?resp b) \<le> length (sm_Raw (fill_data ?resp b))" for b
    by (simp add: fill_data_def NewSignedMessage_def Metadata_size_def size_defs)
  obtain resp where "cs_Sign L c (fill_data ?resp (g1_ser M ?t)) = Inr resp"
    using SignMessage_ok [OF len] by (auto simp: cs_Sign_def)
  then have "token_reply L M c p m = Inr (tr_ID request, info, resp)"
    using assms(2-5,7) g1_encode(1) [OF assms(1) d]
    by (simp add: token_reply_def Let_def guard_def BlindSign_ok)
  then show ?thesis using assms(6) by (simp add: HandleTokenRequest_def)
qed

text \<open>The token requests of a run, and the client and layer of each that was granted.\<close>

fun token_run ::
  "('s, 'p) lib \<Rightarrow> ('fr, 'g1, 'g2, 'gt) mcl \<Rightarrow> ('s, 'p, 'g2, 'r) common_state \<Rightarrow> ('fr, 'g2) message_preparer \<Rightarrow> signed_message list \<Rightarrow>
     ('fr, 'g2) message_preparer \<times> (int \<times> int) list" where
  "token_run L M c p [] = (p, [])"
| "token_run L M c p (m # ms) =
     (case HandleTokenRequest L M c p m of
        (p', Inl e) \<Rightarrow> token_run L M c p' ms
      | (p', Inr _) \<Rightarrow> (case token_run L M c p' ms of (p'', granted) \<Rightarrow>
          (p'', (tr_ID (projr (tr_InterpretFrom M (sm_Data m))), md_Layer (sm_Metadata m)) # granted)))"

text \<open>Every grant is above the layer already signed, and the layers granted to one client increase.\<close>

lemma token_run_increasing:
  assumes "token_run L M c p ms = (p', granted)"
  shows "(\<forall>(i, l) \<in> set granted. \<exists>info. client_at p i = Some info \<and> pc_signed info < l \<and> 0 \<le> l \<and> l \<le> cs_NumLayers c) \<and>
     (\<forall>i. sorted_wrt (<) (map snd (filter (\<lambda>g. fst g = i) granted)))"
  using assms
proof (induction ms arbitrary: p granted)
  case Nil
  then show ?case by simp
next
  case (Cons m ms)
  obtain p1 r where h: "HandleTokenRequest L M c p m = (p1, r)" by fastforce
  from h show ?case
  proof (cases rule: HandleTokenRequest_cases)
    case refused
    then show ?thesis using Cons h by simp
  next
    case (signed request info resp)
    obtain g where g: "token_run L M c p1 ms = (p', g)" "granted = (tr_ID request, md_Layer (sm_Metadata m)) # g"
      using Cons.prems h signed by (auto split: prod.splits)
    note IH = Cons.IH [OF g(1)]
    have old: "\<exists>info. client_at p i = Some info \<and> pc_signed info < l \<and> 0 \<le> l \<and> l \<le> cs_NumLayers c \<and>
        (i = tr_ID request \<longrightarrow> md_Layer (sm_Metadata m) < l)" if "(i, l) \<in> set g" for i l
      using IH that signed by (force split: if_splits)
    have "sorted_wrt (<) (map snd (filter (\<lambda>x. fst x = i) granted))" for i
      using IH old g(2) by auto
    then show ?thesis using old g(2) signed by fastforce
  qed
qed

text \<open>The operations that leave registrations in place, as one step.\<close>

datatype preparer_op = Register signed_message | Submit int signed_message | TokenRequest signed_message

fun preparer_step ::
  "('s, 'p) lib \<Rightarrow> ('fr, 'g1, 'g2, 'gt) mcl \<Rightarrow> ('s, 'p, 'g2, 'r) common_state \<Rightarrow> ('fr, 'g2) message_preparer \<Rightarrow> preparer_op \<Rightarrow>
     ('fr, 'g2) message_preparer" where
  "preparer_step L M c p (Register m) = fst (preparer_RegisterClient L p m)"
| "preparer_step L M c p (Submit i m) = fst (MarkSubmitted L p i m)"
| "preparer_step L M c p (TokenRequest m) = fst (HandleTokenRequest L M c p m)"

lemma preparer_step_key:
  assumes "client_at p i = Some info"
  shows "\<exists>info'. client_at (preparer_step L M c p op) i = Some info' \<and> pc_SignatureKey info' = pc_SignatureKey info \<and>
     pc_signed info \<le> pc_signed info' \<and> (pc_submitted info \<longrightarrow> pc_submitted info')"
proof (cases op)
  case (Register m)
  obtain p' r where h: "preparer_RegisterClient L p m = (p', r)" by fastforce
  from h show ?thesis by (cases rule: RegisterClient_cases) (use assms h Register in auto)
next
  case (Submit j m)
  obtain p' r where h: "MarkSubmitted L p j m = (p', r)" by fastforce
  from h show ?thesis by (cases rule: MarkSubmitted_cases) (use assms h Submit in auto)
next
  case (TokenRequest m)
  obtain p' r where h: "HandleTokenRequest L M c p m = (p', r)" by fastforce
  from h show ?thesis by (cases rule: HandleTokenRequest_cases) (use assms h TokenRequest in auto)
qed

section \<open>Properties\<close>

text \<open>C11. No client gets two tokens for one layer: over any sequence of token requests, from any clients, with any
  layers and in any order, the grants are distinct pairs of client and layer, the layers granted to one
  client are strictly increasing and lie between \<open>0\<close> and the number of layers, and every grant goes to a registered client.\<close>

theorem one_token_per_layer:
  assumes "token_run L M c p ms = (p', granted)"
  shows "distinct granted \<and> (\<forall>i. sorted_wrt (<) (map snd (filter (\<lambda>g. fst g = i) granted))) \<and>
     (\<forall>(i, l) \<in> set granted. client_at p i \<noteq> None \<and> 0 \<le> l \<and> l \<le> cs_NumLayers c)"
proof -
  note inc = token_run_increasing [OF assms]
  have "distinct granted"
  proof (rule ccontr)
    assume "\<not> distinct granted"
    then obtain xs ys zs g where g: "granted = xs @ [g] @ ys @ [g] @ zs" using not_distinct_decomp by blast
    have "sorted_wrt (<) (map snd (filter (\<lambda>h. fst h = fst g) granted))" using inc by blast
    then show False unfolding g by (simp add: sorted_wrt_append)
  qed
  then show ?thesis using inc by fastforce
qed

text \<open>A registration is permanent: whatever registrations, submissions and token requests follow, a client keeps
  the key it registered (a second registration cannot take its identity over), the layer it was last
  signed for never decreases, and its submission mark is never removed.\<close>

theorem registration_permanent:
  assumes "client_at p i = Some info"
  shows "\<exists>info'. client_at (foldl (preparer_step L M c) p ops) i = Some info' \<and>
     pc_SignatureKey info' = pc_SignatureKey info \<and> pc_signed info \<le> pc_signed info' \<and> (pc_submitted info \<longrightarrow> pc_submitted info')"
  using assms
proof (induction ops arbitrary: p info)
  case (Cons op ops)
  from preparer_step_key [OF Cons.prems] obtain i1 where
    i1: "client_at (preparer_step L M c p op) i = Some i1" "pc_SignatureKey i1 = pc_SignatureKey info"
      "pc_signed info \<le> pc_signed i1" "pc_submitted info \<longrightarrow> pc_submitted i1" by blast
  from Cons.IH [OF i1(1)] i1(2-4) show ?case by fastforce
qed auto

text \<open>Revoking a client makes the next reset panic: \<^verbatim>\<open>RevokeClient\<close> leaves a nil entry in the map, which
  \<^verbatim>\<open>ResetSigned\<close> and \<^verbatim>\<open>ResetSubmitted\<close> dereference.\<close>

theorem revoked_client_breaks_reset:
  "snd (ResetSigned (RevokeClient p i)) = Inl (Panic NilDereference) \<and>
   snd (ResetSubmitted (RevokeClient p i)) = Inl (Panic NilDereference)"
proof -
  have "snd (for_clients f (AList.update i None cs)) = Inl (Panic NilDereference)" for f cs
  proof (induction cs)
    case (Cons x cs)
    then show ?case by (cases x; cases "snd x") (auto split: prod.splits)
  qed simp
  then show ?thesis by (simp add: ResetSigned_def ResetSubmitted_def RevokeClient_def set_client_def case_prod_beta)
qed

text \<open>A concrete run: a client registers, then asks for tokens.\<close>

definition sample_preparer :: "(1 word, 1 word) message_preparer" where
  "sample_preparer = set_client (NewMessagePreparer (SecretKey toy_mcl 1) 0) 5
     (Some \<lparr>pc_SignatureKey = toy_public [7], pc_signed = -1, pc_submitted = False\<rparr>)"

definition token_request_message :: "int \<Rightarrow> signed_message" where
  "token_request_message layer = projr (SignMessage toy_lib [7]
     (fill_data (NewSignedMessage (tr_Len toy_mcl) 0 layer 5 0 0 1 ClientTokenRequest) (put_le 8 5 @ g1_ser toy_mcl 1)))"

lemma token_request_message:
  "md_Layer (sm_Metadata (token_request_message l)) = l"
  "tr_InterpretFrom toy_mcl (sm_Data (token_request_message l)) = Inr \<lparr>tr_ID = 5, tr_TokenRequest = 1\<rparr>"
  "\<exists>m'. ValidateSignature toy_lib (toy_public [7]) (token_request_message l) = Inr (m', True)"
proof -
  note e = mcl_okD(4) [OF toy_mcl_ok]
  let ?d = "put_le 8 5 @ g1_ser toy_mcl 1"
  let ?n = "NewSignedMessage (tr_Len toy_mcl) 0 l 5 0 0 1 ClientTokenRequest"
  let ?m = "fill_data ?n ?d"
  have ser: "length (g1_ser toy_mcl 1) = G1_LEN toy_mcl" using e by (simp add: enc_ok_def)
  then have d: "length ?d = tr_Len toy_mcl" by (simp add: tr_Len_def)
  have len: "28 + sm_len ?m \<le> length (sm_Raw ?m)"
    by (simp add: fill_data_def NewSignedMessage_def Metadata_size_def size_defs)
  have data: "sm_Data ?m = ?d"
    by (rule sm_Data_fill) (use d in \<open>simp_all add: NewSignedMessage_def Metadata_size_def size_defs\<close>)
  let ?s = "?m\<lparr>sm_Raw := metadata_bytes (sm_Metadata ?m) @ drop 28 (sm_Raw ?m),
      sm_Signature := SignData toy_lib [7] (metadata_bytes (sm_Metadata ?m) @ sm_Data ?m)\<rparr>"
  have m: "token_request_message l = ?s" using SignMessage_ok [OF len, of toy_lib "[7]"] by (simp add: token_request_message_def)
  show "md_Layer (sm_Metadata (token_request_message l)) = l" by (simp add: m fill_data_def NewSignedMessage_def)
  have sdata: "sm_Data ?s = ?d" using data by (simp add: sm_Data_def Metadata_size_def)
  have val: "g1_valid toy_mcl 1" by (simp add: toy_mcl_def)
  show "tr_InterpretFrom toy_mcl (sm_Data (token_request_message l)) = Inr \<lparr>tr_ID = 5, tr_TokenRequest = 1\<rparr>"
    using wire_codec.packed(2) [OF token_request_codec [OF e], of "\<lparr>tr_ID = 5, tr_TokenRequest = 1\<rparr>" ?d] val g1_encode(1) [OF e] sdata
    by (simp add: m tr_PackTo_def tr_Len_def)
  have "ValidateSignature toy_lib (toy_public [7]) ?s = Inr (?s, True)"
    using sig_okD(2) [OF lib_okD(2) [OF toy_lib_ok], of "[7]"] len data sdata
    by (simp add: ValidateSignature_def GetSignedData_ok VerifyMessage_def SignData_def toy_lib_def)
  then show "\<exists>m'. ValidateSignature toy_lib (toy_public [7]) (token_request_message l) = Inr (m', True)"
    unfolding m by blast
qed

text \<open>The client asks for layers 1, 1 and 2; the second request is refused.\<close>

theorem one_token_per_layer_witness:
  "\<exists>p'. token_run toy_lib toy_mcl sample_state sample_preparer
      [token_request_message 1, token_request_message 1, token_request_message 2] = (p', [(5, 1), (5, 2)]) \<and>
     distinct [(5, 1), (5 :: int, 2 :: int)]"
proof -
  note e = mcl_okD(4) [OF toy_mcl_ok] and t = token_request_message
  let ?run = "token_run toy_lib toy_mcl sample_state"
  have n: "cs_NumLayers sample_state = 2" by (simp add: sample_state_def)
  have c0: "client_at sample_preparer 5 = Some \<lparr>pc_SignatureKey = toy_public [7], pc_signed = -1, pc_submitted = False\<rparr>"
    by (simp add: sample_preparer_def)
  define p1 where "p1 = set_client sample_preparer 5 (Some \<lparr>pc_SignatureKey = toy_public [7], pc_signed = 1, pc_submitted = False\<rparr>)"
  obtain r1 where h1: "HandleTokenRequest toy_lib toy_mcl sample_state sample_preparer (token_request_message 1) = (p1, Inr r1)"
    using token_request_granted [OF e t(2), of sample_preparer _ 1 sample_state] t(1,3) c0 n by (fastforce simp: p1_def)
  have c1: "client_at p1 5 = Some \<lparr>pc_SignatureKey = toy_public [7], pc_signed = 1, pc_submitted = False\<rparr>" by (simp add: p1_def)
  obtain e1 where h2: "HandleTokenRequest toy_lib toy_mcl sample_state p1 (token_request_message 1) = (p1, Inl e1)"
  proof -
    obtain p' r where h: "HandleTokenRequest toy_lib toy_mcl sample_state p1 (token_request_message 1) = (p', r)" by fastforce
    then show thesis by (cases rule: HandleTokenRequest_cases) (use h t(1,2) c1 that in auto)
  qed
  obtain p2 r2 where h3: "HandleTokenRequest toy_lib toy_mcl sample_state p1 (token_request_message 2) = (p2, Inr r2)"
    using token_request_granted [OF e t(2), of p1 _ 2 sample_state] t(1,3) c1 n by fastforce
  have "?run sample_preparer [token_request_message 1, token_request_message 1, token_request_message 2] = (p2, [(5, 1), (5, 2)])"
    by (simp add: h1 h2 h3 t)
  from this one_token_per_layer [OF this] show ?thesis by blast
qed

theorem registration_permanent_witness:
  "\<exists>info'. client_at (foldl (preparer_step toy_lib toy_mcl sample_state) sample_preparer
      [Register (NewSignedMessage 40 0 0 5 0 0 1 ClientRegister), TokenRequest (NewSignedMessage 3 0 0 5 0 0 1 ClientTokenRequest)]) 5 = Some info' \<and>
     pc_SignatureKey info' = toy_public [7]"
proof -
  have "client_at sample_preparer 5 = Some \<lparr>pc_SignatureKey = toy_public [7], pc_signed = -1, pc_submitted = False\<rparr>"
    by (simp add: sample_preparer_def)
  from registration_permanent [OF this] show ?thesis by fastforce
qed

end
