(* ===== verification/Curve.thy ===== *)
theory Curve
  imports Sharing
begin

text \<open>
  Points of P-256 and the encoding used by the key exchange: \<^verbatim>\<open>point.go\<close>, \<^verbatim>\<open>curve.go\<close>, the point part of
  \<^verbatim>\<open>marshalling.go\<close> and the hash onto the curve of \<^verbatim>\<open>hash.go\<close>, in \<^verbatim>\<open>src/crypto/ec\<close>. The curve itself,
  \<^verbatim>\<open>elliptic.P256()\<close>, is the record argument \<open>curve\<close> with its field order, its constant \<open>B\<close>, and the
  group operations; arithmetic of \<^verbatim>\<open>math/big\<close> is written out. The lemmas show that encoding and
  decoding a point are inverse and that the hash always lands on the curve.
\<close>

section \<open>Points\<close>

record point =
  pt_X :: int
  pt_Y :: int

record curve =
  cv_P :: int
  cv_B :: int
  cv_G :: point
  cv_IsOnCurve :: "point \<Rightarrow> bool"
  cv_Add :: "point \<Rightarrow> point \<Rightarrow> point"
  cv_ScalarMult :: "point \<Rightarrow> bytes \<Rightarrow> point"
  cv_ScalarBaseMult :: "bytes \<Rightarrow> point"
  cv_MarshalCompressed :: "point \<Rightarrow> bytes"

definition byteLen :: nat where "byteLen = 32"
definition CurveElementSize :: nat where "CurveElementSize = byteLen + 1"

text \<open>\<^verbatim>\<open>big.Int.Bytes\<close>: the absolute value in big-endian order, without leading zeros.\<close>

function big_bytes :: "int \<Rightarrow> bytes" where
  "big_bytes x = (if x = 0 then [] else big_bytes (\<bar>x\<bar> div 256) @ [word_of_int (\<bar>x\<bar> mod 256)])"
  by pat_completeness auto
termination by (relation "measure (\<lambda>x. nat \<bar>x\<bar>)") (auto simp: nat_div_distrib)

declare big_bytes.simps [simp del]

definition NewPoint :: "curve \<Rightarrow> int \<Rightarrow> int \<Rightarrow> point res" where
  "NewPoint C x y =
     (if \<not> cv_IsOnCurve C \<lparr>pt_X = x, pt_Y = y\<rparr> then Inl (Err ErrPointOffCurve) else Inr \<lparr>pt_X = x, pt_Y = y\<rparr>)"

definition NewBasePoint :: "curve \<Rightarrow> point" where
  "NewBasePoint C = cv_G C"

definition ec_ZeroPoint :: point where
  "ec_ZeroPoint = \<lparr>pt_X = 0, pt_Y = 0\<rparr>"

definition ec_ScalarBaseMult :: "curve \<Rightarrow> scalar_element \<Rightarrow> point" where
  "ec_ScalarBaseMult C s = cv_ScalarBaseMult C (big_bytes s)"

definition point_ScalarMult :: "curve \<Rightarrow> point \<Rightarrow> scalar_element list \<Rightarrow> point" where
  "point_ScalarMult C p elems = foldl (\<lambda>p el. cv_ScalarMult C p (big_bytes el)) p elems"

definition point_Accumulate :: "curve \<Rightarrow> point \<Rightarrow> point list \<Rightarrow> point" where
  "point_Accumulate C p points = foldl (cv_Add C) p points"

definition point_Equals :: "point \<Rightarrow> point \<Rightarrow> bool" where
  "point_Equals p q \<longleftrightarrow> pt_X p = pt_X q \<and> pt_Y p = pt_Y q"

section \<open>Encoding\<close>

definition point_Marshal :: "curve \<Rightarrow> point \<Rightarrow> bytes" where
  "point_Marshal C p = cv_MarshalCompressed C p"

definition point_PackTo :: "curve \<Rightarrow> point \<Rightarrow> bytes \<Rightarrow> bytes res" where
  "point_PackTo C p b =
     (if length b \<noteq> CurveElementSize then Inl (Panic (PanicError LengthInvalidError))
      else Inr (go_copy b (point_Marshal C p)))"

text \<open>\<^verbatim>\<open>big.Int.Exp\<close>, and \<^verbatim>\<open>big.Int.ModSqrt\<close> for an order that is 3 modulo 4.\<close>

definition mod_exp :: "int \<Rightarrow> int \<Rightarrow> int \<Rightarrow> int" where
  "mod_exp x e m = x ^ nat e mod m"

definition mod_sqrt :: "int \<Rightarrow> int \<Rightarrow> int option" where
  "mod_sqrt x p = (let r = mod_exp x ((p + 1) div 4) p in if r * r mod p = x mod p then Some r else None)"

definition isOdd :: "int \<Rightarrow> byte" where
  "isOdd x = (if odd x then 1 else 0)"

definition point_Unmarshal :: "curve \<Rightarrow> bytes \<Rightarrow> point res" where
  "point_Unmarshal C data =
     sbind (slice data 1 (1 + byteLen)) (\<lambda>xb.
     let x = get_be xb; fieldOrder = cv_P C in
     if x \<ge> fieldOrder then Inl (Err ErrInvalidPoint)
     else if data ! 0 = 0x02 \<or> data ! 0 = 0x03 then
       let sign = data ! 0 AND 1; x3 = x * x * x - (push_bit 1 x + x) + cv_B C in
       (case mod_sqrt x3 fieldOrder of
          None \<Rightarrow> Inl (Err ErrInvalidPoint)
        | Some y \<Rightarrow>
            let y = (if sign \<noteq> isOdd y then fieldOrder - y else y) in
            if \<not> cv_IsOnCurve C \<lparr>pt_X = x, pt_Y = y\<rparr> then Inl (Err ErrInvalidPoint)
            else Inr \<lparr>pt_X = x, pt_Y = y\<rparr>)
     else Inl (Err ErrInvalidPoint))"

definition point_InterpretFrom :: "curve \<Rightarrow> bytes \<Rightarrow> point res" where
  "point_InterpretFrom C b =
     (if length b \<noteq> CurveElementSize then Inl (Err LengthInvalidError) else point_Unmarshal C b)"

fun BatchUnmarshalPoints :: "curve \<Rightarrow> bytes list \<Rightarrow> point list res" where
  "BatchUnmarshalPoints C [] = Inr []"
| "BatchUnmarshalPoints C (d # ds) =
     sbind (point_Unmarshal C d) (\<lambda>p. sbind (BatchUnmarshalPoints C ds) (\<lambda>ps. Inr (p # ps)))"

definition BatchMarshalPoints :: "curve \<Rightarrow> point list \<Rightarrow> bytes list" where
  "BatchMarshalPoints C points = map (point_Marshal C) points"

section \<open>Hashing onto the curve\<close>

text \<open>\<^verbatim>\<open>big.Int.ModInverse\<close> by the extended Euclidean algorithm.\<close>

function egcd :: "int \<Rightarrow> int \<Rightarrow> int \<times> int" where
  "egcd a b = (if b \<le> 0 then (1, 0) else case egcd b (a mod b) of (x, y) \<Rightarrow> (y, x - (a div b) * y))"
  by pat_completeness auto
termination by (relation "measure (\<lambda>(a, b). nat b)") auto

declare egcd.simps [simp del]

definition mod_inverse :: "int \<Rightarrow> int \<Rightarrow> int" where
  "mod_inverse a p = fst (egcd (a mod p) p) mod p"

definition swu_seed :: bytes where
  "swu_seed = map (of_nat \<circ> of_char) ''1.2.840.10045.3.1.7 point generation seed''"

definition HashToBaseField :: "('s, 'p) lib \<Rightarrow> bytes \<Rightarrow> int" where
  "HashToBaseField L data = get_be (take byteLen (sha256 L (swu_seed @ data))) mod CURVE_MOD"

definition SimplifiedSWU :: "curve \<Rightarrow> int \<Rightarrow> point res" where
  "SimplifiedSWU C t =
     (let p = cv_P C; A = -3; B = cv_B C;
          bDivA = (- (mod_inverse A p * B)) mod p;
          pPlus1Div4 = drop_bit 2 (1 + p);
          u = (- (t * t)) mod p;
          t0 = (u * u + u) mod p in
      if t0 = 0 then Inl (Panic (PanicMessage ''Curve hash failure''))
      else
        let t0 = mod_inverse t0 p;
            x = ((1 + t0) * bDivA) mod p;
            g = ((((x * x) mod p + A) * x) mod p + B) mod p;
            y = mod_exp g pPlus1Div4 p in
        if (y * y) mod p \<noteq> g then
          Inr \<lparr>pt_X = (x * u) mod p, pt_Y = ((- ((y * u) mod p)) * t) mod p\<rparr>
        else Inr \<lparr>pt_X = x, pt_Y = y\<rparr>)"

definition HashToCurvePoint :: "('s, 'p) lib \<Rightarrow> curve \<Rightarrow> bytes \<Rightarrow> point res" where
  "HashToCurvePoint L C data = SimplifiedSWU C (HashToBaseField L data)"

section \<open>Lemmas on the field\<close>

text \<open>What is used of the field order: it is 3 modulo 4, and Fermat's theorem holds, so it is prime.\<close>

definition field_prime :: "int \<Rightarrow> bool" where
  "field_prime p \<longleftrightarrow> 3 < p \<and> p mod 4 = 3 \<and> (\<forall>a. \<not> p dvd a \<longrightarrow> a ^ nat (p - 1) mod p = 1)"

lemma egcd_ok: "0 \<le> a \<Longrightarrow> 0 \<le> b \<Longrightarrow> egcd a b = (x, y) \<Longrightarrow> x * a + y * b = gcd a b"
proof (induction a b arbitrary: x y rule: egcd.induct)
  case (1 a b)
  show ?case
  proof (cases "b \<le> 0")
    case True
    then show ?thesis using 1 by (simp add: egcd.simps)
  next
    case False
    obtain x' y' where e: "egcd b (a mod b) = (x', y')" by fastforce
    from 1(1) [OF False _ _ e] False have IH: "x' * b + y' * (a mod b) = gcd b (a mod b)" by simp
    have xy: "x = y'" "y = x' - (a div b) * y'" using 1(4) False e by (auto simp: egcd.simps [of a b])
    have "x * a + y * b = x' * b + y' * (a - (a div b) * b)" unfolding xy by (simp add: algebra_simps)
    then have "x * a + y * b = x' * b + y' * (a mod b)" by (simp add: minus_div_mult_eq_mod)
    then show ?thesis using IH gcd_red_int [of a b] by simp
  qed
qed

lemma field_coprime:
  assumes "field_prime p" "\<not> p dvd a"
  shows "gcd a p = 1"
proof -
  have "a ^ nat (p - 1) mod p = 1" "1 < p" using assms by (auto simp: field_prime_def)
  then have "a ^ nat (p - 1) mod p = 1 mod p" by simp
  then have d: "p dvd a ^ nat (p - 1) - 1" by (simp only: mod_eq_dvd_iff)
  have "gcd a p dvd a ^ nat (p - 1)"
    by (rule dvd_trans [OF gcd_dvd1 dvd_power]) (use assms(1) in \<open>auto simp: field_prime_def\<close>)
  moreover have "gcd a p dvd a ^ nat (p - 1) - 1" using d by (rule dvd_trans [rotated]) simp
  ultimately have "gcd a p dvd a ^ nat (p - 1) - (a ^ nat (p - 1) - 1)" by (rule dvd_diff)
  then show ?thesis by simp
qed

lemma mod_inverse_ok:
  assumes "field_prime p" "\<not> p dvd a"
  shows "p dvd a * mod_inverse a p - 1"
proof -
  have p: "0 < p" using assms(1) by (simp add: field_prime_def)
  obtain x y where e: "egcd (a mod p) p = (x, y)" by fastforce
  have "x * (a mod p) + y * p = 1"
    using egcd_ok [OF _ _ e] p field_coprime [OF assms] by (simp add: gcd.commute gcd_red_int [symmetric])
  then have "(x * (a mod p)) mod p = 1 mod p" by (metis mod_mult_self1)
  then have "(a * mod_inverse a p) mod p = 1 mod p"
    by (simp add: mod_inverse_def e mod_simps mult.commute)
  then show ?thesis by (simp add: mod_eq_dvd_iff)
qed

lemma field_dvd_mult:
  assumes "field_prime p" "p dvd a * b"
  shows "p dvd a \<or> p dvd b"
  using field_coprime [OF assms(1), of a] assms(2) by (metis coprime_dvd_mult_right_iff coprime_iff_gcd_eq_1 gcd.commute)

text \<open>The power the code takes is a square root of the argument or of its negation.\<close>

lemma quarter_power:
  assumes "field_prime p"
  shows "p dvd mod_exp g ((p + 1) div 4) p ^ 2 - g \<or> p dvd mod_exp g ((p + 1) div 4) p ^ 2 + g"
proof (cases "p dvd g")
  case True
  have "p dvd g ^ nat ((p + 1) div 4)"
    using True assms by (intro dvd_trans [OF True] dvd_power) (auto simp: field_prime_def)
  then have "mod_exp g ((p + 1) div 4) p = 0" by (simp add: mod_exp_def)
  then show ?thesis using True by simp
next
  case False
  define h where "h = g ^ nat ((p - 1) div 2)"
  have n: "2 * nat ((p + 1) div 4) = Suc (nat ((p - 1) div 2))" "2 * nat ((p - 1) div 2) = nat (p - 1)"
  proof -
    have "p = 4 * (p div 4) + 3" using assms by (metis field_prime_def mult_div_mod_eq)
    then obtain k where "p = 4 * k + 3" by blast
    then show "2 * nat ((p + 1) div 4) = Suc (nat ((p - 1) div 2))" "2 * nat ((p - 1) div 2) = nat (p - 1)"
      using assms by (auto simp: field_prime_def)
  qed
  have "h * h = g ^ nat (p - 1)" using n(2) by (simp add: h_def power_add [symmetric] mult_2 [symmetric])
  then have "(h * h) mod p = 1" using assms False by (simp add: field_prime_def)
  moreover have "1 mod p = 1" using assms by (simp add: field_prime_def)
  ultimately have "p dvd h * h - 1" by (metis mod_eq_dvd_iff)
  then have "p dvd (h - 1) * (h + 1)" by (simp add: algebra_simps)
  then have h: "p dvd h - 1 \<or> p dvd h + 1" using field_dvd_mult [OF assms] by blast
  have "(g ^ nat ((p + 1) div 4)) ^ 2 = h * g"
    using n(1) by (simp add: h_def power_mult [symmetric] mult.commute)
  then have "mod_exp g ((p + 1) div 4) p ^ 2 mod p = (h * g) mod p"
    by (simp add: mod_exp_def power_mod)
  then have m: "p dvd mod_exp g ((p + 1) div 4) p ^ 2 - h * g" by (simp add: mod_eq_dvd_iff)
  from h show ?thesis
  proof
    assume "p dvd h - 1"
    then have "p dvd (h - 1) * g" by simp
    from dvd_add [OF m this] show ?thesis by (simp add: algebra_simps)
  next
    assume "p dvd h + 1"
    then have "p dvd (h + 1) * g" by simp
    from dvd_add [OF m this] show ?thesis by (simp add: algebra_simps)
  qed
qed

text \<open>The arithmetic of the map, modulo \<open>p\<close>: with \<open>x\<close> as computed, the right-hand side of the curve
  equation at \<open>u * x\<close> is \<open>u\<^sup>3\<close> times that at \<open>x\<close>.\<close>

definition curve_rhs :: "curve \<Rightarrow> int \<Rightarrow> int" where
  "curve_rhs C x = x * x * x - 3 * x + cv_B C"

definition on_curve :: "curve \<Rightarrow> point \<Rightarrow> bool" where
  "on_curve C q \<longleftrightarrow> 0 \<le> pt_X q \<and> pt_X q < cv_P C \<and> 0 \<le> pt_Y q \<and> pt_Y q < cv_P C \<and>
     (pt_Y q * pt_Y q) mod cv_P C = curve_rhs C (pt_X q) mod cv_P C"

lemma swu_identity:
  fixes x :: int
  assumes A: "p dvd a * i - 1" and T: "p dvd (u * u + u) * t - 1" and X: "p dvd x - (1 + t) * (- (i * b))"
  shows "p dvd (u ^ 3 * (x ^ 3 + a * x + b)) - ((u * x) ^ 3 + a * (u * x) + b)"
proof -
  have "p dvd a * (u * u + u) * (x - (1 + t) * (- (i * b)))" using X by simp
  moreover have "p dvd (a * i - 1) * ((u * u + u) * (1 + t) * b)" using A by simp
  moreover have "p dvd ((u * u + u) * t - 1) * b" using T by simp
  ultimately have "p dvd a * (u * u + u) * (x - (1 + t) * (- (i * b))) - (a * i - 1) * ((u * u + u) * (1 + t) * b)
      - ((u * u + u) * t - 1) * b"
    by (intro dvd_diff)
  then have "p dvd a * x * (u * u + u) + b * (u * u + u + 1)" by (simp add: algebra_simps)
  then have "p dvd (u - 1) * (a * x * (u * u + u) + b * (u * u + u + 1))" by simp
  then show ?thesis by (simp add: algebra_simps power3_eq_cube)
qed

lemma mod_dvd_diff: "(p :: int) dvd a mod p - b \<longleftrightarrow> p dvd a - b"
  by (simp add: mod_eq_dvd_iff [symmetric] mod_simps)

lemma curve_rhs_mod: "curve_rhs C (z mod p) mod p = curve_rhs C z mod p"
proof -
  have "p dvd z - z mod p" by (simp add: minus_mod_eq_mult_div)
  then have "p dvd (z - z mod p) * (z * z + z * (z mod p) + (z mod p) * (z mod p) - 3)" by simp
  then have "p dvd curve_rhs C z - curve_rhs C (z mod p)" by (simp add: curve_rhs_def algebra_simps)
  then show ?thesis by (metis mod_eq_dvd_iff)
qed

lemma SimplifiedSWU_cases:
  assumes f: "field_prime (cv_P C)" and r: "SimplifiedSWU C t = Inr q"
  shows "on_curve C q"
proof -
  define p where "p = cv_P C"
  define b where "b = cv_B C"
  define u where "u = (- (t * t)) mod p"
  define t0 where "t0 = mod_inverse ((u * u + u) mod p) p"
  define x where "x = ((1 + t0) * ((- (mod_inverse (-3) p * b)) mod p)) mod p"
  define g where "g = ((((x * x) mod p + -3) * x) mod p + b) mod p"
  define y where "y = mod_exp g (drop_bit 2 (1 + p)) p"
  note defs = p_def b_def u_def t0_def x_def g_def y_def
  have p: "0 < p" "3 < p" and fp: "field_prime p" using f by (auto simp: p_def field_prime_def)
  have "(if (u * u + u) mod p = 0 then Inl (Panic (PanicMessage ''Curve hash failure''))
        else if (y * y) mod p \<noteq> g then Inr \<lparr>pt_X = (x * u) mod p, pt_Y = ((- ((y * u) mod p)) * t) mod p\<rparr>
        else Inr \<lparr>pt_X = x, pt_Y = y\<rparr>) = Inr q"
    using r unfolding SimplifiedSWU_def Let_def defs .
  then have nz: "(u * u + u) mod p \<noteq> 0"
    and q: "q = (if (y * y) mod p \<noteq> g then \<lparr>pt_X = (x * u) mod p, pt_Y = ((- ((y * u) mod p)) * t) mod p\<rparr>
                 else \<lparr>pt_X = x, pt_Y = y\<rparr>)"
    by (simp_all split: if_splits)
  have g: "p dvd g - (x ^ 3 + -3 * x + b)"
  proof -
    have "g mod p = (x ^ 3 + -3 * x + b) mod p"
    proof -
      have "((x * x mod p + -3) * x) mod p = ((x * x + -3) * x) mod p" by (metis mod_add_left_eq mod_mult_left_eq)
      then have "g mod p = ((x * x + -3) * x + b) mod p" by (metis g_def mod_add_left_eq mod_mod_trivial)
      moreover have "(x * x + -3) * x + b = x ^ 3 + -3 * x + b" by (simp add: power3_eq_cube algebra_simps)
      ultimately show ?thesis by simp
    qed
    then show ?thesis by (simp only: mod_eq_dvd_iff)
  qed
  have rhs: "curve_rhs C z = z ^ 3 + -3 * z + b" for z by (simp add: curve_rhs_def b_def power3_eq_cube)
  have root: "p dvd y ^ 2 - g \<or> p dvd y ^ 2 + g"
    using quarter_power [OF fp, of g] by (simp add: y_def drop_bit_eq_div add.commute)
  show ?thesis
  proof (cases "(y * y) mod p = g")
    case True
    have "p dvd y * y - g" using True by (simp only: mod_eq_dvd_iff [symmetric]) (simp add: g_def)
    from dvd_add [OF this g] have "p dvd y * y - curve_rhs C x" by (simp add: rhs algebra_simps)
    then have e: "(y * y) mod p = curve_rhs C x mod p" by (simp only: mod_eq_dvd_iff)
    have "0 \<le> x \<and> x < p \<and> 0 \<le> y \<and> y < p" using p(1) by (simp add: x_def y_def mod_exp_def)
    then show ?thesis unfolding on_curve_def p_def [symmetric] using True e q by simp
  next
    case False
    have "0 \<le> g \<and> g < p" using p by (simp add: g_def)
    then have "\<not> p dvd y ^ 2 - g" using False by (metis mod_eq_dvd_iff mod_pos_pos_trivial power2_eq_square)
    with root have neg: "p dvd y ^ 2 + g" by blast
    have A: "p dvd -3 * mod_inverse (-3) p - 1"
    proof (rule mod_inverse_ok [OF fp])
      show "\<not> p dvd -3" using p zdvd_imp_le [of p 3] by auto
    qed
    have T: "p dvd (u * u + u) * t0 - 1"
    proof -
      have "\<not> p dvd (u * u + u) mod p" using nz by (simp add: dvd_mod_iff mod_0_imp_dvd) (meson dvd_imp_mod_0)
      from mod_inverse_ok [OF fp this] have "((u * u + u) mod p * t0) mod p = 1 mod p" by (simp only: t0_def mod_eq_dvd_iff)
      then show ?thesis by (simp only: mod_simps mod_eq_dvd_iff [symmetric])
    qed
    have X: "p dvd x - (1 + t0) * (- (mod_inverse (-3) p * b))"
      unfolding x_def mod_eq_dvd_iff [symmetric] by (simp add: mod_simps)
    note id = swu_identity [OF A T X]
    have ut: "p dvd u + t * t" unfolding u_def by (metis diff_minus_eq_add mod_eq_dvd_iff mod_mod_trivial)
    let ?Y = "- (y * u) * t"
    have Y: "p dvd ?Y ^ 2 - u ^ 3 * g"
    proof -
      have "p dvd (y ^ 2 + g) * (u ^ 2 * t ^ 2)" "p dvd (u + t * t) * (u ^ 2 * g)" using neg ut by simp_all
      from dvd_diff [OF this] show ?thesis by (simp add: algebra_simps power2_eq_square power3_eq_cube)
    qed
    have "p dvd u ^ 3 * (g - (x ^ 3 + -3 * x + b))" using g by simp
    from dvd_add [OF dvd_add [OF Y this] id] have "p dvd ?Y ^ 2 - curve_rhs C (u * x)"
      by (simp add: rhs algebra_simps)
    then have "?Y ^ 2 mod p = curve_rhs C (u * x) mod p" by (simp only: mod_eq_dvd_iff)
    moreover have "(((- ((y * u) mod p)) * t) mod p * (((- ((y * u) mod p)) * t) mod p)) mod p = ?Y ^ 2 mod p"
    proof -
      have "((- ((y * u) mod p)) * t) mod p = ?Y mod p" by (metis mod_minus_eq mod_mult_left_eq)
      then show ?thesis by (metis mod_mult_eq power2_eq_square)
    qed
    moreover have "curve_rhs C ((x * u) mod p) mod p = curve_rhs C (u * x) mod p"
      by (simp add: curve_rhs_mod mult.commute)
    ultimately show ?thesis using False p by (simp add: on_curve_def q p_def [symmetric])
  qed
qed

text \<open>Decoding: the root found is that of the point or its negation, and the sign byte tells them apart.\<close>

lemma square_root_found:
  assumes f: "field_prime p" and y: "0 \<le> y" "y < p" and sq: "(y * y) mod p = z mod p"
  shows "\<exists>r. mod_sqrt z p = Some r \<and> (r = y \<or> y \<noteq> 0 \<and> r = p - y)"
proof -
  have p: "0 < p" "odd p" using f by (auto simp: field_prime_def) presburger
  define r where "r = mod_exp z ((p + 1) div 4) p"
  obtain k where k: "p = 4 * k + 3" using f by (metis field_prime_def mult_div_mod_eq)
  have n: "nat ((p + 1) div 4) + nat ((p + 1) div 4) = Suc (nat ((p - 1) div 2))" "nat ((p - 1) div 2) + nat ((p - 1) div 2) = nat (p - 1)"
    using f k by (auto simp: field_prime_def)
  have "r = (z mod p) ^ nat ((p + 1) div 4) mod p" by (simp add: r_def mod_exp_def power_mod)
  also have "\<dots> = (y * y) ^ nat ((p + 1) div 4) mod p" unfolding sq [symmetric] by (simp add: power_mod)
  finally have r: "r = (y ^ nat ((p + 1) div 4) * y ^ nat ((p + 1) div 4)) mod p" by (simp add: power_mult_distrib)
  then have r': "r = (y * y ^ nat ((p - 1) div 2)) mod p" using n(1) by (simp add: power_add [symmetric])
  have "(r * r) mod p = (y * y) mod p"
  proof (cases "p dvd y")
    case True
    then have "y = 0" using y by (metis mod_pos_pos_trivial dvd_imp_mod_0)
    then show ?thesis using r' by simp
  next
    case False
    have "(r * r) mod p = (y * y * (y ^ nat ((p - 1) div 2) * y ^ nat ((p - 1) div 2))) mod p"
    proof -
      have "(r * r) mod p = ((y * y ^ nat ((p - 1) div 2)) * (y * y ^ nat ((p - 1) div 2))) mod p"
        unfolding r' by (rule mod_mult_eq)
      then show ?thesis by (simp add: ac_simps)
    qed
    also have "\<dots> = (y * y * (y ^ nat (p - 1) mod p)) mod p" using n(2) by (simp add: power_add [symmetric] mod_simps)
    also have "\<dots> = (y * y) mod p" using f False by (simp add: field_prime_def)
    finally show ?thesis .
  qed
  note rr = this
  have root: "mod_sqrt z p = Some r" using rr sq by (simp add: mod_sqrt_def Let_def r_def)
  have "p dvd r * r - y * y" using rr by (simp only: mod_eq_dvd_iff)
  then have d: "p dvd (r - y) * (r + y)" by (simp add: algebra_simps)
  have rb: "0 \<le> r \<and> r < p" using p by (simp add: r_def mod_exp_def)
  have "r = y \<or> y \<noteq> 0 \<and> r = p - y"
    using field_dvd_mult [OF f d]
  proof
    assume "p dvd r - y"
    then have "r mod p = y mod p" by (simp only: mod_eq_dvd_iff)
    then show ?thesis using rb y by simp
  next
    assume "p dvd r + y"
    then obtain c where c: "r + y = p * c" by blast
    have "c = 0 \<or> c = 1"
    proof -
      have "0 \<le> p * c" "p * c < p * 2" using c rb y by linarith+
      then have "0 \<le> c" "c < 2" using p(1) by (simp_all add: zero_le_mult_iff)
      then show ?thesis by auto
    qed
    then show ?thesis using c rb y by auto
  qed
  then show ?thesis using root by blast
qed

text \<open>Documented behaviour of \<^verbatim>\<open>elliptic.P256\<close> on points of the curve.\<close>

definition curve_enc_ok :: "curve \<Rightarrow> bool" where
  "curve_enc_ok C \<longleftrightarrow> field_prime (cv_P C) \<and> cv_P C \<le> 256 ^ 32 \<and>
     (\<forall>q. cv_IsOnCurve C q \<longleftrightarrow> on_curve C q) \<and>
     (\<forall>q. on_curve C q \<longrightarrow> cv_MarshalCompressed C q = (if odd (pt_Y q) then 0x03 else 0x02) # rev (put_le 32 (pt_X q)))"

lemma point_roundtrip:
  assumes C: "curve_enc_ok C" and q: "on_curve C q"
  shows "length (point_Marshal C q) = CurveElementSize \<and> point_InterpretFrom C (point_Marshal C q) = Inr q"
proof -
  let ?p = "cv_P C"
  have f: "field_prime ?p" "?p \<le> 256 ^ 32" using C by (simp_all add: curve_enc_ok_def)
  have odd: "odd ?p" using f(1) by (auto simp: field_prime_def) presburger
  have b: "0 \<le> pt_X q" "pt_X q < ?p" "0 \<le> pt_Y q" "pt_Y q < ?p" using q by (simp_all add: on_curve_def)
  have enc: "point_Marshal C q = (if odd (pt_Y q) then 0x03 else 0x02) # rev (put_le 32 (pt_X q))"
    using C q by (simp add: point_Marshal_def curve_enc_ok_def)
  have x: "get_be (rev (put_le 32 (pt_X q))) = pt_X q"
    using b f(2) by (simp add: get_be_rev_put_le del: put_le.simps)
  have rhs: "pt_X q * pt_X q * pt_X q - (push_bit 1 (pt_X q) + pt_X q) + cv_B C = curve_rhs C (pt_X q)"
    by (simp add: curve_rhs_def push_bit_eq_mult)
  from square_root_found [OF f(1) b(3,4)] q obtain r where
    r: "mod_sqrt (curve_rhs C (pt_X q)) ?p = Some r" "r = pt_Y q \<or> pt_Y q \<noteq> 0 \<and> r = ?p - pt_Y q"
    by (auto simp: on_curve_def)
  have y: "(if (if odd (pt_Y q) then 1 else 0) \<noteq> isOdd r then ?p - r else r) = pt_Y q"
    using r(2) odd by (auto simp: isOdd_def)
  have sign: "(if odd (pt_Y q) then 3 else 2 :: byte) AND 1 = (if odd (pt_Y q) then 1 else 0)" by simp
  have on: "cv_IsOnCurve C q" using C q by (simp add: curve_enc_ok_def)
  have qq: "\<lparr>pt_X = pt_X q, pt_Y = pt_Y q\<rparr> = q" by simp
  have dec: "(case mod_sqrt (curve_rhs C (pt_X q)) ?p of None \<Rightarrow> Inl (Err ErrInvalidPoint)
      | Some y \<Rightarrow> let y = (if (if odd (pt_Y q) then 1 else 0) \<noteq> isOdd y then ?p - y else y) in
          if \<not> cv_IsOnCurve C \<lparr>pt_X = pt_X q, pt_Y = y\<rparr> then Inl (Err ErrInvalidPoint)
          else Inr \<lparr>pt_X = pt_X q, pt_Y = y\<rparr>) = Inr q"
    unfolding r(1) Let_def option.case y qq using on by simp
  let ?h = "if odd (pt_Y q) then 3 else 2 :: byte"
  have sl: "slice (?h # rev (put_le 32 (pt_X q))) 1 (1 + byteLen) = Inr (rev (put_le 32 (pt_X q)))"
    by (simp add: slice_def byteLen_def del: put_le.simps)
  have h: "(?h # rev (put_le 32 (pt_X q))) ! 0 = ?h" "?h = 2 \<or> ?h = 3" by simp_all
  have "point_Unmarshal C (point_Marshal C q) = Inr q"
    unfolding point_Unmarshal_def enc sl sbind_Inr Let_def [of "get_be _"] Let_def [of "cv_P C"] x h(1)
    using b(2) h(2) dec by (simp only: Let_def sign rhs if_True not_le) auto
  then show ?thesis
    by (simp add: enc point_InterpretFrom_def CurveElementSize_def byteLen_def del: put_le.simps)
qed

lemma if_Inr_ex: "(\<exists>q. (if d then Inr a else Inr b) = Inr q) = True"
  by (cases d) auto

section \<open>Properties\<close>

text \<open>C33. Hashing onto the curve: over a field whose order is a prime that is 3 modulo 4, the simplified SWU map
  of any value other than \<open>0\<close>, \<open>1\<close> and \<open>-1\<close> is a point that satisfies the curve equation, with canonical
  coordinates, on both branches of the code; for these three values it panics.\<close>

theorem SimplifiedSWU_on_curve:
  assumes "field_prime (cv_P C)"
  shows "if cv_P C dvd t \<or> cv_P C dvd t - 1 \<or> cv_P C dvd t + 1
         then SimplifiedSWU C t = Inl (Panic (PanicMessage ''Curve hash failure''))
         else \<exists>q. SimplifiedSWU C t = Inr q \<and> on_curve C q"
proof -
  let ?p = "cv_P C" and ?u = "(- (t * t)) mod cv_P C"
  have ut: "?p dvd ?u + t * t" by (metis diff_minus_eq_add mod_eq_dvd_iff mod_mod_trivial)
  have "(?u * ?u + ?u) mod ?p = 0 \<longleftrightarrow> ?p dvd t * t * ((t - 1) * (t + 1))"
  proof -
    have "?p dvd (?u + t * t) * (?u - t * t + 1)" using ut by simp
    moreover have "(?u + t * t) * (?u - t * t + 1) = (?u * ?u + ?u) - t * t * ((t - 1) * (t + 1))"
      by (simp add: algebra_simps)
    ultimately have "?p dvd (?u * ?u + ?u) - t * t * ((t - 1) * (t + 1))" by simp
    then show ?thesis using dvd_diff_commute zdvd_zdiffD by (metis dvd_eq_mod_eq_0 dvd_diff_right_iff)
  qed
  also have "\<dots> \<longleftrightarrow> ?p dvd t \<or> ?p dvd t - 1 \<or> ?p dvd t + 1"
    using field_dvd_mult [OF assms] by (meson dvd_mult dvd_mult2)
  finally have z: "(?u * ?u + ?u) mod ?p = 0 \<longleftrightarrow> ?p dvd t \<or> ?p dvd t - 1 \<or> ?p dvd t + 1" .
  show ?thesis
  proof (cases "(?u * ?u + ?u) mod ?p = 0")
    case True
    then have "SimplifiedSWU C t = Inl (Panic (PanicMessage ''Curve hash failure''))"
      unfolding SimplifiedSWU_def Let_def by (simp only: if_True simp_thms)
    then show ?thesis using True z by simp
  next
    case False
    then have "\<exists>q. SimplifiedSWU C t = Inr q" unfolding SimplifiedSWU_def Let_def by (simp only: if_False if_Inr_ex)
    then show ?thesis using SimplifiedSWU_cases [OF assms] False z by auto
  qed
qed

text \<open>Encoding a point of the curve and decoding it gives the point back, whichever of the two roots the
  decoder computes first; the encoding has the fixed length of a curve element.\<close>

theorem point_encoding_roundtrip:
  assumes "curve_enc_ok C" and "on_curve C q"
  shows "\<exists>b. point_PackTo C q (zeros CurveElementSize) = Inr b \<and> point_InterpretFrom C b = Inr q"
  using point_roundtrip [OF assms] by (simp add: point_PackTo_def)

text \<open>A small curve over the field of seven elements.\<close>

definition small_curve :: curve where
  "small_curve = \<lparr>cv_P = 7, cv_B = 3, cv_G = \<lparr>pt_X = 1, pt_Y = 1\<rparr>,
     cv_IsOnCurve = (\<lambda>q. 0 \<le> pt_X q \<and> pt_X q < 7 \<and> 0 \<le> pt_Y q \<and> pt_Y q < 7 \<and>
        (pt_Y q * pt_Y q) mod 7 = (pt_X q * pt_X q * pt_X q - 3 * pt_X q + 3) mod 7),
     cv_Add = (\<lambda>p q. p), cv_ScalarMult = (\<lambda>p b. p), cv_ScalarBaseMult = (\<lambda>b. ec_ZeroPoint),
     cv_MarshalCompressed = (\<lambda>q. (if odd (pt_Y q) then 0x03 else 0x02) # rev (put_le 32 (pt_X q)))\<rparr>"

lemma field_prime_7: "field_prime 7"
proof -
  have "a ^ 6 mod 7 = 1" if "\<not> 7 dvd a" for a :: int
  proof -
    have m: "a ^ 6 mod 7 = (a mod 7) ^ 6 mod 7" by (simp add: power_mod)
    have "a mod 7 \<in> {1, 2, 3, 4, 5, 6}" using that by (simp add: dvd_eq_mod_eq_0) presburger
    then show ?thesis unfolding m by auto
  qed
  then show ?thesis by (simp add: field_prime_def)
qed

theorem SimplifiedSWU_on_curve_witness: "\<exists>q. SimplifiedSWU small_curve 2 = Inr q \<and> on_curve small_curve q"
  using SimplifiedSWU_on_curve [of small_curve 2] field_prime_7 by (simp add: small_curve_def)

theorem point_encoding_roundtrip_witness:
  "\<exists>b. point_PackTo small_curve \<lparr>pt_X = 1, pt_Y = 1\<rparr> (zeros CurveElementSize) = Inr b \<and>
     point_InterpretFrom small_curve b = Inr \<lparr>pt_X = 1, pt_Y = 1\<rparr>"
proof (rule point_encoding_roundtrip)
  show "curve_enc_ok small_curve"
    using field_prime_7 by (simp add: curve_enc_ok_def small_curve_def on_curve_def curve_rhs_def)
  show "on_curve small_curve \<lparr>pt_X = 1, pt_Y = 1\<rparr>" by (simp add: on_curve_def small_curve_def curve_rhs_def)
qed

end
