(* ===== verification/Synchronizer.thy ===== *)
theory Synchronizer
  imports Prelude "HOL-Library.Multiset"
begin

text \<open>
  The layer barrier of \<^verbatim>\<open>src/network/synchronization/synchronization.go\<close>.

  A synchronizer holds the messages of layer \<open>l + 1\<close> until every sender of layer \<open>l\<close> has been
  processed. Its operations are the functions below, each the body of a method under its locks;
  the goroutines that call them are interleaved by the step relation \<open>sync_step\<close>. The three ghost
  components of \<open>sync_sys\<close> record which calls of \<^verbatim>\<open>SyncOnce\<close> are between the return of their \<^verbatim>\<open>Sync\<close> and the
  mark, which senders are between \<^verbatim>\<open>SyncOnce\<close> and \<^verbatim>\<open>Done\<close>, and how many
  \<^verbatim>\<open>go s.Trigger()\<close> goroutines have been spawned and have not run. The callback is an argument:
  the locale \<open>threshold_callback\<close> is the contract of the \<^verbatim>\<open>Callback\<close> interface.
\<close>

section \<open>State and operations\<close>

record synchronizer =
  sy_round :: int
  sy_layer :: int
  processed :: nat
  threshold :: nat
  started :: "bool list"

definition PreRound :: int where "PreRound = -1"
definition Blocked :: int where "Blocked = -2"
definition InProgress :: int where "InProgress = 0"
definition Completed :: int where "Completed = 1"

type_synonym 'c callback = "'c \<Rightarrow> int \<Rightarrow> ('c \<times> nat \<times> int) res"

definition NewSynchronizer :: "int \<Rightarrow> int \<Rightarrow> nat \<Rightarrow> synchronizer" where
  "NewSynchronizer round layer t =
     \<lparr>sy_round = round, sy_layer = layer, processed = 0, threshold = t, started = replicate t False\<rparr>"

text \<open>\<^verbatim>\<open>Sync\<close> waits on the condition variable until this holds.\<close>

definition Sync :: "synchronizer \<Rightarrow> int \<Rightarrow> bool" where
  "Sync s layer \<longleftrightarrow> sy_layer s = layer"

text \<open>The part of \<^verbatim>\<open>SyncOnce\<close> after \<^verbatim>\<open>s.Sync(layer)\<close> has returned.\<close>

definition SyncOnce :: "synchronizer \<Rightarrow> int \<Rightarrow> synchronizer \<times> unit res" where
  "SyncOnce s i =
     (if i > int (length (started s)) \<or> i < 0 then (s, Inl (Err BadMetadataError))
      else case go_index_int (started s) i of
          Inl e \<Rightarrow> (s, Inl e)
        | Inr True \<Rightarrow> (s, Inl (Err SynchronizationError))
        | Inr False \<Rightarrow> (s\<lparr>started := (started s)[nat i := True]\<rparr>, Inr ()))"

text \<open>The result of \<^verbatim>\<open>Done\<close> says whether the goroutine \<^verbatim>\<open>go s.Trigger()\<close> is spawned.\<close>

definition Done :: "synchronizer \<Rightarrow> synchronizer \<times> bool res" where
  "Done s =
     (let s' = s\<lparr>processed := processed s + 1\<rparr> in
      if processed s' = threshold s' then (s', Inr True)
      else if processed s' > threshold s'
      then (s', Inl (Panic (PanicMessage ''More clients passed SyncOnce than threshold'')))
      else (s', Inr False))"

definition Trigger :: "'c callback option \<Rightarrow> 'c \<Rightarrow> synchronizer \<Rightarrow> ('c \<times> synchronizer) res" where
  "Trigger cb c s =
     sbind (case cb of
         Some on_threshold \<Rightarrow>
           sbind (on_threshold c (sy_layer s))
             (\<lambda>(c', t, l). Inr (c', s\<lparr>threshold := t, sy_layer := l\<rparr>))
       | None \<Rightarrow> Inr (c, s\<lparr>sy_layer := sy_layer s + 1\<rparr>))
       (\<lambda>(c', s'). Inr (c', s'\<lparr>started := replicate (threshold s') False, processed := 0\<rparr>))"

definition Reset :: "synchronizer \<Rightarrow> int \<Rightarrow> int \<Rightarrow> nat \<Rightarrow> synchronizer" where
  "Reset s round layer t =
     s\<lparr>sy_round := round, sy_layer := layer, processed := 0, threshold := t,
       started := replicate t False\<rparr>"

section \<open>Interleavings\<close>

record 'c sync_sys =
  barrier :: synchronizer
  owner :: 'c
  passed :: "(nat \<times> int) multiset"
  active :: "nat set"
  pending :: nat

datatype sync_event = Pass nat int | Arrive nat int | Finish nat | Fire | External | Restart int int nat

text \<open>
  \<^verbatim>\<open>SyncOnce\<close> takes the locks of \<^verbatim>\<open>Sync\<close> and of its mark one after the other, so it is two steps: \<^verbatim>\<open>Pass i l\<close> is
  the return of \<^verbatim>\<open>Sync(l)\<close> in the call for sender \<open>i\<close>, \<^verbatim>\<open>Arrive i l\<close> the rest of that call when it returns \<^verbatim>\<open>nil\<close>;
  other goroutines may run in between. \<^verbatim>\<open>Finish i\<close> is the \<^verbatim>\<open>Done\<close> of a sender, \<^verbatim>\<open>Fire\<close> a
  spawned trigger, \<^verbatim>\<open>External\<close> the \<^verbatim>\<open>s.synchronizer.Trigger()\<close> with which \<^verbatim>\<open>RoundStart\<close> opens
  a broadcast round and \<^verbatim>\<open>Restart\<close> the \<^verbatim>\<open>Reset\<close> with which a round is set up. The coordinator makes the last two
  calls between rounds: they are steps when no stream is being processed and no trigger has been spawned. A
  call of \<^verbatim>\<open>SyncOnce\<close> that returns an error ends in the panic of the error handler, so it has no step.
\<close>

inductive sync_step :: "'c callback option \<Rightarrow> 'c sync_sys \<Rightarrow> sync_event \<Rightarrow> 'c sync_sys \<Rightarrow> bool"
  for cb :: "'c callback option" where
  pass: "Sync (barrier s) l \<Longrightarrow> sync_step cb s (Pass i l) (s\<lparr>passed := add_mset (i, l) (passed s)\<rparr>)"
| arrive: "(i, l) \<in># passed s \<Longrightarrow> SyncOnce (barrier s) (int i) = (b, Inr ()) \<Longrightarrow>
     sync_step cb s (Arrive i l)
       (s\<lparr>barrier := b, passed := passed s - {#(i, l)#}, active := insert i (active s)\<rparr>)"
| finish: "i \<in> active s \<Longrightarrow> Done (barrier s) = (b, Inr spawn) \<Longrightarrow>
     sync_step cb s (Finish i)
       (s\<lparr>barrier := b, active := active s - {i}, pending := pending s + of_bool spawn\<rparr>)"
| fire: "pending s > 0 \<Longrightarrow> Trigger cb (owner s) (barrier s) = Inr (c, b) \<Longrightarrow>
     sync_step cb s Fire (s\<lparr>barrier := b, owner := c, pending := pending s - 1\<rparr>)"
| external: "active s = {} \<Longrightarrow> processed (barrier s) = 0 \<Longrightarrow> pending s = 0 \<Longrightarrow>
     Trigger cb (owner s) (barrier s) = Inr (c, b) \<Longrightarrow>
     sync_step cb s External (s\<lparr>barrier := b, owner := c\<rparr>)"
| restart: "active s = {} \<Longrightarrow> pending s = 0 \<Longrightarrow>
     sync_step cb s (Restart r l t) (s\<lparr>barrier := Reset (barrier s) r l t\<rparr>)"

inductive_cases arriveE: "sync_step cb s (Arrive i l) t"
inductive_cases finishE: "sync_step cb s (Finish i) t"
inductive_cases fireE: "sync_step cb s Fire t"
inductive_cases externalE: "sync_step cb s External t"

inductive sync_reach :: "'c callback option \<Rightarrow> 'c sync_sys \<Rightarrow> 'c sync_sys \<Rightarrow> bool"
  for cb :: "'c callback option" and s0 :: "'c sync_sys" where
  init: "sync_reach cb s0 s0"
| step: "sync_reach cb s0 s \<Longrightarrow> sync_step cb s e t \<Longrightarrow> sync_reach cb s0 t"

definition sync_init :: "'c \<Rightarrow> int \<Rightarrow> int \<Rightarrow> nat \<Rightarrow> 'c sync_sys" where
  "sync_init c round layer t =
     \<lparr>barrier = NewSynchronizer round layer t, owner = c, passed = {#}, active = {}, pending = 0\<rparr>"

section \<open>The invariant\<close>

definition marked :: "synchronizer \<Rightarrow> nat set" where
  "marked s = {i. i < length (started s) \<and> started s ! i}"

definition sync_inv :: "'c sync_sys \<Rightarrow> bool" where
  "sync_inv s \<longleftrightarrow>
     length (started (barrier s)) = threshold (barrier s) \<and>
     active s \<subseteq> marked (barrier s) \<and>
     card (marked (barrier s)) = card (active s) + processed (barrier s) \<and>
     pending s = of_bool (0 < threshold (barrier s) \<and> processed (barrier s) = threshold (barrier s))"

lemma finite_marked [simp]: "finite (marked s)"
  by (simp add: marked_def)

lemma marked_bound: "length (started s) = n \<Longrightarrow> marked s \<subseteq> {..<n}"
  by (auto simp: marked_def)

lemma card_marked_le: "card (marked s) \<le> length (started s)"
  using card_mono [OF _ marked_bound [OF refl]] by (metis card_lessThan finite_lessThan)

lemma marked_replicate [simp]: "started s = replicate n False \<Longrightarrow> marked s = {}"
  by (auto simp: marked_def)

lemma SyncOnce_ok_iff:
  "SyncOnce s (int i) = (b, Inr ()) \<longleftrightarrow>
     i < length (started s) \<and> \<not> started s ! i \<and> b = s\<lparr>started := (started s)[i := True]\<rparr>"
  by (auto simp: SyncOnce_def go_index_int_def split: sum.splits bool.splits if_splits)

lemma marked_insert:
  "i < length (started s) \<Longrightarrow> marked (s\<lparr>started := (started s)[i := True]\<rparr>) = insert i (marked s)"
  by (auto simp: marked_def nth_list_update)

lemma Done_ok_iff:
  "Done s = (b, Inr spawn) \<longleftrightarrow>
     processed s + 1 \<le> threshold s \<and> b = s\<lparr>processed := processed s + 1\<rparr> \<and>
     spawn = (processed s + 1 = threshold s)"
  by (auto simp: Done_def Let_def)

lemma Trigger_ok:
  assumes "Trigger cb c s = Inr (c', s')"
  shows "processed s' = 0" "started s' = replicate (threshold s') False"
  using assms by (auto simp: Trigger_def split: option.splits)

lemma sync_inv_init: "sync_inv (sync_init c round layer t)"
  by (auto simp: sync_inv_def sync_init_def NewSynchronizer_def)

lemma sync_inv_arrive:
  assumes "sync_inv s" "SyncOnce (barrier s) (int i) = (b, Inr ())"
  shows "sync_inv (s\<lparr>barrier := b, passed := ps, active := insert i (active s)\<rparr>)"
proof -
  from assms(2) have i: "i < length (started (barrier s))" "\<not> started (barrier s) ! i"
    and b: "b = (barrier s)\<lparr>started := (started (barrier s))[i := True]\<rparr>"
    by (auto simp: SyncOnce_ok_iff)
  from i have fresh: "i \<notin> marked (barrier s)" by (simp add: marked_def)
  from assms(1) have sub: "active s \<subseteq> marked (barrier s)" by (simp add: sync_inv_def)
  with fresh have "i \<notin> active s" "finite (active s)"
    using finite_subset [OF sub] by auto
  with fresh assms(1) sub show ?thesis
    by (auto simp: sync_inv_def b marked_insert [OF i(1)])
qed

lemma sync_inv_finish:
  assumes "sync_inv s" "i \<in> active s" "Done (barrier s) = (b, Inr spawn)"
  shows "sync_inv (s\<lparr>barrier := b, active := active s - {i}, pending := pending s + of_bool spawn\<rparr>)"
proof -
  from assms(1) have sub: "active s \<subseteq> marked (barrier s)" by (simp add: sync_inv_def)
  then have fin: "finite (active s)" by (rule finite_subset) simp
  then have card: "card (active s) = Suc (card (active s - {i}))"
    using card_Suc_Diff1 [OF _ assms(2)] by simp
  have m: "marked (barrier s\<lparr>processed := n\<rparr>) = marked (barrier s)" for n
    by (simp add: marked_def)
  from assms(1,3) sub card show ?thesis
    by (auto simp: sync_inv_def Done_ok_iff m)
qed

lemma sync_inv_trigger:
  assumes "sync_inv s" "active s = {}" "Trigger cb (owner s) (barrier s) = Inr (c, b)"
  shows "sync_inv (s\<lparr>barrier := b, owner := c, pending := 0\<rparr>)"
  using assms(2) Trigger_ok [OF assms(3)] by (auto simp: sync_inv_def)

text \<open>When a trigger is pending, every sender has been marked and has finished.\<close>

lemma pending_complete:
  assumes "sync_inv s" "pending s > 0"
  shows "active s = {}" "marked (barrier s) = {..<threshold (barrier s)}"
    "processed (barrier s) = threshold (barrier s)" "pending s = 1"
proof -
  from assms have p: "processed (barrier s) = threshold (barrier s)"
    and len: "length (started (barrier s)) = threshold (barrier s)"
    by (auto simp: sync_inv_def split: if_splits)
  have le: "card (marked (barrier s)) \<le> threshold (barrier s)"
    using card_marked_le [of "barrier s"] len by simp
  with assms(1) p have "card (active s) = 0" and card: "card (marked (barrier s)) = threshold (barrier s)"
    by (auto simp: sync_inv_def)
  moreover have "finite (active s)"
    using assms(1) finite_subset [of "active s" "marked (barrier s)"] by (simp add: sync_inv_def)
  ultimately show "active s = {}" by simp
  show "marked (barrier s) = {..<threshold (barrier s)}"
    using marked_bound [OF len] card by (intro card_subset_eq) auto
  show "processed (barrier s) = threshold (barrier s)" by (rule p)
  show "pending s = 1" using assms by (auto simp: sync_inv_def)
qed

lemma sync_step_inv:
  assumes "sync_step cb s e t" "sync_inv s"
  shows "sync_inv t"
  using assms
proof (cases rule: sync_step.cases)
  case (pass l i)
  with assms(2) show ?thesis by (simp add: sync_inv_def)
next
  case (arrive i l b)
  with assms(2) show ?thesis using sync_inv_arrive by blast
next
  case (finish i b spawn)
  with assms(2) show ?thesis using sync_inv_finish by blast
next
  case (fire c b)
  have "pending s - 1 = 0" and "active s = {}"
    using pending_complete [OF assms(2) fire(3)] by simp_all
  then show ?thesis using sync_inv_trigger [OF assms(2) _ fire(4)] fire(2) by simp
next
  case (external c b)
  then have "t = s\<lparr>barrier := b, owner := c, pending := 0\<rparr>" by simp
  then show ?thesis using sync_inv_trigger [OF assms(2) external(3) external(6)] by simp
next
  case (restart r l n)
  then show ?thesis by (auto simp: sync_inv_def Reset_def)
qed

lemma sync_reach_inv:
  assumes "sync_reach cb s0 s" "sync_inv s0"
  shows "sync_inv s"
  using assms by (induction rule: sync_reach.induct) (auto intro: sync_step_inv)

section \<open>The callback contract\<close>

text \<open>Steps of one round: everything but the \<^verbatim>\<open>Reset\<close> that starts another one. A barrier that no \<^verbatim>\<open>RoundStart\<close> opens
  moves by its own steps.\<close>

definition round_event :: "sync_event \<Rightarrow> bool" where
  "round_event e \<longleftrightarrow> (case e of Restart _ _ _ \<Rightarrow> False | _ \<Rightarrow> True)"

definition own_event :: "sync_event \<Rightarrow> bool" where
  "own_event e \<longleftrightarrow> (case e of Restart _ _ _ \<Rightarrow> False | External \<Rightarrow> False | _ \<Rightarrow> True)"

text \<open>
  What the synchronizer relies on: the threshold a callback returns is the number of senders its
  owner expects, and the owner records the layer it returns.
\<close>

locale threshold_callback =
  fixes on_threshold :: "'c callback"
    and senders :: "'c \<Rightarrow> nat"
    and recorded_layer :: "'c \<Rightarrow> int \<Rightarrow> int"
  assumes senders_kept: "on_threshold c l = Inr (c', t, l') \<Longrightarrow> senders c' = senders c"
    and threshold_senders: "on_threshold c l = Inr (c', t, l') \<Longrightarrow> t = senders c'"
    and layer_recorded: "on_threshold c l = Inr (c', t, l') \<Longrightarrow> recorded_layer c' l = l'"
begin

lemma trigger_threshold:
  "Trigger (Some on_threshold) c s = Inr (c', s') \<Longrightarrow>
     senders c' = senders c \<and> threshold s' = senders c' \<and> sy_layer s' = recorded_layer c' (sy_layer s)"
  by (auto simp: Trigger_def dest: senders_kept threshold_senders layer_recorded)

lemma step_senders:
  "sync_step (Some on_threshold) s e t \<Longrightarrow> round_event e \<Longrightarrow> threshold (barrier s) = senders (owner s) \<Longrightarrow>
     senders (owner t) = senders (owner s) \<and> threshold (barrier t) = senders (owner t)"
  by (erule sync_step.cases)
    (auto simp: round_event_def SyncOnce_ok_iff Done_ok_iff dest!: trigger_threshold)

end

section \<open>Work between the steps of the barrier\<close>

text \<open>Messages change the owner of the barrier: the relation \<open>work\<close>. Such work is a step at any time, whether or
  not a sender is active: the messages of a stream are processed between its \<^verbatim>\<open>SyncOnce\<close> and its \<^verbatim>\<open>Done\<close>, but a
  submission of a client only passes \<^verbatim>\<open>Sync(0)\<close> (\<^verbatim>\<open>HandleSubmissionMessage\<close>) and is counted by nobody, so it may
  even be processed after the layer has been left. \<open>via\<close> selects the events of the barrier that occur. The locale
  extends the contract with what the work must keep.\<close>

inductive work_step :: "'c callback option \<Rightarrow> (sync_event \<Rightarrow> bool) \<Rightarrow> ('c \<Rightarrow> 'c \<Rightarrow> bool) \<Rightarrow> 'c sync_sys \<Rightarrow> 'c sync_sys \<Rightarrow> bool"
  for cb :: "'c callback option" and via :: "sync_event \<Rightarrow> bool" and work :: "'c \<Rightarrow> 'c \<Rightarrow> bool" where
  barrier: "sync_step cb s e t \<Longrightarrow> via e \<Longrightarrow> work_step cb via work s t"
| work: "work (owner s) c \<Longrightarrow> work_step cb via work s (s\<lparr>owner := c\<rparr>)"

inductive work_reach :: "'c callback option \<Rightarrow> (sync_event \<Rightarrow> bool) \<Rightarrow> ('c \<Rightarrow> 'c \<Rightarrow> bool) \<Rightarrow> 'c sync_sys \<Rightarrow> 'c sync_sys \<Rightarrow> bool"
  for cb :: "'c callback option" and via :: "sync_event \<Rightarrow> bool" and work :: "'c \<Rightarrow> 'c \<Rightarrow> bool" and s0 :: "'c sync_sys" where
  init: "work_reach cb via work s0 s0"
| step: "work_reach cb via work s0 s \<Longrightarrow> work_step cb via work s t \<Longrightarrow> work_reach cb via work s0 t"

lemma sync_inv_owner [simp]: "sync_inv (s\<lparr>owner := c\<rparr>) = sync_inv s"
  by (simp add: sync_inv_def)

lemma work_reach_inv:
  assumes "work_reach cb via work s0 s" "sync_inv s0"
  shows "sync_inv s"
  using assms
proof (induction rule: work_reach.induct)
  case (step s t)
  from step.hyps(2) show ?case by cases (use step.IH step.prems sync_step_inv in auto)
qed

text \<open>What holds of the barrier when its layer is left, for each way to leave it.\<close>

definition all_finished :: "'c sync_sys \<Rightarrow> bool" where
  "all_finished s \<longleftrightarrow> marked (barrier s) = {..<threshold (barrier s)} \<and> active s = {} \<and>
     processed (barrier s) = threshold (barrier s) \<and> pending s = 1"

lemma fire_finished: "sync_inv s \<Longrightarrow> sync_step cb s Fire t \<Longrightarrow> all_finished s"
  using pending_complete [of s] by (auto simp: all_finished_def elim!: fireE)

lemma external_unmarked:
  assumes "sync_inv s" "sync_step cb s External t"
  shows "marked (barrier s) = {} \<and> active s = {}"
proof -
  have "active s = {}" "processed (barrier s) = 0" using assms(2) by (auto elim: externalE)
  then show ?thesis using assms(1) by (simp add: sync_inv_def)
qed

lemma layer_left:
  assumes "sync_inv s" "sync_step cb s e t" "sy_layer (barrier t) \<noteq> sy_layer (barrier s)"
  shows "e = Fire \<and> all_finished s \<or> e = External \<and> marked (barrier s) = {} \<and> active s = {} \<or>
     (\<exists>r l n. e = Restart r l n \<and> active s = {} \<and> pending s = 0)"
  using assms(2)
proof cases
  case fire
  then show ?thesis using fire_finished [OF assms(1)] assms(2) by auto
next
  case external
  then show ?thesis using external_unmarked [OF assms(1)] assms(2) by auto
qed (use assms(3) in \<open>auto simp: SyncOnce_ok_iff Done_ok_iff\<close>)

locale worker_callback = threshold_callback +
  fixes work :: "'c \<Rightarrow> 'c \<Rightarrow> bool" and via :: "sync_event \<Rightarrow> bool"
  assumes work_senders: "work c c' \<Longrightarrow> senders c' = senders c"
    and work_layer: "work c c' \<Longrightarrow> recorded_layer c' l = recorded_layer c l"
    and in_round: "via e \<Longrightarrow> round_event e"
begin

lemma work_reach_senders:
  assumes "work_reach (Some on_threshold) via work s0 s" "threshold (barrier s0) = senders (owner s0)"
  shows "senders (owner s) = senders (owner s0) \<and> threshold (barrier s) = senders (owner s0)"
  using assms
proof (induction rule: work_reach.induct)
  case (step s t)
  from step.hyps(2) show ?case
  proof cases
    case (barrier e)
    then show ?thesis using step_senders [OF _ in_round] step.IH step.prems by metis
  next
    case (work c)
    then show ?thesis using step.IH step.prems work_senders by simp
  qed
qed simp

text \<open>Whatever the work, a trigger the barrier spawned runs when each sender its owner expects has finished.\<close>

lemma work_layer_complete:
  assumes "work_reach (Some on_threshold) via work (sync_init c round layer (senders c)) s"
    and "sync_step (Some on_threshold) s Fire t"
  shows "marked (barrier s) = {..<senders c} \<and> active s = {} \<and> processed (barrier s) = senders c"
proof -
  have "threshold (barrier s) = senders c"
    using work_reach_senders [OF assms(1)] by (simp add: sync_init_def NewSynchronizer_def)
  then show ?thesis
    using fire_finished [OF work_reach_inv [OF assms(1) sync_inv_init] assms(2)] by (simp add: all_finished_def)
qed

end

text \<open>A barrier for one sender, after the sender has been processed.\<close>

definition one_done :: "'c \<Rightarrow> int \<Rightarrow> int \<Rightarrow> 'c sync_sys" where
  "one_done c r l = \<lparr>barrier = \<lparr>sy_round = r, sy_layer = l, processed = 1, threshold = 1, started = [True]\<rparr>,
     owner = c, passed = {#}, active = {}, pending = 1\<rparr>"

definition one_active :: "'c \<Rightarrow> int \<Rightarrow> int \<Rightarrow> 'c sync_sys" where
  "one_active c r l = \<lparr>barrier = \<lparr>sy_round = r, sy_layer = l, processed = 0, threshold = 1, started = [True]\<rparr>,
     owner = c, passed = {#}, active = {0}, pending = 0\<rparr>"

lemma one_sender_steps:
  "sync_step cb (sync_init c r l 1) (Pass 0 l) ((sync_init c r l 1)\<lparr>passed := {#(0, l)#}\<rparr>)"
  "sync_step cb ((sync_init c r l 1)\<lparr>passed := {#(0, l)#}\<rparr>) (Arrive 0 l) (one_active c r l)"
  "sync_step cb (one_active c r l) (Finish 0) (one_done c r l)"
proof -
  let ?s = "sync_init c r l 1"
  have "sync_step cb ?s (Pass 0 l) (?s\<lparr>passed := add_mset (0, l) (passed ?s)\<rparr>)"
    by (rule sync_step.pass) (simp add: Sync_def sync_init_def NewSynchronizer_def)
  then show "sync_step cb ?s (Pass 0 l) (?s\<lparr>passed := {#(0, l)#}\<rparr>)" by (simp add: sync_init_def)
  let ?p = "?s\<lparr>passed := {#(0, l)#}\<rparr>" and ?b = "\<lparr>sy_round = r, sy_layer = l, processed = 0, threshold = 1, started = [True]\<rparr>"
  have "sync_step cb ?p (Arrive 0 l) (?p\<lparr>barrier := ?b, passed := passed ?p - {#(0, l)#}, active := insert 0 (active ?p)\<rparr>)"
    by (rule sync_step.arrive) (simp_all add: sync_init_def NewSynchronizer_def SyncOnce_def go_index_int_def)
  then show "sync_step cb ?p (Arrive 0 l) (one_active c r l)" by (simp add: sync_init_def one_active_def)
  let ?a = "one_active c r l"
  have "sync_step cb ?a (Finish 0)
      (?a\<lparr>barrier := ?b\<lparr>processed := 1\<rparr>, active := active ?a - {0}, pending := pending ?a + of_bool True\<rparr>)"
    by (rule sync_step.finish) (simp_all add: one_active_def Done_def Let_def)
  then show "sync_step cb ?a (Finish 0) (one_done c r l)" by (simp add: one_active_def one_done_def)
qed

lemma one_sender_work:
  assumes "\<And>i k. via (Pass i k)" "\<And>i k. via (Arrive i k)" "\<And>i. via (Finish i)"
  shows "work_reach cb via W (sync_init c r l 1) (one_active c r l)" "work_reach cb via W (sync_init c r l 1) (one_done c r l)"
proof -
  note steps = one_sender_steps(1) [THEN work_step.barrier [where via = via and work = W], OF assms(1)]
    one_sender_steps(2) [THEN work_step.barrier [where via = via and work = W], OF assms(2)]
    one_sender_steps(3) [THEN work_step.barrier [where via = via and work = W], OF assms(3)]
  show a: "work_reach cb via W (sync_init c r l 1) (one_active c r l)"
    by (rule work_reach.step [OF work_reach.step [OF work_reach.init]]) (rule steps)+
  show "work_reach cb via W (sync_init c r l 1) (one_done c r l)"
    by (rule work_reach.step [OF a]) (rule steps)
qed

lemma one_sender_reach: "sync_reach cb (sync_init c r l 1) (one_active c r l)" "sync_reach cb (sync_init c r l 1) (one_done c r l)"
proof -
  show a: "sync_reach cb (sync_init c r l 1) (one_active c r l)"
    by (rule sync_reach.step [OF sync_reach.step [OF sync_reach.init]]) (rule one_sender_steps)+
  show "sync_reach cb (sync_init c r l 1) (one_done c r l)"
    by (rule sync_reach.step [OF a]) (rule one_sender_steps)
qed

section \<open>Properties\<close>



text \<open>\<^verbatim>\<open>SyncOnce\<close> releases the lock of \<^verbatim>\<open>Sync\<close> before it marks, so the layer may change in between: of two streams of one sender
  for layer \<open>0\<close>, the second can take the mark of that sender for layer \<open>1\<close>.\<close>

theorem late_duplicate_marks_next_layer:
  "\<exists>s t. sync_reach None (sync_init c r l 1) s \<and> sync_step None s (Arrive 0 l) t \<and> sy_layer (barrier t) = l + 1 \<and> marked (barrier t) = {0}"
proof -
  let ?i = "sync_init c r l 1" and ?a = "\<lambda>s. s\<lparr>passed := {#(0, l)#}\<rparr>"
  let ?b = "\<lparr>sy_round = r, sy_layer = l + 1, processed = 0, threshold = 1, started = [False]\<rparr>"
  have p: "sync_step None (?a ?i) (Pass 0 l) (?i\<lparr>passed := {#(0, l), (0, l)#}\<rparr>)"
    using sync_step.pass [of "?a ?i" l None 0] by (simp add: Sync_def sync_init_def NewSynchronizer_def)
  have a: "sync_step None (?i\<lparr>passed := {#(0, l), (0, l)#}\<rparr>) (Arrive 0 l) (?a (one_active c r l))"
    using sync_step.arrive [of 0 l "?i\<lparr>passed := {#(0, l), (0, l)#}\<rparr>" "barrier (one_active c r l)" None]
    by (simp add: SyncOnce_def go_index_int_def sync_init_def NewSynchronizer_def one_active_def)
  have f: "sync_step None (?a (one_active c r l)) (Finish 0) (?a (one_done c r l))"
    using sync_step.finish [of 0 "?a (one_active c r l)" "barrier (one_done c r l)" True None]
    by (simp add: Done_def one_active_def one_done_def)
  let ?s = "(?a (one_done c r l))\<lparr>barrier := ?b, pending := 0\<rparr>"
  have t: "sync_step None (?a (one_done c r l)) Fire ?s"
    using sync_step.fire [of "?a (one_done c r l)" None c ?b] by (simp add: Trigger_def one_done_def)
  have "sync_step None ?s (Arrive 0 l) (?s\<lparr>barrier := ?b\<lparr>started := [True]\<rparr>, passed := {#}, active := {0}\<rparr>)"
    using sync_step.arrive [of 0 l ?s "?b\<lparr>started := [True]\<rparr>" None] by (simp add: SyncOnce_def go_index_int_def one_done_def)
  moreover have "sync_reach None ?i ?s"
    by (rule sync_reach.step [OF sync_reach.step [OF sync_reach.step [OF sync_reach.step
          [OF sync_reach.step [OF sync_reach.init one_sender_steps(1)] p] a] f] t])
  ultimately show ?thesis by (fastforce simp: marked_def one_done_def)
qed

text \<open>The panic \<^verbatim>\<open>More clients passed SyncOnce than threshold\<close> of \<^verbatim>\<open>Done\<close> is unreachable: a
  sender that passed \<^verbatim>\<open>SyncOnce\<close> and finishes always gets a normal return.\<close>

theorem done_never_panics:
  assumes "sync_reach cb (sync_init c round layer t) s" and "i \<in> active s"
  shows "\<exists>b spawn. Done (barrier s) = (b, Inr spawn)"
proof -
  have inv: "sync_inv s" using sync_reach_inv [OF assms(1) sync_inv_init] .
  then have sub: "active s \<subseteq> marked (barrier s)" and len: "length (started (barrier s)) = threshold (barrier s)"
    by (auto simp: sync_inv_def)
  then have "card (active s) > 0"
    using assms(2) finite_subset [OF sub] by (auto simp: card_gt_0_iff)
  then have "processed (barrier s) + 1 \<le> threshold (barrier s)"
    using inv card_marked_le [of "barrier s"] len by (simp add: sync_inv_def)
  then show ?thesis by (simp add: Done_ok_iff)
qed

text \<open>C30. Progress of the barrier, for every callback: in each reachable state where all senders have been marked and
  none is active, a trigger is pending. It runs unless the callback fails, and then the barrier is at the layer
  and for the number of senders that the callback returned, with no sender marked and no trigger left; a
  synchronizer without a callback always moves to the next layer. When the callback panics, so does the trigger, and the layer is not left.\<close>

theorem complete_layer_fires:
  assumes "sync_reach cb (sync_init c round layer t) s"
    and "0 < threshold (barrier s)" and "marked (barrier s) = {..<threshold (barrier s)}" and "active s = {}"
  shows "pending s = 1 \<and>
     (case cb of
        None \<Rightarrow> \<exists>s'. sync_step cb s Fire s' \<and> sy_layer (barrier s') = sy_layer (barrier s) + 1 \<and>
          threshold (barrier s') = threshold (barrier s) \<and> marked (barrier s') = {} \<and> pending s' = 0
      | Some on_threshold \<Rightarrow>
          (case on_threshold (owner s) (sy_layer (barrier s)) of
             Inr (c', n, l) \<Rightarrow> \<exists>s'. sync_step cb s Fire s' \<and> owner s' = c' \<and> sy_layer (barrier s') = l \<and>
               threshold (barrier s') = n \<and> marked (barrier s') = {} \<and> pending s' = 0
           | Inl e \<Rightarrow> Trigger cb (owner s) (barrier s) = Inl e \<and> (\<forall>s'. \<not> sync_step cb s Fire s')))"
proof -
  have inv: "sync_inv s" using sync_reach_inv [OF assms(1) sync_inv_init] .
  with assms(2-4) have p: "pending s = 1" by (simp add: sync_inv_def)
  have go: "\<exists>s'. sync_step cb s Fire s' \<and> barrier s' = b \<and> owner s' = c' \<and> marked (barrier s') = {} \<and> pending s' = 0"
    if tr: "Trigger cb (owner s) (barrier s) = Inr (c', b)" for c' b
  proof -
    have "sync_step cb s Fire (s\<lparr>barrier := b, owner := c', pending := pending s - 1\<rparr>)"
      by (rule sync_step.fire [OF _ tr]) (simp add: p)
    then show ?thesis using p Trigger_ok(2) [OF tr] by (intro exI conjI) auto
  qed
  show ?thesis
  proof (cases cb)
    case None
    then show ?thesis using p go by (fastforce simp: Trigger_def)
  next
    case (Some f)
    show ?thesis
    proof (cases "f (owner s) (sy_layer (barrier s))")
      case (Inl e)
      then have "Trigger cb (owner s) (barrier s) = Inl e" by (simp add: Some Trigger_def)
      then show ?thesis using p by (auto simp: Some Inl elim: fireE)
    next
      case (Inr x)
      obtain c' n l where x: "x = (c', n, l)" by (cases x)
      have "Trigger cb (owner s) (barrier s) =
          Inr (c', (barrier s)\<lparr>threshold := n, sy_layer := l, started := replicate n False, processed := 0\<rparr>)"
        by (simp add: Some Trigger_def Inr x)
      from go [OF this] p show ?thesis by (auto simp: Some Inr x)
    qed
  qed
qed

text \<open>A callback that counts the layers left and fails when three have been.\<close>

definition counting :: "nat callback" where
  "counting c l = (if c < 3 then Inr (c + 1, 2, l + 5) else Inl (Panic (PanicError MissingMessages)))"

theorem complete_layer_fires_witness:
  "(\<exists>s'. sync_step (Some counting) (one_done 1 0 0) Fire s' \<and> owner s' = 2 \<and> sy_layer (barrier s') = 5 \<and> threshold (barrier s') = 2) \<and>
   (\<forall>s'. \<not> sync_step (Some counting) (one_done 3 0 0) Fire s')"
proof -
  have ok: "0 < threshold (barrier (one_done n 0 0))" "active (one_done n 0 0) = {}"
    "marked (barrier (one_done n 0 0)) = {..<threshold (barrier (one_done n 0 0))}"
    "owner (one_done n 0 0) = n" "sy_layer (barrier (one_done n 0 0)) = 0" for n :: nat
    by (auto simp: one_done_def marked_def)
  note f = complete_layer_fires [OF one_sender_reach(2) ok(1) ok(3) ok(2), where cb = "Some counting"]
  show ?thesis using f [of 1] f [of 3] unfolding ok(4,5) by (auto simp: counting_def)
qed

text \<open>\<^verbatim>\<open>SyncOnce\<close> on every sender id: a fresh id of the current layer is accepted and marked, a
  second message of the same sender is a \<^verbatim>\<open>SynchronizationError\<close> and leaves the state unchanged,
  ids below 0 or above the number of senders are a \<^verbatim>\<open>BadMetadataError\<close>, and the id equal to the number
  of senders, which the guard \<^verbatim>\<open>id > len(s.started)\<close> lets pass, is an index panic.\<close>

theorem SyncOnce_cases:
  "SyncOnce s i =
     (if i < 0 \<or> int (length (started s)) < i then (s, Inl (Err BadMetadataError))
      else if i = int (length (started s)) then (s, Inl (Panic IndexOutOfRange))
      else if nat i \<in> marked s then (s, Inl (Err SynchronizationError))
      else (s\<lparr>started := (started s)[nat i := True]\<rparr>, Inr ()))"
  by (auto simp: SyncOnce_def go_index_int_def marked_def nat_less_iff split: bool.splits)

end
