(* ===== verification/KeyExchange.thy ===== *)
theory KeyExchange
  imports Curve Synchronizer Network
begin

text \<open>
  The distribution of the signing key of a layer, \<^verbatim>\<open>src/server/keyExchange\<close>: each member of the master group
  sends additive shares of its secret to the members of every other group, and its public key to the
  members of the master group; the receivers add up what they get. The lemmas show that the secrets of
  the members of a group add up to the sum of the master secrets, in whatever order the shares arrive.
\<close>

section \<open>Messages\<close>

definition public_PackTo :: "curve \<Rightarrow> point \<Rightarrow> bytes \<Rightarrow> bytes res" where
  "public_PackTo C key b =
     (if length b \<noteq> CurveElementSize then Inl (Panic (PanicError LengthInvalidError)) else point_PackTo C key b)"

text \<open>The error of the point decoder is dropped: the key keeps its initial value, the zero point.\<close>

definition public_InterpretFrom :: "curve \<Rightarrow> bytes \<Rightarrow> point res" where
  "public_InterpretFrom C b =
     (if length b \<noteq> CurveElementSize then Inl (Err LengthInvalidError)
      else case point_InterpretFrom C b of
          Inl (Err e) \<Rightarrow> Inr ec_ZeroPoint
        | r \<Rightarrow> r)"

record information_request =
  ir_Round :: int
  ir_NumLayers :: int
  ir_SigningKeys :: "point list"

definition ir_Len :: "information_request \<Rightarrow> nat" where
  "ir_Len i = 8 + length (ir_SigningKeys i) * CurveElementSize"

fun read_points :: "curve \<Rightarrow> bytes \<Rightarrow> nat \<Rightarrow> nat \<Rightarrow> point list res" where
  "read_points C b pos 0 = Inr []"
| "read_points C b pos (Suc n) =
     sbind (slice b pos (pos + CurveElementSize)) (\<lambda>s.
     sbind (case point_InterpretFrom C s of Inl (Err e) \<Rightarrow> Inr ec_ZeroPoint | r \<Rightarrow> r) (\<lambda>p.
     sbind (read_points C b (pos + CurveElementSize) n) (\<lambda>ps. Inr (p # ps))))"

definition NewInformationRequest :: "curve \<Rightarrow> bytes \<Rightarrow> information_request res" where
  "NewInformationRequest C b =
     sbind (slice b 0 4) (\<lambda>r. sbind (slice b 4 8) (\<lambda>n.
     sbind (read_points C b 8 (nat (get_le n))) (\<lambda>ps.
       Inr \<lparr>ir_Round = get_le r, ir_NumLayers = get_le n, ir_SigningKeys = ps\<rparr>)))"

fun write_points :: "curve \<Rightarrow> point list \<Rightarrow> bytes \<Rightarrow> nat \<Rightarrow> bytes res" where
  "write_points C [] b pos = Inr b"
| "write_points C (p # ps) b pos =
     sbind (slice b pos (pos + CurveElementSize)) (\<lambda>s.
     sbind (point_PackTo C p s) (\<lambda>e. write_points C ps (copy_at b pos e) (pos + CurveElementSize)))"

definition ir_PackTo :: "curve \<Rightarrow> information_request \<Rightarrow> bytes \<Rightarrow> bytes res" where
  "ir_PackTo C i b =
     (if length b \<noteq> ir_Len i then Inl (Panic (PanicError LengthInvalidError))
      else write_points C (ir_SigningKeys i)
             (copy_at (copy_at b 0 (put_le 4 (ir_Round i))) 4 (put_le 4 (ir_NumLayers i))) 8)"

section \<open>State and operations\<close>

record key_exchange =
  ke_myId :: int
  ke_layerNumber :: int
  ke_master :: bool
  ke_secretSigningKey :: scalar_element
  ke_publicSigningKey :: point
  ke_synchronizer :: synchronizer

definition NewKeyExchange :: "int \<Rightarrow> int \<Rightarrow> nat \<Rightarrow> key_exchange" where
  "NewKeyExchange myID layerNumber masterGroupSize =
     \<lparr>ke_myId = myID, ke_layerNumber = layerNumber, ke_master = False, ke_secretSigningKey = 0,
      ke_publicSigningKey = ec_ZeroPoint, ke_synchronizer = NewSynchronizer 0 InProgress masterGroupSize\<rparr>"

definition NewMasterKeyExchange :: "scalar_element \<Rightarrow> int \<Rightarrow> int \<Rightarrow> nat \<Rightarrow> key_exchange" where
  "NewMasterKeyExchange rnd myId layerNumber masterGroupSize =
     (NewKeyExchange myId layerNumber masterGroupSize)\<lparr>ke_master := True, ke_secretSigningKey := rnd\<rparr>"

definition share_message :: "key_exchange \<Rightarrow> int \<Rightarrow> nat \<Rightarrow> (bytes \<Rightarrow> bytes res) \<Rightarrow> signed_message res" where
  "share_message k gid len pack =
     (let m = NewSignedMessage len 0 (ke_layerNumber k) (ke_myId k) gid 0 1 KeySharePush in
      sbind (pack (sm_Data m)) (\<lambda>d. Inr (fill_data m d)))"

text \<open>The errors of \<^verbatim>\<open>SendToGroup\<close> are dropped.\<close>

definition SendPublicKeyShares ::
  "curve \<Rightarrow> 'n remote \<Rightarrow> caller \<Rightarrow> 'n \<Rightarrow> key_exchange \<Rightarrow> 'n \<times> unit res" where
  "SendPublicKeyShares C R c n k =
     (case share_message k MASTER_GROUP CurveElementSize
             (public_PackTo C (ec_ScalarBaseMult C (ke_secretSigningKey k))) of
        Inl e \<Rightarrow> (n, Inl e)
      | Inr m \<Rightarrow> (case SendToGroup R c n MASTER_GROUP m of
            (n', Inl (Panic p)) \<Rightarrow> (n', Inl (Panic p))
          | (n', _) \<Rightarrow> (n', Inr ())))"

text \<open>Every share is sent; the error returned is the last one that a goroutine reports.\<close>

fun send_shares ::
  "'n remote \<Rightarrow> caller \<Rightarrow> key_exchange \<Rightarrow> int \<Rightarrow> scalar_element list \<Rightarrow> (nat \<times> nat) list \<Rightarrow> 'n \<Rightarrow> 'n \<times> unit res" where
  "send_shares R c k gid shares [] n = (n, Inr ())"
| "send_shares R c k gid shares ((i, server) # g) n =
     (case sbind (go_index shares i) (\<lambda>x. share_message k gid ScalarElementSize (ec_PackTo x)) of
        Inl e \<Rightarrow> (n, Inl e)
      | Inr m \<Rightarrow>
          (case SendSignedMessage R c n (int server) m of
             (n', Inr _) \<Rightarrow> send_shares R c k gid shares g n'
           | (n', Inl e) \<Rightarrow> (case send_shares R c k gid shares g n' of (n'', _) \<Rightarrow> (n'', Inl e))))"

definition SendPrivateKeyShares ::
  "(nat \<Rightarrow> scalar_element) \<Rightarrow> 'n remote \<Rightarrow> caller \<Rightarrow> 'n \<Rightarrow> key_exchange \<Rightarrow> int \<Rightarrow> 'n \<times> unit res" where
  "SendPrivateKeyShares rnd R c n k gid =
     (case sbind (go_index_int (ca_Groups c) gid) (\<lambda>g.
           sbind (ec_AdditiveShares rnd (ke_secretSigningKey k) (length g)) (\<lambda>shares. Inr (g, shares))) of
        Inl e \<Rightarrow> (n, Inl e)
      | Inr (g, shares) \<Rightarrow> send_shares R c k gid shares g n)"

text \<open>\<^verbatim>\<open>StartKeyExchange\<close> up to its last wait, which is for \<open>Sync (ke_synchronizer k) Completed\<close>.\<close>

fun exchange_groups ::
  "curve \<Rightarrow> (int \<Rightarrow> nat \<Rightarrow> scalar_element) \<Rightarrow> 'n remote \<Rightarrow> caller \<Rightarrow> key_exchange \<Rightarrow> int list \<Rightarrow> 'n \<Rightarrow> 'n \<times> unit res" where
  "exchange_groups C rnd R c k [] n = (n, Inr ())"
| "exchange_groups C rnd R c k (i # is) n =
     (case (if i = MASTER_GROUP then SendPublicKeyShares C R c n k else SendPrivateKeyShares (rnd i) R c n k i) of
        (n', Inr _) \<Rightarrow> exchange_groups C rnd R c k is n'
      | (n', Inl e) \<Rightarrow> (case exchange_groups C rnd R c k is n' of (n'', _) \<Rightarrow> (n'', Inl e)))"

definition StartKeyExchange ::
  "curve \<Rightarrow> (int \<Rightarrow> nat \<Rightarrow> scalar_element) \<Rightarrow> 'n remote \<Rightarrow> caller \<Rightarrow> 'n \<Rightarrow> key_exchange \<Rightarrow> 'n \<times> unit res" where
  "StartKeyExchange C rnd R c n k =
     (if \<not> ke_master k then (n, Inl (Panic (PanicMessage ''Key exchange starts in master group'')))
      else exchange_groups C rnd R c k (map int [0..<length (ca_Groups c)]) n)"

text \<open>\<open>None\<close>: the call waits. The result says whether the trigger is started.\<close>

definition ReceiveKeyShare :: "curve \<Rightarrow> key_exchange \<Rightarrow> signed_message \<Rightarrow> (key_exchange \<times> bool res) option" where
  "ReceiveKeyShare C k m =
     (if \<not> Sync (ke_synchronizer k) InProgress then None
      else case (if ke_master k
                 then sbind (public_InterpretFrom C (sm_Data m)) (\<lambda>p.
                        Inr (k\<lparr>ke_publicSigningKey := point_Accumulate C (ke_publicSigningKey k) [p]\<rparr>))
                 else sbind (ec_InterpretFrom (sm_Data m)) (\<lambda>x.
                        Inr (k\<lparr>ke_secretSigningKey := ec_Accumulate (ke_secretSigningKey k) [x]\<rparr>))) of
          Inl e \<Rightarrow> Some (k, Inl e)
        | Inr k' \<Rightarrow> (case Done (ke_synchronizer k') of (s, r) \<Rightarrow> Some (k'\<lparr>ke_synchronizer := s\<rparr>, r)))"

definition exchange_OnThreshold :: "key_exchange callback" where
  "exchange_OnThreshold k step = Inr (k, 0, step + 1)"

definition GetPublicKeys :: "key_exchange \<Rightarrow> point option" where
  "GetPublicKeys k = (if Sync (ke_synchronizer k) Completed then Some (ke_publicSigningKey k) else None)"

text \<open>After the last share no sender is expected.\<close>

interpretation exchange: threshold_callback exchange_OnThreshold "\<lambda>_. 0" "\<lambda>_ l. l + 1"
  by unfold_locales (auto simp: exchange_OnThreshold_def)

section \<open>Lemmas\<close>

fun receive_shares :: "curve \<Rightarrow> key_exchange \<Rightarrow> signed_message list \<Rightarrow> (key_exchange \<times> bool res list) option" where
  "receive_shares C k [] = Some (k, [])"
| "receive_shares C k (m # ms) =
     (case ReceiveKeyShare C k m of None \<Rightarrow> None
      | Some (k', r) \<Rightarrow> (case receive_shares C k' ms of None \<Rightarrow> None | Some (k'', rs) \<Rightarrow> Some (k'', r # rs)))"

lemma message_data: "length d = n \<Longrightarrow> sm_Data (fill_data (NewSignedMessage n r l s g x c t) d) = d"
  by (simp add: sm_Data_def fill_data_def NewSignedMessage_def Metadata_size_def copy_at_def go_copy_def size_defs zeros_def)

text \<open>The message for a share carries the share.\<close>

lemma scalar_message:
  assumes "scalar_range x"
  shows "\<exists>m. share_message k gid ScalarElementSize (ec_PackTo x) = Inr m \<and> ec_InterpretFrom (sm_Data m) = Inr x"
proof -
  let ?m = "NewSignedMessage ScalarElementSize 0 (ke_layerNumber k) (ke_myId k) gid 0 1 KeySharePush"
  have len: "length (sm_Data ?m) = ScalarElementSize"
    by (simp add: sm_Data_def NewSignedMessage_def Metadata_size_def)
  from ec_marshal_roundtrip [OF assms] obtain b where
    b: "ec_PackTo x (zeros ScalarElementSize) = Inr b" "ec_InterpretFrom b = Inr x" by (auto simp: ec_Marshal_def)
  then have lb: "length b = ScalarElementSize" by (auto simp: ec_InterpretFrom_def split: if_splits)
  have "ec_PackTo x (sm_Data ?m) = Inr b" using b(1) len by (simp add: ec_PackTo_def)
  then show ?thesis using b(2) lb by (simp add: share_message_def Let_def message_data)
qed

text \<open>Receiving shares \<open>xs\<close>, fewer than the threshold allows, adds them to the secret.\<close>

lemma receive_shares_ok:
  assumes "\<not> ke_master k" "sy_layer (ke_synchronizer k) = InProgress" "scalar_range (ke_secretSigningKey k)"
    and "list_all2 (\<lambda>m x. ec_InterpretFrom (sm_Data m) = Inr x) ms xs"
    and "processed (ke_synchronizer k) + length ms = threshold (ke_synchronizer k)"
  shows "\<exists>k' rs. receive_shares C k ms = Some (k', rs) \<and>
     ke_secretSigningKey k' = (ke_secretSigningKey k + sum_list xs) mod CURVE_MOD \<and>
     rs = map (\<lambda>i. Inr (i + 1 = length ms)) [0..<length ms] \<and> processed (ke_synchronizer k') = threshold (ke_synchronizer k)"
  using assms
proof (induction ms arbitrary: k xs)
  case Nil
  then show ?case by (simp add: scalar_range_def)
next
  case (Cons m ms)
  obtain x xs' where xs: "xs = x # xs'" "ec_InterpretFrom (sm_Data m) = Inr x"
    "list_all2 (\<lambda>m x. ec_InterpretFrom (sm_Data m) = Inr x) ms xs'"
    using Cons.prems(4) by (auto simp: list_all2_Cons1)
  let ?s = "ke_synchronizer k"
  let ?k = "k\<lparr>ke_secretSigningKey := ec_Accumulate (ke_secretSigningKey k) [x],
              ke_synchronizer := ?s\<lparr>processed := processed ?s + 1\<rparr>\<rparr>"
  have step: "ReceiveKeyShare C k m = Some (?k, Inr (ms = []))"
  proof -
    have "Suc (processed ?s) = threshold ?s \<longleftrightarrow> ms = []" "\<not> threshold ?s < Suc (processed ?s)"
      using Cons.prems(5) by (cases ms; simp)+
    then show ?thesis using Cons.prems(1,2) xs(2) by (simp add: ReceiveKeyShare_def Sync_def Done_def Let_def)
  qed
  have r: "scalar_range (ke_secretSigningKey ?k)" by (simp add: ec_Accumulate_def scalar_range_def)
  from Cons.IH [of ?k xs'] Cons.prems r xs(3) obtain k' rs where
    k': "receive_shares C ?k ms = Some (k', rs)"
      "ke_secretSigningKey k' = (ke_secretSigningKey ?k + sum_list xs') mod CURVE_MOD"
      "rs = map (\<lambda>i. Inr (i + 1 = length ms)) [0..<length ms]"
      "processed (ke_synchronizer k') = threshold ?s" by auto
  have "ke_secretSigningKey k' = (ke_secretSigningKey k + sum_list xs) mod CURVE_MOD"
    using k'(2) xs(1) by (simp add: ec_Accumulate_def mod_simps algebra_simps)
  moreover have "Inr (ms = []) # rs = map (\<lambda>i. Inr (i + 1 = length (m # ms))) [0..<length (m # ms)]"
    using k'(3) by (auto simp: map_upt_Suc simp del: upt_Suc)
  ultimately show ?case using step k'(1,4) by simp
qed

lemma sum_list_exchange:
  "sum_list (map (\<lambda>i. sum_list (map (\<lambda>j. f j i) js)) is) = sum_list (map (\<lambda>j. sum_list (map (f j) is)) js)"
  for f :: "nat \<Rightarrow> nat \<Rightarrow> int"
  by (induction "is") (simp_all add: sum_list_addf)

lemma sum_list_mod_cong: "(\<And>x. x \<in> set xs \<Longrightarrow> f x mod N = g x mod N) \<Longrightarrow> sum_list (map f xs) mod N = sum_list (map g xs) mod N"
  for f g :: "'a \<Rightarrow> int"
proof (induction xs)
  case (Cons x xs)
  have "f x mod N = g x mod N" "sum_list (map f xs) mod N = sum_list (map g xs) mod N" using Cons by simp_all
  then have "(f x + sum_list (map f xs)) mod N = (g x + sum_list (map g xs)) mod N" by (rule mod_add_cong)
  then show ?case by simp
qed simp

section \<open>Properties\<close>

text \<open>C14. The members of a group hold shares of the sum of the master secrets: if every master \<open>j\<close> splits its
  secret for a group of \<open>n\<close> members and each member receives its share of every master, in whatever order,
  then every message is accepted, each member starts its trigger exactly at its last message, and the
  secrets of the members add up to the sum of the secrets of the masters modulo the order.\<close>

theorem key_exchange_shares_secret:
  assumes "\<forall>j < masters. scalar_range (secret j)" and "\<forall>j i. scalar_range (rnd j i)" and "0 < n"
    and "\<forall>j < masters. ec_AdditiveShares (rnd j) (secret j) n = Inr (shares j)"
    and "\<forall>i < n. mset (order i) = mset [0..<masters]"
    and "\<forall>i < n. \<forall>j < masters.
           share_message (NewMasterKeyExchange (secret j) (int j) layer masters) gid ScalarElementSize (ec_PackTo (shares j ! i)) = Inr (msg i j)"
  shows "\<exists>k rs. (\<forall>i < n. receive_shares C (NewKeyExchange (int i) layer masters) (map (msg i) (order i)) = Some (k i, rs i) \<and>
            rs i = map (\<lambda>j. Inr (j + 1 = masters)) [0..<masters]) \<and>
     sum_list (map (\<lambda>i. ke_secretSigningKey (k i)) [0..<n]) mod CURVE_MOD = sum_list (map secret [0..<masters]) mod CURVE_MOD"
proof -
  note sh = ec_shares.shares_cases [OF _ _ assms(4) [rule_format]]
  have member: "\<exists>k rs. receive_shares C (NewKeyExchange (int i) layer masters) (map (msg i) (order i)) = Some (k, rs) \<and>
      rs = map (\<lambda>j. Inr (j + 1 = masters)) [0..<masters] \<and>
      ke_secretSigningKey k = sum_list (map (\<lambda>j. shares j ! i) [0..<masters]) mod CURVE_MOD" if i: "i < n" for i
  proof -
    let ?xs = "map (\<lambda>j. shares j ! i) (order i)"
    have perm: "mset (order i) = mset [0..<masters]" using assms(5) i by blast
    then have o: "set (order i) = {..<masters}" "length (order i) = masters"
      by (metis set_mset_mset atLeast_upt) (metis length_upt diff_zero perm size_mset)
    have "ec_InterpretFrom (sm_Data (msg i j)) = Inr (shares j ! i)" if "j < masters" for j
    proof -
      have "scalar_range (shares j ! i)" using sh(1,3) [OF _ _ that] assms(1,2) that i by simp
      from scalar_message [OF this, of "NewMasterKeyExchange (secret j) (int j) layer masters" gid] assms(6) i that
      show ?thesis by auto
    qed
    then have "list_all2 (\<lambda>m x. ec_InterpretFrom (sm_Data m) = Inr x) (map (msg i) (order i)) ?xs"
      using o(1) by (simp add: list_all2_conv_all_nth) (metis lessThan_iff nth_mem)
    from receive_shares_ok [OF _ _ _ this, of "NewKeyExchange (int i) layer masters" C] o(2) obtain k rs where
      k: "receive_shares C (NewKeyExchange (int i) layer masters) (map (msg i) (order i)) = Some (k, rs)"
        "ke_secretSigningKey k = sum_list ?xs mod CURVE_MOD" "rs = map (\<lambda>j. Inr (j + 1 = masters)) [0..<masters]"
      by (auto simp: NewKeyExchange_def NewSynchronizer_def InProgress_def scalar_range_def)
    have "mset ?xs = mset (map (\<lambda>j. shares j ! i) [0..<masters])" using perm by (simp only: mset_map)
    then have "sum_list ?xs = sum_list (map (\<lambda>j. shares j ! i) [0..<masters])"
      by (simp only: sum_mset_sum_list [symmetric])
    then show ?thesis using k by auto
  qed
  define k where "k i = fst (the (receive_shares C (NewKeyExchange (int i) layer masters) (map (msg i) (order i))))" for i
  define rs where "rs i = snd (the (receive_shares C (NewKeyExchange (int i) layer masters) (map (msg i) (order i))))" for i
  have k: "receive_shares C (NewKeyExchange (int i) layer masters) (map (msg i) (order i)) = Some (k i, rs i) \<and>
      rs i = map (\<lambda>j. Inr (j + 1 = masters)) [0..<masters] \<and>
      ke_secretSigningKey (k i) = sum_list (map (\<lambda>j. shares j ! i) [0..<masters]) mod CURVE_MOD" if "i < n" for i
    using member [OF that] by (auto simp: k_def rs_def)
  have "sum_list (map (\<lambda>i. ke_secretSigningKey (k i)) [0..<n]) mod CURVE_MOD =
      sum_list (map (\<lambda>i. sum_list (map (\<lambda>j. shares j ! i) [0..<masters])) [0..<n]) mod CURVE_MOD"
    by (rule sum_list_mod_cong) (simp add: k)
  also have "\<dots> = sum_list (map (\<lambda>j. sum_list (map ((!) (shares j)) [0..<n])) [0..<masters]) mod CURVE_MOD"
    by (rule arg_cong [OF sum_list_exchange])
  also have "\<dots> = sum_list (map secret [0..<masters]) mod CURVE_MOD"
  proof (rule sum_list_mod_cong)
    fix j assume "j \<in> set [0..<masters]"
    then have j: "j < masters" by simp
    have "map ((!) (shares j)) [0..<n] = shares j" using sh(1) [OF _ _ j] assms(1,2) j by (metis map_nth)
    then show "sum_list (map ((!) (shares j)) [0..<n]) mod CURVE_MOD = secret j mod CURVE_MOD"
      using sh(4) [OF _ _ j] assms(1,2) j by (simp add: foldr_add_mod) (metis mod_mod_trivial)
  qed
  finally show ?thesis using k by (intro exI [of _ k] exI [of _ rs]) blast
qed

theorem key_exchange_shares_secret_witness:
  "\<exists>shares msg k rs. ec_AdditiveShares (\<lambda>i. 4) 5 2 = Inr shares \<and>
     (\<forall>i < (2 :: nat). receive_shares small_curve (NewKeyExchange (int i) 0 1) (map (msg i) [0 :: nat]) = Some (k i, rs i) \<and>
        rs i = map (\<lambda>j. Inr (j + 1 = (1 :: nat))) [0..<1]) \<and>
     sum_list (map (\<lambda>i. ke_secretSigningKey (k i)) [0..<2]) mod CURVE_MOD = 5"
proof -
  have r: "scalar_range 5" "scalar_range 4" by (simp_all add: scalar_range_def CURVE_MOD_def)
  obtain xs where xs: "ec_AdditiveShares (\<lambda>i. 4) 5 2 = Inr xs" "length xs = 2" "\<forall>x \<in> set xs. scalar_range x"
    using ec_shares.shares_sum [OF r(1) r(2), of 2] by auto
  have "\<exists>m. share_message (NewMasterKeyExchange 5 (int j) 0 1) 1 ScalarElementSize (ec_PackTo (xs ! i)) = Inr m" if "i < 2" for i j
    using scalar_message xs(2,3) that by (metis nth_mem)
  then obtain msg where msg: "\<forall>i < 2. \<forall>j < (1 :: nat). share_message (NewMasterKeyExchange 5 (int j) 0 1) 1 ScalarElementSize (ec_PackTo (xs ! i)) = Inr (msg i j)"
    by metis
  have p: "0 < (2 :: nat)" "\<forall>j < (1 :: nat). scalar_range ((\<lambda>_. 5) j)" "\<forall>(j :: nat) (i :: nat). scalar_range ((\<lambda>_ _. 4) j i)"
    "\<forall>j < (1 :: nat). ec_AdditiveShares ((\<lambda>_ _. 4) j) ((\<lambda>_. 5) j) 2 = Inr ((\<lambda>_. xs) j)"
    "\<forall>i < (2 :: nat). mset ((\<lambda>_. [0]) i) = mset [0..<1]" using r xs(1) by simp_all
  from key_exchange_shares_secret [OF p(2,3,1,4,5), of 0 1 msg small_curve] msg
  have "\<exists>k rs. (\<forall>i < 2. receive_shares small_curve (NewKeyExchange (int i) 0 1) (map (msg i) [0 :: nat]) = Some (k i, rs i) \<and>
        rs i = map (\<lambda>j. Inr (j + 1 = (1 :: nat))) [0..<1]) \<and>
     sum_list (map (\<lambda>i. ke_secretSigningKey (k i)) [0..<2]) mod CURVE_MOD = 5"
    by (simp add: CURVE_MOD_def)
  with xs(1) show ?thesis by blast
qed

end
