(* ===== verification/GroupMember.thy ===== *)
theory GroupMember
  imports Checkpoint Preparer KeyExchange
begin

text \<open>
  What a server keeps for each anytrust group it belongs to, \<^verbatim>\<open>src/server/groupMember.go\<close>: the checkpoint, the
  clients it signs tokens for, and the barrier that counts the servers whose final messages have
  been received. The signing key and the secret share are held by the parts that use them; a pointer to
  the server's common state is the argument \<open>c\<close>. The lemmas show that the messages of a round are released
  only when every server has been heard and every recorded signing key has been used exactly once.
\<close>

section \<open>State and operations\<close>

record ('s, 'fr, 'g2) group_member =
  gm_CheckpointState :: "'s checkpoint"
  gm_keyExchange :: "key_exchange list"
  gm_messagePreparer :: "('fr, 'g2) message_preparer"
  gm_checkpointSynchronizer :: synchronizer
  gm_myGroupNumber :: int
  gm_messagesReady :: bool

text \<open>\<open>unset\<close> is the content of the share before \<^verbatim>\<open>SetKeys\<close>; the slice of key exchanges is nil.\<close>

definition NewGroupMember ::
  "('fr, 'g1, 'g2, 'gt) mcl \<Rightarrow> 's \<Rightarrow> int \<Rightarrow> ('s, 'p, 'g2, 'r) common_state \<Rightarrow> ('s, 'fr, 'g2) group_member" where
  "NewGroupMember M unset myGroupNumber c =
     \<lparr>gm_CheckpointState = NewCheckpointState c myGroupNumber unset, gm_keyExchange = [],
      gm_messagePreparer = NewMessagePreparer \<lparr>tsk_X = g2_zero M, tsk_Share = fr_zero M\<rparr> myGroupNumber,
      gm_checkpointSynchronizer = NewSynchronizer (cs_Round c) 0 (cs_NumServers c),
      gm_myGroupNumber = myGroupNumber, gm_messagesReady = False\<rparr>"

definition group_OnThreshold :: "(('s, 'p, 'g2, 'r) common_state \<times> ('s, 'fr, 'g2) group_member) callback" where
  "group_OnThreshold cg layer =
     (case cg of (c, g) \<Rightarrow>
        if AllSignaturesAccountedFor (gm_CheckpointState g)
        then Inr ((c, g\<lparr>gm_messagesReady := True\<rparr>), cs_NumServers c, layer + 1)
        else Inl (Panic (PanicError MissingMessages)))"

definition group_NewLightningRound ::
  "('s, 'p, 'g2, 'r) common_state \<Rightarrow> ('s, 'fr, 'g2) group_member \<Rightarrow> int \<Rightarrow> ('s, 'fr, 'g2) group_member" where
  "group_NewLightningRound c g checkpointLayer =
     (let cp = gm_CheckpointState g in
      g\<lparr>gm_CheckpointState := cp\<lparr>cp_FinalMessages := [],
           cp_AnonymousSigningKeys := ResetSignatureMarking (cp_AnonymousSigningKeys cp)\<rparr>,
        gm_messagesReady := False,
        gm_checkpointSynchronizer := Reset (gm_checkpointSynchronizer g) (cs_Round c) checkpointLayer (cs_NumServers c)\<rparr>)"

definition HandleMessageSubmission ::
  "('s, 'p) lib \<Rightarrow> ('s, 'fr, 'g2) group_member \<Rightarrow> signed_message \<Rightarrow> ('s, 'fr, 'g2) group_member \<times> unit res" where
  "HandleMessageSubmission L g m =
     (case MarkSubmitted L (gm_messagePreparer g) (md_Sender (sm_Metadata m)) m of
        (p, r) \<Rightarrow> (g\<lparr>gm_messagePreparer := p\<rparr>, r))"

definition group_SetKeys ::
  "('fr, 'g2) token_signing_key \<Rightarrow> 's \<Rightarrow> ('s, 'fr, 'g2) group_member \<Rightarrow> ('s, 'fr, 'g2) group_member" where
  "group_SetKeys t s g =
     g\<lparr>gm_messagePreparer := (gm_messagePreparer g)\<lparr>mp_signer := t\<rparr>,
       gm_CheckpointState := (gm_CheckpointState g)\<lparr>cp_groupKeyShare := s\<rparr>\<rparr>"

text \<open>\<open>None\<close>: the call waits.\<close>

definition group_GetMessages :: "('s, 'fr, 'g2) group_member \<Rightarrow> bytes list option" where
  "group_GetMessages g = (if gm_messagesReady g then Some (cp_FinalMessages (gm_CheckpointState g)) else None)"

section \<open>The barrier of a group\<close>

text \<open>The work of a sender: one trustee message, through \<^verbatim>\<open>CheckpointState.HandleTrusteeMessage\<close>.\<close>

definition trustee_work ::
  "('s, 'p) lib \<Rightarrow> ('s, 'p, 'g2, 'r) common_state \<times> ('s, 'fr, 'g2) group_member \<Rightarrow>
     ('s, 'p, 'g2, 'r) common_state \<times> ('s, 'fr, 'g2) group_member \<Rightarrow> bool" where
  "trustee_work L cg cg' \<longleftrightarrow>
     (\<exists>m. cg' = (fst cg, (snd cg)\<lparr>gm_CheckpointState := fst (HandleTrusteeMessage L (gm_CheckpointState (snd cg)) m)\<rparr>))"

interpretation group_barrier: worker_callback
  "group_OnThreshold :: (('s, 'p, 'g2, 'r) common_state \<times> ('s, 'fr, 'g2) group_member) callback"
  "\<lambda>cg. cs_NumServers (fst cg)" "\<lambda>_ l. l + 1" "trustee_work L" own_event
  by unfold_locales
    (auto simp: group_OnThreshold_def trustee_work_def own_event_def round_event_def split: prod.splits if_splits sync_event.splits)

definition group_keys :: "('s, 'p, 'g2, 'r) common_state \<times> ('s, 'fr, 'g2) group_member \<Rightarrow> verification_key_table" where
  "group_keys cg = cp_AnonymousSigningKeys (gm_CheckpointState (snd cg))"

text \<open>A message, whatever it is, keeps the invariant of the key table and the keys themselves.\<close>

lemma trustee_work_keys:
  assumes "vt_inv (group_keys cg)" "trustee_work L cg cg'"
  shows "vt_inv (group_keys cg') \<and> vt_all (group_keys cg') = vt_all (group_keys cg) \<and>
     vt_used (group_keys cg) \<subseteq> vt_used (group_keys cg') \<and> gm_messagesReady (snd cg') = gm_messagesReady (snd cg)"
proof -
  let ?st = "gm_CheckpointState (snd cg)"
  obtain m where m: "cg' = (fst cg, (snd cg)\<lparr>gm_CheckpointState := fst (HandleTrusteeMessage L ?st m)\<rparr>)"
    using assms(2) by (auto simp: trustee_work_def)
  obtain st' r where h: "HandleTrusteeMessage L ?st m = (st', r)" by fastforce
  obtain acc where t: "trustee_all L ?st [m] = (st', acc)" using h by (auto simp: Let_def)
  from trustee_all_ok [OF _ t] assms(1) m h show ?thesis by (simp add: group_keys_def)
qed

lemma group_Trigger:
  assumes "Trigger (Some group_OnThreshold) cg b = Inr (cg', b')"
  shows "AllSignaturesAccountedFor (gm_CheckpointState (snd cg))" "cg' = (fst cg, (snd cg)\<lparr>gm_messagesReady := True\<rparr>)"
  using assms by (auto simp: Trigger_def group_OnThreshold_def split: prod.splits if_splits)

text \<open>A step that makes the messages readable is a trigger that the barrier spawned: no \<^verbatim>\<open>RoundStart\<close> triggers the
  barrier of a group, and no message does.\<close>

lemma group_step:
  assumes "work_step (Some group_OnThreshold) own_event (trustee_work L) s t" "vt_inv (group_keys (owner s))"
  shows "sync_step (Some group_OnThreshold) s Fire t \<or>
     vt_inv (group_keys (owner t)) \<and> vt_all (group_keys (owner t)) = vt_all (group_keys (owner s)) \<and>
     vt_used (group_keys (owner s)) \<subseteq> vt_used (group_keys (owner t)) \<and>
     gm_messagesReady (snd (owner t)) = gm_messagesReady (snd (owner s))"
  using assms(1)
proof cases
  case (barrier e)
  from barrier(1) show ?thesis by cases (use barrier assms(2) in \<open>auto simp: own_event_def\<close>)
next
  case (work c)
  then show ?thesis using trustee_work_keys [OF assms(2)] by simp
qed

lemma group_fire:
  assumes "sync_step (Some group_OnThreshold) s Fire t" "vt_inv (group_keys (owner s))"
  shows "vt_used (group_keys (owner s)) = vt_all (group_keys (owner s))" "group_keys (owner t) = group_keys (owner s)"
    "group_GetMessages (snd (owner t)) = Some (cp_FinalMessages (gm_CheckpointState (snd (owner s))))"
proof -
  from assms(1) obtain c' b' where "Trigger (Some group_OnThreshold) (owner s) (barrier s) = Inr (c', b')" "owner t = c'"
    by (auto elim: fireE)
  note tr = group_Trigger [OF this(1)] this(2)
  then show "group_keys (owner t) = group_keys (owner s)"
    "group_GetMessages (snd (owner t)) = Some (cp_FinalMessages (gm_CheckpointState (snd (owner s))))"
    by (simp_all add: group_keys_def group_GetMessages_def)
  show "vt_used (group_keys (owner s)) = vt_all (group_keys (owner s))"
    using tr(1) assms(2) signing_keys.complete_all by (simp add: AllSignaturesAccountedFor_def group_keys_def)
qed

lemma group_reach_keys:
  assumes "work_reach (Some group_OnThreshold) own_event (trustee_work L) s0 s" "vt_inv (group_keys (owner s0))"
    and "\<not> gm_messagesReady (snd (owner s0))"
  shows "vt_inv (group_keys (owner s)) \<and> vt_all (group_keys (owner s)) = vt_all (group_keys (owner s0)) \<and>
     (gm_messagesReady (snd (owner s)) \<longrightarrow> vt_used (group_keys (owner s)) = vt_all (group_keys (owner s0)))"
  using assms
proof (induction rule: work_reach.induct)
  case (step s t)
  note IH = step.IH [OF step.prems]
  then have inv: "vt_inv (group_keys (owner s))" by simp
  from group_step [OF step.hyps(2) inv] show ?case
  proof
    assume "sync_step (Some group_OnThreshold) s Fire t"
    then show ?thesis using group_fire [OF _ inv, of t] IH by simp
  next
    assume k: "vt_inv (group_keys (owner t)) \<and> vt_all (group_keys (owner t)) = vt_all (group_keys (owner s)) \<and>
      vt_used (group_keys (owner s)) \<subseteq> vt_used (group_keys (owner t)) \<and>
      gm_messagesReady (snd (owner t)) = gm_messagesReady (snd (owner s))"
    then show ?thesis using IH vt_used_all [of "group_keys (owner t)"] by auto
  qed
qed simp

section \<open>Properties\<close>

text \<open>A group at the start of a round.\<close>

definition group_start ::
  "('s, 'p, 'g2, 'r) common_state \<Rightarrow> ('s, 'fr, 'g2) group_member \<Rightarrow> (('s, 'p, 'g2, 'r) common_state \<times> ('s, 'fr, 'g2) group_member) sync_sys" where
  "group_start c g = \<lparr>barrier = gm_checkpointSynchronizer g, owner = (c, g), passed = {#}, active = {}, pending = 0\<rparr>"

lemma group_start_init:
  "group_start c (group_NewLightningRound c g layer) =
     sync_init (c, group_NewLightningRound c g layer) (cs_Round c) layer (cs_NumServers c)"
  by (simp add: group_start_def sync_init_def group_NewLightningRound_def Let_def Reset_def NewSynchronizer_def)

lemma group_NewLightningRound_keys:
  assumes "vt_inv (cp_AnonymousSigningKeys (gm_CheckpointState g))"
  shows "vt_inv (group_keys (c, group_NewLightningRound c' g layer))"
    "vt_all (group_keys (c, group_NewLightningRound c' g layer)) = vt_all (cp_AnonymousSigningKeys (gm_CheckpointState g))"
    "\<not> gm_messagesReady (group_NewLightningRound c' g layer)"
  using ResetSignatureMarking_ok [OF assms] by (simp_all add: group_keys_def group_NewLightningRound_def Let_def)

text \<open>C8. The final messages of a round are released only when they are complete. After \<^verbatim>\<open>NewLightningRound\<close> a call
  of \<^verbatim>\<open>GetMessages\<close> waits. In every interleaving of the streams of all servers with the processing of their messages, the only step
  after which it no longer waits is the trigger of the group's barrier; at that step each
  of the servers has delivered its stream, every signing key recorded for the group has been
  used, and what becomes readable are the messages accepted until then. In every later state of the round in which the call
  returns, every recorded key is used.\<close>

theorem group_releases_complete:
  fixes g :: "('s, 'fr, 'g2) group_member" and c :: "('s, 'p, 'g2, 'r) common_state"
  assumes "vt_inv (cp_AnonymousSigningKeys (gm_CheckpointState g))"
    and "work_reach (Some group_OnThreshold) own_event (trustee_work L) (group_start c (group_NewLightningRound c g layer)) s"
  shows "group_GetMessages (group_NewLightningRound c g layer) = None \<and>
     (\<forall>t. work_step (Some group_OnThreshold) own_event (trustee_work L) s t \<and>
        group_GetMessages (snd (owner s)) = None \<and> group_GetMessages (snd (owner t)) \<noteq> None \<longrightarrow>
        sync_step (Some group_OnThreshold) s Fire t) \<and>
     (\<forall>t. sync_step (Some group_OnThreshold) s Fire t \<longrightarrow>
        marked (barrier s) = {..<cs_NumServers c} \<and> active s = {} \<and>
        vt_used (group_keys (owner s)) = vt_all (cp_AnonymousSigningKeys (gm_CheckpointState g)) \<and>
        group_GetMessages (snd (owner t)) = Some (cp_FinalMessages (gm_CheckpointState (snd (owner s))))) \<and>
     (group_GetMessages (snd (owner s)) \<noteq> None \<longrightarrow>
        vt_used (group_keys (owner s)) = vt_all (cp_AnonymousSigningKeys (gm_CheckpointState g)))"
proof -
  let ?g = "group_NewLightningRound c g layer"
  note g = group_NewLightningRound_keys(1,2) [OF assms(1), where c = c and c' = c and layer = layer]
    group_NewLightningRound_keys(3) [OF assms(1), of c layer]
  note reach = assms(2) [unfolded group_start_init]
  have k: "vt_inv (group_keys (owner s))" "vt_all (group_keys (owner s)) = vt_all (cp_AnonymousSigningKeys (gm_CheckpointState g))"
    "gm_messagesReady (snd (owner s)) \<longrightarrow> vt_used (group_keys (owner s)) = vt_all (cp_AnonymousSigningKeys (gm_CheckpointState g))"
    using group_reach_keys [OF assms(2)] g by (simp_all add: group_start_def)
  have fire: "marked (barrier s) = {..<cs_NumServers c} \<and> active s = {}" if "sync_step (Some group_OnThreshold) s Fire t" for t
    using group_barrier.work_layer_complete [of L "(c, ?g)"] reach that by simp
  have "sync_step (Some group_OnThreshold) s Fire t"
    if "work_step (Some group_OnThreshold) own_event (trustee_work L) s t" "group_GetMessages (snd (owner s)) = None"
      "group_GetMessages (snd (owner t)) \<noteq> None" for t
    using group_step [OF that(1) k(1)] that(2,3) by (auto simp: group_GetMessages_def split: if_splits)
  then show ?thesis
    using fire group_fire [OF _ k(1)] k(2,3) g(3) by (auto simp: group_GetMessages_def)
qed

definition sample_member :: "(256 word, 1 word, 1 word) group_member" where
  "sample_member = NewGroupMember toy_mcl 3 0 sample_state"

text \<open>A member with one recorded key, which delivers its message through the only server.\<close>

definition keyed_member :: "(256 word, 1 word, 1 word) group_member" where
  "keyed_member = sample_member\<lparr>gm_CheckpointState := sample_checkpoint\<rparr>"

lemma keyed_reach:
  "\<exists>cg. work_reach (Some group_OnThreshold) own_event (trustee_work toy_lib)
      (group_start sample_state (group_NewLightningRound sample_state keyed_member 2)) (one_done cg 0 2) \<and>
    cp_FinalMessages (gm_CheckpointState (snd cg)) = [[0]] \<and> AllSignaturesAccountedFor (gm_CheckpointState (snd cg)) \<and>
    \<not> gm_messagesReady (snd cg)"
proof -
  let ?g = "group_NewLightningRound sample_state keyed_member 2"
  let ?st = "gm_CheckpointState ?g"
  have n: "cs_NumServers sample_state = 1" "cs_Round sample_state = 0" by (simp_all add: sample_state_def)
  have k: "vt_inv (cp_AnonymousSigningKeys (gm_CheckpointState keyed_member))" using sample_checkpoint_keys by (simp add: keyed_member_def)
  have "vt_inv (cp_AnonymousSigningKeys ?st)" "vt_all (cp_AnonymousSigningKeys ?st) = {zeros 32}" "vt_used (cp_AnonymousSigningKeys ?st) = {}"
    "cp_FinalMessages ?st = []"
    using ResetSignatureMarking_ok [OF k] sample_checkpoint_keys
    by (simp_all add: group_NewLightningRound_def Let_def keyed_member_def)
  note st = this
  from HandleTrusteeMessage_cases [OF st(1) sample_final, of toy_lib] st(2-4) sample_signatures(1) obtain t' where
    t': "vt_inv t'" "vt_all t' = {zeros 32}" "vt_used t' = {zeros 32}"
      "HandleTrusteeMessage toy_lib ?st (zeros 97) = (?st\<lparr>cp_AnonymousSigningKeys := t', cp_FinalMessages := [[0]]\<rparr>, Inr ())"
    by auto
  let ?cg = "(sample_state, ?g\<lparr>gm_CheckpointState := fst (HandleTrusteeMessage toy_lib ?st (zeros 97))\<rparr>)"
  have w: "trustee_work toy_lib (sample_state, ?g) ?cg" unfolding trustee_work_def by (intro exI [of _ "zeros 97"]) simp
  have e: "own_event (Pass i l)" "own_event (Arrive i l)" "own_event (Finish i)" for i l by (simp_all add: own_event_def)
  note a = one_sender_work(1) [OF e, of "Some group_OnThreshold" "trustee_work toy_lib" "(sample_state, ?g)" 0 2]
  have "work_step (Some group_OnThreshold) own_event (trustee_work toy_lib) (one_active (sample_state, ?g) 0 2)
      ((one_active (sample_state, ?g) 0 2)\<lparr>owner := ?cg\<rparr>)"
    by (rule work_step.work) (simp add: one_active_def w)
  then have "work_step (Some group_OnThreshold) own_event (trustee_work toy_lib) (one_active (sample_state, ?g) 0 2) (one_active ?cg 0 2)"
    by (simp add: one_active_def)
  from work_reach.step [OF work_reach.step [OF a this] work_step.barrier [where via = own_event, OF one_sender_steps(3) e(3)]]
  have "work_reach (Some group_OnThreshold) own_event (trustee_work toy_lib) (group_start sample_state ?g) (one_done ?cg 0 2)"
    by (simp add: group_start_init n)
  moreover have "AllSignaturesAccountedFor (fst (HandleTrusteeMessage toy_lib ?st (zeros 97)))"
    unfolding AllSignaturesAccountedFor_def using t' by (subst signing_keys.complete_all) simp_all
  moreover have "\<not> gm_messagesReady ?g" by (simp add: group_NewLightningRound_def Let_def)
  ultimately show ?thesis using t'(4) by (intro exI [of _ ?cg]) simp
qed

theorem group_releases_complete_witness:
  "group_GetMessages (group_NewLightningRound sample_state keyed_member 2) = None \<and>
   (\<exists>cg t. work_reach (Some group_OnThreshold) own_event (trustee_work toy_lib)
        (group_start sample_state (group_NewLightningRound sample_state keyed_member 2)) (one_done cg 0 2) \<and>
      group_GetMessages (snd cg) = None \<and>
      sync_step (Some group_OnThreshold) (one_done cg 0 2) Fire t \<and> group_GetMessages (snd (owner t)) = Some [[0]] \<and>
      vt_used (group_keys cg) = {zeros 32})"
proof -
  obtain cg where cg: "work_reach (Some group_OnThreshold) own_event (trustee_work toy_lib)
      (group_start sample_state (group_NewLightningRound sample_state keyed_member 2)) (one_done cg 0 2)"
    "cp_FinalMessages (gm_CheckpointState (snd cg)) = [[0]]" "AllSignaturesAccountedFor (gm_CheckpointState (snd cg))"
    "\<not> gm_messagesReady (snd cg)" using keyed_reach by blast
  have k: "vt_inv (cp_AnonymousSigningKeys (gm_CheckpointState keyed_member))"
    "vt_all (cp_AnonymousSigningKeys (gm_CheckpointState keyed_member)) = {zeros 32}"
    using sample_checkpoint_keys by (simp_all add: keyed_member_def)
  have "\<exists>c b. Trigger (Some group_OnThreshold) (owner (one_done cg 0 2)) (barrier (one_done cg 0 2)) = Inr (c, b)"
    using cg(3) by (cases cg) (simp add: Trigger_def group_OnThreshold_def one_done_def)
  moreover have "0 < pending (one_done cg 0 2)" by (simp add: one_done_def)
  ultimately obtain t where t: "sync_step (Some group_OnThreshold) (one_done cg 0 2) Fire t"
    using sync_step.fire [of "one_done cg 0 2"] by blast
  have o: "owner (one_done cg 0 2) = cg" by (simp add: one_done_def)
  note r = group_releases_complete [OF k(1) cg(1), unfolded o k(2) cg(2)]
  have f: "vt_used (group_keys cg) = {zeros 32}" "group_GetMessages (snd (owner t)) = Some [[0]]"
    "group_GetMessages (group_NewLightningRound sample_state keyed_member 2) = None" using r t by simp_all
  have "group_GetMessages (snd cg) = None" using cg(4) by (simp add: group_GetMessages_def)
  then show ?thesis using f cg(1) t by (intro conjI exI [of _ cg] exI [of _ t]) assumption+
qed

end
