(* ===== verification/Server.thy ===== *)
theory Server
  imports PathEstablishment GroupMember Lengths
begin

text \<open>
  A mix server, \<^verbatim>\<open>src/server/server.go\<close>: the state of a round, the handlers of the three kinds of messages,
  the step from one layer to the next and the calls of the coordinator. The parser, the router and the
  path parser of layer \<open>l\<close> refer to the key table of layer \<open>l\<close>. \<^verbatim>\<open>OnThreshold\<close> is split at its \<^verbatim>\<open>go\<close> statement: the
  function \<open>server_OnThreshold\<close> is the part that runs under the barrier, \<open>OnThreshold_send\<close> the goroutine
  that sends the messages of the layer and then releases the lock. \<open>None\<close> is a call that never returns.
\<close>

section \<open>State\<close>

record ('s, 'p, 'fr, 'g2, 'r, 'c) server =
  sv_GroupAliases :: "(int \<times> ('s, 'fr, 'g2) group_member) list"
  sv_CommonState :: "('s, 'p, 'g2, 'r) common_state"
  sv_Caller :: "caller option"
  sv_Keys :: "'s key_table list"
  sv_synchronizer :: synchronizer
  sv_OutgoingConnections :: "'c list"
  sv_onionParsers :: "onion_parser option list"
  sv_lastLayer :: int
  sv_finalRouter :: out_buffers
  sv_receiptLayer :: int
  sv_receipts :: "(int \<times> bytes) list"
  sv_lightingRouters :: "out_buffers option list"
  sv_pathEstablishmentRouters :: "'p path_parser option list"
  sv_pathRound :: bool
  sv_pathLayer :: int
  sv_direction :: int
  sv_isRoundComplete :: bool
  sv_started :: bool
  sv_handler_round :: int

text \<open>The fields of \<^verbatim>\<open>coord.RoundInfo\<close> that servers and clients read; sizes and counts are not negative.\<close>

record round_info =
  ri_Round :: int
  ri_NumLayers :: nat
  ri_BinSize :: nat
  ri_PathEstablishment :: bool
  ri_LastLayer :: bool
  ri_MessageSize :: nat
  ri_ReceiptLayer :: int
  ri_BoomerangLimit :: nat
  ri_NextLayer :: int
  ri_Check :: bool
  ri_Interval :: int
  ri_StartId :: int
  ri_EndId :: int
  ri_SkipPathGen :: bool

record key_information =
  ki_GroupId :: int
  ki_TokenPublicKey :: bytes
  ki_GroupKey :: bytes
  ki_TokenKeyShare :: bytes
  ki_GroupShare :: bytes

definition in_groups :: "('fr, 'g1, 'g2, 'gt) mcl \<Rightarrow> 's \<Rightarrow> int \<Rightarrow> ('s, 'p, 'g2, 'r) common_state \<Rightarrow> group_configs \<Rightarrow>
     (int \<times> ('s, 'fr, 'g2) group_member) list" where
  "in_groups M unset myId c groups =
     map (\<lambda>(gid, _). (gid, NewGroupMember M unset gid c)) (filter (\<lambda>(_, servers). myId \<in> set servers) groups)"

definition NewServer ::
  "('s, 'p) lib \<Rightarrow> ('fr, 'g1, 'g2, 'gt) mcl \<Rightarrow> 's \<Rightarrow> (bytes \<Rightarrow> 'r) \<Rightarrow> 'q reader \<Rightarrow> 'q \<Rightarrow> server_configs \<Rightarrow> group_configs \<Rightarrow>
     int \<Rightarrow> 'c list \<Rightarrow> (('s, 'p, 'fr, 'g2, 'r, 'c) server \<times> 'q) res" where
  "NewServer L M unset shake source q configs groups myId conns =
     sbind (NewCommonState L shake source q configs myId groups) (\<lambda>(c, q').
       Inr (\<lparr>sv_GroupAliases = in_groups M unset myId c groups, sv_CommonState = c, sv_Caller = None, sv_Keys = [],
             sv_synchronizer = NewSynchronizer 0 0 0, sv_OutgoingConnections = conns, sv_onionParsers = [],
             sv_lastLayer = 0, sv_finalRouter = [], sv_receiptLayer = 0, sv_receipts = [], sv_lightingRouters = [],
             sv_pathEstablishmentRouters = [], sv_pathRound = False, sv_pathLayer = 0, sv_direction = 0,
             sv_isRoundComplete = False, sv_started = False, sv_handler_round = Blocked\<rparr>, q'))"

definition pointer :: "'a option list \<Rightarrow> int \<Rightarrow> 'a res" where
  "pointer xs i = sbind (go_index_int xs i) (of_option (Panic NilDereference))"

section \<open>Handlers of one message\<close>

definition recordReceipts ::
  "('s, 'p, 'fr, 'g2, 'r, 'c) server \<Rightarrow> bytes \<Rightarrow> bootstrap_key \<Rightarrow> ('s, 'p, 'fr, 'g2, 'r, 'c) server" where
  "recordReceipts s decryption key =
     s\<lparr>sv_receipts := AList.update (bk_PrevServer key) decryption (sv_receipts s)\<rparr>"

text \<open>\<^verbatim>\<open>s.onionParsers[layer].AuthenticatedOnionParse(m, message)\<close>: the decryption and its key.\<close>

definition parse_onion ::
  "('s, 'p) lib \<Rightarrow> ('s, 'p, 'fr, 'g2, 'r, 'c) server \<Rightarrow> int \<Rightarrow> bytes \<Rightarrow>
     ('s, 'p, 'fr, 'g2, 'r, 'c) server \<times> (bytes \<times> bootstrap_key) res" where
  "parse_onion L s layer message =
     (case sbind (pointer (sv_onionParsers s) layer) (\<lambda>p. sbind (go_index_int (sv_Keys s) layer) (\<lambda>t. Inr (t, p))) of
        Inl e \<Rightarrow> (s, Inl e)
      | Inr (t, p) \<Rightarrow>
          (case AuthenticatedOnionParse L (sv_CommonState s) (t, p) message of ((t', p'), r) \<Rightarrow>
             (s\<lparr>sv_Keys := (sv_Keys s)[nat layer := t'], sv_onionParsers := (sv_onionParsers s)[nat layer := Some p']\<rparr>,
              sbind r (\<lambda>(d, i). Inr (d, kt_keys t' ! i)))))"

text \<open>\<^verbatim>\<open>s.lightingRouters[layer].AuthenticatedOnionPack(decryption, key, reverse)\<close>.\<close>

definition pack_onion ::
  "('s, 'p, 'fr, 'g2, 'r, 'c) server \<Rightarrow> int \<Rightarrow> bytes \<Rightarrow> bootstrap_key \<Rightarrow> bool \<Rightarrow>
     ('s, 'p, 'fr, 'g2, 'r, 'c) server \<times> unit res" where
  "pack_onion s layer decryption key reverse =
     (case pointer (sv_lightingRouters s) layer of
        Inl e \<Rightarrow> (s, Inl e)
      | Inr bufs \<Rightarrow> (case AuthenticatedOnionPack bufs decryption key reverse of (bufs', r) \<Rightarrow>
            (s\<lparr>sv_lightingRouters := (sv_lightingRouters s)[nat layer := Some bufs']\<rparr>, r)))"

definition handleLightningMessage ::
  "('s, 'p) lib \<Rightarrow> ('s, 'p, 'fr, 'g2, 'r, 'c) server \<Rightarrow> bytes \<Rightarrow> ('s, 'p, 'fr, 'g2, 'r, 'c) server \<times> unit res" where
  "handleLightningMessage L s message =
     (let layer = cs_Layer (sv_CommonState s) in
      case parse_onion L s layer message of
        (s', Inl e) \<Rightarrow> (s', Inl e)
      | (s', Inr (decryption, key)) \<Rightarrow>
          if layer \<noteq> sv_lastLayer s' then pack_onion s' layer decryption key False
          else (case trustee_Pack (sv_finalRouter s') decryption key of (bufs, r) \<Rightarrow> (s'\<lparr>sv_finalRouter := bufs\<rparr>, r)))"

definition handlePathMessage ::
  "('s, 'p) lib \<Rightarrow> ('fr, 'g1, 'g2, 'gt) mcl \<Rightarrow> ('s, 'p, 'fr, 'g2, 'r, 'c) server \<Rightarrow> metadata \<Rightarrow> bytes \<Rightarrow>
     ('s, 'p, 'fr, 'g2, 'r, 'c) server \<times> unit res" where
  "handlePathMessage L M s m message =
     (let layer = cs_Layer (sv_CommonState s) in
      case sbind (pointer (sv_pathEstablishmentRouters s) layer) (\<lambda>p. sbind (go_index_int (sv_Keys s) layer) (\<lambda>t. Inr (t, p))) of
        Inl e \<Rightarrow> (s, Inl e)
      | Inr (t, p) \<Rightarrow>
          (case ParseRecordAndGetNext L M (sv_CommonState s) (t, p) m message of ((t', p'), r) \<Rightarrow>
             let s' = s\<lparr>sv_Keys := (sv_Keys s)[nat layer := t'],
                        sv_pathEstablishmentRouters := (sv_pathEstablishmentRouters s)[nat layer := Some p']\<rparr> in
             case r of
               Inl e \<Rightarrow> (s', Inl e)
             | Inr (boomerangMessage, i) \<Rightarrow>
                 if layer = 0 then (recordReceipts s' boomerangMessage (kt_keys t' ! i), Inr ())
                 else if layer \<noteq> sv_lastLayer s' then pack_onion s' layer boomerangMessage (kt_keys t' ! i) True
                 else (s', Inr ())))"

definition HandleBoomerangMessage ::
  "('s, 'p) lib \<Rightarrow> ('s, 'p, 'fr, 'g2, 'r, 'c) server \<Rightarrow> bytes \<Rightarrow> ('s, 'p, 'fr, 'g2, 'r, 'c) server \<times> unit res" where
  "HandleBoomerangMessage L s message =
     (let layer = cs_Layer (sv_CommonState s) in
      case parse_onion L s layer message of
        (s', Inl e) \<Rightarrow> (s', Inl e)
      | (s', Inr (decryption, key)) \<Rightarrow>
          if layer > sv_receiptLayer s' then pack_onion s' layer decryption key True
          else if layer = 0 then (recordReceipts s' decryption key, Inr ())
          else if layer = sv_receiptLayer s'
          then (s'\<lparr>sv_receipts := AList.update (int (length (sv_receipts s'))) decryption (sv_receipts s')\<rparr>, Inr ())
          else (s', Inr ()))"

text \<open>A message of a client waits for layer \<open>0\<close>.\<close>

definition HandleSubmissionMessage ::
  "('s, 'p) lib \<Rightarrow> ('fr, 'g1, 'g2, 'gt) mcl \<Rightarrow> ('s, 'p, 'fr, 'g2, 'r, 'c) server \<Rightarrow> signed_message \<Rightarrow>
     (('s, 'p, 'fr, 'g2, 'r, 'c) server \<times> unit res) option" where
  "HandleSubmissionMessage L M s m =
     (if \<not> Sync (sv_synchronizer s) 0 then None
      else Some (if sv_pathRound s then handlePathMessage L M s (sm_Metadata m) (sm_Data m)
                 else handleLightningMessage L s (sm_Data m)))"

text \<open>The check of a stream before its messages are processed; \<open>None\<close>: it waits for its layer. The wait of \<^verbatim>\<open>Sync\<close> and the mark of
  \<^verbatim>\<open>SyncOnce\<close> are composed here; other calls can come between them, and in theory Synchronizer they are the two steps \<open>Pass\<close> and \<open>Arrive\<close>.\<close>

definition checkMessage ::
  "('s, 'p, 'fr, 'g2, 'r, 'c) server \<Rightarrow> metadata \<Rightarrow> (('s, 'p, 'fr, 'g2, 'r, 'c) server \<times> unit res) option" where
  "checkMessage s m =
     (if md_Layer m < 0 then Some (s, Inl (Err BadMetadataError))
      else if \<not> Sync (sv_synchronizer s) (md_Layer m) then None
      else (case SyncOnce (sv_synchronizer s) (md_Sender m) of (sy, r) \<Rightarrow> Some (s\<lparr>sv_synchronizer := sy\<rparr>, r)))"

section \<open>From one layer to the next\<close>

text \<open>The parser and the router of the next layer.\<close>

definition new_layer ::
  "('s, 'p, 'fr, 'g2, 'r, 'c) server \<Rightarrow> int \<Rightarrow> bool \<Rightarrow> ('s, 'p, 'fr, 'g2, 'r, 'c) server res" where
  "new_layer s nextLayer reverse =
     sbind (go_index_int (sv_Keys s) nextLayer) (\<lambda>_.
     sbind (go_store_int (sv_onionParsers s) nextLayer (Some (NewOnionParser reverse))) (\<lambda>ps.
     sbind (NewLightningRouter (sv_CommonState s) nextLayer reverse) (\<lambda>bufs.
     sbind (go_store_int (sv_lightingRouters s) nextLayer (Some bufs)) (\<lambda>rs.
       Inr (s\<lparr>sv_onionParsers := ps, sv_lightingRouters := rs\<rparr>)))))"

definition account_for ::
  "('s, 'p, 'fr, 'g2, 'r, 'c) server \<Rightarrow> int \<Rightarrow> ('s, 'p, 'fr, 'g2, 'r, 'c) server res" where
  "account_for s layer =
     (if layer \<noteq> sv_pathLayer s then
        sbind (pointer (sv_onionParsers s) layer) (\<lambda>p. sbind (go_index_int (sv_Keys s) layer) (\<lambda>t.
          case AllKeysAccountedFor (t, p) of (t', ok) \<Rightarrow>
            if \<not> ok then Inl (Panic (PanicError MissingMessages))
            else Inr (s\<lparr>sv_Keys := (sv_Keys s)[nat layer := t']\<rparr>)))
      else Inr s)"

definition server_OnThreshold :: "('s, 'p, 'fr, 'g2, 'r, 'c) server callback" where
  "server_OnThreshold s layer =
     sbind (account_for s layer) (\<lambda>s.
       let nextLayer = layer + sv_direction s;
           s = s\<lparr>sv_CommonState := (sv_CommonState s)\<lparr>cs_Layer := nextLayer\<rparr>\<rparr> in
       sbind (if \<not> sv_pathRound s \<and> layer \<noteq> sv_lastLayer s then new_layer s nextLayer False
              else if sv_pathRound s \<and> layer \<noteq> sv_receiptLayer s then new_layer s nextLayer True
              else Inr s) (\<lambda>s.
       sbind (pointer (sv_lightingRouters s) layer) (\<lambda>_.
         Inr (s, cs_NumServers (sv_CommonState s), nextLayer))))"

section \<open>The barrier of a server\<close>

text \<open>One message, of either kind that uses the onion parser: of the stream of a server, or a submission of a client.\<close>

definition onion_work ::
  "('s, 'p) lib \<Rightarrow> ('s, 'p, 'fr, 'g2, 'r, 'c) server \<Rightarrow> ('s, 'p, 'fr, 'g2, 'r, 'c) server \<Rightarrow> bool" where
  "onion_work L s s' \<longleftrightarrow> (\<exists>m. s' = fst (handleLightningMessage L s m) \<or> s' = fst (HandleBoomerangMessage L s m))"

lemma submission_is_work:
  "\<not> sv_pathRound s \<Longrightarrow> HandleSubmissionMessage L M s m = Some (s', r) \<Longrightarrow> onion_work L s s'"
  by (auto simp: HandleSubmissionMessage_def onion_work_def split: if_splits) (metis fst_conv)+

lemma parse_onion_keeps:
  assumes "parse_onion L s layer m = (s', r)"
  shows "sv_CommonState s' = sv_CommonState s" "sv_pathRound s' = sv_pathRound s" "sv_direction s' = sv_direction s"
    "sv_pathLayer s' = sv_pathLayer s" "sv_lastLayer s' = sv_lastLayer s" "sv_receiptLayer s' = sv_receiptLayer s"
    "sv_lightingRouters s' = sv_lightingRouters s" "sv_finalRouter s' = sv_finalRouter s"
  using assms by (auto simp: parse_onion_def split: sum.splits prod.splits)

text \<open>What the handlers change beyond the parse: buffers and receipts.\<close>

definition same_keys :: "('s, 'p, 'fr, 'g2, 'r, 'c) server \<Rightarrow> ('s, 'p, 'fr, 'g2, 'r, 'c) server \<Rightarrow> bool" where
  "same_keys s s' \<longleftrightarrow> sv_CommonState s' = sv_CommonState s \<and> sv_pathRound s' = sv_pathRound s \<and>
     sv_direction s' = sv_direction s \<and> sv_pathLayer s' = sv_pathLayer s \<and> sv_lastLayer s' = sv_lastLayer s \<and>
     sv_Keys s' = sv_Keys s \<and> sv_onionParsers s' = sv_onionParsers s"

lemma same_keys_refl [simp]: "same_keys s s"
  by (simp add: same_keys_def)

lemma same_keys_updates [simp]:
  "same_keys s (s\<lparr>sv_lightingRouters := x\<rparr>)" "same_keys s (s\<lparr>sv_finalRouter := y\<rparr>)" "same_keys s (s\<lparr>sv_receipts := z\<rparr>)"
  by (simp_all add: same_keys_def)

lemma pack_onion_same [simp]: "same_keys s (fst (pack_onion s layer d k b))"
  by (simp add: pack_onion_def split: sum.split prod.split)

lemma handleLightning_parse:
  "same_keys (fst (parse_onion L s (cs_Layer (sv_CommonState s)) m)) (fst (handleLightningMessage L s m))"
  by (simp add: handleLightningMessage_def Let_def split: sum.split prod.split)

lemma HandleBoomerang_parse:
  "same_keys (fst (parse_onion L s (cs_Layer (sv_CommonState s)) m)) (fst (HandleBoomerangMessage L s m))"
  by (simp add: HandleBoomerangMessage_def recordReceipts_def Let_def split: sum.split prod.split)

lemma onion_work_parse:
  "onion_work L s s' \<Longrightarrow> \<exists>m. same_keys (fst (parse_onion L s (cs_Layer (sv_CommonState s)) m)) s'"
  using handleLightning_parse HandleBoomerang_parse by (fastforce simp: onion_work_def)

lemma account_for_keeps:
  assumes "account_for s layer = Inr s'"
  shows "s' = s\<lparr>sv_Keys := sv_Keys s'\<rparr>"
proof (cases "layer = sv_pathLayer s")
  case True
  then show ?thesis using assms by (simp add: account_for_def)
next
  case False
  then obtain p t where "pointer (sv_onionParsers s) layer = Inr p" "go_index_int (sv_Keys s) layer = Inr t"
    using assms by (auto simp: account_for_def)
  then show ?thesis using assms False by (auto simp: account_for_def split: prod.splits if_splits)
qed

lemma new_layer_keeps:
  assumes "new_layer s l b = Inr s'"
  shows "sv_onionParsers s' = (sv_onionParsers s)[nat l := Some (NewOnionParser b)]" "sv_CommonState s' = sv_CommonState s"
    "sv_Keys s' = sv_Keys s" "sv_pathRound s' = sv_pathRound s" "sv_direction s' = sv_direction s"
    "sv_pathLayer s' = sv_pathLayer s" "sv_lastLayer s' = sv_lastLayer s"
    "0 \<le> l" "nat l < length (sv_onionParsers s)" "nat l < length (sv_Keys s)"
  using assms by (auto simp: new_layer_def go_store_int_def go_index_int_def split: if_splits)

text \<open>A step of the barrier as its three parts.\<close>

lemma server_OnThreshold_cases:
  assumes "server_OnThreshold s layer = Inr (s', n, l)"
  obtains s1 where "account_for s layer = Inr s1" "l = layer + sv_direction s" "n = cs_NumServers (sv_CommonState s')"
    "(if \<not> sv_pathRound s \<and> layer \<noteq> sv_lastLayer s
      then new_layer (s1\<lparr>sv_CommonState := (sv_CommonState s)\<lparr>cs_Layer := l\<rparr>\<rparr>) l False
      else if sv_pathRound s \<and> layer \<noteq> sv_receiptLayer s
      then new_layer (s1\<lparr>sv_CommonState := (sv_CommonState s)\<lparr>cs_Layer := l\<rparr>\<rparr>) l True
      else Inr (s1\<lparr>sv_CommonState := (sv_CommonState s)\<lparr>cs_Layer := l\<rparr>\<rparr>)) = Inr s'"
proof -
  obtain s1 where s1: "account_for s layer = Inr s1" using assms by (auto simp: server_OnThreshold_def)
  have k: "sv_pathRound s1 = sv_pathRound s" "sv_lastLayer s1 = sv_lastLayer s" "sv_receiptLayer s1 = sv_receiptLayer s"
    "sv_direction s1 = sv_direction s" "sv_CommonState s1 = sv_CommonState s"
    by (subst account_for_keeps [OF s1], simp)+
  show ?thesis
    by (rule that [OF s1]) (use assms s1 k in \<open>auto simp: server_OnThreshold_def Let_def split: if_splits\<close>)
qed

lemma server_OnThreshold_keeps:
  assumes "server_OnThreshold s layer = Inr (s', n, l)"
  shows "cs_NumServers (sv_CommonState s') = cs_NumServers (sv_CommonState s) \<and> n = cs_NumServers (sv_CommonState s') \<and>
     cs_Layer (sv_CommonState s') = l"
proof -
  from assms obtain s1 where "n = cs_NumServers (sv_CommonState s')"
    and s': "(if \<not> sv_pathRound s \<and> layer \<noteq> sv_lastLayer s
      then new_layer (s1\<lparr>sv_CommonState := (sv_CommonState s)\<lparr>cs_Layer := l\<rparr>\<rparr>) l False
      else if sv_pathRound s \<and> layer \<noteq> sv_receiptLayer s
      then new_layer (s1\<lparr>sv_CommonState := (sv_CommonState s)\<lparr>cs_Layer := l\<rparr>\<rparr>) l True
      else Inr (s1\<lparr>sv_CommonState := (sv_CommonState s)\<lparr>cs_Layer := l\<rparr>\<rparr>)) = Inr s'"
    by (rule server_OnThreshold_cases)
  moreover have "sv_CommonState s' = (sv_CommonState s)\<lparr>cs_Layer := l\<rparr>"
    using s' by (auto split: if_splits dest: new_layer_keeps(2))
  ultimately show ?thesis by simp
qed

section \<open>The invariant of a lightning round\<close>

text \<open>Only keys of the current layer are in use, and the parser of the layer has counted them.\<close>

definition lightning_inv :: "('s, 'p, 'fr, 'g2, 'r, 'c) server \<Rightarrow> bool" where
  "lightning_inv s \<longleftrightarrow> (let layer = cs_Layer (sv_CommonState s) in
     \<not> sv_pathRound s \<and> sv_direction s = 1 \<and> sv_pathLayer s = -1 \<and> 0 \<le> layer \<and> layer \<le> sv_lastLayer s + 1 \<and>
     int (length (sv_Keys s)) = sv_lastLayer s + 1 \<and> length (sv_onionParsers s) = length (sv_Keys s) \<and>
     (\<forall>l < length (sv_Keys s). table_inv (sv_Keys s ! l) \<and> (int l \<noteq> layer \<longrightarrow> used_ids (sv_Keys s ! l) = {})) \<and>
     (layer \<le> sv_lastLayer s \<longrightarrow>
        (\<exists>p. sv_onionParsers s ! nat layer = Some p \<and> onion_inv (sv_Keys s ! nat layer, p))))"

lemma lightning_inv_same: "same_keys s s' \<Longrightarrow> lightning_inv s' = lightning_inv s"
  by (simp add: lightning_inv_def same_keys_def)

text \<open>The keys of each layer, which no message of a lightning round changes.\<close>

definition layer_ids :: "('s, 'p, 'fr, 'g2, 'r, 'c) server \<Rightarrow> nat set list" where
  "layer_ids s = map ids (sv_Keys s)"

lemma onion_parse_step:
  assumes "onion_inv (t, p)" "AuthenticatedOnionParse L c (t, p) m = ((t', p'), r)"
  shows "onion_inv (t', p') \<and> ids t' = ids t"
  using AuthenticatedOnionParse_effect [OF assms]
proof (elim disjE exE conjE)
  fix d i assume i: "i \<in> ids (fst (t, p))" "i \<notin> used_ids (fst (t, p))" "mark_used (t, p) i = ((t', p'), Inr ())"
  from mark_used_new [OF assms(1), of i] i show ?thesis by auto
qed (use assms in auto)

lemma parse_onion_inv:
  assumes inv: "lightning_inv s" and p: "parse_onion L s (cs_Layer (sv_CommonState s)) m = (s', r)"
  shows "lightning_inv s' \<and> layer_ids s' = layer_ids s"
proof -
  let ?l = "cs_Layer (sv_CommonState s)" and ?n = "nat (cs_Layer (sv_CommonState s))"
  show ?thesis
  proof (cases "?l \<le> sv_lastLayer s")
    case False
    then have "\<not> ?l < int (length (sv_onionParsers s))" using inv by (auto simp: lightning_inv_def Let_def)
    then have "pointer (sv_onionParsers s) ?l = Inl (Panic IndexOutOfRange)" by (simp add: pointer_def go_index_int_def)
    then have "s' = s" using p by (simp add: parse_onion_def)
    then show ?thesis using inv by simp
  next
    case True
    then obtain q where q: "sv_onionParsers s ! ?n = Some q" "onion_inv (sv_Keys s ! ?n, q)" "0 \<le> ?l"
      using inv by (auto simp: lightning_inv_def Let_def)
    have n: "?n < length (sv_Keys s)" "?n < length (sv_onionParsers s)" "int ?n = ?l" "?l < int (length (sv_Keys s))"
      "?l < int (length (sv_onionParsers s))"
      using inv True q(3) by (auto simp: lightning_inv_def Let_def)
    obtain t' p' r' where a: "AuthenticatedOnionParse L (sv_CommonState s) (sv_Keys s ! ?n, q) m = ((t', p'), r')"
      by (metis surj_pair)
    note st = onion_parse_step [OF q(2) a]
    have s': "s' = s\<lparr>sv_Keys := (sv_Keys s)[?n := t'], sv_onionParsers := (sv_onionParsers s)[?n := Some p']\<rparr>"
      using p a q n by (simp add: parse_onion_def pointer_def go_index_int_def)
    have "layer_ids s' = layer_ids s" using st by (simp add: s' layer_ids_def) (metis list_update_id map_update)
    moreover have "lightning_inv s'"
      using inv st n q(3) unfolding lightning_inv_def Let_def s'
      by (auto simp: nth_list_update onion_inv_def)
    ultimately show ?thesis by simp
  qed
qed

lemma onion_work_inv:
  assumes "lightning_inv s" "onion_work L s s'"
  shows "lightning_inv s' \<and> layer_ids s' = layer_ids s \<and> sv_CommonState s' = sv_CommonState s"
proof -
  obtain m where m: "same_keys (fst (parse_onion L s (cs_Layer (sv_CommonState s)) m)) s'"
    using onion_work_parse [OF assms(2)] by blast
  obtain s1 r where p: "parse_onion L s (cs_Layer (sv_CommonState s)) m = (s1, r)" by fastforce
  with m have k: "same_keys s1 s'" by simp
  then show ?thesis
    using parse_onion_inv [OF assms(1) p] lightning_inv_same [OF k] parse_onion_keeps(1) [OF p]
    by (simp add: same_keys_def layer_ids_def)
qed

text \<open>A step of the barrier at the current layer: all keys of the layer have been used, and the next
  layer starts with none of its keys used.\<close>

lemma server_OnThreshold_inv:
  assumes inv: "lightning_inv s" and th: "server_OnThreshold s (cs_Layer (sv_CommonState s)) = Inr (s', n, l)"
  defines "layer \<equiv> nat (cs_Layer (sv_CommonState s))"
  shows "lightning_inv s' \<and> layer_ids s' = layer_ids s \<and> l = cs_Layer (sv_CommonState s) + 1 \<and>
     used_ids (sv_Keys s ! layer) = ids (sv_Keys s ! layer) \<and> cs_Layer (sv_CommonState s) \<le> sv_lastLayer s"
proof -
  let ?l = "cs_Layer (sv_CommonState s)"
  have i: "\<not> sv_pathRound s" "sv_direction s = 1" "sv_pathLayer s = -1" "0 \<le> ?l" "?l \<le> sv_lastLayer s + 1"
    "int (length (sv_Keys s)) = sv_lastLayer s + 1" "length (sv_onionParsers s) = length (sv_Keys s)"
    "\<forall>l < length (sv_Keys s). table_inv (sv_Keys s ! l) \<and> (int l \<noteq> ?l \<longrightarrow> used_ids (sv_Keys s ! l) = {})"
    using inv by (simp_all add: lightning_inv_def Let_def)
  from th obtain s1 where acc: "account_for s ?l = Inr s1" "l = ?l + sv_direction s" and
    new: "(if \<not> sv_pathRound s \<and> ?l \<noteq> sv_lastLayer s
      then new_layer (s1\<lparr>sv_CommonState := (sv_CommonState s)\<lparr>cs_Layer := l\<rparr>\<rparr>) l False
      else if sv_pathRound s \<and> ?l \<noteq> sv_receiptLayer s
      then new_layer (s1\<lparr>sv_CommonState := (sv_CommonState s)\<lparr>cs_Layer := l\<rparr>\<rparr>) l True
      else Inr (s1\<lparr>sv_CommonState := (sv_CommonState s)\<lparr>cs_Layer := l\<rparr>\<rparr>)) = Inr s'"
    by (rule server_OnThreshold_cases)
  have s1: "account_for s ?l = Inr s1" "l = ?l + 1" and
    s': "(if ?l \<noteq> sv_lastLayer s then new_layer (s1\<lparr>sv_CommonState := (sv_CommonState s)\<lparr>cs_Layer := l\<rparr>\<rparr>) l False
          else Inr (s1\<lparr>sv_CommonState := (sv_CommonState s)\<lparr>cs_Layer := l\<rparr>\<rparr>)) = Inr s'"
    using acc new i(1,2) by (simp_all split: if_splits)
  obtain p t where "pointer (sv_onionParsers s) ?l = Inr p" "go_index_int (sv_Keys s) ?l = Inr t"
    using s1(1) i(3,4) by (auto simp: account_for_def)
  then have pt: "sv_onionParsers s ! layer = Some p" "t = sv_Keys s ! layer" "layer < length (sv_Keys s)" "?l \<le> sv_lastLayer s"
    "pointer (sv_onionParsers s) ?l = Inr p" "go_index_int (sv_Keys s) ?l = Inr t"
    using i by (auto simp: pointer_def go_index_int_def layer_def split: if_splits)
  then have o: "onion_inv (t, p)" using inv by (auto simp: lightning_inv_def Let_def layer_def)
  obtain t' ok where a: "AllKeysAccountedFor (t, p) = (t', ok)" by fastforce
  then have ok: "ok" "s1 = s\<lparr>sv_Keys := (sv_Keys s)[layer := t']\<rparr>"
    using s1(1) i(3,4) pt(5,6) by (auto simp: account_for_def layer_def split: if_splits)
  have "t' = ResetUsage t" using a ok(1) by (auto simp: AllKeysAccountedFor_def Let_def)
  then have t': "table_inv t'" "ids t' = ids t" "used_ids t' = {}"
    using ResetUsage_ok [of t] o by (simp_all add: onion_inv_def)
  have used: "used_ids t = ids t" using onion_keys.complete_all [OF o] a ok(1) by simp
  have keys: "sv_Keys s' = (sv_Keys s)[layer := t']" using s' ok(2) by (auto split: if_splits dest: new_layer_keeps(3))
  have flds: "sv_CommonState s' = (sv_CommonState s)\<lparr>cs_Layer := ?l + 1\<rparr>" "\<not> sv_pathRound s'" "sv_direction s' = 1"
    "sv_pathLayer s' = -1" "sv_lastLayer s' = sv_lastLayer s" "length (sv_onionParsers s') = length (sv_Keys s)"
    using s' ok(2) i s1(2) by (auto split: if_splits dest: new_layer_keeps)
  have "layer_ids s' = layer_ids s" using t'(2) pt(2) by (simp add: layer_ids_def keys) (metis list_update_id map_update)
  moreover have all: "table_inv (sv_Keys s' ! j) \<and> used_ids (sv_Keys s' ! j) = {}" if "j < length (sv_Keys s)" for j
    using that i(8) t' pt(3) unfolding keys by (cases "j = layer") (auto simp: layer_def i(4))
  moreover have "\<exists>q. sv_onionParsers s' ! nat (?l + 1) = Some q \<and> onion_inv (sv_Keys s' ! nat (?l + 1), q)"
    if lt: "?l + 1 \<le> sv_lastLayer s"
  proof -
    have n: "new_layer (s1\<lparr>sv_CommonState := (sv_CommonState s)\<lparr>cs_Layer := l\<rparr>\<rparr>) l False = Inr s'" using s' lt by simp
    have "nat (?l + 1) < length (sv_Keys s)" using lt i(4,6) by linarith
    then show ?thesis
      using new_layer_keeps(1) [OF n] s1(2) ok(2) i(7) all
      by (simp add: onion_inv_def NewOnionParser_def)
  qed
  ultimately show ?thesis
    using i pt(2,4) flds keys used s1(2) by (simp add: lightning_inv_def Let_def)
qed

lemma Trigger_server:
  assumes "Trigger (Some server_OnThreshold) c b = Inr (c', b')"
  shows "\<exists>n. server_OnThreshold c (sy_layer b) = Inr (c', n, sy_layer b')"
  using assms by (auto simp: Trigger_def)

text \<open>The invariant along every run of the barrier, for any work that keeps it.\<close>

definition lightning_kept :: "('s, 'p, 'fr, 'g2, 'r, 'c) server \<Rightarrow> ('s, 'p, 'fr, 'g2, 'r, 'c) server \<Rightarrow> bool" where
  "lightning_kept s s' \<longleftrightarrow> lightning_inv s' \<and> layer_ids s' = layer_ids s \<and> sv_lastLayer s' = sv_lastLayer s"

lemma server_Trigger_kept:
  assumes "lightning_inv c" "cs_Layer (sv_CommonState c) = sy_layer b" "Trigger (Some server_OnThreshold) c b = Inr (c', b')"
  shows "lightning_kept c c'" "cs_Layer (sv_CommonState c') = sy_layer b'" "sy_layer b' = sy_layer b + 1"
    "sy_layer b \<le> sv_lastLayer c"
    "used_ids (sv_Keys c ! nat (sy_layer b)) = ids (sv_Keys c ! nat (sy_layer b))"
proof -
  from Trigger_server [OF assms(3)] obtain n where n: "server_OnThreshold c (sy_layer b) = Inr (c', n, sy_layer b')" by blast
  note i = server_OnThreshold_inv [OF assms(1) n [folded assms(2)]]
  have "int (length (sv_Keys c)) = sv_lastLayer c + 1" "int (length (sv_Keys c')) = sv_lastLayer c' + 1"
    "length (sv_Keys c') = length (sv_Keys c)"
    using assms(1) i by (simp_all add: lightning_inv_def layer_ids_def Let_def) (metis length_map)
  then show "lightning_kept c c'" using i by (simp add: lightning_kept_def)
  show "cs_Layer (sv_CommonState c') = sy_layer b'" using server_OnThreshold_keeps [OF n] by simp
  show "sy_layer b' = sy_layer b + 1" "sy_layer b \<le> sv_lastLayer c"
    "used_ids (sv_Keys c ! nat (sy_layer b)) = ids (sv_Keys c ! nat (sy_layer b))"
    using i assms(2) by simp_all
qed

lemma lightning_reach:
  assumes "work_reach (Some server_OnThreshold) round_event W s0 s"
    and "lightning_inv (owner s0)" "cs_Layer (sv_CommonState (owner s0)) = sy_layer (barrier s0)"
    and W: "\<And>c c'. lightning_inv c \<Longrightarrow> W c c' \<Longrightarrow> lightning_kept c c' \<and> cs_Layer (sv_CommonState c') = cs_Layer (sv_CommonState c)"
  shows "lightning_kept (owner s0) (owner s) \<and> cs_Layer (sv_CommonState (owner s)) = sy_layer (barrier s)"
  using assms(1-3)
proof (induction rule: work_reach.induct)
  case init
  then show ?case by (simp add: lightning_kept_def)
next
  case (step s t)
  note IH = step.IH [OF step.prems]
  then have inv: "lightning_inv (owner s)" "cs_Layer (sv_CommonState (owner s)) = sy_layer (barrier s)"
    by (simp_all add: lightning_kept_def)
  have trig: "lightning_kept (owner s0) c' \<and> cs_Layer (sv_CommonState c') = sy_layer b'"
    if "Trigger (Some server_OnThreshold) (owner s) (barrier s) = Inr (c', b')" for c' b'
    using server_Trigger_kept(1,2) [OF inv that] IH by (simp add: lightning_kept_def)
  from step.hyps(2) show ?case
  proof cases
    case (barrier e)
    from barrier(1) show ?thesis
      by cases (use IH trig barrier(2) in \<open>simp_all add: SyncOnce_ok_iff Done_ok_iff round_event_def\<close>)
  next
    case (work c)
    then show ?thesis using IH W [OF inv(1), of c] by (simp add: lightning_kept_def)
  qed
qed

text \<open>However a layer is left, all its keys have been used.\<close>

lemma lightning_leave:
  assumes "lightning_inv (owner s)" "cs_Layer (sv_CommonState (owner s)) = sy_layer (barrier s)"
    and "sync_step (Some server_OnThreshold) s e t" "e = Fire \<or> e = External"
  shows "used_ids (sv_Keys (owner s) ! nat (sy_layer (barrier s))) = ids (sv_Keys (owner s) ! nat (sy_layer (barrier s)))"
    "sy_layer (barrier t) = sy_layer (barrier s) + 1" "sy_layer (barrier s) \<le> sv_lastLayer (owner s)"
proof -
  from assms(3,4) obtain c' b' where tr: "Trigger (Some server_OnThreshold) (owner s) (barrier s) = Inr (c', b')"
    "barrier t = b'" by (auto elim: fireE externalE)
  note k = server_Trigger_kept [OF assms(1,2) tr(1)]
  show "used_ids (sv_Keys (owner s) ! nat (sy_layer (barrier s))) = ids (sv_Keys (owner s) ! nat (sy_layer (barrier s)))"
    "sy_layer (barrier t) = sy_layer (barrier s) + 1" "sy_layer (barrier s) \<le> sv_lastLayer (owner s)"
    using k tr(2) by simp_all
qed

end
