(* ===== verification/Rounds.thy ===== *)
theory Rounds
  imports Server
begin

text \<open>
  The rounds of a server: the goroutine that sends the messages of a finished layer, the exchange with the
  anytrust groups, the calls with which the coordinator sets up and starts a round, and the handlers of
  streams and of client calls (\<^verbatim>\<open>src/server/server.go\<close>, \<^verbatim>\<open>handler.go\<close>, \<^verbatim>\<open>pool.go\<close>, and \<^verbatim>\<open>SendAndRecieve\<close> of
  \<^verbatim>\<open>checkpointSender.go\<close>). The jobs of a stream run in the order of the stream. \<open>None\<close> is a call that waits.
\<close>

section \<open>Sending a finished layer\<close>

definition my_key :: "('s, 'p, 'g2, 'r) common_state \<Rightarrow> signing_key res" where
  "my_key c = sbind (config_at (cs_Configs c) (cs_MyId c)) (\<lambda>cfg. Inr (sc_SignatureKey cfg))"

definition the_caller :: "('s, 'p, 'fr, 'g2, 'r, 'c) server \<Rightarrow> caller res" where
  "the_caller s = of_option (Panic NilDereference) (sv_Caller s)"

text \<open>An error that reaches the end of the goroutine is a panic.\<close>

definition panic_err :: "failure \<Rightarrow> failure" where
  "panic_err e = (case e of Err x \<Rightarrow> Panic (PanicError x) | Panic p \<Rightarrow> Panic p)"

definition sent ::
  "('s, 'p, 'fr, 'g2, 'r, 'c) server \<Rightarrow> ('r, 'c) sender \<Rightarrow> ('s, 'p, 'fr, 'g2, 'r, 'c) server" where
  "sent s sn = s\<lparr>sv_CommonState := (sv_CommonState s)\<lparr>cs_Shufflers := sn_shufs sn\<rparr>, sv_OutgoingConnections := sn_conns sn\<rparr>"

definition send_shuffled ::
  "('s, 'p) lib \<Rightarrow> 'r reader \<Rightarrow> 'c write_op \<Rightarrow> ('s, 'p, 'fr, 'g2, 'r, 'c) server \<Rightarrow> out_buffers \<Rightarrow> int \<Rightarrow> message_type \<Rightarrow>
     (('s, 'p, 'fr, 'g2, 'r, 'c) server \<times> unit res) option" where
  "send_shuffled L srd wr s bufs layer t =
     (case sbind (my_key (sv_CommonState s)) (\<lambda>key. sbind (the_caller s) (\<lambda>ca. Inr (key, ca))) of
        Inl e \<Rightarrow> Some (s, Inl e)
      | Inr (key, ca) \<Rightarrow>
          (case SendShuffleMessages L srd wr key (ca_ServersSortedByLatency ca) (sv_CommonState s) layer t
                  \<lparr>sn_bufs = bufs, sn_shufs = cs_Shufflers (sv_CommonState s), sn_conns = sv_OutgoingConnections s\<rparr> of
             None \<Rightarrow> None
           | Some (sn, r) \<Rightarrow> Some (sent s sn, r)))"

text \<open>One goroutine of \<^verbatim>\<open>SendAndRecieve\<close>: the answers of one server for its groups, and what it sends to
  \<^verbatim>\<open>done\<close>. After a failed read the message is nil and its use panics.\<close>

fun read_answers ::
  "('s, 'p) lib \<Rightarrow> 'c read_op \<Rightarrow> ('s, 'p, 'g2, 'r) common_state \<Rightarrow> nat list \<Rightarrow> int list \<Rightarrow> 'c \<Rightarrow>
     'p checkpoint_sender \<times> int list \<Rightarrow> ('c \<times> ('p checkpoint_sender \<times> int list) \<times> unit res list) option" where
  "read_answers L rd c counts [] conn st = Some (conn, st, [])"
| "read_answers L rd c counts (gid # gids) conn st =
     (case sbind (go_index_int counts gid) (\<lambda>n. sbind (go_index_int (snd st) gid) (\<lambda>_. Inr n)) of
        Inl e \<Rightarrow> Some (conn, st, [Inl e])
      | Inr n \<Rightarrow>
          (case ReadReverse rd conn (n * RESPONSE_LENGTH) of
             None \<Rightarrow> None
           | Some (conn', Inl e) \<Rightarrow> Some (conn', st, [Inl e, Inl (Panic NilDereference)])
           | Some (conn', Inr sm) \<Rightarrow>
               (case receive_answer L c st (nat gid) sm of (st', ds) \<Rightarrow>
                  (case read_answers L rd c counts gids conn' st' of
                     None \<Rightarrow> None
                   | Some (conn'', st'', ds') \<Rightarrow> Some (conn'', st'', ds @ ds')))))"

fun read_servers ::
  "('s, 'p) lib \<Rightarrow> 'c read_op \<Rightarrow> ('s, 'p, 'g2, 'r) common_state \<Rightarrow> nat list \<Rightarrow> nat \<Rightarrow> int list list \<Rightarrow> 'c list \<Rightarrow>
     'p checkpoint_sender \<times> int list \<Rightarrow> ('c list \<times> ('p checkpoint_sender \<times> int list) \<times> unit res list) option" where
  "read_servers L rd c counts sid [] conns st = Some (conns, st, [])"
| "read_servers L rd c counts sid (gids # rest) conns st =
     (if gids \<noteq> [] \<and> \<not> sid < length conns then Some (conns, st, [Inl (Panic IndexOutOfRange)])
      else case read_answers L rd c counts gids (conns ! sid) st of
          None \<Rightarrow> None
        | Some (conn', st', ds) \<Rightarrow>
            (case read_servers L rd c counts (Suc sid) rest (conns[sid := conn']) st' of
               None \<Rightarrow> None
             | Some (conns', st'', ds') \<Rightarrow> Some (conns', st'', ds @ ds')))"

fun group_counts :: "group_configs \<Rightarrow> int list \<Rightarrow> int list res" where
  "group_counts [] counts = Inr counts"
| "group_counts ((gid, servers) # gs) counts =
     sbind (go_store_int counts gid (int (length servers))) (\<lambda>counts. group_counts gs counts)"

text \<open>The loop at the end receives one value for each group: it stops at an error, and waits for ever when
  there are too few values.\<close>

fun collect_done :: "nat \<Rightarrow> unit res list \<Rightarrow> unit res option" where
  "collect_done 0 ds = Some (Inr ())"
| "collect_done (Suc n) [] = None"
| "collect_done (Suc n) (Inl e # ds) = Some (Inl e)"
| "collect_done (Suc n) (Inr _ # ds) = collect_done n ds"

definition SendAndRecieve ::
  "('s, 'p) lib \<Rightarrow> 'r reader \<Rightarrow> 'c read_op \<Rightarrow> 'c write_op \<Rightarrow> ('s, 'p, 'fr, 'g2, 'r, 'c) server \<Rightarrow> 'p checkpoint_sender \<Rightarrow>
     (('s, 'p, 'fr, 'g2, 'r, 'c) server \<times> 'p checkpoint_sender \<times> unit res) option" where
  "SendAndRecieve L srd rd wr s cks =
     (let c = sv_CommonState s in
      case the_caller s of Inl e \<Rightarrow> Some (s, cks, Inl e)
      | Inr ca \<Rightarrow>
         (case SendGroupShuffleMessages L srd wr (ca_ServersSortedByLatency ca) (ca_ReverseGroups ca) c GroupCheckpointToken
                 \<lparr>sn_bufs = cks_toGroupBuffers cks, sn_shufs = cs_Shufflers c, sn_conns = sv_OutgoingConnections s\<rparr> of
            None \<Rightarrow> None
          | Some (sn, Inl e) \<Rightarrow> Some (sent s sn, cks\<lparr>cks_toGroupBuffers := sn_bufs sn\<rparr>, Inl e)
          | Some (sn, Inr counts) \<Rightarrow>
              let s = sent s sn; cks = cks\<lparr>cks_toGroupBuffers := sn_bufs sn\<rparr> in
              (case group_counts (cs_GroupConfigs c) (replicate (cs_NumGroups c) 0) of
                 Inl e \<Rightarrow> Some (s, cks, Inl e)
               | Inr gc \<Rightarrow>
                   (case read_servers L rd c counts 0 (ca_ReverseGroups ca) (sv_OutgoingConnections s) (cks, gc) of
                      None \<Rightarrow> None
                    | Some (conns, (cks', _), ds) \<Rightarrow>
                        (case collect_done (cs_NumGroups c) ds of
                           None \<Rightarrow> None
                         | Some r \<Rightarrow> Some (s\<lparr>sv_OutgoingConnections := conns\<rparr>, cks', r))))))"

fun pack_all ::
  "('s, 'p, 'fr, 'g2, 'r, 'c) server \<Rightarrow> int \<Rightarrow> (bytes \<times> bootstrap_key) list \<Rightarrow> ('s, 'p, 'fr, 'g2, 'r, 'c) server \<times> unit res" where
  "pack_all s layer [] = (s, Inr ())"
| "pack_all s layer ((d, k) # ds) =
     (case pack_onion s layer d k True of (s', Inl e) \<Rightarrow> (s', Inl (panic_err e)) | (s', Inr _) \<Rightarrow> pack_all s' layer ds)"

text \<open>The last layer of a path round: the receipts are decrypted by the groups and sent back.\<close>

definition return_receipts ::
  "('s, 'p) lib \<Rightarrow> 'r reader \<Rightarrow> 'c read_op \<Rightarrow> 'c write_op \<Rightarrow> ('s, 'p, 'fr, 'g2, 'r, 'c) server \<Rightarrow> int \<Rightarrow>
     (('s, 'p, 'fr, 'g2, 'r, 'c) server \<times> unit res) option" where
  "return_receipts L srd rd wr s layer =
     (case sbind (pointer (sv_pathEstablishmentRouters s) layer) (\<lambda>p.
             sbind (of_option (Panic NilDereference) (pp_Checkpoint p)) (\<lambda>cks. Inr (p, cks))) of
        Inl e \<Rightarrow> Some (s, Inl e)
      | Inr (p, cks) \<Rightarrow>
          (case SendAndRecieve L srd rd wr s cks of
             None \<Rightarrow> None
           | Some (s, cks, r) \<Rightarrow>
               let s = s\<lparr>sv_pathEstablishmentRouters := (sv_pathEstablishmentRouters s)[nat layer := Some (p\<lparr>pp_Checkpoint := Some cks\<rparr>)]\<rparr> in
               (case r of
                  Inl e \<Rightarrow> Some (s, Inl (panic_err e))
                | Inr _ \<Rightarrow>
                    (case GetDecrypted cks of (decryptions, keys) \<Rightarrow>
                       (case pack_all s layer (zip decryptions (map (\<lambda>i. kt_keys (sv_Keys s ! nat layer) ! i) keys)) of
                          (s, Inl e) \<Rightarrow> Some (s, Inl e)
                        | (s, Inr _) \<Rightarrow>
                            (case pointer (sv_lightingRouters s) layer of
                               Inl e \<Rightarrow> Some (s, Inl e)
                             | Inr bufs \<Rightarrow> send_shuffled L srd wr s bufs (cs_Layer (sv_CommonState s)) ServerMessageReverse))))))"

definition send_final ::
  "('s, 'p) lib \<Rightarrow> 'r reader \<Rightarrow> 'c write_op \<Rightarrow> ('s, 'p, 'fr, 'g2, 'r, 'c) server \<Rightarrow>
     (('s, 'p, 'fr, 'g2, 'r, 'c) server \<times> unit res) option" where
  "send_final L srd wr s =
     (case the_caller s of
        Inl e \<Rightarrow> Some (s, Inl e)
      | Inr ca \<Rightarrow>
          (case SendGroupShuffleMessages L srd wr (ca_ServersSortedByLatency ca) (ca_ReverseGroups ca) (sv_CommonState s) GroupCheckpointSignature
                  \<lparr>sn_bufs = sv_finalRouter s, sn_shufs = cs_Shufflers (sv_CommonState s), sn_conns = sv_OutgoingConnections s\<rparr> of
             None \<Rightarrow> None
           | Some (sn, Inl e) \<Rightarrow> Some ((sent s sn)\<lparr>sv_finalRouter := sn_bufs sn\<rparr>, Inl (panic_err e))
           | Some (sn, Inr _) \<Rightarrow> Some ((sent s sn)\<lparr>sv_finalRouter := sn_bufs sn, sv_isRoundComplete := True\<rparr>, Inr ())))"

definition OnThreshold_send ::
  "('s, 'p) lib \<Rightarrow> 'r reader \<Rightarrow> 'c read_op \<Rightarrow> 'c write_op \<Rightarrow> ('s, 'p, 'fr, 'g2, 'r, 'c) server \<Rightarrow> int \<Rightarrow> out_buffers \<Rightarrow>
     (('s, 'p, 'fr, 'g2, 'r, 'c) server \<times> unit res) option" where
  "OnThreshold_send L srd rd wr s layer lBufs =
     (case (if layer = sv_receiptLayer s then Some (s\<lparr>sv_isRoundComplete := True\<rparr>, Inr ())
            else if layer \<noteq> sv_lastLayer s then
              send_shuffled L srd wr s lBufs (layer + sv_direction s)
                (if sv_pathRound s then ServerMessageReverse else ServerMessageForward)
            else if \<not> sv_pathRound s then send_final L srd wr s
            else return_receipts L srd rd wr s layer) of
        None \<Rightarrow> None
      | Some (s, Inl e) \<Rightarrow> Some (s, Inl (panic_err e))
      | Some (s, Inr _) \<Rightarrow>
          Some (s\<lparr>sv_onionParsers := (sv_onionParsers s)[nat layer := None],
                  sv_lightingRouters := (sv_lightingRouters s)[nat layer := None]\<rparr>, Inr ()))"

section \<open>Setting up a round\<close>

definition SetupNewPathEstablishmentRound ::
  "('fr, 'g1, 'g2, 'gt) mcl \<Rightarrow> ('s, 'p, 'fr, 'g2, 'r, 'c) server \<Rightarrow> nat \<Rightarrow> nat \<Rightarrow> nat \<Rightarrow>
     ('s, 'p, 'fr, 'g2, 'r, 'c) server res" where
  "SetupNewPathEstablishmentRound M s numLayers receipt_size boomerangLimit =
     sbind (PathEstablishmentLengths M numLayers receipt_size boomerangLimit) (\<lambda>pl.
     sbind (BoomerangLengths numLayers receipt_size boomerangLimit) (\<lambda>bl.
     sbind (WireBoomerangLengths numLayers receipt_size boomerangLimit) (\<lambda>wl.
       let c = (sv_CommonState s)\<lparr>cs_PathMessageLengths := pl, cs_BoomerangMessageLengths := bl, cs_OnionMessageLengths := wl\<rparr> in
     sbind (go_index (sv_Keys s) 0) (\<lambda>_.
     sbind (NewPathEstablishmentParser c 0 None) (\<lambda>p.
     sbind (go_store (replicate numLayers None) 0 (Some p)) (\<lambda>prs.
       Inr (s\<lparr>sv_pathLayer := 0, sv_receiptLayer := 0, sv_receipts := [], sv_lastLayer := int numLayers - 1,
              sv_pathRound := True, sv_direction := -1, sv_CommonState := c, sv_pathEstablishmentRouters := prs\<rparr>)))))))"

definition SetupNewLightningRound ::
  "('s, 'p, 'fr, 'g2, 'r, 'c) server \<Rightarrow> nat \<Rightarrow> nat \<Rightarrow> ('s, 'p, 'fr, 'g2, 'r, 'c) server res" where
  "SetupNewLightningRound s numLayers payloadSize =
     (let c = (sv_CommonState s)\<lparr>cs_OnionMessageLengths := LightningMessageLengths numLayers payloadSize\<rparr> in
      sbind (go_index (sv_Keys s) 0) (\<lambda>_.
      sbind (go_store (replicate numLayers None) 0 (Some (NewOnionParser False))) (\<lambda>ps.
      sbind (NewLightningRouter c 0 False) (\<lambda>bufs.
      sbind (go_store (replicate numLayers None) 0 (Some bufs)) (\<lambda>rs.
      sbind (NewTrusteeRouter c (int numLayers)) (\<lambda>final.
        Inr (s\<lparr>sv_lastLayer := int numLayers - 1, sv_receiptLayer := -1, sv_pathLayer := -1, sv_pathRound := False,
               sv_direction := 1, sv_CommonState := c, sv_onionParsers := ps, sv_lightingRouters := rs,
               sv_finalRouter := final,
               sv_GroupAliases := map (\<lambda>(gid, g). (gid, group_NewLightningRound c g (int numLayers))) (sv_GroupAliases s)\<rparr>)))))))"

text \<open>\<open>connect\<close> is the outcome of connecting to the other servers, when there is no caller yet.\<close>

definition server_Connect ::
  "caller res \<Rightarrow> ('s, 'p, 'fr, 'g2, 'r, 'c) server \<Rightarrow> ('s, 'p, 'fr, 'g2, 'r, 'c) server res" where
  "server_Connect connect s =
     sbind connect (\<lambda>ca. sbind (SetGroups (cs_GroupConfigs (sv_CommonState s)) ca) (\<lambda>ca. Inr (s\<lparr>sv_Caller := Some ca\<rparr>)))"

definition reset_keys ::
  "('s, 'p, 'fr, 'g2, 'r, 'c) server \<Rightarrow> nat \<Rightarrow> ('s, 'p, 'fr, 'g2, 'r, 'c) server" where
  "reset_keys s numLayers =
     s\<lparr>sv_Keys := replicate numLayers (NewKeyLookupTable (sv_CommonState s)),
       sv_onionParsers := replicate numLayers None, sv_lightingRouters := replicate numLayers None\<rparr>"

definition RoundSetup ::
  "('fr, 'g1, 'g2, 'gt) mcl \<Rightarrow> caller res \<Rightarrow> ('s, 'p, 'fr, 'g2, 'r, 'c) server \<Rightarrow> round_info \<Rightarrow>
     ('s, 'p, 'fr, 'g2, 'r, 'c) server res" where
  "RoundSetup M connect s m =
     sbind (if sv_Caller s = None then server_Connect connect s else Inr s) (\<lambda>s.
       let c = sv_CommonState s;
           c = c\<lparr>cs_Round := ri_Round m, cs_BinSize := ri_BinSize m, cs_GroupBinSize := ri_BinSize m * cs_NumServers c,
                 cs_NumLayers := int (ri_NumLayers m), cs_Layer := 0\<rparr>;
           s = s\<lparr>sv_CommonState := c, sv_isRoundComplete := False,
                 sv_synchronizer := NewSynchronizer (ri_Round m) 0 (cs_NumServers c)\<rparr>;
           s = (if ri_Round m = 0 then reset_keys s (ri_NumLayers m) else s) in
       sbind (if ri_PathEstablishment m
              then SetupNewPathEstablishmentRound M s (ri_NumLayers m) (ri_MessageSize m) (ri_BoomerangLimit m)
              else SetupNewLightningRound s (ri_NumLayers m) (ri_MessageSize m)) (\<lambda>s.
         Inr (s\<lparr>sv_handler_round := ri_Round m\<rparr>)))"

text \<open>The loop \<^verbatim>\<open>lengths[i] = lengths[i-1]\<close> from the end down.\<close>

definition shift_lengths :: "nat list \<Rightarrow> nat list" where
  "shift_lengths ls = (case ls of [] \<Rightarrow> [] | l # _ \<Rightarrow> l # butlast ls)"

text \<open>The state in which the path messages of the previous layer are sent.\<close>

definition start_path ::
  "('fr, 'g1, 'g2, 'gt) mcl \<Rightarrow> ('s, 'p, 'fr, 'g2, 'r, 'c) server \<Rightarrow> round_info \<Rightarrow> ('s, 'p, 'fr, 'g2, 'r, 'c) server res" where
  "start_path M s m =
     (let pathLayer = ri_NextLayer m;
          c = (sv_CommonState s)\<lparr>cs_Round := ri_Round m, cs_Layer := pathLayer\<rparr> in
      sbind (if pathLayer = sv_lastLayer s then sbind (NewCheckpointSender M c) (\<lambda>k. Inr (Some k)) else Inr None) (\<lambda>checkpoint.
      sbind (go_index_int (sv_Keys s) pathLayer) (\<lambda>_.
      sbind (NewPathEstablishmentParser c pathLayer checkpoint) (\<lambda>p.
      sbind (go_store_int (sv_pathEstablishmentRouters s) pathLayer (Some p)) (\<lambda>prs.
        let c = (if pathLayer - int (ri_BoomerangLimit m) > 0
                 then c\<lparr>cs_OnionMessageLengths := shift_lengths (cs_OnionMessageLengths c)\<rparr> else c) in
      sbind (NewLightningRouter c pathLayer True) (\<lambda>bufs.
      sbind (go_store_int (sv_lightingRouters s) pathLayer (Some bufs)) (\<lambda>rs.
        Inr (s\<lparr>sv_CommonState := c, sv_pathLayer := pathLayer, sv_isRoundComplete := False,
               sv_receiptLayer := ri_ReceiptLayer m, sv_receipts := [], sv_pathEstablishmentRouters := prs,
               sv_lightingRouters := rs,
               sv_synchronizer := Reset (sv_synchronizer s) (ri_Round m) pathLayer (cs_NumServers c),
               sv_handler_round := ri_Round m\<rparr>))))))))"

text \<open>\<^verbatim>\<open>RoundStart\<close> up to the wait for the end of the round. In a path round it sends the messages that the
  previous layer left; in a lightning round it opens the barrier of layer \<open>0\<close>.\<close>

definition RoundStart ::
  "('s, 'p) lib \<Rightarrow> ('fr, 'g1, 'g2, 'gt) mcl \<Rightarrow> 'r reader \<Rightarrow> 'c write_op \<Rightarrow> ('s, 'p, 'fr, 'g2, 'r, 'c) server \<Rightarrow> round_info \<Rightarrow>
     (('s, 'p, 'fr, 'g2, 'r, 'c) server \<times> unit res) option" where
  "RoundStart L M srd wr s m =
     (let s = s\<lparr>sv_started := True\<rparr> in
      if sv_pathRound s then
        (case start_path M s m of
           Inl e \<Rightarrow> Some (s, Inl e)
         | Inr s \<Rightarrow>
             let startingLayer = sv_pathLayer s - 1 in
             (case pointer (sv_pathEstablishmentRouters s) startingLayer of
                Inl e \<Rightarrow> Some (s, Inl e)
              | Inr p \<Rightarrow>
                  (case send_shuffled L srd wr s (pp_OutgoingBuffers p) (cs_Layer (sv_CommonState s)) PathMessageForward of
                     None \<Rightarrow> None
                   | Some (s, Inl e) \<Rightarrow> Some (s, Inl e)
                   | Some (s, Inr _) \<Rightarrow>
                       Some (s\<lparr>sv_pathEstablishmentRouters := (sv_pathEstablishmentRouters s)[nat startingLayer := None]\<rparr>, Inr ()))))
      else (case Trigger (Some server_OnThreshold) s (sv_synchronizer s) of
              Inl e \<Rightarrow> Some (s, Inl e)
            | Inr (s, sy) \<Rightarrow> Some (s\<lparr>sv_synchronizer := sy\<rparr>, Inr ())))"

section \<open>Answers to the coordinator and to clients\<close>

definition released :: "('s, 'p, 'fr, 'g2, 'r, 'c) server \<Rightarrow> bytes list list option" where
  "released s = those (map (\<lambda>(_, g). group_GetMessages g) (sv_GroupAliases s))"

text \<open>The end of \<^verbatim>\<open>RoundStart\<close>, after the wait.\<close>

definition RoundStart_end :: "('s, 'p, 'fr, 'g2, 'r, 'c) server \<Rightarrow> unit option" where
  "RoundStart_end s =
     (if \<not> sv_isRoundComplete s then None
      else if sv_pathRound s then Some () else map_option (\<lambda>_. ()) (released s))"

definition server_GetMessages :: "('s, 'p, 'fr, 'g2, 'r, 'c) server \<Rightarrow> round_info \<Rightarrow> bytes list option" where
  "server_GetMessages s m =
     (if sv_pathRound s \<and> (sv_handler_round s < ri_Round m \<or> sv_handler_round s = Blocked) then None
      else if \<not> sv_isRoundComplete s then None
      else if \<not> sv_pathRound s then map_option (\<lambda>ms. if ri_Check m then concat ms else []) (released s)
      else Some (if ri_Check m then map snd (sv_receipts s) else []))"

definition GetReceipt ::
  "('s, 'p) lib \<Rightarrow> ('s, 'p, 'fr, 'g2, 'r, 'c) server \<Rightarrow> signed_message \<Rightarrow> signed_message res option" where
  "GetReceipt L s m =
     (if \<not> sv_isRoundComplete s then None
      else Some (
        sbind (ncr_InterpretFrom (sm_Data m)) (\<lambda>c.
          let receipt = (case map_of (sv_receipts s) (ncr_ID c) of Some r \<Rightarrow> r | None \<Rightarrow> []) in
          if length receipt = 0 then Inl (Err ClientNotFoundError)
          else let cs = sv_CommonState s;
                   resp = NewSignedMessage (length receipt) (cs_Round cs) (cs_Layer cs) (cs_MyId cs) 0 0 1 (md_Type (sm_Metadata m)) in
               cs_Sign L cs (fill_data resp receipt))))"

definition KeySet ::
  "('s, 'p) lib \<Rightarrow> ('fr, 'g1, 'g2, 'gt) mcl \<Rightarrow> ('s, 'p, 'fr, 'g2, 'r, 'c) server \<Rightarrow> key_information \<Rightarrow>
     ('s, 'p, 'fr, 'g2, 'r, 'c) server \<times> unit res" where
  "KeySet L M s info =
     (case (case cs_CombinedKey (sv_CommonState s) of
              Some _ \<Rightarrow> Inr s
            | None \<Rightarrow>
                sbind (tpk_InterpretFrom M (ki_TokenPublicKey info)) (\<lambda>tpk.
                sbind (dhpk_InterpretFrom L (ki_GroupKey info)) (\<lambda>gpk.
                  Inr (s\<lparr>sv_CommonState := (sv_CommonState s)\<lparr>cs_CombinedKey := Some tpk, cs_GroupPublicKey := gpk\<rparr>\<rparr>)))) of
        Inl e \<Rightarrow> (s, Inl e)
      | Inr s \<Rightarrow>
          (case map_of (sv_GroupAliases s) (to_int32 (ki_GroupId info)) of
             None \<Rightarrow> (s, Inr ())
           | Some g \<Rightarrow>
               (case sbind (fr_InterpretFrom M (ki_TokenKeyShare info)) (\<lambda>tokenShare.
                     sbind (dhsk_InterpretFrom L (ki_GroupShare info)) (\<lambda>groupShare. Inr (tokenShare, groupShare))) of
                  Inl e \<Rightarrow> (s, Inl e)
                | Inr (tokenShare, groupShare) \<Rightarrow>
                    (s\<lparr>sv_GroupAliases := AList.update (to_int32 (ki_GroupId info))
                         (group_SetKeys (NewTokenSigningKey M tokenShare) groupShare g) (sv_GroupAliases s)\<rparr>, Inr ()))))"

section \<open>A lightning round\<close>

text \<open>The keys a server starts a round with: one table for each layer, none of its keys in use.\<close>

definition keys_ready :: "('s, 'p, 'fr, 'g2, 'r, 'c) server \<Rightarrow> nat \<Rightarrow> bool" where
  "keys_ready s n \<longleftrightarrow> length (sv_Keys s) = n \<and> (\<forall>t \<in> set (sv_Keys s). table_inv t \<and> used_ids t = {})"

lemma keys_ready_reset: "keys_ready (reset_keys s n) n"
  by (auto simp: keys_ready_def reset_keys_def table_inv_new used_ids_def)

lemma SetupNewLightningRound_inv:
  assumes "SetupNewLightningRound s n sz = Inr s'" "keys_ready s n" "cs_Layer (sv_CommonState s) = 0"
  shows "lightning_inv s' \<and> sv_Keys s' = sv_Keys s \<and> sv_CommonState s' = (sv_CommonState s)\<lparr>cs_OnionMessageLengths := LightningMessageLengths n sz\<rparr> \<and>
     sv_synchronizer s' = sv_synchronizer s \<and> sv_lastLayer s' = int n - 1"
proof -
  from assms(1) obtain ps where ps: "go_store (replicate n None) 0 (Some (NewOnionParser False)) = Inr ps"
    and s': "sv_lastLayer s' = int n - 1" "sv_pathLayer s' = -1" "\<not> sv_pathRound s'" "sv_direction s' = 1"
    "sv_CommonState s' = (sv_CommonState s)\<lparr>cs_OnionMessageLengths := LightningMessageLengths n sz\<rparr>"
    "sv_onionParsers s' = ps" "sv_Keys s' = sv_Keys s" "sv_synchronizer s' = sv_synchronizer s"
    by (auto simp: SetupNewLightningRound_def Let_def)
  have n: "0 < n" "ps = (replicate n None)[0 := Some (NewOnionParser False)]"
    using ps by (auto simp: go_store_def split: if_splits)
  have k: "length (sv_Keys s) = n" "\<forall>l < n. table_inv (sv_Keys s ! l) \<and> used_ids (sv_Keys s ! l) = {}"
    using assms(2) by (auto simp: keys_ready_def)
  have "lightning_inv s'"
    using n k s' assms(3) by (simp add: lightning_inv_def Let_def onion_inv_def NewOnionParser_def)
  then show ?thesis using s' by simp
qed

lemma RoundSetup_lightning:
  assumes "RoundSetup M connect s m = Inr s'" "\<not> ri_PathEstablishment m"
    and "ri_Round m = 0 \<or> keys_ready s (ri_NumLayers m)"
  shows "lightning_inv s' \<and> sv_synchronizer s' = NewSynchronizer (ri_Round m) 0 (cs_NumServers (sv_CommonState s')) \<and>
     cs_Layer (sv_CommonState s') = 0 \<and> sv_handler_round s' = ri_Round m \<and>
     cs_OnionMessageLengths (sv_CommonState s') = LightningMessageLengths (ri_NumLayers m) (ri_MessageSize m) \<and>
     sv_lastLayer s' = int (ri_NumLayers m) - 1"
proof -
  obtain s1 where s1: "(if sv_Caller s = None then server_Connect connect s else Inr s) = Inr s1"
    using assms(1) by (auto simp: RoundSetup_def)
  have keys1: "sv_Keys s1 = sv_Keys s" using s1 by (auto simp: server_Connect_def split: if_splits)
  define c where "c = (sv_CommonState s1)\<lparr>cs_Round := ri_Round m, cs_BinSize := ri_BinSize m,
      cs_GroupBinSize := ri_BinSize m * cs_NumServers (sv_CommonState s1), cs_NumLayers := int (ri_NumLayers m), cs_Layer := 0\<rparr>"
  define s2 where "s2 = s1\<lparr>sv_CommonState := c, sv_isRoundComplete := False,
      sv_synchronizer := NewSynchronizer (ri_Round m) 0 (cs_NumServers c)\<rparr>"
  define s3 where "s3 = (if ri_Round m = 0 then reset_keys s2 (ri_NumLayers m) else s2)"
  have "sbind (SetupNewLightningRound s3 (ri_NumLayers m) (ri_MessageSize m)) (\<lambda>s. Inr (s\<lparr>sv_handler_round := ri_Round m\<rparr>)) = Inr s'"
    using assms(1,2) s1 unfolding RoundSetup_def s3_def s2_def c_def by (simp add: Let_def)
  then obtain s4 where s4: "SetupNewLightningRound s3 (ri_NumLayers m) (ri_MessageSize m) = Inr s4"
    "s' = s4\<lparr>sv_handler_round := ri_Round m\<rparr>" by auto
  have r: "keys_ready s3 (ri_NumLayers m)"
    using assms(3) keys1 keys_ready_reset [of s2] by (auto simp: s3_def s2_def keys_ready_def)
  have c3: "sv_CommonState s3 = c" "sv_synchronizer s3 = NewSynchronizer (ri_Round m) 0 (cs_NumServers c)" "cs_Layer c = 0"
    by (simp_all add: s3_def s2_def c_def reset_keys_def)
  from SetupNewLightningRound_inv [OF s4(1) r] c3 have
    "lightning_inv s4" "sv_CommonState s4 = c\<lparr>cs_OnionMessageLengths := LightningMessageLengths (ri_NumLayers m) (ri_MessageSize m)\<rparr>"
    "sv_synchronizer s4 = NewSynchronizer (ri_Round m) 0 (cs_NumServers c)" "sv_lastLayer s4 = int (ri_NumLayers m) - 1" by simp_all
  then show ?thesis using s4(2) c3(3) by (simp add: lightning_inv_def)
qed

text \<open>Recording a new key leaves the keys of a server ready.\<close>

lemma keys_ready_AddKey:
  assumes "keys_ready s n" "l < n" "pt_decode L nextKey = Some pt"
    and "map_of (kt_table (sv_Keys s ! l)) (LookupKey key) = None" "map_of (kt_reverseTable (sv_Keys s ! l)) (LookupKey nextKey) = None"
    and "AddKey L (sv_Keys s ! l) key shared prev next nextKey = (t, r)"
  shows "keys_ready (s\<lparr>sv_Keys := (sv_Keys s)[l := t]\<rparr>) n"
proof -
  have k: "table_inv (sv_Keys s ! l)" "used_ids (sv_Keys s ! l) = {}" using assms(1,2) by (auto simp: keys_ready_def)
  from AddKey_inv [OF k(1) assms(3-6)] k(2) have "table_inv t \<and> used_ids t = {}" by simp
  then show ?thesis using assms(1) by (auto simp: keys_ready_def dest: set_update_subset_insert [THEN subsetD])
qed

section \<open>Everything that changes a server during a lightning round\<close>

text \<open>Messages of streams and submissions of clients, and the goroutine that sends the messages of the layer that has been left
  and then frees its parser. The goroutine holds the lock of the server, so that layer is the one before the current layer.\<close>

definition server_work ::
  "('s, 'p) lib \<Rightarrow> 'r reader \<Rightarrow> 'c read_op \<Rightarrow> 'c write_op \<Rightarrow> ('s, 'p, 'fr, 'g2, 'r, 'c) server \<Rightarrow> ('s, 'p, 'fr, 'g2, 'r, 'c) server \<Rightarrow> bool" where
  "server_work L srd rd wr s s' \<longleftrightarrow> onion_work L s s' \<or>
     (\<exists>layer bufs r. 0 \<le> layer \<and> layer = cs_Layer (sv_CommonState s) - 1 \<and> \<not> sv_pathRound s \<and>
        OnThreshold_send L srd rd wr s layer bufs = Some (s', r))"

text \<open>What sending leaves alone.\<close>

definition same_round :: "('s, 'p, 'fr, 'g2, 'r, 'c) server \<Rightarrow> ('s, 'p, 'fr, 'g2, 'r, 'c) server \<Rightarrow> bool" where
  "same_round s s' \<longleftrightarrow> cs_Layer (sv_CommonState s') = cs_Layer (sv_CommonState s) \<and>
     cs_NumServers (sv_CommonState s') = cs_NumServers (sv_CommonState s) \<and>
     sv_pathRound s' = sv_pathRound s \<and> sv_direction s' = sv_direction s \<and> sv_pathLayer s' = sv_pathLayer s \<and>
     sv_lastLayer s' = sv_lastLayer s \<and> sv_Keys s' = sv_Keys s"

lemma send_shuffled_round:
  assumes "send_shuffled L srd wr s bufs layer t = Some (s', r)"
  shows "same_round s s' \<and> sv_onionParsers s' = sv_onionParsers s"
  using assms by (auto simp: send_shuffled_def same_round_def sent_def split: sum.splits prod.splits option.splits)

lemma send_final_round:
  assumes "send_final L srd wr s = Some (s', r)"
  shows "same_round s s' \<and> sv_onionParsers s' = sv_onionParsers s"
  using assms by (auto simp: send_final_def same_round_def sent_def split: sum.splits prod.splits option.splits)

lemma OnThreshold_send_round:
  assumes "\<not> sv_pathRound s" "OnThreshold_send L srd rd wr s layer bufs = Some (s', r)"
  shows "same_round s s' \<and> (sv_onionParsers s' = sv_onionParsers s \<or> sv_onionParsers s' = (sv_onionParsers s)[nat layer := None])"
proof -
  define x where "x = (if layer = sv_receiptLayer s then Some (s\<lparr>sv_isRoundComplete := True\<rparr>, Inr ())
      else if layer \<noteq> sv_lastLayer s then send_shuffled L srd wr s bufs (layer + sv_direction s) ServerMessageForward
      else send_final L srd wr s)"
  have "same_round s s1 \<and> sv_onionParsers s1 = sv_onionParsers s" if x1: "x = Some (s1, r1)" for s1 r1
  proof -
    consider "s1 = s\<lparr>sv_isRoundComplete := True\<rparr>"
      | "send_shuffled L srd wr s bufs (layer + sv_direction s) ServerMessageForward = Some (s1, r1)"
      | "send_final L srd wr s = Some (s1, r1)" using x1 by (auto simp: x_def split: if_splits)
    then show ?thesis
      by cases (simp add: same_round_def, rule send_shuffled_round, assumption, rule send_final_round, assumption)
  qed
  moreover have "OnThreshold_send L srd rd wr s layer bufs = (case x of None \<Rightarrow> None
      | Some (s, Inl e) \<Rightarrow> Some (s, Inl (panic_err e))
      | Some (s, Inr _) \<Rightarrow> Some (s\<lparr>sv_onionParsers := (sv_onionParsers s)[nat layer := None],
          sv_lightingRouters := (sv_lightingRouters s)[nat layer := None]\<rparr>, Inr ()))"
    using assms(1) by (simp add: OnThreshold_send_def x_def)
  ultimately show ?thesis using assms(2) by (auto simp: same_round_def split: option.splits prod.splits sum.splits)
qed

lemma server_work_kept:
  assumes "lightning_inv s" "server_work L srd rd wr s s'"
  shows "lightning_kept s s' \<and> same_round s (s'\<lparr>sv_Keys := sv_Keys s\<rparr>)"
  using assms(2) unfolding server_work_def
proof (elim disjE exE conjE)
  assume w: "onion_work L s s'"
  obtain m where "same_keys (fst (parse_onion L s (cs_Layer (sv_CommonState s)) m)) s'" using onion_work_parse [OF w] by blast
  moreover obtain s1 r where "parse_onion L s (cs_Layer (sv_CommonState s)) m = (s1, r)" by fastforce
  ultimately show ?thesis
    using onion_work_inv [OF assms(1) w] parse_onion_keeps [of L s "cs_Layer (sv_CommonState s)" m s1 r]
    by (simp add: lightning_kept_def same_keys_def same_round_def)
next
  fix layer bufs r
  assume l: "0 \<le> layer" "layer = cs_Layer (sv_CommonState s) - 1" and p: "\<not> sv_pathRound s"
    and o: "OnThreshold_send L srd rd wr s layer bufs = Some (s', r)"
  note q = OnThreshold_send_round [OF p o]
  have "nat layer \<noteq> nat (cs_Layer (sv_CommonState s))" using l by linarith
  then have "lightning_inv s'"
    using assms(1) q by (auto simp: lightning_inv_def same_round_def Let_def)
  then show ?thesis using q by (simp add: lightning_kept_def same_round_def layer_ids_def)
qed

text \<open>The contract of the barrier, on any state: work keeps the number of servers and the layer.\<close>

lemma server_work_frame:
  assumes "server_work L srd rd wr s s'"
  shows "cs_NumServers (sv_CommonState s') = cs_NumServers (sv_CommonState s) \<and> cs_Layer (sv_CommonState s') = cs_Layer (sv_CommonState s)"
  using assms unfolding server_work_def
proof (elim disjE exE conjE)
  assume w: "onion_work L s s'"
  then obtain m where "same_keys (fst (parse_onion L s (cs_Layer (sv_CommonState s)) m)) s'" using onion_work_parse by blast
  moreover obtain s1 r where "parse_onion L s (cs_Layer (sv_CommonState s)) m = (s1, r)" by fastforce
  ultimately show ?thesis using parse_onion_keeps(1) [of L s "cs_Layer (sv_CommonState s)" m s1 r] by (simp add: same_keys_def)
qed (simp add: OnThreshold_send_round [unfolded same_round_def])

interpretation server_barrier: worker_callback
  "server_OnThreshold :: ('s, 'p, 'fr, 'g2, 'r, 'c) server callback"
  "\<lambda>s. cs_NumServers (sv_CommonState s)" "\<lambda>s l. cs_Layer (sv_CommonState s)" "server_work L srd rd wr" round_event
  by unfold_locales (use server_OnThreshold_keeps server_work_frame in fastforce)+

section \<open>Properties\<close>

text \<open>A server at the start of a round.\<close>

definition round_start :: "('s, 'p, 'fr, 'g2, 'r, 'c) server \<Rightarrow> ('s, 'p, 'fr, 'g2, 'r, 'c) server sync_sys" where
  "round_start s = \<lparr>barrier = sv_synchronizer s, owner = s, passed = {#}, active = {}, pending = 0\<rparr>"


text \<open>A server with one layer, in a system of one server.\<close>

definition sample_caller :: caller where
  "sample_caller = \<lparr>ca_mock = True, ca_size = 1, ca_Groups = [[(0, 0)]], ca_ReverseGroups = [[0]], ca_ServersSortedByLatency = [0]\<rparr>"

definition sample_server :: "(256 word, 256 word, 1 word, 1 word, nat, mock_chan) server" where
  "sample_server = \<lparr>sv_GroupAliases = [(0, sample_member)], sv_CommonState = sample_state, sv_Caller = Some sample_caller, sv_Keys = [],
     sv_synchronizer = NewSynchronizer 0 0 0, sv_OutgoingConnections = [[]], sv_onionParsers = [],
     sv_lastLayer = 0, sv_finalRouter = [], sv_receiptLayer = 0, sv_receipts = [], sv_lightingRouters = [],
     sv_pathEstablishmentRouters = [], sv_pathRound = False, sv_pathLayer = 0, sv_direction = 0,
     sv_isRoundComplete = False, sv_started = False, sv_handler_round = Blocked\<rparr>"

definition sample_round :: round_info where
  "sample_round = \<lparr>ri_Round = 0, ri_NumLayers = 1, ri_BinSize = 4, ri_PathEstablishment = False, ri_LastLayer = False,
     ri_MessageSize = 2, ri_ReceiptLayer = 0, ri_BoomerangLimit = 0, ri_NextLayer = 0, ri_Check = True, ri_Interval = 0,
     ri_StartId = 0, ri_EndId = 0, ri_SkipPathGen = False\<rparr>"

text \<open>Its second round, with one key in its table.\<close>

definition keyed_server :: "(256 word, 256 word, 1 word, 1 word, nat, mock_chan) server" where
  "keyed_server = sample_server\<lparr>sv_Keys := [sample_table]\<rparr>"

definition second_round :: round_info where
  "second_round = sample_round\<lparr>ri_Round := 1\<rparr>"

lemma second_setup:
  "\<exists>s0. RoundSetup toy_mcl (Inr sample_caller) keyed_server second_round = Inr s0 \<and> sv_lastLayer s0 = 0 \<and>
     (\<exists>b. sv_lightingRouters s0 = [Some b]) \<and> sv_onionParsers s0 = [Some (NewOnionParser False)] \<and>
     sv_Keys s0 = [sample_table] \<and> \<not> sv_pathRound s0 \<and> sv_pathLayer s0 = -1 \<and> sv_direction s0 = 1 \<and>
     cs_Round (sv_CommonState s0) = 1 \<and> cs_Layer (sv_CommonState s0) = 0 \<and> cs_MyId (sv_CommonState s0) = 0"
  by (simp add: RoundSetup_def keyed_server_def second_round_def sample_server_def sample_round_def Let_def SetupNewLightningRound_def
      go_index_def go_store_def NewLightningRouter_def go_index_int_def NewTrusteeRouter_def new_buffers_def
      LightningMessageLengths_nth(1) sample_state_def)

text \<open>A submission of the client, and then the trigger of \<^verbatim>\<open>RoundStart\<close>.\<close>

lemma second_submission:
  assumes "RoundSetup toy_mcl (Inr sample_caller) keyed_server second_round = Inr s0"
  defines "s1 \<equiv> fst (handleLightningMessage toy_lib s0 (round_onion 1))"
  shows "\<exists>c l. server_OnThreshold s1 0 = Inr (c, 1, l)"
proof -
  obtain b where s0: "sv_lastLayer s0 = 0" "sv_lightingRouters s0 = [Some b]" "sv_onionParsers s0 = [Some (NewOnionParser False)]"
    "sv_Keys s0 = [sample_table]" "\<not> sv_pathRound s0" "sv_pathLayer s0 = -1" "sv_direction s0 = 1"
    "cs_Round (sv_CommonState s0) = 1" "cs_Layer (sv_CommonState s0) = 0" "cs_MyId (sv_CommonState s0) = 0"
    using second_setup assms(1) by auto
  have n: "cs_NumServers (sv_CommonState s0) = 1"
    using assms(1) by (auto simp: RoundSetup_def keyed_server_def second_round_def sample_server_def sample_round_def Let_def
      SetupNewLightningRound_def sample_state_def)
  obtain t' p' where a: "AuthenticatedOnionParse toy_lib (sv_CommonState s0) (sample_table, NewOnionParser False) (round_onion 1) =
      ((t', p'), Inr ([7], 0))" "onion_inv (t', p')" "ids t' = {0}" "used_ids t' = {0}"
    using round_onion_parses [of "sv_CommonState s0" 1] s0 by (auto simp: parse_layer_def NewOnionParser_def)
  let ?s = "s0\<lparr>sv_Keys := [t'], sv_onionParsers := [Some p']\<rparr>"
  have "parse_onion toy_lib s0 0 (round_onion 1) = (?s, Inr ([7], kt_keys t' ! 0))"
    using s0 a(1) by (simp add: parse_onion_def pointer_def go_index_int_def)
  then have "\<exists>bufs. s1 = ?s\<lparr>sv_finalRouter := bufs\<rparr>"
    using s0 by (auto simp: s1_def handleLightningMessage_def Let_def split: prod.splits)
  then obtain bufs where s1: "s1 = ?s\<lparr>sv_finalRouter := bufs\<rparr>" by blast
  have "snd (AllKeysAccountedFor (t', p'))" using onion_keys.complete_all [OF a(2)] a(3,4) by simp
  then obtain t'' where "AllKeysAccountedFor (t', p') = (t'', True)" by (metis prod.collapse)
  then have "account_for s1 0 = Inr (s1\<lparr>sv_Keys := [t'']\<rparr>)"
    using s0 by (simp add: s1 account_for_def pointer_def go_index_int_def)
  then show ?thesis using s0 n by (simp add: server_OnThreshold_def Let_def s1 pointer_def go_index_int_def)
qed


end
