(* ===== verification/Handlers.thy ===== *)
theory Handlers
  imports Rounds
begin

text \<open>
  The entry points of a server: \<^verbatim>\<open>src/server/handler.go\<close> and the worker pool of \<^verbatim>\<open>src/server/pool.go\<close>. The error
  handler panics. The jobs of a stream are independent critical sections; they are run in the order
  of the stream. \<open>None\<close> is a call that waits.
\<close>

section \<open>Waiting for a round\<close>

text \<open>\<open>wakes\<close> are the rounds the handler has at the times the waiting call is woken.\<close>

fun WaitForRound :: "int \<Rightarrow> int list \<Rightarrow> int \<Rightarrow> unit res option" where
  "WaitForRound hround wakes round =
     (if round > hround \<or> hround = Blocked then
        (case wakes of [] \<Rightarrow> None
         | h # ws \<Rightarrow> if round < h then Some (Inl (Err BadMetadataError)) else WaitForRound h ws round)
      else Some (Inr ()))"

definition checkForGroup :: "('s, 'p, 'fr, 'g2, 'r, 'c) server \<Rightarrow> message_type \<Rightarrow> int \<Rightarrow> bool \<times> bool" where
  "checkForGroup s t gid =
     (if t = ClientRegister \<or> t = ClientTokenRequest \<or> t = GroupCheckpointToken \<or> t = GroupCheckpointSignature
      then (True, map_of (sv_GroupAliases s) gid \<noteq> None) else (False, True))"

section \<open>Jobs\<close>

definition group_alias :: "('s, 'p, 'fr, 'g2, 'r, 'c) server \<Rightarrow> int \<Rightarrow> ('s, 'fr, 'g2) group_member res" where
  "group_alias s gid = of_option (Panic NilDereference) (map_of (sv_GroupAliases s) gid)"

definition set_alias :: "('s, 'p, 'fr, 'g2, 'r, 'c) server \<Rightarrow> int \<Rightarrow> ('s, 'fr, 'g2) group_member \<Rightarrow> ('s, 'p, 'fr, 'g2, 'r, 'c) server" where
  "set_alias s gid g = s\<lparr>sv_GroupAliases := AList.update gid g (sv_GroupAliases s)\<rparr>"

definition group_job ::
  "('s, 'p, 'fr, 'g2, 'r, 'c) server \<Rightarrow> int \<Rightarrow> ('s checkpoint \<Rightarrow> 's checkpoint \<times> 'a res) \<Rightarrow>
     ('s, 'p, 'fr, 'g2, 'r, 'c) server \<times> 'a res" where
  "group_job s gid f =
     (case group_alias s gid of
        Inl e \<Rightarrow> (s, Inl e)
      | Inr g \<Rightarrow> (case f (gm_CheckpointState g) of (cp, r) \<Rightarrow> (set_alias s gid (g\<lparr>gm_CheckpointState := cp\<rparr>), r)))"

text \<open>One turn of \<^verbatim>\<open>ProcessThread\<close>; the result is the content of \<^verbatim>\<open>job.Response\<close>.\<close>

definition ProcessThread ::
  "('s, 'p) lib \<Rightarrow> ('fr, 'g1, 'g2, 'gt) mcl \<Rightarrow> ('s, 'p, 'fr, 'g2, 'r, 'c) server \<Rightarrow> metadata \<Rightarrow> bytes \<Rightarrow> bytes \<Rightarrow>
     ('s, 'p, 'fr, 'g2, 'r, 'c) server \<times> bytes res" where
  "ProcessThread L M s m message response =
     (case (if md_Type m = ServerMessageForward then
              (case handleLightningMessage L s message of (s', r) \<Rightarrow> (s', sbind r (\<lambda>_. Inr response)))
            else if md_Type m = ServerMessageReverse then
              (case HandleBoomerangMessage L s message of (s', r) \<Rightarrow> (s', sbind r (\<lambda>_. Inr response)))
            else if md_Type m = PathMessageForward then
              (case handlePathMessage L M s m message of (s', r) \<Rightarrow> (s', sbind r (\<lambda>_. Inr response)))
            else if md_Type m = GroupCheckpointToken then
              group_job s (md_Group m) (\<lambda>cp. HandleCheckpointMessage L M (sv_CommonState s) cp m message response)
            else if md_Type m = GroupCheckpointSignature then
              group_job s (md_Group m) (\<lambda>cp. case HandleTrusteeMessage L cp message of (cp', r) \<Rightarrow> (cp', sbind r (\<lambda>_. Inr response)))
            else (s, Inl (Err UnrecognizedError))) of
        (s', Inl e) \<Rightarrow> (s', Inl (panic_err e))
      | (s', Inr b) \<Rightarrow> (s', Inr b))"

section \<open>Streams\<close>

text \<open>The loop that looks for a non-zero byte of the key.\<close>

definition allZero :: "bytes \<Rightarrow> bool res" where
  "allZero message =
     (if \<exists>b \<in> set (take KEY_SIZE message). b \<noteq> 0 then Inr False
      else if length message < KEY_SIZE then Inl (Panic IndexOutOfRange) else Inr True)"

fun stream_jobs ::
  "('s, 'p) lib \<Rightarrow> ('fr, 'g1, 'g2, 'gt) mcl \<Rightarrow> metadata \<Rightarrow> bytes list \<Rightarrow> ('s, 'p, 'fr, 'g2, 'r, 'c) server \<Rightarrow>
     ('s, 'p, 'fr, 'g2, 'r, 'c) server \<times> unit res" where
  "stream_jobs L M m [] s = (s, Inr ())"
| "stream_jobs L M m (message # ms) s =
     (case allZero message of
        Inl e \<Rightarrow> (s, Inl e)
      | Inr True \<Rightarrow> stream_jobs L M m ms s
      | Inr False \<Rightarrow> (case ProcessThread L M s m message [] of
            (s', Inl e) \<Rightarrow> (s', Inl e)
          | (s', Inr _) \<Rightarrow> stream_jobs L M m ms s'))"

text \<open>The checks after the last message; the hash covers the metadata and all messages.\<close>

definition check_stream ::
  "('s, 'p) lib \<Rightarrow> ('s, 'p, 'g2, 'r) common_state \<Rightarrow> metadata \<Rightarrow> bytes \<Rightarrow> connection_reader \<Rightarrow> unit res" where
  "check_stream L c m metadataBytes stream =
     (case cn_Err stream of
        Some e \<Rightarrow> Inl (Err e)
      | None \<Rightarrow>
          sbind (go_index_int (cs_ExpandedVerificationKeys c) (md_Sender m)) (\<lambda>vk.
            guard (CheckSignature L stream (metadataBytes @ concat (cn_Buff stream)) vk) (Err SignatureError)))"

text \<open>\<^verbatim>\<open>defer s.synchronizer.Done()\<close>; the second component says whether the trigger is started.\<close>

definition deferred_Done ::
  "('s, 'p, 'fr, 'g2, 'r, 'c) server \<times> unit res \<Rightarrow> ('s, 'p, 'fr, 'g2, 'r, 'c) server \<times> bool \<times> unit res" where
  "deferred_Done sr =
     (case sr of (s, r) \<Rightarrow>
        case Done (sv_synchronizer s) of
          (sy, Inr spawn) \<Rightarrow> (s\<lparr>sv_synchronizer := sy\<rparr>, spawn, r)
        | (sy, Inl e) \<Rightarrow> (s\<lparr>sv_synchronizer := sy\<rparr>, False, Inl e))"

definition WorkerPoolProcessStream ::
  "('s, 'p) lib \<Rightarrow> ('fr, 'g1, 'g2, 'gt) mcl \<Rightarrow> ('s, 'p, 'fr, 'g2, 'r, 'c) server \<Rightarrow> metadata \<Rightarrow> bytes \<Rightarrow> connection_reader \<Rightarrow>
     (('s, 'p, 'fr, 'g2, 'r, 'c) server \<times> bool \<times> unit res) option" where
  "WorkerPoolProcessStream L M s m metadataBytes stream =
     (case checkMessage s m of
        None \<Rightarrow> None
      | Some (s, Inl e) \<Rightarrow> Some (deferred_Done (s, Inl e))
      | Some (s, Inr _) \<Rightarrow>
          Some (deferred_Done
            (case stream_jobs L M m (cn_Buff stream) s of
               (s', Inl e) \<Rightarrow> (s', Inl e)
             | (s', Inr _) \<Rightarrow> (s', check_stream L (sv_CommonState s') m metadataBytes stream))))"

fun group_jobs ::
  "('s, 'p) lib \<Rightarrow> ('fr, 'g1, 'g2, 'gt) mcl \<Rightarrow> metadata \<Rightarrow> bytes list \<Rightarrow> ('s, 'p, 'fr, 'g2, 'r, 'c) server \<Rightarrow> bytes option \<Rightarrow> nat \<Rightarrow>
     ('s, 'p, 'fr, 'g2, 'r, 'c) server \<times> bytes option res" where
  "group_jobs L M m [] s response pos = (s, Inr response)"
| "group_jobs L M m (message # ms) s response pos =
     (case response of
        None \<Rightarrow> (case ProcessThread L M s m message [] of
            (s', Inl e) \<Rightarrow> (s', Inl e)
          | (s', Inr _) \<Rightarrow> group_jobs L M m ms s' None (pos + RESPONSE_LENGTH))
      | Some d \<Rightarrow> (case slice d pos (pos + RESPONSE_LENGTH) of
            Inl e \<Rightarrow> (s, Inl e)
          | Inr r \<Rightarrow> (case ProcessThread L M s m message r of
                (s', Inl e) \<Rightarrow> (s', Inl e)
              | (s', Inr r') \<Rightarrow> group_jobs L M m ms s' (Some (copy_at d pos r')) (pos + RESPONSE_LENGTH))))"

text \<open>The result carries the bytes sent back on the connection, if any.\<close>

definition group_stream ::
  "('s, 'p) lib \<Rightarrow> ('fr, 'g1, 'g2, 'gt) mcl \<Rightarrow> ('s, 'p, 'fr, 'g2, 'r, 'c) server \<Rightarrow> metadata \<Rightarrow> bytes \<Rightarrow> connection_reader \<Rightarrow>
     ('s, 'p, 'fr, 'g2, 'r, 'c) server \<times> bytes option res" where
  "group_stream L M s m metadataBytes stream =
     (let c = sv_CommonState s;
          resp = (if md_Type m = GroupCheckpointToken
                  then Some (NewSignedMessage (RESPONSE_LENGTH * nat (md_NumMessages m)) (cs_Round c) (cs_NumLayers c) (cs_MyId c)
                               (md_Group m) (md_Sender m) (md_NumMessages m) GroupCheckpointToken)
                  else None) in
      case group_jobs L M m (cn_Buff stream) s (map_option sm_Data resp) 0 of
        (s', Inl e) \<Rightarrow> (s', Inl e)
      | (s', Inr d) \<Rightarrow>
          (s', sbind (check_stream L (sv_CommonState s') m metadataBytes stream) (\<lambda>_.
                 case (resp, d) of
                   (Some r, Some d) \<Rightarrow>
                     sbind (cs_Sign L (sv_CommonState s') (fill_data r d)) (\<lambda>r. sbind (AsArray r) (\<lambda>(_, a). Inr (Some a)))
                 | _ \<Rightarrow> Inr None)))"

definition WorkerPoolProcessGroup ::
  "('s, 'p) lib \<Rightarrow> ('fr, 'g1, 'g2, 'gt) mcl \<Rightarrow> ('s, 'p, 'fr, 'g2, 'r, 'c) server \<Rightarrow> metadata \<Rightarrow> bytes \<Rightarrow> connection_reader \<Rightarrow>
     (('s, 'p, 'fr, 'g2, 'r, 'c) server \<times> bool \<times> bytes option res) option" where
  "WorkerPoolProcessGroup L M s m metadataBytes stream =
     (if md_Type m = GroupCheckpointSignature then
        (case group_alias s (md_Group m) of
           Inl e \<Rightarrow> Some (s, False, Inl e)
         | Inr g \<Rightarrow>
             if \<not> Sync (gm_checkpointSynchronizer g) (md_Layer m) then None
             else (case SyncOnce (gm_checkpointSynchronizer g) (md_Sender m) of
                 (sy, Inl e) \<Rightarrow> Some (s, False, Inl e)
               | (sy, Inr _) \<Rightarrow>
                   (case group_stream L M (set_alias s (md_Group m) (g\<lparr>gm_checkpointSynchronizer := sy\<rparr>)) m metadataBytes stream of
                      (s', r) \<Rightarrow>
                        (case group_alias s' (md_Group m) of
                           Inl e \<Rightarrow> Some (s', False, Inl e)
                         | Inr g' \<Rightarrow>
                             (case Done (gm_checkpointSynchronizer g') of (sy', d) \<Rightarrow>
                                let s'' = set_alias s' (md_Group m) (g'\<lparr>gm_checkpointSynchronizer := sy'\<rparr>) in
                                Some (case d of Inl e \<Rightarrow> (s'', False, Inl e) | Inr spawn \<Rightarrow> (s'', spawn, r)))))))
      else (case group_stream L M s m metadataBytes stream of (s', r) \<Rightarrow> Some (s', False, r)))"

definition TCPReadSize :: nat where "TCPReadSize = 1460"

text \<open>\<open>None\<close> is the nil reader.\<close>

definition ReadStream ::
  "('fr, 'g1, 'g2, 'gt) mcl \<Rightarrow> ('s, 'p, 'fr, 'g2, 'r, 'c) server \<Rightarrow> metadata \<Rightarrow> connection_reader option res" where
  "ReadStream M s m =
     (let c = sv_CommonState s;
          reader = (\<lambda>sz. Some (NewConnectionReader (nat (md_NumMessages m)) sz (CalculateBatchSize TCPReadSize sz))) in
      if md_Type m = ServerMessageForward then
        sbind (go_index_int (cs_OnionMessageLengths c) (md_Layer m)) (\<lambda>sz. Inr (reader sz))
      else if md_Type m = ServerMessageReverse then
        sbind (go_index_int (cs_OnionMessageLengths c) (md_Layer m + 1)) (\<lambda>sz. Inr (reader sz))
      else if md_Type m = PathMessageForward then
        sbind (go_index_int (cs_PathMessageLengths c) (md_Layer m)) (\<lambda>sz. Inr (reader sz))
      else if md_Type m = GroupCheckpointToken then Inr (reader (TOKEN_MESSAGE_LENGTH M))
      else if md_Type m = GroupCheckpointSignature then
        sbind (go_index_int (cs_OnionMessageLengths c) (cs_NumLayers c)) (\<lambda>sz. Inr (reader sz))
      else Inr None)"

text \<open>One turn of \<^verbatim>\<open>HandleTcpStream\<close>: metadata, round, group, messages. Every error panics.\<close>

definition HandleTcpStream ::
  "('s, 'p) lib \<Rightarrow> ('fr, 'g1, 'g2, 'gt) mcl \<Rightarrow> 'i read_op \<Rightarrow> int list \<Rightarrow> ('s, 'p, 'fr, 'g2, 'r, 'c) server \<Rightarrow> 'i \<Rightarrow>
     (('s, 'p, 'fr, 'g2, 'r, 'c) server \<times> 'i \<times> bool \<times> bytes option res) option" where
  "HandleTcpStream L M rd wakes s conn =
     (case ReadMetadata rd conn of
        None \<Rightarrow> None
      | Some (conn, Inl e) \<Rightarrow> Some (s, conn, False, Inl (panic_err e))
      | Some (conn, Inr (m, raw)) \<Rightarrow>
          (case WaitForRound (sv_handler_round s) wakes (md_Round m) of
             None \<Rightarrow> None
           | Some (Inl e) \<Rightarrow> Some (s, conn, False, Inl (panic_err e))
           | Some (Inr _) \<Rightarrow>
               (case checkForGroup s (md_Type m) (md_Group m) of (groupOp, exists) \<Rightarrow>
                  if groupOp \<and> \<not> exists then Some (s, conn, False, Inl (Panic (PanicError WrongServerError)))
                  else (case ReadStream M s m of
                      Inl e \<Rightarrow> Some (s, conn, False, Inl e)
                    | Inr None \<Rightarrow> Some (s, conn, False, Inl (Panic NilDereference))
                    | Inr (Some stream) \<Rightarrow>
                        (case ContinuousReader rd conn stream of
                           None \<Rightarrow> None
                         | Some (conn, stream) \<Rightarrow>
                             (case (if \<not> groupOp then map_option (\<lambda>(s, spawn, r). (s, spawn, sbind r (\<lambda>_. Inr None))) (WorkerPoolProcessStream L M s m raw stream)
                                    else WorkerPoolProcessGroup L M s m raw stream) of
                                None \<Rightarrow> None
                              | Some (s, spawn, Inl e) \<Rightarrow> Some (s, conn, spawn, Inl (panic_err e))
                              | Some (s, spawn, Inr b) \<Rightarrow> Some (s, conn, spawn, Inr b)))))))"

section \<open>Calls of clients\<close>

definition group_call ::
  "('s, 'p, 'fr, 'g2, 'r, 'c) server \<Rightarrow> int \<Rightarrow> (('s, 'fr, 'g2) group_member \<Rightarrow> (('s, 'fr, 'g2) group_member \<times> 'a res) option) \<Rightarrow>
     (('s, 'p, 'fr, 'g2, 'r, 'c) server \<times> 'a res) option" where
  "group_call s gid f =
     (case group_alias s gid of
        Inl e \<Rightarrow> Some (s, Inl e)
      | Inr g \<Rightarrow> map_option (\<lambda>(g', r). (set_alias s gid g', r)) (f g))"

definition preparer_call ::
  "(('fr, 'g2) message_preparer \<Rightarrow> ('fr, 'g2) message_preparer \<times> 'a res) \<Rightarrow> ('s, 'fr, 'g2) group_member \<Rightarrow>
     (('s, 'fr, 'g2) group_member \<times> 'a res) option" where
  "preparer_call f g = (case f (gm_messagePreparer g) of (p, r) \<Rightarrow> Some (g\<lparr>gm_messagePreparer := p\<rparr>, r))"

definition exchange_call ::
  "curve \<Rightarrow> int \<Rightarrow> signed_message \<Rightarrow> ('s, 'fr, 'g2) group_member \<Rightarrow> (('s, 'fr, 'g2) group_member \<times> unit res) option" where
  "exchange_call C layer m g =
     (case go_index_int (gm_keyExchange g) layer of
        Inl e \<Rightarrow> Some (g, Inl e)
      | Inr k \<Rightarrow> map_option (\<lambda>(k', r). (g\<lparr>gm_keyExchange := (gm_keyExchange g)[nat layer := k']\<rparr>, sbind r (\<lambda>_. Inr ())))
                   (ReceiveKeyShare C k m))"

definition no_reply ::
  "('s \<times> unit res) option \<Rightarrow> ('s \<times> signed_message option res) option" where
  "no_reply x = map_option (\<lambda>(s, r). (s, sbind r (\<lambda>_. Inr None))) x"

definition with_reply ::
  "('s \<times> signed_message res) option \<Rightarrow> ('s \<times> signed_message option res) option" where
  "with_reply x = map_option (\<lambda>(s, r). (s, sbind r (\<lambda>m. Inr (Some m)))) x"

definition dispatch ::
  "('s, 'p) lib \<Rightarrow> ('fr, 'g1, 'g2, 'gt) mcl \<Rightarrow> curve \<Rightarrow> ('s, 'p, 'fr, 'g2, 'r, 'c) server \<Rightarrow> signed_message \<Rightarrow>
     (('s, 'p, 'fr, 'g2, 'r, 'c) server \<times> signed_message option res) option" where
  "dispatch L M C s m =
     (let t = md_Type (sm_Metadata m); gid = md_Group (sm_Metadata m) in
      if t = KeySharePush then no_reply (group_call s gid (exchange_call C (md_Layer (sm_Metadata m)) m))
      else if t = ClientRegister then
        no_reply (group_call s gid (preparer_call (\<lambda>p. preparer_RegisterClient L p m)))
      else if t = ClientTokenRequest then
        with_reply (group_call s gid (preparer_call (\<lambda>p. HandleTokenRequest L M (sv_CommonState s) p m)))
      else if t = ClientMessageSubmission then no_reply (HandleSubmissionMessage L M s m)
      else if t = ClientGetReceipt then with_reply (map_option (Pair s) (GetReceipt L s m))
      else Some (s, Inl (Err UnrecognizedError)))"

definition HandleSignedMessage ::
  "('s, 'p) lib \<Rightarrow> ('fr, 'g1, 'g2, 'gt) mcl \<Rightarrow> curve \<Rightarrow> int list \<Rightarrow> ('s, 'p, 'fr, 'g2, 'r, 'c) server \<Rightarrow> network_message \<Rightarrow>
     (('s, 'p, 'fr, 'g2, 'r, 'c) server \<times> network_message res) option" where
  "HandleSignedMessage L M C wakes s nm =
     (case ParseSignedMessage nm of
        None \<Rightarrow> Some (s, Inl (Err BadMetadataError))
      | Some m \<Rightarrow>
          (case WaitForRound (sv_handler_round s) wakes (md_Round (sm_Metadata m)) of
             None \<Rightarrow> None
           | Some (Inl e) \<Rightarrow> Some (s, Inl e)
           | Some (Inr _) \<Rightarrow>
               (case checkForGroup s (md_Type (sm_Metadata m)) (md_Group (sm_Metadata m)) of (groupOp, exists) \<Rightarrow>
                  if groupOp \<and> \<not> exists then Some (s, Inl (Panic (PanicError WrongServerError)))
                  else (case dispatch L M C s m of
                      None \<Rightarrow> None
                    | Some (s', Inl e) \<Rightarrow> Some (s', Inl e)
                    | Some (s', Inr None) \<Rightarrow> Some (s', Inr \<lparr>nm_MessageType = 0, nm_Data = [], nm_Signature = []\<rparr>)
                    | Some (s', Inr (Some r)) \<Rightarrow> Some (s', AsNetworkMessage r)))))"

text \<open>A failed \<^verbatim>\<open>InterpretFrom\<close> of a key leaves it empty, as its error is dropped.\<close>

definition read_key :: "bytes \<Rightarrow> verification_key res" where
  "read_key b = (case vk_InterpretFrom b of Inl (Err e) \<Rightarrow> Inr [] | r \<Rightarrow> r)"

definition handler_SkipPathGen ::
  "('s, 'p) lib \<Rightarrow> ('s, 'p, 'fr, 'g2, 'r, 'c) server \<Rightarrow> skip_path_gen_message \<Rightarrow>
     ('s, 'p, 'fr, 'g2, 'r, 'c) server \<times> unit res" where
  "handler_SkipPathGen L s k =
     (if sp_Group k \<ge> 0 then
        (case sbind (read_key (sp_SendingKey k)) (\<lambda>verKey. sbind (group_alias s (sp_Group k)) (\<lambda>g. Inr (verKey, g))) of
           Inl e \<Rightarrow> (s, Inl e)
         | Inr (verKey, g) \<Rightarrow>
             let cp = gm_CheckpointState g in
             (set_alias s (sp_Group k)
                (g\<lparr>gm_CheckpointState := cp\<lparr>cp_AnonymousSigningKeys := vt_Add (cp_AnonymousSigningKeys cp) verKey\<rparr>\<rparr>), Inr ()))
      else
        (case sbind (read_key (sp_SendingKey k)) (\<lambda>sendingKey. sbind (read_key (sp_ForwardKey k)) (\<lambda>forwardingKey.
              sbind (case ToCurvePoint L sendingKey of Inl (Err e) \<Rightarrow> Inl (Err BadElementError) | r \<Rightarrow> r) (\<lambda>p.
              sbind (go_index_int (sv_Keys s) (sp_Layer k)) (\<lambda>t. Inr (sendingKey, forwardingKey, p, t))))) of
           Inl e \<Rightarrow> (s, Inl e)
         | Inr (sendingKey, forwardingKey, p, t) \<Rightarrow>
             (case AddKey L t sendingKey (SharedKey L (cs_ServerSecretKey (sv_CommonState s)) p) (sp_SendingServer k)
                     (sp_ForwardingServer k) forwardingKey of
                (t', r) \<Rightarrow> (s\<lparr>sv_Keys := (sv_Keys s)[nat (sp_Layer k) := t']\<rparr>,
                            case r of Inl (Panic x) \<Rightarrow> Inl (Panic x) | _ \<Rightarrow> Inr ()))))"

section \<open>Lemmas\<close>

text \<open>What no job changes: the common state and the barrier.\<close>

definition same_frame :: "('s, 'p, 'fr, 'g2, 'r, 'c) server \<Rightarrow> ('s, 'p, 'fr, 'g2, 'r, 'c) server \<Rightarrow> bool" where
  "same_frame s s' \<longleftrightarrow> sv_CommonState s' = sv_CommonState s \<and> sv_synchronizer s' = sv_synchronizer s"

lemma same_frame_refl [simp]: "same_frame s s"
  by (simp add: same_frame_def)

lemma same_frame_trans: "same_frame s s' \<Longrightarrow> same_frame s' s'' \<Longrightarrow> same_frame s s''"
  by (simp add: same_frame_def)

lemma same_frame_updates [simp]:
  "same_frame s (s'\<lparr>sv_lightingRouters := x1\<rparr>) = same_frame s s'" "same_frame s (s'\<lparr>sv_finalRouter := x2\<rparr>) = same_frame s s'"
  "same_frame s (s'\<lparr>sv_receipts := x3\<rparr>) = same_frame s s'" "same_frame s (s'\<lparr>sv_Keys := x4\<rparr>) = same_frame s s'"
  "same_frame s (s'\<lparr>sv_onionParsers := x5\<rparr>) = same_frame s s'"
  "same_frame s (s'\<lparr>sv_pathEstablishmentRouters := x6\<rparr>) = same_frame s s'"
  "same_frame s (s'\<lparr>sv_GroupAliases := x7\<rparr>) = same_frame s s'"
  by (simp_all add: same_frame_def)

lemma parse_onion_frame [simp]: "same_frame s (fst (parse_onion L s layer m))"
  by (simp add: parse_onion_def split: sum.split prod.split)

lemma pack_onion_frame [simp]: "same_frame s (fst (pack_onion s layer d k b))"
  by (simp add: pack_onion_def split: sum.split prod.split)

lemma pack_onion_frame': "same_frame s s1 \<Longrightarrow> same_frame s (fst (pack_onion s1 layer d k b))"
  by (rule same_frame_trans [OF _ pack_onion_frame])

lemma handleLightning_frame: "same_frame s (fst (handleLightningMessage L s m))"
proof -
  obtain s1 r where p: "parse_onion L s (cs_Layer (sv_CommonState s)) m = (s1, r)" by fastforce
  then have "same_frame s s1" using parse_onion_frame [of s L] by (metis fst_conv)
  then show ?thesis using p
    by (simp add: handleLightningMessage_def Let_def pack_onion_frame' split: sum.split prod.split)
qed

lemma HandleBoomerang_frame: "same_frame s (fst (HandleBoomerangMessage L s m))"
proof -
  obtain s1 r where p: "parse_onion L s (cs_Layer (sv_CommonState s)) m = (s1, r)" by fastforce
  then have "same_frame s s1" using parse_onion_frame [of s L] by (metis fst_conv)
  then show ?thesis using p
    by (simp add: HandleBoomerangMessage_def recordReceipts_def Let_def pack_onion_frame' split: sum.split prod.split)
qed

lemma handlePath_frame: "same_frame s (fst (handlePathMessage L M s md m))"
  by (simp add: handlePathMessage_def recordReceipts_def Let_def pack_onion_frame' split: sum.split prod.split)

lemma group_job_frame: "same_frame s (fst (group_job s gid f))"
  by (simp add: group_job_def set_alias_def split: sum.split prod.split)

lemma fst_case_results [simp]:
  "fst (case x of (s', Inl e) \<Rightarrow> (s', Inl (f e)) | (s', Inr b) \<Rightarrow> (s', Inr b)) = fst x"
  "fst (case y of (s', r) \<Rightarrow> (s', g r)) = fst y"
  by (simp_all split: prod.split sum.split)

lemma ProcessThread_frame: "same_frame s (fst (ProcessThread L M s md m r))"
  unfolding ProcessThread_def fst_case_results
  by (simp add: handleLightning_frame HandleBoomerang_frame handlePath_frame group_job_frame)

lemma stream_jobs_frame: "same_frame s (fst (stream_jobs L M md ms s))"
proof (induction ms arbitrary: s)
  case (Cons m ms)
  obtain s1 r where p: "ProcessThread L M s md m [] = (s1, r)" by fastforce
  then have "same_frame s s1" using ProcessThread_frame [of s L M md m "[]"] by simp
  then show ?case using p Cons.IH [of s] Cons.IH [of s1] same_frame_trans by (auto split: sum.split bool.split)
qed simp

lemma checkMessage_ok:
  assumes "checkMessage s m = Some (s', Inr ())"
  shows "sy_layer (sv_synchronizer s) = md_Layer m" "0 \<le> md_Layer m" "0 \<le> md_Sender m"
    "nat (md_Sender m) < length (started (sv_synchronizer s))" "\<not> started (sv_synchronizer s) ! nat (md_Sender m)"
    "s' = s\<lparr>sv_synchronizer := (sv_synchronizer s)\<lparr>started := (started (sv_synchronizer s))[nat (md_Sender m) := True]\<rparr>\<rparr>"
  using assms
  by (auto simp: checkMessage_def Sync_def SyncOnce_def go_index_int_def split: if_splits sum.splits bool.splits prod.splits)

section \<open>Properties\<close>

text \<open>C10. A stream is accepted only if it is authentic: when the processing of a stream of messages between servers
  returns without error, the whole batch was read, the sender's signature over the metadata and all messages
  verifies under the configured key of the sender, the stream was the sender's first for the layer the
  server is at, and the barrier has counted it once.\<close>

theorem stream_authenticated:
  assumes "WorkerPoolProcessStream L M s m metadataBytes stream = Some (s', spawn, Inr ())"
  shows "cn_Err stream = None \<and> sy_layer (sv_synchronizer s) = md_Layer m \<and>
     (\<exists>vk. go_index_int (cs_ExpandedVerificationKeys (sv_CommonState s)) (md_Sender m) = Inr vk \<and>
        CheckSignature L stream (metadataBytes @ concat (cn_Buff stream)) vk) \<and>
     nat (md_Sender m) \<notin> marked (sv_synchronizer s) \<and>
     marked (sv_synchronizer s') = insert (nat (md_Sender m)) (marked (sv_synchronizer s)) \<and>
     processed (sv_synchronizer s') = processed (sv_synchronizer s) + 1"
proof -
  have "\<exists>s1. checkMessage s m = Some (s1, Inr ())"
    using assms by (auto simp: WorkerPoolProcessStream_def deferred_Done_def split: option.splits sum.splits prod.splits)
  then obtain s1 where c: "checkMessage s m = Some (s1, Inr ())" by blast
  obtain s2 r where j: "stream_jobs L M m (cn_Buff stream) s1 = (s2, r)" by fastforce
  have f: "sv_CommonState s2 = sv_CommonState s1" "sv_synchronizer s2 = sv_synchronizer s1"
    using stream_jobs_frame [of s1 L M m "cn_Buff stream"] j by (simp_all add: same_frame_def)
  have r: "r = Inr ()" and ck: "check_stream L (sv_CommonState s2) m metadataBytes stream = Inr ()"
    and d: "deferred_Done (s2, Inr ()) = (s', spawn, Inr ())"
    using assms c j
    by (auto simp: WorkerPoolProcessStream_def deferred_Done_def split: option.splits sum.splits prod.splits)
  note k = checkMessage_ok [OF c]
  have "processed (sv_synchronizer s') = processed (sv_synchronizer s) + 1 \<and> started (sv_synchronizer s') = started (sv_synchronizer s1)"
    using d f k(6) by (auto simp: deferred_Done_def Done_def Let_def split: if_splits)
  moreover have "marked (sv_synchronizer s1) = insert (nat (md_Sender m)) (marked (sv_synchronizer s))"
    using marked_insert [OF k(4)] k(6) by simp
  ultimately have "marked (sv_synchronizer s') = insert (nat (md_Sender m)) (marked (sv_synchronizer s))"
    "processed (sv_synchronizer s') = processed (sv_synchronizer s) + 1" by (simp_all add: marked_def)
  moreover have "cn_Err stream = None" "\<exists>vk. go_index_int (cs_ExpandedVerificationKeys (sv_CommonState s)) (md_Sender m) = Inr vk \<and>
      CheckSignature L stream (metadataBytes @ concat (cn_Buff stream)) vk"
    using ck f(1) k(6) by (auto simp: check_stream_def split: option.splits)
  ultimately show ?thesis using k(1,5) by (simp add: marked_def)
qed

text \<open>A late call is not refused: a handler that is already past the round of a call lets it through at once; only a call
  that had to wait is checked against the round it wakes up in.\<close>

theorem stale_round_accepted:
  assumes "round < hround" and "hround \<noteq> Blocked"
  shows "WaitForRound hround wakes round = Some (Inr ()) \<and>
     (\<forall>h ws. WaitForRound Blocked (hround # ws) round = Some (Inl (Err BadMetadataError)))"
  using assms by simp

theorem stale_round_accepted_witness: "WaitForRound 3 [] 1 = Some (Inr ())"
  using stale_round_accepted [of 1 3 "[]"] by (simp add: Blocked_def)

text \<open>A signed stream without messages.\<close>

definition empty_stream :: connection_reader where
  "empty_stream = \<lparr>cn_numMessages = 0, cn_messageSize = 32, cn_baseBatchSize = 1,
     cn_Signature = ph_sign toy_lib [9] (sha512 toy_lib []), cn_Buff = [], cn_Err = None\<rparr>"

theorem stream_authenticated_witness:
  "\<exists>s' spawn. WorkerPoolProcessStream toy_lib toy_mcl (sample_server\<lparr>sv_synchronizer := NewSynchronizer 0 0 1\<rparr>)
       \<lparr>md_Type = ServerMessageForward, md_Round = 0, md_Layer = 0, md_Sender = 0, md_Dest = 0, md_Group = 0, md_NumMessages = 0\<rparr>
       [] empty_stream = Some (s', spawn, Inr ()) \<and> processed (sv_synchronizer s') = 1"
proof -
  let ?s = "sample_server\<lparr>sv_synchronizer := NewSynchronizer 0 0 1\<rparr>"
  let ?m = "\<lparr>md_Type = ServerMessageForward, md_Round = 0, md_Layer = 0, md_Sender = 0, md_Dest = 0, md_Group = 0, md_NumMessages = 0\<rparr>"
  have "ed_public toy_lib [9] = toy_public [9]" by (simp add: toy_lib_def)
  then have v: "PreHashVerify toy_lib [] (toy_public [9]) (ph_sign toy_lib [9] (sha512 toy_lib []))"
    using toy_ph_ok by (simp add: ph_ok_def PreHashVerify_def) metis
  have "\<exists>s' spawn. WorkerPoolProcessStream toy_lib toy_mcl ?s ?m [] empty_stream = Some (s', spawn, Inr ())"
    by (simp add: WorkerPoolProcessStream_def checkMessage_def Sync_def SyncOnce_def NewSynchronizer_def go_index_int_def
        check_stream_def empty_stream_def CheckSignature_def v sample_server_def sample_state_def deferred_Done_def Done_def Let_def
        ex_bool_eq)
  then obtain s' spawn where w: "WorkerPoolProcessStream toy_lib toy_mcl ?s ?m [] empty_stream = Some (s', spawn, Inr ())" by blast
  from stream_authenticated [OF w] w show ?thesis by (auto simp: NewSynchronizer_def)
qed

end
