(* ===== verification/Delivery.thy ===== *)
theory Delivery
  imports Client Handlers
begin

text \<open>
  The way of a lightning message: what a client submits is opened layer by layer by the servers of its path
  and accepted by the anytrust group of its last key. The definitions state what a server must hold for a
  hop: the key recorded during path establishment, not yet used, and room on the link to the next server.
\<close>

section \<open>Hops\<close>

text \<open>The message on the wire before layer \<open>l\<close>, for path keys \<open>ks\<close> and the key \<open>k\<close> of the final signature.\<close>

definition wire_message ::
  "('s, 'p) lib \<Rightarrow> int \<Rightarrow> 's path_key list \<Rightarrow> 's path_key \<Rightarrow> bytes \<Rightarrow> nat \<Rightarrow> bytes" where
  "wire_message L r ks k m l =
     ed_public L (pk_SigningKey ((ks @ [k]) ! l)) @ onion L r l (drop l ks) (final_bytes L (pk_SigningKey k) m)"

text \<open>The key record of a hop from the path key \<open>a\<close> to the next one \<open>b\<close>. In the last layer \<open>b\<close> is the path key after the last server, and its
  \<^verbatim>\<open>ServerID\<close> is read as the number of the group: a client that ran path establishment itself leaves this field at \<open>0\<close>
  (\<^verbatim>\<open>MakeTokensAndPath\<close>), so for such a client the record asks for group \<open>0\<close>.\<close>

definition hop_key :: "('s, 'p) lib \<Rightarrow> 's path_key \<Rightarrow> 's path_key \<Rightarrow> bootstrap_key \<Rightarrow> bool" where
  "hop_key L a b bk \<longleftrightarrow>
     bk_VerificationKey bk = ed_public L (pk_SigningKey a) \<and> bk_ExpandedVerificationKey bk = None \<and>
     bk_SharedKey bk = pk_Shared a \<and> bk_NextServer bk = pk_ServerID b \<and>
     bk_OutgoingVerificationKey bk = ed_public L (pk_SigningKey b)"

text \<open>The buffers a layer writes to.\<close>

definition out_bufs :: "('s, 'p, 'fr, 'g2, 'r, 'c) server \<Rightarrow> nat \<Rightarrow> out_buffers" where
  "out_bufs s l = (if int l = sv_lastLayer s then sv_finalRouter s else the (sv_lightingRouters s ! l))"

definition room_for :: "out_buffers \<Rightarrow> int \<Rightarrow> nat \<Rightarrow> bool" where
  "room_for bufs dest len \<longleftrightarrow> 0 \<le> dest \<and> nat dest < length bufs \<and> filling (bufs ! nat dest) \<and>
     elementLength (bufs ! nat dest) = len \<and> elementCount (bufs ! nat dest) < numElements (bufs ! nat dest)"

text \<open>A server at layer \<open>l\<close> of the path, in a round of \<open>n\<close> layers with payloads of \<open>sz\<close> bytes.\<close>

definition hop_ready ::
  "('s, 'p) lib \<Rightarrow> 's path_key list \<Rightarrow> 's path_key \<Rightarrow> int \<Rightarrow> nat \<Rightarrow> nat \<Rightarrow> ('s, 'p, 'fr, 'g2, 'r, 'c) server \<Rightarrow> bool" where
  "hop_ready L ks k r sz l s \<longleftrightarrow>
     cs_Layer (sv_CommonState s) = int l \<and> cs_Round (sv_CommonState s) = r \<and>
     cs_MyId (sv_CommonState s) = pk_ServerID (ks ! l) \<and> sv_lastLayer s = int (length ks) - 1 \<and>
     l < length (sv_Keys s) \<and> l < length (sv_onionParsers s) \<and>
     (\<exists>p. sv_onionParsers s ! l = Some p \<and> \<not> op_reverse p \<and> onion_inv (sv_Keys s ! l, p)) \<and>
     (\<exists>i. Lookup (sv_Keys s ! l) (ed_public L (pk_SigningKey (ks ! l))) False = Some i \<and> i \<notin> used_ids (sv_Keys s ! l) \<and>
        hop_key L (ks ! l) ((ks @ [k]) ! (l + 1)) (kt_keys (sv_Keys s ! l) ! i)) \<and>
     (int l \<noteq> sv_lastLayer s \<longrightarrow> l < length (sv_lightingRouters s) \<and> sv_lightingRouters s ! l \<noteq> None) \<and>
     room_for (out_bufs s l) (pk_ServerID ((ks @ [k]) ! (l + 1))) (LightningMessageLengths (length ks) sz ! (l + 1))"

lemma write_room:
  assumes "room_for bufs dest (length b)"
  shows "\<exists>bufs'. write_buffer bufs dest b = (bufs', Inr ()) \<and> contents (bufs' ! nat dest) = contents (bufs ! nat dest) @ [b]"
proof -
  from assms have d: "0 \<le> dest" "nat dest < length bufs" "int (nat dest) = dest" by (auto simp: room_for_def)
  from write_buffer_ok [of "nat dest" bufs b] assms d show ?thesis
    by (fastforce simp: room_for_def)
qed

text \<open>Opening the envelope of layer \<open>l\<close>.\<close>

lemma parse_hop:
  assumes L: "aes_ok L" "sig_ok L" and l: "l < length ks" and sh: "16 \<le> length (pk_Shared (ks ! l))"
    and hop: "hop_ready L ks k r sz l s"
  shows "\<exists>s' bk. parse_onion L s (int l) (wire_message L r ks k m l) =
       (s', Inr (onion L r (Suc l) (drop (Suc l) ks) (final_bytes L (pk_SigningKey k) m), bk)) \<and>
     hop_key L (ks ! l) ((ks @ [k]) ! (l + 1)) bk"
proof -
  let ?c = "sv_CommonState s" and ?t = "sv_Keys s ! l" and ?a = "ks ! l"
  let ?inner = "onion L r (Suc l) (drop (Suc l) ks) (final_bytes L (pk_SigningKey k) m)"
  obtain p i where p: "sv_onionParsers s ! l = Some p" "\<not> op_reverse p" "onion_inv (?t, p)"
    and i: "Lookup ?t (ed_public L (pk_SigningKey ?a)) False = Some i" "i \<notin> used_ids ?t"
    and bk: "hop_key L ?a ((ks @ [k]) ! (l + 1)) (kt_keys ?t ! i)"
    using hop by (auto simp: hop_ready_def)
  have idx: "pointer (sv_onionParsers s) (int l) = Inr p" "go_index_int (sv_Keys s) (int l) = Inr ?t"
    using hop p(1) by (simp_all add: hop_ready_def pointer_def go_index_int_def)
  have box: "SignedSecretSeal L ?inner (Nonce (cs_Round ?c) (parse_layer ?c p) (cs_MyId ?c)) (dec_key p (kt_keys ?t ! i)) (pk_SigningKey ?a) =
      Inr (onion L r l (drop l ks) (final_bytes L (pk_SigningKey k) m))"
    using seal_box_ok [OF L sh] hop p(2) bk l
    by (simp add: hop_ready_def parse_layer_def dec_key_def hop_key_def Cons_nth_drop_Suc [OF l, symmetric])
  have w: "wire_message L r ks k m l = ed_public L (pk_SigningKey ?a) @ onion L r l (drop l ks) (final_bytes L (pk_SigningKey k) m)"
    using l by (simp add: wire_message_def nth_append)
  have open_e: "open_envelope L ?c ?t p (wire_message L r ks k m l) = Inr (?inner, i)"
    unfolding w
    by (rule open_envelope_sealed [OF L _ refl _ _ _ _ box])
      (use p(2) i(1) bk sh sig_okD(3) [OF L(2)] in \<open>simp_all add: ver_key_def exp_key_def dec_key_def hop_key_def\<close>)
  have "i \<in> ids ?t" using Lookup_ids [OF _ i(1)] p(3) by (simp add: onion_inv_def)
  from mark_used_new [OF p(3) this i(2)] obtain t' p' where
    mk: "mark_used (?t, p) i = ((t', p'), Inr ())" "kt_keys t' = (kt_keys ?t)[i := (kt_keys ?t ! i)\<lparr>bk_used := True\<rparr>]" by blast
  have "i < length (kt_keys ?t)" using \<open>i \<in> ids ?t\<close> p(3) by (simp add: onion_inv_def table_inv_def)
  then have "hop_key L ?a ((ks @ [k]) ! (l + 1)) (kt_keys t' ! i)" using bk mk(2) by (simp add: hop_key_def)
  moreover have "AuthenticatedOnionParse L ?c (?t, p) (wire_message L r ks k m l) = ((t', p'), Inr (?inner, i))"
    using open_e mk(1) by (simp add: AuthenticatedOnionParse_def)
  ultimately show ?thesis using idx by (simp add: parse_onion_def)
qed

lemma length_final: "sig_ok L \<Longrightarrow> length (final_bytes L sk m) = length m + 64"
  by (simp add: final_bytes_def sig_okD(1))

lemma length_wire:
  assumes "aes_ok L" "sig_ok L" "l \<le> length ks"
  shows "length (wire_message L r ks k m l) = LightningMessageLengths (length ks) (length m) ! l"
  using LightningMessageLengths_nth(2) [of l "length ks" "length m"] LightningMessageLengths_nth(3) [of "length ks" "length m"] assms
  by (cases "l = length ks") (simp_all add: wire_message_def length_onion length_final sig_okD(3))

text \<open>One hop: the envelope of layer \<open>l\<close> becomes that of layer \<open>l + 1\<close>, on the link to its server.\<close>

lemma hop_delivers:
  assumes L: "aes_ok L" "sig_ok L" and l: "l < length ks" and sh: "16 \<le> length (pk_Shared (ks ! l))"
    and hop: "hop_ready L ks k r (length m) l s"
  defines "dest \<equiv> pk_ServerID ((ks @ [k]) ! (l + 1))"
  shows "\<exists>s'. handleLightningMessage L s (wire_message L r ks k m l) = (s', Inr ()) \<and>
     contents (out_bufs s' l ! nat dest) = contents (out_bufs s l ! nat dest) @ [wire_message L r ks k m (l + 1)]"
proof -
  let ?inner = "onion L r (Suc l) (drop (Suc l) ks) (final_bytes L (pk_SigningKey k) m)"
  let ?next = "ed_public L (pk_SigningKey ((ks @ [k]) ! (l + 1)))"
  from parse_hop [OF L l sh hop, of m] obtain s1 bk where
    p: "parse_onion L s (int l) (wire_message L r ks k m l) = (s1, Inr (?inner, bk))"
      "hop_key L (ks ! l) ((ks @ [k]) ! (l + 1)) bk" by blast
  note keep = parse_onion_keeps [OF p(1)]
  have w: "wire_message L r ks k m (l + 1) = ?next @ ?inner" by (simp add: wire_message_def)
  have room: "room_for (out_bufs s l) dest (length (?next @ ?inner))"
    using hop length_wire [OF L, of "l + 1" ks r k m] l w by (simp add: hop_ready_def dest_def)
  from write_room [OF room] obtain bufs' where
    wr: "write_buffer (out_bufs s l) dest (?next @ ?inner) = (bufs', Inr ())"
      "contents (bufs' ! nat dest) = contents (out_bufs s l ! nat dest) @ [?next @ ?inner]" by blast
  have h: "cs_Layer (sv_CommonState s) = int l" using hop by (simp add: hop_ready_def)
  show ?thesis
  proof (cases "int l = sv_lastLayer s")
    case True
    then have last: "drop (Suc l) ks = []" using hop l by (simp add: hop_ready_def)
    have f: "?inner = Sign L (pk_SigningKey k) m @ m" by (simp add: last final_bytes_def)
    have fm: "fm_Marshal \<lparr>fm_AnonymousVerificationKey = bk_OutgoingVerificationKey bk, fm_Signature = Sign L (pk_SigningKey k) m, fm_Message = m\<rparr>
        = Inr (?next @ ?inner)"
      using p(2) sig_okD [OF L(2)] unfolding f
      by (simp add: hop_key_def fm_Marshal_def fm_PackTo_def fm_Len_def size_defs vk_PackTo_zeros)
    have "slice ?inner 0 SIGNATURE_SIZE = Inr (Sign L (pk_SigningKey k) m)" "drop SIGNATURE_SIZE ?inner = m"
      using sig_okD(1) [OF L(2)] unfolding f by (simp_all add: slice_def size_defs)
    then have "trustee_Pack (sv_finalRouter s1) ?inner bk = (bufs', Inr ())"
      using fm wr(1) True p(2) keep(8) by (simp add: trustee_Pack_def out_bufs_def hop_key_def dest_def)
    then have "handleLightningMessage L s (wire_message L r ks k m l) = (s1\<lparr>sv_finalRouter := bufs'\<rparr>, Inr ())"
      using h p(1) True keep(5) by (simp add: handleLightningMessage_def Let_def)
    then show ?thesis using wr(2) w True keep(5) by (simp add: out_bufs_def)
  next
    case False
    then obtain bufs where b: "l < length (sv_lightingRouters s)" "sv_lightingRouters s ! l = Some bufs"
      using hop by (auto simp: hop_ready_def)
    have "LookupKey (bk_OutgoingVerificationKey bk) = ?next" using p(2) sig_okD(3) [OF L(2)] by (simp add: hop_key_def LookupKey_id)
    then have "AuthenticatedOnionPack bufs ?inner bk False = (bufs', Inr ())"
      using wr(1) False b(2) p(2) sig_okD(3) [OF L(2)]
      by (simp add: AuthenticatedOnionPack_def Let_def le_Marshal_ok out_bufs_def hop_key_def dest_def)
    then have "handleLightningMessage L s (wire_message L r ks k m l) =
        (s1\<lparr>sv_lightingRouters := (sv_lightingRouters s)[l := Some bufs']\<rparr>, Inr ())"
      using h p(1) False keep(5,7) b
      by (simp add: handleLightningMessage_def Let_def pack_onion_def pointer_def go_index_int_def)
    then show ?thesis using wr(2) w False keep(5,7) b(1) by (simp add: out_bufs_def)
  qed
qed

section \<open>Properties\<close>

text \<open>C1. Lightning messages are delivered: what a client with an established path submits in a lightning round is, at every
  layer and for every state of the server of that layer that holds the client's key unused and has room on the
  link, decrypted and written to the link to the next server of the path (to the group of the client's last
  key, after the last layer); and a member of that group that has recorded the last key accepts the
  result and appends exactly the client's message to its final messages.\<close>

theorem lightning_message_delivered:
  fixes t :: "('s, 'p, 'g2, 'r) client"
  assumes "lib_ok L" and "ks \<noteq> []" and "\<forall>a \<in> set ks. 16 \<le> length (pk_Shared a)"
    and "cl_PathKeys t = map Some (ks @ [k])" and "cs_NumLayers (cl_Common t) = int (length ks)"
    and "cl_routingKey t = ed_public L (pk_SigningKey (hd ks))"
  shows "\<exists>env wire. lightning_submission L t (cl_PathKeys t) m = Inr env \<and> le_Marshal env = Inr (wire 0) \<and>
     (\<forall>l < length ks. \<forall>s :: ('s, 'p, 'fr, 'g2, 'r, 'c) server. hop_ready L ks k (cs_Round (cl_Common t)) (length m) l s \<longrightarrow>
        (\<exists>s'. handleLightningMessage L s (wire l) = (s', Inr ()) \<and>
           contents (out_bufs s' l ! nat (pk_ServerID ((ks @ [k]) ! (l + 1)))) =
             contents (out_bufs s l ! nat (pk_ServerID ((ks @ [k]) ! (l + 1)))) @ [wire (l + 1)])) \<and>
     (\<forall>st :: 's checkpoint. vt_inv (cp_AnonymousSigningKeys st) \<and>
        ed_public L (pk_SigningKey k) \<in> vt_all (cp_AnonymousSigningKeys st) - vt_used (cp_AnonymousSigningKeys st) \<longrightarrow>
        (\<exists>st'. HandleTrusteeMessage L st (wire (length ks)) = (st', Inr ()) \<and>
           cp_FinalMessages st' = cp_FinalMessages st @ [m]))"
proof -
  note L = lib_okD(1,2) [OF assms(1)] and r = sig_okD [OF lib_okD(2) [OF assms(1)]]
  let ?r = "cs_Round (cl_Common t)" and ?w = "wire_message L (cs_Round (cl_Common t)) ks k m"
  obtain env where env: "lightning_submission L t (cl_PathKeys t) m = Inr env" "le_Key env = cl_routingKey t"
    "le_SignedCiphertext env = onion L ?r 0 ks (final_bytes L (pk_SigningKey k) m)"
    using lightning_submission_ok [OF L assms(3-5)] by simp
  have "le_Marshal env = Inr (?w 0)"
    using le_Marshal_ok [of env] env(2,3) assms(2,6) r(3) by (simp add: wire_message_def hd_conv_nth nth_append)
  moreover have "\<exists>s'. handleLightningMessage L s (?w l) = (s', Inr ()) \<and>
      contents (out_bufs s' l ! nat (pk_ServerID ((ks @ [k]) ! (l + 1)))) =
        contents (out_bufs s l ! nat (pk_ServerID ((ks @ [k]) ! (l + 1)))) @ [?w (l + 1)]"
    if "l < length ks" "hop_ready L ks k ?r (length m) l s" for l and s :: "('s, 'p, 'fr, 'g2, 'r, 'c) server"
    using hop_delivers [OF L that(1) _ that(2)] assms(3) that(1) by simp
  moreover have "\<exists>st'. HandleTrusteeMessage L st (?w (length ks)) = (st', Inr ()) \<and> cp_FinalMessages st' = cp_FinalMessages st @ [m]"
    if st: "vt_inv (cp_AnonymousSigningKeys st)"
      "ed_public L (pk_SigningKey k) \<in> vt_all (cp_AnonymousSigningKeys st) - vt_used (cp_AnonymousSigningKeys st)" for st :: "'s checkpoint"
  proof -
    let ?fm = "\<lparr>fm_AnonymousVerificationKey = ed_public L (pk_SigningKey k), fm_Signature = Sign L (pk_SigningKey k) m, fm_Message = m\<rparr>"
    have "?w (length ks) = ed_public L (pk_SigningKey k) @ Sign L (pk_SigningKey k) m @ m"
      by (simp add: wire_message_def final_bytes_def)
    then have "fm_InterpretFrom (?w (length ks)) = Inr ?fm"
      using r by (simp add: final_message_parse_cases)
    from HandleTrusteeMessage_cases [OF st(1) this, of L] st(2) r(2) show ?thesis
      by (auto simp: VerifyMessage_def)
  qed
  ultimately show ?thesis using env(1) by (intro exI [of _ env] exI [of _ ?w]) blast
qed

text \<open>The sample client, the only server of its path, and a member of its group.\<close>

definition hop_table :: "256 word key_table" where
  "hop_table = fst (AddKey toy_lib \<lparr>kt_keys = [], kt_table = [], kt_reverseTable = [], kt_secretKey = 3\<rparr>
     (toy_public [9]) (pk_Shared sample_path_key) 0 0 (toy_public [9]))"

definition hop_server :: "(256 word, 256 word, 1 word, 1 word, nat, mock_chan) server" where
  "hop_server = sample_server\<lparr>sv_Keys := [hop_table], sv_onionParsers := [Some (NewOnionParser False)],
     sv_finalRouter := [NewMemReadWriter 98 4]\<rparr>"

definition hop_checkpoint :: "256 word checkpoint" where
  "hop_checkpoint = \<lparr>cp_myGroupId = 0, cp_numGroups = 1, cp_groupKeyShare = 3,
     cp_AnonymousSigningKeys = \<lparr>vt_keys = [(toy_public [9], False)], vt_count = 0\<rparr>, cp_FinalMessages = []\<rparr>"

lemma hop_server_ready: "hop_ready toy_lib [sample_path_key] sample_path_key 0 2 0 hop_server"
proof -
  let ?t = "\<lparr>kt_keys = [], kt_table = [], kt_reverseTable = [], kt_secretKey = 3 :: 256 word\<rparr>"
  have d: "pt_decode toy_lib (toy_public [9]) = Some (word_of_int (get_le (toy_public [9])))" by (simp add: toy_lib_def)
  obtain t r where a: "AddKey toy_lib ?t (toy_public [9]) (pk_Shared sample_path_key) 0 0 (toy_public [9]) = (t, r)" by fastforce
  have i: "table_inv ?t" "used_ids ?t = {}" by (simp_all add: table_inv_def ids_def used_ids_def)
  from AddKey_inv [OF i(1) d _ _ a] i(2) have t: "table_inv hop_table" "used_ids hop_table = {}"
    by (simp_all add: hop_table_def a)
  from AddKey_ok [OF d, of ?t "toy_public [9]" "pk_Shared sample_path_key" 0 0] a have
    k: "Lookup hop_table (toy_public [9]) False = Some 0"
      "hop_key toy_lib sample_path_key sample_path_key (kt_keys hop_table ! 0)"
    by (simp_all add: hop_table_def Lookup_def LookupKey_id vk_Copy_id hop_key_def sample_path_key_def toy_lib_def)
  have len: "LightningMessageLengths 1 2 ! 1 = 98" using LightningMessageLengths_nth(3) [of 1 2] by simp
  have pk: "ed_public toy_lib (pk_SigningKey sample_path_key) = toy_public [9]" "pk_ServerID sample_path_key = 0"
    by (simp_all add: sample_path_key_def toy_lib_def)
  have "room_for [NewMemReadWriter 98 4] 0 98"
    by (simp add: room_for_def filling_def NewMemReadWriter_def contents_def)
  then show ?thesis
    using t k pk len
    by (simp add: hop_ready_def hop_server_def sample_server_def sample_state_def NewOnionParser_def onion_inv_def out_bufs_def)
qed

theorem lightning_message_delivered_witness:
  "\<exists>env s' st' w0 w1. lightning_submission toy_lib sample_client (cl_PathKeys sample_client) [1, 2] = Inr env \<and>
     le_Marshal env = Inr w0 \<and> handleLightningMessage toy_lib hop_server w0 = (s', Inr ()) \<and>
     contents (sv_finalRouter s' ! 0) = [w1] \<and>
     HandleTrusteeMessage toy_lib hop_checkpoint w1 = (st', Inr ()) \<and> cp_FinalMessages st' = [[1, 2]]"
proof -
  note f = sample_client_fields
  have pk: "ed_public toy_lib (pk_SigningKey sample_path_key) = toy_public [9]" "pk_ServerID sample_path_key = 0"
    by (simp_all add: sample_path_key_def toy_lib_def)
  have rk: "cl_routingKey sample_client = ed_public toy_lib (pk_SigningKey (hd [sample_path_key]))" using f(5) pk by simp
  have ne: "[sample_path_key] \<noteq> []" by simp
  have cp: "vt_inv (cp_AnonymousSigningKeys hop_checkpoint)"
    "toy_public [9] \<in> vt_all (cp_AnonymousSigningKeys hop_checkpoint) - vt_used (cp_AnonymousSigningKeys hop_checkpoint)"
    by (simp_all add: hop_checkpoint_def vt_inv_def vt_all_def vt_used_def)
  from lightning_message_delivered [where 'fr = "1 word" and 'c = mock_chan, OF toy_lib_ok ne f(3,1,2) rk, of "[1, 2]"]
  show ?thesis
  proof (elim exE conjE, goal_cases)
    case (1 env wire)
    note w = 1(1,2)
    have "hop_ready toy_lib [sample_path_key] sample_path_key (cs_Round (cl_Common sample_client)) (length [1 :: byte, 2]) 0 hop_server"
      using hop_server_ready f(4) by (simp add: numeral_2_eq_2)
    with 1(3) [rule_format, of 0 hop_server] pk obtain s' where
      s': "handleLightningMessage toy_lib hop_server (wire 0) = (s', Inr ())"
        "contents (out_bufs s' 0 ! 0) = contents (out_bufs hop_server 0 ! 0) @ [wire 1]" by auto
    have "same_keys (fst (parse_onion toy_lib hop_server (cs_Layer (sv_CommonState hop_server)) (wire 0))) s'"
      using handleLightning_parse [of toy_lib hop_server "wire 0"] s'(1) by simp
    then have "sv_lastLayer s' = 0"
      using parse_onion_keeps(5) [of toy_lib hop_server "cs_Layer (sv_CommonState hop_server)" "wire 0"]
      by (cases "parse_onion toy_lib hop_server (cs_Layer (sv_CommonState hop_server)) (wire 0)")
        (simp add: same_keys_def hop_server_def sample_server_def)
    then have c: "contents (sv_finalRouter s' ! 0) = [wire 1]"
      using s'(2) by (simp add: out_bufs_def hop_server_def sample_server_def contents_def NewMemReadWriter_def)
    from 1(4) [rule_format, of hop_checkpoint] cp pk obtain st' where
      "HandleTrusteeMessage toy_lib hop_checkpoint (wire 1) = (st', Inr ())" "cp_FinalMessages st' = [[1, 2]]"
      by (auto simp: hop_checkpoint_def)
    with w s'(1) c show ?case by blast
  qed
qed

end
