(* ===== verification/Simulation.thy ===== *)
theory Simulation
  imports Randomness
begin

text \<open>
  The simulation of link loads, \<^verbatim>\<open>src/cmd/simulation/bin_sim.go\<close>: messages are thrown at random servers,
  layer by layer, and the largest number of messages on one link is reported. \<open>shake\<close>, \<open>rd\<close>, \<open>source\<close>
  and \<open>q\<close> are the generator and the randomness that \<^verbatim>\<open>config.NewPRGShuffler(rand.Reader)\<close> uses; counts
  are natural numbers (they are bounded by the number of messages, far below \<open>2 ^ 63\<close>). The butterfly
  network keeps its two tables in an explicit store, because the code makes them aliases. Plots and
  statistics of the results are not modelled.
\<close>

unbundle bit_operations_syntax

section \<open>One layer\<close>

text \<open>\<open>bins[nextServer][i] += 1\<close>, for as many messages as server \<open>i\<close> has.\<close>

definition bump :: "nat list list \<Rightarrow> nat \<Rightarrow> nat \<Rightarrow> nat list list res" where
  "bump bins a i =
     sbind (go_index bins a) (\<lambda>row. sbind (go_index row i) (\<lambda>c. Inr (bins[a := row[i := c + 1]])))"

fun throw_from :: "'r reader \<Rightarrow> nat \<Rightarrow> nat \<Rightarrow> nat \<Rightarrow> 'r shuffler \<Rightarrow> nat list list \<Rightarrow> (nat list list \<times> 'r shuffler) res" where
  "throw_from rd numServers i 0 r bins = Inr (bins, r)"
| "throw_from rd numServers i (Suc j) r bins =
     sbind (Intn rd r (int numServers)) (\<lambda>(nextServer, r).
     sbind (bump bins (nat nextServer) i) (\<lambda>bins.
     throw_from rd numServers i j r bins))"

fun throw_all :: "'r reader \<Rightarrow> nat \<Rightarrow> nat \<Rightarrow> nat list \<Rightarrow> 'r shuffler \<Rightarrow> nat list list \<Rightarrow> (nat list list \<times> 'r shuffler) res" where
  "throw_all rd numServers i [] r bins = Inr (bins, r)"
| "throw_all rd numServers i (c # cs) r bins =
     sbind (throw_from rd numServers i c r bins) (\<lambda>(bins, r). throw_all rd numServers (i + 1) cs r bins)"

text \<open>The largest entry and the sum of a row, and the same for all rows.\<close>

fun scan_row :: "nat \<Rightarrow> nat \<Rightarrow> nat list \<Rightarrow> nat \<times> nat" where
  "scan_row mx t [] = (mx, t)"
| "scan_row mx t (l # ls) = scan_row (if l > mx then l else mx) (t + l) ls"

fun scan_rows :: "nat \<Rightarrow> nat list list \<Rightarrow> nat \<times> nat list" where
  "scan_rows mx [] = (mx, [])"
| "scan_rows mx (row # rows) =
     (let (mx, t) = scan_row mx 0 row; (mx, ts) = scan_rows mx rows in (mx, t # ts))"

definition PlainShuffle ::
  "(bytes \<Rightarrow> 'r) \<Rightarrow> 'r reader \<Rightarrow> 'q reader \<Rightarrow> 'q \<Rightarrow> nat list \<Rightarrow> ((nat \<times> nat list) \<times> 'q) res" where
  "PlainShuffle shake rd source q initialConfig =
     (let numServers = length initialConfig;
          bins = replicate numServers (replicate numServers 0);
          (r, q) = NewPRGShuffler shake source q in
      sbind (throw_all rd numServers 0 initialConfig r bins) (\<lambda>(bins, r).
      Inr (scan_rows 0 bins, q)))"

text \<open>\<open>initialConfig[r.Intn(numServers)]++\<close>, also the loop of \<^verbatim>\<open>BinSimBase\<close>.\<close>

fun throw_flat :: "'r reader \<Rightarrow> nat \<Rightarrow> nat \<Rightarrow> 'r shuffler \<Rightarrow> nat list \<Rightarrow> (nat list \<times> 'r shuffler) res" where
  "throw_flat rd n 0 r counts = Inr (counts, r)"
| "throw_flat rd n (Suc i) r counts =
     sbind (Intn rd r (int n)) (\<lambda>(k, r).
     sbind (go_index counts (nat k)) (\<lambda>c. throw_flat rd n i r (counts[nat k := c + 1])))"

definition BinSimBase :: "(bytes \<Rightarrow> 'r) \<Rightarrow> 'r reader \<Rightarrow> 'q reader \<Rightarrow> 'q \<Rightarrow> nat \<Rightarrow> nat \<Rightarrow> nat res" where
  "BinSimBase shake rd source q numServers numMessages =
     (let numLinks = numServers * numServers; (r, q) = NewPRGShuffler shake source q in
      sbind (throw_flat rd numLinks numMessages r (replicate numLinks 0)) (\<lambda>(bins, r).
      Inr (fst (scan_row 0 0 bins))))"

section \<open>A shuffle in two dimensions\<close>

fun fill_mat :: "nat \<Rightarrow> nat list \<Rightarrow> nat \<Rightarrow> nat list list \<Rightarrow> nat list list res" where
  "fill_mat cols [] i mat = Inr mat"
| "fill_mat cols (x # xs) i mat =
     (if cols = 0 then Inl (Panic DivideByZero)
      else sbind (go_index mat (i div cols)) (\<lambda>row.
           sbind (go_store row (i mod cols) x) (\<lambda>row.
           fill_mat cols xs (i + 1) (mat[i div cols := row]))))"

fun read_mat :: "nat \<Rightarrow> nat list \<Rightarrow> nat list list \<Rightarrow> nat list res" where
  "read_mat cols [] mat = Inr []"
| "read_mat cols (i # is) mat =
     (if cols = 0 then Inl (Panic DivideByZero)
      else sbind (go_index mat (i div cols)) (\<lambda>row.
           sbind (go_index row (i mod cols)) (\<lambda>x.
           sbind (read_mat cols is mat) (\<lambda>xs. Inr (x # xs)))))"

fun shuffle_rows ::
  "(bytes \<Rightarrow> 'r) \<Rightarrow> 'r reader \<Rightarrow> 'q reader \<Rightarrow> 'q \<Rightarrow> nat \<Rightarrow> nat list list \<Rightarrow> ((nat \<times> nat list list) \<times> 'q) res" where
  "shuffle_rows shake rd source q mx [] = Inr ((mx, []), q)"
| "shuffle_rows shake rd source q mx (row # rows) =
     sbind (PlainShuffle shake rd source q row) (\<lambda>((c, row), q).
     sbind (shuffle_rows shake rd source q (if c > mx then c else mx) rows) (\<lambda>((mx, rows), q).
     Inr ((mx, row # rows), q)))"

fun column :: "nat list list \<Rightarrow> nat \<Rightarrow> nat list res" where
  "column [] j = Inr []"
| "column (row # rows) j = sbind (go_index row j) (\<lambda>x. sbind (column rows j) (\<lambda>xs. Inr (x # xs)))"

fun columns :: "nat list list \<Rightarrow> nat list \<Rightarrow> nat list list res" where
  "columns mat [] = Inr []"
| "columns mat (j # js) = sbind (column mat j) (\<lambda>c. sbind (columns mat js) (\<lambda>cs. Inr (c # cs)))"

definition transpose_mat :: "nat list list \<Rightarrow> nat list list res" where
  "transpose_mat mat = sbind (go_index mat 0) (\<lambda>row. columns mat [0..<length row])"

definition Dim2Shuffle ::
  "(bytes \<Rightarrow> 'r) \<Rightarrow> 'r reader \<Rightarrow> 'q reader \<Rightarrow> 'q \<Rightarrow> nat \<Rightarrow> nat \<Rightarrow> nat list \<Rightarrow> ((nat \<times> nat list) \<times> 'q) res" where
  "Dim2Shuffle shake rd source q rows cols initialConfig =
     sbind (fill_mat cols initialConfig 0 (replicate rows (replicate cols 0))) (\<lambda>mat.
     sbind (shuffle_rows shake rd source q 0 mat) (\<lambda>((mx, mat), q).
     sbind (transpose_mat mat) (\<lambda>tMat.
     sbind (shuffle_rows shake rd source q mx tMat) (\<lambda>((mx, tMat), q).
     sbind (transpose_mat tMat) (\<lambda>mat.
     sbind (read_mat cols [0..<length initialConfig] mat) (\<lambda>conf.
     Inr ((mx, conf), q)))))))"

section \<open>The butterfly network\<close>

text \<open>The store holds the tables by number; \<open>loc\<close> and \<open>nxt\<close> are the tables the variables \<^verbatim>\<open>locations\<close> and
  \<^verbatim>\<open>nextLocations\<close> refer to.\<close>

definition invertBit :: "nat \<Rightarrow> int \<Rightarrow> int" where
  "invertBit b num = num XOR to_int64 (push_bit b 1 mod 2 ^ 64)"

fun move_messages ::
  "'r reader \<Rightarrow> nat \<Rightarrow> nat \<Rightarrow> int \<Rightarrow> nat \<Rightarrow> 'r shuffler \<Rightarrow> nat list list list \<Rightarrow> (nat list list list \<times> 'r shuffler) res" where
  "move_messages rd nxt s goTo 0 r store = Inr (store, r)"
| "move_messages rd nxt s goTo (Suc m) r store =
     sbind (Intn rd r 2) (\<lambda>(stay, r).
     sbind (if stay = 0 then bump (store ! nxt) s 0
            else if goTo < 0 then Inl (Panic IndexOutOfRange) else bump (store ! nxt) (nat goTo) 1) (\<lambda>table.
     move_messages rd nxt s goTo m r (store[nxt := table])))"

fun butterfly_pass ::
  "'r reader \<Rightarrow> nat \<Rightarrow> nat \<Rightarrow> nat \<Rightarrow> nat list \<Rightarrow> 'r shuffler \<Rightarrow> nat list list list \<Rightarrow> (nat list list list \<times> 'r shuffler) res" where
  "butterfly_pass rd i loc nxt [] r store = Inr (store, r)"
| "butterfly_pass rd i loc nxt (s # ss) r store =
     (let goTo = invertBit i (int s); myMessages = store ! loc ! s ! 0 + store ! loc ! s ! 1 in
      sbind (move_messages rd nxt s goTo myMessages r store) (\<lambda>(store, r).
      butterfly_pass rd i loc nxt ss r store))"

text \<open>After a pass \<open>locations = nextLocations\<close>. The fresh table of the next line is assigned to a new
  variable of the loop body that only shadows \<^verbatim>\<open>nextLocations\<close>, so the next pass reads and writes one table.\<close>

fun butterfly_bits ::
  "'r reader \<Rightarrow> nat \<Rightarrow> nat list \<Rightarrow> nat \<Rightarrow> nat \<Rightarrow> nat \<Rightarrow> 'r shuffler \<Rightarrow> nat list list list \<Rightarrow> (nat \<times> nat \<times> nat list list list) res" where
  "butterfly_bits rd numServers [] loc nxt maxSeen r store = Inr (maxSeen, loc, store)"
| "butterfly_bits rd numServers (i # is) loc nxt maxSeen r store =
     sbind (butterfly_pass rd i loc nxt [0..<numServers] r store) (\<lambda>(store, r).
     let loc = nxt;
         maxSeen = foldl (\<lambda>mx l. let mx = (if l ! 0 > mx then l ! 0 else mx) in if l ! 1 > mx then l ! 1 else mx) maxSeen (store ! loc)
     in butterfly_bits rd numServers is loc nxt maxSeen r store)"

definition ApplyButterfly ::
  "(bytes \<Rightarrow> 'r) \<Rightarrow> 'r reader \<Rightarrow> 'q reader \<Rightarrow> 'q \<Rightarrow> nat \<Rightarrow> nat list \<Rightarrow> ((nat \<times> nat list) \<times> 'q) res" where
  "ApplyButterfly shake rd source q numBits initialConfig =
     (let numServers = length initialConfig;
          store = [map (\<lambda>c. [c, 0]) initialConfig, replicate numServers [0, 0]];
          (r, q) = NewPRGShuffler shake source q in
      sbind (butterfly_bits rd numServers [0..<numBits] 0 1 0 r store) (\<lambda>(maxSeen, loc, store).
      Inr ((maxSeen, map (\<lambda>l. l ! 0 + l ! 1) (store ! loc)), q)))"

section \<open>Many trials\<close>

definition one_layer ::
  "(bytes \<Rightarrow> 'r) \<Rightarrow> 'r reader \<Rightarrow> 'q reader \<Rightarrow> 'q \<Rightarrow> nat \<Rightarrow> nat \<Rightarrow> nat \<Rightarrow> nat list \<Rightarrow> ((nat \<times> nat list) \<times> 'q) res" where
  "one_layer shake rd source q numServers t param conf =
     (if t = 0 then PlainShuffle shake rd source q conf
      else if t = 1 then
        (if param = 0 then Inl (Panic DivideByZero)
         else Dim2Shuffle shake rd source q param (numServers div param) conf)
      else if t = 2 then ApplyButterfly shake rd source q param conf
      else Inl (Panic (PanicMessage ''Unrecognized type'')))"

fun trial_layers ::
  "(bytes \<Rightarrow> 'r) \<Rightarrow> 'r reader \<Rightarrow> 'q reader \<Rightarrow> 'q \<Rightarrow> nat \<Rightarrow> nat \<Rightarrow> nat \<Rightarrow> nat \<Rightarrow> nat \<Rightarrow> nat list \<Rightarrow> (nat \<times> 'q) res" where
  "trial_layers shake rd source q numServers t param 0 mx conf = Inr (mx, q)"
| "trial_layers shake rd source q numServers t param (Suc l) mx conf =
     sbind (one_layer shake rd source q numServers t param conf) (\<lambda>((m, conf), q).
     trial_layers shake rd source q numServers t param l (if m > mx then m else mx) conf)"

definition bin_trial ::
  "(bytes \<Rightarrow> 'r) \<Rightarrow> 'r reader \<Rightarrow> 'q reader \<Rightarrow> 'q \<Rightarrow> nat \<Rightarrow> nat \<Rightarrow> nat \<Rightarrow> nat \<Rightarrow> nat \<Rightarrow> (nat \<times> 'q) res" where
  "bin_trial shake rd source q numServers numMessages numLayers t param =
     (let (r, q) = NewPRGShuffler shake source q in
      sbind (throw_flat rd numServers numMessages r (replicate numServers 0)) (\<lambda>(conf, r).
      trial_layers shake rd source q numServers t param numLayers 0 conf))"

text \<open>The workers take the trials in turn; each trial writes only its own entry of the results.\<close>

fun BinSimMany ::
  "(bytes \<Rightarrow> 'r) \<Rightarrow> 'r reader \<Rightarrow> 'q reader \<Rightarrow> 'q \<Rightarrow> nat \<Rightarrow> nat \<Rightarrow> nat \<Rightarrow> nat \<Rightarrow> nat \<Rightarrow> nat \<Rightarrow> nat list res" where
  "BinSimMany shake rd source q numServers numMessages numLayers 0 t param = Inr []"
| "BinSimMany shake rd source q numServers numMessages numLayers (Suc k) t param =
     sbind (bin_trial shake rd source q numServers numMessages numLayers t param) (\<lambda>(m, q).
     sbind (BinSimMany shake rd source q numServers numMessages numLayers k t param) (\<lambda>ms. Inr (m # ms)))"

section \<open>Random numbers\<close>

lemma NewPRGShuffler_ok:
  assumes "reader_ok rd" "NewPRGShuffler shake source q = (r, q')"
  shows "shuffler_ok rd r"
  using assms by (auto simp: NewPRGShuffler_def shuffler_ok_def Let_def split: prod.splits)

lemma Intn_ok:
  assumes "shuffler_ok rd r" "0 < bound" "bound < 2 ^ 63"
  shows "\<exists>u r'. Intn rd r bound = Inr (u, r') \<and> 0 \<le> u \<and> u < bound \<and> shuffler_ok rd r'"
proof -
  obtain u r' where u: "UInt64 rd r = Inr (u, r')" "0 \<le> u" "shuffler_ok rd r'" using UInt64_ok [OF assms(1)] by blast
  have b: "bound mod 2 ^ 64 = bound" using assms(2,3) by (intro mod_pos_pos_trivial) simp_all
  have m: "0 \<le> u mod bound" "u mod bound < bound" using pos_mod_sign [OF assms(2)] pos_mod_bound [OF assms(2)] by simp_all
  have "u mod bound mod 2 ^ 64 = u mod bound" using m assms(3) by (intro mod_pos_pos_trivial) simp_all
  then have "to_int64 (u mod bound) = u mod bound" using to_int64_id [of "u mod bound"] m assms(3) by simp
  moreover have "Intn rd r bound = Inr (to_int64 (u mod bound), r')"
    using assms(2) by (simp only: Intn_def u(1) sbind_Inr case_prod_conv b Let_def) simp
  ultimately show ?thesis using m u(3) by auto
qed

section \<open>Tables of counts\<close>

definition table :: "nat \<Rightarrow> nat \<Rightarrow> nat list list \<Rightarrow> bool" where
  "table n m bins \<longleftrightarrow> length bins = n \<and> (\<forall>row \<in> set bins. length row = m)"

definition total :: "nat list list \<Rightarrow> nat" where
  "total bins = sum_list (map sum_list bins)"

lemma table_row: "table n m bins \<Longrightarrow> a < n \<Longrightarrow> length (bins ! a) = m"
  by (simp add: table_def)

lemma table_update: "table n m bins \<Longrightarrow> length row = m \<Longrightarrow> table n m (bins[a := row])"
  by (auto simp: table_def dest!: subsetD [OF set_update_subset_insert])

lemma bump_ok:
  assumes "table n m bins" "a < n" "i < m"
  shows "\<exists>b. bump bins a i = Inr b \<and> table n m b \<and> total b = total bins + 1"
proof -
  let ?row = "(bins ! a)[i := bins ! a ! i + 1]"
  have l: "a < length bins" "i < length (bins ! a)" using assms by (simp_all add: table_def)
  then have s: "sum_list ?row = sum_list (bins ! a) + 1" by (simp add: sum_list_update)
  have "sum_list (bins ! a) \<le> sum_list (map sum_list bins)" using l(1) by (intro member_le_sum_list) simp_all
  then have "total (bins[a := ?row]) = total bins + 1"
    using l(1) s by (simp add: total_def map_update sum_list_update)
  then show ?thesis using l table_update [OF assms(1)] table_row [OF assms(1,2)] by (simp add: bump_def go_index_ok)
qed

lemma scan_row_eq: "scan_row mx t ls = (foldl (\<lambda>m l. max m l) mx ls, t + sum_list ls)"
  by (induction mx t ls rule: scan_row.induct) (auto simp: max_def)

lemma scan_rows_eq: "scan_rows mx rows = (foldl (\<lambda>m l. max m l) mx (concat rows), map sum_list rows)"
  by (induction mx rows rule: scan_rows.induct) (simp_all add: scan_row_eq)

lemma foldl_max_upper: "foldl (\<lambda>m l. max m l) mx ls \<le> mx + sum_list (ls :: nat list)"
proof (induction ls arbitrary: mx)
  case (Cons l ls)
  have "foldl (\<lambda>m l. max m l) mx (l # ls) \<le> max mx l + sum_list ls" using Cons.IH [of "max mx l"] by simp
  also have "\<dots> \<le> mx + sum_list (l # ls)" by simp
  finally show ?case .
qed simp

lemma foldl_max_lower: "mx \<le> foldl (\<lambda>m l. max m l) mx ls \<and> (\<forall>l \<in> set ls. l \<le> foldl (\<lambda>m l. max m l) (mx :: nat) ls)"
proof (induction ls arbitrary: mx)
  case (Cons l ls)
  have "max mx l \<le> foldl (\<lambda>m l. max m l) (max mx l) ls" using Cons.IH [of "max mx l"] by blast
  then show ?case using Cons.IH [of "max mx l"] by simp
qed simp

lemma pigeonhole: "sum_list ls \<le> length ls * foldl (\<lambda>m l. max m l) (mx :: nat) ls"
  using sum_list_mono [of ls id "\<lambda>_. foldl (\<lambda>m l. max m l) mx ls"] foldl_max_lower [of mx ls]
  by (simp add: sum_list_triv)

lemma length_concat_table: "table n m bins \<Longrightarrow> length (concat bins) = n * m"
  by (induction bins arbitrary: n) (auto simp: table_def)

lemma sum_list_concat: "sum_list (concat bins) = total bins"
  by (induction bins) (simp_all add: total_def)

section \<open>Messages are conserved\<close>

lemma throw_from_ok:
  assumes "table n m bins" "i < m" "shuffler_ok rd r" "0 < n" "int n < 2 ^ 63"
  shows "\<exists>b r'. throw_from rd n i c r bins = Inr (b, r') \<and> table n m b \<and> total b = total bins + c \<and> shuffler_ok rd r'"
  using assms(1,3)
proof (induction c arbitrary: r bins)
  case 0
  then show ?case by simp
next
  case (Suc c)
  obtain u r1 where u: "Intn rd r (int n) = Inr (u, r1)" "0 \<le> u" "u < int n" "shuffler_ok rd r1"
    using Intn_ok [OF Suc.prems(2) _ assms(5)] assms(4) by auto
  have "nat u < n" using u(2,3) by linarith
  then obtain b where b: "bump bins (nat u) i = Inr b" "table n m b" "total b = total bins + 1"
    using bump_ok [OF Suc.prems(1) _ assms(2)] by blast
  from Suc.IH [OF b(2) u(4)] show ?case using u(1) b(1,3) by auto
qed

lemma throw_all_ok:
  assumes "table n m bins" "i + length cs \<le> m" "shuffler_ok rd r" "0 < n" "int n < 2 ^ 63"
  shows "\<exists>b r'. throw_all rd n i cs r bins = Inr (b, r') \<and> table n m b \<and> total b = total bins + sum_list cs"
  using assms(1-3)
proof (induction cs arbitrary: i r bins)
  case Nil
  then show ?case by simp
next
  case (Cons c cs)
  obtain b r1 where b: "throw_from rd n i c r bins = Inr (b, r1)" "table n m b" "total b = total bins + c" "shuffler_ok rd r1"
    using throw_from_ok [OF Cons.prems(1) _ Cons.prems(3) assms(4,5), of i c] Cons.prems(2) by auto
  have "(i + 1) + length cs \<le> m" using Cons.prems(2) by simp
  from Cons.IH [OF b(2) this b(4)] show ?case using b(1,3) by auto
qed

lemma PlainShuffle_ok:
  assumes "reader_ok rd" "int (length conf) < 2 ^ 63"
  shows "\<exists>mx conf' q'. PlainShuffle shake rd source q conf = Inr ((mx, conf'), q') \<and> length conf' = length conf \<and>
     sum_list conf' = sum_list conf \<and> mx \<le> sum_list conf \<and> sum_list conf \<le> length conf * length conf * mx"
proof -
  let ?n = "length conf"
  obtain r q' where r: "NewPRGShuffler shake source q = (r, q')" by fastforce
  have t: "table ?n ?n (replicate ?n (replicate ?n 0))" "total (replicate ?n (replicate ?n 0)) = 0"
    by (simp_all add: table_def total_def sum_list_replicate)
  have "\<exists>b r'. throw_all rd ?n 0 conf r (replicate ?n (replicate ?n 0)) = Inr (b, r') \<and> table ?n ?n b \<and> total b = sum_list conf"
  proof (cases "?n = 0")
    case True
    then show ?thesis by (simp add: table_def total_def)
  next
    case False
    then show ?thesis
      using throw_all_ok [OF t(1), of 0 conf rd r] NewPRGShuffler_ok [OF assms(1) r] assms(2) t(2) by simp
  qed
  then obtain b r' where b: "throw_all rd ?n 0 conf r (replicate ?n (replicate ?n 0)) = Inr (b, r')" "table ?n ?n b" "total b = sum_list conf"
    by blast
  have "length b = ?n" using b(2) by (simp add: table_def)
  moreover have "sum_list (map sum_list b) = sum_list conf" using b(3) by (simp add: total_def)
  moreover have "foldl (\<lambda>m l. max m l) 0 (concat b) \<le> sum_list conf"
    using foldl_max_upper [of 0 "concat b"] b(3) by (simp add: sum_list_concat)
  moreover have "sum_list conf \<le> ?n * ?n * foldl (\<lambda>m l. max m l) 0 (concat b)"
    using pigeonhole [of "concat b" 0] b(3) length_concat_table [OF b(2)] by (simp add: sum_list_concat)
  ultimately show ?thesis using r b(1) by (simp add: PlainShuffle_def scan_rows_eq Let_def)
qed

lemma throw_flat_ok:
  assumes "length counts = n" "shuffler_ok rd r" "0 < n" "int n < 2 ^ 63"
  shows "\<exists>cs r'. throw_flat rd n k r counts = Inr (cs, r') \<and> length cs = n \<and> sum_list cs = sum_list counts + k"
  using assms(1,2)
proof (induction k arbitrary: r counts)
  case 0
  then show ?case by simp
next
  case (Suc k)
  obtain u r1 where u: "Intn rd r (int n) = Inr (u, r1)" "0 \<le> u" "u < int n" "shuffler_ok rd r1"
    using Intn_ok [OF Suc.prems(2) _ assms(4)] assms(3) by auto
  have i: "nat u < length counts" using u(2,3) Suc.prems(1) by linarith
  then have "sum_list (counts[nat u := counts ! nat u + 1]) = sum_list counts + 1" by (simp add: sum_list_update)
  with Suc.IH [of "counts[nat u := counts ! nat u + 1]" r1] Suc.prems(1) u i show ?case
    by (auto simp: go_index_ok)
qed

lemma trial_layers_ok:
  assumes "reader_ok rd" "int (length conf) < 2 ^ 63" "mx \<le> sum_list conf"
  shows "\<exists>m q'. trial_layers shake rd source q n 0 param l mx conf = Inr (m, q') \<and> mx \<le> m \<and> m \<le> sum_list conf \<and>
     (0 < l \<longrightarrow> sum_list conf \<le> length conf * length conf * m)"
  using assms(2,3)
proof (induction l arbitrary: q mx conf)
  case 0
  then show ?case by simp
next
  case (Suc l)
  obtain m1 conf' q1 where p: "PlainShuffle shake rd source q conf = Inr ((m1, conf'), q1)" "length conf' = length conf"
    "sum_list conf' = sum_list conf" "m1 \<le> sum_list conf" "sum_list conf \<le> length conf * length conf * m1"
    using PlainShuffle_ok [OF assms(1) Suc.prems(1), of shake source q] by blast
  let ?mx = "if m1 > mx then m1 else mx"
  have c: "int (length conf') < 2 ^ 63" "?mx \<le> sum_list conf'" using Suc.prems p(2-4) by simp_all
  obtain m q' where m: "trial_layers shake rd source q1 n 0 param l ?mx conf' = Inr (m, q')" "?mx \<le> m" "m \<le> sum_list conf'"
    using Suc.IH [OF c(1,2), of q1] by blast
  have "m1 \<le> m" "mx \<le> m" using m(2) by (auto split: if_splits)
  moreover have "sum_list conf \<le> length conf * length conf * m"
    using p(5) \<open>m1 \<le> m\<close> by (meson le_trans mult_le_mono2)
  ultimately show ?case using m(1,3) p(1,3) by (simp add: one_layer_def)
qed

lemma bin_trial_ok:
  assumes "reader_ok rd" "0 < n" "int n < 2 ^ 63" "0 < layers"
  shows "\<exists>m q'. bin_trial shake rd source q n k layers 0 param = Inr (m, q') \<and> m \<le> k \<and> k \<le> n * n * m"
proof -
  obtain r q1 where r: "NewPRGShuffler shake source q = (r, q1)" by fastforce
  obtain cs r1 where cs: "throw_flat rd n k r (replicate n 0) = Inr (cs, r1)" "length cs = n" "sum_list cs = k"
    using throw_flat_ok [of "replicate n 0" n rd r k] NewPRGShuffler_ok [OF assms(1) r] assms(2,3)
    by (auto simp: sum_list_replicate)
  show ?thesis
    using trial_layers_ok [OF assms(1), of cs 0 shake source q1 n param layers] cs assms(3,4) r
    by (auto simp: bin_trial_def)
qed

section \<open>The butterfly network duplicates messages\<close>

definition at_server :: "nat list list \<Rightarrow> nat \<Rightarrow> nat" where
  "at_server T s = T ! s ! 0 + T ! s ! 1"

lemma pair_sum: "length row = 2 \<Longrightarrow> sum_list row = row ! 0 + row ! (1 :: nat)"
  by (auto simp: numeral_2_eq_2 length_Suc_conv)

lemma total_at_server: "table n 2 T \<Longrightarrow> total T = (\<Sum>s \<leftarrow> [0..<n]. at_server T s)"
proof -
  assume t: "table n 2 T"
  have "map sum_list T = map (at_server T) [0..<n]"
    using t by (intro nth_equalityI) (auto simp: table_def at_server_def pair_sum)
  then show ?thesis by (simp add: total_def)
qed

lemma bump_grows:
  assumes "bump T a i = Inr b"
  shows "at_server T s \<le> at_server b s"
  using assms by (auto simp: bump_def at_server_def nth_list_update list_update_beyond)

lemma move_messages_ok:
  assumes "table n 2 (store ! nxt)" "nxt < length store" "s < n" "0 \<le> goTo" "goTo < int n" "shuffler_ok rd r"
  shows "\<exists>b r'. move_messages rd nxt s goTo m r store = Inr (store[nxt := b], r') \<and> table n 2 b \<and>
     total b = total (store ! nxt) + m \<and> (\<forall>k. at_server (store ! nxt) k \<le> at_server b k) \<and> shuffler_ok rd r'"
  using assms(1,2,6)
proof (induction m arbitrary: r store)
  case 0
  then show ?case by (auto intro!: exI [of _ "store ! nxt"])
next
  case (Suc m)
  obtain u r1 where u: "Intn rd r 2 = Inr (u, r1)" "shuffler_ok rd r1" using Intn_ok [OF Suc.prems(3), of 2] by auto
  define a where "a = (if u = 0 then s else nat goTo)"
  define i where "i = (if u = 0 then 0 else 1 :: nat)"
  have "a < n" "i < 2" using assms(3-5) by (auto simp: a_def i_def)
  then obtain b where b: "bump (store ! nxt) a i = Inr b" "table n 2 b" "total b = total (store ! nxt) + 1"
    using bump_ok [OF Suc.prems(1)] by blast
  have step: "move_messages rd nxt s goTo (Suc m) r store = move_messages rd nxt s goTo m r1 (store[nxt := b])"
    using u(1) b(1) assms(4) by (cases "u = 0") (simp_all add: a_def i_def)
  obtain c r2 where c: "move_messages rd nxt s goTo m r1 (store[nxt := b]) = Inr (store[nxt := c], r2)" "table n 2 c"
    "total c = total b + m" "\<forall>k. at_server b k \<le> at_server c k" "shuffler_ok rd r2"
    using Suc.IH [of "store[nxt := b]" r1] b(2) u(2) Suc.prems(2) by auto
  have "\<forall>k. at_server (store ! nxt) k \<le> at_server c k"
    using bump_grows [OF b(1)] c(4) order_trans by blast
  then have "move_messages rd nxt s goTo (Suc m) r store = Inr (store[nxt := c], r2) \<and> table n 2 c \<and>
      total c = total (store ! nxt) + Suc m \<and> (\<forall>k. at_server (store ! nxt) k \<le> at_server c k) \<and> shuffler_ok rd r2"
    using c b(3) step by (simp del: move_messages.simps)
  then show ?case by blast
qed

lemma invertBit_range:
  assumes "i < numBits" "numBits \<le> 62" "s < 2 ^ numBits"
  shows "0 \<le> invertBit i (int s)" "invertBit i (int s) < 2 ^ numBits"
proof -
  have i: "i < 63" using assms by simp
  have "(2 :: int) ^ i < 2 ^ 63" using i by (intro power_strict_increasing) simp_all
  then have "to_int64 (2 ^ i mod 2 ^ 64) = (2 :: int) ^ i"
    by (intro to_int64_id) (simp_all add: order_trans [of _ 0])
  then have e: "invertBit i (int s) = int s XOR 2 ^ i" by (simp add: invertBit_def push_bit_eq_mult)
  have "(2 :: int) ^ i < 2 ^ numBits" using assms(1) by (intro power_strict_increasing) simp_all
  moreover have "int s < 2 ^ numBits" using assms(3) by (simp only: of_nat_less_numeral_power_cancel_iff)
  ultimately show "invertBit i (int s) < 2 ^ numBits" unfolding e by (intro XOR_upper) simp_all
  show "0 \<le> invertBit i (int s)" unfolding e by (intro XOR_lower) simp_all
qed

text \<open>A pass that writes to another table than it reads conserves the messages; a pass in place at least
  doubles them, since the messages that stay or arrive are added to those already there.\<close>

lemma butterfly_pass_separate:
  assumes "table n 2 B" "shuffler_ok rd r" "\<forall>s \<in> set ss. s < n \<and> 0 \<le> invertBit i (int s) \<and> invertBit i (int s) < int n"
  shows "\<exists>b r'. butterfly_pass rd i 0 1 ss r [A, B] = Inr ([A, b], r') \<and> table n 2 b \<and>
     total b = total B + (\<Sum>s \<leftarrow> ss. at_server A s) \<and> shuffler_ok rd r'"
  using assms
proof (induction ss arbitrary: r B)
  case Nil
  then show ?case by simp
next
  case (Cons s ss)
  obtain b r1 where b: "move_messages rd 1 s (invertBit i (int s)) (at_server A s) r [A, B] = Inr ([A, b], r1)"
    "table n 2 b" "total b = total B + at_server A s" "shuffler_ok rd r1"
    using move_messages_ok [of n "[A, B]" 1 s "invertBit i (int s)" rd r "at_server A s"] Cons.prems by auto
  from Cons.IH [OF b(2,4)] Cons.prems(3) show ?case using b(1,3) by (auto simp: at_server_def)
qed

lemma butterfly_pass_in_place:
  assumes "table n 2 B" "shuffler_ok rd r" "\<forall>s \<in> set ss. s < n \<and> 0 \<le> invertBit i (int s) \<and> invertBit i (int s) < int n"
  shows "\<exists>b r'. butterfly_pass rd i 1 1 ss r [A, B] = Inr ([A, b], r') \<and> table n 2 b \<and>
     total B + (\<Sum>s \<leftarrow> ss. at_server B s) \<le> total b \<and> shuffler_ok rd r'"
  using assms
proof (induction ss arbitrary: r B)
  case Nil
  then show ?case by simp
next
  case (Cons s ss)
  obtain b r1 where b: "move_messages rd 1 s (invertBit i (int s)) (at_server B s) r [A, B] = Inr ([A, b], r1)"
    "table n 2 b" "total b = total B + at_server B s" "\<forall>k. at_server B k \<le> at_server b k" "shuffler_ok rd r1"
    using move_messages_ok [of n "[A, B]" 1 s "invertBit i (int s)" rd r "at_server B s"] Cons.prems by auto
  have "(\<Sum>s \<leftarrow> ss. at_server B s) \<le> (\<Sum>s \<leftarrow> ss. at_server b s)" using b(4) by (intro sum_list_mono) simp
  moreover obtain c r2 where c: "butterfly_pass rd i 1 1 ss r1 [A, b] = Inr ([A, c], r2)" "table n 2 c"
    "total b + (\<Sum>s \<leftarrow> ss. at_server b s) \<le> total c" "shuffler_ok rd r2"
    using Cons.IH [OF b(2,5)] Cons.prems(3) by auto
  ultimately show ?case using b(1,3) by (simp add: at_server_def)
qed

lemma butterfly_bits_in_place:
  assumes "table n 2 B" "shuffler_ok rd r" "\<forall>i \<in> set is. \<forall>s < n. 0 \<le> invertBit i (int s) \<and> invertBit i (int s) < int n"
  shows "\<exists>mx' b. butterfly_bits rd n is 1 1 mx r [A, B] = Inr (mx', 1, [A, b]) \<and> table n 2 b \<and> 2 ^ length is * total B \<le> total b"
  using assms
proof (induction "is" arbitrary: r B mx)
  case Nil
  then show ?case by simp
next
  case (Cons i "is")
  obtain b r1 where b: "butterfly_pass rd i 1 1 [0..<n] r [A, B] = Inr ([A, b], r1)" "table n 2 b"
    "total B + (\<Sum>s \<leftarrow> [0..<n]. at_server B s) \<le> total b" "shuffler_ok rd r1"
    using butterfly_pass_in_place [OF Cons.prems(1,2), of "[0..<n]" i A] Cons.prems(3) by auto
  define mx1 where "mx1 = foldl (\<lambda>mx l. let mx = (if l ! 0 > mx then l ! 0 else mx) in if l ! 1 > mx then l ! 1 else mx) mx b"
  obtain mx' c where c: "butterfly_bits rd n is 1 1 mx1 r1 [A, b] = Inr (mx', 1, [A, c])" "table n 2 c" "2 ^ length is * total b \<le> total c"
    using Cons.IH [OF b(2,4), of mx1] Cons.prems(3) by auto
  have "2 * total B \<le> total b" using b(3) total_at_server [OF Cons.prems(1)] by simp
  then have "2 ^ length is * (2 * total B) \<le> total c" using c(3) by (meson le_trans mult_le_mono2)
  then show ?case using b(1) c(1,2) by (simp add: mx1_def Let_def mult.assoc mult.left_commute)
qed

section \<open>The two-dimensional shuffle conserves messages\<close>

lemma shuffle_rows_ok:
  assumes "reader_ok rd" "table n m mat" "int m < 2 ^ 63"
  shows "\<exists>mx' mat' q'. shuffle_rows shake rd source q mx mat = Inr ((mx', mat'), q') \<and> table n m mat' \<and> total mat' = total mat"
  using assms(2)
proof (induction mat arbitrary: q mx n)
  case Nil
  then show ?case by simp
next
  case (Cons row rows)
  have r: "length row = m" "table (n - 1) m rows" "0 < n" using Cons.prems by (auto simp: table_def)
  obtain c row' q1 where p: "PlainShuffle shake rd source q row = Inr ((c, row'), q1)" "length row' = m" "sum_list row' = sum_list row"
    using PlainShuffle_ok [OF assms(1), of row shake source q] assms(3) r(1) by auto
  obtain mx' rows' q' where s: "shuffle_rows shake rd source q1 (if c > mx then c else mx) rows = Inr ((mx', rows'), q')"
    "table (n - 1) m rows'" "total rows' = total rows"
    using Cons.IH [OF r(2), of q1 "if c > mx then c else mx"] by blast
  then show ?case using p r(3) by (simp add: table_def total_def)
qed

lemma column_ok: "table n m mat \<Longrightarrow> j < m \<Longrightarrow> column mat j = Inr (map (\<lambda>row. row ! j) mat)"
  by (induction mat arbitrary: n) (auto simp: table_def go_index_ok)

lemma columns_ok:
  "table n m mat \<Longrightarrow> \<forall>j \<in> set js. j < m \<Longrightarrow> columns mat js = Inr (map (\<lambda>j. map (\<lambda>row. row ! j) mat) js)"
  by (induction js) (simp_all add: column_ok)

lemma sum_columns: "table n m mat \<Longrightarrow> (\<Sum>j \<leftarrow> [0..<m]. \<Sum>row \<leftarrow> mat. row ! j) = total mat"
proof (induction mat arbitrary: n)
  case Nil
  then show ?case by (simp add: total_def)
next
  case (Cons row rows)
  then have "table (n - 1) m rows" "map ((!) row) [0..<m] = row" by (auto simp: table_def map_nth)
  then show ?case using Cons.IH by (simp add: sum_list_addf total_def)
qed

lemma transpose_mat_ok:
  assumes "table n m mat" "0 < n"
  shows "\<exists>t. transpose_mat mat = Inr t \<and> table m n t \<and> total t = total mat"
proof -
  let ?t = "map (\<lambda>j. map (\<lambda>row. row ! j) mat) [0..<m]"
  have "length (mat ! 0) = m" "length mat = n" using assms by (simp_all add: table_def)
  then have "transpose_mat mat = Inr ?t"
    using assms(2) columns_ok [OF assms(1), of "[0..<m]"] by (simp add: transpose_mat_def go_index_ok)
  moreover have "table m n ?t" using assms(1) by (auto simp: table_def)
  moreover have "total ?t = total mat" using sum_columns [OF assms(1)] by (simp add: total_def comp_def)
  ultimately show ?thesis by blast
qed

lemma fill_mat_ok:
  assumes "table n m mat" "0 < m" "i + length xs \<le> n * m"
    and "\<And>a b. a < n \<Longrightarrow> b < m \<Longrightarrow> i \<le> a * m + b \<Longrightarrow> mat ! a ! b = 0"
  shows "\<exists>mat'. fill_mat m xs i mat = Inr mat' \<and> table n m mat' \<and> total mat' = total mat + sum_list xs"
  using assms(1,3,4)
proof (induction xs arbitrary: i mat)
  case Nil
  then show ?case by simp
next
  case (Cons x xs)
  define a b where "a = i div m" and "b = i mod m"
  have ab: "a < n" "b < m" "i = a * m + b"
    using Cons.prems(2) assms(2) by (simp_all add: a_def b_def less_mult_imp_div_less)
  have l: "a < length mat" "length (mat ! a) = m" using Cons.prems(1) ab(1) by (simp_all add: table_def)
  let ?row = "(mat ! a)[b := x]"
  have "mat ! a ! b = 0" using Cons.prems(3) [OF ab(1,2)] ab(3) by simp
  then have r: "sum_list ?row = sum_list (mat ! a) + x" using ab(2) l by (simp add: sum_list_update)
  have "sum_list (mat ! a) \<le> sum_list (map sum_list mat)" using l(1) by (intro member_le_sum_list) simp_all
  then have t: "total (mat[a := ?row]) = total mat + x"
    using l(1) r by (simp add: total_def map_update sum_list_update)
  have z: "mat[a := ?row] ! a' ! b' = 0" if h: "a' < n" "b' < m" "i + 1 \<le> a' * m + b'" for a' b'
  proof (cases "a' = a \<and> b' = b")
    case True
    then show ?thesis using h(3) ab(3) by simp
  next
    case False
    then show ?thesis using Cons.prems(3) [OF h(1,2)] h(3) l by (cases "a' = a") auto
  qed
  have "table n m (mat[a := ?row])" by (rule table_update [OF Cons.prems(1)]) (use l in simp)
  moreover have "(i + 1) + length xs \<le> n * m" using Cons.prems(2) by simp
  ultimately obtain mat' where "fill_mat m xs (i + 1) (mat[a := ?row]) = Inr mat'" "table n m mat'"
    "total mat' = total (mat[a := ?row]) + sum_list xs"
    using Cons.IH [of "mat[a := ?row]" "i + 1"] z by blast
  moreover have "fill_mat m (x # xs) i mat = fill_mat m xs (i + 1) (mat[a := ?row])"
    using assms(2) l ab(2) by (simp add: a_def b_def go_index_ok go_store_def)
  ultimately show ?case using t by simp
qed

lemma read_mat_ok:
  assumes "table n m mat" "0 < m" "\<forall>i \<in> set is. i < n * m"
  shows "read_mat m is mat = Inr (map (\<lambda>i. mat ! (i div m) ! (i mod m)) is)"
  using assms by (induction "is") (simp_all add: table_def go_index_ok less_mult_imp_div_less)

lemma flat_mat:
  assumes "table n m mat" "0 < m"
  shows "map (\<lambda>i. mat ! (i div m) ! (i mod m)) [0..<n * m] = concat mat"
  using assms(1)
proof (induction mat arbitrary: n rule: rev_induct)
  case Nil
  then show ?case by (simp add: table_def)
next
  case (snoc row rows)
  define k where "k = n - 1"
  have n: "n = Suc k" "table k m rows" "length row = m" "length rows = k" using snoc.prems by (auto simp: table_def k_def)
  have "map (\<lambda>i. (rows @ [row]) ! (i div m) ! (i mod m)) [0..<k * m] = concat rows"
  proof -
    have "map (\<lambda>i. (rows @ [row]) ! (i div m) ! (i mod m)) [0..<k * m] = map (\<lambda>i. rows ! (i div m) ! (i mod m)) [0..<k * m]"
      using n(4) by (intro map_cong [OF refl]) (simp add: nth_append less_mult_imp_div_less)
    then show ?thesis using snoc.IH [OF n(2)] by simp
  qed
  moreover have "map (\<lambda>i. (rows @ [row]) ! (i div m) ! (i mod m)) [k * m..<k * m + m] = row"
    using n(3,4) assms(2) by (intro nth_equalityI) (simp_all add: nth_append)
  moreover have "[0..<n * m] = [0..<k * m] @ [k * m..<k * m + m]"
    using upt_add_eq_append [of 0 "k * m" m] n(1) by (simp add: add.commute)
  ultimately show ?case by simp
qed

lemma Dim2Shuffle_ok:
  assumes "reader_ok rd" "length conf = rows * cols" "0 < rows" "0 < cols" "int rows < 2 ^ 63" "int cols < 2 ^ 63"
  shows "\<exists>mx conf' q'. Dim2Shuffle shake rd source q rows cols conf = Inr ((mx, conf'), q') \<and>
     length conf' = length conf \<and> sum_list conf' = sum_list conf"
proof -
  have "table rows cols (replicate rows (replicate cols 0))" by (simp add: table_def)
  then obtain m0 where m0: "fill_mat cols conf 0 (replicate rows (replicate cols 0)) = Inr m0" "table rows cols m0" "total m0 = sum_list conf"
    using fill_mat_ok [of rows cols "replicate rows (replicate cols 0)" 0 conf] assms(2,4)
    by (auto simp: total_def sum_list_replicate)
  obtain mx1 m1 q1 where m1: "shuffle_rows shake rd source q 0 m0 = Inr ((mx1, m1), q1)" "table rows cols m1" "total m1 = total m0"
    using shuffle_rows_ok [OF assms(1) m0(2) assms(6), of shake source q 0] by blast
  obtain t where t: "transpose_mat m1 = Inr t" "table cols rows t" "total t = total m1"
    using transpose_mat_ok [OF m1(2) assms(3)] by blast
  obtain mx2 m2 q2 where m2: "shuffle_rows shake rd source q1 mx1 t = Inr ((mx2, m2), q2)" "table cols rows m2" "total m2 = total t"
    using shuffle_rows_ok [OF assms(1) t(2) assms(5), of shake source q1 mx1] by blast
  obtain m3 where m3: "transpose_mat m2 = Inr m3" "table rows cols m3" "total m3 = total m2"
    using transpose_mat_ok [OF m2(2) assms(4)] by blast
  have "read_mat cols [0..<length conf] m3 = Inr (concat m3)"
    using read_mat_ok [OF m3(2) assms(4), of "[0..<rows * cols]"] flat_mat [OF m3(2) assms(4)] assms(2) by simp
  moreover have "length (concat m3) = length conf" using length_concat_table [OF m3(2)] assms(2) by simp
  moreover have "sum_list (concat m3) = sum_list conf" using m0(3) m1(3) t(3) m2(3) m3(3) by (simp add: sum_list_concat)
  ultimately show ?thesis using m0(1) m1(1) t(1) m2(1) m3(1) by (simp add: Dim2Shuffle_def)
qed

section \<open>Properties\<close>

text \<open>The reported load is sound: with plain shuffling the simulation returns one number per trial, and each
  is at most the number of messages and at least the average load of a link, for every random stream.\<close>

theorem simulated_load_bounds:
  assumes "reader_ok rd" and "0 < numServers" and "int numServers < 2 ^ 63" and "0 < numLayers"
  shows "\<exists>ms. BinSimMany shake rd source q numServers numMessages numLayers numTrials 0 param = Inr ms \<and>
     length ms = numTrials \<and> (\<forall>m \<in> set ms. m \<le> numMessages \<and> numMessages \<le> numServers * numServers * m)"
proof (induction numTrials arbitrary: q)
  case 0
  then show ?case by simp
next
  case (Suc k)
  obtain m q1 where m: "bin_trial shake rd source q numServers numMessages numLayers 0 param = Inr (m, q1)"
    "m \<le> numMessages" "numMessages \<le> numServers * numServers * m"
    using bin_trial_ok [OF assms, of shake source q numMessages param] by blast
  then show ?case using Suc.IH [of q1] by auto
qed

text \<open>Shuffles move messages and neither lose nor create any: for a configuration that fills the matrix, a
  shuffle of rows and columns returns and leaves the number of servers and of messages unchanged, like the plain one.\<close>

theorem shuffles_conserve_messages:
  assumes "reader_ok rd" and "length conf = rows * cols" and "0 < rows" and "0 < cols" and "int (rows * cols) < 2 ^ 63"
  shows "(\<exists>mx conf' q'. PlainShuffle shake rd source q conf = Inr ((mx, conf'), q') \<and>
       length conf' = length conf \<and> sum_list conf' = sum_list conf) \<and>
     (\<exists>mx conf' q'. Dim2Shuffle shake rd source q rows cols conf = Inr ((mx, conf'), q') \<and>
       length conf' = length conf \<and> sum_list conf' = sum_list conf)"
proof -
  have "rows \<le> rows * cols" "cols \<le> rows * cols" using assms(3,4) by simp_all
  then have b: "int rows < 2 ^ 63" "int cols < 2 ^ 63" using assms(5) by linarith+
  have "int (length conf) < 2 ^ 63" using assms(2,5) by simp
  from PlainShuffle_ok [OF assms(1) this, of shake source q] Dim2Shuffle_ok [OF assms(1-4) b, of shake source q]
  show ?thesis by blast
qed

text \<open>The butterfly network creates messages: on \<open>2 ^ numBits\<close> servers the first pass conserves the messages, and
  because the table of the next pass is shadowed, each further pass at least doubles their number.\<close>

theorem butterfly_duplicates_messages:
  assumes "reader_ok rd" and "length conf = 2 ^ numBits" and "1 \<le> numBits" and "numBits \<le> 62"
  shows "\<exists>mx conf' q'. ApplyButterfly shake rd source q numBits conf = Inr ((mx, conf'), q') \<and> length conf' = length conf \<and>
     2 ^ (numBits - 1) * sum_list conf \<le> sum_list conf'"
proof -
  let ?n = "length conf"
  obtain r q' where r: "NewPRGShuffler shake source q = (r, q')" by fastforce
  obtain k where k: "numBits = Suc k" using assms(3) by (cases numBits) auto
  have n: "int ?n = 2 ^ numBits" using assms(2) by simp
  have range: "\<forall>s < ?n. 0 \<le> invertBit i (int s) \<and> invertBit i (int s) < int ?n" if "i < numBits" for i
    unfolding n using invertBit_range [OF that assms(4)] assms(2) by auto
  let ?A = "map (\<lambda>c. [c, 0]) conf" and ?B = "replicate ?n [0, 0 :: nat]"
  have t: "table ?n 2 ?B" "total ?B = 0" "table ?n 2 ?A" "total ?A = sum_list conf"
    by (simp_all add: table_def total_def sum_list_replicate comp_def)
  obtain b r1 where b: "butterfly_pass rd 0 0 1 [0..<?n] r [?A, ?B] = Inr ([?A, b], r1)" "table ?n 2 b"
    "total b = sum_list conf" "shuffler_ok rd r1"
    using butterfly_pass_separate [OF t(1) NewPRGShuffler_ok [OF assms(1) r], of "[0..<?n]" 0 ?A] range [of 0] k
      t(2,4) total_at_server [OF t(3)] by auto
  define mx1 where "mx1 = foldl (\<lambda>mx l. let mx = (if l ! 0 > mx then l ! 0 else mx) in if l ! 1 > mx then l ! 1 else mx) 0 b"
  obtain mx' c where c: "butterfly_bits rd ?n [1..<numBits] 1 1 mx1 r1 [?A, b] = Inr (mx', 1, [?A, c])" "table ?n 2 c"
    "2 ^ length [1..<numBits] * total b \<le> total c"
    using butterfly_bits_in_place [OF b(2,4), of "[1..<numBits]" mx1 ?A] range by auto
  have l: "[0..<numBits] = 0 # [1..<numBits]" using k by (simp add: upt_conv_Cons)
  have "butterfly_bits rd ?n [0..<numBits] 0 1 0 r [?A, ?B] = Inr (mx', 1, [?A, c])"
    unfolding l using b(1) c(1) by (simp add: mx1_def Let_def)
  then have "ApplyButterfly shake rd source q numBits conf = Inr ((mx', map (\<lambda>l. l ! 0 + l ! 1) c), q')"
    using r by (simp add: ApplyButterfly_def Let_def)
  moreover have "map (\<lambda>l. l ! 0 + l ! 1) c = map sum_list c"
    using c(2) by (intro map_cong [OF refl]) (simp add: table_def pair_sum)
  ultimately have "ApplyButterfly shake rd source q numBits conf = Inr ((mx', map sum_list c), q')" by (simp only:)
  then show ?thesis using c(2,3) b(3) by (simp add: table_def total_def)
qed

theorem simulated_load_bounds_witness:
  "\<exists>ms. BinSimMany (\<lambda>_. 0) zero_reader zero_reader 0 3 10 2 5 0 0 = Inr ms \<and> (\<forall>m \<in> set ms. m \<le> 10 \<and> 10 \<le> 3 * 3 * m)"
  using simulated_load_bounds [OF zero_reader_ok, of 3 2 "\<lambda>_. 0" zero_reader 0 10 5 0] by auto

theorem shuffles_conserve_messages_witness:
  "\<exists>mx conf' q'. Dim2Shuffle (\<lambda>_. 0) zero_reader zero_reader 0 2 2 [3, 0, 1, 5] = Inr ((mx, conf'), q') \<and> sum_list conf' = 9"
  using shuffles_conserve_messages [OF zero_reader_ok, of "[3, 0, 1, 5]" 2 2 "\<lambda>_. 0" zero_reader 0] by auto

theorem butterfly_duplicates_messages_witness:
  "\<exists>mx conf' q'. ApplyButterfly (\<lambda>_. 0) zero_reader zero_reader 0 2 [3, 0, 1, 5] = Inr ((mx, conf'), q') \<and> 18 \<le> sum_list conf'"
  using butterfly_duplicates_messages [OF zero_reader_ok, of "[3, 0, 1, 5]" 2 "\<lambda>_. 0" zero_reader 0] by auto

end
