(* ===== verification/Nizk.thy ===== *)
theory Nizk
  imports Curve
begin

text \<open>
  The non-interactive proofs of \<^verbatim>\<open>src/crypto/nizk\<close>: equality of discrete logarithms over P-256 (\<^verbatim>\<open>dleq.go\<close>) and
  knowledge of a discrete logarithm over a kyber suite (\<^verbatim>\<open>dl.go\<close>), and the encoding of the former
  (\<^verbatim>\<open>marshalling.go\<close>). The source of randomness is a reader argument; \<open>None\<close> is a run that never draws a
  scalar. The group laws are hypotheses on the record of the curve and on the record of the suite. The
  encoding uses a constant \<^verbatim>\<open>crypto.HASH_SIZE\<close> that package \<^verbatim>\<open>crypto\<close> does not define; it is the argument \<open>hsize\<close>.
\<close>

section \<open>Equality of discrete logarithms\<close>

record dleq_proof =
  dq_R :: scalar_element
  dq_C :: scalar_element
  dq_Hash :: bytes

text \<open>\<^verbatim>\<open>Copy\<close> drops the error of \<^verbatim>\<open>NewPoint\<close> and gives a nil pointer for a point that is not on the curve.\<close>

definition point_Copy :: "curve \<Rightarrow> point \<Rightarrow> point option" where
  "point_Copy C p = (case NewPoint C (pt_X p) (pt_Y p) of Inl _ \<Rightarrow> None | Inr q \<Rightarrow> Some q)"

definition copy_mult :: "curve \<Rightarrow> point \<Rightarrow> scalar_element \<Rightarrow> point res" where
  "copy_mult C p s = sbind (of_option (Panic NilDereference) (point_Copy C p)) (\<lambda>q. Inr (point_ScalarMult C q [s]))"

definition transcript :: "('s, 'p) lib \<Rightarrow> curve \<Rightarrow> point list \<Rightarrow> bytes" where
  "transcript L C ps = sha256 L (concat (map (point_Marshal C) ps))"

text \<open>The proof for the commitment scalar \<open>s\<close>.\<close>

definition proof_for ::
  "('s, 'p) lib \<Rightarrow> curve \<Rightarrow> scalar_element \<Rightarrow> point \<Rightarrow> point \<Rightarrow> point \<Rightarrow> point \<Rightarrow> scalar_element \<Rightarrow> dleq_proof res" where
  "proof_for L C s G H M Z x =
     sbind (copy_mult C G s) (\<lambda>A.
     sbind (copy_mult C M s) (\<lambda>B.
       let cBytes = transcript L C [G, H, M, Z, A, B];
           c = get_be cBytes mod CURVE_MOD;
           r = (- c * x + s) mod CURVE_MOD
       in Inr \<lparr>dq_R = r, dq_C = c, dq_Hash = cBytes\<rparr>))"

definition NewProof ::
  "('s, 'p) lib \<Rightarrow> curve \<Rightarrow> 'r reader \<Rightarrow> 'r \<Rightarrow> point \<Rightarrow> point \<Rightarrow> point \<Rightarrow> point \<Rightarrow> scalar_element \<Rightarrow> dleq_proof res option" where
  "NewProof L C rd r G H M Z x =
     (case ec_RandomCurveScalar rd r of
        None \<Rightarrow> None
      | Some (s, r') \<Rightarrow> Some (proof_for L C s G H M Z x))"

definition dleq_Verify :: "('s, 'p) lib \<Rightarrow> curve \<Rightarrow> dleq_proof \<Rightarrow> point \<Rightarrow> point \<Rightarrow> point \<Rightarrow> point \<Rightarrow> bool res" where
  "dleq_Verify L C pr G H M Z =
     sbind (copy_mult C H (dq_C pr)) (\<lambda>cH.
     sbind (copy_mult C G (dq_R pr)) (\<lambda>rG.
     sbind (copy_mult C Z (dq_C pr)) (\<lambda>cZ.
     sbind (copy_mult C M (dq_R pr)) (\<lambda>rM.
       let A = point_Accumulate C cH [rG]; B = point_Accumulate C cZ [rM]
       in Inr (dq_Hash pr = transcript L C [G, H, M, Z, A, B])))))"

text \<open>The encoding: the hash and the response. The challenge is read back from the hash, not reduced.\<close>

definition dleq_Len :: "nat \<Rightarrow> nat" where
  "dleq_Len hsize = ScalarElementSize + hsize"

definition dleq_PackTo :: "nat \<Rightarrow> dleq_proof \<Rightarrow> bytes \<Rightarrow> bytes res" where
  "dleq_PackTo hsize d b =
     (if length b \<noteq> dleq_Len hsize then Inl (Panic (PanicError LengthInvalidError))
      else let h = copy_at (take hsize b) 0 (dq_Hash d) in
        sbind (ec_PackTo (dq_R d) (drop hsize b)) (\<lambda>r. Inr (h @ r)))"

definition dleq_InterpretFrom :: "nat \<Rightarrow> bytes \<Rightarrow> dleq_proof res" where
  "dleq_InterpretFrom hsize b =
     (if length b \<noteq> dleq_Len hsize then Inl (Err LengthInvalidError)
      else sbind (ec_InterpretFrom (drop hsize b)) (\<lambda>r.
        Inr \<lparr>dq_R = r, dq_C = get_be (take hsize b), dq_Hash = take hsize b\<rparr>))"

section \<open>Knowledge of a discrete logarithm\<close>

record ('k, 'e) suite =
  su_add :: "'k \<Rightarrow> 'k \<Rightarrow> 'k"
  su_mul :: "'k \<Rightarrow> 'k \<Rightarrow> 'k"
  su_base :: "'k \<Rightarrow> 'e"
  su_pmul :: "'k \<Rightarrow> 'e \<Rightarrow> 'e"
  su_padd :: "'e \<Rightarrow> 'e \<Rightarrow> 'e"
  su_marshal :: "'e \<Rightarrow> bytes"
  su_hash :: "bytes \<Rightarrow> bytes"
  su_pick :: "bytes \<Rightarrow> 'k"

record ('k, 'e) dl_proof =
  dl_Value :: 'e
  dl_V :: 'k
  dl_Hash :: bytes

definition dl_hash :: "('k, 'e) suite \<Rightarrow> 'e \<Rightarrow> 'e \<Rightarrow> bytes" where
  "dl_hash S v commit = su_hash S (su_marshal S v @ su_marshal S commit)"

definition NewDL :: "('k, 'e) suite \<Rightarrow> 'k \<Rightarrow> 'k \<Rightarrow> 'e \<Rightarrow> ('k, 'e) dl_proof" where
  "NewDL S r witness v =
     (let commit = su_base S r; h = dl_hash S v commit; c = su_pick S h; w = su_mul S c witness
      in \<lparr>dl_Value = v, dl_V = su_add S w r, dl_Hash = h\<rparr>)"

definition dl_Verify :: "('k, 'e) suite \<Rightarrow> ('k, 'e) dl_proof \<Rightarrow> bool" where
  "dl_Verify S p =
     (let c = su_pick S (dl_Hash p); commit = su_padd S (su_base S (dl_V p)) (su_pmul S c (dl_Value p))
      in dl_hash S (dl_Value p) commit = dl_Hash p)"

section \<open>Group laws\<close>

definition curve_mult :: "curve \<Rightarrow> point \<Rightarrow> int \<Rightarrow> point" where
  "curve_mult C p k = cv_ScalarMult C p (big_bytes k)"

text \<open>Documented behaviour of the curve: multiples of a point form a group of order \<^term>\<open>CURVE_MOD\<close>; those by a
  scalar that is not zero are points of the curve.\<close>

definition curve_group_ok :: "curve \<Rightarrow> bool" where
  "curve_group_ok C \<longleftrightarrow> (\<forall>p. cv_IsOnCurve C p \<longrightarrow>
     (\<forall>k l. 0 \<le> k \<longrightarrow> 0 \<le> l \<longrightarrow>
        cv_Add C (curve_mult C p k) (curve_mult C p l) = curve_mult C p ((k + l) mod CURVE_MOD) \<and>
        curve_mult C (curve_mult C p k) l = curve_mult C p (k * l mod CURVE_MOD)) \<and>
     (\<forall>k. 0 < k \<longrightarrow> k < CURVE_MOD \<longrightarrow> cv_IsOnCurve C (curve_mult C p k)))"

definition suite_ok :: "('k, 'e) suite \<Rightarrow> bool" where
  "suite_ok S \<longleftrightarrow> (\<forall>a b. su_padd S (su_base S a) (su_base S b) = su_base S (su_add S a b)) \<and>
     (\<forall>a b. su_pmul S a (su_base S b) = su_base S (su_mul S a b)) \<and>
     (\<forall>a b c. su_add S (su_add S a b) c = su_add S a (su_add S b c)) \<and> (\<forall>a b. su_add S a b = su_add S b a)"

lemma copy_mult_ok: "cv_IsOnCurve C p \<Longrightarrow> copy_mult C p s = Inr (curve_mult C p s)"
  by (cases p) (simp add: copy_mult_def point_Copy_def NewPoint_def point_ScalarMult_def curve_mult_def)

text \<open>The verifier recomputes the commitment of the prover.\<close>

lemma recompute_commitment:
  assumes "curve_group_ok C" "cv_IsOnCurve C p" "0 \<le> c" "0 < x" "0 \<le> s" "s < CURVE_MOD" "0 < CURVE_MOD"
  shows "cv_Add C (curve_mult C (curve_mult C p x) c) (curve_mult C p ((- c * x + s) mod CURVE_MOD)) = curve_mult C p s"
proof -
  note g = assms(1) [unfolded curve_group_ok_def, rule_format, OF assms(2)]
  have nn: "0 \<le> x * c mod CURVE_MOD" "0 \<le> (- c * x + s) mod CURVE_MOD" using assms(7) by simp_all
  have "curve_mult C (curve_mult C p x) c = curve_mult C p (x * c mod CURVE_MOD)" using g assms(3,4) by simp
  then have "cv_Add C (curve_mult C (curve_mult C p x) c) (curve_mult C p ((- c * x + s) mod CURVE_MOD)) =
      curve_mult C p ((x * c mod CURVE_MOD + (- c * x + s) mod CURVE_MOD) mod CURVE_MOD)" using g nn by simp
  also have "(x * c mod CURVE_MOD + (- c * x + s) mod CURVE_MOD) mod CURVE_MOD = (x * c + (- c * x + s)) mod CURVE_MOD"
    by (rule mod_add_eq)
  also have "x * c + (- c * x + s) = s" by (simp add: mult.commute)
  also have "s mod CURVE_MOD = s" using assms(5,6) by (rule mod_pos_pos_trivial)
  finally show ?thesis .
qed

section \<open>Properties\<close>

text \<open>What makes a proof verify: a hash that is the transcript of the commitments of \<open>s\<close>, and a response that
  belongs to the challenge \<open>c\<close>, which need not be reduced.\<close>

lemma dleq_Verify_ok:
  assumes "curve_group_ok C" and "cv_IsOnCurve C G" and "cv_IsOnCurve C M" and "0 < x" and "x < CURVE_MOD" and "scalar_range s"
    and "0 \<le> dq_C pr" and "dq_R pr = (- dq_C pr * x + s) mod CURVE_MOD"
    and "dq_Hash pr = transcript L C [G, curve_mult C G x, M, curve_mult C M x, curve_mult C G s, curve_mult C M s]"
  shows "dleq_Verify L C pr G (curve_mult C G x) M (curve_mult C M x) = Inr True"
proof -
  have on: "cv_IsOnCurve C (curve_mult C G x)" "cv_IsOnCurve C (curve_mult C M x)"
    using assms(1-5) by (auto simp: curve_group_ok_def)
  have s: "0 \<le> s" "s < CURVE_MOD" using assms(6) by (simp_all add: scalar_range_def)
  note r = recompute_commitment [OF assms(1,2,7,4) s CURVE_MOD_pos] recompute_commitment [OF assms(1,3,7,4) s CURVE_MOD_pos]
  show ?thesis
    using r by (simp add: dleq_Verify_def copy_mult_ok [OF on(1)] copy_mult_ok [OF on(2)] copy_mult_ok [OF assms(2)]
        copy_mult_ok [OF assms(3)] point_Accumulate_def assms(8,9))
qed

lemma dleq_PackTo_ok:
  assumes "length (dq_Hash pr) = hsize" and "scalar_range (dq_R pr)"
  shows "\<exists>b. dleq_PackTo hsize pr (zeros (dleq_Len hsize)) = Inr b \<and>
     dleq_InterpretFrom hsize b = Inr \<lparr>dq_R = dq_R pr, dq_C = get_be (dq_Hash pr), dq_Hash = dq_Hash pr\<rparr>"
proof -
  have z: "zeros (dleq_Len hsize) = zeros hsize @ zeros ScalarElementSize"
    by (simp add: dleq_Len_def zeros_def replicate_add [symmetric] add.commute)
  obtain r where r: "ec_PackTo (dq_R pr) (zeros ScalarElementSize) = Inr r" "ec_InterpretFrom r = Inr (dq_R pr)"
    using ec_marshal_roundtrip [OF assms(2)] by (cases "ec_PackTo (dq_R pr) (zeros ScalarElementSize)") (auto simp: ec_Marshal_def)
  have len: "length r = ScalarElementSize" using r(2) by (auto simp: ec_InterpretFrom_def split: if_splits)
  have "copy_at (zeros hsize) 0 (dq_Hash pr) = dq_Hash pr" using assms(1) by (simp add: copy_at_exact zeros_def)
  then have "dleq_PackTo hsize pr (zeros (dleq_Len hsize)) = Inr (dq_Hash pr @ r)"
    unfolding z using r(1) by (simp add: dleq_PackTo_def dleq_Len_def zeros_def)
  moreover have "dleq_InterpretFrom hsize (dq_Hash pr @ r) = Inr \<lparr>dq_R = dq_R pr, dq_C = get_be (dq_Hash pr), dq_Hash = dq_Hash pr\<rparr>"
    using assms(1) len r(2) by (simp add: dleq_InterpretFrom_def dleq_Len_def)
  ultimately show ?thesis by blast
qed

text \<open>C34. Honest proofs of equality are accepted: for generators \<open>G\<close> and \<open>M\<close> on the curve and a secret \<open>x\<close> other
  than zero, the proof for \<open>x G\<close> and \<open>x M\<close> is made without a panic whenever the source yields a scalar, it
  verifies, and so does the proof that is read back from its encoding, whose challenge is not reduced.\<close>

theorem dleq_proof_verifies:
  assumes "curve_group_ok C" and "cv_IsOnCurve C G" and "cv_IsOnCurve C M"
    and "0 < x" and "x < CURVE_MOD" and "ec_RandomCurveScalar rd r = Some (s, r')" and "\<And>b. length (sha256 L b) = hsize"
  shows "\<exists>pr b pr'. NewProof L C rd r G (curve_mult C G x) M (curve_mult C M x) x = Some (Inr pr) \<and>
     dleq_Verify L C pr G (curve_mult C G x) M (curve_mult C M x) = Inr True \<and>
     dleq_PackTo hsize pr (zeros (dleq_Len hsize)) = Inr b \<and> dleq_InterpretFrom hsize b = Inr pr' \<and>
     dleq_Verify L C pr' G (curve_mult C G x) M (curve_mult C M x) = Inr True"
proof -
  have s: "scalar_range s" using assms(6) by (rule ec_RandomCurveScalar_range)
  define h where "h = transcript L C [G, curve_mult C G x, M, curve_mult C M x, curve_mult C G s, curve_mult C M s]"
  define c where "c = get_be h mod CURVE_MOD"
  define pr where "pr = \<lparr>dq_R = (- c * x + s) mod CURVE_MOD, dq_C = c, dq_Hash = h\<rparr>"
  define pr' where "pr' = \<lparr>dq_R = dq_R pr, dq_C = get_be (dq_Hash pr), dq_Hash = dq_Hash pr\<rparr>"
  have new: "NewProof L C rd r G (curve_mult C G x) M (curve_mult C M x) x = Some (Inr pr)"
    using copy_mult_ok [OF assms(2), of s] copy_mult_ok [OF assms(3), of s] assms(6)
    by (simp add: NewProof_def proof_for_def Let_def h_def c_def pr_def)
  note ok = dleq_Verify_ok [OF assms(1-5) s]
  have v: "dleq_Verify L C pr G (curve_mult C G x) M (curve_mult C M x) = Inr True"
    by (rule ok) (simp_all add: pr_def h_def c_def)
  have "(- c * x + s) mod CURVE_MOD = (- get_be h * x + s) mod CURVE_MOD" 
    unfolding c_def by (metis (no_types, opaque_lifting) mod_add_left_eq mod_minus_eq mod_mult_left_eq mult_minus_left)
  then have v': "dleq_Verify L C pr' G (curve_mult C G x) M (curve_mult C M x) = Inr True"
    by (intro ok) (simp_all add: pr'_def pr_def h_def get_be_nonneg)
  obtain b where "dleq_PackTo hsize pr (zeros (dleq_Len hsize)) = Inr b" "dleq_InterpretFrom hsize b = Inr pr'"
    using dleq_PackTo_ok [of pr hsize] assms(7) unfolding pr'_def
    by (auto simp: pr_def h_def transcript_def scalar_range_def)
  with new v v' show ?thesis by blast
qed

text \<open>C40. Honest proofs of knowledge are rejected: \<^verbatim>\<open>NewDL\<close> answers with \<open>cx + r\<close>, and \<^verbatim>\<open>Verify\<close> recomputes the
  commitment to \<open>2cx + r\<close>; the proof is accepted if and only if these have the same hash, while the
  answer \<open>r - cx\<close> of the comment (\<open>y\<close> with \<open>y + cx = r\<close>) is accepted.\<close>

theorem dl_proof_wrong_sign:
  assumes "suite_ok S" and "c = su_pick S (dl_hash S (su_base S x) (su_base S r))"
  shows "(dl_Verify S (NewDL S r x (su_base S x)) \<longleftrightarrow>
       dl_hash S (su_base S x) (su_base S (su_add S (su_mul S c x) (su_add S (su_mul S c x) r))) = dl_hash S (su_base S x) (su_base S r)) \<and>
     (\<forall>y. su_add S y (su_mul S c x) = r \<longrightarrow>
       dl_Verify S ((NewDL S r x (su_base S x))\<lparr>dl_V := y\<rparr>))"
proof -
  note s = assms(1) [unfolded suite_ok_def]
  have "su_add S (su_add S a b) a = su_add S a (su_add S a b)" for a b using s by metis
  then show ?thesis using s by (simp add: dl_Verify_def NewDL_def Let_def assms(2))
qed

text \<open>A curve whose points are the integers modulo \<^term>\<open>CURVE_MOD\<close>, and a suite of bytes.\<close>

definition line_curve :: curve where
  "line_curve = \<lparr>cv_P = 7, cv_B = 3, cv_G = \<lparr>pt_X = 1, pt_Y = 0\<rparr>, cv_IsOnCurve = (\<lambda>p. pt_Y p = 0),
     cv_Add = (\<lambda>p q. \<lparr>pt_X = (pt_X p + pt_X q) mod CURVE_MOD, pt_Y = 0\<rparr>),
     cv_ScalarMult = (\<lambda>p b. \<lparr>pt_X = get_be b * pt_X p mod CURVE_MOD, pt_Y = 0\<rparr>),
     cv_ScalarBaseMult = (\<lambda>b. \<lparr>pt_X = get_be b mod CURVE_MOD, pt_Y = 0\<rparr>), cv_MarshalCompressed = (\<lambda>p. big_bytes (pt_X p))\<rparr>"

definition byte_suite :: "(byte, byte) suite" where
  "byte_suite = \<lparr>su_add = (+), su_mul = (*), su_base = (\<lambda>x. x), su_pmul = (*), su_padd = (+), su_marshal = (\<lambda>e. [e]),
     su_hash = (\<lambda>b. b), su_pick = (\<lambda>b. 1)\<rparr>"

lemma get_be_append_byte: "get_be (b @ [x]) = get_be b * 256 + uint x"
  by (simp add: get_be_def)

lemma get_be_big_bytes: "0 \<le> k \<Longrightarrow> get_be (big_bytes k) = k"
proof (induction k rule: big_bytes.induct)
  case (1 k)
  show ?case
  proof (cases "k = 0")
    case True
    then show ?thesis by (subst big_bytes.simps) (simp add: get_be_def)
  next
    case False
    have "uint (word_of_int (k mod 256) :: byte) = k mod 256" by (simp add: uint_word_of_int)
    then show ?thesis using 1 False by (subst big_bytes.simps) (simp add: get_be_append_byte)
  qed
qed

lemma line_curve_ok: "curve_group_ok line_curve"
  unfolding curve_group_ok_def curve_mult_def
  by (simp add: line_curve_def get_be_big_bytes algebra_simps mod_simps del: mult_mod_right)

text \<open>A source that yields 32 bytes with value 5.\<close>

lemma five_scalar: "ec_RandomCurveScalar (\<lambda>r k. (zeros 31 @ [5], r)) () = Some (5, ())"
proof -
  have five: "zeros 31 @ [5 :: byte] = rev (put_le 32 5)" by code_simp
  have "(zeros 31 @ [5 :: byte])[0 := (zeros 31 @ [5]) ! 0 AND scalar_mask ! (256 mod 8)] = zeros 31 @ [5]"
    by code_simp
  moreover have "get_be (zeros 31 @ [5 :: byte]) = 5" unfolding five by (simp add: get_be_rev_put_le del: put_le.simps)
  ultimately show ?thesis
    by (subst ec_RandomCurveScalar.simps) (simp add: Let_def CURVE_MOD_def)
qed

theorem dleq_proof_verifies_witness:
  "\<exists>pr. NewProof toy_lib line_curve (\<lambda>r k. (zeros 31 @ [5], r)) () \<lparr>pt_X = 1, pt_Y = 0\<rparr>
       (curve_mult line_curve \<lparr>pt_X = 1, pt_Y = 0\<rparr> 3) \<lparr>pt_X = 2, pt_Y = 0\<rparr> (curve_mult line_curve \<lparr>pt_X = 2, pt_Y = 0\<rparr> 3) 3 = Some (Inr pr) \<and>
     dleq_Verify toy_lib line_curve pr \<lparr>pt_X = 1, pt_Y = 0\<rparr> (curve_mult line_curve \<lparr>pt_X = 1, pt_Y = 0\<rparr> 3)
       \<lparr>pt_X = 2, pt_Y = 0\<rparr> (curve_mult line_curve \<lparr>pt_X = 2, pt_Y = 0\<rparr> 3) = Inr True"
proof -
  have "length (sha256 toy_lib b) = 32" for b by (simp add: toy_lib_def del: put_le.simps)
  then show ?thesis
    using dleq_proof_verifies [OF line_curve_ok, of "\<lparr>pt_X = 1, pt_Y = 0\<rparr>" "\<lparr>pt_X = 2, pt_Y = 0\<rparr>" 3, OF _ _ _ _ five_scalar, of toy_lib 32]
    by (simp add: line_curve_def CURVE_MOD_def) blast
qed

theorem dl_proof_wrong_sign_witness: "\<not> dl_Verify byte_suite (NewDL byte_suite 5 1 (su_base byte_suite 1))"
proof -
  have "suite_ok byte_suite" by (simp add: suite_ok_def byte_suite_def algebra_simps)
  from dl_proof_wrong_sign [OF this, of 1 1 5] show ?thesis by (simp add: byte_suite_def dl_hash_def)
qed

end
