(* ===== verification/Commitments.thy ===== *)
theory Commitments
  imports Token
begin

text \<open>
  Hash commitments, \<^verbatim>\<open>src/crypto/commitments\<close>, and the pairing-based signatures of
  \<^verbatim>\<open>src/crypto/pairing/bls.go\<close>. A commitment is the hash of a nonce followed by the message, its opening is the
  nonce. The size of the hash is a constant \<^verbatim>\<open>crypto.HASH_SIZE\<close> that package \<^verbatim>\<open>crypto\<close> does not define; where the
  code uses it the model has the argument \<open>hsize\<close>. The lemmas show that a commitment opens to what was
  committed, that two different openings of one commitment are a collision of the hash function, that both
  values survive their encoding, and that a signature made with a generated key verifies.
\<close>

section \<open>Commitments\<close>

definition COMMIT_NONCE_SIZE :: nat where "COMMIT_NONCE_SIZE = 16"

record commitment =
  cm_hash :: bytes

record commitment_opening =
  co_nonce :: bytes

text \<open>\<^verbatim>\<open>sha256.Sum256\<close> of the buffer the nonce and the message are copied into.\<close>

definition commit_data :: "bytes \<Rightarrow> bytes \<Rightarrow> bytes" where
  "commit_data nonce m =
     (let data = zeros (COMMIT_NONCE_SIZE + length m);
          data = copy_at (take COMMIT_NONCE_SIZE data) 0 nonce @ drop COMMIT_NONCE_SIZE data
      in copy_at data COMMIT_NONCE_SIZE m)"

text \<open>\<open>(nonce, n, err)\<close> is what \<^verbatim>\<open>rand.Reader.Read\<close> leaves in the nonce and returns. A short read
  without an error returns a nil error and nil pointers.\<close>

definition MakeCommitment ::
  "('s, 'p) lib \<Rightarrow> bytes \<times> nat \<times> error option \<Rightarrow> bytes \<Rightarrow>
     error option \<times> commitment option \<times> commitment_opening option" where
  "MakeCommitment L rnd m =
     (case rnd of (nonce, n, err) \<Rightarrow>
        if err \<noteq> None \<or> n \<noteq> COMMIT_NONCE_SIZE then (err, None, None)
        else (None, Some \<lparr>cm_hash = sha256 L (commit_data nonce m)\<rparr>, Some \<lparr>co_nonce = nonce\<rparr>))"

definition CheckCommitment :: "('s, 'p) lib \<Rightarrow> commitment \<Rightarrow> commitment_opening \<Rightarrow> bytes \<Rightarrow> bool" where
  "CheckCommitment L c o' m \<longleftrightarrow> sha256 L (commit_data (co_nonce o') m) = cm_hash c"

definition commitment_Open :: "('s, 'p) lib \<Rightarrow> commitment \<Rightarrow> commitment_opening \<Rightarrow> bytes \<Rightarrow> bool" where
  "commitment_Open L c o' m = CheckCommitment L c o' m"

definition commitment_Len :: "nat \<Rightarrow> nat" where
  "commitment_Len hsize = hsize"

definition commitment_PackTo :: "nat \<Rightarrow> commitment \<Rightarrow> bytes \<Rightarrow> bytes res" where
  "commitment_PackTo hsize c b =
     (if length b \<noteq> commitment_Len hsize then Inl (Panic (PanicError LengthInvalidError))
      else Inr (go_copy b (cm_hash c)))"

definition commitment_InterpretFrom :: "nat \<Rightarrow> commitment \<Rightarrow> bytes \<Rightarrow> commitment res" where
  "commitment_InterpretFrom hsize c b =
     (if length b \<noteq> commitment_Len hsize then Inl (Err LengthInvalidError)
      else Inr (c\<lparr>cm_hash := go_copy (cm_hash c) b\<rparr>))"

definition opening_Len :: nat where
  "opening_Len = COMMIT_NONCE_SIZE"

definition opening_PackTo :: "commitment_opening \<Rightarrow> bytes \<Rightarrow> bytes res" where
  "opening_PackTo o' b =
     (if length b \<noteq> opening_Len then Inl (Panic (PanicError LengthInvalidError))
      else Inr (go_copy b (co_nonce o')))"

definition opening_InterpretFrom :: "commitment_opening \<Rightarrow> bytes \<Rightarrow> commitment_opening res" where
  "opening_InterpretFrom o' b =
     (if length b \<noteq> opening_Len then Inl (Err LengthInvalidError)
      else Inr (o'\<lparr>co_nonce := go_copy (co_nonce o') b\<rparr>))"

section \<open>Signatures from pairings\<close>

text \<open>\<open>pair\<close> is \<^verbatim>\<open>mcl.Pairing\<close>, \<open>rnd\<close> the scalar \<^verbatim>\<open>secret.Random()\<close> draws.\<close>

definition bls_KeyGen :: "('fr, 'g1, 'g2, 'gt) mcl \<Rightarrow> 'fr \<Rightarrow> 'g2 \<Rightarrow> 'fr \<times> 'g2" where
  "bls_KeyGen M rnd base = (rnd, g2_mul M base rnd)"

definition bls_Sign :: "('fr, 'g1, 'g2, 'gt) mcl \<Rightarrow> 'fr \<Rightarrow> bytes \<Rightarrow> 'g1" where
  "bls_Sign M secret message = g1_mul M (g1_hash M message) secret"

definition bls_Verify ::
  "('fr, 'g1, 'g2, 'gt) mcl \<Rightarrow> ('g1 \<Rightarrow> 'g2 \<Rightarrow> 'gt) \<Rightarrow> 'g1 \<Rightarrow> 'g2 \<Rightarrow> 'g2 \<Rightarrow> bytes \<Rightarrow> bool" where
  "bls_Verify M pair signature base public message \<longleftrightarrow>
     pair signature base = pair (g1_hash M message) public"

text \<open>What the signatures rely on: a scalar may be moved from one argument of the pairing to the other.\<close>

definition scalar_moves :: "('fr, 'g1, 'g2, 'gt) mcl \<Rightarrow> ('g1 \<Rightarrow> 'g2 \<Rightarrow> 'gt) \<Rightarrow> bool" where
  "scalar_moves M pair \<longleftrightarrow> (\<forall>p q x. pair (g1_mul M p x) q = pair p (g2_mul M q x))"

section \<open>Lemmas\<close>

lemma commit_data_eq: "length nonce = COMMIT_NONCE_SIZE \<Longrightarrow> commit_data nonce m = nonce @ m"
  by (simp add: commit_data_def copy_at_def zeros_def go_copy_def Let_def)

lemma commit_data_inj:
  assumes "length n1 = COMMIT_NONCE_SIZE" "length n2 = COMMIT_NONCE_SIZE"
  shows "commit_data n1 m1 = commit_data n2 m2 \<longleftrightarrow> n1 = n2 \<and> m1 = m2"
  using assms by (simp add: commit_data_eq)

text \<open>Arrays have a fixed length, so that the parser is called on a value of the right length.\<close>

lemma commitment_codec:
  "wire_codec (\<lambda>c. commitment_PackTo hsize c (zeros (commitment_Len hsize)))
     (commitment_InterpretFrom hsize \<lparr>cm_hash = zeros hsize\<rparr>) (\<lambda>c. length (cm_hash c) = hsize) (\<lambda>_. hsize)"
  by unfold_locales (simp add: commitment_PackTo_def commitment_InterpretFrom_def commitment_Len_def)

lemma opening_codec:
  "wire_codec (\<lambda>c. opening_PackTo c (zeros opening_Len))
     (opening_InterpretFrom \<lparr>co_nonce = zeros COMMIT_NONCE_SIZE\<rparr>) (\<lambda>c. length (co_nonce c) = COMMIT_NONCE_SIZE) (\<lambda>_. COMMIT_NONCE_SIZE)"
  by unfold_locales (simp add: opening_PackTo_def opening_InterpretFrom_def opening_Len_def)

interpretation commitment: wire_codec "\<lambda>c. commitment_PackTo hsize c (zeros (commitment_Len hsize))"
  "commitment_InterpretFrom hsize \<lparr>cm_hash = zeros hsize\<rparr>" "\<lambda>c. length (cm_hash c) = hsize" "\<lambda>_. hsize" for hsize
  by (rule commitment_codec)

interpretation opn: wire_codec "\<lambda>c. opening_PackTo c (zeros opening_Len)"
  "opening_InterpretFrom \<lparr>co_nonce = zeros COMMIT_NONCE_SIZE\<rparr>" "\<lambda>c. length (co_nonce c) = COMMIT_NONCE_SIZE" "\<lambda>_. COMMIT_NONCE_SIZE"
  by (rule opening_codec)

lemma MakeCommitment_ok:
  assumes "length nonce = COMMIT_NONCE_SIZE"
  shows "MakeCommitment L (nonce, COMMIT_NONCE_SIZE, None) m = (None, Some \<lparr>cm_hash = sha256 L (nonce @ m)\<rparr>, Some \<lparr>co_nonce = nonce\<rparr>)"
  using assms by (simp add: MakeCommitment_def commit_data_eq)

text \<open>A commitment made with a full nonce opens to the committed message; every opening it accepts is
  that one or comes with a collision of the hash function; and the commitment and its opening may be sent in
  their encodings and checked by the receiver.\<close>

theorem commitment_sound:
  assumes "length nonce = COMMIT_NONCE_SIZE" and "length (sha256 L (nonce @ m)) = hsize"
    and "MakeCommitment L (nonce, COMMIT_NONCE_SIZE, None) m = (err, Some c, Some o1)"
  shows "commitment_Open L c o1 m"
    and "\<And>o2 m2. commitment_Open L c o2 m2 \<Longrightarrow> length (co_nonce o2) = COMMIT_NONCE_SIZE \<Longrightarrow>
      (o2 = o1 \<and> m2 = m) \<or> (co_nonce o2 @ m2 \<noteq> nonce @ m \<and> sha256 L (co_nonce o2 @ m2) = sha256 L (nonce @ m))"
    and "\<exists>b d. commitment_PackTo hsize c (zeros hsize) = Inr b \<and> opening_PackTo o1 (zeros COMMIT_NONCE_SIZE) = Inr d \<and>
      commitment_InterpretFrom hsize \<lparr>cm_hash = zeros hsize\<rparr> b = Inr c \<and>
      opening_InterpretFrom \<lparr>co_nonce = zeros COMMIT_NONCE_SIZE\<rparr> d = Inr o1"
proof -
  have c: "c = \<lparr>cm_hash = sha256 L (nonce @ m)\<rparr>" "o1 = \<lparr>co_nonce = nonce\<rparr>"
    using assms(3) MakeCommitment_ok [OF assms(1), of L m] by simp_all
  show "commitment_Open L c o1 m"
    using assms(1) by (simp add: commitment_Open_def CheckCommitment_def commit_data_eq c)
  show "(o2 = o1 \<and> m2 = m) \<or> (co_nonce o2 @ m2 \<noteq> nonce @ m \<and> sha256 L (co_nonce o2 @ m2) = sha256 L (nonce @ m))"
    if "commitment_Open L c o2 m2" "length (co_nonce o2) = COMMIT_NONCE_SIZE" for o2 m2
  proof -
    have "sha256 L (co_nonce o2 @ m2) = sha256 L (nonce @ m)"
      using that by (simp add: commitment_Open_def CheckCommitment_def commit_data_eq c)
    then show ?thesis using that(2) assms(1) c(2) by (cases o2) auto
  qed
  show "\<exists>b d. commitment_PackTo hsize c (zeros hsize) = Inr b \<and> opening_PackTo o1 (zeros COMMIT_NONCE_SIZE) = Inr d \<and>
      commitment_InterpretFrom hsize \<lparr>cm_hash = zeros hsize\<rparr> b = Inr c \<and>
      opening_InterpretFrom \<lparr>co_nonce = zeros COMMIT_NONCE_SIZE\<rparr> d = Inr o1"
    using commitment.pack_parse [of c hsize] opn.pack_parse [of o1] assms(1,2)
    by (auto simp: c commitment_Len_def opening_Len_def)
qed

text \<open>A signature made with a generated key verifies under its public key, whatever the base point.\<close>

theorem bls_signature_verifies:
  assumes "scalar_moves M pair" and "bls_KeyGen M rnd base = (secret, public)"
  shows "bls_Verify M pair (bls_Sign M secret message) base public message"
  using assms by (auto simp: scalar_moves_def bls_KeyGen_def bls_Verify_def bls_Sign_def)

theorem bls_signature_verifies_witness:
  "bls_Verify toy_mcl (*) (bls_Sign toy_mcl 1 [7]) 1 1 [7]"
  by (rule bls_signature_verifies [where rnd = 1]) (simp_all add: scalar_moves_def bls_KeyGen_def toy_mcl_def)

end
