(* ===== verification/Addresses.thy ===== *)
theory Addresses
  imports CommonState
begin

text \<open>
  The addresses of servers: \<^verbatim>\<open>Port\<close>, \<^verbatim>\<open>Host\<close> and \<^verbatim>\<open>IP\<close> of \<^verbatim>\<open>src/config/certificates.go\<close>, \<^verbatim>\<open>CalculateAddress\<close> of
  \<^verbatim>\<open>src/network/tls.go\<close>, and the decimal numbers of \<^verbatim>\<open>strconv\<close> and \<^verbatim>\<open>fmt\<close> they are made of. Name lookup is the
  record argument \<open>resolver\<close>. The lemmas show that printing and reading a number are inverse, that
  addresses with different ports are different, and what \<^verbatim>\<open>CalculateAddress\<close> gives on the addresses the coordinator
  makes.
\<close>

section \<open>Decimal numbers\<close>

definition digit :: "nat \<Rightarrow> char" where
  "digit d = char_of (48 + d)"

definition is_digit :: "char \<Rightarrow> bool" where
  "is_digit c \<longleftrightarrow> 48 \<le> (of_char c :: nat) \<and> (of_char c :: nat) \<le> 57"

definition digit_value :: "char \<Rightarrow> int" where
  "digit_value c = int (of_char c) - 48"

fun nat_digits :: "nat \<Rightarrow> string" where
  "nat_digits n = (if n < 10 then [digit n] else nat_digits (n div 10) @ [digit (n mod 10)])"

declare nat_digits.simps [simp del]

text \<open>The verb \<^verbatim>\<open>%d\<close>.\<close>

definition itoa :: "int \<Rightarrow> string" where
  "itoa x = (if x < 0 then CHR ''-'' # nat_digits (nat (- x)) else nat_digits (nat x))"

definition parse_digits :: "string \<Rightarrow> int option" where
  "parse_digits s =
     (if s \<noteq> [] \<and> list_all is_digit s then Some (foldl (\<lambda>v c. v * 10 + digit_value c) 0 s) else None)"

text \<open>\<^verbatim>\<open>strconv.Atoi\<close>: an optional sign and digits, in the range of \<^verbatim>\<open>int\<close>.\<close>

definition Atoi :: "string \<Rightarrow> int option" where
  "Atoi s =
     (let v = (case s of
          [] \<Rightarrow> None
        | c # cs \<Rightarrow>
            if c = CHR ''-'' then map_option uminus (parse_digits cs)
            else if c = CHR ''+'' then parse_digits cs
            else parse_digits s)
      in case v of None \<Rightarrow> None | Some x \<Rightarrow> if - (2 ^ 63) \<le> x \<and> x < 2 ^ 63 then Some x else None)"

section \<open>Addresses\<close>

text \<open>\<open>strings.Split(s, ":")\<close>, which is never empty.\<close>

fun split_colon :: "string \<Rightarrow> string list" where
  "split_colon [] = [[]]"
| "split_colon (c # cs) =
     (if c = CHR '':'' then [] # split_colon cs
      else case split_colon cs of [] \<Rightarrow> [[c]] | w # ws \<Rightarrow> (c # w) # ws)"

text \<open>\<open>rs_ip s\<close> is \<open>net.ParseIP(s).String()\<close>, or \<^term>\<open>None\<close> when \<^verbatim>\<open>ParseIP\<close> gives nil.\<close>

record resolver =
  rs_ip :: "string \<Rightarrow> string option"
  rs_lookup :: "string \<Rightarrow> error + string list"

definition Port :: "string \<Rightarrow> string res" where
  "Port addr = sbind (go_index (split_colon addr) 1) (\<lambda>p. Inr (CHR '':'' # p))"

definition Host :: "string \<Rightarrow> string" where
  "Host addr = (if CHR '':'' \<in> set addr then hd (split_colon addr) else addr)"

definition IP :: "resolver \<Rightarrow> string \<Rightarrow> string res" where
  "IP R addr =
     (let h = Host addr in
      case rs_ip R h of
        Some ip \<Rightarrow> Inr ip
      | None \<Rightarrow>
          (case rs_lookup R h of
             Inl e \<Rightarrow> Inl (Panic (PanicError e))
           | Inr a \<Rightarrow> sbind (go_index a 0) (\<lambda>x.
               of_option (Panic (PanicMessage ''Could not get ip address'')) (rs_ip R x))))"

definition defaultPort :: string where "defaultPort = ''8001''"

definition CalculateAddress :: "resolver \<Rightarrow> string \<Rightarrow> int \<Rightarrow> (string \<times> string) res" where
  "CalculateAddress R address offset =
     sbind (IP R address) (\<lambda>ip. sbind (Port address) (\<lambda>port.
       if length port > 1 then
         sbind (of_option (Panic (PanicError LibraryError)) (Atoi (tl port))) (\<lambda>portNum.
           Inr (ip, CHR '':'' # itoa (to_int64 (portNum + (offset + 1000)))))
       else Inr (ip, CHR '':'' # defaultPort)))"

section \<open>Lemmas\<close>

lemma of_char_digit: "d < 10 \<Longrightarrow> (of_char (digit d) :: nat) = 48 + d"
  by (simp add: digit_def)

lemma is_digit_digit [simp]: "d < 10 \<Longrightarrow> is_digit (digit d)"
  by (simp add: is_digit_def of_char_digit)

lemma digit_value_digit [simp]: "d < 10 \<Longrightarrow> digit_value (digit d) = int d"
  by (simp add: digit_value_def of_char_digit)

lemma nat_digits_not_Nil [simp]: "nat_digits n \<noteq> []"
  by (subst nat_digits.simps) simp

lemma nat_digits_all: "list_all is_digit (nat_digits n)"
proof (induction n rule: nat_digits.induct)
  case (1 n)
  then show ?case by (subst nat_digits.simps) auto
qed

lemma digits_step: "int (n div 10) * 10 + int (n mod 10) = int n"
  by (metis div_mult_mod_eq of_nat_add of_nat_mult of_nat_numeral)

lemma nat_digits_small: "n < 10 \<Longrightarrow> nat_digits n = [digit n]"
  by (subst nat_digits.simps) simp

lemma nat_digits_large: "\<not> n < 10 \<Longrightarrow> nat_digits n = nat_digits (n div 10) @ [digit (n mod 10)]"
  by (subst nat_digits.simps) simp

lemma nat_digits_value: "foldl (\<lambda>v c. v * 10 + digit_value c) 0 (nat_digits n) = int n"
proof (induction n rule: nat_digits.induct)
  case (1 n)
  then show ?case
    by (cases "n < 10") (auto simp: nat_digits_small nat_digits_large digits_step simp del: of_nat_mod of_nat_div)
qed

lemma parse_nat_digits: "parse_digits (nat_digits n) = Some (int n)"
  by (simp add: parse_digits_def nat_digits_all nat_digits_value)

lemma not_digit_sign: "\<not> is_digit (CHR ''-'')" "\<not> is_digit (CHR ''+'')" "\<not> is_digit (CHR '':'')"
  by (simp_all add: is_digit_def)

text \<open>Reading back what was printed.\<close>

lemma Atoi_itoa:
  assumes "- (2 ^ 63) \<le> x" "x < 2 ^ 63"
  shows "Atoi (itoa x) = Some x"
proof (cases "x < 0")
  case True
  then show ?thesis using assms by (simp add: Atoi_def itoa_def parse_nat_digits)
next
  case False
  obtain c cs where c: "nat_digits (nat x) = c # cs" by (cases "nat_digits (nat x)") auto
  have "is_digit c" using nat_digits_all [of "nat x"] c by simp
  then have "c \<noteq> CHR ''-''" "c \<noteq> CHR ''+''" using not_digit_sign by auto
  then show ?thesis using assms False c parse_nat_digits [of "nat x"] by (simp add: Atoi_def itoa_def)
qed

lemma itoa_inj:
  assumes "itoa x = itoa y" "0 \<le> x" "0 \<le> y"
  shows "x = y"
proof -
  have "parse_digits (nat_digits (nat x)) = parse_digits (nat_digits (nat y))" using assms by (simp add: itoa_def)
  then show ?thesis using assms(2,3) by (simp add: parse_nat_digits)
qed

lemma itoa_no_colon: "CHR '':'' \<notin> set (itoa x)"
  using nat_digits_all [of "nat x"] nat_digits_all [of "nat (- x)"] not_digit_sign(3)
  by (auto simp: itoa_def list_all_iff)

lemma split_colon_plain: "CHR '':'' \<notin> set s \<Longrightarrow> split_colon s = [s]"
  by (induction s) auto

lemma split_colon_append: "CHR '':'' \<notin> set h \<Longrightarrow> split_colon (h @ CHR '':'' # s) = h # split_colon s"
  by (induction h) auto

lemma to_int64_small: "- (2 ^ 63) \<le> x \<Longrightarrow> x < 2 ^ 63 \<Longrightarrow> to_int64 x = x"
  by (simp add: to_int64_def sint_sbintrunc' signed_take_bit_int_eq_self_iff)

lemma host_port:
  assumes "CHR '':'' \<notin> set h"
  shows "Host (h @ CHR '':'' # itoa p) = h" "Port (h @ CHR '':'' # itoa p) = Inr (CHR '':'' # itoa p)"
  using assms by (simp_all add: Host_def Port_def split_colon_append split_colon_plain itoa_no_colon go_index_def)

text \<open>The address a connection uses: the port of the server, moved by the number of its peer and \<open>1000\<close>.\<close>

lemma CalculateAddress_ok:
  assumes "CHR '':'' \<notin> set h" "IP R (h @ CHR '':'' # itoa p) = Inr ip" "0 \<le> p" "0 \<le> i" "p + i + 1000 < 2 ^ 63"
  shows "CalculateAddress R (h @ CHR '':'' # itoa p) i = Inr (ip, CHR '':'' # itoa (p + i + 1000))"
proof -
  have "itoa p \<noteq> []" using assms(3) by (simp add: itoa_def)
  moreover have "to_int64 (p + (i + 1000)) = p + i + 1000" using assms(3-5) by (subst to_int64_small) simp_all
  moreover have "Atoi (itoa p) = Some p" using assms(3-5) by (intro Atoi_itoa) simp_all
  ultimately show ?thesis using assms(1,2) by (simp add: CalculateAddress_def host_port)
qed

end
