(* ===== verification/Connections.thy ===== *)
theory Connections
  imports Addresses Network
begin

text \<open>
  The connections between servers that run in one process: \<^verbatim>\<open>src/network/mockconn.go\<close>, the connection manager of
  \<^verbatim>\<open>tls.go\<close> with its \<^verbatim>\<open>Mock\<close> field set, the goroutines of \<^verbatim>\<open>tls_direct.go\<close>, and the order in which \<^verbatim>\<open>SetupInProcess\<close> of
  \<^verbatim>\<open>src/coordinator/network.go\<close> makes the managers and starts them. Channels are shared by the two ends of a
  connection and are indices into a store. Sockets and TLS certificates, the other branch of \<^verbatim>\<open>Accept\<close> and \<^verbatim>\<open>Connect\<close>,
  are not modelled.

  A goroutine is an entry of a list in the state of the system, at the place where it may wait: \<open>sy_accepting\<close> before
  \<^verbatim>\<open>MockListen\<close>, \<open>sy_greeting\<close> before the first read on an accepted connection, \<open>sy_connecting\<close> before
  \<^verbatim>\<open>MockConnect\<close> returns. A step of \<open>conn_step\<close> is what one of them, or the main program, does until it waits again.
\<close>

section \<open>Mock connections\<close>

record mock_conn =
  cx_in :: nat
  cx_out :: nat
  cx_s1 :: int
  cx_s2 :: int

record mock_network =
  mn_chans :: "mock_chan list"
  mn_conns :: "(string \<times> mock_conn) list"

definition NewMockChan :: "mock_network \<Rightarrow> mock_network \<times> nat" where
  "NewMockChan m = (m\<lparr>mn_chans := mn_chans m @ [[]]\<rparr>, length (mn_chans m))"

definition NewMockConnPair :: "mock_network \<Rightarrow> int \<Rightarrow> int \<Rightarrow> mock_network \<times> mock_conn \<times> mock_conn" where
  "NewMockConnPair m s1 s2 =
     (let (m, c1) = NewMockChan m; (m, c2) = NewMockChan m in
      (m, \<lparr>cx_in = c1, cx_out = c2, cx_s1 = s1, cx_s2 = s2\<rparr>, \<lparr>cx_in = c2, cx_out = c1, cx_s1 = s2, cx_s2 = s1\<rparr>))"

definition NewMockConnNetwork :: mock_network where
  "NewMockConnNetwork = \<lparr>mn_chans = [], mn_conns = []\<rparr>"

text \<open>Channels that were made are never removed, so that an index is always in range.\<close>

definition conn_Read :: "mock_conn \<Rightarrow> mock_network read_op" where
  "conn_Read c m n =
     (case mock_Read (mn_chans m ! cx_in c) n of
        None \<Rightarrow> None
      | Some (ch, b, e) \<Rightarrow> Some (m\<lparr>mn_chans := (mn_chans m)[cx_in c := ch]\<rparr>, b, e))"

definition conn_Write :: "mock_conn \<Rightarrow> mock_network write_op" where
  "conn_Write c m b =
     (case mock_Write (mn_chans m ! cx_out c) b of
        (ch, n, e) \<Rightarrow> (m\<lparr>mn_chans := (mn_chans m)[cx_out c := ch]\<rparr>, n, e))"

definition conn_Close :: "mock_conn \<Rightarrow> error option" where
  "conn_Close c = None"

definition LocalAddr :: "mock_conn \<Rightarrow> int" where
  "LocalAddr c = cx_s1 c"

definition RemoteAddr :: "mock_conn \<Rightarrow> int" where
  "RemoteAddr c = cx_s2 c"

definition addr_Network :: "int \<Rightarrow> string" where
  "addr_Network a = ''Mock''"

definition addr_String :: "int \<Rightarrow> string" where
  "addr_String a = itoa a"

text \<open>The three methods that set deadlines are all this one.\<close>

definition SetDeadline :: "mock_conn \<Rightarrow> unit res" where
  "SetDeadline c = Inl (Panic (PanicError UnimplementedError))"

section \<open>The connection manager\<close>

record conn_manager =
  cg_configs :: server_configs
  cg_MyCfg :: "server_config option"
  cg_OutgoingConnections :: "mock_conn option list"
  cg_IncomingConnections :: "mock_conn option list"
  cg_terminated :: bool

definition my_cfg :: "conn_manager \<Rightarrow> server_config res" where
  "my_cfg c = of_option (Panic NilDereference) (cg_MyCfg c)"

definition NewConnectionManager :: "mock_network \<Rightarrow> server_configs \<Rightarrow> int \<Rightarrow> (mock_network \<times> conn_manager) res" where
  "NewConnectionManager m cfgs me =
     (let (m, selfIn, selfOut) = NewMockConnPair m me me in
      sbind (go_store_int (replicate (length cfgs) None) me (Some selfIn)) (\<lambda>ins.
      sbind (go_store_int (replicate (length cfgs) None) me (Some selfOut)) (\<lambda>outs.
      Inr (m, \<lparr>cg_configs = cfgs, cg_MyCfg = map_of cfgs me, cg_OutgoingConnections = outs, cg_IncomingConnections = ins,
               cg_terminated = False\<rparr>))))"

text \<open>The connections are closed too; closing a mock connection has no effect.\<close>

definition ShutDown :: "conn_manager \<Rightarrow> conn_manager" where
  "ShutDown c = c\<lparr>cg_terminated := True\<rparr>"

text \<open>An address that is in use already is an error, and the new pair of channels is garbage.\<close>

definition MockListen :: "conn_manager \<Rightarrow> mock_network \<Rightarrow> string \<Rightarrow> int \<Rightarrow> (mock_network \<times> mock_conn) res" where
  "MockListen c m address src =
     sbind (my_cfg c) (\<lambda>cfg.
       let (m, c1, c2) = NewMockConnPair m src (sc_Id cfg) in
       if map_of (mn_conns m) address \<noteq> None then Inl (Err LibraryError)
       else Inr (m\<lparr>mn_conns := AList.update address c2 (mn_conns m)\<rparr>, c1))"

text \<open>\<^term>\<open>None\<close> while the address is not there.\<close>

definition MockConnect :: "mock_network \<Rightarrow> string \<Rightarrow> mock_conn option" where
  "MockConnect m address = map_of (mn_conns m) address"

definition Accept :: "resolver \<Rightarrow> conn_manager \<Rightarrow> mock_network \<Rightarrow> int \<Rightarrow> (mock_network \<times> mock_conn) res" where
  "Accept R c m src =
     sbind (my_cfg c) (\<lambda>cfg. sbind (CalculateAddress R (sc_Address cfg) src) (\<lambda>(ip, port).
       MockListen c m (ip @ port) src))"

definition mgr_Connect :: "resolver \<Rightarrow> conn_manager \<Rightarrow> mock_network \<Rightarrow> int \<Rightarrow> mock_conn res option" where
  "mgr_Connect R c m dst =
     (case sbind (config_at (cg_configs c) dst) (\<lambda>s. sbind (my_cfg c) (\<lambda>cfg. CalculateAddress R (sc_Address s) (sc_Id cfg))) of
        Inl e \<Rightarrow> Some (Inl e)
      | Inr (ip, port) \<Rightarrow> (case MockConnect m (ip @ port) of None \<Rightarrow> None | Some conn \<Rightarrow> Some (Inr conn)))"

text \<open>The peers for which \<^verbatim>\<open>LaunchAccepts\<close> and \<^verbatim>\<open>LaunchConnects\<close> start a goroutine.\<close>

definition launch_peers :: "conn_manager \<Rightarrow> int list res" where
  "launch_peers c =
     (if cg_configs c = [] then Inr []
      else sbind (my_cfg c) (\<lambda>cfg. Inr (filter (\<lambda>k. k \<noteq> sc_Id cfg) (map fst (cg_configs c)))))"

section \<open>The goroutines\<close>

record conn_sys =
  sy_net :: mock_network
  sy_mgrs :: "conn_manager list"
  sy_accepting :: "(nat \<times> int) list"
  sy_greeting :: "(nat \<times> int) list"
  sy_connecting :: "(nat \<times> int) list"
  sy_launched :: nat

definition conn_init :: conn_sys where
  "conn_init = \<lparr>sy_net = NewMockConnNetwork, sy_mgrs = [], sy_accepting = [], sy_greeting = [], sy_connecting = [], sy_launched = 0\<rparr>"

text \<open>The second loop of \<^verbatim>\<open>SetupInProcess\<close>, for the next server: a manager is made and \<^verbatim>\<open>SetMock\<close> launches its accepts.\<close>

definition make_manager :: "server_configs \<Rightarrow> conn_sys \<Rightarrow> conn_sys res" where
  "make_manager cfgs s =
     (let i = length (sy_mgrs s) in
      sbind (NewConnectionManager (sy_net s) cfgs (int i)) (\<lambda>(m, c).
      sbind (launch_peers c) (\<lambda>ps.
      Inr (s\<lparr>sy_net := m, sy_mgrs := sy_mgrs s @ [c], sy_accepting := sy_accepting s @ map (Pair i) ps\<rparr>))))"

text \<open>The goroutine of \<^verbatim>\<open>LaunchAccepts\<close> up to its read, and the rest of it. \<^verbatim>\<open>MockListen\<close>, which
  makes the connection under the lock of the network, and the store of the connection in \<^verbatim>\<open>IncomingConnections\<close> are one step: only this
  goroutine uses that entry before the store.\<close>

definition accept_peer :: "resolver \<Rightarrow> nat \<Rightarrow> int \<Rightarrow> conn_sys \<Rightarrow> conn_sys res" where
  "accept_peer R i k s =
     sbind (go_index (sy_mgrs s) i) (\<lambda>c.
       case Accept R c (sy_net s) k of
         Inl (Err e) \<Rightarrow> Inl (Panic (PanicError e))
       | Inl (Panic p) \<Rightarrow> Inl (Panic p)
       | Inr (m, conn) \<Rightarrow>
           sbind (go_store_int (cg_IncomingConnections c) k (Some conn)) (\<lambda>ins.
           Inr (s\<lparr>sy_net := m, sy_mgrs := (sy_mgrs s)[i := c\<lparr>cg_IncomingConnections := ins\<rparr>],
                  sy_accepting := remove1 (i, k) (sy_accepting s), sy_greeting := sy_greeting s @ [(i, k)]\<rparr>)))"

definition greet_peer :: "nat \<Rightarrow> int \<Rightarrow> conn_sys \<Rightarrow> conn_sys res option" where
  "greet_peer i k s =
     (case sbind (go_index (sy_mgrs s) i) (\<lambda>c. sbind (go_index_int (cg_IncomingConnections c) k) (of_option (Panic NilDereference))) of
        Inl e \<Rightarrow> Some (Inl e)
      | Inr conn \<Rightarrow>
          (case conn_Read conn (sy_net s) 4 of
             None \<Rightarrow> None
           | Some (m, b, e) \<Rightarrow>
               if get_le b \<noteq> k then Some (Inl (Panic (PanicMessage ''Wrong server connected to accept'')))
               else Some (Inr (s\<lparr>sy_net := m, sy_greeting := remove1 (i, k) (sy_greeting s)\<rparr>))))"

text \<open>The goroutine of \<^verbatim>\<open>LaunchConnects\<close>.\<close>

definition connect_peer :: "resolver \<Rightarrow> nat \<Rightarrow> int \<Rightarrow> conn_sys \<Rightarrow> conn_sys res option" where
  "connect_peer R i k s =
     (case go_index (sy_mgrs s) i of
        Inl e \<Rightarrow> Some (Inl e)
      | Inr c \<Rightarrow>
          (case mgr_Connect R c (sy_net s) k of
             None \<Rightarrow> None
           | Some (Inl e) \<Rightarrow> Some (Inl e)
           | Some (Inr conn) \<Rightarrow> Some (
               sbind (go_store_int (cg_OutgoingConnections c) k (Some conn)) (\<lambda>outs.
               sbind (my_cfg c) (\<lambda>cfg.
               case conn_Write conn (sy_net s) (put_le 4 (sc_Id cfg)) of (m, n, e) \<Rightarrow>
                 Inr (s\<lparr>sy_net := m, sy_mgrs := (sy_mgrs s)[i := c\<lparr>cg_OutgoingConnections := outs\<rparr>],
                        sy_connecting := remove1 (i, k) (sy_connecting s)\<rparr>))))))"

text \<open>The last loop of \<^verbatim>\<open>SetupInProcess\<close>: \<^verbatim>\<open>LaunchConnects\<close> of a server waits for its goroutines before the next.\<close>

definition launch_connects :: "conn_sys \<Rightarrow> conn_sys res" where
  "launch_connects s =
     sbind (go_index (sy_mgrs s) (sy_launched s)) (\<lambda>c. sbind (launch_peers c) (\<lambda>ps.
       Inr (s\<lparr>sy_connecting := map (Pair (sy_launched s)) ps, sy_launched := Suc (sy_launched s)\<rparr>)))"

inductive conn_step :: "resolver \<Rightarrow> server_configs \<Rightarrow> conn_sys \<Rightarrow> conn_sys res \<Rightarrow> bool" for R cfgs where
  step_manager: "length (sy_mgrs s) < length cfgs \<Longrightarrow> conn_step R cfgs s (make_manager cfgs s)"
| step_accept: "(i, k) \<in> set (sy_accepting s) \<Longrightarrow> conn_step R cfgs s (accept_peer R i k s)"
| step_greet: "(i, k) \<in> set (sy_greeting s) \<Longrightarrow> greet_peer i k s = Some r \<Longrightarrow> conn_step R cfgs s r"
| step_launch: "length (sy_mgrs s) = length cfgs \<Longrightarrow> sy_connecting s = [] \<Longrightarrow> sy_launched s < length cfgs \<Longrightarrow>
    conn_step R cfgs s (launch_connects s)"
| step_connect: "(i, k) \<in> set (sy_connecting s) \<Longrightarrow> connect_peer R i k s = Some r \<Longrightarrow> conn_step R cfgs s r"

inductive_cases conn_stepE: "conn_step R cfgs s r"

text \<open>Runs of a given number of steps from the start; a run that has failed goes no further.\<close>

inductive conn_run :: "resolver \<Rightarrow> server_configs \<Rightarrow> nat \<Rightarrow> conn_sys res \<Rightarrow> bool" for R cfgs where
  run_start: "conn_run R cfgs 0 (Inr conn_init)"
| run_step: "conn_run R cfgs t (Inr s) \<Longrightarrow> conn_step R cfgs s r \<Longrightarrow> conn_run R cfgs (Suc t) r"

end
