(* ===== verification/ConnectionSetup.thy ===== *)
theory ConnectionSetup
  imports Connections
begin

text \<open>
  What the goroutines of \<^verbatim>\<open>Connections\<close> reach, in every interleaving: no step panics, every run ends after the same
  number of steps, and then each server has a connection to each other server whose two ends belong together,
  no two connections share a channel, and no byte of the greetings is left. The proof keeps an invariant of the
  state with the index of the channels of each pair of servers as a ghost function \<open>K\<close>.
\<close>

section \<open>Configurations\<close>

definition tcp_address :: "resolver \<Rightarrow> server_configs \<Rightarrow> nat \<Rightarrow> int \<Rightarrow> string res" where
  "tcp_address R cfgs i k =
     sbind (config_at cfgs (int i)) (\<lambda>c. sbind (CalculateAddress R (sc_Address c) k) (\<lambda>(ip, port). Inr (ip @ port)))"

text \<open>What is asked of the configuration: servers are numbered from \<open>0\<close>, and the addresses on which they
  accept each other exist and are all different.\<close>

definition conn_env :: "resolver \<Rightarrow> server_configs \<Rightarrow> bool" where
  "conn_env R cfgs \<longleftrightarrow>
     distinct (map fst cfgs) \<and> set (map fst cfgs) = {0..<int (length cfgs)} \<and> length cfgs < 2 ^ 32 \<and>
     (\<forall>(k, c) \<in> set cfgs. sc_Id c = k) \<and>
     (\<forall>i < length cfgs. \<forall>k \<in> {0..<int (length cfgs)}. \<exists>a. tcp_address R cfgs i k = Inr a) \<and>
     (\<forall>i < length cfgs. \<forall>j < length cfgs. \<forall>k \<in> {0..<int (length cfgs)}. \<forall>l \<in> {0..<int (length cfgs)}.
        tcp_address R cfgs i k = tcp_address R cfgs j l \<longrightarrow> i = j \<and> k = l)"

lemma conn_env_config:
  assumes "conn_env R cfgs" "i < length cfgs"
  shows "\<exists>c. map_of cfgs (int i) = Some c \<and> sc_Id c = int i"
proof -
  have "int i \<in> set (map fst cfgs)" using assms by (auto simp: conn_env_def)
  then obtain c where c: "map_of cfgs (int i) = Some c" by (metis list.set_map map_of_eq_None_iff not_Some_eq)
  then show ?thesis using assms(1) map_of_SomeD [OF c] by (auto simp: conn_env_def)
qed

lemma conn_env_address:
  assumes "conn_env R cfgs" "i < length cfgs" "k \<in> {0..<int (length cfgs)}" "map_of cfgs (int i) = Some c"
  shows "\<exists>ip port. CalculateAddress R (sc_Address c) k = Inr (ip, port) \<and> tcp_address R cfgs i k = Inr (ip @ port)"
proof -
  obtain a where "tcp_address R cfgs i k = Inr a" using assms(1-3) unfolding conn_env_def by blast
  then show ?thesis using assms(4) by (auto simp: tcp_address_def config_at_def)
qed

lemma conn_env_inj:
  assumes "conn_env R cfgs" "i < length cfgs" "j < length cfgs" "k \<in> {0..<int (length cfgs)}" "l \<in> {0..<int (length cfgs)}"
    and "tcp_address R cfgs i k = tcp_address R cfgs j l"
  shows "i = j \<and> k = l"
  using assms unfolding conn_env_def by blast

section \<open>Pairs of servers\<close>

text \<open>A pair \<open>(i, k)\<close> is the connection server \<open>i\<close> accepts from server \<open>k\<close>, or that server \<open>i\<close> makes to server \<open>k\<close>.\<close>

definition pairs :: "nat \<Rightarrow> nat \<Rightarrow> (nat \<times> int) set" where
  "pairs n c = {(i, k). i < c \<and> 0 \<le> k \<and> k < int n \<and> k \<noteq> int i}"

definition flip :: "nat \<times> int \<Rightarrow> nat \<times> int" where
  "flip p = (nat (snd p), int (fst p))"

definition acc :: "nat \<Rightarrow> conn_sys \<Rightarrow> (nat \<times> int) set" where
  "acc n s = pairs n (length (sy_mgrs s)) - set (sy_accepting s)"

definition con :: "nat \<Rightarrow> conn_sys \<Rightarrow> (nat \<times> int) set" where
  "con n s = pairs n (sy_launched s) - set (sy_connecting s)"

lemma pairs_bounded: "pairs n c \<subseteq> {..<c} \<times> {0..<int n}"
  by (auto simp: pairs_def)

lemma finite_pairs [simp]: "finite (pairs n c)"
  by (rule finite_subset [OF pairs_bounded]) simp

lemma card_pairs: "card (pairs n n) = n * (n - 1)"
proof -
  have "pairs n n = {..<n} \<times> {0..<int n} - (\<lambda>i. (i, int i)) ` {..<n}" by (auto simp: pairs_def)
  moreover have "(\<lambda>i. (i, int i)) ` {..<n} \<subseteq> {..<n} \<times> {0..<int n}" by auto
  moreover have "card ((\<lambda>i. (i, int i)) ` {..<n}) = n" by (subst card_image) (auto simp: inj_on_def)
  ultimately have "card (pairs n n) = n * n - n" by (simp add: card_Diff_subset card_cartesian_product)
  then show ?thesis by (simp add: diff_mult_distrib2)
qed

lemma pairs_0 [simp]: "pairs n 0 = {}"
  by (simp add: pairs_def)

lemma pairs_Suc: "pairs n (Suc c) = pairs n c \<union> {c} \<times> ({0..<int n} - {int c})"
  by (auto simp: pairs_def less_Suc_eq)

lemma pairs_mono: "c \<le> d \<Longrightarrow> pairs n c \<subseteq> pairs n d"
  by (auto simp: pairs_def)

lemma flip_flip: "p \<in> pairs n n \<Longrightarrow> flip (flip p) = p"
  by (cases p) (auto simp: flip_def pairs_def)

lemma flip_pairs: "p \<in> pairs n n \<Longrightarrow> flip p \<in> pairs n n"
  by (cases p) (auto simp: flip_def pairs_def)

lemma acc_pairs: "length (sy_mgrs s) \<le> n \<Longrightarrow> acc n s \<subseteq> pairs n n"
  using pairs_mono [of "length (sy_mgrs s)" n n] by (auto simp: acc_def)

lemma con_pairs: "sy_launched s \<le> n \<Longrightarrow> con n s \<subseteq> pairs n n"
  using pairs_mono [of "sy_launched s" n n] by (auto simp: con_def)

section \<open>The invariant\<close>

text \<open>Which goroutines there are: a peer that has been greeted has connected, and one that has connected was accepted.\<close>

definition sched_inv :: "nat \<Rightarrow> conn_sys \<Rightarrow> bool" where
  "sched_inv n s \<longleftrightarrow>
     length (sy_mgrs s) \<le> n \<and> sy_launched s \<le> n \<and> (0 < sy_launched s \<longrightarrow> length (sy_mgrs s) = n) \<and>
     distinct (sy_accepting s) \<and> set (sy_accepting s) \<subseteq> pairs n (length (sy_mgrs s)) \<and>
     distinct (sy_connecting s) \<and> set (sy_connecting s) \<subseteq> pairs n (sy_launched s) \<and>
     distinct (sy_greeting s) \<and> set (sy_greeting s) \<subseteq> acc n s \<and>
     flip ` con n s \<subseteq> acc n s \<and> acc n s - set (sy_greeting s) \<subseteq> flip ` con n s"

text \<open>The end of a pair at the server that accepts, and at the one that connects.\<close>

definition in_end :: "(nat \<times> int \<Rightarrow> nat) \<Rightarrow> nat \<times> int \<Rightarrow> mock_conn" where
  "in_end K p = \<lparr>cx_in = K p, cx_out = Suc (K p), cx_s1 = snd p, cx_s2 = int (fst p)\<rparr>"

definition out_end :: "(nat \<times> int \<Rightarrow> nat) \<Rightarrow> nat \<times> int \<Rightarrow> mock_conn" where
  "out_end K p = \<lparr>cx_in = Suc (K p), cx_out = K p, cx_s1 = int (fst p), cx_s2 = snd p\<rparr>"

text \<open>The pairs that have channels: those accepted, and the connection of each server to itself.\<close>

definition linked :: "nat \<Rightarrow> conn_sys \<Rightarrow> (nat \<times> int) set" where
  "linked n s = acc n s \<union> (\<lambda>i. (i, int i)) ` {..<length (sy_mgrs s)}"

definition chan_inv :: "nat \<Rightarrow> (nat \<times> int \<Rightarrow> nat) \<Rightarrow> conn_sys \<Rightarrow> bool" where
  "chan_inv n K s \<longleftrightarrow>
     inj_on K (linked n s) \<and> even (length (mn_chans (sy_net s))) \<and>
     (\<forall>p \<in> linked n s. even (K p) \<and> Suc (K p) < length (mn_chans (sy_net s)) \<and>
        mn_chans (sy_net s) ! K p = (if p \<in> set (sy_greeting s) \<and> flip p \<in> con n s then put_le 4 (snd p) else []) \<and>
        mn_chans (sy_net s) ! Suc (K p) = [])"

definition conns_inv :: "resolver \<Rightarrow> server_configs \<Rightarrow> (nat \<times> int \<Rightarrow> nat) \<Rightarrow> conn_sys \<Rightarrow> bool" where
  "conns_inv R cfgs K s \<longleftrightarrow>
     (\<forall>i < length cfgs. \<forall>k \<in> {0..<int (length cfgs)}. \<forall>a. tcp_address R cfgs i k = Inr a \<longrightarrow>
        map_of (mn_conns (sy_net s)) a = (if (i, k) \<in> acc (length cfgs) s then Some (out_end K (i, k)) else None))"

definition mgr_inv :: "server_configs \<Rightarrow> (nat \<times> int \<Rightarrow> nat) \<Rightarrow> conn_sys \<Rightarrow> nat \<Rightarrow> conn_manager \<Rightarrow> bool" where
  "mgr_inv cfgs K s i c \<longleftrightarrow>
     cg_configs c = cfgs \<and> cg_MyCfg c = map_of cfgs (int i) \<and>
     length (cg_IncomingConnections c) = length cfgs \<and> length (cg_OutgoingConnections c) = length cfgs \<and>
     (\<forall>k < length cfgs.
        cg_IncomingConnections c ! k =
          (if (i, int k) \<in> acc (length cfgs) s \<or> k = i then Some (in_end K (i, int k)) else None) \<and>
        cg_OutgoingConnections c ! k =
          (if (i, int k) \<in> con (length cfgs) s \<or> k = i then Some (out_end K (k, int i)) else None))"

definition conn_inv :: "resolver \<Rightarrow> server_configs \<Rightarrow> (nat \<times> int \<Rightarrow> nat) \<Rightarrow> conn_sys \<Rightarrow> bool" where
  "conn_inv R cfgs K s \<longleftrightarrow>
     sched_inv (length cfgs) s \<and> chan_inv (length cfgs) K s \<and> conns_inv R cfgs K s \<and>
     (\<forall>i < length (sy_mgrs s). mgr_inv cfgs K s i (sy_mgrs s ! i))"

text \<open>The number of steps that are left.\<close>

definition todo :: "nat \<Rightarrow> conn_sys \<Rightarrow> nat" where
  "todo n s = 2 * (card (pairs n n) - card (acc n s)) + length (sy_greeting s) + (card (pairs n n) - card (con n s)) +
     (n - length (sy_mgrs s)) + (n - sy_launched s)"

lemmas conn_invD = conn_inv_def [THEN iffD1, THEN conjunct1] conn_inv_def [THEN iffD1, THEN conjunct2, THEN conjunct1]
  conn_inv_def [THEN iffD1, THEN conjunct2, THEN conjunct2, THEN conjunct1]
  conn_inv_def [THEN iffD1, THEN conjunct2, THEN conjunct2, THEN conjunct2, rule_format]

lemma conn_inv_start: "conn_inv R cfgs K conn_init"
  by (simp add: conn_inv_def sched_inv_def chan_inv_def conns_inv_def conn_init_def NewMockConnNetwork_def acc_def con_def
      pairs_def linked_def)

lemma todo_start: "todo n conn_init = 3 * (n * (n - 1)) + 2 * n"
  by (simp add: todo_def conn_init_def acc_def con_def card_pairs)

lemma launch_peers_ok:
  assumes "conn_env R cfgs" "i < length cfgs" "cg_configs c = cfgs" "cg_MyCfg c = map_of cfgs (int i)"
  shows "\<exists>ps. launch_peers c = Inr ps \<and> distinct ps \<and> set ps = {0..<int (length cfgs)} - {int i}"
proof -
  obtain cfg where "map_of cfgs (int i) = Some cfg" "sc_Id cfg = int i" using conn_env_config [OF assms(1,2)] by blast
  moreover have "distinct (map fst cfgs)" "set (map fst cfgs) = {0..<int (length cfgs)}" using assms(1) by (simp_all add: conn_env_def)
  ultimately show ?thesis using assms(2-4) by (auto simp: launch_peers_def my_cfg_def)
qed

section \<open>Frames\<close>

lemma NewMockConnPair_eq:
  "NewMockConnPair m a b =
     (m\<lparr>mn_chans := mn_chans m @ [[], []]\<rparr>,
      \<lparr>cx_in = length (mn_chans m), cx_out = Suc (length (mn_chans m)), cx_s1 = a, cx_s2 = b\<rparr>,
      \<lparr>cx_in = Suc (length (mn_chans m)), cx_out = length (mn_chans m), cx_s1 = b, cx_s2 = a\<rparr>)"
  by (simp add: NewMockConnPair_def NewMockChan_def)

text \<open>A new pair of channels, of which nobody has written yet.\<close>

lemma chan_inv_new:
  assumes "chan_inv n K s" "p \<notin> linked n s" "mn_chans (sy_net s') = mn_chans (sy_net s) @ [[], []]"
    and "linked n s' = insert p (linked n s)" "con n s' = con n s" "flip p \<notin> con n s"
    and "\<forall>q \<in> linked n s. q \<in> set (sy_greeting s') \<longleftrightarrow> q \<in> set (sy_greeting s)"
  shows "chan_inv n (K(p := length (mn_chans (sy_net s)))) s'"
proof -
  note i = assms(1) [unfolded chan_inv_def]
  have "K q \<noteq> length (mn_chans (sy_net s))" if "q \<in> linked n s" for q using i that by fastforce
  then have "inj_on (K(p := length (mn_chans (sy_net s)))) (linked n s')"
    using i assms(2,4) by (auto simp: inj_on_def)
  moreover have "\<forall>q \<in> linked n s. q \<noteq> p" using assms(2) by blast
  ultimately show ?thesis
    using i assms(3-7) unfolding chan_inv_def by (auto simp: nth_append less_SucI Suc_lessD)
qed

text \<open>A write to a channel of one pair leaves the channels of the others alone.\<close>

lemma chan_inv_update:
  assumes "chan_inv n K s" "p \<in> linked n s" "mn_chans (sy_net s') = (mn_chans (sy_net s))[K p := b]" "linked n s' = linked n s"
    and "\<forall>q \<in> linked n s - {p}. (q \<in> set (sy_greeting s') \<and> flip q \<in> con n s') = (q \<in> set (sy_greeting s) \<and> flip q \<in> con n s)"
    and "b = (if p \<in> set (sy_greeting s') \<and> flip p \<in> con n s' then put_le 4 (snd p) else [])"
  shows "chan_inv n K s'"
proof -
  note i = assms(1) [unfolded chan_inv_def]
  have ne: "K p \<noteq> Suc (K q)" if "q \<in> linked n s" for q
  proof -
    have "even (K p)" "even (K q)" using i assms(2) that by blast+
    then show ?thesis by auto
  qed
  have "even (K q) \<and> Suc (K q) < length (mn_chans (sy_net s')) \<and>
      mn_chans (sy_net s') ! K q = (if q \<in> set (sy_greeting s') \<and> flip q \<in> con n s' then put_le 4 (snd q) else []) \<and>
      mn_chans (sy_net s') ! Suc (K q) = []" if q: "q \<in> linked n s" for q
  proof (cases "q = p")
    case True
    then show ?thesis using i q ne [OF q] assms(3,6) by (simp add: Suc_lessD)
  next
    case False
    have "K q \<noteq> K p" using i False q assms(2) by (auto dest: inj_onD)
    moreover have "(q \<in> set (sy_greeting s') \<and> flip q \<in> con n s') = (q \<in> set (sy_greeting s) \<and> flip q \<in> con n s)"
      using assms(5) False q by blast
    ultimately show ?thesis using i q ne [OF q] assms(3) by simp
  qed
  then show ?thesis using i assms(3,4) unfolding chan_inv_def by simp
qed

lemma linkedI: "(i, int i) \<in> linked n s" if "i < length (sy_mgrs s)"
  using that by (simp add: linked_def)

lemma mgr_inv_frame:
  assumes "mgr_inv cfgs K s i c" "i < length (sy_mgrs s)" "sched_inv (length cfgs) s" "\<forall>q \<in> linked (length cfgs) s. K' q = K q"
    and "\<And>k. (i, k) \<in> acc (length cfgs) s' \<longleftrightarrow> (i, k) \<in> acc (length cfgs) s"
    and "\<And>k. (i, k) \<in> con (length cfgs) s' \<longleftrightarrow> (i, k) \<in> con (length cfgs) s"
  shows "mgr_inv cfgs K' s' i c"
proof -
  have a: "K' q = K q" if "q \<in> acc (length cfgs) s" for q using assms(4) that by (simp add: linked_def)
  have "flip (i, int k) \<in> acc (length cfgs) s" if "(i, int k) \<in> con (length cfgs) s" for k
    using assms(3) that by (auto simp: sched_inv_def)
  then have c: "K' (k, int i) = K (k, int i)" if "(i, int k) \<in> con (length cfgs) s" for k
    using a that by (simp add: flip_def)
  have d: "K' (i, int i) = K (i, int i)" using assms(2,4) linkedI by blast
  show ?thesis
    using assms(1) a c d unfolding mgr_inv_def assms(5,6) by (auto simp: in_end_def out_end_def)
qed

lemma K_refl: "\<forall>q \<in> A. K q = (K q :: nat)"
  by simp

lemma todo_acc:
  assumes "p \<notin> acc n s" "acc n s' = insert p (acc n s)" "length (sy_mgrs s') \<le> n"
  shows "card (pairs n n) - card (acc n s) = Suc (card (pairs n n) - card (acc n s'))"
proof -
  have "acc n s' \<subseteq> pairs n n" by (rule acc_pairs [OF assms(3)])
  then have "card (acc n s') \<le> card (pairs n n)" and "finite (acc n s')" using finite_subset [OF _ finite_pairs] by (auto intro: card_mono)
  then show ?thesis using assms(1,2) by simp
qed

lemma todo_con:
  assumes "p \<notin> con n s" "con n s' = insert p (con n s)" "sy_launched s' \<le> n"
  shows "card (pairs n n) - card (con n s) = Suc (card (pairs n n) - card (con n s'))"
proof -
  have "con n s' \<subseteq> pairs n n" by (rule con_pairs [OF assms(3)])
  then have "card (con n s') \<le> card (pairs n n)" and "finite (con n s')" using finite_subset [OF _ finite_pairs] by (auto intro: card_mono)
  then show ?thesis using assms(1,2) by simp
qed

section \<open>Steps\<close>

lemma step_manager_ok:
  assumes env: "conn_env R cfgs" and inv: "conn_inv R cfgs K s" and c: "length (sy_mgrs s) < length cfgs"
  shows "\<exists>s' K'. make_manager cfgs s = Inr s' \<and> conn_inv R cfgs K' s' \<and> todo (length cfgs) s = Suc (todo (length cfgs) s')"
proof -
  let ?n = "length cfgs" and ?c = "length (sy_mgrs s)" and ?L = "length (mn_chans (sy_net s))"
  note sc = conn_invD(1) [OF inv] and ch = conn_invD(2) [OF inv] and cn = conn_invD(3) [OF inv] and mg = conn_invD(4) [OF inv]
  let ?K = "K((?c, int ?c) := ?L)"
  let ?ins = "(replicate ?n None)[?c := Some (in_end ?K (?c, int ?c))]"
    and ?outs = "(replicate ?n None)[?c := Some (out_end ?K (?c, int ?c))]"
  let ?m = "\<lparr>cg_configs = cfgs, cg_MyCfg = map_of cfgs (int ?c), cg_OutgoingConnections = ?outs,
      cg_IncomingConnections = ?ins, cg_terminated = False\<rparr>"
  obtain ps where ps: "launch_peers ?m = Inr ps" "distinct ps" "set ps = {0..<int ?n} - {int ?c}"
    using launch_peers_ok [OF env c, of ?m] by auto
  let ?s = "s\<lparr>sy_net := (sy_net s)\<lparr>mn_chans := mn_chans (sy_net s) @ [[], []]\<rparr>, sy_mgrs := sy_mgrs s @ [?m],
      sy_accepting := sy_accepting s @ map (Pair ?c) ps\<rparr>"
  have run: "make_manager cfgs s = Inr ?s"
    using c ps(1)
    by (simp add: make_manager_def NewConnectionManager_def NewMockConnPair_eq go_store_int_def in_end_def out_end_def Let_def)
  have l: "sy_launched s = 0" using sc c by (auto simp: sched_inv_def)
  have sub: "set (sy_accepting s) \<subseteq> pairs ?n ?c" using sc by (simp add: sched_inv_def)
  have new: "(?c, k) \<notin> pairs ?n ?c" for k by (simp add: pairs_def)
  have acc: "acc ?n ?s = acc ?n s"
    using sub new ps(3) by (auto simp: acc_def pairs_Suc)
  have con: "con ?n ?s = con ?n s" "con ?n s = {}" by (simp_all add: con_def l)
  have lk: "linked ?n ?s = insert (?c, int ?c) (linked ?n s)" using acc by (simp add: linked_def lessThan_Suc)
  have nl: "(?c, int ?c) \<notin> linked ?n s" by (auto simp: linked_def acc_def pairs_def)
  have "sched_inv ?n ?s"
    using sc c ps(2,3) new sub unfolding sched_inv_def acc con by (auto simp: l pairs_Suc distinct_map inj_on_def)
  moreover have "chan_inv ?n ?K ?s"
    by (rule chan_inv_new [OF ch nl]) (use lk con in auto)
  moreover have "conns_inv R cfgs ?K ?s"
    using cn new unfolding conns_inv_def acc by (auto simp: out_end_def acc_def)
  moreover have "mgr_inv cfgs ?K ?s i (sy_mgrs ?s ! i)" if "i < length (sy_mgrs ?s)" for i
  proof (cases "i = ?c")
    case True
    have "(?c, k) \<notin> acc ?n ?s" for k unfolding acc using new by (simp add: acc_def)
    then show ?thesis using True con c by (auto simp: mgr_inv_def nth_list_update)
  next
    case False
    then have i: "i < ?c" using that by simp
    have Kq: "\<forall>q \<in> linked ?n s. ?K q = K q" using nl by auto
    have "mgr_inv cfgs ?K ?s i (sy_mgrs s ! i)"
      by (rule mgr_inv_frame [OF mg [OF i] i sc Kq]) (simp_all only: acc con(1))
    then show ?thesis using i by (simp add: nth_append)
  qed
  moreover have "todo ?n s = Suc (todo ?n ?s)" using c unfolding todo_def acc con by simp
  ultimately show ?thesis using run unfolding conn_inv_def by blast
qed

lemma step_accept_ok:
  assumes env: "conn_env R cfgs" and inv: "conn_inv R cfgs K s" and p: "(i, k) \<in> set (sy_accepting s)"
  shows "\<exists>s' K'. accept_peer R i k s = Inr s' \<and> conn_inv R cfgs K' s' \<and> todo (length cfgs) s = Suc (todo (length cfgs) s')"
proof -
  let ?n = "length cfgs" and ?c = "sy_mgrs s ! i" and ?L = "length (mn_chans (sy_net s))"
  let ?K = "K((i, k) := ?L)"
  note sc = conn_invD(1) [OF inv] and ch = conn_invD(2) [OF inv] and cn = conn_invD(3) [OF inv] and mg = conn_invD(4) [OF inv]
  have pp: "(i, k) \<in> pairs ?n (length (sy_mgrs s))" using sc p by (auto simp: sched_inv_def)
  then have i: "i < length (sy_mgrs s)" and k: "k \<in> {0..<int ?n}" "k \<noteq> int i" by (auto simp: pairs_def)
  have i': "i < ?n" using i sc by (simp add: sched_inv_def)
  obtain cfg where cfg: "map_of cfgs (int i) = Some cfg" "sc_Id cfg = int i" using conn_env_config [OF env i'] by blast
  obtain ip port where a: "CalculateAddress R (sc_Address cfg) k = Inr (ip, port)" "tcp_address R cfgs i k = Inr (ip @ port)"
    using conn_env_address [OF env i' k(1) cfg(1)] by blast
  have na: "(i, k) \<notin> acc ?n s" using p by (simp add: acc_def)
  then have free: "map_of (mn_conns (sy_net s)) (ip @ port) = None" using cn i' k(1) a(2) by (auto simp: conns_inv_def)
  note m = mg [OF i, unfolded mgr_inv_def]
  let ?ins = "(cg_IncomingConnections ?c)[nat k := Some (in_end ?K (i, k))]"
  let ?net = "(sy_net s)\<lparr>mn_chans := mn_chans (sy_net s) @ [[], []],
      mn_conns := AList.update (ip @ port) (out_end ?K (i, k)) (mn_conns (sy_net s))\<rparr>"
  let ?s = "s\<lparr>sy_net := ?net, sy_mgrs := (sy_mgrs s)[i := ?c\<lparr>cg_IncomingConnections := ?ins\<rparr>],
      sy_accepting := remove1 (i, k) (sy_accepting s), sy_greeting := sy_greeting s @ [(i, k)]\<rparr>"
  have run: "accept_peer R i k s = Inr ?s"
    using i k m cfg a(1) free
    by (simp add: accept_peer_def go_index_def Accept_def my_cfg_def MockListen_def NewMockConnPair_eq go_store_int_def
        in_end_def out_end_def)
  have "distinct (sy_accepting s)" using sc by (simp add: sched_inv_def)
  then have acc: "acc ?n ?s = insert (i, k) (acc ?n s)" using pp by (auto simp: acc_def)
  have con: "con ?n ?s = con ?n s" by (simp add: con_def)
  have lk: "linked ?n ?s = insert (i, k) (linked ?n s)" using acc by (simp add: linked_def)
  have nl: "(i, k) \<notin> linked ?n s" using na k(2) by (auto simp: linked_def)
  have "flip (i, k) \<notin> con ?n s"
  proof
    assume "flip (i, k) \<in> con ?n s"
    then have "flip (flip (i, k)) \<in> acc ?n s" using sc by (auto simp: sched_inv_def)
    then show False using na k(1) by (simp add: flip_def)
  qed
  note nf = this
  have "sched_inv ?n ?s"
    using sc na unfolding sched_inv_def acc con by (auto simp: set_remove1_eq dest: notin_set_remove1)
  moreover have "chan_inv ?n ?K ?s"
    by (rule chan_inv_new [OF ch nl _ lk con nf]) (use nl in auto)
  moreover have "conns_inv R cfgs ?K ?s"
    unfolding conns_inv_def
  proof (intro allI ballI impI)
    fix j l b
    assume j: "j < ?n" "l \<in> {0..<int ?n}" "tcp_address R cfgs j l = Inr b"
    have "b = ip @ port \<longleftrightarrow> j = i \<and> l = k"
      using conn_env_inj [OF env j(1) i' j(2) k(1)] j(3) a(2) by auto
    then show "map_of (mn_conns (sy_net ?s)) b = (if (j, l) \<in> acc ?n ?s then Some (out_end ?K (j, l)) else None)"
      using cn j unfolding acc conns_inv_def by (auto simp: update_conv' out_end_def)
  qed
  moreover have "mgr_inv cfgs ?K ?s j (sy_mgrs ?s ! j)" if "j < length (sy_mgrs ?s)" for j
  proof -
    have j: "j < length (sy_mgrs s)" using that by simp
    have Kq: "\<forall>q \<in> linked ?n s. ?K q = K q" using nl by auto
    show ?thesis
    proof (cases "j = i")
      case True
      have "mgr_inv cfgs ?K s i ?c" by (rule mgr_inv_frame [OF mg [OF i] i sc Kq]) simp_all
      then show ?thesis
        using True i k acc con unfolding mgr_inv_def by (auto simp: nth_list_update)
    next
      case False
      have e: "(j, l) \<in> acc ?n ?s \<longleftrightarrow> (j, l) \<in> acc ?n s" for l unfolding acc using False by simp
      have "mgr_inv cfgs ?K ?s j (sy_mgrs s ! j)"
        by (rule mgr_inv_frame [OF mg [OF j] j sc Kq]) (simp_all only: e con)
      then show ?thesis using False by simp
    qed
  qed
  moreover have "todo ?n s = Suc (todo ?n ?s)"
    using todo_acc [OF na acc] sc con unfolding todo_def by (simp add: sched_inv_def)
  ultimately show ?thesis using run unfolding conn_inv_def by blast
qed

lemma step_greet_ok:
  assumes env: "conn_env R cfgs" and inv: "conn_inv R cfgs K s" and p: "(i, k) \<in> set (sy_greeting s)"
    and run: "greet_peer i k s = Some r"
  shows "\<exists>s'. r = Inr s' \<and> conn_inv R cfgs K s' \<and> todo (length cfgs) s = Suc (todo (length cfgs) s')"
proof -
  let ?n = "length cfgs" and ?c = "sy_mgrs s ! i"
  note sc = conn_invD(1) [OF inv] and ch = conn_invD(2) [OF inv] and cn = conn_invD(3) [OF inv] and mg = conn_invD(4) [OF inv]
  have a: "(i, k) \<in> acc ?n s" using sc p by (auto simp: sched_inv_def)
  then have i: "i < length (sy_mgrs s)" and k: "0 \<le> k" "k < int ?n" by (auto simp: acc_def pairs_def)
  note m = mg [OF i, unfolded mgr_inv_def]
  have conn: "cg_IncomingConnections ?c ! nat k = Some (in_end K (i, k))" using m a k by simp
  have lk: "(i, k) \<in> linked ?n s" using a by (simp add: linked_def)
  have chan: "mn_chans (sy_net s) ! K (i, k) = (if flip (i, k) \<in> con ?n s then put_le 4 k else [])"
    using ch lk p by (simp add: chan_inv_def)
  have f: "flip (i, k) \<in> con ?n s"
    using run i k m conn chan by (auto simp: greet_peer_def go_index_def go_index_int_def conn_Read_def mock_Read_def in_end_def split: if_splits)
  have "k mod 2 ^ 32 = k" using k env by (simp add: conn_env_def)
  then have gl: "get_le (put_le 4 k) = k" by (simp add: get_put_le)
  let ?s = "s\<lparr>sy_net := (sy_net s)\<lparr>mn_chans := (mn_chans (sy_net s))[K (i, k) := []]\<rparr>, sy_greeting := remove1 (i, k) (sy_greeting s)\<rparr>"
  have r: "r = Inr ?s"
    using run i k m conn chan f gl
    by (simp add: greet_peer_def go_index_def go_index_int_def conn_Read_def mock_Read_def in_end_def)
  have acc: "acc ?n ?s = acc ?n s" and con: "con ?n ?s = con ?n s" by (simp_all add: acc_def con_def)
  have lks: "linked ?n ?s = linked ?n s" using acc by (simp add: linked_def)
  have d: "distinct (sy_greeting s)" using sc by (simp add: sched_inv_def)
  have "(i, k) = flip (flip (i, k))" using k by (simp add: flip_def)
  then have fc: "(i, k) \<in> flip ` con ?n s" using f by blast
  have "sched_inv ?n ?s" using sc d fc unfolding sched_inv_def acc con by (auto simp: set_remove1_eq)
  moreover have "chan_inv ?n K ?s"
    by (rule chan_inv_update [OF ch lk _ lks, where b = "[]"]) (use con d in \<open>auto simp: set_remove1_eq\<close>)
  moreover have "conns_inv R cfgs K ?s" using cn unfolding conns_inv_def acc by simp
  moreover have "mgr_inv cfgs K ?s j (sy_mgrs ?s ! j)" if "j < length (sy_mgrs ?s)" for j
  proof -
    have j: "j < length (sy_mgrs s)" using that by simp
    have "mgr_inv cfgs K ?s j (sy_mgrs s ! j)" by (rule mgr_inv_frame [OF mg [OF j] j sc K_refl]) (simp_all only: acc con)
    then show ?thesis by simp
  qed
  moreover have "todo ?n s = Suc (todo ?n ?s)"
    using p length_pos_if_in_set [OF p] unfolding todo_def acc con by (simp add: length_remove1)
  ultimately show ?thesis using r unfolding conn_inv_def by blast
qed

lemma step_launch_ok:
  assumes env: "conn_env R cfgs" and inv: "conn_inv R cfgs K s" and c: "length (sy_mgrs s) = length cfgs"
    and e: "sy_connecting s = []" and l: "sy_launched s < length cfgs"
  shows "\<exists>s'. launch_connects s = Inr s' \<and> conn_inv R cfgs K s' \<and> todo (length cfgs) s = Suc (todo (length cfgs) s')"
proof -
  let ?n = "length cfgs" and ?l = "sy_launched s"
  note sc = conn_invD(1) [OF inv] and ch = conn_invD(2) [OF inv] and cn = conn_invD(3) [OF inv] and mg = conn_invD(4) [OF inv]
  have m: "mgr_inv cfgs K s ?l (sy_mgrs s ! ?l)" using mg [of ?l] c l by simp
  obtain ps where ps: "launch_peers (sy_mgrs s ! ?l) = Inr ps" "distinct ps" "set ps = {0..<int ?n} - {int ?l}"
    using launch_peers_ok [OF env l, of "sy_mgrs s ! ?l"] m unfolding mgr_inv_def by blast
  let ?s = "s\<lparr>sy_connecting := map (Pair ?l) ps, sy_launched := Suc ?l\<rparr>"
  have run: "launch_connects s = Inr ?s" using c l ps(1) by (simp add: launch_connects_def go_index_def)
  have acc: "acc ?n ?s = acc ?n s" by (simp add: acc_def)
  have new: "(?l, k) \<notin> pairs ?n ?l" for k by (simp add: pairs_def)
  have con: "con ?n ?s = con ?n s" using new ps(3) e by (auto simp: con_def pairs_Suc)
  have "sched_inv ?n ?s"
    using sc c l ps(2,3) unfolding sched_inv_def acc con by (auto simp: pairs_Suc distinct_map inj_on_def)
  moreover have "chan_inv ?n K ?s" using ch unfolding chan_inv_def linked_def acc con by simp
  moreover have "conns_inv R cfgs K ?s" using cn unfolding conns_inv_def acc by simp
  moreover have "mgr_inv cfgs K ?s j (sy_mgrs ?s ! j)" if "j < length (sy_mgrs ?s)" for j
  proof -
    have j: "j < length (sy_mgrs s)" using that by simp
    have "mgr_inv cfgs K ?s j (sy_mgrs s ! j)" by (rule mgr_inv_frame [OF mg [OF j] j sc K_refl]) (simp_all only: acc con)
    then show ?thesis by simp
  qed
  moreover have "todo ?n s = Suc (todo ?n ?s)" using l unfolding todo_def acc con by simp
  ultimately show ?thesis using run unfolding conn_inv_def by blast
qed

lemma step_connect_ok:
  assumes env: "conn_env R cfgs" and inv: "conn_inv R cfgs K s" and p: "(i, k) \<in> set (sy_connecting s)"
    and run: "connect_peer R i k s = Some r"
  shows "\<exists>s'. r = Inr s' \<and> conn_inv R cfgs K s' \<and> todo (length cfgs) s = Suc (todo (length cfgs) s')"
proof -
  let ?n = "length cfgs" and ?c = "sy_mgrs s ! i"
  note sc = conn_invD(1) [OF inv] and ch = conn_invD(2) [OF inv] and cn = conn_invD(3) [OF inv] and mg = conn_invD(4) [OF inv]
  have pp: "(i, k) \<in> pairs ?n (sy_launched s)" using sc p by (auto simp: sched_inv_def)
  then have il: "i < sy_launched s" and k: "0 \<le> k" "k < int ?n" "k \<noteq> int i" by (auto simp: pairs_def)
  have i: "i < length (sy_mgrs s)" "i < ?n" using il sc by (auto simp: sched_inv_def)
  have kn: "nat k < ?n" "int i \<in> {0..<int ?n}" using k i by auto
  note m = mg [OF i(1), unfolded mgr_inv_def]
  obtain cfg where cfg: "map_of cfgs (int i) = Some cfg" "sc_Id cfg = int i" using conn_env_config [OF env i(2)] by blast
  obtain dst where dst: "map_of cfgs (int (nat k)) = Some dst" using conn_env_config [OF env kn(1)] by blast
  obtain ip port where a: "CalculateAddress R (sc_Address dst) (int i) = Inr (ip, port)" "tcp_address R cfgs (nat k) (int i) = Inr (ip @ port)"
    using conn_env_address [OF env kn dst] by blast
  have fl: "flip (i, k) = (nat k, int i)" "flip (nat k, int i) = (i, k)" using k by (simp_all add: flip_def)
  have np: "(i, k) \<notin> con ?n s" using p by (simp add: con_def)
  have cnx: "map_of (mn_conns (sy_net s)) (ip @ port) = (if (nat k, int i) \<in> acc ?n s then Some (out_end K (nat k, int i)) else None)"
    using cn kn a(2) by (simp add: conns_inv_def)
  have fa: "(nat k, int i) \<in> acc ?n s"
    using run i(1) m cfg dst a(1) k cnx
    by (auto simp: connect_peer_def go_index_def mgr_Connect_def config_at_def my_cfg_def MockConnect_def split: if_splits)
  have lk: "(nat k, int i) \<in> linked ?n s" using fa by (simp add: linked_def)
  have g: "(nat k, int i) \<in> set (sy_greeting s)"
  proof (rule ccontr)
    assume "(nat k, int i) \<notin> set (sy_greeting s)"
    moreover have "acc ?n s - set (sy_greeting s) \<subseteq> flip ` con ?n s" using sc by (simp add: sched_inv_def)
    ultimately have "(nat k, int i) \<in> flip ` con ?n s" using fa by blast
    then obtain q where q: "q \<in> con ?n s" "flip q = (nat k, int i)" by auto
    then have "q \<in> pairs ?n ?n" using con_pairs [of s ?n] sc by (auto simp: sched_inv_def)
    then have "q = (i, k)" using flip_flip [of q] q(2) fl(2) by simp
    then show False using q(1) np by simp
  qed
  have chan: "mn_chans (sy_net s) ! K (nat k, int i) = []" using ch lk fl np by (simp add: chan_inv_def)
  let ?outs = "(cg_OutgoingConnections ?c)[nat k := Some (out_end K (nat k, int i))]"
  let ?s = "s\<lparr>sy_net := (sy_net s)\<lparr>mn_chans := (mn_chans (sy_net s))[K (nat k, int i) := put_le 4 (int i)]\<rparr>,
      sy_mgrs := (sy_mgrs s)[i := ?c\<lparr>cg_OutgoingConnections := ?outs\<rparr>], sy_connecting := remove1 (i, k) (sy_connecting s)\<rparr>"
  have r: "r = Inr ?s"
    using run i(1) m cfg dst a(1) k cnx fa chan
    by (auto simp: connect_peer_def go_index_def mgr_Connect_def config_at_def my_cfg_def MockConnect_def go_store_int_def
        conn_Write_def mock_Write_def out_end_def)
  have d: "distinct (sy_connecting s)" using sc by (simp add: sched_inv_def)
  have acc: "acc ?n ?s = acc ?n s" by (simp add: acc_def)
  have con: "con ?n ?s = insert (i, k) (con ?n s)" using d pp by (auto simp: con_def)
  have lks: "linked ?n ?s = linked ?n s" using acc by (simp add: linked_def)
  have other: "flip q = (i, k) \<longleftrightarrow> q = (nat k, int i)" if "q \<in> linked ?n s" for q
  proof -
    have "q \<in> pairs ?n ?n \<or> int (fst q) = snd q"
      using that acc_pairs [of s ?n] sc by (auto simp: linked_def sched_inv_def)
    then show ?thesis using flip_flip [of q ?n] fl k by (cases q) (auto simp: flip_def)
  qed
  have "sched_inv ?n ?s" using sc d fa fl unfolding sched_inv_def acc con by (auto simp: set_remove1_eq)
  moreover have "chan_inv ?n K ?s"
  proof (rule chan_inv_update [OF ch lk _ lks, where b = "put_le 4 (int i)"])
    show "\<forall>q \<in> linked ?n s - {(nat k, int i)}.
        (q \<in> set (sy_greeting ?s) \<and> flip q \<in> con ?n ?s) = (q \<in> set (sy_greeting s) \<and> flip q \<in> con ?n s)"
      using other unfolding con by auto
  qed (use con fl g in simp_all)
  moreover have "conns_inv R cfgs K ?s" using cn unfolding conns_inv_def acc by simp
  moreover have "mgr_inv cfgs K ?s j (sy_mgrs ?s ! j)" if "j < length (sy_mgrs ?s)" for j
  proof (cases "j = i")
    case True
    then show ?thesis using m i k acc con unfolding mgr_inv_def by (auto simp: nth_list_update)
  next
    case False
    have j: "j < length (sy_mgrs s)" using that by simp
    have e: "(j, l) \<in> con ?n ?s \<longleftrightarrow> (j, l) \<in> con ?n s" for l unfolding con using False by simp
    have "mgr_inv cfgs K ?s j (sy_mgrs s ! j)" by (rule mgr_inv_frame [OF mg [OF j] j sc K_refl]) (simp_all only: e acc)
    then show ?thesis using False by simp
  qed
  moreover have "todo ?n s = Suc (todo ?n ?s)"
    using todo_con [OF np con] sc acc unfolding todo_def by (simp add: sched_inv_def)
  ultimately show ?thesis using r unfolding conn_inv_def by blast
qed

section \<open>Runs\<close>

lemma conn_step_ok:
  assumes "conn_env R cfgs" "conn_inv R cfgs K s" "conn_step R cfgs s r"
  shows "\<exists>s' K'. r = Inr s' \<and> conn_inv R cfgs K' s' \<and> todo (length cfgs) s = Suc (todo (length cfgs) s')"
  using assms(3)
proof (cases rule: conn_step.cases)
  case step_manager
  then show ?thesis using step_manager_ok [OF assms(1,2)] by simp
next
  case (step_accept i k)
  then show ?thesis using step_accept_ok [OF assms(1,2)] by simp
next
  case (step_greet i k)
  then show ?thesis using step_greet_ok [OF assms(1,2)] by blast
next
  case step_launch
  then show ?thesis using step_launch_ok [OF assms(1,2)] by auto
next
  case (step_connect i k)
  then show ?thesis using step_connect_ok [OF assms(1,2)] by blast
qed

lemma conn_run_inv:
  assumes "conn_env R cfgs" "conn_run R cfgs t r"
  shows "\<exists>s K. r = Inr s \<and> conn_inv R cfgs K s \<and> t + todo (length cfgs) s = 3 * (length cfgs * (length cfgs - 1)) + 2 * length cfgs"
  using assms(2)
proof (induction rule: conn_run.induct)
  case run_start
  show ?case
    by (intro exI [of _ conn_init] exI [of _ "\<lambda>_. 0"]) (simp add: conn_inv_start todo_start)
next
  case (run_step t s r)
  then obtain K where "conn_inv R cfgs K s" "t + todo (length cfgs) s = 3 * (length cfgs * (length cfgs - 1)) + 2 * length cfgs" by blast
  with conn_step_ok [OF assms(1) this(1) run_step.hyps(2)] show ?case by fastforce
qed

text \<open>While something is left to do, a goroutine or the main program can go on.\<close>

lemma progress_greet:
  assumes "conn_inv R cfgs K s" "(i, k) \<in> set (sy_greeting s)" "flip (i, k) \<in> con (length cfgs) s"
  shows "\<exists>r. greet_peer i k s = Some r"
proof -
  let ?n = "length cfgs"
  note sc = conn_invD(1) [OF assms(1)] and ch = conn_invD(2) [OF assms(1)] and mg = conn_invD(4) [OF assms(1)]
  have a: "(i, k) \<in> acc ?n s" using sc assms(2) by (auto simp: sched_inv_def)
  then have i: "i < length (sy_mgrs s)" and k: "0 \<le> k" "k < int ?n" by (auto simp: acc_def pairs_def)
  have "cg_IncomingConnections (sy_mgrs s ! i) ! nat k = Some (in_end K (i, k))" "length (cg_IncomingConnections (sy_mgrs s ! i)) = ?n"
    using mg [OF i, unfolded mgr_inv_def] a k by simp_all
  moreover have "mn_chans (sy_net s) ! K (i, k) = put_le 4 k" using ch a assms(2,3) by (simp add: chan_inv_def linked_def)
  ultimately show ?thesis
    using i k by (simp add: greet_peer_def go_index_def go_index_int_def conn_Read_def mock_Read_def in_end_def)
qed

lemma progress_connect:
  assumes env: "conn_env R cfgs" and inv: "conn_inv R cfgs K s" and p: "(i, k) \<in> set (sy_connecting s)" and a: "(nat k, int i) \<in> acc (length cfgs) s"
  shows "\<exists>r. connect_peer R i k s = Some r"
proof -
  let ?n = "length cfgs"
  note sc = conn_invD(1) [OF inv] and cn = conn_invD(3) [OF inv] and mg = conn_invD(4) [OF inv]
  have "(i, k) \<in> pairs ?n (sy_launched s)" using sc p by (auto simp: sched_inv_def)
  then have k: "0 \<le> k" "k < int ?n" and i: "i < length (sy_mgrs s)" "i < ?n" using sc by (auto simp: pairs_def sched_inv_def)
  have kn: "nat k < ?n" "int i \<in> {0..<int ?n}" using k i by auto
  obtain cfg where cfg: "map_of cfgs (int i) = Some cfg" "sc_Id cfg = int i" using conn_env_config [OF env i(2)] by blast
  obtain dst where dst: "map_of cfgs (int (nat k)) = Some dst" using conn_env_config [OF env kn(1)] by blast
  obtain ip port where ad: "CalculateAddress R (sc_Address dst) (int i) = Inr (ip, port)" "tcp_address R cfgs (nat k) (int i) = Inr (ip @ port)"
    using conn_env_address [OF env kn dst] by blast
  have "map_of (mn_conns (sy_net s)) (ip @ port) = Some (out_end K (nat k, int i))" 
    using cn [unfolded conns_inv_def, rule_format, OF kn ad(2)] a by simp
  then show ?thesis
    using ad(1) i(1) k cfg dst mg [OF i(1), unfolded mgr_inv_def]
    by (simp add: connect_peer_def go_index_def mgr_Connect_def config_at_def my_cfg_def MockConnect_def)
qed

lemma conn_progress:
  assumes env: "conn_env R cfgs" and inv: "conn_inv R cfgs K s" and t: "0 < todo (length cfgs) s"
  shows "\<exists>r. conn_step R cfgs s r"
proof (rule ccontr)
  let ?n = "length cfgs"
  assume stuck: "\<not> ?thesis"
  note sc = conn_invD(1) [OF inv]
  have c: "length (sy_mgrs s) = ?n" using stuck step_manager [of s cfgs R] sc by (fastforce simp: sched_inv_def)
  have "sy_accepting s = []" using stuck step_accept [of _ _ s R cfgs] by (cases "sy_accepting s") auto
  then have acc: "acc ?n s = pairs ?n ?n" using c by (simp add: acc_def)
  have "(nat k, int i) \<in> pairs ?n ?n" if "(i, k) \<in> set (sy_connecting s)" for i k
    using that sc flip_pairs [of "(i, k)" ?n] pairs_mono [of "sy_launched s" ?n ?n] by (auto simp: sched_inv_def flip_def)
  then have e: "sy_connecting s = []"
    using stuck progress_connect [OF env inv] step_connect [of _ _ s R _ cfgs] unfolding acc
    by (cases "sy_connecting s") (auto, metis list.set_intros(1))
  then have l: "sy_launched s = ?n" using stuck step_launch [of s cfgs R] c sc by (fastforce simp: sched_inv_def)
  then have con: "con ?n s = pairs ?n ?n" using e by (simp add: con_def)
  have "flip p \<in> con ?n s" if "p \<in> set (sy_greeting s)" for p
    using that sc flip_pairs [of p ?n] unfolding con by (auto simp: sched_inv_def acc)
  then have "sy_greeting s = []"
    using stuck progress_greet [OF inv] step_greet [of _ _ s _ R cfgs] by (cases "sy_greeting s") (auto, metis list.set_intros(1))
  then show False using t c l acc con by (simp add: todo_def)
qed

section \<open>The network that is reached\<close>

definition outgoing :: "conn_sys \<Rightarrow> nat \<Rightarrow> nat \<Rightarrow> mock_conn option" where
  "outgoing s i k = cg_OutgoingConnections (sy_mgrs s ! i) ! k"

definition incoming :: "conn_sys \<Rightarrow> nat \<Rightarrow> nat \<Rightarrow> mock_conn option" where
  "incoming s k i = cg_IncomingConnections (sy_mgrs s ! k) ! i"

text \<open>Between any two of \<open>n\<close> servers, what one writes the other reads, after which the network is as before; and
  until it is read, nothing can be read from any other connection.\<close>

definition separate_links :: "nat \<Rightarrow> conn_sys \<Rightarrow> bool" where
  "separate_links n s \<longleftrightarrow>
     (\<forall>i < n. \<forall>k < n. \<exists>co ci. outgoing s i k = Some co \<and> incoming s k i = Some ci \<and>
        (\<forall>b. \<exists>m. conn_Write co (sy_net s) b = (m, length b, None) \<and> conn_Read ci m (length b) = Some (sy_net s, b, None) \<and>
           (\<forall>j < n. \<forall>l < n. \<forall>c. (j, l) \<noteq> (i, k) \<longrightarrow> incoming s l j = Some c \<longrightarrow> (\<forall>z > 0. conn_Read c m z = None))))"

lemma finished_sets:
  assumes "sched_inv n s" "todo n s = 0"
  shows "length (sy_mgrs s) = n" "sy_launched s = n" "sy_greeting s = []" "acc n s = pairs n n" "con n s = pairs n n"
proof -
  have sub: "acc n s \<subseteq> pairs n n" "con n s \<subseteq> pairs n n" using acc_pairs [of s n] con_pairs [of s n] assms(1) by (auto simp: sched_inv_def)
  have "card (pairs n n) \<le> card (acc n s)" "card (pairs n n) \<le> card (con n s)" using assms(2) by (simp_all add: todo_def)
  then show "acc n s = pairs n n" "con n s = pairs n n" using sub by (simp_all add: card_seteq)
  have "length (sy_greeting s) = 0" "n - length (sy_mgrs s) = 0" "n - sy_launched s = 0"
    using assms(2) unfolding todo_def by (simp_all only: add_is_0)
  then show "length (sy_mgrs s) = n" "sy_launched s = n" "sy_greeting s = []" using assms(1) by (simp_all add: sched_inv_def)
qed

lemma finished_links:
  assumes inv: "conn_inv R cfgs K s" and t: "todo (length cfgs) s = 0"
  shows "separate_links (length cfgs) s"
proof -
  let ?n = "length cfgs" and ?ch = "mn_chans (sy_net s)"
  note f = finished_sets [OF conn_invD(1) [OF inv] t] and ch = conn_invD(2) [OF inv, unfolded chan_inv_def] and mg = conn_invD(4) [OF inv]
  have lk: "(i, int k) \<in> linked ?n s" if "i < ?n" "k < ?n" for i k
    using that f(1) unfolding linked_def f(4) by (auto simp: pairs_def)
  have ends: "outgoing s i k = Some (out_end K (k, int i))" "incoming s i k = Some (in_end K (i, int k))" if "i < ?n" "k < ?n" for i k
    using mg [of i, unfolded f(1), OF that(1)] that f(4,5) by (auto simp: mgr_inv_def outgoing_def incoming_def pairs_def)
  have e: "?ch ! K (i, int k) = []" "K (i, int k) < length ?ch" if "i < ?n" "k < ?n" for i k
    using ch lk [OF that] f(3) by auto
  have ne: "K (l, int j) \<noteq> K (k, int i)" if "i < ?n" "k < ?n" "j < ?n" "l < ?n" "(j, l) \<noteq> (i, k)" for i j k l
    using ch lk [OF that(2,1)] lk [OF that(4,3)] that(5) by (auto dest: inj_onD)
  have "\<exists>co ci. outgoing s i k = Some co \<and> incoming s k i = Some ci \<and>
      (\<forall>b. \<exists>m. conn_Write co (sy_net s) b = (m, length b, None) \<and> conn_Read ci m (length b) = Some (sy_net s, b, None) \<and>
         (\<forall>j < ?n. \<forall>l < ?n. \<forall>c. (j, l) \<noteq> (i, k) \<longrightarrow> incoming s l j = Some c \<longrightarrow> (\<forall>z > 0. conn_Read c m z = None)))"
    if i: "i < ?n" "k < ?n" for i k
  proof (intro exI conjI allI impI)
    fix b
    let ?m = "(sy_net s)\<lparr>mn_chans := ?ch[K (k, int i) := b]\<rparr>"
    show "outgoing s i k = Some (out_end K (k, int i))" "incoming s k i = Some (in_end K (k, int i))" using ends i by simp_all
    show "conn_Write (out_end K (k, int i)) (sy_net s) b = (?m, length b, None)"
      using e [OF i(2,1)] by (simp add: conn_Write_def mock_Write_def out_end_def)
    have "?ch[K (k, int i) := []] = ?ch" using e [OF i(2,1)] by (metis list_update_id)
    then show "conn_Read (in_end K (k, int i)) ?m (length b) = Some (sy_net s, b, None)"
      using e [OF i(2,1)] by (simp add: conn_Read_def mock_Read_def in_end_def)
    fix j l c and z :: nat
    assume j: "j < ?n" "l < ?n" "(j, l) \<noteq> (i, k)" "incoming s l j = Some c" "0 < z"
    show "conn_Read c ?m z = None"
      using ne [OF i j(1-3)] ends(2) [OF j(2,1)] e [OF j(2,1)] j(4,5)
      by (auto simp: conn_Read_def mock_Read_def in_end_def)
  qed
  then show ?thesis unfolding separate_links_def by blast
qed

text \<open>What every run reaches, in one statement.\<close>

lemma conn_run_result:
  assumes "conn_env R cfgs" "conn_run R cfgs t r" "n = length cfgs" "T = 3 * (n * (n - 1)) + 2 * n"
  shows "\<exists>s. r = Inr s \<and> t \<le> T \<and> (t < T \<longleftrightarrow> (\<exists>r'. conn_step R cfgs s r')) \<and>
     (t = T \<longrightarrow> sy_accepting s = [] \<and> sy_greeting s = [] \<and> sy_connecting s = [] \<and> separate_links n s)"
proof -
  obtain s K where s: "r = Inr s" "conn_inv R cfgs K s" "t + todo n s = T"
    using conn_run_inv [OF assms(1,2)] assms(3,4) by blast
  have "t < T \<longleftrightarrow> (\<exists>r'. conn_step R cfgs s r')"
    using conn_progress [OF assms(1) s(2)] conn_step_ok [OF assms(1) s(2)] s(3) assms(3) by fastforce
  moreover have "sy_accepting s = [] \<and> sy_greeting s = [] \<and> sy_connecting s = [] \<and> separate_links n s" if "t = T"
  proof -
    have t0: "todo n s = 0" using s(3) that by simp
    note sc = conn_invD(1) [OF s(2), folded assms(3)] and f = finished_sets [OF conn_invD(1) [OF s(2), folded assms(3)] t0]
    have none: "B = {}" if "B \<subseteq> pairs n n" "pairs n n - B = pairs n n" for B using that by auto
    have "set (sy_accepting s) \<subseteq> pairs n n" "set (sy_connecting s) \<subseteq> pairs n n" using f(1,2) sc by (simp_all add: sched_inv_def)
    then have "set (sy_accepting s) = {}" "set (sy_connecting s) = {}"
      using f(4,5) unfolding acc_def con_def f(1,2) by (simp_all only: none)
    then show ?thesis using f(3) finished_links [OF s(2)] t0 assms(3) by simp
  qed
  ultimately show ?thesis using s(1,3) by auto
qed

end
