(* ===== verification/AnytrustGroups.thy ===== *)
theory AnytrustGroups
  imports Randomness CommonState
begin

text \<open>
  The formation of the anytrust groups, \<^verbatim>\<open>src/config/anytrustGroup.go\<close>: groups drawn at random and
  groups cut from successive random permutations of the servers. The second has a loop that runs until a
  server is found that the group does not have yet; it is a partial function, whose value \<^term>\<open>None\<close> means
  that the call never returns. Sizes of groups from failure probabilities are in theory Sizes.
\<close>

section \<open>Random groups\<close>

text \<open>One group from the indices that were selected, \<open>servers[i] = serverIds[j]\<close>.\<close>

fun pick_servers :: "int list \<Rightarrow> nat list \<Rightarrow> int list res" where
  "pick_servers serverIds [] = Inr []"
| "pick_servers serverIds (j # js) =
     sbind (go_index serverIds j) (\<lambda>x. sbind (pick_servers serverIds js) (\<lambda>xs. Inr (x # xs)))"

fun random_groups :: "'r reader \<Rightarrow> nat \<Rightarrow> int list \<Rightarrow> 'r shuffler \<Rightarrow> nat list \<Rightarrow> group_configs res" where
  "random_groups rd groupSize serverIds r [] = Inr []"
| "random_groups rd groupSize serverIds r (i # is) =
     sbind (SelectRandom rd r (length serverIds) groupSize) (\<lambda>(indices, r).
     sbind (pick_servers serverIds indices) (\<lambda>servers.
     sbind (random_groups rd groupSize serverIds r is) (\<lambda>gs.
     Inr ((int i, servers) # gs))))"

definition CreateRandomGroupsWithSize ::
  "(bytes \<Rightarrow> 'r) \<Rightarrow> 'r reader \<Rightarrow> bytes \<Rightarrow> nat \<Rightarrow> nat \<Rightarrow> int list \<Rightarrow> group_configs res" where
  "CreateRandomGroupsWithSize shake rd Seed nGroups groupSize serverIds =
     random_groups rd groupSize serverIds (SeededShuffler shake rd Seed) [0..<nGroups]"

section \<open>Groups from permutations\<close>

text \<open>The place to swap a duplicate with, among the rest of the permutation.\<close>

definition swap_location :: "'r reader \<Rightarrow> 'r shuffler \<Rightarrow> nat \<Rightarrow> nat \<Rightarrow> (nat \<times> 'r shuffler) res" where
  "swap_location rd s len index =
     sbind (UInt64 rd s) (\<lambda>(u, s).
       let m = int (len - index - 1) mod 2 ^ 64 in
       if m = 0 then Inl (Panic DivideByZero) else Inr (nat (u mod m) + index + 1, s))"

definition extend_permutation :: "'r reader \<Rightarrow> nat \<Rightarrow> 'r shuffler \<Rightarrow> nat list \<Rightarrow> nat \<Rightarrow> (nat list \<times> 'r shuffler) res" where
  "extend_permutation rd n s permutation index =
     (if index \<ge> length permutation then sbind (Perm rd s n) (\<lambda>(p, s). Inr (permutation @ p, s))
      else Inr (permutation, s))"

text \<open>The inner loop: \<open>servers\<close> are the members chosen so far, which are also the keys of \<^verbatim>\<open>used\<close>.\<close>

partial_function (option) fill_group ::
  "'r reader \<Rightarrow> nat \<Rightarrow> nat \<Rightarrow> int list \<Rightarrow> 'r shuffler \<Rightarrow> nat list \<Rightarrow> nat \<Rightarrow>
   (int list \<times> 'r shuffler \<times> nat list \<times> nat) res option" where
  "fill_group rd n groupSize servers s permutation index =
     (if length servers \<ge> groupSize then Some (Inr (servers, s, permutation, index))
      else case extend_permutation rd n s permutation index of
        Inl e \<Rightarrow> Some (Inl e)
      | Inr (permutation, s) \<Rightarrow>
          if index \<ge> length permutation then Some (Inl (Panic IndexOutOfRange))
          else if int (permutation ! index) \<in> set servers then
            (case swap_location rd s (length permutation) index of
               Inl e \<Rightarrow> Some (Inl e)
             | Inr (swapLocation, s) \<Rightarrow>
                 fill_group rd n groupSize servers s (swap permutation index swapLocation) index)
          else fill_group rd n groupSize (servers @ [int (permutation ! index)]) s permutation (index + 1))"

fun separate_groups ::
  "'r reader \<Rightarrow> nat \<Rightarrow> nat \<Rightarrow> 'r shuffler \<Rightarrow> nat list \<Rightarrow> nat \<Rightarrow> nat list \<Rightarrow> group_configs res option" where
  "separate_groups rd n groupSize s permutation index [] = Some (Inr [])"
| "separate_groups rd n groupSize s permutation index (i # is) =
     (case fill_group rd n groupSize [] s permutation index of
        None \<Rightarrow> None
      | Some (Inl e) \<Rightarrow> Some (Inl e)
      | Some (Inr (servers, s, permutation, index)) \<Rightarrow>
          (case separate_groups rd n groupSize s permutation index is of
             None \<Rightarrow> None
           | Some (Inl e) \<Rightarrow> Some (Inl e)
           | Some (Inr gs) \<Rightarrow> Some (Inr ((int i, servers) # gs))))"

definition CreateSeparateGroupsWithSize ::
  "(bytes \<Rightarrow> 'r) \<Rightarrow> 'r reader \<Rightarrow> bytes \<Rightarrow> nat \<Rightarrow> nat \<Rightarrow> int list \<Rightarrow> group_configs res option" where
  "CreateSeparateGroupsWithSize shake rd Seed nGroups groupSize serverIds =
     (let n = length serverIds in
      case Perm rd (SeededShuffler shake rd Seed) n of
        Inl e \<Rightarrow> Some (Inl e)
      | Inr (permutation, s) \<Rightarrow> separate_groups rd n groupSize s permutation 0 [0..<nGroups])"

section \<open>The loop over one group\<close>

lemma SeededShuffler_ok:
  assumes "reader_ok rd"
  shows "shuffler_ok rd (SeededShuffler shake rd Seed)"
  using assms by (simp add: SeededShuffler_def shuffler_ok_def Let_def split: prod.splits)

text \<open>What holds of the permutation when the loop looks at it: the rest of it has no duplicates, and either
  it has none of the servers of the group, or together with them it has all servers.\<close>

definition fill_inv :: "nat \<Rightarrow> int list \<Rightarrow> nat list \<Rightarrow> nat \<Rightarrow> bool" where
  "fill_inv n servers permutation index \<longleftrightarrow>
     index \<le> length permutation \<and> distinct servers \<and> set servers \<subseteq> int ` {..<n} \<and>
     distinct (drop index permutation) \<and> set (drop index permutation) \<subseteq> {..<n} \<and>
     (int ` set (drop index permutation) \<inter> set servers = {} \<or>
      int ` {..<n} \<subseteq> int ` set (drop index permutation) \<union> set servers)"

lemma extend_permutation_inv:
  assumes "fill_inv n servers permutation index" "shuffler_ok rd s" "n < 2 ^ 32"
  shows "\<exists>p s'. extend_permutation rd n s permutation index = Inr (p, s') \<and> fill_inv n servers p index \<and>
     shuffler_ok rd s' \<and> (index < length permutation \<longrightarrow> p = permutation \<and> s' = s) \<and> (0 < n \<longrightarrow> index < length p)"
proof (cases "index < length permutation")
  case True
  then show ?thesis using assms by (simp add: extend_permutation_def)
next
  case False
  obtain p s' where p: "Perm rd s n = Inr (p, s')" "mset p = mset [0..<n]" "shuffler_ok rd s'"
    using Perm_ok [OF assms(2,3)] by blast
  have i: "index = length permutation" using False assms(1) by (simp add: fill_inv_def)
  show ?thesis
    using p(1,3) perm_of_upt [OF p(2)] assms(1) i by (auto simp: extend_permutation_def fill_inv_def)
qed

lemma swap_location_ok:
  assumes "shuffler_ok rd s" "index + 1 < len" "len - index \<le> 2 ^ 32"
  shows "\<exists>l s'. swap_location rd s len index = Inr (l, s') \<and> index < l \<and> l < len \<and> shuffler_ok rd s'"
proof -
  obtain u s' where u: "UInt64 rd s = Inr (u, s')" "0 \<le> u" "shuffler_ok rd s'" using UInt64_ok [OF assms(1)] by blast
  have "len - index - 1 < 2 ^ 64" using assms(3) by simp
  then have b: "int (len - index - 1) < 2 ^ 64" "0 < int (len - index - 1)"
    using assms(2) by (simp_all add: of_nat_less_numeral_power_cancel_iff of_nat_0_less_iff)
  then have m: "int (len - index - 1) mod 2 ^ 64 = int (len - index - 1)" by (intro mod_pos_pos_trivial) simp_all
  have "u mod int (len - index - 1) < int (len - index - 1)" by (rule pos_mod_bound [OF b(2)])
  moreover have "0 \<le> u mod int (len - index - 1)" by (rule pos_mod_sign [OF b(2)])
  ultimately have "nat (u mod int (len - index - 1)) + index + 1 < len" using assms(2) by linarith
  moreover have "swap_location rd s len index = Inr (nat (u mod int (len - index - 1)) + index + 1, s')"
    using b(2) by (simp only: swap_location_def u(1) sbind_Inr case_prod_conv m Let_def) simp
  moreover have "index < nat (u mod int (len - index - 1)) + index + 1" by simp
  ultimately show ?thesis using u(3) by blast
qed

lemma drop_swap:
  assumes "index < l" "l < length p"
  shows "mset (drop index (swap p index l)) = mset (drop index p)"
proof -
  have t: "take index (swap p index l) = take index p" using assms by (simp add: swap_def)
  have "mset (swap p index l) = mset p" by (rule mset_swap_list) (use assms in auto)
  then have "mset (take index (swap p index l)) + mset (drop index (swap p index l)) = mset (take index p) + mset (drop index p)"
    by (simp only: mset_append [symmetric] append_take_drop_id)
  then show ?thesis by (simp add: t)
qed

lemma fill_inv_swap:
  assumes "fill_inv n servers p index" "index < l" "l < length p"
  shows "fill_inv n servers (swap p index l) index"
  using assms(1) drop_swap [OF assms(2,3)] mset_eq_setD [OF drop_swap [OF assms(2,3)]]
    mset_eq_imp_distinct_iff [OF drop_swap [OF assms(2,3)]] by (simp add: fill_inv_def)

lemma fill_inv_take:
  assumes "fill_inv n servers p index" "index < length p" "int (p ! index) \<notin> set servers"
  shows "fill_inv n (servers @ [int (p ! index)]) p (index + 1)"
proof -
  have d: "drop index p = p ! index # drop (index + 1) p" using assms(2) by (simp add: Cons_nth_drop_Suc)
  then have "distinct (p ! index # drop (index + 1) p)" "set (p ! index # drop (index + 1) p) \<subseteq> {..<n}"
    using assms(1) by (simp_all add: fill_inv_def)
  then show ?thesis using assms d by (auto simp: fill_inv_def)
qed

text \<open>A duplicate is never the last entry of the permutation while the group is not complete.\<close>

lemma duplicate_not_last:
  assumes inv: "fill_inv n servers p index" and "index < length p" "int (p ! index) \<in> set servers" "length servers < n"
  shows "index + 1 < length p"
proof (rule ccontr)
  assume "\<not> index + 1 < length p"
  then have d: "drop index p = [p ! index]" using assms(2) Cons_nth_drop_Suc [of index p] by simp
  have "int ` {..<n} \<subseteq> set servers" using inv assms(3) d by (auto simp: fill_inv_def)
  then have "card (int ` {..<n}) \<le> card (set servers)" by (intro card_mono) auto
  also have "\<dots> \<le> length servers" by (rule card_length)
  finally show False using assms(4) by (simp add: card_image)
qed

lemma tail_length:
  assumes "fill_inv n servers p index"
  shows "length p - index \<le> n"
proof -
  have "length (drop index p) = card (set (drop index p))"
    using assms by (intro distinct_card [symmetric]) (simp add: fill_inv_def)
  also have "\<dots> \<le> card {..<n}" using assms by (intro card_mono) (simp_all add: fill_inv_def)
  finally show ?thesis by simp
qed

lemma fill_group_ok:
  assumes "fill_group rd n groupSize servers s p index = Some r"
    and "fill_inv n servers p index" "shuffler_ok rd s" "n < 2 ^ 32" "groupSize \<le> n" "length servers \<le> groupSize"
  shows "\<exists>servers' s' p' index'. r = Inr (servers', s', p', index') \<and> fill_inv n servers' p' index' \<and>
     shuffler_ok rd s' \<and> length servers' = groupSize"
  using assms
proof (induction rule: fill_group.raw_induct [rotated, consumes 1, case_names step])
  case (step fill rd n groupSize servers s p index r)
  note IH = step.IH and prems = step.hyps step.prems
  show ?case
  proof (cases "length servers \<ge> groupSize")
    case True
    then show ?thesis using prems(1-3,6) by auto
  next
    case False
    obtain q s1 where q: "extend_permutation rd n s p index = Inr (q, s1)" "fill_inv n servers q index"
      "shuffler_ok rd s1" "index < length q"
      using extend_permutation_inv [OF prems(2-4)] False prems(5) by auto
    show ?thesis
    proof (cases "int (q ! index) \<in> set servers")
      case dup: True
      have "index + 1 < length q" by (rule duplicate_not_last [OF q(2,4) dup]) (use False prems(5) in simp)
      moreover have "length q - index \<le> 2 ^ 32" using tail_length [OF q(2)] prems(4) by simp
      ultimately obtain l s2 where l: "swap_location rd s1 (length q) index = Inr (l, s2)" "index < l" "l < length q" "shuffler_ok rd s2"
        using swap_location_ok [OF q(3)] by blast
      show ?thesis
        by (rule IH [OF _ fill_inv_swap [OF q(2) l(2,3)] l(4) prems(4-6)]) (use prems(1) False q l dup in simp)
    next
      case new: False
      show ?thesis
        by (rule IH [OF _ fill_inv_take [OF q(2,4) new] q(3) prems(4,5)]) (use prems(1) False q new in simp_all)
    qed
  qed
qed

text \<open>Without a duplicate ahead the loop takes the next entries of the permutation.\<close>

lemma fill_group_fresh:
  assumes "length servers + k = groupSize" "index + k \<le> length p" "distinct (drop index p)"
    and "int ` set (drop index p) \<inter> set servers = {}"
  shows "fill_group rd n groupSize servers s p index =
     Some (Inr (servers @ map int (take k (drop index p)), s, p, index + k))"
  using assms
proof (induction k arbitrary: servers index)
  case 0
  then show ?case by (subst fill_group.simps) simp
next
  case (Suc k)
  have i: "index < length p" using Suc.prems(2) by simp
  then have d: "drop index p = p ! index # drop (index + 1) p" by (simp add: Cons_nth_drop_Suc)
  have "fill_group rd n groupSize servers s p index =
      fill_group rd n groupSize (servers @ [int (p ! index)]) s p (index + 1)"
    by (subst fill_group.simps) (use Suc.prems i d in \<open>simp add: extend_permutation_def\<close>)
  also have "\<dots> = Some (Inr ((servers @ [int (p ! index)]) @ map int (take k (drop (index + 1) p)), s, p, index + 1 + k))"
    by (rule Suc.IH) (use Suc.prems d in auto)
  finally show ?case using d by simp
qed

section \<open>All groups\<close>

lemma separate_groups_members:
  assumes "separate_groups rd n groupSize s p index is = Some r"
    and "fill_inv n [] p index" "shuffler_ok rd s" "n < 2 ^ 32" "groupSize \<le> n"
  shows "\<exists>gs. r = Inr gs \<and> map fst gs = map int is \<and>
     (\<forall>g \<in> set gs. length (snd g) = groupSize \<and> distinct (snd g) \<and> set (snd g) \<subseteq> int ` {..<n})"
  using assms(1-3)
proof (induction "is" arbitrary: s p index r)
  case Nil
  then show ?case by simp
next
  case (Cons i "is")
  obtain f where f: "fill_group rd n groupSize [] s p index = Some f"
    using Cons.prems(1) by (cases "fill_group rd n groupSize [] s p index") simp_all
  obtain servers s' p' j where g: "f = Inr (servers, s', p', j)" "fill_inv n servers p' j" "shuffler_ok rd s'" "length servers = groupSize"
    using fill_group_ok [OF f Cons.prems(2,3) assms(4,5)] by auto
  have inv: "fill_inv n [] p' j" using g(2) by (simp add: fill_inv_def)
  obtain r' where r': "separate_groups rd n groupSize s' p' j is = Some r'"
    using Cons.prems(1) f g(1) by (cases "separate_groups rd n groupSize s' p' j is") simp_all
  from Cons.IH [OF this inv g(3)] show ?case
    using Cons.prems(1) f g r' by (auto simp: fill_inv_def)
qed

lemma separate_groups_chunks:
  assumes "index + length is * groupSize \<le> length p" "distinct (drop index p)"
  shows "\<exists>gs. separate_groups rd n groupSize s p index is = Some (Inr gs) \<and> map fst gs = map int is \<and>
     (\<forall>g \<in> set gs. length (snd g) = groupSize) \<and>
     concat (map snd gs) = map int (take (length is * groupSize) (drop index p))"
  using assms
proof (induction "is" arbitrary: index)
  case Nil
  then show ?case by simp
next
  case (Cons i "is")
  have "distinct (drop (index + groupSize) p)"
    using distinct_drop [OF Cons.prems(2), of groupSize] by (simp add: add.commute)
  moreover have "(index + groupSize) + length is * groupSize \<le> length p" using Cons.prems(1) by simp
  ultimately obtain gs where gs: "separate_groups rd n groupSize s p (index + groupSize) is = Some (Inr gs)"
    "map fst gs = map int is" "\<forall>g \<in> set gs. length (snd g) = groupSize"
    "concat (map snd gs) = map int (take (length is * groupSize) (drop (index + groupSize) p))"
    using Cons.IH by blast
  have f: "fill_group rd n groupSize [] s p index = Some (Inr (map int (take groupSize (drop index p)), s, p, index + groupSize))"
    using fill_group_fresh [of "[]" groupSize groupSize index p rd n s] Cons.prems by simp
  have t: "take (length (i # is) * groupSize) (drop index p) =
      take groupSize (drop index p) @ take (length is * groupSize) (drop (index + groupSize) p)"
    by (simp add: take_add add.commute)
  show ?case unfolding t using Cons.prems(1) gs by (simp add: f)
qed

text \<open>A group larger than the number of servers keeps the loop swapping duplicates.\<close>

definition stuck :: "nat \<Rightarrow> int list \<Rightarrow> nat list \<Rightarrow> nat \<Rightarrow> bool" where
  "stuck n servers p index \<longleftrightarrow> fill_inv n servers p index \<and> int ` {..<n} = int ` set (drop index p) \<union> set servers \<and>
     (int ` set (drop index p) \<inter> set servers = {} \<or> set servers = int ` {..<n} \<and> index + 1 < length p)"

lemma stuck_no_return:
  assumes "fill_group rd n groupSize servers s p index = Some r"
    and "stuck n servers p index" "shuffler_ok rd s" "n < 2 ^ 32" "n < groupSize" "2 \<le> n"
  shows False
  using assms
proof (induction rule: fill_group.raw_induct [rotated, consumes 1, case_names step])
  case (step fill rd n groupSize servers s p index r)
  note IH = step.IH and prems = step.hyps step.prems
  have inv: "fill_inv n servers p index" using prems(2) by (simp add: stuck_def)
  have "length servers = card (set servers)" using inv by (simp add: fill_inv_def distinct_card)
  also have "\<dots> \<le> card (int ` {..<n})" using inv by (intro card_mono) (simp_all add: fill_inv_def)
  finally have small: "length servers < groupSize" using prems(5) by (simp add: card_image)
  obtain q s1 where q: "extend_permutation rd n s p index = Inr (q, s1)" "fill_inv n servers q index"
    "shuffler_ok rd s1" "index < length p \<longrightarrow> q = p \<and> s1 = s" "index < length q"
    using extend_permutation_inv [OF inv prems(3,4)] prems(6) by auto
  show ?case
  proof (cases "index < length p \<and> int ` set (drop index p) \<inter> set servers = {}")
    case fresh: True
    have d: "drop index p = p ! index # drop (index + 1) p" using fresh by (simp add: Cons_nth_drop_Suc)
    have new: "int (p ! index) \<notin> set servers" using fresh d by auto
    have "stuck n (servers @ [int (p ! index)]) p (index + 1)"
      using prems(2) fresh fill_inv_take [OF inv _ new] d inv by (auto simp: stuck_def fill_inv_def)
    from IH [OF _ this q(3) prems(4-6)] show False using prems(1) small q new fresh by simp
  next
    case False
    have all: "set servers = int ` {..<n}"
    proof (cases "index < length p")
      case True
      then show ?thesis using False prems(2) unfolding stuck_def by blast
    next
      case False
      then have "drop index p = []" by simp
      moreover have "int ` {..<n} = int ` set (drop index p) \<union> set servers" using prems(2) unfolding stuck_def by blast
      ultimately show ?thesis by (simp only: list.set image_empty Un_empty_left)
    qed
    have long: "index + 1 < length q"
    proof (cases "index < length p")
      case True
      then show ?thesis using False prems(2) q(4) unfolding stuck_def by blast
    next
      case out: False
      obtain t s2 where t: "Perm rd s n = Inr (t, s2)" "mset t = mset [0..<n]" using Perm_ok [OF prems(3,4)] by blast
      have "length t = n" by (rule perm_of_upt(3) [OF t(2)])
      then show ?thesis using q(1) t(1) out inv prems(6) by (auto simp: extend_permutation_def fill_inv_def)
    qed
    have dup: "int (q ! index) \<in> set servers"
      using q(2,5) all nth_mem [of 0 "drop index q"] by (auto simp: fill_inv_def)
    have "length q - index \<le> 2 ^ 32" using tail_length [OF q(2)] prems(4) by simp
    then obtain l s2 where l: "swap_location rd s1 (length q) index = Inr (l, s2)" "index < l" "l < length q" "shuffler_ok rd s2"
      using swap_location_ok [OF q(3) long] by blast
    have "stuck n servers (swap q index l) index"
      using fill_inv_swap [OF q(2) l(2,3)] all long by (auto simp: stuck_def fill_inv_def)
    from IH [OF _ this l(4) prems(4-6)] show False using prems(1) small q l dup by simp
  qed
qed

lemma separate_groups_fit:
  assumes "reader_ok rd" and "length serverIds < 2 ^ 32" and "nGroups * groupSize \<le> length serverIds"
  shows "\<exists>gs. CreateSeparateGroupsWithSize shake rd Seed nGroups groupSize serverIds = Some (Inr gs) \<and>
     map fst gs = map int [0..<nGroups] \<and> (\<forall>g \<in> set gs. length (snd g) = groupSize) \<and>
     distinct (concat (map snd gs)) \<and> set (concat (map snd gs)) \<subseteq> int ` {..<length serverIds}"
proof -
  let ?n = "length serverIds"
  obtain p s where p: "Perm rd (SeededShuffler shake rd Seed) ?n = Inr (p, s)" "mset p = mset [0..<?n]"
    using Perm_ok [OF SeededShuffler_ok [OF assms(1)] assms(2)] by blast
  note q = perm_of_upt [OF p(2)]
  obtain gs where gs: "separate_groups rd ?n groupSize s p 0 [0..<nGroups] = Some (Inr gs)"
    "map fst gs = map int [0..<nGroups]" "\<forall>g \<in> set gs. length (snd g) = groupSize"
    "concat (map snd gs) = map int (take (nGroups * groupSize) p)"
    using separate_groups_chunks [of 0 "[0..<nGroups]" groupSize p rd ?n s] q assms(3) by auto
  have "distinct (concat (map snd gs))" using gs(4) q(1) by (simp add: distinct_map inj_on_def)
  moreover have "set (concat (map snd gs)) \<subseteq> int ` {..<?n}"
    unfolding gs(4) set_map q(2) [symmetric] by (rule image_mono [OF set_take_subset])
  ultimately show ?thesis
    using gs(1-3) p(1) by (simp only: CreateSeparateGroupsWithSize_def Let_def) simp
qed

section \<open>Properties\<close>

text \<open>When there are enough servers the groups are separate: for \<open>nGroups * groupSize \<le> n\<close>
  \<^verbatim>\<open>CreateSeparateGroupsWithSize\<close> returns, its groups are numbered from \<open>0\<close>, have the size asked for, and
  no server is in two groups or twice in one, whatever the random bytes.\<close>

theorem separate_groups_disjoint:
  assumes "reader_ok rd" and "length serverIds < 2 ^ 32" and "nGroups * groupSize \<le> length serverIds"
  shows "\<exists>gs. CreateSeparateGroupsWithSize shake rd Seed nGroups groupSize serverIds = Some (Inr gs) \<and>
     map fst gs = map int [0..<nGroups] \<and> (\<forall>g \<in> set gs. length (snd g) = groupSize) \<and>
     distinct (concat (map snd gs)) \<and> set (concat (map snd gs)) \<subseteq> int ` {..<length serverIds}"
  using assms by (rule separate_groups_fit)

text \<open>C35. A group never has a server twice: whenever \<^verbatim>\<open>CreateSeparateGroupsWithSize\<close> returns, for a size that does
  not exceed the number of servers, it has not panicked (the modulus of the swap is never zero) and each
  group has the size asked for and different members. A larger size makes it loop forever.\<close>

theorem separate_groups_no_duplicates:
  assumes "reader_ok rd" and "length serverIds < 2 ^ 32"
  shows "(groupSize \<le> length serverIds \<longrightarrow>
       CreateSeparateGroupsWithSize shake rd Seed nGroups groupSize serverIds = Some r \<longrightarrow>
       (\<exists>gs. r = Inr gs \<and> map fst gs = map int [0..<nGroups] \<and>
         (\<forall>g \<in> set gs. length (snd g) = groupSize \<and> distinct (snd g) \<and> set (snd g) \<subseteq> int ` {..<length serverIds}))) \<and>
     (length serverIds < groupSize \<longrightarrow> 2 \<le> length serverIds \<longrightarrow> 0 < nGroups \<longrightarrow>
       CreateSeparateGroupsWithSize shake rd Seed nGroups groupSize serverIds = None)"
proof -
  let ?n = "length serverIds"
  obtain p s where p: "Perm rd (SeededShuffler shake rd Seed) ?n = Inr (p, s)" "mset p = mset [0..<?n]" "shuffler_ok rd s"
    using Perm_ok [OF SeededShuffler_ok [OF assms(1)] assms(2)] by blast
  note q = perm_of_upt [OF p(2)]
  have c: "CreateSeparateGroupsWithSize shake rd Seed nGroups groupSize serverIds =
      separate_groups rd ?n groupSize s p 0 [0..<nGroups]"
    using p(1) by (simp only: CreateSeparateGroupsWithSize_def Let_def) simp
  have inv: "fill_inv ?n [] p 0" "stuck ?n [] p 0" using q by (simp_all add: fill_inv_def stuck_def)
  have "fill_group rd ?n groupSize [] s p 0 = None" if "?n < groupSize" "2 \<le> ?n"
    using stuck_no_return [OF _ inv(2) p(3) assms(2) that] by (cases "fill_group rd ?n groupSize [] s p 0") auto
  then have "separate_groups rd ?n groupSize s p 0 [0..<nGroups] = None" if "?n < groupSize" "2 \<le> ?n" "0 < nGroups"
    using that by (simp add: upt_conv_Cons)
  then show ?thesis using separate_groups_members [OF _ inv(1) p(3) assms(2)] c by auto
qed

theorem separate_groups_disjoint_witness:
  "\<exists>gs. CreateSeparateGroupsWithSize (\<lambda>_. 0) zero_reader [1] 2 2 [0, 1, 2, 3, 4] = Some (Inr gs) \<and> distinct (concat (map snd gs))"
  using separate_groups_disjoint [OF zero_reader_ok, of "[0, 1, 2, 3, 4]" 2 2 "\<lambda>_. 0" "[1]"] by auto

theorem separate_groups_no_duplicates_witness:
  "CreateSeparateGroupsWithSize (\<lambda>_. 0) zero_reader [1] 1 3 [0, 1] = None"
  using separate_groups_no_duplicates [OF zero_reader_ok, of "[0, 1]" 3 "\<lambda>_. 0" "[1]" 1] by simp

end
