(* ===== verification/Sizes.thy ===== *)
theory Sizes
  imports AnytrustGroups Complex_Main
begin

text \<open>
  The sizes that are computed from failure probabilities: \<^verbatim>\<open>src/config/config.go\<close> (number of layers, size of
  the buffer of a link) and the first and last part of \<^verbatim>\<open>src/config/anytrustGroup.go\<close> (size and number of
  anytrust groups). The arithmetic of \<^verbatim>\<open>float64\<close> and the functions of package \<^verbatim>\<open>math\<close> are the fields of the
  record argument \<open>F\<close>; nothing is assumed of them, so the theorems hold for the rounding of any machine.
  Probabilities of groups are exact rationals, as in the code (\<^verbatim>\<open>big.Rat\<close>). Numbers of servers, groups and
  messages are not negative.
\<close>

section \<open>Floating point\<close>

record 'f floats =
  fl_int :: "int \<Rightarrow> 'f"
  fl_add :: "'f \<Rightarrow> 'f \<Rightarrow> 'f"
  fl_sub :: "'f \<Rightarrow> 'f \<Rightarrow> 'f"
  fl_mul :: "'f \<Rightarrow> 'f \<Rightarrow> 'f"
  fl_div :: "'f \<Rightarrow> 'f \<Rightarrow> 'f"
  fl_neg :: "'f \<Rightarrow> 'f"
  fl_lt :: "'f \<Rightarrow> 'f \<Rightarrow> bool"
  fl_eq :: "'f \<Rightarrow> 'f \<Rightarrow> bool"
  fl_sqrt :: "'f \<Rightarrow> 'f"
  fl_log :: "'f \<Rightarrow> 'f"
  fl_log2 :: "'f \<Rightarrow> 'f"
  fl_log1p :: "'f \<Rightarrow> 'f"
  fl_exp :: "'f \<Rightarrow> 'f"
  fl_exp2 :: "'f \<Rightarrow> 'f"
  fl_expm1 :: "'f \<Rightarrow> 'f"
  fl_ceil :: "'f \<Rightarrow> 'f"
  fl_ln2 :: 'f
  fl_to_int :: "'f \<Rightarrow> int"
  fl_rat :: "rat \<Rightarrow> 'f"

definition AnytrustGroupSecurityFactor :: int where "AnytrustGroupSecurityFactor = - 64"

definition ShuffleSecurityFactor :: int where "ShuffleSecurityFactor = - 64"

definition GroupModel :: nat where "GroupModel = 2"

section \<open>Layers and links\<close>

definition NumLayers :: "'f floats \<Rightarrow> nat \<Rightarrow> 'f \<Rightarrow> int" where
  "NumLayers F numusers f =
     (let int2 = fl_int F 2;
          r = fl_sqrt F (fl_add F (fl_mul F (fl_mul F (fl_int F (- 3)) f) f) (fl_mul F (fl_int F 4) f));
          l = fl_div F
                (fl_sub F
                  (fl_sub F
                    (fl_sub F (fl_mul F (fl_int F ShuffleSecurityFactor) (fl_log F int2)) (fl_log F (fl_int F (int numusers))))
                    (fl_log F (fl_mul F int2 r)))
                  (fl_log F (fl_add F (fl_add F (fl_neg F f) r) int2)))
                (fl_log F (fl_add F (fl_div F f int2) (fl_div F r int2)))
      in fl_to_int F (fl_ceil F (fl_add F l (fl_int F 1))))"

definition Chernoff :: "'f floats \<Rightarrow> 'f \<Rightarrow> 'f \<Rightarrow> 'f" where
  "Chernoff F mu delta =
     fl_exp F (fl_div F (fl_mul F (fl_mul F (fl_neg F delta) delta) mu) (fl_add F (fl_int F 2) delta))"

definition KLDiv :: "'f floats \<Rightarrow> 'f \<Rightarrow> 'f \<Rightarrow> 'f" where
  "KLDiv F a p =
     (let one = fl_int F 1 in
      fl_add F (fl_mul F a (fl_log F (fl_div F a p)))
        (fl_mul F (fl_sub F one a) (fl_log F (fl_div F (fl_sub F one a) (fl_sub F one p)))))"

definition BinomialChernoff :: "'f floats \<Rightarrow> 'f \<Rightarrow> 'f \<Rightarrow> 'f \<Rightarrow> 'f" where
  "BinomialChernoff F k n p = fl_exp F (fl_mul F (fl_neg F n) (KLDiv F (fl_div F k n) p))"

definition UpperBinomialChernoff :: "'f floats \<Rightarrow> 'f \<Rightarrow> 'f \<Rightarrow> 'f \<Rightarrow> 'f" where
  "UpperBinomialChernoff F k n p = BinomialChernoff F (fl_sub F n k) n (fl_sub F (fl_int F 1) p)"

definition Target :: "'f floats \<Rightarrow> nat \<Rightarrow> int \<Rightarrow> 'f" where
  "Target F numGroups securityFactor =
     (let base = fl_neg F (fl_exp2 F (fl_int F securityFactor));
          exponent = fl_div F (fl_log1p F base) (fl_int F (int numGroups))
      in fl_neg F (fl_expm1 F exponent))"

text \<open>The loop of \<^verbatim>\<open>BinSize2\<close>, from \<open>binSize\<close> down; \<open>prob\<close> is the bound on the probability of an overflow.\<close>

fun shrink_bin :: "'f floats \<Rightarrow> (nat \<Rightarrow> 'f) \<Rightarrow> 'f \<Rightarrow> nat \<Rightarrow> nat" where
  "shrink_bin F prob target 0 = 1"
| "shrink_bin F prob target (Suc b) =
     (if fl_lt F target (prob (Suc b)) then Suc b + 1 else shrink_bin F prob target b)"

text \<open>The products of the number of servers are those of the 64-bit integers of the source as long as they are below \<open>2^63\<close>.\<close>

definition overflow_bound :: "'f floats \<Rightarrow> nat \<Rightarrow> nat \<Rightarrow> nat \<Rightarrow> 'f" where
  "overflow_bound F numServers numMessages binSize =
     (let p = fl_div F (fl_int F 1) (fl_int F (int (numServers * numServers)))
      in UpperBinomialChernoff F (fl_int F (int binSize)) (fl_int F (int numMessages)) p)"

definition BinSize2 :: "'f floats \<Rightarrow> nat \<Rightarrow> nat \<Rightarrow> nat \<Rightarrow> int \<Rightarrow> nat" where
  "BinSize2 F numTransitions numServers numMessages overflowProbability =
     (let target = Target F (numTransitions * numServers * numServers) overflowProbability
      in shrink_bin F (overflow_bound F numServers numMessages) target numMessages)"

definition ChernoffHoldingBinomial :: "'f floats \<Rightarrow> nat \<Rightarrow> nat \<Rightarrow> nat \<Rightarrow> 'f" where
  "ChernoffHoldingBinomial F binsize numservers nummessages =
     (let p = fl_div F (fl_int F 1) (fl_int F (int (numservers * numservers)));
          epsilon = fl_sub F (fl_div F (fl_int F (int binsize)) (fl_int F (int nummessages))) p
      in fl_mul F (fl_neg F (KLDiv F (fl_add F p epsilon) p)) (fl_int F (int nummessages)))"

text \<open>The loop of \<^verbatim>\<open>BinSize3\<close> over the sizes \<open>[binSize..<numMessages + 1]\<close>.\<close>

fun grow_bin :: "'f floats \<Rightarrow> (nat \<Rightarrow> 'f) \<Rightarrow> 'f \<Rightarrow> nat \<Rightarrow> nat list \<Rightarrow> nat" where
  "grow_bin F prob failProb numMessages [] = numMessages"
| "grow_bin F prob failProb numMessages (b # bs) =
     (if fl_lt F (prob b) failProb then b else grow_bin F prob failProb numMessages bs)"

definition BinSize3 :: "'f floats \<Rightarrow> nat \<Rightarrow> nat \<Rightarrow> nat \<Rightarrow> int \<Rightarrow> nat res" where
  "BinSize3 F numTransitions numServers numMessages overflowProbability =
     (let failProb = fl_neg F (fl_add F (fl_mul F (fl_int F (- overflowProbability)) (fl_ln2 F))
                       (fl_log F (fl_int F (int (numServers * numServers * numTransitions)))))
      in if numServers = 0 then Inl (Panic DivideByZero)
         else Inr (grow_bin F (\<lambda>b. ChernoffHoldingBinomial F b numServers numMessages) failProb numMessages
                [numMessages div (numServers * numServers)..<numMessages + 1]))"

section \<open>Groups\<close>

definition GroupSizeWithReplacement :: "'f floats \<Rightarrow> nat \<Rightarrow> 'f \<Rightarrow> int" where
  "GroupSizeWithReplacement F nGroups f =
     (let target = Target F nGroups AnytrustGroupSecurityFactor
      in fl_to_int F (fl_ceil F (fl_div F (fl_log2 F target) (fl_log2 F f))))"

text \<open>The loop over \<open>groupSize\<close>: \<open>k\<close> iterations are left.\<close>

fun grow_group :: "'f floats \<Rightarrow> 'f \<Rightarrow> nat \<Rightarrow> nat \<Rightarrow> nat \<Rightarrow> int \<Rightarrow> int \<Rightarrow> rat \<Rightarrow> nat" where
  "grow_group F target nServers 0 groupSize advCount totalCount probability = nServers"
| "grow_group F target nServers (Suc k) groupSize advCount totalCount probability =
     (if fl_lt F (fl_rat F probability) target then groupSize
      else let advCount = advCount - 1; totalCount = totalCount - 1; term = of_int advCount / of_int totalCount
           in grow_group F target nServers k (groupSize + 1) advCount totalCount (probability * term))"

definition GroupSizeWithoutReplacement :: "'f floats \<Rightarrow> nat \<Rightarrow> nat \<Rightarrow> 'f \<Rightarrow> nat res" where
  "GroupSizeWithoutReplacement F nServers nGroups f =
     (let target = Target F nGroups AnytrustGroupSecurityFactor;
          advCount = fl_to_int F (fl_ceil F (fl_mul F (fl_int F (int nServers)) f)) in
      if nServers = 0 then Inl (Panic DivideByZero)
      else Inr (grow_group F target nServers (nServers - 1) 1 advCount (int nServers)
             (of_int advCount / of_int (int nServers))))"

definition CalcGroupSize :: "'f floats \<Rightarrow> nat \<Rightarrow> nat \<Rightarrow> 'f \<Rightarrow> int res" where
  "CalcGroupSize F nServers nGroups f =
     (if GroupModel = 1 then Inr (GroupSizeWithReplacement F nGroups f)
      else if GroupModel = 2 then sbind (GroupSizeWithoutReplacement F nServers nGroups f) (\<lambda>s. Inr (int s))
      else Inr 0)"

text \<open>A negative size makes the slice of the selected indices panic.\<close>

definition CreateRandomGroups ::
  "'f floats \<Rightarrow> (bytes \<Rightarrow> 'r) \<Rightarrow> 'r reader \<Rightarrow> bytes \<Rightarrow> nat \<Rightarrow> 'f \<Rightarrow> int list \<Rightarrow> group_configs res" where
  "CreateRandomGroups F shake rd Seed nGroups f serverIds =
     sbind (CalcGroupSize F (length serverIds) nGroups f) (\<lambda>s.
       let s = (if s > int (length serverIds) then int (length serverIds) else s) in
       if s < 0 then (if nGroups = 0 then Inr [] else Inl (Panic IndexOutOfRange))
       else CreateRandomGroupsWithSize shake rd Seed nGroups (nat s) serverIds)"

text \<open>The loop of \<^verbatim>\<open>CalcFewGroups\<close>, from \<open>nGroups\<close> down; its value is the number it stops at.\<close>

fun few_groups :: "'f floats \<Rightarrow> 'f \<Rightarrow> nat \<Rightarrow> nat \<Rightarrow> nat res" where
  "few_groups F f n 0 = Inr 0"
| "few_groups F f n (Suc k) =
     sbind (CalcGroupSize F n (Suc k) f) (\<lambda>s.
       if s = 0 then Inl (Panic DivideByZero)
       else let actualNumGroups = sgn s * (int n div \<bar>s\<bar>) in
         if actualNumGroups \<ge> int (Suc k) then Inr (Suc k) else few_groups F f n k)"

definition CalcFewGroups :: "'f floats \<Rightarrow> 'f \<Rightarrow> nat \<Rightarrow> (int \<times> nat) res" where
  "CalcFewGroups F f n =
     sbind (few_groups F f n n) (\<lambda>nGroups.
       let nGroups = (if nGroups < 1 then 1 else nGroups) in
       sbind (CalcGroupSize F n nGroups f) (\<lambda>s. Inr (s, nGroups)))"

definition GroupSizeCost :: "'f floats \<Rightarrow> int \<Rightarrow> nat \<Rightarrow> nat \<Rightarrow> 'f res" where
  "GroupSizeCost F groupSize numGroups numServers =
     (if numServers = 0 then Inl (Panic DivideByZero)
      else let x = int numGroups * groupSize + (int numServers - 1);
               maxGroups = sgn x * (\<bar>x\<bar> div int numServers)
           in Inr (fl_div F (fl_int F (maxGroups * groupSize)) (fl_int F (int numGroups))))"

text \<open>The loop of \<^verbatim>\<open>CalcFewGroups2\<close> over the numbers of groups.\<close>

fun cheapest :: "'f floats \<Rightarrow> 'f \<Rightarrow> nat \<Rightarrow> nat list \<Rightarrow> 'f \<Rightarrow> nat \<Rightarrow> nat res" where
  "cheapest F f n [] bestCost bestNGroups = Inr bestNGroups"
| "cheapest F f n (nGroups # ks) bestCost bestNGroups =
     sbind (CalcGroupSize F n nGroups f) (\<lambda>groupSize.
     sbind (GroupSizeCost F groupSize nGroups n) (\<lambda>cost.
       if fl_lt F cost bestCost then cheapest F f n ks cost nGroups else cheapest F f n ks bestCost bestNGroups))"

definition CalcFewGroups2 :: "'f floats \<Rightarrow> 'f \<Rightarrow> nat \<Rightarrow> (int \<times> nat) res" where
  "CalcFewGroups2 F f n =
     sbind (cheapest F f n [1..<n + 1] (fl_int F (int n)) 1) (\<lambda>bestNGroups.
     sbind (CalcGroupSize F n bestNGroups f) (\<lambda>s. Inr (s, bestNGroups)))"

section \<open>Lemmas\<close>

lemma shrink_bin_ok:
  "1 \<le> shrink_bin F prob target b \<and> shrink_bin F prob target b \<le> b + 1 \<and>
   (\<forall>b'. shrink_bin F prob target b \<le> b' \<longrightarrow> b' \<le> b \<longrightarrow> \<not> fl_lt F target (prob b')) \<and>
   (1 < shrink_bin F prob target b \<longrightarrow> fl_lt F target (prob (shrink_bin F prob target b - 1)))"
proof (induction b)
  case (Suc b)
  then show ?case by (cases "fl_lt F target (prob (Suc b))") (auto simp: le_Suc_eq)
qed auto

text \<open>The probability that \<open>k\<close> servers drawn without replacement from \<open>n\<close> are all among \<open>a\<close> adversaries.\<close>

definition all_adversarial :: "nat \<Rightarrow> nat \<Rightarrow> nat \<Rightarrow> rat" where
  "all_adversarial a n k = of_nat (a choose k) / of_nat (n choose k)"

lemma all_adversarial_Suc:
  assumes "k < n"
  shows "all_adversarial a n (Suc k) = all_adversarial a n k * (of_int (int a - int k) / of_int (int n - int k))"
proof -
  have step: "(of_nat (m choose Suc k) :: rat) * of_nat (Suc k) = of_nat (m choose k) * of_int (int m - int k)" for m
  proof -
    have "(of_nat (m choose Suc k) :: rat) = (of_nat m gchoose Suc k)" "(of_nat (m choose k) :: rat) = (of_nat m gchoose k)"
      by (simp_all add: binomial_gbinomial)
    then show ?thesis using gbinomial_mult_1 [of "of_nat m :: rat" k] by (simp add: algebra_simps)
  qed
  have nz: "of_nat (n choose k) \<noteq> (0 :: rat)" "(of_int (int n - int k) :: rat) \<noteq> 0" "(of_nat (Suc k) :: rat) \<noteq> 0"
    using assms by (simp_all del: of_nat_Suc)
  have "all_adversarial a n (Suc k) = (of_nat (a choose Suc k) * of_nat (Suc k)) / (of_nat (n choose Suc k) * of_nat (Suc k))"
    using nz(3) by (simp add: all_adversarial_def del: of_nat_Suc)
  also have "\<dots> = all_adversarial a n k * (of_int (int a - int k) / of_int (int n - int k))"
    unfolding step by (simp add: all_adversarial_def)
  finally show ?thesis .
qed

lemma grow_group_ok:
  assumes "groupSize + k = nServers" and "1 \<le> groupSize" and "probability = all_adversarial a nServers groupSize"
    and "advCount = int a - int groupSize + 1" and "totalCount = int nServers - int groupSize + 1"
    and "r = grow_group F target nServers k groupSize advCount totalCount probability"
  shows "groupSize \<le> r \<and> r \<le> nServers \<and>
     (\<forall>j. groupSize \<le> j \<longrightarrow> j < r \<longrightarrow> \<not> fl_lt F (fl_rat F (all_adversarial a nServers j)) target) \<and>
     (r < nServers \<longrightarrow> fl_lt F (fl_rat F (all_adversarial a nServers r)) target)"
  using assms
proof (induction k arbitrary: groupSize probability advCount totalCount)
  case 0
  then show ?case by auto
next
  case (Suc k)
  show ?case
  proof (cases "fl_lt F (fl_rat F probability) target")
    case True
    then show ?thesis using Suc.prems by auto
  next
    case False
    have "probability * (of_int (advCount - 1) / of_int (totalCount - 1)) = all_adversarial a nServers (groupSize + 1)"
    proof -
      have "advCount - 1 = int a - int groupSize" "totalCount - 1 = int nServers - int groupSize" "groupSize < nServers"
        using Suc.prems(1,4,5) by simp_all
      then show ?thesis using all_adversarial_Suc [of groupSize nServers a] Suc.prems(3) by (simp only: Suc_eq_plus1)
    qed
    note IH = Suc.IH [of "groupSize + 1", OF _ _ this, of "advCount - 1" "totalCount - 1"]
    have "r = grow_group F target nServers k (groupSize + 1) (advCount - 1) (totalCount - 1)
        (probability * (of_int (advCount - 1) / of_int (totalCount - 1)))"
      using False Suc.prems(6) by (simp add: Let_def)
    then have rest: "groupSize + 1 \<le> r \<and> r \<le> nServers \<and>
       (\<forall>j. groupSize + 1 \<le> j \<longrightarrow> j < r \<longrightarrow> \<not> fl_lt F (fl_rat F (all_adversarial a nServers j)) target) \<and>
       (r < nServers \<longrightarrow> fl_lt F (fl_rat F (all_adversarial a nServers r)) target)"
      using IH Suc.prems(1,4,5) by simp
    have "\<not> fl_lt F (fl_rat F (all_adversarial a nServers j)) target" if "groupSize \<le> j" "j < r" for j
      using rest that False Suc.prems(3) by (cases "j = groupSize") auto
    then show ?thesis using rest by simp
  qed
qed

lemma GroupSize_range: "0 < n \<Longrightarrow> \<exists>s. GroupSizeWithoutReplacement F n k f = Inr s \<and> 1 \<le> s \<and> s \<le> n"
proof -
  have "g + j = n \<Longrightarrow> 1 \<le> g \<Longrightarrow> 1 \<le> grow_group F t n j g a c p \<and> grow_group F t n j g a c p \<le> n" for t j g a c p
    by (induction j arbitrary: g a c p) (auto simp: Let_def)
  from this [of 1 "n - 1"] show "0 < n \<Longrightarrow> ?thesis" by (simp add: GroupSizeWithoutReplacement_def Let_def)
qed

lemma CalcGroupSize_range: "0 < n \<Longrightarrow> \<exists>s. CalcGroupSize F n k f = Inr (int s) \<and> 1 \<le> s \<and> s \<le> n"
  using GroupSize_range [of n F k f] by (auto simp: CalcGroupSize_def GroupModel_def)

text \<open>The loop over the number of groups stops at the largest number that fits.\<close>

definition fits :: "'f floats \<Rightarrow> 'f \<Rightarrow> nat \<Rightarrow> nat \<Rightarrow> bool" where
  "fits F f n k \<longleftrightarrow> (\<exists>s. CalcGroupSize F n k f = Inr (int s) \<and> k * s \<le> n)"

lemma few_groups_ok:
  assumes "0 < n"
  shows "\<exists>m. few_groups F f n k = Inr m \<and> m \<le> k \<and> (0 < m \<longrightarrow> fits F f n m) \<and> (\<forall>j. m < j \<longrightarrow> j \<le> k \<longrightarrow> \<not> fits F f n j)"
proof (induction k)
  case (Suc k)
  obtain s where s: "CalcGroupSize F n (Suc k) f = Inr (int s)" "1 \<le> s"
    using CalcGroupSize_range [OF assms, of F "Suc k" f] by auto
  have "fits F f n (Suc k) \<longleftrightarrow> int (Suc k) \<le> sgn (int s) * (int n div \<bar>int s\<bar>)"
  proof -
    have "Suc k * s \<le> n \<longleftrightarrow> Suc k \<le> n div s" using s(2) by (simp add: less_eq_div_iff_mult_less_eq)
    moreover have "sgn (int s) * (int n div \<bar>int s\<bar>) = int (n div s)" using s(2) by (simp add: zdiv_int)
    ultimately show ?thesis using s(1) unfolding fits_def by (simp only: of_nat_le_iff) auto
  qed
  then show ?case using Suc.IH s by (auto simp: Let_def le_Suc_eq simp del: of_nat_Suc)
qed auto

lemma CalcFewGroups_ok:
  assumes "0 < n"
  shows "\<exists>s k. CalcFewGroups F f n = Inr (int s, k) \<and> 1 \<le> s \<and> 1 \<le> k \<and> k * s \<le> n \<and> (\<forall>j. k < j \<longrightarrow> j \<le> n \<longrightarrow> \<not> fits F f n j)"
proof -
  obtain m where m: "few_groups F f n n = Inr m" "0 < m \<longrightarrow> fits F f n m" "\<forall>j. m < j \<longrightarrow> j \<le> n \<longrightarrow> \<not> fits F f n j"
    using few_groups_ok [OF assms, of F f n] by blast
  define k where "k = (if m < 1 then 1 else m)"
  obtain s where s: "CalcGroupSize F n k f = Inr (int s)" "1 \<le> s" "s \<le> n"
    using CalcGroupSize_range [OF assms, of F k f] by auto
  have "k * s \<le> n" using m(2) s by (cases "m < 1") (auto simp: k_def fits_def)
  moreover have "CalcFewGroups F f n = Inr (int s, k)" using m(1) s(1) by (simp add: CalcFewGroups_def k_def Let_def)
  moreover have "\<forall>j. k < j \<longrightarrow> j \<le> n \<longrightarrow> \<not> fits F f n j" using m(3) by (simp add: k_def)
  moreover have "1 \<le> k" by (simp add: k_def)
  ultimately show ?thesis using s(2) by blast
qed

text \<open>Comparison of \<^verbatim>\<open>float64\<close> is irreflexive and transitive, also in the presence of NaN.\<close>

definition lt_ok :: "'f floats \<Rightarrow> bool" where
  "lt_ok F \<longleftrightarrow> (\<forall>x. \<not> fl_lt F x x) \<and> (\<forall>x y z. fl_lt F x y \<longrightarrow> fl_lt F y z \<longrightarrow> fl_lt F x z)"

text \<open>The cost of \<open>k\<close> groups of the size that is computed for them.\<close>

definition cost_of :: "'f floats \<Rightarrow> 'f \<Rightarrow> nat \<Rightarrow> nat \<Rightarrow> 'f res" where
  "cost_of F f n k = sbind (CalcGroupSize F n k f) (\<lambda>s. GroupSizeCost F s k n)"

lemma cost_of_ok: "0 < n \<Longrightarrow> \<exists>s x. CalcGroupSize F n k f = Inr (int s) \<and> GroupSizeCost F (int s) k n = Inr x \<and> cost_of F f n k = Inr x"
  using CalcGroupSize_range [of n F k f] by (auto simp: cost_of_def GroupSizeCost_def Let_def)

lemma cheapest_ok:
  assumes "lt_ok F" and "0 < n"
  shows "\<exists>k. cheapest F f n ks best b = Inr k \<and>
     (k = b \<and> (\<forall>j \<in> set ks. \<forall>y. cost_of F f n j = Inr y \<longrightarrow> \<not> fl_lt F y best) \<or>
      (\<exists>x. k \<in> set ks \<and> cost_of F f n k = Inr x \<and> fl_lt F x best \<and>
        (\<forall>j \<in> set ks. \<forall>y. cost_of F f n j = Inr y \<longrightarrow> \<not> fl_lt F y x)))"
proof (induction ks arbitrary: best b)
  case (Cons j ks)
  obtain s x where x: "CalcGroupSize F n j f = Inr (int s)" "GroupSizeCost F (int s) j n = Inr x" "cost_of F f n j = Inr x"
    using cost_of_ok [OF assms(2), of F j f] by auto
  have irr: "\<not> fl_lt F x x" and tr: "\<And>y z. fl_lt F z y \<Longrightarrow> fl_lt F y best \<Longrightarrow> fl_lt F z best"
    using assms(1) unfolding lt_ok_def by blast+
  show ?case
  proof (cases "fl_lt F x best")
    case True
    then have c: "cheapest F f n (j # ks) best b = cheapest F f n ks x j" using x by simp
    obtain k where k: "cheapest F f n ks x j = Inr k"
      "k = j \<and> (\<forall>i \<in> set ks. \<forall>y. cost_of F f n i = Inr y \<longrightarrow> \<not> fl_lt F y x) \<or>
       (\<exists>x'. k \<in> set ks \<and> cost_of F f n k = Inr x' \<and> fl_lt F x' x \<and> (\<forall>i \<in> set ks. \<forall>y. cost_of F f n i = Inr y \<longrightarrow> \<not> fl_lt F y x'))"
      using Cons.IH [of x j] by blast
    then show ?thesis
    proof (elim disjE)
      assume "k = j \<and> (\<forall>i \<in> set ks. \<forall>y. cost_of F f n i = Inr y \<longrightarrow> \<not> fl_lt F y x)"
      then show ?thesis using k(1) True irr x(3) unfolding c by auto
    next
      assume "\<exists>x'. k \<in> set ks \<and> cost_of F f n k = Inr x' \<and> fl_lt F x' x \<and> (\<forall>i \<in> set ks. \<forall>y. cost_of F f n i = Inr y \<longrightarrow> \<not> fl_lt F y x')"
      then obtain x' where x': "k \<in> set ks" "cost_of F f n k = Inr x'" "fl_lt F x' x" "\<forall>i \<in> set ks. \<forall>y. cost_of F f n i = Inr y \<longrightarrow> \<not> fl_lt F y x'"
        by blast
      have "fl_lt F x' best" using tr [OF x'(3) True] .
      moreover have "\<not> fl_lt F x x'" using x'(3) irr assms(1) unfolding lt_ok_def by blast
      ultimately show ?thesis using k(1) x' x(3) unfolding c by auto
    qed
  next
    case False
    then have c: "cheapest F f n (j # ks) best b = cheapest F f n ks best b" using x by simp
    show ?thesis using Cons.IH [of best b]
    proof (elim exE conjE disjE)
      fix k assume "cheapest F f n ks best b = Inr k" "k = b" "\<forall>i \<in> set ks. \<forall>y. cost_of F f n i = Inr y \<longrightarrow> \<not> fl_lt F y best"
      then show ?thesis using False x(3) unfolding c by auto
    next
      fix k x' assume "cheapest F f n ks best b = Inr k" "k \<in> set ks" "cost_of F f n k = Inr x'" "fl_lt F x' best"
        "\<forall>i \<in> set ks. \<forall>y. cost_of F f n i = Inr y \<longrightarrow> \<not> fl_lt F y x'"
      moreover from this have "\<not> fl_lt F x x'" using False tr by blast
      ultimately show ?thesis using x(3) unfolding c by auto
    qed
  qed
qed simp

section \<open>Properties\<close>

text \<open>The size of an anytrust group is the least one that is safe: with \<open>a\<close> adversaries among \<open>n\<close> servers,
  \<^verbatim>\<open>GroupSizeWithoutReplacement\<close> returns a size between \<open>1\<close> and \<open>n\<close>; the probability that a group of that size
  has adversaries only, which is \<open>(a choose s) / (n choose s)\<close>, is below the target unless the size is \<open>n\<close>, and no
  smaller group is below it.\<close>

theorem group_size_least:
  assumes "0 < n" and "fl_to_int F (fl_ceil F (fl_mul F (fl_int F (int n)) f)) = int a"
  shows "\<exists>s. GroupSizeWithoutReplacement F n nGroups f = Inr s \<and> 1 \<le> s \<and> s \<le> n \<and>
     (\<forall>j. 1 \<le> j \<longrightarrow> j < s \<longrightarrow> \<not> fl_lt F (fl_rat F (of_nat (a choose j) / of_nat (n choose j))) (Target F nGroups AnytrustGroupSecurityFactor)) \<and>
     (s < n \<longrightarrow> fl_lt F (fl_rat F (of_nat (a choose s) / of_nat (n choose s))) (Target F nGroups AnytrustGroupSecurityFactor))"
proof -
  let ?t = "Target F nGroups AnytrustGroupSecurityFactor"
  have "of_int (int a) / of_int (int n) = all_adversarial a n 1" by (simp add: all_adversarial_def)
  from grow_group_ok [OF _ _ this, of "n - 1" "int a" "int n" _ F ?t]
  show ?thesis using assms by (auto simp: GroupSizeWithoutReplacement_def Let_def all_adversarial_def)
qed

text \<open>C23. Few groups are separate: for any number of servers \<^verbatim>\<open>CalcFewGroups\<close> returns the largest number of groups, of the
  size it computes for that number, that fit into the servers (or one group), and the groups that
  \<^verbatim>\<open>CreateSeparateGroupsWithSize\<close> then forms have that size and share no server.\<close>

theorem few_groups_separate:
  assumes "reader_ok rd" and "0 < length serverIds" and "length serverIds < 2 ^ 32"
  shows "\<exists>s k gs. CalcFewGroups F f (length serverIds) = Inr (int s, k) \<and> 1 \<le> s \<and> 1 \<le> k \<and>
     (\<forall>j s'. k < j \<longrightarrow> j \<le> length serverIds \<longrightarrow> CalcGroupSize F (length serverIds) j f = Inr (int s') \<longrightarrow> length serverIds < j * s') \<and>
     CreateSeparateGroupsWithSize shake rd Seed k s serverIds = Some (Inr gs) \<and>
     length gs = k \<and> (\<forall>g \<in> set gs. length (snd g) = s) \<and> distinct (concat (map snd gs))"
proof -
  obtain s k where k: "CalcFewGroups F f (length serverIds) = Inr (int s, k)" "1 \<le> s" "1 \<le> k" "k * s \<le> length serverIds"
    "\<forall>j. k < j \<longrightarrow> j \<le> length serverIds \<longrightarrow> \<not> fits F f (length serverIds) j"
    using CalcFewGroups_ok [OF assms(2), of F f] by blast
  obtain gs where gs: "CreateSeparateGroupsWithSize shake rd Seed k s serverIds = Some (Inr gs)" "map fst gs = map int [0..<k]"
    "\<forall>g \<in> set gs. length (snd g) = s" "distinct (concat (map snd gs))"
    using separate_groups_fit [OF assms(1,3) k(4), of shake Seed] by blast
  have "length gs = k" using arg_cong [OF gs(2), of length] by simp
  moreover have "length serverIds < j * s'" if "k < j" "j \<le> length serverIds" "CalcGroupSize F (length serverIds) j f = Inr (int s')" for j s'
    using k(5) that by (fastforce simp: fits_def)
  ultimately show ?thesis using k(1-3) gs(1,3,4) by blast
qed

text \<open>C36. The size of a link buffer is the tight one: \<^verbatim>\<open>BinSize2\<close> lies between \<open>1\<close> and one more than the number of messages;
  the bound on the probability of an overflow does not exceed the target for it or any larger size, and
  exceeds it for the next smaller one.\<close>

theorem bin_size_tight:
  assumes "b = BinSize2 F numTransitions numServers numMessages overflowProbability"
    and "target = Target F (numTransitions * numServers * numServers) overflowProbability"
  shows "1 \<le> b \<and> b \<le> numMessages + 1 \<and>
     (\<forall>b'. b \<le> b' \<longrightarrow> b' \<le> numMessages \<longrightarrow> \<not> fl_lt F target (overflow_bound F numServers numMessages b')) \<and>
     (1 < b \<longrightarrow> fl_lt F target (overflow_bound F numServers numMessages (b - 1)))"
  using shrink_bin_ok [of F "overflow_bound F numServers numMessages" target numMessages] assms by (simp add: BinSize2_def)

text \<open>The number of groups is the cheapest one: \<^verbatim>\<open>CalcFewGroups2\<close> returns a number of groups between \<open>1\<close> and the number of
  servers with the size computed for it, and no number of groups costs less, or none costs less than
  one group of all servers and it returns one group.\<close>

theorem cheapest_groups:
  assumes "lt_ok F" and "0 < n"
  shows "\<exists>s k. CalcFewGroups2 F f n = Inr (int s, k) \<and> CalcGroupSize F n k f = Inr (int s) \<and> 1 \<le> k \<and> k \<le> n \<and>
     (\<exists>best. (k = 1 \<and> best = fl_int F (int n) \<or> GroupSizeCost F (int s) k n = Inr best) \<and>
       (\<forall>j s' y. 1 \<le> j \<longrightarrow> j \<le> n \<longrightarrow> CalcGroupSize F n j f = Inr s' \<longrightarrow> GroupSizeCost F s' j n = Inr y \<longrightarrow> \<not> fl_lt F y best))"
proof -
  define ks where "ks = [1..<n + 1]"
  have m: "j \<in> set ks \<longleftrightarrow> 1 \<le> j \<and> j \<le> n" for j by (auto simp: ks_def)
  obtain k where k: "cheapest F f n ks (fl_int F (int n)) 1 = Inr k"
    "k = 1 \<and> (\<forall>j \<in> set ks. \<forall>y. cost_of F f n j = Inr y \<longrightarrow> \<not> fl_lt F y (fl_int F (int n))) \<or>
     (\<exists>x. k \<in> set ks \<and> cost_of F f n k = Inr x \<and> fl_lt F x (fl_int F (int n)) \<and>
        (\<forall>j \<in> set ks. \<forall>y. cost_of F f n j = Inr y \<longrightarrow> \<not> fl_lt F y x))"
    using cheapest_ok [OF assms, of f ks "fl_int F (int n)" 1] by blast
  obtain s x where s: "CalcGroupSize F n k f = Inr (int s)" "GroupSizeCost F (int s) k n = Inr x" "cost_of F f n k = Inr x"
    using cost_of_ok [OF assms(2), of F k f] by auto
  have "CalcFewGroups2 F f n = Inr (int s, k)" using k(1) s(1) by (simp only: CalcFewGroups2_def ks_def sbind_Inr)
  moreover have "1 \<le> k" "k \<le> n" using k(2) assms(2) m by auto
  moreover have "\<exists>best. (k = 1 \<and> best = fl_int F (int n) \<or> GroupSizeCost F (int s) k n = Inr best) \<and>
      (\<forall>j. 1 \<le> j \<longrightarrow> j \<le> n \<longrightarrow> (\<forall>y. cost_of F f n j = Inr y \<longrightarrow> \<not> fl_lt F y best))"
    using k(2)
  proof
    assume "k = 1 \<and> (\<forall>j \<in> set ks. \<forall>y. cost_of F f n j = Inr y \<longrightarrow> \<not> fl_lt F y (fl_int F (int n)))"
    then show ?thesis by (intro exI [of _ "fl_int F (int n)"] conjI disjI1) (simp_all add: m)
  next
    assume "\<exists>x. k \<in> set ks \<and> cost_of F f n k = Inr x \<and> fl_lt F x (fl_int F (int n)) \<and>
        (\<forall>j \<in> set ks. \<forall>y. cost_of F f n j = Inr y \<longrightarrow> \<not> fl_lt F y x)"
    then show ?thesis using s(2,3) by (intro exI [of _ x] conjI disjI2) (auto simp: m)
  qed
  ultimately show ?thesis using s(1) unfolding cost_of_def by (metis sbind_Inr)
qed

text \<open>Rationals as a toy floating point arithmetic, in which the target probability is \<open>1 / 8\<close>.\<close>

definition toy_floats :: "rat floats" where
  "toy_floats = \<lparr>fl_int = of_int, fl_add = (+), fl_sub = (-), fl_mul = (*), fl_div = (/), fl_neg = uminus, fl_lt = (<), fl_eq = (=),
     fl_sqrt = id, fl_log = id, fl_log2 = id, fl_log1p = id, fl_exp = id, fl_exp2 = (\<lambda>x. 1 / 8), fl_expm1 = id, fl_ceil = (\<lambda>x. of_int \<lceil>x\<rceil>),
     fl_ln2 = 1, fl_to_int = floor, fl_rat = id\<rparr>"

theorem group_size_least_witness:
  "\<exists>s. GroupSizeWithoutReplacement toy_floats 10 1 (2 / 5) = Inr s \<and> 1 \<le> s \<and> s \<le> 10"
proof -
  have "fl_to_int toy_floats (fl_ceil toy_floats (fl_mul toy_floats (fl_int toy_floats (int 10)) (2 / 5))) = int 4"
    by (simp add: toy_floats_def)
  from group_size_least [OF _ this, of 1] show ?thesis by auto
qed

theorem few_groups_separate_witness:
  "\<exists>s k gs. CalcFewGroups toy_floats (2 / 5) 5 = Inr (int s, k) \<and>
     CreateSeparateGroupsWithSize (\<lambda>_. 0) zero_reader [1] k s [0, 1, 2, 3, 4] = Some (Inr gs) \<and> distinct (concat (map snd gs))"
proof -
  have l: "length [0 :: int, 1, 2, 3, 4] = 5" by simp
  show ?thesis using few_groups_separate [OF zero_reader_ok, of "[0, 1, 2, 3, 4]" toy_floats "2 / 5" "\<lambda>_. 0" "[1]", unfolded l] by auto
qed

theorem bin_size_tight_witness: "1 \<le> BinSize2 toy_floats 2 3 10 (- 32) \<and> BinSize2 toy_floats 2 3 10 (- 32) \<le> 11"
  using bin_size_tight [OF refl refl, of toy_floats 2 3 10 "- 32"] by simp

theorem cheapest_groups_witness: "\<exists>s k. CalcFewGroups2 toy_floats (2 / 5) 5 = Inr (int s, k) \<and> 1 \<le> k \<and> k \<le> 5"
proof -
  have "lt_ok toy_floats" by (auto simp: lt_ok_def toy_floats_def)
  from cheapest_groups [OF this, of 5 "2 / 5"] show ?thesis by auto
qed

end
