(* ===== verification/Coordinator.thy ===== *)
theory Coordinator
  imports Rounds
begin

text \<open>
  The coordinator of an experiment, \<^verbatim>\<open>src/coordinator/coordinator.go\<close> and \<^verbatim>\<open>network.go\<close>: it makes the keys of
  the anytrust groups and splits them among the members, tells servers and clients when a round is set up,
  started and read, and checks the messages that come out. Servers and clients are reached through the
  record argument \<open>net\<close>; calls that run in parallel give the list of their results in the order they
  arrive, which is shorter than the list of calls when some never return. \<open>None\<close> is a call that waits for ever.
  Starting processes, profiles, time measurements and JSON files are not modelled; remote commands are in theory RemoteControl.
\<close>

section \<open>State\<close>

datatype net_type = Inprocess | Local | Remote

record 's group_secret_keys =
  gs_TokenSecretKey :: bytes
  gs_Ssk :: "'s option"
  gs_GroupKey :: bytes

type_synonym key_maps = "(int \<times> key_information) list list"

record 's coordinator =
  co_privateKeys :: key_maps
  co_groupSecretKeys :: "'s group_secret_keys"
  co_publicKeys :: key_information
  co_ServerConfigs :: "int list"
  co_GroupConfigs :: group_configs
  co_clientNetType :: net_type
  co_remoteClients :: nat

definition empty_information :: key_information where
  "empty_information = \<lparr>ki_GroupId = 0, ki_TokenPublicKey = [], ki_GroupKey = [], ki_TokenKeyShare = [], ki_GroupShare = []\<rparr>"

text \<open>\<open>c.privateKeys[sid][gid] = &coord.KeyInformation{}\<close>\<close>

fun place_members :: "int \<Rightarrow> int list \<Rightarrow> key_maps \<Rightarrow> key_maps res" where
  "place_members gid [] pk = Inr pk"
| "place_members gid (sid # sids) pk =
     sbind (go_index_int pk sid) (\<lambda>m.
     sbind (go_store_int pk sid (AList.update gid empty_information m)) (\<lambda>pk. place_members gid sids pk))"

fun place_groups :: "group_configs \<Rightarrow> key_maps \<Rightarrow> key_maps res" where
  "place_groups [] pk = Inr pk"
| "place_groups ((gid, servers) # gs) pk = sbind (place_members gid servers pk) (\<lambda>pk. place_groups gs pk)"

definition NewCoordinator :: "int list \<Rightarrow> group_configs \<Rightarrow> net_type \<Rightarrow> nat \<Rightarrow> 's coordinator res" where
  "NewCoordinator servers groups clientNetType remoteClients =
     sbind (place_groups groups (replicate (length servers) [])) (\<lambda>pk.
       Inr \<lparr>co_privateKeys = pk,
            co_groupSecretKeys = \<lparr>gs_TokenSecretKey = [], gs_Ssk = None, gs_GroupKey = []\<rparr>,
            co_publicKeys = empty_information, co_ServerConfigs = servers, co_GroupConfigs = groups,
            co_clientNetType = clientNetType, co_remoteClients = remoteClients\<rparr>)"

section \<open>Keys of the groups\<close>

text \<open>\<open>k := c.privateKeys[sid][gid]\<close> and assignments to fields of \<open>k\<close>.\<close>

definition update_key :: "int \<Rightarrow> int \<Rightarrow> (key_information \<Rightarrow> key_information) \<Rightarrow> key_maps \<Rightarrow> key_maps res" where
  "update_key sid gid f pk =
     sbind (go_index_int pk sid) (\<lambda>m.
       case map_of m gid of
         None \<Rightarrow> Inl (Panic NilDereference)
       | Some k \<Rightarrow> go_store_int pk sid (AList.update gid (f k) m))"

fun put_keys :: "int \<Rightarrow> (int \<times> (key_information \<Rightarrow> key_information)) list \<Rightarrow> key_maps \<Rightarrow> key_maps res" where
  "put_keys gid [] pk = Inr pk"
| "put_keys gid ((sid, f) # fs) pk = sbind (update_key sid gid f pk) (\<lambda>pk. put_keys gid fs pk)"

definition token_fields :: "int \<Rightarrow> bytes \<Rightarrow> bytes \<Rightarrow> key_information \<Rightarrow> key_information" where
  "token_fields gid pk share k = k\<lparr>ki_GroupId := gid, ki_TokenPublicKey := pk, ki_TokenKeyShare := share\<rparr>"

definition dh_fields :: "int \<Rightarrow> bytes \<Rightarrow> bytes \<Rightarrow> key_information \<Rightarrow> key_information" where
  "dh_fields gid groupKey share k = k\<lparr>ki_GroupId := gid, ki_GroupShare := share, ki_GroupKey := groupKey\<rparr>"

text \<open>\<open>rnd gid\<close> are the random scalars drawn for the group \<open>gid\<close>.\<close>

fun token_groups ::
  "('fr, 'g1, 'g2, 'gt) mcl \<Rightarrow> (int \<Rightarrow> nat \<Rightarrow> 'fr) \<Rightarrow> 'fr \<Rightarrow> group_configs \<Rightarrow> key_maps \<Rightarrow> key_maps res" where
  "token_groups M rnd secret [] pk = Inr pk"
| "token_groups M rnd secret ((gid, servers) # gs) pk =
     sbind (MockKeyGen M (rnd gid) (length servers) secret) (\<lambda>(shares, tpk, _).
     sbind (tpk_PackTo M tpk (zeros (G2_LEN M))) (\<lambda>tpkb.
     sbind (map_res (\<lambda>s. fr_PackTo M (tsk_Share s) (zeros (FR_LEN M))) shares) (\<lambda>bs.
     sbind (put_keys gid (zip servers (map (token_fields gid tpkb) bs)) pk) (\<lambda>pk.
     token_groups M rnd secret gs pk))))"

text \<open>\<open>skey\<close> is \<^verbatim>\<open>token.SecretKey.Share\<close>, the fixed key of the option \<^verbatim>\<open>SkipToken\<close>.\<close>

definition keyGenToken ::
  "('fr, 'g1, 'g2, 'gt) mcl \<Rightarrow> 'fr \<Rightarrow> (int \<Rightarrow> nat \<Rightarrow> 'fr) \<Rightarrow> 's coordinator \<Rightarrow> 'fr \<Rightarrow> 's coordinator res" where
  "keyGenToken M skey rnd c tokenSecretKey =
     (let tokenSecretKey = (if SkipToken_config then skey else tokenSecretKey) in
      sbind (token_groups M rnd tokenSecretKey (co_GroupConfigs c) (co_privateKeys c)) (\<lambda>pk.
      sbind (g2_PackTo M (tsk_X (NewTokenSigningKey M tokenSecretKey)) (zeros (G2_LEN M))) (\<lambda>b.
      Inr (c\<lparr>co_privateKeys := pk, co_publicKeys := (co_publicKeys c)\<lparr>ki_TokenPublicKey := b\<rparr>\<rparr>))))"

definition KeyGenToken ::
  "('fr, 'g1, 'g2, 'gt) mcl \<Rightarrow> 'fr \<Rightarrow> (int \<Rightarrow> nat \<Rightarrow> 'fr) \<Rightarrow> 'fr \<Rightarrow> 's coordinator \<Rightarrow> 's coordinator res" where
  "KeyGenToken M skey rnd tokenSecretKey c =
     sbind (keyGenToken M skey rnd c tokenSecretKey) (\<lambda>c.
     Inr (c\<lparr>co_groupSecretKeys := (co_groupSecretKeys c)\<lparr>gs_TokenSecretKey := fr_ser M tokenSecretKey\<rparr>\<rparr>))"

fun dh_groups :: "('s, 'p) lib \<Rightarrow> (int \<Rightarrow> nat \<Rightarrow> 's) \<Rightarrow> 's \<Rightarrow> bytes \<Rightarrow> group_configs \<Rightarrow> key_maps \<Rightarrow> key_maps res" where
  "dh_groups L rnd ssk groupKey [] pk = Inr pk"
| "dh_groups L rnd ssk groupKey ((gid, servers) # gs) pk =
     sbind (dh_AdditiveShares L (rnd gid) ssk (length servers)) (\<lambda>shares.
     sbind (put_keys gid (zip servers (map (\<lambda>s. dh_fields gid groupKey (sc_bytes L s)) shares)) pk) (\<lambda>pk.
     dh_groups L rnd ssk groupKey gs pk))"

definition genDHKeys ::
  "('s, 'p) lib \<Rightarrow> (int \<Rightarrow> nat \<Rightarrow> 's) \<Rightarrow> 's coordinator \<Rightarrow> 's \<Rightarrow> bytes \<Rightarrow> 's coordinator res" where
  "genDHKeys L rnd c ssk groupKey =
     sbind (dh_groups L rnd ssk groupKey (co_GroupConfigs c) (co_privateKeys c)) (\<lambda>pk.
     Inr (c\<lparr>co_privateKeys := pk, co_publicKeys := (co_publicKeys c)\<lparr>ki_GroupKey := groupKey\<rparr>\<rparr>))"

definition GenDHKeys :: "('s, 'p) lib \<Rightarrow> (int \<Rightarrow> nat \<Rightarrow> 's) \<Rightarrow> bytes \<Rightarrow> 's coordinator \<Rightarrow> 's coordinator res" where
  "GenDHKeys L rnd randomBytes c =
     sbind (NewDHKeyPair L randomBytes) (\<lambda>(ssk, spk).
     sbind (dhpk_PackTo L spk (zeros POINT_SIZE)) (\<lambda>groupKey.
     genDHKeys L rnd (c\<lparr>co_groupSecretKeys := (co_groupSecretKeys c)\<lparr>gs_Ssk := Some ssk, gs_GroupKey := groupKey\<rparr>\<rparr>)
       ssk groupKey))"

text \<open>\<open>secrets\<close> is what the file holds; the error of \<^verbatim>\<open>Deserialize\<close> is dropped, and \<open>left\<close> is what it leaves.\<close>

definition LoadKeys ::
  "('s, 'p) lib \<Rightarrow> ('fr, 'g1, 'g2, 'gt) mcl \<Rightarrow> 'fr \<Rightarrow> (int \<Rightarrow> nat \<Rightarrow> 'fr) \<Rightarrow> (int \<Rightarrow> nat \<Rightarrow> 's) \<Rightarrow> 'fr \<Rightarrow>
     's group_secret_keys \<Rightarrow> 's coordinator \<Rightarrow> 's coordinator res" where
  "LoadKeys L M skey trnd drnd left secrets c =
     (let c = c\<lparr>co_groupSecretKeys := secrets\<rparr>;
          tokenSecretKey = (case fr_deser M (gs_TokenSecretKey secrets) of Some x \<Rightarrow> x | None \<Rightarrow> left) in
      sbind (keyGenToken M skey trnd c tokenSecretKey) (\<lambda>c.
      case gs_Ssk secrets of
        None \<Rightarrow> Inl (Panic NilDereference)
      | Some ssk \<Rightarrow> genDHKeys L drnd c ssk (gs_GroupKey secrets)))"

section \<open>Calls to servers and clients\<close>

record 'n coordinator_net =
  nw_KeySet :: "int \<Rightarrow> key_information \<Rightarrow> 'n \<Rightarrow> 'n \<times> unit res"
  nw_client_KeySets :: "nat list \<Rightarrow> key_information \<Rightarrow> 'n \<Rightarrow> 'n \<times> unit res list"
  nw_RoundSetups :: "int list \<Rightarrow> round_info \<Rightarrow> 'n \<Rightarrow> 'n \<times> unit res list"
  nw_RoundStarts :: "int list \<Rightarrow> round_info \<Rightarrow> 'n \<Rightarrow> 'n \<times> unit res list"
  nw_GetMessages :: "int list \<Rightarrow> round_info \<Rightarrow> 'n \<Rightarrow> 'n \<times> bytes list option res list"
  nw_ClientStarts :: "(nat \<times> round_info) list \<Rightarrow> 'n \<Rightarrow> 'n \<times> unit res list"
  nw_CheckReceipt :: "nat \<Rightarrow> round_info \<Rightarrow> 'n \<Rightarrow> 'n \<times> unit res"
  nw_SendLoadedMessages :: "round_info \<Rightarrow> 'n \<Rightarrow> 'n \<times> unit res"
  nw_Receipts :: "'n \<Rightarrow> bytes list list"
  nw_RecordMessages :: "'n \<Rightarrow> 'n"

definition coordinator_retries :: nat where "coordinator_retries = 3"

text \<open>One attempt to send all keys of a server: it stops at the first error. A panic of a handler ends the process.\<close>

fun send_attempt ::
  "(key_information \<Rightarrow> 'n \<Rightarrow> 'n \<times> unit res) \<Rightarrow> key_information list \<Rightarrow> 'n \<Rightarrow> 'n \<times> bool res" where
  "send_attempt call [] n = (n, Inr True)"
| "send_attempt call (k # ks) n =
     (case call k n of
        (n, Inr _) \<Rightarrow> send_attempt call ks n
      | (n, Inl (Err e)) \<Rightarrow> (n, Inr False)
      | (n, Inl (Panic p)) \<Rightarrow> (n, Inl (Panic p)))"

fun send_retries ::
  "nat \<Rightarrow> (key_information \<Rightarrow> 'n \<Rightarrow> 'n \<times> unit res) \<Rightarrow> key_information list \<Rightarrow> 'n \<Rightarrow> 'n \<times> unit res" where
  "send_retries 0 call ks n = (n, Inr ())"
| "send_retries (Suc i) call ks n =
     (case send_attempt call ks n of
        (n, Inl e) \<Rightarrow> (n, Inl e)
      | (n, Inr ok) \<Rightarrow> if ok then (n, Inr ()) else send_retries i call ks n)"

text \<open>The keys of all servers, from number \<open>sid\<close> on; a server without a group gets the public keys, which
  are also stored in its map.\<close>

fun send_servers ::
  "'n coordinator_net \<Rightarrow> key_information \<Rightarrow> nat \<Rightarrow> key_maps \<Rightarrow> 'n \<Rightarrow> 'n \<times> key_maps \<times> unit res list" where
  "send_servers net publicKeys sid [] n = (n, [], [])"
| "send_servers net publicKeys sid (keys # rest) n =
     (let keys = (if length keys = 0 then [(0, publicKeys)] else keys);
          (n, r) = send_retries coordinator_retries (nw_KeySet net (int sid)) (map snd keys) n;
          (n, rest, ds) = send_servers net publicKeys (sid + 1) rest n
      in (n, keys # rest, (case r of Inl e \<Rightarrow> [Inl e] | Inr _ \<Rightarrow> [Inr ()]) @ ds))"

definition SendKeys ::
  "'n coordinator_net \<Rightarrow> 's coordinator \<Rightarrow> 'n \<Rightarrow> ('s coordinator \<times> 'n \<times> unit res) option" where
  "SendKeys net c n =
     (case send_servers net (co_publicKeys c) 0 (co_privateKeys c) n of (n, pk, ds) \<Rightarrow>
        let c = c\<lparr>co_privateKeys := pk\<rparr> in
        case collect_done (length (co_ServerConfigs c)) ds of
          None \<Rightarrow> None
        | Some (Inl e) \<Rightarrow> Some (c, n, Inl e)
        | Some (Inr _) \<Rightarrow>
            let ids = (if co_clientNetType c = Inprocess then [0] else [0..<co_remoteClients c]) in
            (case nw_client_KeySets net ids (co_publicKeys c) n of (n, ds) \<Rightarrow>
               (case collect_done (length ids) ds of None \<Rightarrow> None | Some r \<Rightarrow> Some (c, n, r))))"

text \<open>The part \<open>[start, end)\<close> of the clients that each client process simulates.\<close>

fun spans_from :: "nat \<Rightarrow> nat \<Rightarrow> nat \<Rightarrow> nat \<Rightarrow> (nat \<times> nat) list" where
  "spans_from 0 start skip extra = []"
| "spans_from (Suc k) start skip extra =
     (let e = start + skip; (e, extra) = (if extra > 0 then (e + 1, extra - 1) else (e, extra))
      in (start, e) # spans_from k e skip extra)"

definition Spans :: "nat \<Rightarrow> nat \<Rightarrow> (nat \<times> nat) list res" where
  "Spans n numSpans =
     (if numSpans = 0 then Inl (Panic DivideByZero) else Inr (spans_from numSpans 0 (n div numSpans) (n mod numSpans)))"

definition with_span :: "round_info \<Rightarrow> nat \<times> nat \<Rightarrow> round_info" where
  "with_span i s = i\<lparr>ri_StartId := int (fst s), ri_EndId := int (snd s)\<rparr>"

text \<open>In process the fields of the shared \<^verbatim>\<open>RoundInfo\<close> are set; it is part of the result.\<close>

definition SendClientStart ::
  "'n coordinator_net \<Rightarrow> 's coordinator \<Rightarrow> round_info \<Rightarrow> nat \<Rightarrow> 'n \<Rightarrow> (round_info \<times> 'n \<times> unit res) option" where
  "SendClientStart net c i numMessages n =
     (if co_clientNetType c = Inprocess then
        let i = with_span i (0, numMessages) in
        (case nw_ClientStarts net [(0, i)] n of (n, ds) \<Rightarrow> map_option (\<lambda>r. (i, n, r)) (collect_done 1 ds))
      else case Spans numMessages (co_remoteClients c) of
          Inl e \<Rightarrow> Some (i, n, Inl e)
        | Inr loads \<Rightarrow>
            (case nw_ClientStarts net (map (\<lambda>idx. (idx, with_span i (loads ! idx))) [0..<co_remoteClients c]) n of (n, ds) \<Rightarrow>
               map_option (\<lambda>r. (i, n, r)) (collect_done (co_remoteClients c) ds)))"

fun check_retries :: "nat \<Rightarrow> ('n \<Rightarrow> 'n \<times> unit res) \<Rightarrow> 'n \<Rightarrow> 'n \<times> unit res" where
  "check_retries 0 check n = (n, Inr ())"
| "check_retries (Suc j) check n =
     (case check n of
        (n, Inr _) \<Rightarrow> (n, Inr ())
      | (n, Inl (Err e)) \<Rightarrow> check_retries j check n
      | (n, Inl (Panic p)) \<Rightarrow> (n, Inl (Panic p)))"

fun check_clients :: "'n coordinator_net \<Rightarrow> (nat \<times> round_info) list \<Rightarrow> 'n \<Rightarrow> 'n \<times> unit res list" where
  "check_clients net [] n = (n, [])"
| "check_clients net ((idx, info) # cs) n =
     (let (n, r) = check_retries coordinator_retries (nw_CheckReceipt net idx info) n; (n, ds) = check_clients net cs n
      in (n, r # ds))"

definition CheckClientReceipt ::
  "'n coordinator_net \<Rightarrow> 's coordinator \<Rightarrow> round_info \<Rightarrow> nat \<Rightarrow> 'n \<Rightarrow> (round_info \<times> 'n \<times> unit res) option" where
  "CheckClientReceipt net c i numMessages n =
     (if co_clientNetType c = Inprocess then
        let i = with_span i (0, numMessages) in
        (case nw_CheckReceipt net 0 i n of (n, r) \<Rightarrow> Some (i, n, r))
      else case Spans numMessages (co_remoteClients c) of
          Inl e \<Rightarrow> Some (i, n, Inl e)
        | Inr loads \<Rightarrow>
            (case check_clients net (map (\<lambda>idx. (idx, with_span i (loads ! idx))) [0..<co_remoteClients c]) n of (n, ds) \<Rightarrow>
               map_option (\<lambda>r. (i, n, r)) (collect_done (co_remoteClients c) ds)))"

definition SendRoundSetup ::
  "'n coordinator_net \<Rightarrow> 's coordinator \<Rightarrow> round_info \<Rightarrow> 'n \<Rightarrow> ('n \<times> unit res) option" where
  "SendRoundSetup net c i n =
     (case nw_RoundSetups net (co_ServerConfigs c) i n of (n, ds) \<Rightarrow>
        map_option (Pair n) (collect_done (length (co_ServerConfigs c)) ds))"

definition SendRoundStart ::
  "'n coordinator_net \<Rightarrow> 's coordinator \<Rightarrow> round_info \<Rightarrow> 'n \<Rightarrow> ('n \<times> unit res) option" where
  "SendRoundStart net c i n =
     (case nw_RoundStarts net (co_ServerConfigs c) i n of (n, ds) \<Rightarrow>
        map_option (Pair n) (collect_done (length (co_ServerConfigs c)) ds))"

text \<open>The messages of all servers, appended in the order of arrival.\<close>

fun collect_messages :: "nat \<Rightarrow> bytes list option res list \<Rightarrow> bytes list \<Rightarrow> bytes list res option" where
  "collect_messages 0 rs acc = Some (Inr acc)"
| "collect_messages (Suc k) [] acc = None"
| "collect_messages (Suc k) (Inl e # rs) acc = Some (Inl e)"
| "collect_messages (Suc k) (Inr m # rs) acc = collect_messages k rs (case m of None \<Rightarrow> acc | Some ms \<Rightarrow> acc @ ms)"

definition coordinator_GetMessages ::
  "'n coordinator_net \<Rightarrow> 's coordinator \<Rightarrow> round_info \<Rightarrow> 'n \<Rightarrow> ('n \<times> bytes list res) option" where
  "coordinator_GetMessages net c i n =
     (case nw_GetMessages net (co_ServerConfigs c) i n of (n, rs) \<Rightarrow>
        map_option (Pair n) (collect_messages (length (co_ServerConfigs c)) rs []))"

section \<open>Checks of the outcome\<close>

fun check_messages :: "int \<Rightarrow> bytes list \<Rightarrow> int list \<Rightarrow> int list option res" where
  "check_messages numExpected [] seen = Inr (Some seen)"
| "check_messages numExpected (m # ms) seen =
     (if length m < 8 then Inl (Panic IndexOutOfRange)
      else let c = get_le (take 8 m) in
        if c < numExpected mod 2 ^ 64 then check_messages numExpected ms (if c \<in> set seen then seen else c # seen)
        else Inr None)"

definition Check :: "bytes list \<Rightarrow> int \<Rightarrow> bool res" where
  "Check messages numExpected =
     sbind (check_messages numExpected messages []) (\<lambda>r.
       Inr (case r of None \<Rightarrow> False | Some seen \<Rightarrow> int (length seen) = numExpected))"

fun find_receipts :: "bytes list \<Rightarrow> int \<Rightarrow> bytes list list \<Rightarrow> bool res" where
  "find_receipts receipts round [] = Inr True"
| "find_receipts receipts round (rs # clients) =
     sbind (go_index_int rs round) (\<lambda>receipt.
     sbind (find_receipts receipts round clients) (\<lambda>ok. Inr (receipt \<in> set receipts \<and> ok)))"

definition CheckReceipts :: "bytes list \<Rightarrow> int \<Rightarrow> bytes list list \<Rightarrow> bool res" where
  "CheckReceipts receipts round clients =
     (if length receipts \<noteq> length clients then Inr False else find_receipts receipts round clients)"

section \<open>Running an experiment\<close>

record coord_experiment =
  ex_Info :: round_info
  ex_NumMessages :: nat
  ex_KeyGen :: bool
  ex_DoRound :: bool
  ex_LoadKeys :: bool
  ex_Passed :: bool

type_synonym ('s, 'n) run = "'s coordinator \<times> coord_experiment \<times> 'n"

text \<open>Go on only when the step before has returned without an error.\<close>

definition and_then :: "('a \<times> unit res) option \<Rightarrow> ('a \<Rightarrow> ('a \<times> unit res) option) \<Rightarrow> ('a \<times> unit res) option" where
  "and_then r f = (case r of None \<Rightarrow> None | Some (x, Inl e) \<Rightarrow> Some (x, Inl e) | Some (x, Inr _) \<Rightarrow> f x)"

definition run_keys ::
  "('s coordinator \<Rightarrow> 's coordinator res) \<Rightarrow> 'n coordinator_net \<Rightarrow> ('s, 'n) run \<Rightarrow> (('s, 'n) run \<times> unit res) option" where
  "run_keys keyGen net st =
     (case st of (c, ex, n) \<Rightarrow>
        case (if ex_KeyGen ex then keyGen c else Inr c) of
          Inl e \<Rightarrow> Some ((c, ex, n), Inl e)
        | Inr c \<Rightarrow>
            if ex_KeyGen ex \<or> ex_LoadKeys ex
            then map_option (\<lambda>(c, n, r). ((c, ex, n), r)) (SendKeys net c n)
            else Some ((c, ex, n), Inr ()))"

definition run_clients :: "'n coordinator_net \<Rightarrow> ('s, 'n) run \<Rightarrow> (('s, 'n) run \<times> unit res) option" where
  "run_clients net st =
     (case st of (c, ex, n) \<Rightarrow>
        if ex_LoadKeys ex then
          (case nw_SendLoadedMessages net (ex_Info ex) n of (n, r) \<Rightarrow> Some ((c, ex, n), r))
        else map_option (\<lambda>(i, n, r). ((c, ex\<lparr>ex_Info := i\<rparr>, n), r))
               (SendClientStart net c (ex_Info ex) (ex_NumMessages ex) n))"

definition run_setup :: "'n coordinator_net \<Rightarrow> ('s, 'n) run \<Rightarrow> (('s, 'n) run \<times> unit res) option" where
  "run_setup net st =
     (case st of (c, ex, n) \<Rightarrow>
        if \<not> ri_PathEstablishment (ex_Info ex) \<or> ri_Round (ex_Info ex) = 0 then
          and_then (map_option (\<lambda>(n, r). ((c, ex, n), r)) (SendRoundSetup net c (ex_Info ex) n)) (run_clients net)
        else Some ((c, ex, n), Inr ()))"

definition run_start :: "'n coordinator_net \<Rightarrow> ('s, 'n) run \<Rightarrow> (('s, 'n) run \<times> unit res) option" where
  "run_start net st =
     (case st of (c, ex, n) \<Rightarrow>
        if \<not> (ri_PathEstablishment (ex_Info ex) \<and> ri_Round (ex_Info ex) = 0)
        then map_option (\<lambda>(n, r). ((c, ex, n), r)) (SendRoundStart net c (ex_Info ex) n)
        else Some ((c, ex, n), Inr ()))"

definition run_receipts :: "'n coordinator_net \<Rightarrow> ('s, 'n) run \<Rightarrow> (('s, 'n) run \<times> unit res) option" where
  "run_receipts net st =
     (case st of (c, ex, n) \<Rightarrow>
        case coordinator_GetMessages net c (ex_Info ex) n of
          None \<Rightarrow> None
        | Some (n, Inl e) \<Rightarrow> Some ((c, ex, n), Inl e)
        | Some (n, Inr messages) \<Rightarrow>
            if co_clientNetType c = Inprocess \<and> ri_Check (ex_Info ex) then
              (case CheckReceipts messages (ri_Round (ex_Info ex)) (nw_Receipts net n) of
                 Inl e \<Rightarrow> Some ((c, ex, n), Inl e)
               | Inr ok \<Rightarrow> Some ((c, ex\<lparr>ex_Passed := ok\<rparr>, n), if ok then Inr () else Inl (Err WrongReceipt)))
            else Some ((c, ex\<lparr>ex_Passed := True\<rparr>, n), Inr ()))"

definition run_check :: "'n coordinator_net \<Rightarrow> ('s, 'n) run \<Rightarrow> (('s, 'n) run \<times> unit res) option" where
  "run_check net st =
     (case st of (c, ex, n) \<Rightarrow>
        if ri_PathEstablishment (ex_Info ex) then
          if ri_ReceiptLayer (ex_Info ex) = 0 \<and> ri_Round (ex_Info ex) \<noteq> 0 then
            and_then (map_option (\<lambda>(i, n, r). ((c, ex\<lparr>ex_Info := i\<rparr>, n), r))
                (CheckClientReceipt net c (ex_Info ex) (ex_NumMessages ex) n))
              (\<lambda>(c, ex, n). Some ((c, ex\<lparr>ex_Passed := True\<rparr>, n), Inr ()))
          else if ri_ReceiptLayer (ex_Info ex) > 0 then run_receipts net (c, ex, n)
          else Some ((c, ex\<lparr>ex_Passed := True\<rparr>, n), Inr ())
        else
          (case coordinator_GetMessages net c (ex_Info ex) n of
             None \<Rightarrow> None
           | Some (n, Inl e) \<Rightarrow> Some ((c, ex, n), Inl e)
           | Some (n, Inr messages) \<Rightarrow>
               (case Check messages (int (ex_NumMessages ex)) of
                  Inl e \<Rightarrow> Some ((c, ex, n), Inl e)
                | Inr ok \<Rightarrow> Some ((c, ex\<lparr>ex_Passed := ok\<rparr>, n), Inr ()))))"

text \<open>\<open>keyGen\<close> is \<^verbatim>\<open>KeyGenToken\<close> followed by \<^verbatim>\<open>GenDHKeys\<close>, with the random numbers they draw.\<close>

definition key_gen ::
  "('s, 'p) lib \<Rightarrow> ('fr, 'g1, 'g2, 'gt) mcl \<Rightarrow> 'fr \<Rightarrow> (int \<Rightarrow> nat \<Rightarrow> 'fr) \<Rightarrow> 'fr \<Rightarrow> (int \<Rightarrow> nat \<Rightarrow> 's) \<Rightarrow> bytes \<Rightarrow>
     's coordinator \<Rightarrow> 's coordinator res" where
  "key_gen L M skey trnd tokenSecretKey drnd randomBytes c =
     sbind (KeyGenToken M skey trnd tokenSecretKey c) (\<lambda>c. GenDHKeys L drnd randomBytes c)"

definition DoAction ::
  "('s coordinator \<Rightarrow> 's coordinator res) \<Rightarrow> 'n coordinator_net \<Rightarrow> ('s, 'n) run \<Rightarrow> (('s, 'n) run \<times> unit res) option" where
  "DoAction keyGen net st =
     and_then (run_keys keyGen net st) (\<lambda>(c, ex, n).
       if ex_DoRound ex
       then and_then (and_then (run_setup net (c, ex, n)) (run_start net)) (run_check net)
       else Some ((c, ex, n), Inr ()))"

definition WriteKeys ::
  "('s coordinator \<Rightarrow> 's coordinator res) \<Rightarrow> 'n coordinator_net \<Rightarrow> 's coordinator \<Rightarrow> 'n \<Rightarrow>
     ('s coordinator \<times> 'n \<times> 's group_secret_keys res) option" where
  "WriteKeys keyGen net c n =
     (case keyGen c of
        Inl e \<Rightarrow> Some (c, n, Inl e)
      | Inr c \<Rightarrow>
          (case SendKeys net c n of
             None \<Rightarrow> None
           | Some (c, n, Inl e) \<Rightarrow> Some (c, n, Inl (panic_err e))
           | Some (c, n, Inr _) \<Rightarrow> Some (c, n, Inr (co_groupSecretKeys c))))"

text \<open>Recording the messages of the clients in a file: \<^verbatim>\<open>RecordMessageFile\<close> of the client runner is set.\<close>

definition WriteMessages ::
  "'n coordinator_net \<Rightarrow> 's coordinator \<Rightarrow> coord_experiment \<Rightarrow> 'n \<Rightarrow> (coord_experiment \<times> 'n \<times> unit res) option" where
  "WriteMessages net c ex n =
     (if co_clientNetType c \<noteq> Inprocess then Some (ex, n, Inl (Panic (PanicError UnimplementedError)))
      else case SendRoundSetup net c (ex_Info ex) (nw_RecordMessages net n) of
          None \<Rightarrow> None
        | Some (n, Inl e) \<Rightarrow> Some (ex, n, Inl (panic_err e))
        | Some (n, Inr _) \<Rightarrow>
            map_option (\<lambda>(i, n, r). (ex\<lparr>ex_Info := i\<rparr>, n, case r of Inl e \<Rightarrow> Inl (panic_err e) | Inr _ \<Rightarrow> Inr ()))
              (SendClientStart net c (ex_Info ex) (ex_NumMessages ex) n))"

text \<open>Loading them again: the file of the client runner is set.\<close>

definition LoadMessages :: "'n coordinator_net \<Rightarrow> 's coordinator \<Rightarrow> 'n \<Rightarrow> 'n res" where
  "LoadMessages net c n =
     (if co_clientNetType c \<noteq> Inprocess then Inl (Panic (PanicError UnimplementedError)) else Inr (nw_RecordMessages net n))"

section \<open>Lemmas on the checks\<close>

text \<open>The number a test message carries.\<close>

definition test_value :: "bytes \<Rightarrow> int" where
  "test_value m = get_le (take 8 m)"

lemma check_messages_ok:
  assumes "\<forall>m \<in> set ms. 8 \<le> length m" "distinct seen" "set seen \<subseteq> {0..<k}" "0 \<le> k" "k < 2 ^ 64"
  shows "if test_value ` set ms \<subseteq> {0..<k}
         then \<exists>s. check_messages k ms seen = Inr (Some s) \<and> distinct s \<and> set s = set seen \<union> test_value ` set ms
         else check_messages k ms seen = Inr None"
  using assms(1-3)
proof (induction ms arbitrary: seen)
  case Nil
  then show ?case by simp
next
  case (Cons m ms)
  have l: "\<not> length m < 8" using Cons.prems(1) by auto
  have k: "k mod 2 ^ 64 = k" using assms(4,5) by (rule mod_pos_pos_trivial)
  have v: "0 \<le> test_value m" by (simp add: test_value_def)
  show ?case
  proof (cases "test_value m < k")
    case True
    let ?seen = "if test_value m \<in> set seen then seen else test_value m # seen"
    have "check_messages k (m # ms) seen = check_messages k ms ?seen"
      using True l unfolding check_messages.simps k Let_def test_value_def [symmetric] by (simp only: if_True if_False)
    moreover have "distinct ?seen" "set ?seen \<subseteq> {0..<k}" "set ?seen = insert (test_value m) (set seen)"
      using Cons.prems(2,3) True v by auto
    ultimately show ?thesis using Cons.IH [of ?seen] Cons.prems(1) True v by auto
  next
    case False
    have "check_messages k (m # ms) seen = Inr None"
      using False l unfolding check_messages.simps k Let_def test_value_def [symmetric] by (simp only: if_False)
    then show ?thesis using False by auto
  qed
qed

lemma Check_exact:
  assumes "\<forall>m \<in> set ms. 8 \<le> length m" "0 \<le> k" "k < 2 ^ 64"
  shows "Check ms k = Inr (test_value ` set ms = {0..<k})"
proof (cases "test_value ` set ms \<subseteq> {0..<k}")
  case True
  obtain s where s: "check_messages k ms [] = Inr (Some s)" "distinct s" "set s = test_value ` set ms"
    using check_messages_ok [OF assms(1), of "[]" k] True assms(2,3) by auto
  have "int (length s) = k \<longleftrightarrow> test_value ` set ms = {0..<k}"
  proof
    assume "int (length s) = k"
    then have "card (set s) = card {0..<k}" using distinct_card [OF s(2)] by simp
    then show "test_value ` set ms = {0..<k}" using card_subset_eq [of "{0..<k}" "set s"] True s(3) by simp
  next
    assume "test_value ` set ms = {0..<k}"
    then show "int (length s) = k" using distinct_card [OF s(2)] s(3) assms(2) by simp
  qed
  then show ?thesis using s(1) by (simp add: Check_def)
next
  case False
  then have "check_messages k ms [] = Inr None" using check_messages_ok [OF assms(1), of "[]" k] assms(2,3) by auto
  then show ?thesis using False by (auto simp: Check_def)
qed

lemma short_message_panics:
  assumes "check_messages k ms seen = Inr (Some s)"
  shows "\<forall>m \<in> set ms. 8 \<le> length m"
  using assms by (induction k ms seen rule: check_messages.induct) (auto simp: Let_def split: if_splits)

lemma Check_passed:
  assumes "Check ms k = Inr True" "0 \<le> k" "k < 2 ^ 64"
  shows "(\<forall>m \<in> set ms. 8 \<le> length m) \<and> test_value ` set ms = {0..<k}"
proof -
  obtain s where "check_messages k ms [] = Inr (Some s)" using assms(1) by (auto simp: Check_def split: option.splits)
  then have l: "\<forall>m \<in> set ms. 8 \<le> length m" by (rule short_message_panics)
  then show ?thesis using Check_exact [OF l assms(2,3)] assms(1) by simp
qed

lemma check_messages_over:
  assumes "check_messages k ms seen = Inr None" "0 \<le> k" "k < 2 ^ 64"
  shows "\<exists>m \<in> set ms. k \<le> test_value m"
  using assms
proof (induction k ms seen rule: check_messages.induct)
  case (2 k m ms seen)
  have k: "k mod 2 ^ 64 = k" using 2(3,4) by (rule mod_pos_pos_trivial)
  show ?case
  proof (cases "k \<le> test_value m")
    case False
    moreover have "\<not> length m < 8" using 2(2) by auto
    ultimately show ?thesis using 2 unfolding check_messages.simps k Let_def test_value_def by auto
  qed simp
qed simp

lemma Check_answer:
  assumes "Check ms k = Inr ok" "0 \<le> k" "k < 2 ^ 64"
  shows "ok \<longleftrightarrow> test_value ` set ms = {0..<k}"
proof -
  obtain r where r: "check_messages k ms [] = Inr r" using assms(1) by (cases "check_messages k ms []") (auto simp: Check_def)
  show ?thesis
  proof (cases r)
    case None
    then obtain m where "m \<in> set ms" "k \<le> test_value m" using check_messages_over [of k ms "[]"] r assms(2,3) by auto
    then have "test_value m \<in> test_value ` set ms" "test_value m \<notin> {0..<k}" by simp_all
    then have "test_value ` set ms \<noteq> {0..<k}" by metis
    then show ?thesis using None r assms(1) by (simp add: Check_def)
  next
    case (Some s)
    then show ?thesis using Check_exact [OF short_message_panics assms(2,3)] r assms(1) by simp
  qed
qed

lemma collect_messages_ok:
  "collect_messages k rs acc = Some (Inr out) \<Longrightarrow>
     k \<le> length rs \<and> (\<exists>mss. take k rs = map Inr mss \<and> out = acc @ concat (map (\<lambda>m. case m of None \<Rightarrow> [] | Some ms \<Rightarrow> ms) mss))"
proof (induction k rs acc rule: collect_messages.induct)
  case (4 k m rs acc)
  then obtain mss where "k \<le> length rs" "take k rs = map Inr mss"
    "out = (case m of None \<Rightarrow> acc | Some ms \<Rightarrow> acc @ ms) @ concat (map (\<lambda>m. case m of None \<Rightarrow> [] | Some ms \<Rightarrow> ms) mss)"
    by auto
  then show ?case by (intro conjI exI [of _ "m # mss"]) (auto split: option.splits)
qed simp_all

lemma and_then_ok:
  "and_then r f = Some (y, Inr ()) \<longleftrightarrow> (\<exists>x. r = Some (x, Inr ()) \<and> f x = Some (y, Inr ()))"
  by (auto simp: and_then_def split: option.splits sum.splits)

lemma run_keys_frame:
  assumes "run_keys keyGen net (c, ex, n) = Some ((c', ex', n'), Inr ())"
  shows "ex' = ex"
  using assms by (auto simp: run_keys_def split: sum.splits if_splits)

lemma SendClientStart_info:
  assumes "SendClientStart net c i k n = Some (i', n', r)"
  shows "ri_PathEstablishment i' = ri_PathEstablishment i"
proof (cases "co_clientNetType c = Inprocess")
  case True
  then show ?thesis using assms
    by (cases "nw_ClientStarts net [(0, with_span i (0, k))] n") (auto simp: SendClientStart_def with_span_def)
next
  case False
  then show ?thesis using assms by (auto simp: SendClientStart_def split: sum.splits prod.splits)
qed

lemma run_clients_frame:
  assumes "run_clients net (c, ex, n) = Some ((c', ex', n'), Inr ())"
  shows "c' = c \<and> ex_NumMessages ex' = ex_NumMessages ex \<and>
     ri_PathEstablishment (ex_Info ex') = ri_PathEstablishment (ex_Info ex)"
proof (cases "ex_LoadKeys ex")
  case True
  then show ?thesis using assms by (simp add: run_clients_def split: prod.splits)
next
  case False
  then obtain i r where i: "SendClientStart net c (ex_Info ex) (ex_NumMessages ex) n = Some (i, n', r)"
    "c' = c" "ex' = ex\<lparr>ex_Info := i\<rparr>" using assms by (auto simp: run_clients_def)
  then show ?thesis using SendClientStart_info [OF i(1)] by simp
qed

lemma run_setup_frame:
  assumes "run_setup net (c, ex, n) = Some ((c', ex', n'), Inr ())"
  shows "c' = c \<and> ex_NumMessages ex' = ex_NumMessages ex \<and>
     ri_PathEstablishment (ex_Info ex') = ri_PathEstablishment (ex_Info ex)"
proof (cases "\<not> ri_PathEstablishment (ex_Info ex) \<or> ri_Round (ex_Info ex) = 0")
  case False
  then show ?thesis using assms by (simp add: run_setup_def)
next
  case True
  then obtain n1 where "run_clients net (c, ex, n1) = Some ((c', ex', n'), Inr ())"
    using assms by (auto simp: run_setup_def and_then_ok)
  then show ?thesis by (rule run_clients_frame)
qed

lemma run_start_frame:
  assumes "run_start net (c, ex, n) = Some ((c', ex', n'), Inr ())"
  shows "c' = c \<and> ex' = ex"
  using assms by (auto simp: run_start_def split: if_splits)

lemma spans_from_cover:
  assumes "extra \<le> k"
  shows "length (spans_from k start skip extra) = k \<and>
     concat (map (\<lambda>(a, b). [a..<b]) (spans_from k start skip extra)) = [start..<start + k * skip + extra] \<and>
     (\<forall>(a, b) \<in> set (spans_from k start skip extra). b = a + skip \<or> b = a + skip + 1)"
  using assms
proof (induction k arbitrary: start extra)
  case 0
  then show ?case by simp
next
  case (Suc k)
  define e where "e = (if extra > 0 then start + skip + 1 else start + skip)"
  have s: "spans_from (Suc k) start skip extra = (start, e) # spans_from k e skip (extra - 1)"
    by (cases "extra > 0") (simp_all add: e_def Let_def)
  have "extra - 1 \<le> k" using Suc.prems by simp
  note IH = Suc.IH [OF this, of e]
  have "[start..<e] @ [e..<e + k * skip + (extra - 1)] = [start..<e + k * skip + (extra - 1)]"
    using upt_add_eq_append [of start e "k * skip + (extra - 1)"] by (simp add: e_def add.assoc)
  also have "e + k * skip + (extra - 1) = start + Suc k * skip + extra" by (simp add: e_def)
  finally show ?case unfolding s using IH by (auto simp: e_def add.assoc)
qed

lemma passed_round_messages:
  assumes run: "DoAction keyGen net (c, ex, n) = Some ((c', ex', n'), Inr ())"
    and "ex_DoRound ex" and "\<not> ri_PathEstablishment (ex_Info ex)" and "ex_Passed ex'" and "int (ex_NumMessages ex) < 2 ^ 64"
  shows "\<exists>n1 mss rest. nw_GetMessages net (co_ServerConfigs c') (ex_Info ex') n1 = (n', map Inr mss @ rest) \<and>
     length mss = length (co_ServerConfigs c') \<and>
     test_value ` set (concat (map (\<lambda>m. case m of None \<Rightarrow> [] | Some ms \<Rightarrow> ms) mss)) = {0..<int (ex_NumMessages ex)}"
proof -
  obtain c1 ex1 n1 where k: "run_keys keyGen net (c, ex, n) = Some ((c1, ex1, n1), Inr ())"
    and r: "and_then (and_then (run_setup net (c1, ex1, n1)) (run_start net)) (run_check net) = Some ((c', ex', n'), Inr ())"
    using run assms(2) run_keys_frame [of keyGen net c ex n] by (fastforce simp: DoAction_def and_then_ok split: if_splits)
  obtain c2 ex2 n2 where u: "run_setup net (c1, ex1, n1) = Some ((c2, ex2, n2), Inr ())"
    and r2: "and_then (run_start net (c2, ex2, n2)) (run_check net) = Some ((c', ex', n'), Inr ())"
    using r by (auto simp: and_then_ok)
  obtain n3 where t: "run_check net (c2, ex2, n3) = Some ((c', ex', n'), Inr ())"
    using r2 run_start_frame [of net c2 ex2 n2] by (auto simp: and_then_ok)
  have f: "ex1 = ex" "ex_NumMessages ex2 = ex_NumMessages ex" "\<not> ri_PathEstablishment (ex_Info ex2)"
    using run_keys_frame [OF k] run_setup_frame [OF u] assms(3) by auto
  obtain messages ok where g: "coordinator_GetMessages net c2 (ex_Info ex2) n3 = Some (n', Inr messages)"
    and "Check messages (int (ex_NumMessages ex2)) = Inr ok" and e: "c' = c2" "ex' = ex2\<lparr>ex_Passed := ok\<rparr>"
    using t f(3) by (auto simp: run_check_def split: option.splits sum.splits prod.splits)
  then have "Check messages (int (ex_NumMessages ex)) = Inr True" using assms(4) f(2) by simp
  then have v: "test_value ` set messages = {0..<int (ex_NumMessages ex)}" using Check_passed [of messages] assms(5) by simp
  obtain rs where rs: "nw_GetMessages net (co_ServerConfigs c2) (ex_Info ex2) n3 = (n', rs)"
    "collect_messages (length (co_ServerConfigs c2)) rs [] = Some (Inr messages)"
    using g by (auto simp: coordinator_GetMessages_def split: prod.splits)
  obtain mss where "length (co_ServerConfigs c2) \<le> length rs" and m: "take (length (co_ServerConfigs c2)) rs = map Inr mss"
    "messages = concat (map (\<lambda>m. case m of None \<Rightarrow> [] | Some ms \<Rightarrow> ms) mss)"
    using collect_messages_ok [OF rs(2)] by auto
  then have "length mss = length (co_ServerConfigs c2)" by (metis length_map length_take min.absorb2)
  moreover have "rs = map Inr mss @ drop (length (co_ServerConfigs c2)) rs" by (metis append_take_drop_id m(1))
  ultimately have "nw_GetMessages net (co_ServerConfigs c') (ex_Info ex') n3 = (n', map Inr mss @ drop (length (co_ServerConfigs c2)) rs)"
    "length mss = length (co_ServerConfigs c')" using rs(1) e by simp_all
  then show ?thesis using v unfolding m(2) by blast
qed

section \<open>Properties\<close>

text \<open>Every simulated client belongs to one client process: the spans of \<^verbatim>\<open>Spans(total, numSpans)\<close> follow each
  other from \<open>0\<close> to \<open>total\<close>, and their lengths differ by at most one.\<close>

theorem spans_partition_clients:
  assumes "0 < numSpans"
  shows "\<exists>ss. Spans n numSpans = Inr ss \<and> length ss = numSpans \<and> concat (map (\<lambda>(a, b). [a..<b]) ss) = [0..<n] \<and>
     (\<forall>(a, b) \<in> set ss. b - a = n div numSpans \<or> b - a = n div numSpans + 1)"
proof -
  have "n mod numSpans \<le> numSpans" using assms by (simp add: less_imp_le)
  note c = spans_from_cover [OF this, of 0 "n div numSpans"]
  have "numSpans * (n div numSpans) + n mod numSpans = n" by simp
  then show ?thesis using c assms by (fastforce simp: Spans_def)
qed

theorem spans_partition_clients_witness: "\<exists>ss. Spans 7 3 = Inr ss \<and> concat (map (\<lambda>(a, b). [a..<b]) ss) = [0..<7]"
  using spans_partition_clients [of 3 7] by auto

text \<open>An experiment that passes has delivered every message: when \<^verbatim>\<open>DoAction\<close> ends a lightning round without
  an error and sets \<^verbatim>\<open>Passed\<close>, every server has answered \<^verbatim>\<open>GetMessages\<close>, and the numbers in the messages
  they returned are exactly \<open>0, \<dots>, NumMessages - 1\<close>.\<close>

theorem passed_round_delivered_all:
  assumes run: "DoAction keyGen net (c, ex, n) = Some ((c', ex', n'), Inr ())"
    and "ex_DoRound ex" and "\<not> ri_PathEstablishment (ex_Info ex)" and "ex_Passed ex'" and "int (ex_NumMessages ex) < 2 ^ 64"
  shows "\<exists>n1 mss rest. nw_GetMessages net (co_ServerConfigs c') (ex_Info ex') n1 = (n', map Inr mss @ rest) \<and>
     length mss = length (co_ServerConfigs c') \<and>
     test_value ` set (concat (map (\<lambda>m. case m of None \<Rightarrow> [] | Some ms \<Rightarrow> ms) mss)) = {0..<int (ex_NumMessages ex)}"
  using assms by (rule passed_round_messages)

text \<open>A network of one server that returns the test messages \<open>0\<close> and \<open>1\<close>, and one client process.\<close>

definition sample_net :: "nat coordinator_net" where
  "sample_net =
     \<lparr>nw_KeySet = (\<lambda>sid k n. (n, Inr ())), nw_client_KeySets = (\<lambda>ids k n. (n, map (\<lambda>_. Inr ()) ids)),
      nw_RoundSetups = (\<lambda>ids i n. (n, map (\<lambda>_. Inr ()) ids)), nw_RoundStarts = (\<lambda>ids i n. (n, map (\<lambda>_. Inr ()) ids)),
      nw_GetMessages = (\<lambda>ids i n. (n + 1, map (\<lambda>_. Inr (Some [put_le 8 1, put_le 8 0])) ids)),
      nw_ClientStarts = (\<lambda>cs n. (n, map (\<lambda>_. Inr ()) cs)), nw_CheckReceipt = (\<lambda>idx i n. (n, Inr ())),
      nw_SendLoadedMessages = (\<lambda>i n. (n, Inr ())), nw_Receipts = (\<lambda>n. []), nw_RecordMessages = (\<lambda>n. n)\<rparr>"

definition sample_coordinator :: "256 word coordinator" where
  "sample_coordinator = \<lparr>co_privateKeys = [[]], co_groupSecretKeys = \<lparr>gs_TokenSecretKey = [], gs_Ssk = None, gs_GroupKey = []\<rparr>,
     co_publicKeys = empty_information, co_ServerConfigs = [0], co_GroupConfigs = [], co_clientNetType = Inprocess, co_remoteClients = 0\<rparr>"

definition sample_experiment :: coord_experiment where
  "sample_experiment = \<lparr>ex_Info = sample_round, ex_NumMessages = 2, ex_KeyGen = False, ex_DoRound = True, ex_LoadKeys = False, ex_Passed = False\<rparr>"

theorem passed_round_delivered_all_witness:
  "\<exists>c' ex' n' n1 mss rest. DoAction Inr sample_net (sample_coordinator, sample_experiment, 0) = Some ((c', ex', n'), Inr ()) \<and>
     nw_GetMessages sample_net (co_ServerConfigs c') (ex_Info ex') n1 = (n', map Inr mss @ rest) \<and>
     test_value ` set (concat (map (\<lambda>m. case m of None \<Rightarrow> [] | Some ms \<Rightarrow> ms) mss)) = {0..<2}"
proof -
  let ?i = "with_span sample_round (0, 2)"
  have e: "get_le (take 8 (put_le 8 1)) = 1" "get_le (take 8 (put_le 8 0)) = 0"
    using get_put_le [of 8 1] get_put_le [of 8 0] by simp_all
  then have c: "Check [put_le 8 1, put_le 8 0] 2 = Inr True" by (simp add: Check_def)
  have p: "\<not> ri_PathEstablishment sample_round" by (simp add: sample_round_def)
  then have "\<not> ri_PathEstablishment ?i" by (simp add: with_span_def)
  then have r: "DoAction Inr sample_net (sample_coordinator, sample_experiment, 0) =
      Some ((sample_coordinator, sample_experiment\<lparr>ex_Info := ?i, ex_Passed := True\<rparr>, 1), Inr ())"
    using c p
    by (simp add: DoAction_def run_keys_def run_setup_def run_clients_def run_start_def run_check_def and_then_def SendRoundSetup_def
        SendClientStart_def SendRoundStart_def coordinator_GetMessages_def sample_net_def sample_coordinator_def
        sample_experiment_def Let_def)
  show ?thesis
    using passed_round_delivered_all [OF r] r p by (simp add: sample_experiment_def) blast
qed

end
