(* ===== verification/Schedule.thy ===== *)
theory Schedule
  imports Sizes Coordinator
begin

text \<open>
  The main program of the coordinator, \<^verbatim>\<open>src/cmd/coordinator/coordinator.go\<close>: the defaults of its arguments and the
  sequence of rounds it runs, a round of path establishment per layer and then five lightning rounds.
  The network is already set up (run types \<open>0\<close>, \<open>1\<close>, \<open>2\<close> and \<open>5\<close>); run type \<open>3\<close>, which writes
  configuration files, is in theory Deployment; run type \<open>4\<close>, which prints numbers, the writing of results and time measurements are not modelled. Floating
  point is the record argument \<open>F\<close>. Arguments given on the command line are not negative. What a run does is stated of the calls
  it makes: \<open>watched net\<close> is the network \<open>net\<close> that also notes the calls that drive a round.
\<close>

section \<open>Arguments\<close>

record 'f main_args =
  ar_RunType :: nat
  ar_F :: 'f
  ar_NumUsers :: nat
  ar_NumServers :: nat
  ar_MessageSize :: nat
  ar_NumGroups :: nat
  ar_GroupSize :: nat
  ar_BinSize :: nat
  ar_LimitSize :: int
  ar_NumLayers :: int
  ar_Overflow :: int
  ar_NumClientServers :: nat
  ar_SkipPathGen :: bool
  ar_NoCheck :: bool
  ar_LoadMessages :: bool
  ar_StartIdx :: int
  ar_Interval :: int

text \<open>The defaults are filled in one after the other. \<open>None\<close> is the end of the program with the help text.\<close>

definition fill_groups :: "'f floats \<Rightarrow> 'f main_args \<Rightarrow> 'f main_args option res" where
  "fill_groups F a =
     (if ar_GroupSize a \<noteq> 0 then Inr (Some a)
      else if \<not> fl_eq F (ar_F a) (fl_int F 0) then
        if ar_NumGroups a \<noteq> 0 then
          sbind (CalcGroupSize F (ar_NumServers a) (ar_NumGroups a) (ar_F a)) (\<lambda>s. Inr (Some (a\<lparr>ar_GroupSize := nat s\<rparr>)))
        else
          sbind (CalcFewGroups2 F (ar_F a) (ar_NumServers a)) (\<lambda>(s, k). Inr (Some (a\<lparr>ar_GroupSize := nat s, ar_NumGroups := k\<rparr>)))
      else Inr None)"

definition fill_number :: "'f main_args \<Rightarrow> 'f main_args res" where
  "fill_number a =
     (if ar_NumGroups a \<noteq> 0 then Inr a
      else if ar_GroupSize a = 0 then Inl (Panic DivideByZero)
      else Inr (a\<lparr>ar_NumGroups := ar_NumServers a div ar_GroupSize a\<rparr>))"

definition fill_layers :: "'f floats \<Rightarrow> 'f main_args \<Rightarrow> 'f main_args option" where
  "fill_layers F a =
     (if ar_NumLayers a \<noteq> 0 then Some a
      else if \<not> fl_eq F (ar_F a) (fl_int F 0) then Some (a\<lparr>ar_NumLayers := NumLayers F (ar_NumUsers a) (ar_F a)\<rparr>)
      else None)"

definition fill_sizes :: "'f floats \<Rightarrow> 'f main_args \<Rightarrow> 'f main_args" where
  "fill_sizes F a =
     (let a = (if ar_BinSize a = 0
               then a\<lparr>ar_BinSize := BinSize2 F (nat (ar_NumLayers a)) (ar_NumServers a) (ar_NumUsers a) (- ar_Overflow a)\<rparr> else a);
          a = (if ar_LimitSize a = 0 then a\<lparr>ar_LimitSize := GroupSizeWithReplacement F (ar_NumGroups a) (ar_F a)\<rparr> else a)
      in if ar_LoadMessages a then a\<lparr>ar_NumClientServers := 0\<rparr> else a)"

definition complete_args :: "'f floats \<Rightarrow> 'f main_args \<Rightarrow> 'f main_args option res" where
  "complete_args F a =
     (if ar_NumServers a = 0 \<or> ar_NumUsers a = 0 then Inr None
      else sbind (fill_groups F a) (\<lambda>r.
        case r of
          None \<Rightarrow> Inr None
        | Some a \<Rightarrow>
            sbind (fill_number a) (\<lambda>a.
              case fill_layers F a of
                None \<Rightarrow> Inr None
              | Some a \<Rightarrow> Inr (Some (fill_sizes F a)))))"

section \<open>Experiments\<close>

definition NewExperiment :: "'f floats \<Rightarrow> int \<Rightarrow> int \<Rightarrow> nat \<Rightarrow> nat \<Rightarrow> coord_experiment" where
  "NewExperiment F rnd numLayers numServers numMessages =
     \<lparr>ex_Info =
        \<lparr>ri_Round = rnd, ri_NumLayers = nat numLayers, ri_BinSize = BinSize2 F (nat numLayers) numServers numMessages (- 32),
         ri_PathEstablishment = True, ri_LastLayer = False, ri_MessageSize = 8, ri_ReceiptLayer = 0, ri_BoomerangLimit = 0,
         ri_NextLayer = 0, ri_Check = True, ri_Interval = 0, ri_StartId = 0, ri_EndId = int numMessages, ri_SkipPathGen = False\<rparr>,
      ex_NumMessages = numMessages, ex_KeyGen = False, ex_DoRound = True, ex_LoadKeys = False, ex_Passed = False\<rparr>"

definition limit_of :: "'f main_args \<Rightarrow> int" where
  "limit_of a = (if ar_LimitSize a > 0 then ar_LimitSize a else ar_NumLayers a)"

definition path_round_info :: "'f floats \<Rightarrow> 'f main_args \<Rightarrow> int \<Rightarrow> round_info" where
  "path_round_info F a i =
     (let m = ex_Info (NewExperiment F i (ar_NumLayers a) (ar_NumServers a) (ar_NumUsers a)) in
      m\<lparr>ri_PathEstablishment := True, ri_LastLayer := (i = ar_NumLayers a - 1), ri_Check := \<not> ar_NoCheck a,
        ri_Interval := ar_Interval a, ri_BinSize := (if ar_BinSize a > 0 then ar_BinSize a else ri_BinSize m),
        ri_BoomerangLimit := nat (limit_of a), ri_ReceiptLayer := (if i - limit_of a > 0 then i - limit_of a else 0),
        ri_NextLayer := i\<rparr>)"

definition path_experiment :: "'f floats \<Rightarrow> 'f main_args \<Rightarrow> int \<Rightarrow> coord_experiment" where
  "path_experiment F a i =
     (let ex = NewExperiment F i (ar_NumLayers a) (ar_NumServers a) (ar_NumUsers a);
          ex = (if i = 0 then ex\<lparr>ex_KeyGen := \<not> ar_LoadMessages a, ex_LoadKeys := ar_LoadMessages a\<rparr> else ex)
      in ex\<lparr>ex_Info := path_round_info F a i\<rparr>)"

definition lightning_experiment :: "'f floats \<Rightarrow> 'f main_args \<Rightarrow> int \<Rightarrow> coord_experiment" where
  "lightning_experiment F a i =
     (let ex = NewExperiment F i (ar_NumLayers a) (ar_NumServers a) (ar_NumUsers a);
          m = (ex_Info ex)\<lparr>ri_PathEstablishment := False, ri_MessageSize := ar_MessageSize a, ri_Check := \<not> ar_NoCheck a\<rparr>;
          m = (if ar_BinSize a > 0 then m\<lparr>ri_BinSize := ar_BinSize a\<rparr> else m);
          (m, keys) = (if ar_SkipPathGen a \<and> i = 0 then (m\<lparr>ri_SkipPathGen := True\<rparr>, True) else (m, ex_KeyGen ex))
      in ex\<lparr>ex_Info := m\<lparr>ri_Interval := ar_Interval a\<rparr>, ex_KeyGen := keys\<rparr>)"

section \<open>Rounds\<close>

text \<open>The state of the run: the coordinator, the rest of the system, and the experiments that were recorded. The
  second result is \<open>False\<close> when an error has ended the run.\<close>

type_synonym ('s, 'n) main_state = "'s coordinator \<times> 'n \<times> coord_experiment list"

definition run_experiment ::
  "('s coordinator \<Rightarrow> 's coordinator res) \<Rightarrow> 'n coordinator_net \<Rightarrow> coord_experiment \<Rightarrow> ('s, 'n) main_state \<Rightarrow>
     (('s, 'n) main_state \<times> bool) res option" where
  "run_experiment keyGen net ex st =
     (case st of (c, n, done) \<Rightarrow>
        case DoAction keyGen net (c, ex, n) of
          None \<Rightarrow> None
        | Some (_, Inl (Panic p)) \<Rightarrow> Some (Inl (Panic p))
        | Some ((c, ex, n), Inl (Err e)) \<Rightarrow> Some (Inr ((c, n, done), False))
        | Some ((c, ex, n), Inr _) \<Rightarrow> Some (Inr ((c, n, done @ [ex]), True)))"

fun run_experiments ::
  "('s coordinator \<Rightarrow> 's coordinator res) \<Rightarrow> 'n coordinator_net \<Rightarrow> coord_experiment list \<Rightarrow> ('s, 'n) main_state \<Rightarrow>
     (('s, 'n) main_state \<times> bool) res option" where
  "run_experiments keyGen net [] st = Some (Inr (st, True))"
| "run_experiments keyGen net (ex # exs) st =
     (case run_experiment keyGen net ex st of
        Some (Inr (st, True)) \<Rightarrow> run_experiments keyGen net exs st
      | r \<Rightarrow> r)"

text \<open>Run type \<open>5\<close>: in the first round keys and messages are written to files, and the program ends.\<close>

definition record_run ::
  "'f floats \<Rightarrow> ('s coordinator \<Rightarrow> 's coordinator res) \<Rightarrow> 'n coordinator_net \<Rightarrow> 'f main_args \<Rightarrow> ('s, 'n) main_state \<Rightarrow>
     (('s, 'n) main_state \<times> bool) res option" where
  "record_run F keyGen net a st =
     (case st of (c, n, done) \<Rightarrow>
        let ex = path_experiment F a 0;
            ex = ex\<lparr>ex_Info := (ex_Info ex)\<lparr>ri_StartId := ar_StartIdx a, ri_EndId := ar_StartIdx a + int (ar_NumUsers a)\<rparr>\<rparr> in
        case WriteKeys keyGen net c n of
          None \<Rightarrow> None
        | Some (_, _, Inl e) \<Rightarrow> Some (Inl e)
        | Some (c, n, Inr _) \<Rightarrow>
            (case WriteMessages net c ex n of
               None \<Rightarrow> None
             | Some (_, _, Inl e) \<Rightarrow> Some (Inl e)
             | Some (ex, n, Inr _) \<Rightarrow> Some (Inr ((c, n, done), False))))"

definition numLightning :: nat where "numLightning = 5"

definition path_rounds :: "'f main_args \<Rightarrow> int list" where
  "path_rounds a = (if ar_SkipPathGen a then [] else [0..ar_NumLayers a - 1])"

definition lightning_rounds :: "'f main_args \<Rightarrow> int list" where
  "lightning_rounds a = (let l = (if ar_SkipPathGen a then 0 else ar_NumLayers a) in [l..l + int numLightning - 1])"

text \<open>\<open>loadKeys\<close> is \<^verbatim>\<open>LoadKeys\<close> with the numbers it draws and the keys in the file.\<close>

definition run_main ::
  "'f floats \<Rightarrow> ('s coordinator \<Rightarrow> 's coordinator res) \<Rightarrow> ('s coordinator \<Rightarrow> 's coordinator res) \<Rightarrow>
     'n coordinator_net \<Rightarrow> 'f main_args \<Rightarrow> 's coordinator \<Rightarrow> 'n \<Rightarrow> (('s, 'n) main_state \<times> bool) res option" where
  "run_main F keyGen loadKeys net a c n =
     (case (if ar_LoadMessages a then sbind (loadKeys c) (\<lambda>c. sbind (LoadMessages net c n) (\<lambda>n. Inr (c, n))) else Inr (c, n)) of
        Inl e \<Rightarrow> Some (Inl e)
      | Inr (c, n) \<Rightarrow>
          if ar_RunType a = 5 \<and> path_rounds a \<noteq> [] then record_run F keyGen net a (c, n, [])
          else
            (case run_experiments keyGen net (map (path_experiment F a) (path_rounds a)) (c, n, []) of
               Some (Inr (st, True)) \<Rightarrow> run_experiments keyGen net (map (lightning_experiment F a) (lightning_rounds a)) st
             | r \<Rightarrow> r))"

section \<open>Lemmas\<close>

lemma with_span_round [simp]: "ri_Round (with_span i sp) = ri_Round i"
  by (simp add: with_span_def)

lemma SendClientStart_round: "SendClientStart net c i k n = Some (i', n', r) \<Longrightarrow> ri_Round i' = ri_Round i"
  by (auto simp: SendClientStart_def Let_def split: if_splits sum.splits prod.splits)

lemma CheckClientReceipt_round: "CheckClientReceipt net c i k n = Some (i', n', r) \<Longrightarrow> ri_Round i' = ri_Round i"
  by (auto simp: CheckClientReceipt_def Let_def split: if_splits sum.splits prod.splits)

text \<open>No step of an experiment changes the number of its round.\<close>

definition keeps_round :: "(('s, 'n) run \<Rightarrow> (('s, 'n) run \<times> unit res) option) \<Rightarrow> bool" where
  "keeps_round f \<longleftrightarrow> (\<forall>c ex n c' ex' n' r. f (c, ex, n) = Some ((c', ex', n'), r) \<longrightarrow> ri_Round (ex_Info ex') = ri_Round (ex_Info ex))"

lemma keeps_roundI:
  "(\<And>c ex n c' ex' n' r. f (c, ex, n) = Some ((c', ex', n'), r) \<Longrightarrow> ri_Round (ex_Info ex') = ri_Round (ex_Info ex)) \<Longrightarrow> keeps_round f"
  by (simp add: keeps_round_def)

lemma keeps_roundD: "keeps_round f \<Longrightarrow> f (c, ex, n) = Some ((c', ex', n'), r) \<Longrightarrow> ri_Round (ex_Info ex') = ri_Round (ex_Info ex)"
  unfolding keeps_round_def by blast

lemma keeps_round_and_then:
  assumes "keeps_round f" and "keeps_round g"
  shows "keeps_round (\<lambda>st. and_then (f st) g)"
proof (rule keeps_roundI)
  fix c ex n c' ex' n' r assume a: "and_then (f (c, ex, n)) g = Some ((c', ex', n'), r)"
  then obtain c1 ex1 n1 r1 where f: "f (c, ex, n) = Some ((c1, ex1, n1), r1)"
    by (cases "f (c, ex, n)") (auto simp: and_then_def)
  then show "ri_Round (ex_Info ex') = ri_Round (ex_Info ex)"
    using a keeps_roundD [OF assms(1) f] keeps_roundD [OF assms(2), of c1 ex1 n1 c' ex' n' r] by (cases r1) (auto simp: and_then_def)
qed

lemma keeps_round_steps: "keeps_round (run_keys keyGen net)" "keeps_round (run_clients net)" "keeps_round (run_start net)"
  "keeps_round (run_receipts net)"
  unfolding run_keys_def run_clients_def run_start_def run_receipts_def
  by (rule keeps_roundI, auto split: if_splits option.splits sum.splits prod.splits dest: SendClientStart_round)+

lemma keeps_round_setup: "keeps_round (run_setup net)"
proof (rule keeps_roundI)
  let ?f = "\<lambda>(c, ex, n). map_option (\<lambda>(n, r). ((c, ex, n), r)) (SendRoundSetup net c (ex_Info ex) n)"
  have f: "keeps_round (\<lambda>st. and_then (?f st) (run_clients net))"
    by (rule keeps_round_and_then [OF _ keeps_round_steps(2)]) (rule keeps_roundI, auto)
  fix c ex n c' ex' n' r assume a: "run_setup net (c, ex, n) = Some ((c', ex', n'), r)"
  show "ri_Round (ex_Info ex') = ri_Round (ex_Info ex)"
  proof (cases "\<not> ri_PathEstablishment (ex_Info ex) \<or> ri_Round (ex_Info ex) = 0")
    case True
    then have "and_then (?f (c, ex, n)) (run_clients net) = Some ((c', ex', n'), r)" using a by (simp add: run_setup_def)
    then show ?thesis by (rule keeps_roundD [OF f])
  qed (use a in \<open>simp add: run_setup_def\<close>)
qed

lemma keeps_round_check: "keeps_round (run_check net)"
proof (rule keeps_roundI)
  let ?f = "\<lambda>(c, ex, n). map_option (\<lambda>(i, n, r). ((c, ex\<lparr>ex_Info := i\<rparr>, n), r)) (CheckClientReceipt net c (ex_Info ex) (ex_NumMessages ex) n)"
  let ?g = "\<lambda>(c, ex, n). Some ((c, ex\<lparr>ex_Passed := True\<rparr>, n), Inr ())"
  have "keeps_round ?f" "keeps_round ?g" by (rule keeps_roundI, auto dest: CheckClientReceipt_round)+
  then have f: "keeps_round (\<lambda>st. and_then (?f st) ?g)" by (rule keeps_round_and_then)
  fix c ex n c' ex' n' r assume a: "run_check net (c, ex, n) = Some ((c', ex', n'), r)"
  consider "\<not> ri_PathEstablishment (ex_Info ex)"
    | "ri_PathEstablishment (ex_Info ex)" "ri_ReceiptLayer (ex_Info ex) = 0 \<and> ri_Round (ex_Info ex) \<noteq> 0"
    | "ri_PathEstablishment (ex_Info ex)" "\<not> (ri_ReceiptLayer (ex_Info ex) = 0 \<and> ri_Round (ex_Info ex) \<noteq> 0)" by blast
  then show "ri_Round (ex_Info ex') = ri_Round (ex_Info ex)"
  proof cases
    case 1
    then show ?thesis using a by (auto simp: run_check_def split: option.splits sum.splits prod.splits)
  next
    case 2
    then have "and_then (?f (c, ex, n)) ?g = Some ((c', ex', n'), r)" using a by (simp add: run_check_def)
    then show ?thesis by (rule keeps_roundD [OF f])
  next
    case 3
    then show ?thesis using a keeps_roundD [OF keeps_round_steps(4), of net c ex n c' ex' n' r] by (auto simp: run_check_def split: if_splits)
  qed
qed

lemma DoAction_round: "keeps_round (DoAction keyGen net)"
proof -
  have f: "keeps_round (\<lambda>st. and_then (and_then (run_setup net st) (run_start net)) (run_check net))"
    by (intro keeps_round_and_then keeps_round_setup keeps_round_check keeps_round_steps)
  have "keeps_round (\<lambda>(c, ex, n). if ex_DoRound ex
       then and_then (and_then (run_setup net (c, ex, n)) (run_start net)) (run_check net) else Some ((c, ex, n), Inr ()))"
  proof (rule keeps_roundI)
    fix c ex n c' ex' n' r
    assume a: "(case (c, ex, n) of (c, ex, n) \<Rightarrow> if ex_DoRound ex
       then and_then (and_then (run_setup net (c, ex, n)) (run_start net)) (run_check net) else Some ((c, ex, n), Inr ())) = Some ((c', ex', n'), r)"
    then show "ri_Round (ex_Info ex') = ri_Round (ex_Info ex)"
      using keeps_roundD [OF f, of c ex n c' ex' n' r] by (cases "ex_DoRound ex") simp_all
  qed
  from keeps_round_and_then [OF keeps_round_steps(1) this] show ?thesis unfolding DoAction_def .
qed

lemma run_experiment_ok:
  assumes "run_experiment keyGen net ex (c, n, es) = Some (Inr ((c', n', es'), True))"
  shows "\<exists>ex'. es' = es @ [ex'] \<and> DoAction keyGen net (c, ex, n) = Some ((c', ex', n'), Inr ()) \<and>
     ri_Round (ex_Info ex') = ri_Round (ex_Info ex)"
proof -
  obtain ex' where "es' = es @ [ex']" and d: "DoAction keyGen net (c, ex, n) = Some ((c', ex', n'), Inr ())"
    using assms by (auto simp: run_experiment_def split: option.splits sum.splits failure.splits)
  then show ?thesis using DoAction_round [of keyGen net] unfolding keeps_round_def by blast
qed

lemma experiment_rounds [simp]:
  "ri_Round (ex_Info (path_experiment F a i)) = i" "ri_Round (ex_Info (lightning_experiment F a i)) = i"
  "ex_DoRound (lightning_experiment F a i)" "\<not> ri_PathEstablishment (ex_Info (lightning_experiment F a i))"
  "ex_NumMessages (lightning_experiment F a i) = ar_NumUsers a" "\<not> ex_LoadKeys (lightning_experiment F a i)"
  "ex_DoRound (path_experiment F a i)" "ri_PathEstablishment (ex_Info (path_experiment F a i))"
  "ex_NumMessages (path_experiment F a i) = ar_NumUsers a"
  by (simp_all add: path_experiment_def lightning_experiment_def path_round_info_def NewExperiment_def Let_def split: prod.splits)

section \<open>The calls of a run\<close>

text \<open>A network that notes the calls that drive a round: which servers are asked, with which round information, what the clients
  are told, and what the servers answer to \<^verbatim>\<open>GetMessages\<close>.\<close>

datatype net_call =
    SetupCall "int list" round_info
  | ClientsCall "(nat \<times> round_info) list"
  | StartCall "int list" round_info
  | MessagesCall "int list" round_info "bytes list option res list"

definition watched :: "'n coordinator_net \<Rightarrow> ('n \<times> net_call list) coordinator_net" where
  "watched net =
     \<lparr>nw_KeySet = (\<lambda>sid k (n, trace). case nw_KeySet net sid k n of (n, r) \<Rightarrow> ((n, trace), r)),
      nw_client_KeySets = (\<lambda>cids k (n, trace). case nw_client_KeySets net cids k n of (n, r) \<Rightarrow> ((n, trace), r)),
      nw_RoundSetups = (\<lambda>sids i (n, trace). case nw_RoundSetups net sids i n of (n, r) \<Rightarrow> ((n, trace @ [SetupCall sids i]), r)),
      nw_RoundStarts = (\<lambda>sids i (n, trace). case nw_RoundStarts net sids i n of (n, r) \<Rightarrow> ((n, trace @ [StartCall sids i]), r)),
      nw_GetMessages = (\<lambda>sids i (n, trace). case nw_GetMessages net sids i n of (n, r) \<Rightarrow> ((n, trace @ [MessagesCall sids i r]), r)),
      nw_ClientStarts = (\<lambda>cs (n, trace). case nw_ClientStarts net cs n of (n, r) \<Rightarrow> ((n, trace @ [ClientsCall cs]), r)),
      nw_CheckReceipt = (\<lambda>idx i (n, trace). case nw_CheckReceipt net idx i n of (n, r) \<Rightarrow> ((n, trace), r)),
      nw_SendLoadedMessages = (\<lambda>i (n, trace). case nw_SendLoadedMessages net i n of (n, r) \<Rightarrow> ((n, trace), r)),
      nw_Receipts = (\<lambda>(n, trace). nw_Receipts net n),
      nw_RecordMessages = (\<lambda>(n, trace). (nw_RecordMessages net n, trace))\<rparr>"

lemma watched_simps [simp]:
  "nw_KeySet (watched net) sid k (n, trace) = (case nw_KeySet net sid k n of (n, r) \<Rightarrow> ((n, trace), r))"
  "nw_client_KeySets (watched net) cids k (n, trace) = (case nw_client_KeySets net cids k n of (n, r) \<Rightarrow> ((n, trace), r))"
  "nw_RoundSetups (watched net) sids i (n, trace) = (case nw_RoundSetups net sids i n of (n, r) \<Rightarrow> ((n, trace @ [SetupCall sids i]), r))"
  "nw_RoundStarts (watched net) sids i (n, trace) = (case nw_RoundStarts net sids i n of (n, r) \<Rightarrow> ((n, trace @ [StartCall sids i]), r))"
  "nw_GetMessages (watched net) sids i (n, trace) = (case nw_GetMessages net sids i n of (n, rs) \<Rightarrow> ((n, trace @ [MessagesCall sids i rs]), rs))"
  "nw_ClientStarts (watched net) cs (n, trace) = (case nw_ClientStarts net cs n of (n, r) \<Rightarrow> ((n, trace @ [ClientsCall cs]), r))"
  "nw_CheckReceipt (watched net) idx i (n, trace) = (case nw_CheckReceipt net idx i n of (n, r) \<Rightarrow> ((n, trace), r))"
  "nw_SendLoadedMessages (watched net) i (n, trace) = (case nw_SendLoadedMessages net i n of (n, r) \<Rightarrow> ((n, trace), r))"
  "nw_Receipts (watched net) (n, trace) = nw_Receipts net n"
  "nw_RecordMessages (watched net) (n, trace) = (nw_RecordMessages net n, trace)"
  by (simp_all add: watched_def)

text \<open>The simulated clients that a call starts, and what it means that the servers answer with the messages of \<open>k\<close> users:
  each answers, and the numbers in the messages are \<open>0, \<dots>, k - 1\<close>.\<close>

definition client_ids :: "(nat \<times> round_info) list \<Rightarrow> int list" where
  "client_ids cs = concat (map (\<lambda>(_, i). [ri_StartId i..ri_EndId i - 1]) cs)"

definition answered :: "nat \<Rightarrow> bytes list option res list \<Rightarrow> bytes list list \<Rightarrow> bool" where
  "answered k rs mss \<longleftrightarrow> length mss = k \<and> k \<le> length rs \<and>
     (\<forall>j < k. rs ! j = Inr (Some (mss ! j)) \<or> rs ! j = Inr None \<and> mss ! j = [])"

definition clients_started :: "nat \<Rightarrow> int \<Rightarrow> net_call \<Rightarrow> bool" where
  "clients_started k rd call \<longleftrightarrow> (\<exists>cs. call = ClientsCall cs \<and> client_ids cs = [0..int k - 1] \<and> (\<forall>(_, i) \<in> set cs. ri_Round i = rd))"

text \<open>The calls of a lightning round and of a round of path establishment. The first round of path establishment is started by
  its setup, with new clients or recorded ones.\<close>

definition lightning_calls :: "int list \<Rightarrow> nat \<Rightarrow> coord_experiment \<Rightarrow> net_call list \<Rightarrow> bool" where
  "lightning_calls servers k ex calls \<longleftrightarrow>
     (\<exists>i cl rs mss. calls = [SetupCall servers i, cl, StartCall servers (ex_Info ex), MessagesCall servers (ex_Info ex) rs] \<and>
        ri_Round i = ri_Round (ex_Info ex) \<and> clients_started k (ri_Round (ex_Info ex)) cl \<and> answered (length servers) rs mss \<and>
        (ex_Passed ex \<longleftrightarrow> test_value ` set (concat mss) = {0..<int k}))"

definition path_calls :: "int list \<Rightarrow> nat \<Rightarrow> coord_experiment \<Rightarrow> net_call list \<Rightarrow> bool" where
  "path_calls servers k ex calls \<longleftrightarrow>
     (if ri_Round (ex_Info ex) = 0 then \<exists>i cl. calls = SetupCall servers i # cl \<and> ri_Round i = 0 \<and>
          (if ex_LoadKeys ex then cl = [] else \<exists>c. cl = [c] \<and> clients_started k 0 c)
      else \<exists>i ms. calls = StartCall servers i # ms \<and> ri_Round i = ri_Round (ex_Info ex) \<and>
          (if ri_ReceiptLayer (ex_Info ex) > 0 then \<exists>j rs. ms = [MessagesCall servers j rs] else ms = []))"

lemma res_unit: "(\<forall>e. r \<noteq> Inl e) \<longleftrightarrow> r = Inr ()"
  by (cases r) simp_all

lemma collect_answered:
  assumes "collect_messages k rs [] = Some (Inr out)"
  shows "\<exists>mss. answered k rs mss \<and> out = concat mss"
proof -
  obtain ms where m: "k \<le> length rs" "take k rs = map Inr ms" "out = concat (map (\<lambda>m. case m of None \<Rightarrow> [] | Some ms \<Rightarrow> ms) ms)"
    using collect_messages_ok [OF assms] by auto
  let ?mss = "map (\<lambda>m. case m of None \<Rightarrow> [] | Some ms \<Rightarrow> ms) ms"
  have l: "length ms = k" using m(1) arg_cong [OF m(2), of length] by simp
  have "rs ! j = Inr (ms ! j)" if "j < k" for j using that l arg_cong [OF m(2), of "\<lambda>xs. xs ! j"] by simp
  then have "answered k rs ?mss" using l m(1) by (auto simp: answered_def split: option.splits)
  then show ?thesis using m(3) by blast
qed

text \<open>The keys: sending them notes nothing and changes no server.\<close>

definition keeps_servers :: "('s coordinator \<Rightarrow> 's coordinator res) \<Rightarrow> bool" where
  "keeps_servers f \<longleftrightarrow> (\<forall>c c'. f c = Inr c' \<longrightarrow> co_ServerConfigs c' = co_ServerConfigs c)"

lemma keyGenToken_servers: "keyGenToken M skey rnd c t = Inr c' \<Longrightarrow> co_ServerConfigs c' = co_ServerConfigs c"
  by (auto simp: keyGenToken_def Let_def)

lemma genDHKeys_servers: "genDHKeys L rnd c ssk g = Inr c' \<Longrightarrow> co_ServerConfigs c' = co_ServerConfigs c"
  by (auto simp: genDHKeys_def)

lemma keys_keep_servers: "keeps_servers (key_gen L M skey trnd t drnd b)" "keeps_servers (LoadKeys L M skey trnd drnd left secrets)"
  by (auto simp: keeps_servers_def key_gen_def KeyGenToken_def GenDHKeys_def LoadKeys_def Let_def split: option.splits
      dest!: keyGenToken_servers genDHKeys_servers)

lemma send_attempt_kept:
  assumes "\<And>k n. snd (fst (call k n)) = snd n"
  shows "snd (fst (send_attempt call ks n)) = snd n"
proof (induction ks arbitrary: n)
  case (Cons k ks)
  then show ?case using assms [of k n] by (auto split: prod.split sum.split failure.split)
qed simp

lemma send_retries_kept:
  assumes "\<And>k n. snd (fst (call k n)) = snd n"
  shows "snd (fst (send_retries j call ks n)) = snd n"
proof (induction j arbitrary: n)
  case (Suc j)
  then show ?case using send_attempt_kept [of call, OF assms, of ks n] by (auto split: prod.split sum.split)
qed simp

lemma send_servers_kept: "snd (fst (send_servers (watched net) pk sid keys n)) = snd n"
proof (induction keys arbitrary: sid n)
  case (Cons k keys)
  have "snd (fst (nw_KeySet (watched net) s i n)) = snd n" for s i n by (cases n) (simp split: prod.split)
  note r = send_retries_kept [of "nw_KeySet (watched net) (int sid)", OF this]
  show ?case using Cons.IH by (auto simp: Let_def r split: prod.split) (metis fst_conv r snd_conv)+
qed simp

lemma SendKeys_watched:
  assumes "SendKeys (watched net) c (n, trace) = Some (c', (n', trace'), q)"
  shows "trace' = trace \<and> co_ServerConfigs c' = co_ServerConfigs c"
proof -
  obtain n1 trace1 pk ds where s: "send_servers (watched net) (co_publicKeys c) 0 (co_privateKeys c) (n, trace) = ((n1, trace1), pk, ds)"
    by (metis prod.exhaust)
  then have "trace1 = trace" using send_servers_kept [of net "co_publicKeys c" 0 "co_privateKeys c" "(n, trace)"] by simp
  then show ?thesis using assms s by (auto simp: SendKeys_def Let_def split: option.splits sum.splits prod.splits if_splits)
qed

lemma run_keys_watched:
  assumes "run_keys keyGen (watched net) (c, ex, n, trace) = Some ((c', ex', n', trace'), q)" "keeps_servers keyGen"
  shows "trace' = trace \<and> co_ServerConfigs c' = co_ServerConfigs c \<and> ex' = ex"
  using assms SendKeys_watched [of net]
  by (fastforce simp: run_keys_def keeps_servers_def split: sum.splits if_splits)

text \<open>The steps of a round.\<close>

lemma int_range: "map int [m..<k] = [int m..int k - 1]"
  by (induction k) (auto simp: upto_rec2 le_Suc_eq)

lemma SendClientStart_watched:
  assumes "SendClientStart (watched net) c i k (n, trace) = Some (i', (n', trace'), Inr ())"
  shows "\<exists>cl. trace' = trace @ [cl] \<and> clients_started k (ri_Round i) cl \<and> (i' = i \<or> i' = with_span i (0, k))"
proof (cases "co_clientNetType c = Inprocess")
  case True
  then show ?thesis using assms
    by (auto simp: SendClientStart_def Let_def clients_started_def client_ids_def with_span_def split: prod.splits)
next
  case False
  then obtain loads where l: "Spans k (co_remoteClients c) = Inr loads" and i: "i' = i"
    and g: "trace' = trace @ [ClientsCall (map (\<lambda>idx. (idx, with_span i (loads ! idx))) [0..<co_remoteClients c])]"
    using assms by (auto simp: SendClientStart_def split: sum.splits prod.splits)
  then have pos: "k mod co_remoteClients c \<le> co_remoteClients c" "loads = spans_from (co_remoteClients c) 0 (k div co_remoteClients c) (k mod co_remoteClients c)"
    by (auto simp: Spans_def less_imp_le split: if_splits)
  note s = spans_from_cover [OF pos(1), of 0 "k div co_remoteClients c", folded pos(2)]
  have "client_ids (map (\<lambda>idx. (idx, with_span i (loads ! idx))) [0..<length loads]) = concat (map (map int \<circ> (\<lambda>(a, b). [a..<b])) (map ((!) loads) [0..<length loads]))"
    by (auto simp: client_ids_def with_span_def int_range comp_def split: prod.splits intro!: arg_cong [where f = concat])
  also have "\<dots> = map int (concat (map (\<lambda>(a, b). [a..<b]) loads))" by (simp add: map_nth map_concat comp_def)
  also have "\<dots> = [0..int k - 1]" using s by (simp add: int_range)
  finally have "clients_started k (ri_Round i) (ClientsCall (map (\<lambda>idx. (idx, with_span i (loads ! idx))) [0..<co_remoteClients c]))"
    using s by (auto simp: clients_started_def)
  then show ?thesis using i g by blast
qed

lemma CheckReceipts_watched:
  "snd (fst (check_retries j (nw_CheckReceipt (watched net) idx i) n)) = snd n"
  "snd (fst (check_clients (watched net) cs n)) = snd n"
proof -
  have k: "snd (fst (nw_CheckReceipt (watched net) idx i n)) = snd n" for idx i n by (cases n) (simp split: prod.split)
  show a: "snd (fst (check_retries j (nw_CheckReceipt (watched net) idx i) n)) = snd n" for j idx i n
  proof (induction j arbitrary: n)
    case (Suc j)
    then show ?case using k [of idx i n] by (auto split: prod.split sum.split failure.split)
  qed simp
  show "snd (fst (check_clients (watched net) cs n)) = snd n"
  proof (induction "watched net" cs n rule: check_clients.induct)
    case (2 idx i cs n)
    then show ?case using a [of coordinator_retries idx i n] by (auto simp: Let_def split: prod.split)
  qed simp
qed

lemma CheckClientReceipt_watched:
  assumes "CheckClientReceipt (watched net) c i k (n, trace) = Some (i', (n', trace'), q)"
  shows "trace' = trace \<and> ri_ReceiptLayer i' = ri_ReceiptLayer i"
proof (cases "co_clientNetType c = Inprocess")
  case True
  then show ?thesis using assms by (auto simp: CheckClientReceipt_def Let_def with_span_def split: prod.splits)
next
  case False
  have "trace1 = trace" if "check_clients (watched net) cs (n, trace) = ((n1, trace1), ds)" for cs n1 trace1 ds
    using CheckReceipts_watched(2) [of net cs "(n, trace)"] that by simp
  then show ?thesis using assms False by (fastforce simp: CheckClientReceipt_def split: sum.splits prod.splits)
qed

lemma setup_watched:
  assumes "run_setup (watched net) (c, ex, n, trace) = Some ((c', ex', n', trace'), Inr ())"
    and "\<not> ri_PathEstablishment (ex_Info ex) \<or> ri_Round (ex_Info ex) = 0"
  shows "c' = c \<and> (ex' = ex \<or> ex' = ex\<lparr>ex_Info := with_span (ex_Info ex) (0, ex_NumMessages ex)\<rparr>) \<and>
     (\<exists>cl. trace' = trace @ SetupCall (co_ServerConfigs c) (ex_Info ex) # cl \<and>
       (if ex_LoadKeys ex then cl = [] else \<exists>x. cl = [x] \<and> clients_started (ex_NumMessages ex) (ri_Round (ex_Info ex)) x))"
proof -
  let ?trace = "trace @ [SetupCall (co_ServerConfigs c) (ex_Info ex)]"
  obtain n1 where r: "run_clients (watched net) (c, ex, n1, ?trace) = Some ((c', ex', n', trace'), Inr ())"
    using assms by (auto simp: run_setup_def and_then_ok SendRoundSetup_def split: prod.splits)
  show ?thesis
  proof (cases "ex_LoadKeys ex")
    case True
    then show ?thesis using r by (auto simp: run_clients_def split: prod.splits)
  next
    case False
    then obtain i where i: "SendClientStart (watched net) c (ex_Info ex) (ex_NumMessages ex) (n1, ?trace) = Some (i, (n', trace'), Inr ())"
      "c' = c" "ex' = ex\<lparr>ex_Info := i\<rparr>" using r by (auto simp: run_clients_def)
    from SendClientStart_watched [OF i(1)] i(2,3) False show ?thesis by auto
  qed
qed

lemma start_watched:
  assumes "run_start (watched net) (c, ex, n, trace) = Some ((c', ex', n', trace'), Inr ())"
  shows "c' = c \<and> ex' = ex \<and> trace' = trace @ (if ri_PathEstablishment (ex_Info ex) \<and> ri_Round (ex_Info ex) = 0 then []
     else [StartCall (co_ServerConfigs c) (ex_Info ex)])"
  using assms by (auto simp: run_start_def SendRoundStart_def split: if_splits prod.splits)

lemma lightning_check_watched:
  assumes "run_check (watched net) (c, ex, n, trace) = Some ((c', ex', n', trace'), Inr ())"
    and "\<not> ri_PathEstablishment (ex_Info ex)" and "int (ex_NumMessages ex) < 2 ^ 64"
  shows "c' = c \<and> ex_Info ex' = ex_Info ex \<and> (\<exists>rs mss. trace' = trace @ [MessagesCall (co_ServerConfigs c) (ex_Info ex) rs] \<and>
     answered (length (co_ServerConfigs c)) rs mss \<and> (ex_Passed ex' \<longleftrightarrow> test_value ` set (concat mss) = {0..<int (ex_NumMessages ex)}))"
proof -
  obtain messages ok where g: "coordinator_GetMessages (watched net) c (ex_Info ex) (n, trace) = Some ((n', trace'), Inr messages)"
    and k: "Check messages (int (ex_NumMessages ex)) = Inr ok" and e: "c' = c" "ex' = ex\<lparr>ex_Passed := ok\<rparr>"
    using assms(1,2) by (auto simp: run_check_def split: option.splits sum.splits prod.splits)
  obtain rs where rs: "trace' = trace @ [MessagesCall (co_ServerConfigs c) (ex_Info ex) rs]"
    "collect_messages (length (co_ServerConfigs c)) rs [] = Some (Inr messages)"
    using g by (auto simp: coordinator_GetMessages_def split: prod.splits)
  from collect_answered [OF rs(2)] obtain mss where "answered (length (co_ServerConfigs c)) rs mss" "messages = concat mss" by blast
  then show ?thesis using rs(1) e Check_answer [OF k] assms(3) by auto
qed

lemma path_check_watched:
  assumes "run_check (watched net) (c, ex, n, trace) = Some ((c', ex', n', trace'), Inr ())" and "ri_PathEstablishment (ex_Info ex)"
  shows "c' = c \<and> ri_ReceiptLayer (ex_Info ex') = ri_ReceiptLayer (ex_Info ex) \<and> ex_LoadKeys ex' = ex_LoadKeys ex \<and>
     (if ri_ReceiptLayer (ex_Info ex) > 0 then \<exists>rs. trace' = trace @ [MessagesCall (co_ServerConfigs c) (ex_Info ex) rs] else trace' = trace)"
proof -
  consider (clients) "ri_ReceiptLayer (ex_Info ex) = 0 \<and> ri_Round (ex_Info ex) \<noteq> 0" | (servers) "ri_ReceiptLayer (ex_Info ex) > 0"
    | (none) "\<not> ri_ReceiptLayer (ex_Info ex) > 0" "\<not> (ri_ReceiptLayer (ex_Info ex) = 0 \<and> ri_Round (ex_Info ex) \<noteq> 0)" by blast
  then show ?thesis
  proof cases
    case clients
    then obtain i where "CheckClientReceipt (watched net) c (ex_Info ex) (ex_NumMessages ex) (n, trace) = Some (i, (n', trace'), Inr ())"
      "c' = c" "ex' = ex\<lparr>ex_Info := i, ex_Passed := True\<rparr>" using assms by (auto simp: run_check_def and_then_ok)
    then show ?thesis using clients CheckClientReceipt_watched [of net c "ex_Info ex" "ex_NumMessages ex" n trace] by auto
  next
    case servers
    then have "run_receipts (watched net) (c, ex, n, trace) = Some ((c', ex', n', trace'), Inr ())" using assms by (simp add: run_check_def)
    then show ?thesis using servers
      by (auto simp: run_receipts_def coordinator_GetMessages_def split: option.splits sum.splits prod.splits if_splits)
  next
    case none
    then show ?thesis using assms by (auto simp: run_check_def)
  qed
qed

text \<open>An experiment that makes calls of the form \<open>P\<close>.\<close>

definition makes_calls ::
  "('s coordinator \<Rightarrow> 's coordinator res) \<Rightarrow> 'n coordinator_net \<Rightarrow> coord_experiment \<Rightarrow> (int list \<Rightarrow> coord_experiment \<Rightarrow> net_call list \<Rightarrow> bool) \<Rightarrow> bool" where
  "makes_calls keyGen net ex P \<longleftrightarrow> (\<forall>c n trace c' ex' n' trace'.
     DoAction keyGen (watched net) (c, ex, n, trace) = Some ((c', ex', n', trace'), Inr ()) \<longrightarrow>
       co_ServerConfigs c' = co_ServerConfigs c \<and> ri_Round (ex_Info ex') = ri_Round (ex_Info ex) \<and>
       (\<exists>calls. trace' = trace @ calls \<and> P (co_ServerConfigs c) ex' calls))"

lemma action_steps:
  assumes "DoAction keyGen (watched net) (c, ex, n, trace) = Some ((c', ex', n', trace'), Inr ())" "ex_DoRound ex" "keeps_servers keyGen"
  obtains c1 n1 c2 ex2 n2 trace2 c3 ex3 n3 trace3 where "co_ServerConfigs c1 = co_ServerConfigs c"
    "run_setup (watched net) (c1, ex, n1, trace) = Some ((c2, ex2, n2, trace2), Inr ())"
    "run_start (watched net) (c2, ex2, n2, trace2) = Some ((c3, ex3, n3, trace3), Inr ())"
    "run_check (watched net) (c3, ex3, n3, trace3) = Some ((c', ex', n', trace'), Inr ())"
proof -
  from assms(1) obtain x where x: "run_keys keyGen (watched net) (c, ex, n, trace) = Some (x, Inr ())"
    "(\<lambda>(c, ex, n). if ex_DoRound ex then and_then (and_then (run_setup (watched net) (c, ex, n)) (run_start (watched net))) (run_check (watched net))
       else Some ((c, ex, n), Inr ())) x = Some ((c', ex', n', trace'), Inr ())" by (auto simp: DoAction_def and_then_ok)
  obtain c1 n1 where k: "x = (c1, ex, n1, trace)" "co_ServerConfigs c1 = co_ServerConfigs c"
    using run_keys_watched [OF _ assms(3), of net c ex n trace] x(1) by (cases x) auto
  then have "and_then (and_then (run_setup (watched net) (c1, ex, n1, trace)) (run_start (watched net))) (run_check (watched net)) = Some ((c', ex', n', trace'), Inr ())"
    using x(2) assms(2) by simp
  then obtain y z where "run_setup (watched net) (c1, ex, n1, trace) = Some (y, Inr ())" "run_start (watched net) y = Some (z, Inr ())"
    "run_check (watched net) z = Some ((c', ex', n', trace'), Inr ())" by (auto simp: and_then_ok)
  then show thesis using that k(2) by (metis prod.exhaust)
qed

lemma DoAction_keeps: "DoAction keyGen net (c, ex, n) = Some ((c', ex', n'), q) \<Longrightarrow> ri_Round (ex_Info ex') = ri_Round (ex_Info ex)"
  using DoAction_round [of keyGen net] unfolding keeps_round_def by blast

lemma lightning_makes_calls:
  assumes "keeps_servers keyGen" "ex_DoRound ex" "\<not> ri_PathEstablishment (ex_Info ex)" "\<not> ex_LoadKeys ex" "int (ex_NumMessages ex) < 2 ^ 64"
  shows "makes_calls keyGen net ex (\<lambda>servers. lightning_calls servers (ex_NumMessages ex))"
  unfolding makes_calls_def
proof (intro allI impI)
  fix c n trace c' ex' n' trace'
  assume d: "DoAction keyGen (watched net) (c, ex, n, trace) = Some ((c', ex', n', trace'), Inr ())"
  note rd = DoAction_keeps [OF d]
  from action_steps [OF d assms(2,1)] obtain c1 n1 c2 ex2 n2 trace2 c3 ex3 n3 trace3 where c1: "co_ServerConfigs c1 = co_ServerConfigs c"
    and s: "run_setup (watched net) (c1, ex, n1, trace) = Some ((c2, ex2, n2, trace2), Inr ())"
    and t: "run_start (watched net) (c2, ex2, n2, trace2) = Some ((c3, ex3, n3, trace3), Inr ())"
    and k: "run_check (watched net) (c3, ex3, n3, trace3) = Some ((c', ex', n', trace'), Inr ())" .
  from setup_watched [OF s] assms(3,4) obtain cl where s': "c2 = c1" "ex2 = ex \<or> ex2 = ex\<lparr>ex_Info := with_span (ex_Info ex) (0, ex_NumMessages ex)\<rparr>"
    "trace2 = trace @ [SetupCall (co_ServerConfigs c) (ex_Info ex), cl]" "clients_started (ex_NumMessages ex) (ri_Round (ex_Info ex)) cl" using c1 by auto
  have e2: "\<not> ri_PathEstablishment (ex_Info ex2)" "ex_NumMessages ex2 = ex_NumMessages ex" using s'(2) assms(3) by (auto simp: with_span_def)
  have t': "c3 = c1" "ex3 = ex2" "trace3 = trace2 @ [StartCall (co_ServerConfigs c) (ex_Info ex2)]"
    using start_watched [OF t] e2(1) s'(1) c1 by auto
  have "run_check (watched net) (c1, ex2, n3, trace3) = Some ((c', ex', n', trace'), Inr ())" using k t'(1,2) by simp
  from lightning_check_watched [OF this e2(1), unfolded e2(2) c1, OF assms(5)] obtain rs mss where k': "c' = c1" "ex_Info ex' = ex_Info ex2"
    "trace' = trace3 @ [MessagesCall (co_ServerConfigs c) (ex_Info ex2) rs]" "answered (length (co_ServerConfigs c)) rs mss"
    "ex_Passed ex' \<longleftrightarrow> test_value ` set (concat mss) = {0..<int (ex_NumMessages ex)}" by blast
  have "lightning_calls (co_ServerConfigs c) (ex_NumMessages ex) ex'
      [SetupCall (co_ServerConfigs c) (ex_Info ex), cl, StartCall (co_ServerConfigs c) (ex_Info ex'), MessagesCall (co_ServerConfigs c) (ex_Info ex') rs]"
    unfolding lightning_calls_def using rd s'(4) k'(4,5) by auto
  then show "co_ServerConfigs c' = co_ServerConfigs c \<and> ri_Round (ex_Info ex') = ri_Round (ex_Info ex) \<and>
     (\<exists>calls. trace' = trace @ calls \<and> lightning_calls (co_ServerConfigs c) (ex_NumMessages ex) ex' calls)"
    using rd k'(1,2,3) s'(3) t'(3) c1 by auto
qed

lemma path_makes_calls:
  assumes "keeps_servers keyGen" "ex_DoRound ex" "ri_PathEstablishment (ex_Info ex)" "\<not> ri_ReceiptLayer (ex_Info ex) > 0 \<or> ri_Round (ex_Info ex) \<noteq> 0"
  shows "makes_calls keyGen net ex (\<lambda>servers. path_calls servers (ex_NumMessages ex))"
  unfolding makes_calls_def
proof (intro allI impI)
  fix c n trace c' ex' n' trace'
  assume d: "DoAction keyGen (watched net) (c, ex, n, trace) = Some ((c', ex', n', trace'), Inr ())"
  note rd = DoAction_keeps [OF d]
  from action_steps [OF d assms(2,1)] obtain c1 n1 c2 ex2 n2 trace2 c3 ex3 n3 trace3 where c1: "co_ServerConfigs c1 = co_ServerConfigs c"
    and s: "run_setup (watched net) (c1, ex, n1, trace) = Some ((c2, ex2, n2, trace2), Inr ())"
    and t: "run_start (watched net) (c2, ex2, n2, trace2) = Some ((c3, ex3, n3, trace3), Inr ())"
    and k: "run_check (watched net) (c3, ex3, n3, trace3) = Some ((c', ex', n', trace'), Inr ())" .
  let ?S = "co_ServerConfigs c"
  show "co_ServerConfigs c' = ?S \<and> ri_Round (ex_Info ex') = ri_Round (ex_Info ex) \<and>
     (\<exists>calls. trace' = trace @ calls \<and> path_calls ?S (ex_NumMessages ex) ex' calls)"
  proof (cases "ri_Round (ex_Info ex) = 0")
    case True
    from setup_watched [OF s, unfolded True] c1 obtain cl where s': "c2 = c1" "ex2 = ex \<or> ex2 = ex\<lparr>ex_Info := with_span (ex_Info ex) (0, ex_NumMessages ex)\<rparr>"
      "trace2 = trace @ SetupCall ?S (ex_Info ex) # cl" "if ex_LoadKeys ex then cl = [] else \<exists>x. cl = [x] \<and> clients_started (ex_NumMessages ex) 0 x" by auto
    have e2: "ri_PathEstablishment (ex_Info ex2)" "ri_Round (ex_Info ex2) = 0" "\<not> ri_ReceiptLayer (ex_Info ex2) > 0" "ex_LoadKeys ex2 = ex_LoadKeys ex"
      using s'(2) assms(3,4) True by (auto simp: with_span_def)
    have t': "c3 = c1" "ex3 = ex2" "trace3 = trace2" using start_watched [OF t] e2(1,2) s'(1) by auto
    have k': "c' = c1" "trace' = trace2" "ex_LoadKeys ex' = ex_LoadKeys ex" using path_check_watched [OF k] t' e2 by auto
    have "path_calls ?S (ex_NumMessages ex) ex' (SetupCall ?S (ex_Info ex) # cl)"
      unfolding path_calls_def using s'(4) k'(3) rd True by simp
    then show ?thesis using rd k' s'(3) c1 by auto
  next
    case False
    have s': "c2 = c1" "ex2 = ex" "trace2 = trace" using s False assms(3) by (simp_all add: run_setup_def)
    have t': "c3 = c1" "ex3 = ex" "trace3 = trace @ [StartCall ?S (ex_Info ex)]" using start_watched [OF t] False s' c1 by auto
    from path_check_watched [OF k] t' c1 assms(3) obtain ms where k': "c' = c1" "ri_ReceiptLayer (ex_Info ex') = ri_ReceiptLayer (ex_Info ex)"
      "trace' = trace @ StartCall ?S (ex_Info ex) # ms" "if ri_ReceiptLayer (ex_Info ex) > 0 then \<exists>j rs. ms = [MessagesCall ?S j rs] else ms = []"
      by (cases "ri_ReceiptLayer (ex_Info ex) > 0") auto
    have "path_calls ?S (ex_NumMessages ex) ex' (StartCall ?S (ex_Info ex) # ms)"
      unfolding path_calls_def using k'(2,4) rd False by simp
    then show ?thesis using rd k'(1,3) c1 by auto
  qed
qed

text \<open>A sequence of experiments.\<close>

lemma run_experiments_calls:
  assumes "run_experiments keyGen (watched net) exs (c, (n, trace), es) = Some (Inr ((c', (n', trace'), es'), True))"
    and "\<forall>ex \<in> set exs. makes_calls keyGen net ex P"
  shows "co_ServerConfigs c' = co_ServerConfigs c \<and> (\<exists>es1 css. es' = es @ es1 \<and> trace' = trace @ concat css \<and>
     map (\<lambda>ex. ri_Round (ex_Info ex)) es1 = map (\<lambda>ex. ri_Round (ex_Info ex)) exs \<and> list_all2 (P (co_ServerConfigs c)) es1 css)"
  using assms
proof (induction exs arbitrary: c n trace es)
  case Nil
  then show ?case by (auto intro!: exI [of _ "[]"])
next
  case (Cons ex exs)
  obtain c1 n1 trace1 es1 where e: "run_experiment keyGen (watched net) ex (c, (n, trace), es) = Some (Inr ((c1, (n1, trace1), es1), True))"
    and r: "run_experiments keyGen (watched net) exs (c1, (n1, trace1), es1) = Some (Inr ((c', (n', trace'), es'), True))"
    using Cons.prems(1) by (auto split: option.splits sum.splits bool.splits)
  from run_experiment_ok [OF e] obtain ex' where x: "es1 = es @ [ex']" "DoAction keyGen (watched net) (c, ex, n, trace) = Some ((c1, ex', n1, trace1), Inr ())" by blast
  have m: "makes_calls keyGen net ex P" using Cons.prems(2) by simp
  from m [unfolded makes_calls_def, rule_format, OF x(2)] obtain calls where y: "co_ServerConfigs c1 = co_ServerConfigs c"
    "ri_Round (ex_Info ex') = ri_Round (ex_Info ex)" "trace1 = trace @ calls" "P (co_ServerConfigs c) ex' calls" by blast
  from Cons.IH [OF r] Cons.prems(2) y(1) obtain es2 css where "co_ServerConfigs c' = co_ServerConfigs c" "es' = es1 @ es2" "trace' = trace1 @ concat css"
    "map (\<lambda>ex. ri_Round (ex_Info ex)) es2 = map (\<lambda>ex. ri_Round (ex_Info ex)) exs" "list_all2 (P (co_ServerConfigs c)) es2 css" by auto
  then show ?case using x(1) y by (intro conjI exI [of _ "ex' # es2"] exI [of _ "calls # css"]) auto
qed

lemma path_receipt_layer: "\<not> ri_ReceiptLayer (ex_Info (path_experiment F a i)) > 0 \<or> ri_Round (ex_Info (path_experiment F a i)) \<noteq> 0"
  if "0 \<le> limit_of a"
  using that by (simp add: path_experiment_def path_round_info_def NewExperiment_def Let_def)

section \<open>Properties\<close>

text \<open>C15. A run of the coordinator that completes has driven every round, once and in order, at all servers: the calls it has made
  to the network are, for each layer \<open>0\<close> to \<open>NumLayers - 1\<close>, the calls of a round of path establishment and then, five times, those of a lightning round: setup of all servers, start of
  all clients \<open>0\<close> to \<open>NumUsers - 1\<close> (each by one client process), start of all servers, and the request for the messages of all servers, in this order.
  Each server has answered the request of each lightning round, and the experiment recorded for the round is marked as passed if and
  only if the answers hold the message of every user and no other.\<close>

theorem main_run_delivers:
  assumes "run_main F (key_gen L M skey trnd t drnd b) (LoadKeys L M skey trnd' drnd' left secrets) (watched net) a c (n, []) =
      Some (Inr ((c', (n', trace), exs), True))"
    and "int (ar_NumUsers a) < 2 ^ 64" and "0 \<le> ar_NumLayers a"
  shows "map (\<lambda>ex. ri_Round (ex_Info ex)) exs = path_rounds a @ lightning_rounds a \<and>
     (\<exists>paths lightnings. trace = concat paths @ concat lightnings \<and>
        list_all2 (path_calls (co_ServerConfigs c) (ar_NumUsers a)) (take (length (path_rounds a)) exs) paths \<and>
        list_all2 (lightning_calls (co_ServerConfigs c) (ar_NumUsers a)) (drop (length (path_rounds a)) exs) lightnings)"
proof -
  let ?k = "key_gen L M skey trnd t drnd b" and ?S = "co_ServerConfigs c"
  obtain c0 n0 st where c0: "co_ServerConfigs c0 = ?S"
    and p: "run_experiments ?k (watched net) (map (path_experiment F a) (path_rounds a)) (c0, (n0, []), []) = Some (Inr (st, True))"
    and l: "run_experiments ?k (watched net) (map (lightning_experiment F a) (lightning_rounds a)) st = Some (Inr ((c', (n', trace), exs), True))"
    using assms(1) keys_keep_servers(2) [of L M skey trnd' drnd' left secrets]
    by (fastforce simp: run_main_def record_run_def LoadMessages_def keeps_servers_def Let_def split: sum.splits if_splits option.splits bool.splits prod.splits)
  obtain c1 n1 trace1 es where st: "st = (c1, (n1, trace1), es)" by (cases st) auto
  have "0 \<le> limit_of a" using assms(3) by (simp add: limit_of_def)
  then have "\<forall>ex \<in> set (map (path_experiment F a) (path_rounds a)). makes_calls ?k net ex (\<lambda>servers. path_calls servers (ar_NumUsers a))"
    using path_makes_calls [OF keys_keep_servers(1), of "path_experiment F a i" L M skey trnd t drnd b net for i] path_receipt_layer [of a F] by auto
  from run_experiments_calls [OF p [unfolded st] this] c0 obtain paths where a: "co_ServerConfigs c1 = ?S" "trace1 = concat paths"
    "map (\<lambda>ex. ri_Round (ex_Info ex)) es = path_rounds a" "list_all2 (path_calls ?S (ar_NumUsers a)) es paths" by (auto simp: comp_def)
  have "\<forall>ex \<in> set (map (lightning_experiment F a) (lightning_rounds a)). makes_calls ?k net ex (\<lambda>servers. lightning_calls servers (ar_NumUsers a))"
    using lightning_makes_calls [OF keys_keep_servers(1), of "lightning_experiment F a i" L M skey trnd t drnd b net for i] assms(2) by auto
  from run_experiments_calls [OF l [unfolded st] this] a(1) obtain es1 lightnings where b: "exs = es @ es1" "trace = trace1 @ concat lightnings"
    "map (\<lambda>ex. ri_Round (ex_Info ex)) es1 = lightning_rounds a" "list_all2 (lightning_calls ?S (ar_NumUsers a)) es1 lightnings" by (auto simp: comp_def)
  have "length es = length (path_rounds a)" using arg_cong [OF a(3), of length] by simp
  then show ?thesis using a b by auto
qed

text \<open>C38. The first client identifier is ignored when messages are recorded: run type \<open>5\<close> tells the servers that the clients
  are those from \<^verbatim>\<open>StartIdx\<close> on, but it starts the clients \<open>0\<close> to \<open>NumUsers - 1\<close>, for every \<^verbatim>\<open>StartIdx\<close>.\<close>

theorem recording_ignores_start:
  assumes "record_run F (key_gen L M skey trnd t drnd b) (watched net) a (c, (n, []), es) = Some (Inr ((c', (n', trace), es'), q))"
  shows "\<exists>i i'. trace = [SetupCall (co_ServerConfigs c) i, ClientsCall [(0, i')]] \<and>
     ri_StartId i = ar_StartIdx a \<and> ri_EndId i = ar_StartIdx a + int (ar_NumUsers a) \<and>
     ri_StartId i' = 0 \<and> ri_EndId i' = int (ar_NumUsers a)"
proof -
  let ?i = "(ex_Info (path_experiment F a 0))\<lparr>ri_StartId := ar_StartIdx a, ri_EndId := ar_StartIdx a + int (ar_NumUsers a)\<rparr>"
  let ?ex = "(path_experiment F a 0)\<lparr>ex_Info := ?i\<rparr>"
  obtain c1 n1 trace1 k ex2 where w: "WriteKeys (key_gen L M skey trnd t drnd b) (watched net) c (n, []) = Some (c1, (n1, trace1), Inr k)"
    and m: "WriteMessages (watched net) c1 ?ex (n1, trace1) = Some (ex2, (n', trace), Inr ())"
    using assms by (auto simp: record_run_def Let_def split: option.splits sum.splits)
  have c1: "trace1 = []" "co_ServerConfigs c1 = co_ServerConfigs c"
    using w keys_keep_servers(1) [of L M skey trnd t drnd b]
    by (auto simp: WriteKeys_def keeps_servers_def split: sum.splits option.splits dest!: SendKeys_watched)
  have "co_clientNetType c1 = Inprocess" using m by (auto simp: WriteMessages_def split: if_splits)
  then have "trace = [SetupCall (co_ServerConfigs c) ?i, ClientsCall [(0, with_span ?i (0, ar_NumUsers a))]]"
    using m c1
    by (auto simp: WriteMessages_def SendRoundSetup_def SendClientStart_def Let_def res_unit split: option.splits sum.splits prod.splits)
  then show ?thesis by (simp add: with_span_def)
qed

text \<open>C22. Coordinator and servers agree on the layers of path establishment: for a server that was set up by the
  first path round, the round of layer \<open>i\<close> starts the parser of layer \<open>i\<close>, which has the connection to the anytrust
  groups exactly in the round that the coordinator announces as the last; receipts end at layer \<open>i - limit\<close>, at layer
  \<open>0\<close> as long as this is not positive, and the message lengths are shifted exactly when clients cannot
  fetch their receipts any more.\<close>

theorem path_rounds_consistent:
  assumes "0 \<le> i" and "i < ar_NumLayers a" and "RoundSetup M connect s0 (path_round_info F a 0) = Inr s1"
    and "sv_lastLayer s = sv_lastLayer s1" and "start_path M s (path_round_info F a i) = Inr s2"
  shows "sv_pathLayer s2 = i \<and> sv_handler_round s2 = i \<and>
     (\<exists>p. sv_pathEstablishmentRouters s2 ! nat i = Some p \<and> pp_layer p = i \<and>
        (pp_Checkpoint p \<noteq> None \<longleftrightarrow> ri_LastLayer (path_round_info F a i))) \<and>
     sv_receiptLayer s2 = (if limit_of a < i then i - limit_of a else 0) \<and>
     cs_OnionMessageLengths (sv_CommonState s2) =
       (if 0 < ri_ReceiptLayer (path_round_info F a i) then shift_lengths else id) (cs_OnionMessageLengths (sv_CommonState s))"
proof -
  let ?m = "path_round_info F a i"
  have m: "ri_NextLayer ?m = i" "ri_Round ?m = i" "ri_LastLayer ?m \<longleftrightarrow> i = ar_NumLayers a - 1"
    "ri_ReceiptLayer ?m = (if limit_of a < i then i - limit_of a else 0)" "int (ri_BoomerangLimit ?m) = limit_of a"
    "ri_PathEstablishment (path_round_info F a 0)" "int (ri_NumLayers (path_round_info F a 0)) = ar_NumLayers a"
    using assms(1,2) by (simp_all add: path_round_info_def NewExperiment_def limit_of_def Let_def)
  have last: "sv_lastLayer s = ar_NumLayers a - 1"
    using assms(3,4) m(6,7) by (auto simp: RoundSetup_def SetupNewPathEstablishmentRound_def Let_def)
  define c where "c = (sv_CommonState s)\<lparr>cs_Round := i, cs_Layer := i\<rparr>"
  obtain ck p prs where ck: "(if i = sv_lastLayer s then sbind (NewCheckpointSender M c) (\<lambda>k. Inr (Some k)) else Inr None) = Inr ck"
    and p: "NewPathEstablishmentParser c i ck = Inr p" and prs: "go_store_int (sv_pathEstablishmentRouters s) i (Some p) = Inr prs"
    and s2: "sv_pathEstablishmentRouters s2 = prs" "sv_pathLayer s2 = i" "sv_handler_round s2 = i" "sv_receiptLayer s2 = ri_ReceiptLayer ?m"
      "cs_OnionMessageLengths (sv_CommonState s2) =
        (if i - limit_of a > 0 then shift_lengths (cs_OnionMessageLengths c) else cs_OnionMessageLengths c)"
    using assms(5) unfolding start_path_def Let_def m(1,2,5) c_def [symmetric] by (auto split: if_splits)
  have "pp_layer p = i \<and> pp_Checkpoint p = ck" using p by (auto simp: NewPathEstablishmentParser_def split: option.splits if_splits)
  moreover have "ck \<noteq> None \<longleftrightarrow> i = sv_lastLayer s" using ck by (auto split: if_splits)
  moreover have "prs ! nat i = Some p" using prs by (auto simp: go_store_int_def go_store_def split: if_splits)
  ultimately show ?thesis using s2 last m(3,4) by (simp add: c_def)
qed

text \<open>Two users and one server. The coordinators of this run have no groups.\<close>

definition sample_args :: "int \<Rightarrow> rat main_args" where
  "sample_args layers = \<lparr>ar_RunType = 0, ar_F = 0, ar_NumUsers = 2, ar_NumServers = 1, ar_MessageSize = 8, ar_NumGroups = 1, ar_GroupSize = 1,
     ar_BinSize = 4, ar_LimitSize = 1, ar_NumLayers = layers, ar_Overflow = 32, ar_NumClientServers = 0, ar_SkipPathGen = False,
     ar_NoCheck = False, ar_LoadMessages = False, ar_StartIdx = 0, ar_Interval = 0\<rparr>"

abbreviation "sample_keys \<equiv> key_gen toy_lib toy_mcl 0 (\<lambda>_ _. 0) 0 (\<lambda>_ _. 0) (zeros 32)"

definition single :: "256 word coordinator \<Rightarrow> bool" where
  "single c \<longleftrightarrow> co_ServerConfigs c = [0] \<and> co_GroupConfigs c = [] \<and> co_clientNetType c = Inprocess \<and> (\<exists>k. co_privateKeys c = [k])"

lemma sample_net_simps:
  "nw_KeySet sample_net sid k n = (n, Inr ())" "nw_client_KeySets sample_net cids k n = (n, map (\<lambda>_. Inr ()) cids)"
  "nw_RoundSetups sample_net sids i n = (n, map (\<lambda>_. Inr ()) sids)" "nw_RoundStarts sample_net sids i n = (n, map (\<lambda>_. Inr ()) sids)"
  "nw_GetMessages sample_net sids i n = (n + 1, map (\<lambda>_. Inr (Some [put_le 8 1, put_le 8 0])) sids)"
  "nw_ClientStarts sample_net cs n = (n, map (\<lambda>_. Inr ()) cs)" "nw_CheckReceipt sample_net idx i n = (n, Inr ())"
  "nw_RecordMessages sample_net n = n"
  by (simp_all add: sample_net_def)

lemma sample_keys_ok: "single c \<Longrightarrow> \<exists>c'. sample_keys c = Inr c' \<and> single c'"
  by (simp add: key_gen_def KeyGenToken_def keyGenToken_def GenDHKeys_def genDHKeys_def NewDHKeyPair_def single_def toy_lib_def toy_mcl_def
      g2_PackTo_def dhpk_PackTo_def Let_def size_defs G2_LEN_def RandomCurveScalar_def)

lemma sample_sends:
  assumes "single c" and "\<not> ex_LoadKeys ex"
  shows "\<exists>c' n'. run_keys sample_keys (watched sample_net) (c, ex, n, tr) = Some ((c', ex, n', tr), Inr ()) \<and> single c'"
proof -
  obtain c1 where c1: "(if ex_KeyGen ex then sample_keys c else Inr c) = Inr c1" "single c1" using sample_keys_ok [OF assms(1)] assms(1) by (cases "ex_KeyGen ex") auto
  have k: "send_attempt (nw_KeySet (watched sample_net) s) ks (n, tr) = ((n, tr), Inr True)" for s ks n tr
    by (induction ks) (simp_all add: sample_net_simps)
  have "\<exists>c'. SendKeys (watched sample_net) c1 (n, tr) = Some (c', (n, tr), Inr ()) \<and> single c'"
    using c1(2) by (auto simp: SendKeys_def single_def Let_def coordinator_retries_def numeral_3_eq_3 k sample_net_simps)
  then show ?thesis using c1 assms(2) by (auto simp: run_keys_def)
qed

lemma sample_action:
  assumes "single c" and "ex_DoRound ex" and "\<not> ex_LoadKeys ex" and "ex_NumMessages ex = 2" and "ri_ReceiptLayer (ex_Info ex) = 0"
  shows "\<exists>c' ex' n' tr'. DoAction sample_keys (watched sample_net) (c, ex, n, tr) = Some ((c', ex', n', tr'), Inr ()) \<and> single c' \<and> ex_Passed ex'"
proof -
  have e: "get_le (take 8 (put_le 8 1)) = 1" "get_le (take 8 (put_le 8 0)) = 0"
    using get_put_le [of 8 1] get_put_le [of 8 0] by simp_all
  then have c: "Check [put_le 8 1, put_le 8 0] 2 = Inr True" by (simp add: Check_def)
  obtain c1 n1 where k: "run_keys sample_keys (watched sample_net) (c, ex, n, tr) = Some ((c1, ex, n1, tr), Inr ())" and c1: "single c1"
    using sample_sends [OF assms(1,3)] by blast
  have w: "ri_PathEstablishment (with_span i s) = ri_PathEstablishment i" "ri_ReceiptLayer (with_span i s) = ri_ReceiptLayer i" for i s
    by (simp_all add: with_span_def)
  show ?thesis
    using c c1 assms(2-5)
    by (simp add: DoAction_def k run_setup_def run_clients_def run_start_def run_check_def and_then_def SendRoundSetup_def w
        SendRoundStart_def SendClientStart_def CheckClientReceipt_def coordinator_GetMessages_def sample_net_simps single_def Let_def)
qed

lemma sample_run:
  assumes "single c" and "\<forall>ex \<in> set xs. ex_DoRound ex \<and> \<not> ex_LoadKeys ex \<and> ex_NumMessages ex = 2 \<and> ri_ReceiptLayer (ex_Info ex) = 0"
  shows "\<exists>c' n' tr' es'. run_experiments sample_keys (watched sample_net) xs (c, (n, tr), es) = Some (Inr ((c', (n', tr'), es @ es'), True)) \<and>
     single c' \<and> length es' = length xs \<and> (\<forall>ex \<in> set es'. ex_Passed ex)"
  using assms
proof (induction xs arbitrary: c n tr es)
  case (Cons x xs)
  obtain c1 ex' n1 tr1 where d: "DoAction sample_keys (watched sample_net) (c, x, n, tr) = Some ((c1, ex', n1, tr1), Inr ())" "single c1" "ex_Passed ex'"
    using sample_action [OF Cons.prems(1), of x n tr] Cons.prems(2) by auto
  from Cons.IH [OF d(2), of n1 tr1 "es @ [ex']"] Cons.prems(2) obtain c' n' tr' es' where
    "run_experiments sample_keys (watched sample_net) xs (c1, (n1, tr1), es @ [ex']) = Some (Inr ((c', (n', tr'), (es @ [ex']) @ es'), True))"
    "single c'" "length es' = length xs" "\<forall>ex \<in> set es'. ex_Passed ex" by auto
  then show ?case using d by (intro exI [of _ c'] exI [of _ n'] exI [of _ tr'] exI [of _ "ex' # es'"]) (simp add: run_experiment_def)
qed simp

lemma sample_fields:
  "ar_NumUsers (sample_args l) = 2" "\<not> ex_LoadKeys (path_experiment F (sample_args l) i)" "ri_ReceiptLayer (ex_Info (lightning_experiment F (sample_args l) i)) = 0"
  "i \<le> 1 \<Longrightarrow> ri_ReceiptLayer (ex_Info (path_experiment F (sample_args l) i)) = 0" "single sample_coordinator"
  by (simp_all add: lightning_experiment_def path_experiment_def path_round_info_def limit_of_def NewExperiment_def sample_args_def Let_def
      single_def sample_coordinator_def)

theorem main_run_delivers_witness:
  "\<exists>c' n' trace exs. run_main toy_floats sample_keys (LoadKeys toy_lib toy_mcl 0 (\<lambda>_ _. 0) (\<lambda>_ _. 0) 0 (co_groupSecretKeys sample_coordinator))
       (watched sample_net) (sample_args 2) sample_coordinator (0, []) = Some (Inr ((c', (n', trace), exs), True)) \<and>
     map (\<lambda>ex. ri_Round (ex_Info ex)) exs = [0, 1, 2, 3, 4, 5, 6] \<and> (\<forall>ex \<in> set exs. ex_Passed ex) \<and>
     (\<exists>paths lightnings. trace = concat paths @ concat lightnings \<and> list_all2 (path_calls [0] 2) (take 2 exs) paths \<and>
        list_all2 (lightning_calls [0] 2) (drop 2 exs) lightnings)"
proof -
  let ?a = "sample_args 2" and ?l = "LoadKeys toy_lib toy_mcl 0 (\<lambda>_ _. 0) (\<lambda>_ _. 0) 0 (co_groupSecretKeys sample_coordinator)"
  have p: "path_rounds ?a = [0, 1]" "ar_LoadMessages ?a = False" "lightning_rounds ?a = [2, 3, 4, 5, 6]" "ar_RunType ?a = 0"
    "0 \<le> ar_NumLayers ?a" "int (ar_NumUsers ?a) < 2 ^ 64" "co_ServerConfigs sample_coordinator = [0]"
    by (simp_all add: path_rounds_def lightning_rounds_def sample_args_def numLightning_def upto.simps sample_coordinator_def)
  obtain c1 n1 tr1 es1 where r1: "run_experiments sample_keys (watched sample_net) (map (path_experiment toy_floats ?a) (path_rounds ?a))
      (sample_coordinator, (0, []), []) = Some (Inr ((c1, (n1, tr1), es1), True))" "single c1" "\<forall>ex \<in> set es1. ex_Passed ex"
    using sample_run [OF sample_fields(5), of "map (path_experiment toy_floats ?a) (path_rounds ?a)" 0 "[]" "[]"]
    by (auto simp: p(1) sample_fields)
  obtain c2 n2 tr2 es2 where r2: "run_experiments sample_keys (watched sample_net) (map (lightning_experiment toy_floats ?a) (lightning_rounds ?a))
      (c1, (n1, tr1), es1) = Some (Inr ((c2, (n2, tr2), es1 @ es2), True))" "\<forall>ex \<in> set es2. ex_Passed ex"
    using sample_run [OF r1(2), of "map (lightning_experiment toy_floats ?a) (lightning_rounds ?a)" n1 tr1 es1]
    by (auto simp: sample_fields)
  have r: "run_main toy_floats sample_keys ?l (watched sample_net) ?a sample_coordinator (0, []) = Some (Inr ((c2, (n2, tr2), es1 @ es2), True))"
    using r1(1) r2(1) by (simp add: run_main_def p(2,4))
  show ?thesis using main_run_delivers [OF r p(6,5)] r r1(3) r2(2) unfolding p(1,3,7) sample_fields(1) by (auto simp: numeral_2_eq_2)
qed

theorem recording_ignores_start_witness:
  "\<exists>c' n' trace i i'. record_run toy_floats sample_keys (watched sample_net) ((sample_args 1)\<lparr>ar_StartIdx := 7\<rparr>) (sample_coordinator, (0, []), []) =
       Some (Inr ((c', (n', trace), []), False)) \<and>
     trace = [SetupCall [0] i, ClientsCall [(0, i')]] \<and> ri_StartId i = 7 \<and> ri_EndId i = 9 \<and> ri_StartId i' = 0 \<and> ri_EndId i' = 2"
proof -
  let ?a = "(sample_args 1)\<lparr>ar_StartIdx := 7\<rparr>"
  let ?ex = "\<lparr>ex_Info = sample_round, ex_NumMessages = 2, ex_KeyGen = True, ex_DoRound = True, ex_LoadKeys = False, ex_Passed = False\<rparr>"
  obtain c1 n1 where "run_keys sample_keys (watched sample_net) (sample_coordinator, ?ex, 0, []) = Some ((c1, ?ex, n1, []), Inr ())" "single c1"
    using sample_sends [OF sample_fields(5), of ?ex 0 "[]"] by auto
  then have k: "WriteKeys sample_keys (watched sample_net) sample_coordinator (0, []) = Some (c1, (n1, []), Inr (co_groupSecretKeys c1))"
    by (auto simp: run_keys_def WriteKeys_def split: sum.splits option.splits)
  have "\<exists>ex' n' tr. WriteMessages (watched sample_net) c1 ex (n1, []) = Some (ex', (n', tr), Inr ())" for ex
    using \<open>single c1\<close> by (simp add: WriteMessages_def SendRoundSetup_def SendClientStart_def single_def sample_net_simps Let_def)
  then obtain ex' n' trace where "WriteMessages (watched sample_net) c1 ((path_experiment toy_floats ?a 0)\<lparr>ex_Info :=
      (ex_Info (path_experiment toy_floats ?a 0))\<lparr>ri_StartId := ar_StartIdx ?a, ri_EndId := ar_StartIdx ?a + int (ar_NumUsers ?a)\<rparr>\<rparr>) (n1, []) =
      Some (ex', (n', trace), Inr ())" by blast
  then have r: "record_run toy_floats sample_keys (watched sample_net) ?a (sample_coordinator, (0, []), []) =
      Some (Inr ((c1, (n', trace), []), False))" by (simp add: record_run_def k Let_def)
  moreover have "co_ServerConfigs sample_coordinator = [0]" "ar_StartIdx ?a = 7" "ar_NumUsers ?a = 2" by (simp_all add: sample_coordinator_def sample_args_def)
  ultimately show ?thesis using recording_ignores_start [OF r] by auto
qed

lemma sample_path_setup:
  "\<exists>s1. RoundSetup toy_mcl (Inr sample_caller) sample_server (path_round_info toy_floats (sample_args 1) 0) = Inr s1 \<and>
     (\<exists>s2. start_path toy_mcl s1 (path_round_info toy_floats (sample_args 1) 0) = Inr s2)"
proof -
  let ?i = "path_round_info toy_floats (sample_args 1) 0"
  have i: "ri_NumLayers ?i = 1" "ri_PathEstablishment ?i" "ri_Round ?i = 0" "ri_BinSize ?i = 4" "ri_NextLayer ?i = 0"
    "ri_MessageSize ?i = 8" "ri_BoomerangLimit ?i = 1" "ri_ReceiptLayer ?i = 0"
    by (simp_all add: path_round_info_def NewExperiment_def limit_of_def sample_args_def Let_def)
  obtain pl bl wl where l: "PathEstablishmentLengths toy_mcl 1 8 1 = Inr pl" "length pl = 1 + 1" "BoomerangLengths 1 8 1 = Inr bl"
    "WireBoomerangLengths 1 8 1 = Inr wl" "length wl = 1"
    using PathEstablishmentLengths_ok [of 1 toy_mcl 8 1] BoomerangLengths_ok [of 1 8 1] WireBoomerangLengths_ok [of 1 8 1] by auto
  have g: "go_index_int pl 1 = Inr (pl ! 1)" "go_index_int wl 0 = Inr (wl ! 0)" using l(2,5) by (simp_all add: go_index_int_def)
  have "wl \<noteq> []" using l(5) by auto
  then show ?thesis
    using l g
    by (simp add: RoundSetup_def i Let_def reset_keys_def SetupNewPathEstablishmentRound_def start_path_def NewCheckpointSender_def
        NewPathEstablishmentParser_def NewLightningRouter_def new_buffers_def go_index_def go_store_def go_store_int_def go_index_int_def
        sample_server_def sample_state_def)
qed

theorem path_rounds_consistent_witness:
  "\<exists>s1 s2. RoundSetup toy_mcl (Inr sample_caller) sample_server (path_round_info toy_floats (sample_args 1) 0) = Inr s1 \<and>
     start_path toy_mcl s1 (path_round_info toy_floats (sample_args 1) 0) = Inr s2 \<and> sv_pathLayer s2 = 0 \<and> sv_receiptLayer s2 = 0"
proof -
  obtain s1 s2 where s: "RoundSetup toy_mcl (Inr sample_caller) sample_server (path_round_info toy_floats (sample_args 1) 0) = Inr s1"
    "start_path toy_mcl s1 (path_round_info toy_floats (sample_args 1) 0) = Inr s2" using sample_path_setup by blast
  have "0 < ar_NumLayers (sample_args 1)" by (simp add: sample_args_def)
  from path_rounds_consistent [OF _ this s(1) refl s(2)] s show ?thesis by (auto simp: limit_of_def sample_args_def)
qed

end
