(* ===== verification/Deployment.thy ===== *)
theory Deployment
  imports ConnectionSetup AnytrustGroups Schedule
begin

text \<open>
  The configuration of a network: identities and keys of servers (\<^verbatim>\<open>src/config/certificates.go\<close>), the network of
  one machine made by \<^verbatim>\<open>NewLocalConfig\<close> (\<^verbatim>\<open>src/coordinator/network.go\<close>), the configuration files of run type \<open>3\<close> of
  \<^verbatim>\<open>src/cmd/coordinator/coordinator.go\<close>, and the lookups by address of \<^verbatim>\<open>src/network/grpc_setup.go\<close> and
  \<^verbatim>\<open>src/config/marshal.go\<close>. The script that makes a certificate and the files it writes are the record argument
  \<open>E\<close>; parsing and writing JSON is not modelled, a parsed file is an argument. The lemmas show that a local
  network has the servers asked for under different addresses, that its goroutines connect all of
  them, and for how many servers the ports of one machine are enough.
\<close>

section \<open>Identities\<close>

record host_config = server_config +
  hc_Identity :: "bytes option"
  hc_PrivateIdentity :: "bytes option"

type_synonym host_configs = "(int \<times> host_config) list"

definition without_identities :: "host_configs \<Rightarrow> server_configs" where
  "without_identities hs = map (\<lambda>(k, h). (k, server_config.truncate h)) hs"

text \<open>\<open>ce_script ip addr\<close> is the error of running \<^verbatim>\<open>certificate.sh\<close>, if any, \<open>ce_file\<close> the content of a file after that.\<close>

record cert_env =
  ce_script :: "string \<Rightarrow> string \<Rightarrow> error option"
  ce_file :: "string \<Rightarrow> error + bytes"

definition read_or_panic :: "cert_env \<Rightarrow> string \<Rightarrow> bytes res" where
  "read_or_panic E fn = (case ce_file E fn of Inl e \<Rightarrow> Inl (Panic (PanicError e)) | Inr b \<Rightarrow> Inr b)"

definition GetCertificate :: "cert_env \<Rightarrow> string \<Rightarrow> bytes res" where
  "GetCertificate E addr = read_or_panic E (''../certificates/cert'' @ addr @ ''.pem'')"

definition GetCertificateKey :: "cert_env \<Rightarrow> string \<Rightarrow> bytes res" where
  "GetCertificateKey E addr = read_or_panic E (''../certificates/key'' @ addr @ ''.pem'')"

definition CreateCertificate :: "resolver \<Rightarrow> cert_env \<Rightarrow> string \<Rightarrow> (bytes \<times> bytes) res" where
  "CreateCertificate R E addr =
     sbind (IP R addr) (\<lambda>ip.
       case ce_script E ip addr of
         Some e \<Rightarrow> Inl (Panic (PanicError e))
       | None \<Rightarrow> sbind (GetCertificate E addr) (\<lambda>cert. sbind (GetCertificateKey E addr) (\<lambda>key. Inr (cert, key))))"

text \<open>\<open>rnd\<close> are the random bytes of the Diffie-Hellman key and the signing key that is drawn.\<close>

definition CreateServerWithCertificate ::
  "('s, 'p) lib \<Rightarrow> bytes \<times> signing_key \<Rightarrow> string \<Rightarrow> int \<Rightarrow> bytes option \<Rightarrow> bytes option \<Rightarrow> host_config res" where
  "CreateServerWithCertificate L rnd addr sid cert key =
     sbind (NewDHKeyPair L (fst rnd)) (\<lambda>(priv, pub).
       Inr \<lparr>sc_Address = addr, sc_Id = sid, sc_PublicKey = pt_encode L pub, sc_PrivateKey = sc_bytes L priv,
            sc_VerificationKey = ed_public L (snd rnd), sc_SignatureKey = snd rnd,
            hc_Identity = cert, hc_PrivateIdentity = key\<rparr>)"

definition FindIdentity :: "string \<Rightarrow> host_configs \<Rightarrow> bytes option \<times> bytes option" where
  "FindIdentity addr servers =
     (case find (\<lambda>(_, s). sc_Address s = addr) servers of
        None \<Rightarrow> (None, None)
      | Some (_, s) \<Rightarrow> (hc_Identity s, hc_PrivateIdentity s))"

definition CreateServerWithExisting ::
  "('s, 'p) lib \<Rightarrow> resolver \<Rightarrow> cert_env \<Rightarrow> bytes \<times> signing_key \<Rightarrow> string \<Rightarrow> int \<Rightarrow> host_configs \<Rightarrow> host_config res" where
  "CreateServerWithExisting L R E rnd addr sid servers =
     (case FindIdentity addr servers of
        (Some cert, key) \<Rightarrow> CreateServerWithCertificate L rnd addr sid (Some cert) key
      | (None, _) \<Rightarrow>
          sbind (CreateCertificate R E addr) (\<lambda>(cert, key).
            CreateServerWithCertificate L rnd addr sid (Some cert) (Some key)))"

section \<open>A network on one machine\<close>

definition base :: int where "base = 8000"
definition clientBase :: int where "clientBase = 8900"

definition local_address :: "int \<Rightarrow> nat \<Rightarrow> nat \<Rightarrow> string" where
  "local_address b n i = ''localhost:'' @ itoa (b + int i * int n)"

fun local_servers ::
  "('s, 'p) lib \<Rightarrow> resolver \<Rightarrow> cert_env \<Rightarrow> (nat \<Rightarrow> bytes \<times> signing_key) \<Rightarrow> nat \<Rightarrow> bool \<Rightarrow> nat list \<Rightarrow> host_configs \<Rightarrow> host_configs res" where
  "local_servers L R E rnd numServers inprocess [] servers = Inr servers"
| "local_servers L R E rnd numServers inprocess (i # is) servers =
     (let addr = local_address base numServers i in
      sbind (if inprocess then CreateServerWithCertificate L (rnd i) addr (int i) None None
             else CreateServerWithExisting L R E (rnd i) addr (int i) servers) (\<lambda>s.
      local_servers L R E rnd numServers inprocess is (AList.update (int i) s servers)))"

fun local_clients ::
  "('s, 'p) lib \<Rightarrow> resolver \<Rightarrow> cert_env \<Rightarrow> (nat \<Rightarrow> bytes \<times> signing_key) \<Rightarrow> nat \<Rightarrow> nat list \<Rightarrow> host_configs \<Rightarrow> host_configs res" where
  "local_clients L R E rnd numClients [] clients = Inr clients"
| "local_clients L R E rnd numClients (i # is) clients =
     sbind (CreateServerWithExisting L R E (rnd i) (local_address clientBase numClients i) (int i) clients) (\<lambda>s.
     local_clients L R E rnd numClients is (AList.update (int i) s clients))"

text \<open>\<^term>\<open>None\<close> when the groups are never found; \<open>rnd\<close> are the draws for the servers, \<open>crnd\<close> those for the clients.\<close>

definition NewLocalConfig ::
  "('s, 'p) lib \<Rightarrow> resolver \<Rightarrow> cert_env \<Rightarrow> (nat \<Rightarrow> bytes \<times> signing_key) \<Rightarrow> (nat \<Rightarrow> bytes \<times> signing_key) \<Rightarrow>
     (bytes \<Rightarrow> 'r) \<Rightarrow> 'r reader \<Rightarrow> bytes \<Rightarrow> nat \<Rightarrow> nat \<Rightarrow> nat \<Rightarrow> nat \<Rightarrow> bool \<Rightarrow>
     (host_configs \<times> group_configs \<times> host_configs) res option" where
  "NewLocalConfig L R E rnd crnd shake rd Seed numServers numGroups groupSize numClients inprocess =
     (case CreateSeparateGroupsWithSize shake rd Seed numGroups groupSize (map int [0..<numServers]) of
        None \<Rightarrow> None
      | Some g \<Rightarrow> Some (
          sbind g (\<lambda>groups.
          sbind (local_servers L R E rnd numServers inprocess [0..<numServers] []) (\<lambda>servers.
          sbind (local_clients L R E crnd numClients [0..<numClients] []) (\<lambda>clients.
          Inr (servers, groups, clients))))))"

section \<open>Lookups by address\<close>

definition FindConfig :: "string \<Rightarrow> host_configs \<Rightarrow> int \<times> host_config option" where
  "FindConfig addr servercfgs =
     (case find (\<lambda>(_, c). sc_Address c = addr) servercfgs of
        None \<Rightarrow> (- 1, None)
      | Some (i, c) \<Rightarrow> (i, Some c))"

text \<open>\<^verbatim>\<open>UnmarshalNetwork\<close> on the servers of a file.\<close>

definition UnmarshalNetwork ::
  "error + host_configs \<Rightarrow> string \<Rightarrow> (int \<times> host_config \<times> (string \<times> int) list \<times> (int \<times> verification_key) list) res" where
  "UnmarshalNetwork file addr =
     (case file of
        Inl e \<Rightarrow> Inl (Err e)
      | Inr servers \<Rightarrow>
          let peers = foldl (\<lambda>m (sid, s). AList.update (sc_Address s) sid m) [] servers;
              verificationKeys = foldl (\<lambda>m (sid, s). AList.update sid (sc_VerificationKey s) m) [] servers in
          case find (\<lambda>(_, s). sc_Address s = addr) servers of
            None \<Rightarrow> Inl (Err LibraryError)
          | Some (sid, s) \<Rightarrow> Inr (sid, s, peers, verificationKeys))"

text \<open>A file that cannot be read ends the program.\<close>

definition load_or_die :: "error + 'a \<Rightarrow> 'a res" where
  "load_or_die f = (case f of Inl e \<Rightarrow> Inl (Panic LogFatal) | Inr x \<Rightarrow> Inr x)"

definition LoadConfigs ::
  "(string \<Rightarrow> error + host_configs) \<Rightarrow> (string \<Rightarrow> error + group_configs) \<Rightarrow> string \<Rightarrow> string \<Rightarrow> string \<Rightarrow>
     (host_configs \<times> group_configs \<times> host_configs) res" where
  "LoadConfigs serversIn groupsIn serverFile groupFile clientsFile =
     sbind (load_or_die (serversIn serverFile)) (\<lambda>servers.
     sbind (load_or_die (groupsIn groupFile)) (\<lambda>groups.
     sbind (if length clientsFile > 0 then load_or_die (serversIn clientsFile) else Inr []) (\<lambda>clients.
     Inr (servers, groups, clients))))"

section \<open>Configuration files\<close>

text \<open>The records of the CSV file are the argument.\<close>

definition ReadCsv :: "error + string list list \<Rightarrow> string list res" where
  "ReadCsv file = sbind (load_or_die file) (map_res (\<lambda>ip. go_index ip 0))"

definition host_step ::
  "('s, 'p) lib \<Rightarrow> resolver \<Rightarrow> cert_env \<Rightarrow> (nat \<Rightarrow> bytes \<times> signing_key) \<Rightarrow> (nat \<Rightarrow> bytes \<times> signing_key) \<Rightarrow> 'f main_args \<Rightarrow>
     nat \<Rightarrow> nat \<Rightarrow> string \<Rightarrow> host_configs \<times> host_configs \<Rightarrow> (host_configs \<times> host_configs) res" where
  "host_step L R E rnd crnd a numIps i addr st =
     (case st of (servers, clients) \<Rightarrow>
        let server = sbind (CreateServerWithExisting L R E (rnd i) (addr @ '':8000'') (int i) servers) (\<lambda>s.
              Inr (AList.update (int i) s servers));
            client = (\<lambda>j servers. sbind (CreateServerWithExisting L R E (crnd i) (addr @ '':8900'') (int j) servers) (\<lambda>c.
              Inr (servers, AList.update (int j) c clients))) in
        if numIps \<ge> ar_NumClientServers a + ar_NumServers a then
          if i < ar_NumServers a then sbind server (\<lambda>servers. Inr (servers, clients))
          else if i < ar_NumClientServers a + ar_NumServers a then client (i - ar_NumServers a) servers
          else Inr (servers, clients)
        else
          sbind (if i < ar_NumServers a then server else Inr servers) (\<lambda>servers.
            if i < ar_NumClientServers a then client i servers else Inr (servers, clients)))"

fun host_steps ::
  "('s, 'p) lib \<Rightarrow> resolver \<Rightarrow> cert_env \<Rightarrow> (nat \<Rightarrow> bytes \<times> signing_key) \<Rightarrow> (nat \<Rightarrow> bytes \<times> signing_key) \<Rightarrow> 'f main_args \<Rightarrow>
     nat \<Rightarrow> nat \<Rightarrow> string list \<Rightarrow> host_configs \<times> host_configs \<Rightarrow> (host_configs \<times> host_configs) res" where
  "host_steps L R E rnd crnd a numIps i [] st = Inr st"
| "host_steps L R E rnd crnd a numIps i (addr # ips) st =
     sbind (host_step L R E rnd crnd a numIps i addr st) (\<lambda>st. host_steps L R E rnd crnd a numIps (Suc i) ips st)"

text \<open>\<open>s.PrivateKey = old.PrivateKey\<close> and the public key, for every server.\<close>

definition copy_old_keys :: "host_configs \<Rightarrow> host_configs \<Rightarrow> host_configs res" where
  "copy_old_keys olds servers =
     map_res (\<lambda>(sid, s).
       case map_of olds sid of
         None \<Rightarrow> Inl (Panic NilDereference)
       | Some old \<Rightarrow> Inr (sid, s\<lparr>sc_PrivateKey := sc_PrivateKey old, sc_PublicKey := sc_PublicKey old\<rparr>)) servers"

text \<open>Run type \<open>3\<close>: the servers, groups and clients that are written, the clients only when there are any.\<close>

definition create_configuration ::
  "('s, 'p) lib \<Rightarrow> resolver \<Rightarrow> cert_env \<Rightarrow> (nat \<Rightarrow> bytes \<times> signing_key) \<Rightarrow> (nat \<Rightarrow> bytes \<times> signing_key) \<Rightarrow>
     (bytes \<Rightarrow> 'r) \<Rightarrow> 'r reader \<Rightarrow> bytes \<Rightarrow> 'f main_args \<Rightarrow> error + string list list \<Rightarrow> error + host_configs \<Rightarrow>
     (host_configs \<times> group_configs \<times> host_configs option) res option" where
  "create_configuration L R E rnd crnd shake rd Seed a csv oldServers =
     (case sbind (ReadCsv csv) (\<lambda>ips.
           sbind (host_steps L R E rnd crnd a (length ips) 0 ips ([], [])) (\<lambda>(servers, clients).
           sbind (slice (map int [0..<length ips]) 0 (ar_NumServers a)) (\<lambda>serverIds. Inr (servers, clients, serverIds)))) of
        Inl e \<Rightarrow> Some (Inl e)
      | Inr (servers, clients, serverIds) \<Rightarrow>
          (case CreateSeparateGroupsWithSize shake rd Seed (ar_NumGroups a) (ar_GroupSize a) serverIds of
             None \<Rightarrow> None
           | Some g \<Rightarrow> Some (
               sbind g (\<lambda>groups.
               sbind (if ar_LoadMessages a then sbind (load_or_die oldServers) (\<lambda>olds. copy_old_keys olds servers) else Inr servers) (\<lambda>servers.
               Inr (servers, groups, if ar_NumClientServers a > 0 then Some clients else None))))))"

section \<open>The servers of a local network\<close>

text \<open>What \<^verbatim>\<open>CreateServerWithCertificate\<close> gives, with any identity.\<close>

definition host_made :: "('s, 'p) lib \<Rightarrow> bytes \<times> signing_key \<Rightarrow> string \<Rightarrow> int \<Rightarrow> host_config \<Rightarrow> bool" where
  "host_made L rnd addr sid h \<longleftrightarrow>
     sc_Address h = addr \<and> sc_Id h = sid \<and> sc_SignatureKey h = snd rnd \<and> sc_VerificationKey h = ed_public L (snd rnd) \<and>
     (\<exists>priv. sc_PrivateKey h = sc_bytes L priv \<and> sc_PublicKey h = pt_encode L (PublicKey L priv))"

lemma CreateServerWithCertificate_made:
  "CreateServerWithCertificate L rnd addr sid cert key = Inr h \<Longrightarrow> host_made L rnd addr sid h"
  by (auto simp: CreateServerWithCertificate_def NewDHKeyPair_def host_made_def)

lemma CreateServerWithExisting_made:
  "CreateServerWithExisting L R E rnd addr sid servers = Inr h \<Longrightarrow> host_made L rnd addr sid h"
  by (auto simp: CreateServerWithExisting_def CreateServerWithCertificate_made split: prod.splits option.splits)

lemma update_new: "k \<notin> set (map fst xs) \<Longrightarrow> AList.update k v xs = xs @ [(k, v)]"
  by (induction xs) auto

lemma local_servers_made:
  assumes "local_servers L R E rnd n inprocess is servers = Inr servers'" "distinct is"
    and "set (map fst servers) \<inter> int ` set is = {}"
  shows "\<exists>hs. servers' = servers @ zip (map int is) hs \<and> length hs = length is \<and>
     (\<forall>j < length is. host_made L (rnd (is ! j)) (local_address base n (is ! j)) (int (is ! j)) (hs ! j))"
  using assms
proof (induction "is" arbitrary: servers)
  case (Cons i "is")
  let ?addr = "local_address base n i"
  obtain h where h: "(if inprocess then CreateServerWithCertificate L (rnd i) ?addr (int i) None None
      else CreateServerWithExisting L R E (rnd i) ?addr (int i) servers) = Inr h"
    and rest: "local_servers L R E rnd n inprocess is (AList.update (int i) h servers) = Inr servers'"
    using Cons.prems(1) by (auto simp: Let_def)
  have m: "host_made L (rnd i) ?addr (int i) h"
    using h CreateServerWithCertificate_made [of L "rnd i" ?addr "int i" None None h]
      CreateServerWithExisting_made [of L R E "rnd i" ?addr "int i" servers h] by (cases inprocess) simp_all
  have u: "AList.update (int i) h servers = servers @ [(int i, h)]" using Cons.prems(3) by (intro update_new) auto
  have "set (map fst (servers @ [(int i, h)])) \<inter> int ` set is = {}" using Cons.prems(2,3) by auto
  from Cons.IH [OF rest [unfolded u] _ this] Cons.prems(2) obtain hs where
    hs: "servers' = (servers @ [(int i, h)]) @ zip (map int is) hs" "length hs = length is"
      "\<forall>j < length is. host_made L (rnd (is ! j)) (local_address base n (is ! j)) (int (is ! j)) (hs ! j)" by auto
  have "\<forall>j < length (i # is). host_made L (rnd ((i # is) ! j)) (local_address base n ((i # is) ! j)) (int ((i # is) ! j)) ((h # hs) ! j)"
    using m hs(3) by (auto simp: less_Suc_eq_0_disj)
  then show ?case using hs(1,2) by (intro exI [of _ "h # hs"]) simp
qed simp

lemma local_clients_made:
  assumes "local_clients L R E rnd n is clients = Inr clients'" "distinct is"
    and "set (map fst clients) \<inter> int ` set is = {}"
  shows "\<exists>hs. clients' = clients @ zip (map int is) hs \<and> length hs = length is \<and>
     (\<forall>j < length is. sc_Address (hs ! j) = local_address clientBase n (is ! j))"
  using assms
proof (induction "is" arbitrary: clients)
  case (Cons i "is")
  obtain h where h: "CreateServerWithExisting L R E (rnd i) (local_address clientBase n i) (int i) clients = Inr h"
    and rest: "local_clients L R E rnd n is (AList.update (int i) h clients) = Inr clients'"
    using Cons.prems(1) by auto
  have m: "sc_Address h = local_address clientBase n i" using CreateServerWithExisting_made [OF h] by (simp add: host_made_def)
  have u: "AList.update (int i) h clients = clients @ [(int i, h)]" using Cons.prems(3) by (intro update_new) auto
  have "set (map fst (clients @ [(int i, h)])) \<inter> int ` set is = {}" using Cons.prems(2,3) by auto
  from Cons.IH [OF rest [unfolded u] _ this] Cons.prems(2) obtain hs where
    hs: "clients' = (clients @ [(int i, h)]) @ zip (map int is) hs" "length hs = length is"
      "\<forall>j < length is. sc_Address (hs ! j) = local_address clientBase n (is ! j)" by auto
  have "\<forall>j < length (i # is). sc_Address ((h # hs) ! j) = local_address clientBase n ((i # is) ! j)"
    using m hs(3) by (auto simp: less_Suc_eq_0_disj)
  then show ?case using hs(1,2) by (intro exI [of _ "h # hs"]) simp
qed simp

text \<open>The servers of \<^verbatim>\<open>NewLocalConfig\<close>: numbered from \<open>0\<close>, made for their addresses, whatever the run type.\<close>

lemma local_config_servers:
  assumes "NewLocalConfig L R E rnd crnd shake rd Seed n ng gs nc inprocess = Some (Inr (servers, groups, clients))"
  shows "\<exists>hs. servers = zip (map int [0..<n]) hs \<and> length hs = n \<and>
     (\<forall>i < n. host_made L (rnd i) (local_address base n i) (int i) (hs ! i))"
proof -
  have "local_servers L R E rnd n inprocess [0..<n] [] = Inr servers"
    using assms by (auto simp: NewLocalConfig_def split: option.splits)
  from local_servers_made [OF this] show ?thesis by simp
qed

lemma local_config_clients:
  assumes "NewLocalConfig L R E rnd crnd shake rd Seed n ng gs nc inprocess = Some (Inr (servers, groups, clients))"
  shows "\<exists>hs. clients = zip (map int [0..<nc]) hs \<and> length hs = nc \<and> (\<forall>i < nc. sc_Address (hs ! i) = local_address clientBase nc i)"
proof -
  have "local_clients L R E crnd nc [0..<nc] [] = Inr clients"
    using assms by (auto simp: NewLocalConfig_def split: option.splits)
  from local_clients_made [OF this] show ?thesis by simp
qed

section \<open>Addresses of a local network\<close>

lemma localhost_colon: "CHR '':'' \<notin> set ''localhost''"
  by simp

lemma local_address_eq: "local_address b n i = ''localhost'' @ CHR '':'' # itoa (b + int i * int n)"
  by (simp add: local_address_def)

lemma Port_local: "Port (local_address b n i) = Inr (CHR '':'' # itoa (b + int i * int n))"
  unfolding local_address_eq by (rule host_port(2) [OF localhost_colon])

lemma IP_localhost: "IP R (local_address b n i) = IP R ''localhost''"
proof -
  have "Host (local_address b n i) = ''localhost''" unfolding local_address_eq by (rule host_port(1) [OF localhost_colon])
  moreover have "Host ''localhost'' = ''localhost''" by (simp add: Host_def)
  ultimately show ?thesis by (simp only: IP_def)
qed

lemma local_tcp:
  assumes "IP R ''localhost'' = Inr ip" "i < n" "n < 2 ^ 31" "0 \<le> k" "k < int n"
  shows "CalculateAddress R (local_address base n i) k = Inr (ip, CHR '':'' # itoa (9000 + int i * int n + k))"
proof -
  have "int i * int n \<le> (2 ^ 31) * (2 ^ 31)" using assms(2,3) by (intro mult_mono) simp_all
  moreover have "IP R (''localhost'' @ CHR '':'' # itoa (base + int i * int n)) = Inr ip"
    using assms(1) IP_localhost [of R base n i] by (simp add: local_address_eq)
  ultimately have "CalculateAddress R (''localhost'' @ CHR '':'' # itoa (base + int i * int n)) k =
      Inr (ip, CHR '':'' # itoa (base + int i * int n + k + 1000))"
    using assms(3-5) by (intro CalculateAddress_ok localhost_colon) (auto simp: base_def)
  then show ?thesis by (simp add: local_address_eq base_def algebra_simps)
qed

lemma mixed_radix:
  assumes "int i * int n + k = int j * int n + l" "0 \<le> k" "k < int n" "0 \<le> l" "l < int n"
  shows "i = j \<and> k = l"
proof -
  have "(int i * int n + k) div int n = int i" "(int j * int n + l) div int n = int j"
    using assms(2-5) by (simp_all add: div_mult_self3)
  then have "i = j" using assms(1) by simp
  then show ?thesis using assms(1) by simp
qed

text \<open>The addresses of different servers, and of different pairs of servers, are different.\<close>

lemma local_address_inj:
  assumes "local_address b n i = local_address b n j" "0 \<le> b" "0 < n"
  shows "i = j"
proof -
  have "b + int i * int n = b + int j * int n" using assms by (intro itoa_inj) (simp_all add: local_address_def)
  then show ?thesis using assms(3) by simp
qed

lemma local_conn_env:
  assumes cfg: "NewLocalConfig L R E rnd crnd shake rd Seed n ng gs nc inprocess = Some (Inr (servers, groups, clients))"
    and ip: "IP R ''localhost'' = Inr ip" and n: "n < 2 ^ 31"
  shows "conn_env R (without_identities servers)" "length (without_identities servers) = n"
proof -
  let ?c = "without_identities servers"
  obtain hs where hs: "servers = zip (map int [0..<n]) hs" "length hs = n"
      "\<forall>i < n. host_made L (rnd i) (local_address base n i) (int i) (hs ! i)"
    using local_config_servers [OF cfg] by blast
  show len: "length ?c = n" by (simp add: without_identities_def hs(1,2))
  have keys: "map fst ?c = map int [0..<n]" by (simp add: without_identities_def hs(1,2) split_def comp_def)
  then have dist: "distinct (map fst ?c)" "set (map fst ?c) = {0..<int n}" by (auto simp: distinct_map image_int_atLeastLessThan)
  have at: "map_of ?c (int i) = Some (server_config.truncate (hs ! i))" if "i < n" for i
  proof (rule map_of_is_SomeI [OF dist(1)])
    have "(int i, hs ! i) \<in> set servers" using that hs(1,2) by (auto simp: in_set_zip intro!: exI [of _ i])
    then show "(int i, server_config.truncate (hs ! i)) \<in> set ?c" by (force simp: without_identities_def)
  qed
  have adr: "tcp_address R ?c i k = Inr (ip @ CHR '':'' # itoa (9000 + int i * int n + k))"
    if "i < n" "0 \<le> k" "k < int n" for i k
    using at [OF that(1)] hs(3) that local_tcp [OF ip that(1) n that(2,3)]
    by (simp add: tcp_address_def config_at_def host_made_def server_config.defs)
  have "i = j \<and> k = l" if "i < n" "j < n" "k \<in> {0..<int n}" "l \<in> {0..<int n}" "tcp_address R ?c i k = tcp_address R ?c j l" for i j k l
  proof -
    have "9000 + int i * int n + k = 9000 + int j * int n + l" using that adr by (intro itoa_inj) auto
    then show ?thesis using that mixed_radix [of i n k j l] by simp
  qed
  moreover have "sc_Id c = k" if "(k, c) \<in> set ?c" for k c
    using that hs by (auto simp: without_identities_def in_set_zip host_made_def server_config.defs)
  ultimately show "conn_env R ?c" unfolding conn_env_def len using dist n adr by fastforce
qed

text \<open>An in-process configuration is made whenever the groups fit and the library accepts the random bytes.\<close>

lemma local_servers_total:
  assumes "\<forall>i \<in> set is. sc_uniform L (fst (rnd i)) \<noteq> None"
  shows "\<exists>servers'. local_servers L R E rnd n True is servers = Inr servers'"
  using assms
proof (induction "is" arbitrary: servers)
  case (Cons i "is")
  then obtain k where "sc_uniform L (fst (rnd i)) = Some k" by auto
  then obtain h where "CreateServerWithCertificate L (rnd i) (local_address base n i) (int i) None None = Inr h"
    by (simp add: CreateServerWithCertificate_def NewDHKeyPair_def RandomCurveScalar_def)
  then show ?case using Cons by simp
qed simp

lemma NewLocalConfig_total:
  assumes "reader_ok rd" "n < 2 ^ 31" "ng * gs \<le> n" "\<forall>i < n. sc_uniform L (fst (rnd i)) \<noteq> None"
  shows "\<exists>servers groups. NewLocalConfig L R E rnd crnd shake rd Seed n ng gs 0 True = Some (Inr (servers, groups, []))"
proof -
  obtain groups where "CreateSeparateGroupsWithSize shake rd Seed ng gs (map int [0..<n]) = Some (Inr groups)"
    using separate_groups_fit [of rd "map int [0..<n]" ng gs shake Seed] assms(1-3) by auto
  moreover obtain servers where "local_servers L R E rnd n True [0..<n] [] = Inr servers"
    using local_servers_total [of "[0..<n]" L rnd R E n "[]"] assms(4) by auto
  ultimately show ?thesis by (simp add: NewLocalConfig_def)
qed

text \<open>Every server is found under its address.\<close>

lemma local_FindConfig:
  assumes "NewLocalConfig L R E rnd crnd shake rd Seed n ng gs nc inprocess = Some (Inr (servers, groups, clients))" "i < n"
  shows "\<exists>h. FindConfig (local_address base n i) servers = (int i, Some h) \<and> host_made L (rnd i) (local_address base n i) (int i) h"
proof -
  obtain hs where hs: "servers = zip (map int [0..<n]) hs" "length hs = n"
      "\<forall>i < n. host_made L (rnd i) (local_address base n i) (int i) (hs ! i)"
    using local_config_servers [OF assms(1)] by blast
  have "find (\<lambda>(_, c). sc_Address c = local_address base n i) servers = Some (int i, hs ! i)"
  proof (subst find_Some_iff, intro exI [of _ i] conjI allI impI)
    show "i < length servers" "(int i, hs ! i) = servers ! i" using assms(2) hs(1,2) by simp_all
    show "case servers ! i of (_, c) \<Rightarrow> sc_Address c = local_address base n i"
      using assms(2) hs by (simp add: host_made_def)
    fix j assume "j < i"
    moreover have "local_address base n j \<noteq> local_address base n i"
      using local_address_inj [of base n j i] \<open>j < i\<close> assms(2) by (auto simp: base_def)
    ultimately show "\<not> (case servers ! j of (_, c) \<Rightarrow> sc_Address c = local_address base n i)"
      using assms(2) hs by (simp add: host_made_def)
  qed
  then show ?thesis using hs(3) assms(2) by (simp add: FindConfig_def)
qed

section \<open>Properties\<close>

text \<open>The port a server listens on for another one.\<close>

definition tcp_port :: "resolver \<Rightarrow> host_config \<Rightarrow> int \<Rightarrow> string res" where
  "tcp_port R h k = sbind (CalculateAddress R (sc_Address h) k) (\<lambda>(ip, port). Inr port)"

lemma local_ports:
  assumes cfg: "NewLocalConfig L R E rnd crnd shake rd Seed n ng gs nc inprocess = Some (Inr (servers, groups, clients))"
    and ip: "IP R ''localhost'' = Inr ip" and n: "n < 2 ^ 31" and h: "(i, h) \<in> set servers"
  shows "0 \<le> i" "i < int n" "Port (sc_Address h) = Inr (CHR '':'' # itoa (8000 + i * int n))"
    "\<And>k. 0 \<le> k \<Longrightarrow> k < int n \<Longrightarrow> tcp_port R h k = Inr (CHR '':'' # itoa (9000 + i * int n + k))"
proof -
  obtain hs where hs: "servers = zip (map int [0..<n]) hs" "length hs = n"
      "\<forall>i < n. host_made L (rnd i) (local_address base n i) (int i) (hs ! i)"
    using local_config_servers [OF cfg] by blast
  obtain j where j: "j < n" "i = int j" "h = hs ! j" using h hs(1,2) by (auto simp: in_set_zip)
  have ad: "sc_Address h = local_address base n j" using hs(3) j by (simp add: host_made_def)
  show "0 \<le> i" "i < int n" using j by simp_all
  show "Port (sc_Address h) = Inr (CHR '':'' # itoa (8000 + i * int n))"
    unfolding ad local_address_eq j(2) host_port(2) [OF localhost_colon] by (simp add: base_def)
  show "tcp_port R h k = Inr (CHR '':'' # itoa (9000 + i * int n + k))" if "0 \<le> k" "k < int n" for k
    using local_tcp [OF ip j(1) n that] by (simp add: tcp_port_def ad j(2))
qed

text \<open>Every port a process of the network listens on: the gRPC ports of the servers, the ports on which each server listens
  for each server, and the gRPC ports of the clients.\<close>

definition listening_ports :: "resolver \<Rightarrow> host_configs \<Rightarrow> host_configs \<Rightarrow> string res list" where
  "listening_ports R servers clients =
     map (\<lambda>(_, h). Port (sc_Address h)) servers @
     concat (map (\<lambda>(_, h). map (\<lambda>(k, _). tcp_port R h k) servers) servers) @
     map (\<lambda>(_, h). Port (sc_Address h)) clients"

definition port_numbers :: "nat \<Rightarrow> nat \<Rightarrow> int list" where
  "port_numbers n nc =
     map (\<lambda>i. 8000 + int i * int n) [0..<n] @
     concat (map (\<lambda>j. map (\<lambda>k. 9000 + int j * int n + int k) [0..<n]) [0..<n]) @
     map (\<lambda>i. 8900 + int i * int nc) [0..<nc]"

lemma listening_ports_numbers:
  assumes cfg: "NewLocalConfig L R E rnd crnd shake rd Seed n ng gs nc inprocess = Some (Inr (servers, groups, clients))"
    and ip: "IP R ''localhost'' = Inr ip" and n: "n < 2 ^ 31"
  shows "listening_ports R servers clients = map (\<lambda>p. Inr (CHR '':'' # itoa p)) (port_numbers n nc)"
proof -
  obtain hs where hs: "servers = zip (map int [0..<n]) hs" "length hs = n"
      "\<forall>i < n. host_made L (rnd i) (local_address base n i) (int i) (hs ! i)"
    using local_config_servers [OF cfg] by blast
  obtain cs where cs: "clients = zip (map int [0..<nc]) cs" "length cs = nc"
      "\<forall>i < nc. sc_Address (cs ! i) = local_address clientBase nc i" using local_config_clients [OF cfg] by blast
  have S: "servers = map (\<lambda>i. (int i, hs ! i)) [0..<n]" unfolding hs(1) using hs(2) by (intro nth_equalityI) simp_all
  have C: "clients = map (\<lambda>i. (int i, cs ! i)) [0..<nc]" unfolding cs(1) using cs(2) by (intro nth_equalityI) simp_all
  have mem: "(int i, hs ! i) \<in> set servers" if "i < n" for i using that by (auto simp: S)
  have grpc: "Port (sc_Address (hs ! i)) = Inr (CHR '':'' # itoa (8000 + int i * int n))" if "i < n" for i
    by (rule local_ports(3) [OF cfg ip n mem [OF that]])
  have tcp: "tcp_port R (hs ! i) (int k) = Inr (CHR '':'' # itoa (9000 + int i * int n + int k))" if "i < n" "k < n" for i k
    by (rule local_ports(4) [OF cfg ip n mem [OF that(1)]]) (use that in simp_all)
  have cl: "Port (sc_Address (cs ! i)) = Inr (CHR '':'' # itoa (8900 + int i * int nc))" if "i < nc" for i
    using cs(3) that Port_local [of clientBase nc i] by (simp add: clientBase_def)
  show ?thesis
    unfolding listening_ports_def port_numbers_def S C
    by (auto simp: map_concat comp_def grpc tcp cl intro!: arg_cong [of _ _ concat] map_cong)
qed

text \<open>For how many servers and clients the three ranges do not meet.\<close>

lemma concat_rows: "concat (map (\<lambda>j. map (\<lambda>k. a + int j * int n + int k) [0..<n]) [0..<m]) = map (\<lambda>x. a + int x) [0..<m * n]"
proof (induction m)
  case (Suc m)
  have "map (\<lambda>k. a + int m * int n + int k) [0..<n] = map (\<lambda>x. a + int x) [m * n..<m * n + n]"
    by (rule nth_equalityI) simp_all
  moreover have "[0..<Suc m * n] = [0..<m * n] @ [m * n..<m * n + n]"
    using upt_add_eq_append [of 0 "m * n" n] by (simp add: add.commute)
  moreover have "concat (map (\<lambda>j. map (\<lambda>k. a + int j * int n + int k) [0..<n]) [0..<Suc m]) =
      concat (map (\<lambda>j. map (\<lambda>k. a + int j * int n + int k) [0..<n]) [0..<m]) @ map (\<lambda>k. a + int m * int n + int k) [0..<n]" by simp
  ultimately show ?case using Suc by (simp only: map_append)
qed simp

lemma port_numbers_distinct:
  assumes "n \<le> 32 \<and> nc = 0 \<or> n \<le> 30 \<and> nc \<le> 10"
  shows "distinct (port_numbers n nc) \<and> (\<forall>p \<in> set (port_numbers n nc). 8000 \<le> p \<and> p < 2 ^ 16)"
proof -
  let ?g = "map (\<lambda>i. 8000 + int i * int n) [0..<n]" and ?t = "map (\<lambda>x. 9000 + int x) [0..<n * n]"
    and ?c = "map (\<lambda>i. 8900 + int i * int nc) [0..<nc]"
  have p: "port_numbers n nc = ?g @ ?t @ ?c" by (simp add: port_numbers_def concat_rows)
  have row: "distinct (map (\<lambda>i. b + int i * int m) [0..<m])" for b :: int and m by (auto simp: distinct_map inj_on_def)
  have "n * n \<le> 32 * 32" using assms by (intro mult_mono) auto
  then have t: "\<forall>x \<in> set ?t. 9000 \<le> x \<and> x < 2 ^ 16" by auto
  have g: "\<forall>x \<in> set ?g. 8000 \<le> x \<and> x \<le> 8000 + m * (m + 1)" if "n \<le> Suc m" for m
  proof -
    have "int i * int n \<le> int m * (int m + 1)" if "i < n" for i
      using that \<open>n \<le> Suc m\<close> by (intro mult_mono) auto
    then show ?thesis by (auto simp: algebra_simps)
  qed
  have c: "\<forall>x \<in> set ?c. 8900 \<le> x \<and> x \<le> 8990" if "nc \<le> 10"
  proof -
    have "int i * int nc \<le> 9 * 10" if "i < nc" for i using that \<open>nc \<le> 10\<close> by (intro mult_mono) auto
    then show ?thesis by auto
  qed
  have dt: "distinct ?t" by (auto simp: distinct_map inj_on_def)
  from assms show ?thesis
  proof
    assume a: "n \<le> 32 \<and> nc = 0"
    then have "\<forall>x \<in> set ?g. 8000 \<le> x \<and> x \<le> 8992" using g [of 31] by simp
    then show ?thesis using a t dt row [of 8000 n] unfolding p distinct_append by (simp del: set_map) fastforce
  next
    assume a: "n \<le> 30 \<and> nc \<le> 10"
    then have "\<forall>x \<in> set ?g. 8000 \<le> x \<and> x \<le> 8870" using g [of 29] by simp
    then show ?thesis using a t c dt row [of 8000 n] row [of 8900 nc] unfolding p distinct_append by (simp del: set_map) fastforce
  qed
qed

text \<open>C24. The servers of an in-process network all get connected: when the groups fit, \<^verbatim>\<open>NewLocalConfig\<close> returns
  a configuration in which every server is found under its address, and from it the goroutines of \<^verbatim>\<open>LaunchAccepts\<close> and
  \<^verbatim>\<open>LaunchConnects\<close>, in every interleaving, never panic, are never stuck before \<open>3n(n - 1) + 2n\<close> steps, and have
  then linked every server with every other by connections of their own, with no byte left over.\<close>

theorem in_process_network_connects:
  assumes "reader_ok rd" and "n < 2 ^ 31" and "ng * gs \<le> n" and "\<forall>i < n. sc_uniform L (fst (rnd i)) \<noteq> None"
    and "IP R ''localhost'' = Inr ip" and "T = 3 * (n * (n - 1)) + 2 * n"
  shows "\<exists>servers groups. NewLocalConfig L R E rnd crnd shake rd Seed n ng gs 0 True = Some (Inr (servers, groups, [])) \<and>
     (\<forall>i < n. \<exists>h. FindConfig (local_address base n i) servers = (int i, Some h)) \<and>
     (\<forall>t r. conn_run R (without_identities servers) t r \<longrightarrow>
        (\<exists>s. r = Inr s \<and> t \<le> T \<and> (t < T \<longleftrightarrow> (\<exists>r'. conn_step R (without_identities servers) s r')) \<and>
           (t = T \<longrightarrow> sy_accepting s = [] \<and> sy_greeting s = [] \<and> sy_connecting s = [] \<and> separate_links n s)))"
proof -
  obtain servers groups where
    cfg: "NewLocalConfig L R E rnd crnd shake rd Seed n ng gs 0 True = Some (Inr (servers, groups, []))"
    using NewLocalConfig_total [OF assms(1-4)] by blast
  note env = local_conn_env [OF cfg assms(5,2)]
  have "\<forall>i < n. \<exists>h. FindConfig (local_address base n i) servers = (int i, Some h)"
    using local_FindConfig [OF cfg] by blast
  moreover have "\<exists>s. r = Inr s \<and> t \<le> T \<and> (t < T \<longleftrightarrow> (\<exists>r'. conn_step R (without_identities servers) s r')) \<and>
      (t = T \<longrightarrow> sy_accepting s = [] \<and> sy_greeting s = [] \<and> sy_connecting s = [] \<and> separate_links n s)"
    if "conn_run R (without_identities servers) t r" for t r
    by (rule conn_run_result [OF env(1) that env(2) [symmetric] assms(6)])
  ultimately show ?thesis using cfg by blast
qed

definition toy_resolver :: resolver where
  "toy_resolver = \<lparr>rs_ip = (\<lambda>s. if s = ''localhost'' then None else Some s), rs_lookup = (\<lambda>_. Inr [''127.0.0.1''])\<rparr>"

lemma toy_resolver_ok: "IP toy_resolver ''localhost'' = Inr ''127.0.0.1''"
  by (simp add: IP_def Host_def toy_resolver_def go_index_def)

theorem in_process_network_connects_witness:
  "\<exists>servers groups. NewLocalConfig toy_lib toy_resolver \<lparr>ce_script = (\<lambda>_ _. None), ce_file = (\<lambda>_. Inr [])\<rparr>
       (\<lambda>i. ([of_nat i], [7])) (\<lambda>i. ([], [])) (\<lambda>_. 0) zero_reader [1] 3 1 2 0 True = Some (Inr (servers, groups, [])) \<and>
     (\<exists>h. FindConfig (local_address base 3 1) servers = (1, Some h)) \<and>
     (\<exists>r. conn_run toy_resolver (without_identities servers) 1 r)"
proof -
  let ?N = "\<lambda>n. NewLocalConfig toy_lib toy_resolver \<lparr>ce_script = (\<lambda>_ _. None), ce_file = (\<lambda>_. Inr [])\<rparr>
       (\<lambda>i. ([of_nat i], [7])) (\<lambda>i. ([], [])) (\<lambda>_. 0) zero_reader [1] n 1 2 0 True"
  have "\<forall>i < 3. sc_uniform toy_lib (fst ([of_nat i :: byte], [7 :: byte])) \<noteq> None" "(3 :: nat) < 2 ^ 31" "1 * 2 \<le> (3 :: nat)"
    "24 = 3 * (3 * (3 - 1)) + 2 * (3 :: nat)" by (simp_all add: toy_lib_def)
  from in_process_network_connects [OF zero_reader_ok this(2,3,1) toy_resolver_ok this(4),
      where E = "\<lparr>ce_script = (\<lambda>_ _. None), ce_file = (\<lambda>_. Inr [])\<rparr>" and crnd = "\<lambda>i. ([], [])" and shake = "\<lambda>_. 0" and Seed = "[1]"]
  obtain servers groups where s: "?N 3 = Some (Inr (servers, groups, []))"
    "\<forall>i < 3. \<exists>h. FindConfig (local_address base 3 i) servers = (int i, Some h)"
    "\<forall>t r. conn_run toy_resolver (without_identities servers) t r \<longrightarrow>
        (\<exists>s. r = Inr s \<and> t \<le> 24 \<and> (t < 24 \<longleftrightarrow> (\<exists>r'. conn_step toy_resolver (without_identities servers) s r')) \<and>
           (t = 24 \<longrightarrow> sy_accepting s = [] \<and> sy_greeting s = [] \<and> sy_connecting s = [] \<and> separate_links 3 s))" by blast
  have run: "conn_run toy_resolver (without_identities servers) 0 (Inr conn_init)" by (rule run_start)
  then obtain r where "conn_step toy_resolver (without_identities servers) conn_init r" using s(3) by fastforce
  from run_step [OF run this] have "\<exists>r. conn_run toy_resolver (without_identities servers) 1 r" by auto
  moreover have "\<exists>h. FindConfig (local_address base 3 1) servers = (int 1, Some h)"
    by (rule s(2) [rule_format]) simp
  ultimately show ?thesis using s(1) by simp
qed

text \<open>C37. The ports of a network on one machine: with at most \<open>32\<close> servers and no clients, and with at most \<open>30\<close> servers and \<open>10\<close> clients, all
  ports on which a process listens are different: those of the gRPC servers, those on which each server listens for each other one,
  and those of the clients, and all lie between \<open>8000\<close> and \<open>2 ^ 16\<close>. With \<open>33\<close> servers the gRPC
  port of server \<open>31\<close> is the one on which server \<open>0\<close> listens for server \<open>23\<close>, and with \<open>11\<close> clients and at least \<open>11\<close> servers the port of
  client \<open>10\<close> is the one on which server \<open>0\<close> listens for server \<open>10\<close>.\<close>

theorem local_ports_distinct:
  assumes "NewLocalConfig L R E rnd crnd shake rd Seed n ng gs nc inprocess = Some (Inr (servers, groups, clients))"
    and "IP R ''localhost'' = Inr ip" and "n < 2 ^ 31"
  shows "(n \<le> 32 \<and> nc = 0 \<or> n \<le> 30 \<and> nc \<le> 10 \<longrightarrow>
        distinct (listening_ports R servers clients) \<and>
        (\<forall>x \<in> set (listening_ports R servers clients). \<exists>p. 8000 \<le> p \<and> p < 2 ^ 16 \<and> x = Inr (CHR '':'' # itoa p))) \<and>
     (n = 33 \<longrightarrow> (\<forall>g h. (31, g) \<in> set servers \<longrightarrow> (0, h) \<in> set servers \<longrightarrow> Port (sc_Address g) = tcp_port R h 23)) \<and>
     (nc = 11 \<and> 11 \<le> n \<longrightarrow> (\<forall>c h. (10, c) \<in> set clients \<longrightarrow> (0, h) \<in> set servers \<longrightarrow> Port (sc_Address c) = tcp_port R h 10))"
proof -
  note lp = local_ports [OF assms] and all = listening_ports_numbers [OF assms]
  have "distinct (listening_ports R servers clients) \<and>
        (\<forall>x \<in> set (listening_ports R servers clients). \<exists>p. 8000 \<le> p \<and> p < 2 ^ 16 \<and> x = Inr (CHR '':'' # itoa p))"
    if "n \<le> 32 \<and> nc = 0 \<or> n \<le> 30 \<and> nc \<le> 10"
  proof -
    note d = port_numbers_distinct [OF that]
    have "p = q" if "p \<in> set (port_numbers n nc)" "q \<in> set (port_numbers n nc)" "itoa p = itoa q" for p q
      using d that itoa_inj [of p q] by fastforce
    then have "inj_on (\<lambda>p. Inr (CHR '':'' # itoa p) :: string res) (set (port_numbers n nc))"
      by (auto simp: inj_on_def)
    then show ?thesis using d unfolding all by (auto simp: distinct_map)
  qed
  moreover have "Port (sc_Address g) = tcp_port R h 23" if "n = 33" "(31, g) \<in> set servers" "(0, h) \<in> set servers" for g h
    using lp(3) [OF that(2)] lp(4) [OF that(3), of 23] that(1) by simp
  moreover have "Port (sc_Address c) = tcp_port R h 10"
    if nc: "nc = 11" "11 \<le> n" "(10, c) \<in> set clients" "(0, h) \<in> set servers" for c h
  proof -
    obtain cs where cs: "clients = zip (map int [0..<nc]) cs" "length cs = nc"
        "\<forall>i < nc. sc_Address (cs ! i) = local_address clientBase nc i" using local_config_clients [OF assms(1)] by blast
    have "c = cs ! 10" using nc(3) cs(1,2) by (auto simp: in_set_zip)
    then have "sc_Address c = local_address clientBase 11 10" using cs(3) nc(1) by simp
    then have "Port (sc_Address c) = Inr (CHR '':'' # itoa 9010)"
      using Port_local [of clientBase 11 10] by (simp add: clientBase_def)
    then show ?thesis using lp(4) [OF nc(4), of 10] nc(2) by simp
  qed
  ultimately show ?thesis by blast
qed

lemma sample_local_config:
  assumes "2 \<le> n" "n < 2 ^ 31"
  shows "\<exists>servers groups. NewLocalConfig toy_lib toy_resolver \<lparr>ce_script = (\<lambda>_ _. None), ce_file = (\<lambda>_. Inr [])\<rparr>
       (\<lambda>i. ([of_nat i], [7])) (\<lambda>i. ([], [])) (\<lambda>_. 0) zero_reader [1] n 1 2 0 True = Some (Inr (servers, groups, []))"
proof -
  have h: "\<forall>i < n. sc_uniform toy_lib (fst ([of_nat i :: byte], [7 :: byte])) \<noteq> None" "1 * 2 \<le> n" using assms
    by (simp_all add: toy_lib_def)
  show ?thesis by (rule NewLocalConfig_total [OF zero_reader_ok assms(2) h(2,1)])
qed

theorem local_ports_distinct_witness:
  "(\<exists>servers groups. NewLocalConfig toy_lib toy_resolver \<lparr>ce_script = (\<lambda>_ _. None), ce_file = (\<lambda>_. Inr [])\<rparr>
       (\<lambda>i. ([of_nat i], [7])) (\<lambda>i. ([], [])) (\<lambda>_. 0) zero_reader [1] 32 1 2 0 True = Some (Inr (servers, groups, [])) \<and>
     distinct (listening_ports toy_resolver servers [])) \<and>
   (\<exists>servers groups. NewLocalConfig toy_lib toy_resolver \<lparr>ce_script = (\<lambda>_ _. None), ce_file = (\<lambda>_. Inr [])\<rparr>
       (\<lambda>i. ([of_nat i], [7])) (\<lambda>i. ([], [])) (\<lambda>_. 0) zero_reader [1] 33 1 2 0 True = Some (Inr (servers, groups, [])) \<and>
     (\<forall>g h. (31, g) \<in> set servers \<longrightarrow> (0, h) \<in> set servers \<longrightarrow> Port (sc_Address g) = tcp_port toy_resolver h 23))"
proof -
  let ?N = "\<lambda>n. NewLocalConfig toy_lib toy_resolver \<lparr>ce_script = (\<lambda>_ _. None), ce_file = (\<lambda>_. Inr [])\<rparr>
       (\<lambda>i. ([of_nat i], [7])) (\<lambda>i. ([], [])) (\<lambda>_. 0) zero_reader [1] n 1 2 0 True"
  have n: "(32 :: nat) < 2 ^ 31" "(33 :: nat) < 2 ^ 31" by simp_all
  obtain s1 g1 where s1: "?N 32 = Some (Inr (s1, g1, []))" using sample_local_config [of 32] by auto
  obtain s2 g2 where s2: "?N 33 = Some (Inr (s2, g2, []))" using sample_local_config [of 33] by auto
  show ?thesis
    using local_ports_distinct [OF s1 toy_resolver_ok n(1)] local_ports_distinct [OF s2 toy_resolver_ok n(2)] s1 s2 by simp
qed

end
