(* ===== verification/Runner.thy ===== *)
theory Runner
  imports Client Coordinator "HOL-Library.Sublist"
begin

text \<open>
  The process that simulates many clients, \<^verbatim>\<open>src/client/clients.go\<close>. Its clients run in parallel, each with its
  own state; in \<^verbatim>\<open>ClientStart\<close> and \<^verbatim>\<open>CheckReceipt\<close> they are modelled one after the other in the order of their identifiers, and the results
  they send to the channel \<^verbatim>\<open>done\<close> arrive in that order. The goroutines that submit loaded clients run in an order that is
  an argument, and what they do is stated of the calls the servers get. What client \<open>id\<close> draws at random is the argument
  \<open>rnd\<close>. The files that clients are recorded in are the association list \<open>files\<close> from file numbers to the
  recorded clients. The semaphore that bounds the number of running clients, progress output and the
  memory monitor are not modelled.
\<close>

section \<open>State\<close>

record ('s, 'p, 'g2, 'r) client_runner =
  cr_C :: "('s, 'p, 'g2, 'r) common_state"
  cr_Clients :: "(int \<times> ('s, 'p, 'g2, 'r) client) list"
  cr_Caller :: caller
  cr_RecordMessageFile :: bool
  cr_idx :: nat
  cr_RecordedClients :: "'s marshallable_client list"

type_synonym 's client_files = "(nat \<times> 's marshallable_client list) list"

text \<open>The random values of one client: its submission key, its path keys, blindings, receipts and the source
  of its shuffler.\<close>

record ('fr, 'q) client_random =
  rn_ssk :: signing_key
  rn_sks :: "nat \<Rightarrow> signing_key"
  rn_blinds :: "nat \<Rightarrow> 'fr"
  rn_nonces :: "nat \<Rightarrow> bytes"
  rn_source :: 'q

definition NewClientRunner ::
  "('s, 'p) lib \<Rightarrow> (bytes \<Rightarrow> 'r) \<Rightarrow> 'q reader \<Rightarrow> 'q \<Rightarrow> server_configs \<Rightarrow> group_configs \<Rightarrow> caller \<Rightarrow>
     ('s, 'p, 'g2, 'r) client_runner res" where
  "NewClientRunner L shake source q servers groups c =
     sbind (NewCommonState L shake source q servers 0 groups) (\<lambda>(st, q').
       Inr \<lparr>cr_C = st, cr_Clients = [], cr_Caller = c, cr_RecordMessageFile = False, cr_idx = 0, cr_RecordedClients = []\<rparr>)"

definition runner_Connect :: "caller res \<Rightarrow> ('s, 'p, 'g2, 'r) client_runner \<Rightarrow> ('s, 'p, 'g2, 'r) client_runner res" where
  "runner_Connect connect c =
     sbind connect (\<lambda>ca. sbind (SetGroups (cs_GroupConfigs (cr_C c)) ca) (\<lambda>ca. Inr (c\<lparr>cr_Caller := ca\<rparr>)))"

text \<open>The two keys are set one after the other: an invalid group key leaves the new token key behind, and an invalid
  token key a fresh one, whose content \<open>left\<close> is what its decoder leaves.\<close>

definition runner_KeySet ::
  "('s, 'p) lib \<Rightarrow> ('fr, 'g1, 'g2, 'gt) mcl \<Rightarrow> 'g2 token_public_key \<Rightarrow> ('s, 'p, 'g2, 'r) client_runner \<Rightarrow> key_information \<Rightarrow>
     ('s, 'p, 'g2, 'r) client_runner \<times> unit res" where
  "runner_KeySet L M left c m =
     (case tpk_InterpretFrom M (ki_TokenPublicKey m) of
        Inl e \<Rightarrow> (c\<lparr>cr_C := (cr_C c)\<lparr>cs_CombinedKey := Some left\<rparr>\<rparr>, Inl e)
      | Inr tpk \<Rightarrow>
          let c = c\<lparr>cr_C := (cr_C c)\<lparr>cs_CombinedKey := Some tpk\<rparr>\<rparr> in
          (case dhpk_InterpretFrom L (ki_GroupKey m) of
             Inl e \<Rightarrow> (c, Inl e)
           | Inr gpk \<Rightarrow> (c\<lparr>cr_C := (cr_C c)\<lparr>cs_GroupPublicKey := gpk\<rparr>\<rparr>, Inr ())))"

definition AddClient ::
  "('s, 'p) lib \<Rightarrow> signing_key \<Rightarrow> int \<Rightarrow> ('s, 'p, 'g2, 'r) client_runner \<Rightarrow> ('s, 'p, 'g2, 'r) client_runner res" where
  "AddClient L ssk cid c =
     (let st = (cr_C c)\<lparr>cs_MyId := cid\<rparr> in
      if cs_NumGroups st = 0 then Inl (Panic DivideByZero)
      else Inr (c\<lparr>cr_Clients := AList.update cid (NewClient L ssk st cid (cid mod int (cs_NumGroups st))) (cr_Clients c)\<rparr>))"

fun add_clients ::
  "('s, 'p) lib \<Rightarrow> (int \<Rightarrow> ('fr, 'q) client_random) \<Rightarrow> int list \<Rightarrow> ('s, 'p, 'g2, 'r) client_runner \<Rightarrow>
     ('s, 'p, 'g2, 'r) client_runner res" where
  "add_clients L rnd [] c = Inr c"
| "add_clients L rnd (cid # cids) c =
     sbind (if map_of (cr_Clients c) cid = None then AddClient L (rn_ssk (rnd cid)) cid c else Inr c) (\<lambda>c. add_clients L rnd cids c)"

section \<open>Recorded clients\<close>

definition blockSize :: nat where "blockSize = 10000"

definition WriteClientsToFile ::
  "('s, 'p, 'g2, 'r) client_runner \<Rightarrow> 's client_files \<Rightarrow> ('s, 'p, 'g2, 'r) client_runner \<times> 's client_files" where
  "WriteClientsToFile c files = (c\<lparr>cr_idx := cr_idx c + 1\<rparr>, AList.update (cr_idx c) (cr_RecordedClients c) files)"

definition WriteClientToFile ::
  "('s, 'p, 'g2, 'r) client_runner \<Rightarrow> 's client_files \<Rightarrow> 's marshallable_client \<Rightarrow> bytes \<Rightarrow>
     ('s, 'p, 'g2, 'r) client_runner \<times> 's client_files" where
  "WriteClientToFile c files m message =
     (let c = c\<lparr>cr_RecordedClients := cr_RecordedClients c @ [m\<lparr>mc_Message := message\<rparr>]\<rparr> in
      if length (cr_RecordedClients c) > blockSize
      then (case WriteClientsToFile c files of (c, files) \<Rightarrow> (c\<lparr>cr_RecordedClients := []\<rparr>, files))
      else (c, files))"

section \<open>A round\<close>

text \<open>\<open>make([]byte, MessageSize)\<close> with the identifier in its first 8 bytes.\<close>

definition test_message :: "nat \<Rightarrow> int \<Rightarrow> bytes res" where
  "test_message messageSize cid =
     (if messageSize < 8 then Inl (Panic IndexOutOfRange) else Inr (copy_at (zeros messageSize) 0 (put_le 8 cid)))"

text \<open>The state of the simulated clients, their files and the servers.\<close>

type_synonym ('s, 'p, 'g2, 'r, 'n) runner_state = "('s, 'p, 'g2, 'r) client_runner \<times> 's client_files \<times> 'n"

definition store_client ::
  "int \<Rightarrow> ('s, 'p, 'g2, 'r) client \<Rightarrow> ('s, 'p, 'g2, 'r) client_runner \<Rightarrow> ('s, 'p, 'g2, 'r) client_runner" where
  "store_client cid cli c = c\<lparr>cr_Clients := AList.update cid cli (cr_Clients c)\<rparr>"

text \<open>What one client sends to \<^verbatim>\<open>done\<close> in a round of path establishment and in a lightning round.\<close>

definition path_client ::
  "('s, 'p) lib \<Rightarrow> ('fr, 'g1, 'g2, 'gt) mcl \<Rightarrow> 'fr \<Rightarrow> 'n remote \<Rightarrow> ('fr, 'q) client_random \<Rightarrow> round_info \<Rightarrow> int \<Rightarrow>
     ('s, 'p, 'g2, 'r) client \<Rightarrow> ('s, 'p, 'g2, 'r, 'n) runner_state \<Rightarrow> ('s, 'p, 'g2, 'r, 'n) runner_state \<times> unit res" where
  "path_client L M skey R rnd i cid cli st =
     (case st of (c, files, n) \<Rightarrow>
        case client_RegisterClient L R (cr_Caller c) n cli of
          (n, Inl e) \<Rightarrow> ((c, files, n), Inl e)
        | (n, Inr _) \<Rightarrow>
            (case MakeOptimizedPathEstablishmentMessage L M skey R (cr_Caller c) (rn_sks rnd) (rn_blinds rnd) (rn_nonces rnd) n cli
                 (ri_NumLayers i) (ri_BoomerangLimit i) of
               (n, cli, Inl e) \<Rightarrow> ((store_client cid cli c, files, n), Inl e)
             | (n, cli, Inr (message, _)) \<Rightarrow>
                 let c = store_client cid cli c in
                 if cr_RecordMessageFile c then
                   (case pe_Marshal M message of
                      Inl e \<Rightarrow> ((c, files, n), Inl e)
                    | Inr b \<Rightarrow> (case WriteClientToFile c files (client_Marshal cli) b of (c, files) \<Rightarrow> ((c, files, n), Inr ())))
                 else (case SubmitPathEstablishmentMessage L M R (cr_Caller c) n cli message of (n, r) \<Rightarrow> ((c, files, n), r))))"

definition lightning_client ::
  "('s, 'p) lib \<Rightarrow> (bytes \<Rightarrow> 'r) \<Rightarrow> 'r reader \<Rightarrow> 'q reader \<Rightarrow> 'n remote \<Rightarrow> ('fr, 'q) client_random \<Rightarrow> round_info \<Rightarrow> int \<Rightarrow>
     ('s, 'p, 'g2, 'r) client \<Rightarrow> ('s, 'p, 'g2, 'r, 'n) runner_state \<Rightarrow> ('s, 'p, 'g2, 'r, 'n) runner_state \<times> unit res" where
  "lightning_client L shake srd source R rnd i cid cli st =
     (case st of (c, files, n) \<Rightarrow>
        let (n, cli) = (if ri_SkipPathGen i
              then (case client_SkipPathGen L shake srd source (rn_source rnd) (rn_sks rnd) R (cr_Caller c) n cli (ri_NumLayers i) of
                      (n, cli, _) \<Rightarrow> (n, cli))
              else (n, cli));
            c = store_client cid cli c in
        case test_message (ri_MessageSize i) cid of
          Inl e \<Rightarrow> ((c, files, n), Inl e)
        | Inr m \<Rightarrow> (case SendLightningMessage L R (cr_Caller c) n cli (cl_PathKeys cli) m of (n, r) \<Rightarrow> ((c, files, n), r)))"

definition start_client ::
  "('s, 'p) lib \<Rightarrow> ('fr, 'g1, 'g2, 'gt) mcl \<Rightarrow> 'fr \<Rightarrow> (bytes \<Rightarrow> 'r) \<Rightarrow> 'r reader \<Rightarrow> 'q reader \<Rightarrow> 'n remote \<Rightarrow>
     ('fr, 'q) client_random \<Rightarrow> round_info \<Rightarrow> int \<Rightarrow> ('s, 'p, 'g2, 'r, 'n) runner_state \<Rightarrow> ('s, 'p, 'g2, 'r, 'n) runner_state \<times> unit res" where
  "start_client L M skey shake srd source R rnd i cid st =
     (case st of (c, files, n) \<Rightarrow>
        case map_of (cr_Clients c) cid of
          None \<Rightarrow> ((c, files, n), Inl (Panic NilDereference))
        | Some cli \<Rightarrow>
            let cli = cli\<lparr>cl_Common := (cl_Common cli)\<lparr>cs_Round := ri_Round i, cs_NumLayers := int (ri_NumLayers i)\<rparr>\<rparr>;
                c = store_client cid cli c in
            if ri_PathEstablishment i then path_client L M skey R rnd i cid cli (c, files, n)
            else lightning_client L shake srd source R rnd i cid cli (c, files, n))"

fun start_clients ::
  "(int \<Rightarrow> 'st \<Rightarrow> 'st \<times> unit res) \<Rightarrow> int list \<Rightarrow> 'st \<Rightarrow> 'st \<times> unit res list" where
  "start_clients start [] st = (st, [])"
| "start_clients start (cid # cids) st =
     (case start cid st of (st, r) \<Rightarrow> (case start_clients start cids st of (st, rs) \<Rightarrow> (st, r # rs)))"

definition ids_of :: "round_info \<Rightarrow> int list" where
  "ids_of i = [ri_StartId i..ri_EndId i - 1]"

text \<open>The receipt limit of the round is read from \<open>i\<close> where \<^verbatim>\<open>ClientStart\<close> uses the copy it makes in the common state.\<close>

definition set_round :: "round_info \<Rightarrow> ('s, 'p, 'g2, 'r) client_runner \<Rightarrow> ('s, 'p, 'g2, 'r) client_runner" where
  "set_round i c = c\<lparr>cr_C := (cr_C c)\<lparr>cs_NumLayers := int (ri_NumLayers i), cs_Round := ri_Round i\<rparr>\<rparr>"

definition ClientStart ::
  "('s, 'p) lib \<Rightarrow> ('fr, 'g1, 'g2, 'gt) mcl \<Rightarrow> 'fr \<Rightarrow> (bytes \<Rightarrow> 'r) \<Rightarrow> 'r reader \<Rightarrow> 'q reader \<Rightarrow> 'n remote \<Rightarrow>
     (int \<Rightarrow> ('fr, 'q) client_random) \<Rightarrow> round_info \<Rightarrow> ('s, 'p, 'g2, 'r, 'n) runner_state \<Rightarrow>
     (('s, 'p, 'g2, 'r, 'n) runner_state \<times> unit res) option" where
  "ClientStart L M skey shake srd source R rnd i st =
     (case st of (c, files, n) \<Rightarrow>
        case add_clients L rnd (ids_of i) (set_round i c) of
          Inl e \<Rightarrow> Some ((c, files, n), Inl e)
        | Inr c \<Rightarrow>
            (case start_clients (\<lambda>cid. start_client L M skey shake srd source R (rnd cid) i cid) (ids_of i) (c, files, n) of
               ((c, files, n), ds) \<Rightarrow>
                 (case collect_done (length (ids_of i)) ds of
                    None \<Rightarrow> None
                  | Some (Inl e) \<Rightarrow> Some ((c, files, n), Inl e)
                  | Some (Inr _) \<Rightarrow>
                      let (c, files) = (if cr_RecordMessageFile c \<and> ri_PathEstablishment i then WriteClientsToFile c files else (c, files))
                      in Some ((c, files, n), Inr ()))))"

text \<open>A client sends its result to \<^verbatim>\<open>done\<close> only in a round of path establishment.\<close>

definition check_client ::
  "('s, 'p) lib \<Rightarrow> 'n remote \<Rightarrow> round_info \<Rightarrow> int \<Rightarrow> ('s, 'p, 'g2, 'r) client_runner \<times> 'n \<Rightarrow>
     (('s, 'p, 'g2, 'r) client_runner \<times> 'n) \<times> unit res list" where
  "check_client L R i cid st =
     (case st of (c, n) \<Rightarrow>
        case map_of (cr_Clients c) cid of
          None \<Rightarrow> ((c, n), [Inl (Panic NilDereference)])
        | Some cli \<Rightarrow>
            let cli = cli\<lparr>cl_Common := (cl_Common cli)\<lparr>cs_Round := ri_Round i, cs_NumLayers := int (ri_NumLayers i)\<rparr>\<rparr>;
                c = store_client cid cli c in
            if \<not> ri_PathEstablishment i then ((c, n), [])
            else if ri_ReceiptLayer i > 0 then ((c, n), [Inl (Panic (PanicMessage ''Retrieving receipt breaks anonymity''))])
            else if ri_Round i < 0 then ((c, n), [Inl (Panic IndexOutOfRange)])
            else (case CheckReceipt L R (cr_Caller c) n cli (nat (ri_Round i)) of (n, r) \<Rightarrow> ((c, n), [r])))"

fun check_all ::
  "(int \<Rightarrow> 'st \<Rightarrow> 'st \<times> unit res list) \<Rightarrow> int list \<Rightarrow> 'st \<Rightarrow> 'st \<times> unit res list" where
  "check_all check [] st = (st, [])"
| "check_all check (cid # cids) st =
     (case check cid st of (st, rs) \<Rightarrow> (case check_all check cids st of (st, rs') \<Rightarrow> (st, rs @ rs')))"

definition runner_CheckReceipt ::
  "('s, 'p) lib \<Rightarrow> 'n remote \<Rightarrow> round_info \<Rightarrow> ('s, 'p, 'g2, 'r) client_runner \<times> 'n \<Rightarrow>
     ((('s, 'p, 'g2, 'r) client_runner \<times> 'n) \<times> unit res) option" where
  "runner_CheckReceipt L R i st =
     (case check_all (check_client L R i) (ids_of i) st of (st, ds) \<Rightarrow>
        map_option (Pair st) (collect_done (length (ids_of i)) ds))"

section \<open>Loading recorded clients\<close>

definition readClientsFromFile ::
  "('s, 'p, 'g2, 'r) client_runner \<Rightarrow> 's client_files \<Rightarrow> ('s, 'p, 'g2, 'r) client_runner \<times> bool" where
  "readClientsFromFile c files =
     (case map_of files (cr_idx c) of
        None \<Rightarrow> (c\<lparr>cr_RecordedClients := []\<rparr>, False)
      | Some ms \<Rightarrow> (c\<lparr>cr_RecordedClients := ms\<rparr>, True))"

text \<open>The loop of \<^verbatim>\<open>sendLoadedMessages\<close> restores each client and starts a goroutine for it: the client and the envelope
  it submits. The error of \<^verbatim>\<open>InterpretFrom\<close> is dropped: \<open>left b\<close> is the envelope it leaves.\<close>

type_synonym ('s, 'p, 'g1, 'g2, 'r) submission_job = "('s, 'p, 'g2, 'r) client \<times> 'g1 path_envelope"

fun load_clients ::
  "('fr, 'g1, 'g2, 'gt) mcl \<Rightarrow> (bytes \<Rightarrow> 'g1 path_envelope) \<Rightarrow> 's marshallable_client list \<Rightarrow>
     ('s, 'p, 'g2, 'r) client_runner \<Rightarrow> ('s, 'p, 'g2, 'r) client_runner \<times> ('s, 'p, 'g1, 'g2, 'r) submission_job list" where
  "load_clients M left [] c = (c, [])"
| "load_clients M left (m # ms) c =
     (let cli = client_Unmarshal m ((cr_C c)\<lparr>cs_MyId := mc_ID m\<rparr>);
          pm = (case pe_InterpretFrom M (mc_Message m) of Inr pm \<Rightarrow> pm | Inl _ \<Rightarrow> left (mc_Message m)) in
      case load_clients M left ms (store_client (mc_ID m) cli c) of (c, jobs) \<Rightarrow> (c, (cli, pm) # jobs))"

text \<open>The goroutines run in some order, their results arrive on \<^verbatim>\<open>done\<close>, and the first error is a panic. How many of the other goroutines
  still reach the network before the process ends is the argument \<open>extra\<close>.\<close>

fun submit_rest ::
  "('s, 'p) lib \<Rightarrow> ('fr, 'g1, 'g2, 'gt) mcl \<Rightarrow> 'n remote \<Rightarrow> caller \<Rightarrow> ('s, 'p, 'g1, 'g2, 'r) submission_job list \<Rightarrow> 'n \<Rightarrow> 'n" where
  "submit_rest L M R ca [] n = n"
| "submit_rest L M R ca ((cli, pm) # jobs) n = submit_rest L M R ca jobs (fst (SubmitPathEstablishmentMessage L M R ca n cli pm))"

fun submit_jobs ::
  "('s, 'p) lib \<Rightarrow> ('fr, 'g1, 'g2, 'gt) mcl \<Rightarrow> 'n remote \<Rightarrow> caller \<Rightarrow> nat \<Rightarrow> ('s, 'p, 'g1, 'g2, 'r) submission_job list \<Rightarrow> 'n \<Rightarrow> 'n \<times> unit res" where
  "submit_jobs L M R ca extra [] n = (n, Inr ())"
| "submit_jobs L M R ca extra ((cli, pm) # jobs) n =
     (case SubmitPathEstablishmentMessage L M R ca n cli pm of
        (n, Inl e) \<Rightarrow> (submit_rest L M R ca (take extra jobs) n, Inl (panic_err e))
      | (n, Inr _) \<Rightarrow> submit_jobs L M R ca extra jobs n)"

text \<open>\<open>sched\<close> is the order of the goroutines of each block of clients.\<close>

type_synonym ('s, 'p, 'g1, 'g2, 'r) schedule =
  "nat \<Rightarrow> ('s, 'p, 'g1, 'g2, 'r) submission_job list \<Rightarrow> ('s, 'p, 'g1, 'g2, 'r) submission_job list"

definition sendLoadedMessages ::
  "('s, 'p) lib \<Rightarrow> ('fr, 'g1, 'g2, 'gt) mcl \<Rightarrow> 'n remote \<Rightarrow> (bytes \<Rightarrow> 'g1 path_envelope) \<Rightarrow> ('s, 'p, 'g1, 'g2, 'r) schedule \<Rightarrow> nat \<Rightarrow>
     ('s, 'p, 'g2, 'r) client_runner \<Rightarrow> 'n \<Rightarrow> ('s, 'p, 'g2, 'r) client_runner \<times> 'n \<times> unit res" where
  "sendLoadedMessages L M R left sched extra c n =
     (case load_clients M left (cr_RecordedClients c) c of (c, jobs) \<Rightarrow>
        (case submit_jobs L M R (cr_Caller c) extra (sched (cr_idx c) jobs) n of (n, r) \<Rightarrow> (c, n, r)))"

text \<open>The loop ends at the first file that does not exist.\<close>

partial_function (option) load_files ::
  "(('s, 'p, 'g2, 'r) client_runner \<Rightarrow> 'n \<Rightarrow> ('s, 'p, 'g2, 'r) client_runner \<times> 'n \<times> unit res) \<Rightarrow> 's client_files \<Rightarrow>
     ('s, 'p, 'g2, 'r) client_runner \<Rightarrow> 'n \<Rightarrow> (('s, 'p, 'g2, 'r) client_runner \<times> 'n \<times> unit res) option" where
  "load_files submit files c n =
     (let (c, found) = readClientsFromFile c files in
      if \<not> found then Some (c, n, Inr ())
      else case submit c n of
          (c, n, Inl e) \<Rightarrow> Some (c, n, Inl e)
        | (c, n, Inr _) \<Rightarrow> load_files submit files (c\<lparr>cr_idx := cr_idx c + 1\<rparr>) n)"

definition SendLoadedMessages ::
  "('s, 'p) lib \<Rightarrow> ('fr, 'g1, 'g2, 'gt) mcl \<Rightarrow> 'n remote \<Rightarrow> (bytes \<Rightarrow> 'g1 path_envelope) \<Rightarrow> ('s, 'p, 'g1, 'g2, 'r) schedule \<Rightarrow> nat \<Rightarrow>
     's client_files \<Rightarrow> round_info \<Rightarrow>
     ('s, 'p, 'g2, 'r) client_runner \<Rightarrow> 'n \<Rightarrow> (('s, 'p, 'g2, 'r) client_runner \<times> 'n \<times> unit res) option" where
  "SendLoadedMessages L M R left sched extra files i c n = load_files (sendLoadedMessages L M R left sched extra) files (set_round i c) n"

section \<open>Recording and loading\<close>

definition record_clients ::
  "('s marshallable_client \<times> bytes) list \<Rightarrow> ('s, 'p, 'g2, 'r) client_runner \<times> 's client_files \<Rightarrow>
     ('s, 'p, 'g2, 'r) client_runner \<times> 's client_files" where
  "record_clients ms st = foldl (\<lambda>(c, files) (m, b). WriteClientToFile c files m b) st ms"

definition with_message :: "'s marshallable_client \<times> bytes \<Rightarrow> 's marshallable_client" where
  "with_message mb = (fst mb)\<lparr>mc_Message := snd mb\<rparr>"

text \<open>The files hold the blocks \<open>bs\<close>.\<close>

definition holds_blocks :: "'s client_files \<Rightarrow> 's marshallable_client list list \<Rightarrow> bool" where
  "holds_blocks files bs \<longleftrightarrow> (\<forall>k. map_of files k = (if k < length bs then Some (bs ! k) else None))"

definition recorded :: "('s, 'p, 'g2, 'r) client_runner \<times> 's client_files \<Rightarrow> 's marshallable_client list \<Rightarrow> bool" where
  "recorded st ms \<longleftrightarrow> (\<exists>bs. cr_idx (fst st) = length bs \<and> holds_blocks (snd st) bs \<and> concat bs @ cr_RecordedClients (fst st) = ms)"

lemma holds_blocks_snoc: "holds_blocks files bs \<Longrightarrow> holds_blocks (AList.update (length bs) b files) (bs @ [b])"
  by (auto simp: holds_blocks_def update_conv' nth_append)

lemma WriteClientToFile_recorded:
  assumes "recorded (c, files) ms"
  shows "recorded (WriteClientToFile c files m b) (ms @ [with_message (m, b)])"
proof -
  obtain bs where bs: "cr_idx c = length bs" "holds_blocks files bs" "concat bs @ cr_RecordedClients c = ms"
    using assms by (auto simp: recorded_def)
  let ?c = "c\<lparr>cr_RecordedClients := cr_RecordedClients c @ [m\<lparr>mc_Message := b\<rparr>]\<rparr>"
  show ?thesis
  proof (cases "length (cr_RecordedClients ?c) > blockSize")
    case True
    then have "WriteClientToFile c files m b = (c\<lparr>cr_RecordedClients := [], cr_idx := length bs + 1\<rparr>,
        AList.update (length bs) (cr_RecordedClients ?c) files)"
      by (simp add: WriteClientToFile_def WriteClientsToFile_def bs(1))
    then show ?thesis
      using holds_blocks_snoc [OF bs(2), of "cr_RecordedClients ?c"] bs(3)
      by (auto simp: recorded_def with_message_def intro!: exI [of _ "bs @ [cr_RecordedClients ?c]"])
  next
    case False
    then have "WriteClientToFile c files m b = (?c, files)" by (simp add: WriteClientToFile_def)
    then show ?thesis using bs by (auto simp: recorded_def with_message_def)
  qed
qed

lemma record_clients_recorded:
  "recorded st ms0 \<Longrightarrow> recorded (record_clients ms st) (ms0 @ map with_message ms)"
proof (induction ms arbitrary: st ms0)
  case Nil
  then show ?case by (simp add: record_clients_def)
next
  case (Cons a ms)
  obtain c files m b where s: "st = (c, files)" "a = (m, b)" by fastforce
  have "recorded (WriteClientToFile c files m b) (ms0 @ [with_message a])"
    using WriteClientToFile_recorded Cons.prems s by blast
  from Cons.IH [OF this] show ?case by (simp add: record_clients_def s)
qed

section \<open>The calls that loading makes\<close>

text \<open>Servers that note the calls they get: the receiver and the message of each.\<close>

definition logged :: "'n remote \<Rightarrow> ('n \<times> (nat \<times> network_message) list) remote" where
  "logged R = \<lparr>rm_handle = (\<lambda>(n, log) d m. case rm_handle R n d m of (n', r) \<Rightarrow> ((n', log @ [(d, m)]), r)),
     rm_skip = (\<lambda>(n, log) d m. case rm_skip R n d m of (n', r) \<Rightarrow> ((n', log), r))\<rparr>"

definition answers_all :: "'n remote \<Rightarrow> bool" where
  "answers_all R \<longleftrightarrow> (\<forall>n d m. \<exists>n' x. rm_handle R n d m = (n', Inr x))"

text \<open>A call as the server reads it: receiver, sender and content.\<close>

definition read_call :: "nat \<times> network_message \<Rightarrow> nat \<times> (int \<times> bytes) option" where
  "read_call c = (fst c, map_option (\<lambda>m. (md_Sender (sm_Metadata m), sm_Data m)) (ParseSignedMessage (snd c)))"

text \<open>The submission of a recorded client: its message, to the first server of its path.\<close>

definition recorded_call :: "'s marshallable_client \<Rightarrow> nat \<times> (int \<times> bytes) option" where
  "recorded_call m = (nat (projr (first_server (mc_PathKeys m))), Some (mc_ID m, mc_Message m))"

definition submittable :: "('fr, 'g1, 'g2, 'gt) mcl \<Rightarrow> caller \<Rightarrow> 's marshallable_client \<Rightarrow> bool" where
  "submittable M ca m \<longleftrightarrow> 0 \<le> mc_ID m \<and> mc_ID m < 2 ^ 32 \<and>
     (\<exists>d. first_server (mc_PathKeys m) = Inr d \<and> 0 \<le> d \<and> d < int (ca_size ca)) \<and>
     (\<exists>env. length (pe_InKey env) = 32 \<and> g1_valid M (pe_InToken env) \<and> pe_Marshal M env = Inr (mc_Message m))"

lemma copyMessage_id [simp]: "copyMessage m = m"
  by (simp add: copyMessage_def)

lemma logged_send:
  assumes "0 \<le> d" "d < int (ca_size ca)" "AsNetworkMessage m = Inr nm"
  shows "\<exists>n' r. SendSignedMessage (logged R) ca (n, log) d m = ((n', log @ [(nat d, nm)]), r) \<and> (answers_all R \<longrightarrow> (\<exists>x. r = Inr x))"
proof -
  obtain n' r where h: "rm_handle R n (nat d) nm = (n', r)" by fastforce
  then have "answers_all R \<Longrightarrow> \<exists>x. r = Inr x" by (metis answers_all_def prod.inject)
  then show ?thesis
    using assms h by (cases r) (auto simp: SendSignedMessage_def SendNetworkMessage_def logged_def split: option.splits)
qed

text \<open>A job of a block comes from one of its clients.\<close>

definition job_of ::
  "('fr, 'g1, 'g2, 'gt) mcl \<Rightarrow> (bytes \<Rightarrow> 'g1 path_envelope) \<Rightarrow> 's marshallable_client \<Rightarrow> ('s, 'p, 'g1, 'g2, 'r) submission_job \<Rightarrow> bool" where
  "job_of M left m job \<longleftrightarrow> (\<exists>st. fst job = client_Unmarshal m st) \<and>
     snd job = (case pe_InterpretFrom M (mc_Message m) of Inr pm \<Rightarrow> pm | Inl _ \<Rightarrow> left (mc_Message m))"

text \<open>What one goroutine sends.\<close>

lemma job_logged:
  assumes e: "enc_ok M" and m: "submittable M ca m"
    and job: "job_of M left m (cli, pm)"
  shows "\<exists>n' x r. SubmitPathEstablishmentMessage L M (logged R) ca (n, log) cli pm = ((n', log @ [x]), r) \<and>
     read_call x = recorded_call m \<and> (answers_all R \<longrightarrow> r = Inr ())"
proof -
  from m obtain d env where d: "first_server (mc_PathKeys m) = Inr d" "0 \<le> d" "d < int (ca_size ca)"
    and env: "length (pe_InKey env) = 32" "g1_valid M (pe_InToken env)" "pe_Marshal M env = Inr (mc_Message m)"
    and i: "0 \<le> mc_ID m" "mc_ID m < 2 ^ 32" by (auto simp: submittable_def)
  from job obtain st where cli: "cli = client_Unmarshal m st"
    and pm: "pm = (case pe_InterpretFrom M (mc_Message m) of Inr pm \<Rightarrow> pm | Inl _ \<Rightarrow> left (mc_Message m))" by (auto simp: job_of_def)
  let ?b = "mc_Message m"
  have b: "?b = pe_InKey env @ g1_ser M (pe_InToken env) @ pe_SignedCiphertext env"
    using pe_Marshal_ok [OF e env(1)] env(3) by simp
  have pm': "pm = env\<lparr>pe_raw := ?b\<rparr>"
    using pe_InterpretFrom_ok [OF e env(1,2), of "pe_SignedCiphertext env"] by (simp add: pm b)
  have pack: "pe_PackTo M pm (zeros (pe_Len M pm)) = Inr ?b" "length ?b = pe_Len M pm"
  proof -
    have "pe_Marshal M pm = Inr ?b" using pe_Marshal_ok [OF e, of pm] env(1) by (simp add: pm' b)
    then show "pe_PackTo M pm (zeros (pe_Len M pm)) = Inr ?b" by (simp add: pe_Marshal_def)
    show "length ?b = pe_Len M pm" using g1_encode(4) [OF e, of "pe_InToken env"] env(1) by (simp add: pm' b pe_Len_def size_defs)
  qed
  let ?n = "NewSignedMessage (pe_Len M pm) (cs_Round st) 0 (mc_ID m) (mc_Group m) d 1 ClientMessageSubmission"
  let ?f = "fill_data ?n ?b"
  have z: "sm_Data ?n = zeros (pe_Len M pm)"
    by (simp add: sm_Data_def NewSignedMessage_def Metadata_size_def zeros_def size_defs)
  have len: "28 + sm_len ?f \<le> length (sm_Raw ?f)" by (simp add: fill_data_def NewSignedMessage_def Metadata_size_def size_defs)
  have data: "sm_Data ?f = ?b"
    by (rule sm_Data_fill) (use pack(2) in \<open>simp_all add: NewSignedMessage_def Metadata_size_def size_defs\<close>)
  obtain sm where sm: "SignMessage L (mc_SubmissionKey m) ?f = Inr sm" using SignMessage_ok [OF len] by blast
  have rq: "signed_request L (mc_SubmissionKey m) ?n (pe_PackTo M pm) = Inr sm"
    using pack(1) sm by (simp add: signed_request_def z)
  obtain nm where nm: "AsNetworkMessage sm = Inr nm"
    using sm len by (auto simp: SignMessage_ok AsNetworkMessage_def slice_def Metadata_size_def)
  from signed_message_received [OF len sm nm] obtain r where r: "ParseSignedMessage nm = Some r" "sm_Data r = ?b"
    "metadata_InterpretFrom (metadata_bytes (sm_Metadata ?f)) = Inr (sm_Metadata r)" using data by auto
  have "md_Sender (sm_Metadata r) = mc_ID m"
    using r(3) i metadata_read_back [of "sm_Metadata ?f" "[]"] by (auto simp: fill_data_def NewSignedMessage_def)
  then have call: "read_call (nat d, nm) = recorded_call m" using r(1,2) d(1) by (simp add: read_call_def recorded_call_def)
  obtain n' q where q: "SendSignedMessage (logged R) ca (n, log) d sm = ((n', log @ [(nat d, nm)]), q)"
    "answers_all R \<longrightarrow> (\<exists>x. q = Inr x)" using logged_send [OF d(2,3) nm, of R n log] by auto
  have "SubmitPathEstablishmentMessage L M (logged R) ca (n, log) cli pm = ((n', log @ [(nat d, nm)]), sbind q (\<lambda>_. Inr ()))"
    using d(1) rq q(1) by (simp add: SubmitPathEstablishmentMessage_def cli client_Unmarshal_def)
  then show ?thesis using call q(2) by (intro exI [of _ n'] exI [of _ "(nat d, nm)"] exI [of _ "sbind q (\<lambda>_. Inr ())"]) auto
qed

lemma load_clients_jobs:
  assumes "load_clients M left ms c = (c', jobs)"
  shows "list_all2 (job_of M left) ms jobs \<and> cr_idx c' = cr_idx c \<and> cr_Caller c' = cr_Caller c"
  using assms
proof (induction ms arbitrary: c c' jobs)
  case (Cons m ms)
  let ?c = "store_client (mc_ID m) (client_Unmarshal m ((cr_C c)\<lparr>cs_MyId := mc_ID m\<rparr>)) c"
  obtain c1 js where l: "load_clients M left ms ?c = (c1, js)" by fastforce
  from Cons.IH [OF l] Cons.prems l show ?case by (auto simp: Let_def job_of_def store_client_def)
qed simp

lemma submit_rest_logged:
  assumes "enc_ok M" "list_all2 (job_of M left) ms jobs" "\<forall>m \<in> set ms. submittable M ca m"
  shows "\<exists>n' xs. submit_rest L M (logged R) ca jobs (n, log) = (n', log @ xs) \<and> map read_call xs = map recorded_call ms"
  using assms(2,3)
proof (induction jobs arbitrary: ms n log rule: list.induct)
  case (Cons job jobs)
  obtain m ms' where ms: "ms = m # ms'" "job_of M left m job" "list_all2 (job_of M left) ms' jobs"
    using Cons.prems(1) by (auto simp: list_all2_Cons2)
  obtain cli pm where job: "job = (cli, pm)" by fastforce
  have j: "submittable M ca m" "job_of M left m (cli, pm)" using Cons.prems(2) ms(1,2) job by simp_all
  obtain n1 x r where x: "SubmitPathEstablishmentMessage L M (logged R) ca (n, log) cli pm = ((n1, log @ [x]), r)"
    "read_call x = recorded_call m" using job_logged [OF assms(1) j, of L R n log] by auto
  from Cons.IH [OF ms(3), of n1 "log @ [x]"] Cons.prems(2) ms(1) obtain n' xs where
    "submit_rest L M (logged R) ca jobs (n1, log @ [x]) = (n', (log @ [x]) @ xs)" "map read_call xs = map recorded_call ms'" by auto
  then show ?case using x ms(1) job by (intro exI [of _ n'] exI [of _ "x # xs"]) simp
qed simp

text \<open>The goroutines of a block: each client submits its message at most once, and once unless one of them fails.\<close>

lemma submit_jobs_logged:
  assumes "enc_ok M" "list_all2 (job_of M left) ms jobs" "\<forall>m \<in> set ms. submittable M ca m"
  shows "\<exists>n' xs r k. submit_jobs L M (logged R) ca extra jobs (n, log) = ((n', log @ xs), r) \<and>
     map read_call xs = map recorded_call (take k ms) \<and> (r = Inr () \<longrightarrow> length ms \<le> k) \<and> (answers_all R \<longrightarrow> r = Inr ())"
  using assms(2,3)
proof (induction jobs arbitrary: ms n log rule: list.induct)
  case Nil
  then show ?case by (auto intro!: exI [of _ 0])
next
  case (Cons job jobs)
  obtain m ms' where ms: "ms = m # ms'" "job_of M left m job" "list_all2 (job_of M left) ms' jobs"
    using Cons.prems(1) by (auto simp: list_all2_Cons2)
  obtain cli pm where job: "job = (cli, pm)" by fastforce
  have j: "submittable M ca m" "job_of M left m (cli, pm)" using Cons.prems(2) ms(1,2) job by simp_all
  obtain n1 x r where x: "SubmitPathEstablishmentMessage L M (logged R) ca (n, log) cli pm = ((n1, log @ [x]), r)"
    "read_call x = recorded_call m" "answers_all R \<longrightarrow> r = Inr ()"
    using job_logged [OF assms(1) j, of L R n log] by auto
  show ?case
  proof (cases r)
    case (Inl e)
    have "list_all2 (job_of M left) (take extra ms') (take extra jobs)" using ms(3) by (rule list_all2_takeI)
    from submit_rest_logged [OF assms(1) this, of ca L R n1 "log @ [x]"] Cons.prems(2) ms(1) obtain n' xs where
      "submit_rest L M (logged R) ca (take extra jobs) (n1, log @ [x]) = (n', (log @ [x]) @ xs)"
      "map read_call xs = map recorded_call (take extra ms')" by (auto dest: in_set_takeD)
    then show ?thesis using x ms(1) job Inl
      by (intro exI [of _ n'] exI [of _ "x # xs"] exI [of _ "Inl (panic_err e)"] exI [of _ "Suc extra"]) auto
  next
    case (Inr u)
    from Cons.IH [OF ms(3), of n1 "log @ [x]"] Cons.prems(2) ms(1) obtain n' xs r' k where
      "submit_jobs L M (logged R) ca extra jobs (n1, log @ [x]) = ((n', (log @ [x]) @ xs), r')"
      "map read_call xs = map recorded_call (take k ms')" "r' = Inr () \<longrightarrow> length ms' \<le> k" "answers_all R \<longrightarrow> r' = Inr ()" by auto
    then show ?thesis using x ms(1) job Inr
      by (intro exI [of _ n'] exI [of _ "x # xs"] exI [of _ r'] exI [of _ "Suc k"]) auto
  qed
qed

text \<open>What is sent is a part of what is recorded, and all of it if nothing failed.\<close>

definition sent_part :: "'s marshallable_client list \<Rightarrow> (nat \<times> network_message) list \<Rightarrow> unit res \<Rightarrow> bool" where
  "sent_part ms xs r \<longleftrightarrow> mset (map read_call xs) \<subseteq># mset (map recorded_call ms) \<and>
     (r = Inr () \<longrightarrow> mset (map read_call xs) = mset (map recorded_call ms))"

lemma sendLoadedMessages_logged:
  assumes "enc_ok M" "\<forall>m \<in> set (cr_RecordedClients c). submittable M (cr_Caller c) m" "\<And>k js. mset (sched k js) = mset js"
  shows "\<exists>c' n' xs r. sendLoadedMessages L M (logged R) left sched extra c (n, log) = (c', (n', log @ xs), r) \<and>
     cr_idx c' = cr_idx c \<and> cr_Caller c' = cr_Caller c \<and> sent_part (cr_RecordedClients c) xs r \<and> (answers_all R \<longrightarrow> r = Inr ())"
proof -
  let ?ms = "cr_RecordedClients c"
  obtain c' jobs where l: "load_clients M left ?ms c = (c', jobs)" by fastforce
  note j = load_clients_jobs [OF l]
  have "list_all2 (job_of M left)\<inverse>\<inverse> jobs ?ms" using j by (simp add: list.rel_flip)
  from list_all2_reorder_left_invariance [OF this assms(3)] obtain ms where
    ms: "list_all2 (job_of M left) ms (sched (cr_idx c') jobs)" "mset ms = mset ?ms" by (auto simp: list.rel_flip)
  then have "\<forall>m \<in> set ms. submittable M (cr_Caller c') m" using assms(2) j by (metis mset_eq_setD)
  from submit_jobs_logged [OF assms(1) ms(1) this, of L R extra n log] obtain n' xs r k where
    s: "submit_jobs L M (logged R) (cr_Caller c') extra (sched (cr_idx c') jobs) (n, log) = ((n', log @ xs), r)"
      "map read_call xs = map recorded_call (take k ms)" "r = Inr () \<longrightarrow> length ms \<le> k" "answers_all R \<longrightarrow> r = Inr ()" by blast
  have "mset (map recorded_call ms) = mset (map recorded_call ?ms)" using ms(2) by simp
  moreover have "mset (map recorded_call (take k ms)) \<subseteq># mset (map recorded_call ms)"
    using image_mset_subseteq_mono [of "mset (take k ms)" "mset ms"] mset_subset_eq_add_left [of "mset (take k ms)" "mset (drop k ms)"]
    by (simp flip: mset_append)
  ultimately have "sent_part ?ms xs r" using s(2,3) by (simp add: sent_part_def)
  then show ?thesis using l s(1,4) j by (simp add: sendLoadedMessages_def)
qed

lemma sent_part_append: "sent_part ms xs (Inr ()) \<Longrightarrow> sent_part ms' ys r \<Longrightarrow> sent_part (ms @ ms') (xs @ ys) r"
  by (auto simp: sent_part_def)

lemma sent_part_more: "sent_part ms xs (Inl e) \<Longrightarrow> sent_part (ms @ ms') xs (Inl e)"
  by (auto simp: sent_part_def intro: subset_mset.order_trans)

text \<open>The loop over the files.\<close>

lemma load_files_blocks:
  assumes "holds_blocks files bs" "cr_idx c \<le> length bs" "\<forall>m \<in> set (concat bs). ok (cr_Caller c) m"
    and submit: "\<And>c n log. \<forall>m \<in> set (cr_RecordedClients c). ok (cr_Caller c) m \<Longrightarrow>
      \<exists>c' n' xs r. submit c (n, log) = (c', (n', log @ xs), r) \<and> cr_idx c' = cr_idx c \<and> cr_Caller c' = cr_Caller c \<and>
        sent_part (cr_RecordedClients c) xs r \<and> (fine \<longrightarrow> r = Inr ())"
  shows "\<exists>c' n' xs r. load_files submit files c (n, log) = Some (c', (n', log @ xs), r) \<and>
     sent_part (concat (drop (cr_idx c) bs)) xs r \<and> (fine \<longrightarrow> r = Inr ())"
  using assms(2,3)
proof (induction "length bs - cr_idx c" arbitrary: c n log)
  case 0
  then have "readClientsFromFile c files = (c\<lparr>cr_RecordedClients := []\<rparr>, False)"
    using assms(1) by (simp add: readClientsFromFile_def holds_blocks_def)
  then show ?case using 0 by (subst load_files.simps) (simp add: sent_part_def)
next
  case (Suc k)
  then have i: "cr_idx c < length bs" by simp
  let ?b = "bs ! cr_idx c" and ?c = "c\<lparr>cr_RecordedClients := bs ! cr_idx c\<rparr>"
  have r: "readClientsFromFile c files = (?c, True)" using assms(1) i by (simp add: readClientsFromFile_def holds_blocks_def)
  have d: "concat (drop (cr_idx c) bs) = ?b @ concat (drop (cr_idx c + 1) bs)"
    using i by (simp flip: Cons_nth_drop_Suc)
  have "\<forall>m \<in> set ?b. ok (cr_Caller c) m" using Suc.prems(2) i by (auto dest: nth_mem)
  then obtain c1 n1 xs q where s: "submit ?c (n, log) = (c1, (n1, log @ xs), q)" "cr_idx c1 = cr_idx c" "cr_Caller c1 = cr_Caller c"
    "sent_part ?b xs q" "fine \<longrightarrow> q = Inr ()" using submit [of ?c n log] by auto
  show ?case
  proof (cases q)
    case (Inl e)
    then have "load_files submit files c (n, log) = Some (c1, (n1, log @ xs), Inl e)" by (subst load_files.simps) (simp add: r s)
    then show ?thesis using d s(4,5) Inl sent_part_more by auto
  next
    case (Inr u)
    let ?c1 = "c1\<lparr>cr_idx := cr_idx c1 + 1\<rparr>"
    have "k = length bs - cr_idx ?c1" "cr_idx ?c1 \<le> length bs" "\<forall>m \<in> set (concat bs). ok (cr_Caller ?c1) m"
      using Suc.hyps(2) Suc.prems(2) i s(2,3) by simp_all
    from Suc.hyps(1) [OF this, of n1 "log @ xs"] obtain c2 n2 ys t where
      l: "load_files submit files ?c1 (n1, log @ xs) = Some (c2, (n2, (log @ xs) @ ys), t)"
        "sent_part (concat (drop (cr_idx c + 1) bs)) ys t" "fine \<longrightarrow> t = Inr ()" using s(2) by auto
    have "load_files submit files c (n, log) = Some (c2, (n2, log @ (xs @ ys)), t)"
      using l(1) by (subst load_files.simps) (simp add: r s Inr)
    moreover have "sent_part (?b @ concat (drop (cr_idx c + 1) bs)) (xs @ ys) t"
      using sent_part_append [OF _ l(2)] s(4) Inr by simp
    ultimately show ?thesis using d l(3) by auto
  qed
qed

section \<open>Test messages\<close>

lemma test_message_value:
  assumes "8 \<le> k" "0 \<le> cid" "cid < 2 ^ 64"
  shows "\<exists>m. test_message k cid = Inr m \<and> length m = k \<and> test_value m = cid"
proof -
  let ?m = "copy_at (zeros k) 0 (put_le 8 cid)"
  have "take 8 ?m = put_le 8 cid" using assms(1) by (simp add: copy_at_def go_copy_def)
  moreover have "get_le (put_le 8 cid) = cid" using assms(2,3) by (intro get_put_le_id) simp_all
  ultimately show ?thesis using assms(1) by (simp add: test_message_def test_value_def)
qed

text \<open>In a lightning round no client sends to \<^verbatim>\<open>done\<close>, and \<^verbatim>\<open>CheckReceipt\<close> waits for ever.\<close>

lemma CheckReceipt_never_returns:
  assumes "\<not> ri_PathEstablishment i" "ri_StartId i < ri_EndId i" "\<forall>cid \<in> set (ids_of i). map_of (cr_Clients c) cid \<noteq> None"
  shows "runner_CheckReceipt L R i (c, n) = None"
proof -
  have e: "snd (check_all (check_client L R i) cs (c', n)) = []"
    if "\<forall>cid \<in> set cs. map_of (cr_Clients c') cid \<noteq> None" for cs c'
    using that
  proof (induction cs arbitrary: c')
    case Nil
    then show ?case by simp
  next
    case (Cons a cs)
    obtain cli where cli: "map_of (cr_Clients c') a = Some cli" using Cons.prems by auto
    let ?c = "store_client a (cli\<lparr>cl_Common := (cl_Common cli)\<lparr>cs_Round := ri_Round i, cs_NumLayers := int (ri_NumLayers i)\<rparr>\<rparr>) c'"
    have "\<forall>cid \<in> set cs. map_of (cr_Clients ?c) cid \<noteq> None" using Cons.prems by (simp add: store_client_def update_conv')
    moreover have "check_client L R i a (c', n) = ((?c, n), [])" using cli assms(1) by (simp add: check_client_def Let_def)
    ultimately show ?case using Cons.IH [of ?c] by (simp split: prod.split)
  qed
  obtain st ds where s: "check_all (check_client L R i) (ids_of i) (c, n) = (st, ds)" by fastforce
  then have "ds = []" using e [OF assms(3)] by simp
  moreover obtain k where "length (ids_of i) = Suc k" using assms(2) by (cases "length (ids_of i)") (simp_all add: ids_of_def)
  ultimately show ?thesis using s by (simp add: runner_CheckReceipt_def)
qed

section \<open>Properties\<close>

text \<open>C31. Clients recorded by one process are replayed by another: whatever number of clients is recorded, in blocks of
  files, a process that loads the files stops. In whatever order its goroutines run, the calls it makes to the servers are submissions of the recorded
  messages, each to the first server of its client's path under the client's number, and none twice; if the process ends without a failure it has submitted all of them, and
  it does so when no server answers with an error.\<close>

theorem recorded_clients_replayed:
  assumes "enc_ok M" and "cr_idx c = 0" and "cr_RecordedClients c = []" and "cr_idx c2 = 0"
    and "record_clients ms (c, []) = (c1, files)" and "WriteClientsToFile c1 files = (c', files')"
    and "\<forall>m \<in> set (map with_message ms). submittable M (cr_Caller c2) m" and "\<And>k js. mset (sched k js) = mset js"
  shows "\<exists>c3 n' log r. SendLoadedMessages L M (logged R) left sched extra files' i c2 (n, []) = Some (c3, (n', log), r) \<and>
     mset (map read_call log) \<subseteq># mset (map (recorded_call \<circ> with_message) ms) \<and>
     (r = Inr () \<longrightarrow> mset (map read_call log) = mset (map (recorded_call \<circ> with_message) ms)) \<and>
     (answers_all R \<longrightarrow> r = Inr ())"
proof -
  have "recorded (c, []) []" using assms(2,3) by (simp add: recorded_def holds_blocks_def)
  from record_clients_recorded [OF this, of ms] obtain bs
    where bs: "cr_idx c1 = length bs" "holds_blocks files bs" "concat bs @ cr_RecordedClients c1 = map with_message ms"
    using assms(5) by (auto simp: recorded_def)
  let ?bs = "bs @ [cr_RecordedClients c1]"
  have all: "concat ?bs = map with_message ms" using bs(3) by simp
  have c2: "cr_idx (set_round i c2) = 0" "cr_Caller (set_round i c2) = cr_Caller c2" by (simp_all add: set_round_def assms(4))
  have h: "holds_blocks files' ?bs" using holds_blocks_snoc [OF bs(2)] assms(6) bs(1) by (auto simp: WriteClientsToFile_def)
  have "\<exists>c' n' xs r. load_files (sendLoadedMessages L M (logged R) left sched extra) files' (set_round i c2) (n, []) =
        Some (c', (n', [] @ xs), r) \<and> sent_part (concat (drop (cr_idx (set_round i c2)) ?bs)) xs r \<and> (answers_all R \<longrightarrow> r = Inr ())"
    by (rule load_files_blocks [OF h, where ok = "submittable M", OF _ _ sendLoadedMessages_logged [OF assms(1) _ assms(8)]])
      (use assms(7) c2 all in auto)
  then show ?thesis unfolding c2(1) drop_0 all SendLoadedMessages_def sent_part_def
    by (simp add: image_mset.compositionality)
qed

definition sample_runner :: "(256 word, 256 word, 1 word, nat) client_runner" where
  "sample_runner = \<lparr>cr_C = sv_CommonState sample_server, cr_Clients = [], cr_Caller = sample_caller, cr_RecordMessageFile = True,
     cr_idx = 0, cr_RecordedClients = []\<rparr>"

text \<open>Two clients with recorded messages, whose goroutines run in the opposite order.\<close>

definition sample_record :: "int \<Rightarrow> 256 word marshallable_client \<times> bytes" where
  "sample_record i = (\<lparr>mc_ID = i, mc_SubmissionKey = [1], mc_VerificationKey = [1], mc_AnonymousPublicKey = [], mc_AnonymousSecretKey = [],
     mc_Group = 0, mc_PathKeys = [Some \<lparr>pk_SigningKey = [1], pk_Secret = 0, pk_ServerID = 0, pk_Shared = [], pk_PrevServerID = 0, pk_PrevShared = []\<rparr>],
     mc_Receipts = [], mc_Message = []\<rparr>, zeros 32 @ g1_ser toy_mcl 1 @ [5])"

theorem recorded_clients_replayed_witness:
  "\<exists>c1 files c' files' c3 log. record_clients [sample_record 3, sample_record 4] (sample_runner, []) = (c1, files) \<and>
     WriteClientsToFile c1 files = (c', files') \<and>
     SendLoadedMessages toy_lib toy_mcl (logged silent_remote) (\<lambda>b. \<lparr>pe_InKey = [], pe_InToken = 0, pe_SignedCiphertext = b, pe_raw = b\<rparr>)
       (\<lambda>_. rev) 0 files' sample_round sample_runner ((), []) = Some (c3, ((), log), Inr ()) \<and>
     mset (map read_call log) = {#(0, Some (3, zeros 32 @ g1_ser toy_mcl 1 @ [5])), (0, Some (4, zeros 32 @ g1_ser toy_mcl 1 @ [5]))#}"
proof -
  let ?ms = "[sample_record 3, sample_record 4]"
  let ?left = "\<lambda>b. \<lparr>pe_InKey = [], pe_InToken = 0 :: 1 word, pe_SignedCiphertext = b, pe_raw = b\<rparr>"
  note e = mcl_okD(4) [OF toy_mcl_ok]
  obtain c1 files where a: "record_clients ?ms (sample_runner, []) = (c1, files)" by fastforce
  obtain c' files' where b: "WriteClientsToFile c1 files = (c', files')" by fastforce
  have z: "cr_idx sample_runner = 0" "cr_RecordedClients sample_runner = []" by (simp_all add: sample_runner_def)
  let ?env = "\<lparr>pe_InKey = zeros 32, pe_InToken = 1 :: 1 word, pe_SignedCiphertext = [5], pe_raw = []\<rparr>"
  have "pe_Marshal toy_mcl ?env = Inr (zeros 32 @ g1_ser toy_mcl 1 @ [5])" using pe_Marshal_ok [OF e, of ?env] by simp
  moreover have "g1_valid toy_mcl 1" by (simp add: toy_mcl_def)
  ultimately have "\<exists>env. length (pe_InKey env) = 32 \<and> g1_valid toy_mcl (pe_InToken env) \<and>
      pe_Marshal toy_mcl env = Inr (zeros 32 @ g1_ser toy_mcl 1 @ [5])" by (intro exI [of _ ?env]) simp
  then have ok: "\<forall>m \<in> set (map with_message ?ms). submittable toy_mcl (cr_Caller sample_runner) m"
    by (simp add: submittable_def sample_record_def with_message_def sample_runner_def sample_caller_def first_server_def go_index_def deref_def)
  have ans: "answers_all silent_remote" by (simp add: answers_all_def silent_remote_def)
  have s: "\<And>k js. mset (rev js) = mset js" by simp
  from recorded_clients_replayed [OF e z z(1) a b ok s, of toy_lib silent_remote ?left 0 sample_round "()"] ans
  obtain c3 log where "SendLoadedMessages toy_lib toy_mcl (logged silent_remote) ?left (\<lambda>_. rev) 0 files' sample_round sample_runner ((), []) =
      Some (c3, ((), log), Inr ())" "mset (map read_call log) = mset (map (recorded_call \<circ> with_message) ?ms)" by auto
  then show ?thesis using a b
    by (simp add: recorded_call_def with_message_def sample_record_def first_server_def go_index_def deref_def)
qed

end
