(* ===== verification/KeyDistribution.thy ===== *)
theory KeyDistribution
  imports Coordinator
begin

text \<open>
  The way of the group keys from the coordinator to the servers: \<^verbatim>\<open>KeyGenToken\<close> and \<^verbatim>\<open>GenDHKeys\<close> split the two
  secrets for every group, \<^verbatim>\<open>SendKeys\<close> calls \<^verbatim>\<open>KeySet\<close> of every server. With the servers in one process the
  state of the network is the list of the servers. The lemmas show that afterwards the members of each
  group hold additive shares of both secrets, which is what token issuance and the decryption of
  receipts rely on.
\<close>

section \<open>Servers in one process\<close>

definition inprocess_KeySet ::
  "('s, 'p) lib \<Rightarrow> ('fr, 'g1, 'g2, 'gt) mcl \<Rightarrow> int \<Rightarrow> key_information \<Rightarrow> ('s, 'p, 'fr, 'g2, 'r, 'c) server list \<Rightarrow>
     ('s, 'p, 'fr, 'g2, 'r, 'c) server list \<times> unit res" where
  "inprocess_KeySet L M sid k ss =
     (case go_index_int ss sid of
        Inl e \<Rightarrow> (ss, Inl e)
      | Inr s \<Rightarrow> (case KeySet L M s k of (s', r) \<Rightarrow> (ss[nat sid := s'], r)))"

section \<open>Maps of keys\<close>

text \<open>The entry for a group in the map of a server.\<close>

definition key_of :: "key_maps \<Rightarrow> int \<Rightarrow> int \<Rightarrow> key_information option" where
  "key_of pk sid gid = map_of (pk ! nat sid) gid"

definition on_servers :: "nat \<Rightarrow> int list \<Rightarrow> bool" where
  "on_servers n sids \<longleftrightarrow> distinct sids \<and> sids \<noteq> [] \<and> (\<forall>sid \<in> set sids. 0 \<le> sid \<and> sid < int n)"

definition groups_ok :: "nat \<Rightarrow> group_configs \<Rightarrow> bool" where
  "groups_ok n groups \<longleftrightarrow> distinct (map fst groups) \<and> (\<forall>g \<in> set groups. on_servers n (snd g))"

definition maps_ok :: "nat \<Rightarrow> key_maps \<Rightarrow> bool" where
  "maps_ok n pk \<longleftrightarrow> length pk = n \<and> (\<forall>m \<in> set pk. distinct (map fst m))"

lemma store_map:
  assumes "maps_ok n pk" "0 \<le> sid" "sid < int n"
  shows "go_index_int pk sid = Inr (pk ! nat sid)"
    "\<exists>pk'. go_store_int pk sid (AList.update gid k (pk ! nat sid)) = Inr pk' \<and> maps_ok n pk' \<and>
       (\<forall>s g. 0 \<le> s \<longrightarrow> key_of pk' s g = (if s = sid \<and> g = gid then Some k else key_of pk s g))"
proof -
  have l: "nat sid < length pk" using assms by (auto simp: maps_ok_def)
  then show "go_index_int pk sid = Inr (pk ! nat sid)" using assms(2) by (simp add: go_index_int_def go_index_ok)
  let ?pk = "pk[nat sid := AList.update gid k (pk ! nat sid)]"
  have "maps_ok n ?pk"
    using assms(1) l nth_mem [OF l] set_update_subset_insert [of pk "nat sid" "AList.update gid k (pk ! nat sid)"]
    by (auto simp: maps_ok_def intro!: distinct_update)
  moreover have "key_of ?pk s g = (if s = sid \<and> g = gid then Some k else key_of pk s g)" if "0 \<le> s" for s g
    using l assms(2) that by (auto simp: key_of_def nth_list_update update_conv' fun_upd_apply nat_eq_iff2)
  ultimately show "\<exists>pk'. go_store_int pk sid (AList.update gid k (pk ! nat sid)) = Inr pk' \<and> maps_ok n pk' \<and>
       (\<forall>s g. 0 \<le> s \<longrightarrow> key_of pk' s g = (if s = sid \<and> g = gid then Some k else key_of pk s g))"
    using l assms(2) by (simp add: go_store_int_def go_store_def)
qed

lemma place_members_ok:
  assumes "maps_ok n pk" "\<forall>sid \<in> set sids. 0 \<le> sid \<and> sid < int n"
  shows "\<exists>pk'. place_members gid sids pk = Inr pk' \<and> maps_ok n pk' \<and>
     (\<forall>s g. 0 \<le> s \<longrightarrow> key_of pk' s g = (if s \<in> set sids \<and> g = gid then Some empty_information else key_of pk s g))"
  using assms
proof (induction sids arbitrary: pk)
  case Nil
  then show ?case by simp
next
  case (Cons sid sids)
  have r: "0 \<le> sid" "sid < int n" using Cons.prems(2) by simp_all
  obtain pk1 where p: "go_store_int pk sid (AList.update gid empty_information (pk ! nat sid)) = Inr pk1" "maps_ok n pk1"
    "\<forall>s g. 0 \<le> s \<longrightarrow> key_of pk1 s g = (if s = sid \<and> g = gid then Some empty_information else key_of pk s g)"
    using store_map(2) [OF Cons.prems(1) r] by blast
  obtain pk2 where q: "place_members gid sids pk1 = Inr pk2" "maps_ok n pk2"
    "\<forall>s g. 0 \<le> s \<longrightarrow> key_of pk2 s g = (if s \<in> set sids \<and> g = gid then Some empty_information else key_of pk1 s g)"
    using Cons.IH [OF p(2)] Cons.prems(2) by auto
  have "place_members gid (sid # sids) pk = Inr pk2" using store_map(1) [OF Cons.prems(1) r] p(1) q(1) by simp
  then show ?case using q(2,3) p(3) by auto
qed

lemma place_groups_ok:
  assumes "maps_ok n pk" "\<forall>g \<in> set groups. on_servers n (snd g)"
  shows "\<exists>pk'. place_groups groups pk = Inr pk' \<and> maps_ok n pk' \<and>
     (\<forall>s g. 0 \<le> s \<longrightarrow> key_of pk' s g =
        (if \<exists>sids. (g, sids) \<in> set groups \<and> s \<in> set sids then Some empty_information else key_of pk s g))"
  using assms
proof (induction groups arbitrary: pk)
  case Nil
  then show ?case by simp
next
  case (Cons a groups)
  obtain gid sids where a: "a = (gid, sids)" by fastforce
  have "\<forall>sid \<in> set sids. 0 \<le> sid \<and> sid < int n" using Cons.prems(2) a by (simp add: on_servers_def)
  then obtain pk1 where p: "place_members gid sids pk = Inr pk1" "maps_ok n pk1"
    "\<forall>s g. 0 \<le> s \<longrightarrow> key_of pk1 s g = (if s \<in> set sids \<and> g = gid then Some empty_information else key_of pk s g)"
    using place_members_ok [OF Cons.prems(1)] by blast
  obtain pk2 where q: "place_groups groups pk1 = Inr pk2" "maps_ok n pk2"
    "\<forall>s g. 0 \<le> s \<longrightarrow> key_of pk2 s g =
       (if \<exists>sids. (g, sids) \<in> set groups \<and> s \<in> set sids then Some empty_information else key_of pk1 s g)"
    using Cons.IH [OF p(2)] Cons.prems(2) by auto
  then show ?case using p(1,3) a by auto
qed

text \<open>Both kinds of keys are put into the maps group by group.\<close>

fun put_groups ::
  "(int \<Rightarrow> nat \<Rightarrow> (key_information \<Rightarrow> key_information) list res) \<Rightarrow> group_configs \<Rightarrow> key_maps \<Rightarrow> key_maps res" where
  "put_groups F [] pk = Inr pk"
| "put_groups F ((gid, servers) # gs) pk =
     sbind (F gid (length servers)) (\<lambda>fs. sbind (put_keys gid (zip servers fs) pk) (\<lambda>pk. put_groups F gs pk))"

lemma put_keys_ok:
  assumes "maps_ok n pk" "length fs = length sids" "distinct sids" "\<forall>sid \<in> set sids. 0 \<le> sid \<and> sid < int n"
    and "\<forall>sid \<in> set sids. key_of pk sid gid \<noteq> None"
  shows "\<exists>pk'. put_keys gid (zip sids fs) pk = Inr pk' \<and> maps_ok n pk' \<and>
     (\<forall>i < length sids. key_of pk' (sids ! i) gid = map_option (fs ! i) (key_of pk (sids ! i) gid)) \<and>
     (\<forall>s g. 0 \<le> s \<longrightarrow> (g \<noteq> gid \<or> s \<notin> set sids) \<longrightarrow> key_of pk' s g = key_of pk s g)"
  using assms
proof (induction sids arbitrary: pk fs)
  case Nil
  then show ?case by simp
next
  case (Cons sid sids)
  obtain f fs' where f: "fs = f # fs'" "length fs' = length sids" using Cons.prems(2) by (cases fs) auto
  have r: "0 \<le> sid" "sid < int n" using Cons.prems(4) by simp_all
  obtain k where k: "map_of (pk ! nat sid) gid = Some k" using Cons.prems(5) by (auto simp: key_of_def)
  obtain pk1 where p: "go_store_int pk sid (AList.update gid (f k) (pk ! nat sid)) = Inr pk1" "maps_ok n pk1"
    "\<forall>s g. 0 \<le> s \<longrightarrow> key_of pk1 s g = (if s = sid \<and> g = gid then Some (f k) else key_of pk s g)"
    using store_map(2) [OF Cons.prems(1) r] by blast
  have u: "update_key sid gid f pk = Inr pk1"
    using p(1) k store_map(1) [OF Cons.prems(1) r] by (simp add: update_key_def)
  have d: "distinct sids" "sid \<notin> set sids" "\<forall>s \<in> set sids. 0 \<le> s \<and> s < int n" using Cons.prems(3,4) by simp_all
  have same: "key_of pk1 s gid = key_of pk s gid" if "s \<in> set sids" for s using p(3) d(2,3) that by auto
  then have "\<forall>s \<in> set sids. key_of pk1 s gid \<noteq> None" using Cons.prems(5) by simp
  then obtain pk2 where q: "put_keys gid (zip sids fs') pk1 = Inr pk2" "maps_ok n pk2"
    "\<forall>i < length sids. key_of pk2 (sids ! i) gid = map_option (fs' ! i) (key_of pk1 (sids ! i) gid)"
    "\<forall>s g. 0 \<le> s \<longrightarrow> (g \<noteq> gid \<or> s \<notin> set sids) \<longrightarrow> key_of pk2 s g = key_of pk1 s g"
    using Cons.IH [OF p(2) f(2) d(1,3)] by blast
  have "key_of pk2 ((sid # sids) ! i) gid = map_option (fs ! i) (key_of pk ((sid # sids) ! i) gid)" if "i < length (sid # sids)" for i
  proof (cases i)
    case 0
    then show ?thesis using q(4) r(1) d(2) p(3) k f(1) by (simp add: key_of_def)
  next
    case (Suc j)
    then show ?thesis using q(3) same that f(1) by simp
  qed
  moreover have "key_of pk2 s g = key_of pk s g" if "0 \<le> s" "g \<noteq> gid \<or> s \<notin> set (sid # sids)" for s g
    using q(4) p(3) that by auto
  ultimately show ?case using u q(1,2) f(1) by auto
qed

lemma put_groups_ok:
  assumes "maps_ok n pk" "groups_ok n groups" "\<forall>(gid, sids) \<in> set groups. \<forall>sid \<in> set sids. key_of pk sid gid \<noteq> None"
    and F: "\<And>gid k. 0 < k \<Longrightarrow> \<exists>fs. F gid k = Inr fs \<and> length fs = k"
  shows "\<exists>pk'. put_groups F groups pk = Inr pk' \<and> maps_ok n pk' \<and>
     (\<forall>(gid, sids) \<in> set groups. \<forall>fs. F gid (length sids) = Inr fs \<longrightarrow>
        (\<forall>i < length sids. key_of pk' (sids ! i) gid = map_option (fs ! i) (key_of pk (sids ! i) gid))) \<and>
     (\<forall>s g. 0 \<le> s \<longrightarrow> (\<forall>sids. (g, sids) \<in> set groups \<longrightarrow> s \<notin> set sids) \<longrightarrow> key_of pk' s g = key_of pk s g)"
  using assms(1-3)
proof (induction groups arbitrary: pk)
  case Nil
  then show ?case by simp
next
  case (Cons a groups)
  obtain gid sids where a: "a = (gid, sids)" by fastforce
  have o: "on_servers n sids" "groups_ok n groups" "gid \<notin> fst ` set groups"
    using Cons.prems(2) a by (auto simp: groups_ok_def)
  obtain fs where fs: "F gid (length sids) = Inr fs" "length fs = length sids"
    using F [of "length sids" gid] o(1) by (auto simp: on_servers_def)
  have "distinct sids" "\<forall>sid \<in> set sids. 0 \<le> sid \<and> sid < int n" "\<forall>sid \<in> set sids. key_of pk sid gid \<noteq> None"
    using o(1) Cons.prems(3) a by (auto simp: on_servers_def)
  then obtain pk1 where p: "put_keys gid (zip sids fs) pk = Inr pk1" "maps_ok n pk1"
    "\<forall>i < length sids. key_of pk1 (sids ! i) gid = map_option (fs ! i) (key_of pk (sids ! i) gid)"
    "\<forall>s g. 0 \<le> s \<longrightarrow> (g \<noteq> gid \<or> s \<notin> set sids) \<longrightarrow> key_of pk1 s g = key_of pk s g"
    using put_keys_ok [OF Cons.prems(1) fs(2)] by blast
  have pos: "0 \<le> s" if "(g, ss) \<in> set groups" "s \<in> set ss" for g ss s
    using o(2) that by (auto simp: groups_ok_def on_servers_def)
  have same: "key_of pk1 s g = key_of pk s g" if "(g, ss) \<in> set groups" "s \<in> set ss" for g ss s
    using p(4) o(3) that pos [OF that] by force
  then have "\<forall>(g, ss) \<in> set groups. \<forall>s \<in> set ss. key_of pk1 s g \<noteq> None" using Cons.prems(3) by fastforce
  then obtain pk2 where q: "put_groups F groups pk1 = Inr pk2" "maps_ok n pk2"
    "\<forall>(g, ss) \<in> set groups. \<forall>fs. F g (length ss) = Inr fs \<longrightarrow>
        (\<forall>i < length ss. key_of pk2 (ss ! i) g = map_option (fs ! i) (key_of pk1 (ss ! i) g))"
    "\<forall>s g. 0 \<le> s \<longrightarrow> (\<forall>ss. (g, ss) \<in> set groups \<longrightarrow> s \<notin> set ss) \<longrightarrow> key_of pk2 s g = key_of pk1 s g"
    using Cons.IH [OF p(2) o(2)] by blast
  have "key_of pk2 (sids ! i) gid = key_of pk1 (sids ! i) gid" if "i < length sids" for i
  proof -
    have "0 \<le> sids ! i" using o(1) that by (simp add: on_servers_def)
    moreover have "\<forall>ss. (gid, ss) \<in> set groups \<longrightarrow> sids ! i \<notin> set ss" using o(3) by force
    ultimately show ?thesis using q(4) by blast
  qed
  then have "\<forall>i < length sids. key_of pk2 (sids ! i) gid = map_option (fs ! i) (key_of pk (sids ! i) gid)" using p(3) by simp
  moreover have "\<forall>(g, ss) \<in> set groups. \<forall>fs. F g (length ss) = Inr fs \<longrightarrow>
        (\<forall>i < length ss. key_of pk2 (ss ! i) g = map_option (fs ! i) (key_of pk (ss ! i) g))"
    using q(3) same by fastforce
  moreover have "key_of pk2 s g = key_of pk s g" if "0 \<le> s" "\<forall>ss. (g, ss) \<in> set (a # groups) \<longrightarrow> s \<notin> set ss" for s g
    using q(4) p(4) that a by auto
  ultimately show ?case using p(1) q(1,2) fs(1) a by auto
qed

section \<open>The shares in the maps\<close>

lemma map_res_pure [simp]: "map_res (\<lambda>x. Inr (g x)) xs = Inr (map g xs)"
  by (induction xs) simp_all

definition token_F where
  "token_F M rnd secret gid k = sbind (fr_AdditiveShares M (rnd gid) secret k)
     (\<lambda>xs. Inr (map (\<lambda>x. token_fields gid (g2_ser M (g2_mul M (g2_gen M) secret)) (fr_ser M x)) xs))"

definition dh_F where
  "dh_F L rnd ssk gk gid k = sbind (dh_AdditiveShares L (rnd gid) ssk k) (\<lambda>ys. Inr (map (\<lambda>y. dh_fields gid gk (sc_bytes L y)) ys))"

lemma pack_ok:
  assumes "enc_ok M"
  shows "fr_PackTo M x (zeros (FR_LEN M)) = Inr (fr_ser M x)" "g2_PackTo M q (zeros (G2_LEN M)) = Inr (g2_ser M q)"
  using assms by (simp_all add: fr_PackTo_def g2_PackTo_def enc_ok_def)

lemma token_groups_eq:
  assumes "enc_ok M"
  shows "token_groups M rnd secret groups pk = put_groups (token_F M rnd secret) groups pk"
proof (induction groups arbitrary: pk)
  case Nil
  then show ?case by simp
next
  case (Cons a groups)
  obtain gid sids where a: "a = (gid, sids)" by fastforce
  show ?case
  proof (cases "fr_AdditiveShares M (rnd gid) secret (length sids)")
    case (Inl e)
    then have "token_F M rnd secret gid (length sids) = Inl e" by (simp add: token_F_def)
    then show ?thesis using Inl by (simp add: a MockKeyGen_def Let_def)
  next
    case (Inr xs)
    then have "token_F M rnd secret gid (length sids) =
        Inr (map (\<lambda>x. token_fields gid (g2_ser M (g2_mul M (g2_gen M) secret)) (fr_ser M x)) xs)" by (simp add: token_F_def)
    moreover have "token_groups M rnd secret groups = put_groups (token_F M rnd secret) groups" by (rule ext) (rule Cons.IH)
    ultimately show ?thesis using Inr
      by (simp add: a MockKeyGen_def Let_def tpk_PackTo_def NewTokenPublicKey_def NewTokenSigningKey_def
          pack_ok [OF assms] comp_def)
  qed
qed

lemma dh_groups_eq: "dh_groups L rnd ssk gk groups pk = put_groups (dh_F L rnd ssk gk) groups pk"
proof (induction groups arbitrary: pk)
  case Nil
  then show ?case by simp
next
  case (Cons a groups)
  obtain gid sids where a: "a = (gid, sids)" by fastforce
  show ?case
  proof (cases "dh_AdditiveShares L (rnd gid) ssk (length sids)")
    case (Inl e)
    then have "dh_F L rnd ssk gk gid (length sids) = Inl e" by (simp add: dh_F_def)
    then show ?thesis using Inl by (simp add: a)
  next
    case (Inr ys)
    then have "dh_F L rnd ssk gk gid (length sids) = Inr (map (\<lambda>y. dh_fields gid gk (sc_bytes L y)) ys)" by (simp add: dh_F_def)
    moreover have "dh_groups L rnd ssk gk groups = put_groups (dh_F L rnd ssk gk) groups" by (rule ext) (rule Cons.IH)
    ultimately show ?thesis using Inr by (simp add: a)
  qed
qed

text \<open>What the coordinator sends to member \<open>i\<close> of a group.\<close>

definition share_info where
  "share_info L M gid secret gk x y =
     \<lparr>ki_GroupId = gid, ki_TokenPublicKey = g2_ser M (g2_mul M (g2_gen M) secret), ki_GroupKey = gk,
      ki_TokenKeyShare = fr_ser M x, ki_GroupShare = sc_bytes L y\<rparr>"

lemma key_gen_shares:
  assumes M: "mcl_ok M" and z: "scalar_ok L z" and pt: "point_ok L" and g: "groups_ok (length servers) groups"
    and new: "NewCoordinator servers groups ct rc = Inr c" and pair: "NewDHKeyPair L randomBytes = Inr (ssk, spk)"
  shows "\<exists>c'. key_gen L M skey trnd tok drnd randomBytes c = Inr c' \<and> co_ServerConfigs c' = servers \<and>
     maps_ok (length servers) (co_privateKeys c') \<and>
     co_publicKeys c' = empty_information\<lparr>ki_TokenPublicKey := g2_ser M (g2_mul M (g2_gen M) skey), ki_GroupKey := pt_encode L spk\<rparr> \<and>
     (\<forall>(gid, sids) \<in> set groups. \<exists>xs ys.
        fr_AdditiveShares M (trnd gid) skey (length sids) = Inr xs \<and> dh_AdditiveShares L (drnd gid) ssk (length sids) = Inr ys \<and>
        (\<forall>i < length sids. key_of (co_privateKeys c') (sids ! i) gid =
           Some (share_info L M gid skey (pt_encode L spk) (xs ! i) (ys ! i)))) \<and>
     (\<forall>s g. 0 \<le> s \<longrightarrow> s < int (length servers) \<longrightarrow> (\<forall>sids. (g, sids) \<in> set groups \<longrightarrow> s \<notin> set sids) \<longrightarrow>
        key_of (co_privateKeys c') s g = None)"
proof -
  let ?n = "length servers" and ?gk = "pt_encode L spk"
  note e = mcl_okD(4) [OF M]
  let ?T = "token_F M trnd skey" and ?D = "dh_F L drnd ssk ?gk"
  have T: "\<exists>fs. ?T gid k = Inr fs \<and> length fs = k" if "0 < k" for gid k
    using that by (simp add: token_F_def fr_AdditiveShares_def)
  have D: "\<exists>fs. ?D gid k = Inr fs \<and> length fs = k" if "0 < k" for gid k
    using that by (simp add: dh_F_def dh_AdditiveShares_def)
  have o: "\<forall>g \<in> set groups. on_servers ?n (snd g)" using g by (simp add: groups_ok_def)
  have "maps_ok ?n (replicate ?n [])" by (simp add: maps_ok_def)
  then obtain pk0 where p0: "place_groups groups (replicate ?n []) = Inr pk0" "maps_ok ?n pk0"
    "\<forall>s g. 0 \<le> s \<longrightarrow> key_of pk0 s g =
       (if \<exists>sids. (g, sids) \<in> set groups \<and> s \<in> set sids then Some empty_information else key_of (replicate ?n []) s g)"
    using place_groups_ok [OF _ o] by blast
  have pos: "0 \<le> s" if "(gid, sids) \<in> set groups" "s \<in> set sids" for gid sids s
    using o that by (force simp: on_servers_def)
  have k0: "key_of pk0 s gid = Some empty_information" if "(gid, sids) \<in> set groups" "s \<in> set sids" for gid sids s
    using p0(3) pos [OF that] that by auto
  obtain pk1 where p1: "put_groups ?T groups pk0 = Inr pk1" "maps_ok ?n pk1"
    "\<forall>(gid, sids) \<in> set groups. \<forall>fs. ?T gid (length sids) = Inr fs \<longrightarrow>
        (\<forall>i < length sids. key_of pk1 (sids ! i) gid = map_option (fs ! i) (key_of pk0 (sids ! i) gid))"
    "\<forall>s g. 0 \<le> s \<longrightarrow> (\<forall>sids. (g, sids) \<in> set groups \<longrightarrow> s \<notin> set sids) \<longrightarrow> key_of pk1 s g = key_of pk0 s g"
    using put_groups_ok [OF p0(2) g _ T] k0 by fastforce
  have k1: "key_of pk1 (sids ! i) gid = Some ((fs ! i) empty_information)"
    if "(gid, sids) \<in> set groups" "i < length sids" "?T gid (length sids) = Inr fs" for gid sids i fs
    using p1(3) k0 [OF that(1)] that by fastforce
  have "key_of pk1 s gid \<noteq> None" if h: "(gid, sids) \<in> set groups" "s \<in> set sids" for gid sids s
  proof -
    obtain i where i: "i < length sids" "s = sids ! i" using h(2) by (auto simp: in_set_conv_nth)
    then obtain fs where "?T gid (length sids) = Inr fs" using T [OF le_less_trans [OF le0 i(1)], of gid] by blast
    then show ?thesis using k1 [OF h(1) i(1)] i(2) by simp
  qed
  then obtain pk2 where p2: "put_groups ?D groups pk1 = Inr pk2" "maps_ok ?n pk2"
    "\<forall>(gid, sids) \<in> set groups. \<forall>fs. ?D gid (length sids) = Inr fs \<longrightarrow>
        (\<forall>i < length sids. key_of pk2 (sids ! i) gid = map_option (fs ! i) (key_of pk1 (sids ! i) gid))"
    "\<forall>s g. 0 \<le> s \<longrightarrow> (\<forall>sids. (g, sids) \<in> set groups \<longrightarrow> s \<notin> set sids) \<longrightarrow> key_of pk2 s g = key_of pk1 s g"
    using put_groups_ok [OF p1(2) g _ D] by fastforce
  have len: "dhpk_PackTo L spk (zeros POINT_SIZE) = Inr ?gk" using pt by (simp add: dhpk_PackTo_def point_ok_def)
  have c: "c = \<lparr>co_privateKeys = pk0, co_groupSecretKeys = \<lparr>gs_TokenSecretKey = [], gs_Ssk = None, gs_GroupKey = []\<rparr>,
            co_publicKeys = empty_information, co_ServerConfigs = servers, co_GroupConfigs = groups,
            co_clientNetType = ct, co_remoteClients = rc\<rparr>"
    using new p0(1) by (simp add: NewCoordinator_def)
  define c' where "c' = c\<lparr>co_groupSecretKeys := \<lparr>gs_TokenSecretKey = fr_ser M tok, gs_Ssk = Some ssk, gs_GroupKey = ?gk\<rparr>,
      co_privateKeys := pk2,
      co_publicKeys := empty_information\<lparr>ki_TokenPublicKey := g2_ser M (g2_mul M (g2_gen M) skey), ki_GroupKey := ?gk\<rparr>\<rparr>"
  have kg: "key_gen L M skey trnd tok drnd randomBytes c = Inr c'"
    using p1(1) p2(1) pair len c
    by (simp add: key_gen_def KeyGenToken_def keyGenToken_def SkipToken_config_def token_groups_eq [OF e] pack_ok [OF e]
        GenDHKeys_def genDHKeys_def dh_groups_eq NewTokenSigningKey_def c'_def)
  have shares: "\<exists>xs ys. fr_AdditiveShares M (trnd gid) skey (length sids) = Inr xs \<and>
      dh_AdditiveShares L (drnd gid) ssk (length sids) = Inr ys \<and>
      (\<forall>i < length sids. key_of pk2 (sids ! i) gid = Some (share_info L M gid skey ?gk (xs ! i) (ys ! i)))"
    if h: "(gid, sids) \<in> set groups" for gid sids
  proof -
    have l: "0 < length sids" using o h by (force simp: on_servers_def)
    obtain xs where xs: "fr_AdditiveShares M (trnd gid) skey (length sids) = Inr xs" "length xs = length sids"
      using l by (simp add: fr_AdditiveShares_def)
    obtain ys where ys: "dh_AdditiveShares L (drnd gid) ssk (length sids) = Inr ys" "length ys = length sids"
      using l by (simp add: dh_AdditiveShares_def)
    have "key_of pk2 (sids ! i) gid = Some (share_info L M gid skey ?gk (xs ! i) (ys ! i))" if i: "i < length sids" for i
    proof -
      have "key_of pk1 (sids ! i) gid = Some (token_fields gid (g2_ser M (g2_mul M (g2_gen M) skey)) (fr_ser M (xs ! i)) empty_information)"
        using k1 [OF h i, of "map (\<lambda>x. token_fields gid (g2_ser M (g2_mul M (g2_gen M) skey)) (fr_ser M x)) xs"] xs i
        by (simp add: token_F_def)
      moreover have "key_of pk2 (sids ! i) gid = map_option (dh_fields gid ?gk (sc_bytes L (ys ! i))) (key_of pk1 (sids ! i) gid)"
        using p2(3) h i ys by (fastforce simp: dh_F_def)
      ultimately show ?thesis by (simp add: token_fields_def dh_fields_def share_info_def empty_information_def)
    qed
    then show ?thesis using xs(1) ys(1) by blast
  qed
  have "key_of pk2 s gid = None" if "0 \<le> s" "s < int ?n" "\<forall>sids. (gid, sids) \<in> set groups \<longrightarrow> s \<notin> set sids" for s gid
  proof -
    have "key_of pk2 s gid = key_of pk0 s gid" using p2(4) p1(4) that by simp
    also have "\<dots> = key_of (replicate ?n []) s gid" using p0(3) that by auto
    also have "\<dots> = None" using that(1,2) by (simp add: key_of_def nat_less_iff)
    finally show ?thesis .
  qed
  then show ?thesis using kg shares p2(2) c by (auto simp: c'_def)
qed

section \<open>Installing the keys\<close>

definition aliases :: "('s, 'p, 'fr, 'g2, 'r, 'c) server \<Rightarrow> int \<Rightarrow> ('s, 'fr, 'g2) group_member option" where
  "aliases s = map_of (sv_GroupAliases s)"

text \<open>The member with the shares of the message installed.\<close>

definition set_from where
  "set_from L M info g =
     group_SetKeys (NewTokenSigningKey M (projr (fr_InterpretFrom M (ki_TokenKeyShare info))))
       (projr (dhsk_InterpretFrom L (ki_GroupShare info))) g"

definition public_ok where
  "public_ok L M info \<longleftrightarrow> (\<exists>t. tpk_InterpretFrom M (ki_TokenPublicKey info) = Inr t) \<and> (\<exists>p. dhpk_InterpretFrom L (ki_GroupKey info) = Inr p)"

definition shares_ok where
  "shares_ok L M info \<longleftrightarrow> (\<exists>x. fr_InterpretFrom M (ki_TokenKeyShare info) = Inr x) \<and> (\<exists>y. dhsk_InterpretFrom L (ki_GroupShare info) = Inr y)"

lemma KeySet_installs:
  assumes "public_ok L M info" "to_int32 (ki_GroupId info) = ki_GroupId info"
    and "aliases s (ki_GroupId info) = None \<or> shares_ok L M info"
  shows "\<exists>s'. KeySet L M s info = (s', Inr ()) \<and>
     aliases s' = (\<lambda>g. if g = ki_GroupId info then map_option (set_from L M info) (aliases s g) else aliases s g)"
proof -
  obtain t p where tp: "tpk_InterpretFrom M (ki_TokenPublicKey info) = Inr t" "dhpk_InterpretFrom L (ki_GroupKey info) = Inr p"
    using assms(1) by (auto simp: public_ok_def)
  define s1 where "s1 = (case cs_CombinedKey (sv_CommonState s) of Some _ \<Rightarrow> s
     | None \<Rightarrow> s\<lparr>sv_CommonState := (sv_CommonState s)\<lparr>cs_CombinedKey := Some t, cs_GroupPublicKey := p\<rparr>\<rparr>)"
  have a: "aliases s1 = aliases s" by (simp add: s1_def aliases_def split: option.split)
  have k: "(case cs_CombinedKey (sv_CommonState s) of Some _ \<Rightarrow> Inr s
            | None \<Rightarrow> sbind (tpk_InterpretFrom M (ki_TokenPublicKey info)) (\<lambda>tpk.
                sbind (dhpk_InterpretFrom L (ki_GroupKey info)) (\<lambda>gpk.
                  Inr (s\<lparr>sv_CommonState := (sv_CommonState s)\<lparr>cs_CombinedKey := Some tpk, cs_GroupPublicKey := gpk\<rparr>\<rparr>)))) = Inr s1"
    by (simp add: s1_def tp split: option.split)
  show ?thesis
  proof (cases "aliases s (ki_GroupId info)")
    case None
    then have "map_of (sv_GroupAliases s1) (ki_GroupId info) = None" using a by (simp add: aliases_def)
    then have "KeySet L M s info = (s1, Inr ())" unfolding KeySet_def k assms(2) by simp
    then show ?thesis using a None by (auto simp: fun_eq_iff)
  next
    case (Some g)
    then have m: "map_of (sv_GroupAliases s1) (ki_GroupId info) = Some g" using a by (simp add: aliases_def)
    obtain x y where xy: "fr_InterpretFrom M (ki_TokenKeyShare info) = Inr x" "dhsk_InterpretFrom L (ki_GroupShare info) = Inr y"
      using assms(3) Some by (auto simp: shares_ok_def)
    have "KeySet L M s info = (s1\<lparr>sv_GroupAliases := AList.update (ki_GroupId info)
           (group_SetKeys (NewTokenSigningKey M x) y g) (sv_GroupAliases s1)\<rparr>, Inr ())"
      unfolding KeySet_def k assms(2) by (simp add: m xy)
    moreover have "set_from L M info g = group_SetKeys (NewTokenSigningKey M x) y g" by (simp add: set_from_def xy)
    ultimately show ?thesis using a Some by (auto simp: aliases_def fun_eq_iff update_conv')
  qed
qed

text \<open>The members of one server after all messages of its map.\<close>

definition installed where
  "installed L M keys al g = (case map_of keys g of None \<Rightarrow> al g | Some info \<Rightarrow> map_option (set_from L M info) (al g))"

definition keys_ok where
  "keys_ok L M keys al \<longleftrightarrow> distinct (map fst keys) \<and>
     (\<forall>(g, info) \<in> set keys. ki_GroupId info = g \<and> to_int32 g = g \<and> public_ok L M info \<and> (al g = None \<or> shares_ok L M info))"

lemma inprocess_KeySet_eq:
  assumes "sid < length ss" "KeySet L M (ss ! sid) info = (s', r)"
  shows "inprocess_KeySet L M (int sid) info ss = (ss[sid := s'], r)"
  using assms by (simp add: inprocess_KeySet_def go_index_int_def go_index_ok)

lemma send_attempt_installs:
  assumes "sid < length ss" "keys_ok L M keys (aliases (ss ! sid))"
  shows "\<exists>s'. send_attempt (inprocess_KeySet L M (int sid)) (map snd keys) ss = (ss[sid := s'], Inr True) \<and>
     aliases s' = installed L M keys (aliases (ss ! sid))"
  using assms
proof (induction keys arbitrary: ss)
  case Nil
  then show ?case by (auto simp: installed_def fun_eq_iff intro!: exI [of _ "ss ! sid"])
next
  case (Cons a keys)
  obtain g info where a: "a = (g, info)" by fastforce
  have k: "ki_GroupId info = g" "to_int32 g = g" "public_ok L M info" "aliases (ss ! sid) g = None \<or> shares_ok L M info"
    "g \<notin> fst ` set keys" "keys_ok L M keys (aliases (ss ! sid))"
    using Cons.prems(2) a by (auto simp: keys_ok_def)
  obtain s1 where s1: "KeySet L M (ss ! sid) info = (s1, Inr ())"
    "aliases s1 = (\<lambda>h. if h = g then map_option (set_from L M info) (aliases (ss ! sid) h) else aliases (ss ! sid) h)"
    using KeySet_installs [of L M info "ss ! sid"] k(1-4) by auto
  let ?ss = "ss[sid := s1]"
  have "keys_ok L M keys (aliases s1)" using k(5,6) s1(2) by (force simp: keys_ok_def)
  then obtain s2 where s2: "send_attempt (inprocess_KeySet L M (int sid)) (map snd keys) ?ss = (?ss[sid := s2], Inr True)"
    "aliases s2 = installed L M keys (aliases s1)"
    using Cons.IH [of ?ss] Cons.prems(1) by auto
  have "map_of keys g = None" using k(5) by (simp add: map_of_eq_None_iff)
  then have "aliases s2 = installed L M (a # keys) (aliases (ss ! sid))"
    using s2(2) s1(2) a by (auto simp: installed_def fun_eq_iff)
  then show ?case using s2(1) inprocess_KeySet_eq [OF Cons.prems(1) s1(1)] a by auto
qed

lemma send_retries_installs:
  assumes "sid < length ss" "keys_ok L M keys (aliases (ss ! sid))"
  shows "\<exists>s'. send_retries coordinator_retries (inprocess_KeySet L M (int sid)) (map snd keys) ss = (ss[sid := s'], Inr ()) \<and>
     aliases s' = installed L M keys (aliases (ss ! sid))"
  using send_attempt_installs [OF assms] by (auto simp: coordinator_retries_def numeral_3_eq_3)

text \<open>A server without keys is sent the public keys under the number \<open>0\<close>.\<close>

definition or_public :: "key_information \<Rightarrow> (int \<times> key_information) list \<Rightarrow> (int \<times> key_information) list" where
  "or_public pub keys = (if length keys = 0 then [(0, pub)] else keys)"

lemma send_servers_installs:
  assumes "\<And>sid. nw_KeySet net sid = inprocess_KeySet L M sid"
    and "sid + length pk \<le> length ss"
    and "\<forall>i < length pk. keys_ok L M (or_public pub (pk ! i)) (aliases (ss ! (sid + i)))"
  shows "\<exists>ss'. send_servers net pub sid pk ss = (ss', map (or_public pub) pk, replicate (length pk) (Inr ())) \<and>
     length ss' = length ss \<and> (\<forall>i < sid. ss' ! i = ss ! i) \<and>
     (\<forall>i < length pk. aliases (ss' ! (sid + i)) = installed L M (or_public pub (pk ! i)) (aliases (ss ! (sid + i))))"
  using assms(2,3)
proof (induction pk arbitrary: sid ss)
  case Nil
  then show ?case by simp
next
  case (Cons keys pk)
  have s: "sid < length ss" using Cons.prems(1) by simp
  obtain s1 where s1: "send_retries coordinator_retries (inprocess_KeySet L M (int sid)) (map snd (or_public pub keys)) ss = (ss[sid := s1], Inr ())"
    "aliases s1 = installed L M (or_public pub keys) (aliases (ss ! sid))"
    using send_retries_installs [OF s, of L M "or_public pub keys"] Cons.prems(2) by fastforce
  let ?ss = "ss[sid := s1]"
  have "\<forall>i < length pk. keys_ok L M (or_public pub (pk ! i)) (aliases (?ss ! (sid + 1 + i)))"
    using Cons.prems(2) by fastforce
  then obtain ss' where i: "send_servers net pub (sid + 1) pk ?ss = (ss', map (or_public pub) pk, replicate (length pk) (Inr ()))"
    "length ss' = length ss" "\<forall>i < sid + 1. ss' ! i = ?ss ! i"
    "\<forall>i < length pk. aliases (ss' ! (sid + 1 + i)) = installed L M (or_public pub (pk ! i)) (aliases (?ss ! (sid + 1 + i)))"
    using Cons.IH [of "sid + 1" ?ss] Cons.prems(1) by auto
  have "aliases (ss' ! (sid + j)) = installed L M (or_public pub ((keys # pk) ! j)) (aliases (ss ! (sid + j)))"
    if "j < length (keys # pk)" for j
    using i(3,4) s1(2) s that by (cases j) auto
  moreover have "send_servers net pub sid (keys # pk) ss = (ss', map (or_public pub) (keys # pk), replicate (length (keys # pk)) (Inr ()))"
    using s1(1) i(1) by (simp add: assms(1) or_public_def)
  ultimately show ?case using i(2,3) by auto
qed

section \<open>Properties\<close>

text \<open>Documented behaviour of the libraries: a scalar is read back from its canonical bytes, every scalar and
  every multiple of the generator is valid.\<close>

definition scalar_enc_ok :: "('s, 'p) lib \<Rightarrow> bool" where
  "scalar_enc_ok L \<longleftrightarrow> (\<forall>y. length (sc_bytes L y) = SCALAR_SIZE \<and> sc_canonical L (sc_bytes L y) = Some y)"

definition all_valid :: "('fr, 'g1, 'g2, 'gt) mcl \<Rightarrow> bool" where
  "all_valid M \<longleftrightarrow> (\<forall>x. fr_valid M x) \<and> (\<forall>x. g2_valid M (g2_mul M (g2_gen M) x))"

lemma share_info_ok:
  assumes "mcl_ok M" "point_ok L" "scalar_enc_ok L" "all_valid M"
  shows "fr_InterpretFrom M (fr_ser M x) = Inr x" "dhsk_InterpretFrom L (sc_bytes L y) = Inr y"
    "public_ok L M (share_info L M gid secret (pt_encode L p) x y)" "shares_ok L M (share_info L M gid secret (pt_encode L p) x y)"
    "public_ok L M (empty_information\<lparr>ki_TokenPublicKey := g2_ser M (g2_mul M (g2_gen M) secret), ki_GroupKey := pt_encode L p\<rparr>)"
proof -
  note e = mcl_okD(4) [OF assms(1), unfolded enc_ok_def]
  show x: "fr_InterpretFrom M (fr_ser M x) = Inr x" using e assms(4) by (simp add: fr_InterpretFrom_def all_valid_def)
  show y: "dhsk_InterpretFrom L (sc_bytes L y) = Inr y" using assms(3) by (simp add: dhsk_InterpretFrom_def scalar_enc_ok_def)
  have t: "tpk_InterpretFrom M (g2_ser M (g2_mul M (g2_gen M) secret)) = Inr (NewTokenPublicKey M (g2_mul M (g2_gen M) secret))"
    using e assms(4) by (simp add: tpk_InterpretFrom_def g2_InterpretFrom_def all_valid_def)
  have d: "dhpk_InterpretFrom L (pt_encode L p) = Inr p" using assms(2) by (simp add: dhpk_InterpretFrom_def point_ok_def)
  show "public_ok L M (share_info L M gid secret (pt_encode L p) x y)" "shares_ok L M (share_info L M gid secret (pt_encode L p) x y)"
    "public_ok L M (empty_information\<lparr>ki_TokenPublicKey := g2_ser M (g2_mul M (g2_gen M) secret), ki_GroupKey := pt_encode L p\<rparr>)"
    using x y t d by (simp_all add: public_ok_def shares_ok_def share_info_def)
qed

definition members_of :: "group_configs \<Rightarrow> nat \<Rightarrow> int \<Rightarrow> bool" where
  "members_of groups i gid \<longleftrightarrow> (\<exists>sids. (gid, sids) \<in> set groups \<and> int i \<in> set sids)"

text \<open>Where the shares are after the generation of the keys: the entry of each member of a group, and no other, holds
  its shares.\<close>

definition shared_out where
  "shared_out L M skey trnd ssk drnd gk groups n pk \<longleftrightarrow> maps_ok n pk \<and>
     (\<forall>(gid, sids) \<in> set groups. \<exists>xs ys.
        fr_AdditiveShares M (trnd gid) skey (length sids) = Inr xs \<and> dh_AdditiveShares L (drnd gid) ssk (length sids) = Inr ys \<and>
        (\<forall>i < length sids. key_of pk (sids ! i) gid = Some (share_info L M gid skey gk (xs ! i) (ys ! i)))) \<and>
     (\<forall>s g. 0 \<le> s \<longrightarrow> s < int n \<longrightarrow> (\<forall>sids. (g, sids) \<in> set groups \<longrightarrow> s \<notin> set sids) \<longrightarrow> key_of pk s g = None)"

lemma shared_out_member:
  assumes "shared_out L M skey trnd ssk drnd gk groups n pk" and "members_of groups i gid"
  shows "\<exists>x y. map_of (pk ! i) gid = Some (share_info L M gid skey gk x y)"
proof -
  obtain sids where h: "(gid, sids) \<in> set groups" "int i \<in> set sids" using assms(2) by (auto simp: members_of_def)
  then obtain j where j: "j < length sids" "sids ! j = int i" by (auto simp: in_set_conv_nth)
  obtain xs ys where "key_of pk (sids ! j) gid = Some (share_info L M gid skey gk (xs ! j) (ys ! j))"
    using assms(1) h(1) j(1) unfolding shared_out_def by fastforce
  then show ?thesis using j(2) by (auto simp: key_of_def)
qed

lemma shared_out_absent:
  assumes "shared_out L M skey trnd ssk drnd gk groups n pk" and "i < n" and "\<not> members_of groups i gid"
  shows "map_of (pk ! i) gid = None"
proof -
  have "key_of pk (int i) gid = None" using assms unfolding members_of_def shared_out_def by (metis of_nat_0_le_iff of_nat_less_iff)
  then show ?thesis by (simp add: key_of_def)
qed

lemma shared_out_keys_ok:
  assumes lib: "mcl_ok M" "point_ok L" "scalar_enc_ok L" "all_valid M"
    and sh: "shared_out L M skey trnd ssk drnd (pt_encode L spk) groups n pk"
    and g: "\<forall>(gid, sids) \<in> set groups. to_int32 gid = gid" and i: "i < n" "\<forall>gid. al gid \<noteq> None \<longleftrightarrow> members_of groups i gid"
    and pub: "pub = empty_information\<lparr>ki_TokenPublicKey := g2_ser M (g2_mul M (g2_gen M) skey), ki_GroupKey := pt_encode L spk\<rparr>"
  shows "keys_ok L M (or_public pub (pk ! i)) al"
proof (cases "pk ! i = []")
  case True
  then have "\<not> members_of groups i 0" using shared_out_member [OF sh, of i 0] by auto
  then have "al 0 = None" using i(2) by blast
  moreover have "to_int32 0 = 0" by (simp add: to_int32_def)
  moreover have "public_ok L M pub" "ki_GroupId pub = 0"
    using share_info_ok(5) [OF lib] by (simp_all add: pub empty_information_def)
  ultimately show ?thesis using True by (simp add: or_public_def keys_ok_def)
next
  case False
  have d: "distinct (map fst (pk ! i))" using sh i(1) by (simp add: shared_out_def maps_ok_def)
  have "ki_GroupId info = gid \<and> to_int32 gid = gid \<and> public_ok L M info \<and> shares_ok L M info" if "(gid, info) \<in> set (pk ! i)" for gid info
  proof -
    have m: "map_of (pk ! i) gid = Some info" using d that by simp
    then have "members_of groups i gid" using shared_out_absent [OF sh i(1)] by fastforce
    moreover from this obtain x y where "info = share_info L M gid skey (pt_encode L spk) x y"
      using shared_out_member [OF sh] m by fastforce
    ultimately show ?thesis using share_info_ok(3,4) [OF lib] g by (auto simp: share_info_def members_of_def)
  qed
  then show ?thesis using False d by (auto simp: or_public_def keys_ok_def)
qed

lemma installed_shares:
  assumes lib: "mcl_ok M" "scalar_ok L z" "point_ok L" "scalar_enc_ok L" "all_valid M"
    and sh: "shared_out L M skey trnd ssk drnd (pt_encode L spk) groups n pk" and g: "groups_ok n groups"
    and ss: "\<forall>i < n. \<forall>gid. aliases (ss ! i) gid \<noteq> None \<longleftrightarrow> members_of groups i gid"
    and ss': "\<forall>i < n. aliases (ss' ! i) = installed L M (or_public pub (pk ! i)) (aliases (ss ! i))"
    and h: "(gid, sids) \<in> set groups"
  shows "\<exists>xs ys. foldr (fr_add M) xs (fr_zero M) = skey \<and> length xs = length sids \<and> foldr (sc_add L) ys z = ssk \<and> length ys = length sids \<and>
      (\<forall>i < length sids. \<exists>m. aliases (ss' ! nat (sids ! i)) gid = Some m \<and>
         tsk_Share (mp_signer (gm_messagePreparer m)) = xs ! i \<and> cp_groupKeyShare (gm_CheckpointState m) = ys ! i)"
proof -
  let ?gk = "pt_encode L spk"
  obtain xs ys where x: "fr_AdditiveShares M (trnd gid) skey (length sids) = Inr xs" and y: "dh_AdditiveShares L (drnd gid) ssk (length sids) = Inr ys"
    and k: "\<forall>i < length sids. key_of pk (sids ! i) gid = Some (share_info L M gid skey ?gk (xs ! i) (ys ! i))"
    using sh h unfolding shared_out_def by fastforce
  have "\<exists>m. aliases (ss' ! nat (sids ! i)) gid = Some m \<and> tsk_Share (mp_signer (gm_messagePreparer m)) = xs ! i \<and>
      cp_groupKeyShare (gm_CheckpointState m) = ys ! i" if i: "i < length sids" for i
  proof -
    let ?s = "nat (sids ! i)" and ?info = "share_info L M gid skey ?gk (xs ! i) (ys ! i)"
    have "on_servers n sids" using g h by (force simp: groups_ok_def)
    then have "0 \<le> sids ! i" "sids ! i < int n" using i by (simp_all add: on_servers_def)
    then have s: "?s < n" "int ?s \<in> set sids" using i by auto
    then obtain m where m: "aliases (ss ! ?s) gid = Some m" using ss h by (fastforce simp: members_of_def)
    have p: "map_of (pk ! ?s) gid = Some ?info" using k i by (simp add: key_of_def)
    then have "or_public pub (pk ! ?s) = pk ! ?s" by (auto simp: or_public_def)
    then have "aliases (ss' ! ?s) gid = Some (set_from L M ?info m)" using ss' s(1) m p by (simp add: installed_def)
    then show ?thesis
      using share_info_ok(1,2) [OF lib(1,3-5)] by (simp add: set_from_def share_info_def group_SetKeys_def NewTokenSigningKey_def)
  qed
  then show ?thesis
    using secret_sharing.shares_cases [OF fr_secret_sharing [OF mcl_okD(1) [OF lib(1)]] _ _ x]
      secret_sharing.shares_cases [OF dh_secret_sharing [OF lib(2)] _ _ y] by blast
qed

text \<open>C13. The keys reach the groups: after \<^verbatim>\<open>NewCoordinator\<close>, the generation of the keys and \<^verbatim>\<open>SendKeys\<close> to servers in the
  same process, which belong to the groups of the configuration, the members of every group hold
  shares that add up to the token secret and to the decryption secret, one share each.\<close>

theorem group_keys_installed:
  assumes lib: "mcl_ok M" "scalar_ok L z" "point_ok L" "scalar_enc_ok L" "all_valid M"
    and g: "groups_ok (length servers) groups" "\<forall>(gid, sids) \<in> set groups. to_int32 gid = gid"
    and new: "NewCoordinator servers groups Inprocess rc = Inr c" and pair: "NewDHKeyPair L randomBytes = Inr (ssk, spk)"
    and net: "\<And>sid. nw_KeySet net sid = inprocess_KeySet L M sid" "\<And>k ss. nw_client_KeySets net [0] k ss = (ss, [Inr ()])"
    and ss: "length ss = length servers" "\<forall>i < length servers. \<forall>gid. aliases (ss ! i) gid \<noteq> None \<longleftrightarrow> members_of groups i gid"
  shows "\<exists>c1 c2 ss'. key_gen L M skey trnd tok drnd randomBytes c = Inr c1 \<and> SendKeys net c1 ss = Some (c2, ss', Inr ()) \<and>
     (\<forall>(gid, sids) \<in> set groups. \<exists>xs ys.
        foldr (fr_add M) xs (fr_zero M) = skey \<and> length xs = length sids \<and> foldr (sc_add L) ys z = ssk \<and> length ys = length sids \<and>
        (\<forall>i < length sids. \<exists>m. aliases (ss' ! nat (sids ! i)) gid = Some m \<and>
           tsk_Share (mp_signer (gm_messagePreparer m)) = xs ! i \<and> cp_groupKeyShare (gm_CheckpointState m) = ys ! i))"
proof -
  let ?n = "length servers"
  obtain c1 where kg: "key_gen L M skey trnd tok drnd randomBytes c = Inr c1" and sc: "co_ServerConfigs c1 = servers"
    and sh: "shared_out L M skey trnd ssk drnd (pt_encode L spk) groups ?n (co_privateKeys c1)"
    and pub: "co_publicKeys c1 =
        empty_information\<lparr>ki_TokenPublicKey := g2_ser M (g2_mul M (g2_gen M) skey), ki_GroupKey := pt_encode L spk\<rparr>"
    using key_gen_shares [OF lib(1-3) g(1) new pair, of skey trnd tok drnd] unfolding shared_out_def by blast
  let ?pk = "co_privateKeys c1" and ?pub = "co_publicKeys c1"
  have len: "length ?pk = ?n" using sh by (simp add: shared_out_def maps_ok_def)
  have keys: "keys_ok L M (or_public ?pub (?pk ! i)) (aliases (ss ! i))" if "i < ?n" for i
    by (rule shared_out_keys_ok [OF lib(1,3-5) sh g(2) that mp [OF spec [OF ss(2)] that] pub])
  obtain ss' where s': "send_servers net ?pub 0 ?pk ss = (ss', map (or_public ?pub) ?pk, replicate (length ?pk) (Inr ()))"
    "\<forall>i < length ?pk. aliases (ss' ! i) = installed L M (or_public ?pub (?pk ! i)) (aliases (ss ! i))"
    using send_servers_installs [OF net(1), of 0 ?pk ss ?pub] keys len ss(1) by auto
  have "collect_done k (replicate k (Inr ())) = Some (Inr ())" for k by (induction k) simp_all
  moreover have "co_clientNetType c1 = Inprocess"
    using kg new by (auto simp: key_gen_def KeyGenToken_def keyGenToken_def GenDHKeys_def genDHKeys_def NewCoordinator_def Let_def)
  ultimately have sk: "SendKeys net c1 ss = Some (c1\<lparr>co_privateKeys := map (or_public ?pub) ?pk\<rparr>, ss', Inr ())"
    using s'(1) len sc net(2) by (simp add: SendKeys_def Let_def)
  have "\<forall>i < ?n. aliases (ss' ! i) = installed L M (or_public ?pub (?pk ! i)) (aliases (ss ! i))" using s'(2) len by simp
  note inst = installed_shares [OF lib sh g(1) ss(2) this]
  show ?thesis by (rule exI, rule exI, rule exI, rule conjI [OF kg], rule conjI [OF sk], use inst in blast)
qed

text \<open>Two servers; both are in group \<open>0\<close>, the second also in group \<open>1\<close>.\<close>

definition member_of_group :: "int \<Rightarrow> (256 word, 1 word, 1 word) group_member" where
  "member_of_group gid = NewGroupMember toy_mcl 0 gid (sv_CommonState sample_server)"

definition two_servers :: "(256 word, 256 word, 1 word, 1 word, nat, mock_chan) server list" where
  "two_servers = [sample_server\<lparr>sv_GroupAliases := [(0, member_of_group 0)]\<rparr>,
     sample_server\<lparr>sv_GroupAliases := [(0, member_of_group 0), (1, member_of_group 1)]\<rparr>]"

definition two_servers_net :: "(256 word, 256 word, 1 word, 1 word, nat, mock_chan) server list coordinator_net" where
  "two_servers_net =
     \<lparr>nw_KeySet = inprocess_KeySet toy_lib toy_mcl, nw_client_KeySets = (\<lambda>ids k ss. (ss, map (\<lambda>_. Inr ()) ids)),
      nw_RoundSetups = (\<lambda>ids i ss. (ss, [])), nw_RoundStarts = (\<lambda>ids i ss. (ss, [])), nw_GetMessages = (\<lambda>ids i ss. (ss, [])),
      nw_ClientStarts = (\<lambda>cs ss. (ss, [])), nw_CheckReceipt = (\<lambda>idx i ss. (ss, Inr ())),
      nw_SendLoadedMessages = (\<lambda>i ss. (ss, Inr ())), nw_Receipts = (\<lambda>ss. []), nw_RecordMessages = (\<lambda>ss. ss)\<rparr>"

lemma toy_encodings: "scalar_enc_ok toy_lib" "all_valid toy_mcl"
  by (simp_all add: scalar_enc_ok_def all_valid_def toy_lib_def toy_mcl_def get_le_put_uint size_defs)

theorem group_keys_installed_witness:
  "\<exists>c c1 c2 ss'. (NewCoordinator [0, 1] [(0, [1, 0]), (1, [1])] Inprocess 0 :: 256 word coordinator res) = Inr c \<and>
     key_gen toy_lib toy_mcl 1 (\<lambda>_ _. 1) 0 (\<lambda>_ i. of_nat i) [7] c = Inr c1 \<and>
     SendKeys two_servers_net c1 two_servers = Some (c2, ss', Inr ()) \<and>
     (\<exists>m. aliases (ss' ! 1) 1 = Some m \<and> tsk_Share (mp_signer (gm_messagePreparer m)) = 1)"
proof -
  let ?groups = "[(0, [1, 0]), (1, [1])] :: group_configs"
  have g: "groups_ok (length [0, 1 :: int]) ?groups" by (simp add: groups_ok_def on_servers_def)
  then have "\<forall>g \<in> set ?groups. on_servers 2 (snd g)" by (simp add: groups_ok_def numeral_2_eq_2)
  moreover have "maps_ok 2 (replicate 2 [])" by (simp add: maps_ok_def)
  ultimately obtain pk where "place_groups ?groups (replicate 2 []) = Inr pk" using place_groups_ok by blast
  then obtain c :: "256 word coordinator" where c: "NewCoordinator [0, 1] ?groups Inprocess 0 = Inr c"
    by (simp add: NewCoordinator_def numeral_2_eq_2 del: place_groups.simps)
  have pair: "NewDHKeyPair toy_lib [7] = Inr (7, 7)"
    by (simp add: NewDHKeyPair_def RandomCurveScalar_def PublicKey_def toy_lib_def)
  have i: "\<forall>(gid, sids) \<in> set ?groups. to_int32 gid = gid" by (simp add: to_int32_def)
  have "aliases (two_servers ! k) gid \<noteq> None \<longleftrightarrow> members_of ?groups k gid" if "k < 2" for k gid
    using that by (cases k) (auto simp: two_servers_def aliases_def members_of_def)
  then have ss: "length two_servers = length [0, 1 :: int]"
    "\<forall>k < length [0, 1 :: int]. \<forall>gid. aliases (two_servers ! k) gid \<noteq> None \<longleftrightarrow> members_of ?groups k gid"
    by (simp_all add: two_servers_def numeral_2_eq_2)
  have net: "\<And>sid. nw_KeySet two_servers_net sid = inprocess_KeySet toy_lib toy_mcl sid"
    "\<And>k ss. nw_client_KeySets two_servers_net [0] k ss = (ss, [Inr ()])" by (simp_all add: two_servers_net_def)
  obtain c1 c2 ss' xs where r: "key_gen toy_lib toy_mcl 1 (\<lambda>_ _. 1) 0 (\<lambda>_ i. of_nat i) [7] c = Inr c1"
    "SendKeys two_servers_net c1 two_servers = Some (c2, ss', Inr ())"
    and x: "foldr (fr_add toy_mcl) xs (fr_zero toy_mcl) = 1" "length xs = 1"
      "\<exists>m. aliases (ss' ! 1) 1 = Some m \<and> tsk_Share (mp_signer (gm_messagePreparer m)) = xs ! 0"
    using group_keys_installed [OF toy_mcl_ok toy_scalars(1) lib_okD(3) [OF toy_lib_ok] toy_encodings g i c pair net ss,
        of 1 "\<lambda>_ _. 1" 0 "\<lambda>_ i. of_nat i"] by fastforce
  have "xs ! 0 = 1" using x(1,2) by (cases xs) (simp_all add: toy_mcl_def)
  then show ?thesis using c r x(3) by auto
qed

end
