(* ===== verification/InProcess.thy ===== *)
theory InProcess
  imports Deployment Runner KeyDistribution
begin

text \<open>
  The start of a network in one process, \<^verbatim>\<open>SetupInProcess\<close> of \<^verbatim>\<open>src/coordinator/network.go\<close>: a server per configuration, each
  with a mock caller (\<^verbatim>\<open>src/network/rpc_call.go\<close>), and the client runner. The connections of the servers are those
  \<^verbatim>\<open>ConnectionSetup\<close> reaches; here they are the argument \<open>conns\<close>. The property shows that servers made from a
  local configuration start, know each other's keys and groups, and can reach each other.
\<close>

section \<open>Operations\<close>

definition NewMockCaller :: "(bytes \<Rightarrow> 'r) \<Rightarrow> 'q reader \<Rightarrow> 'r reader \<Rightarrow> 'q \<Rightarrow> nat \<Rightarrow> (caller \<times> 'q) res" where
  "NewMockCaller shake source rd q n =
     (let (sh, q') = NewPRGShuffler shake source q in
      sbind (Perm rd sh n) (\<lambda>(p, _).
        Inr (\<lparr>ca_mock = True, ca_size = n, ca_Groups = [], ca_ReverseGroups = [], ca_ServersSortedByLatency = p\<rparr>, q')))"

text \<open>The first loop of \<^verbatim>\<open>SetupInProcess\<close>: a server finds its number by its address.\<close>

fun make_servers ::
  "('s, 'p) lib \<Rightarrow> ('fr, 'g1, 'g2, 'gt) mcl \<Rightarrow> 's \<Rightarrow> (bytes \<Rightarrow> 'r) \<Rightarrow> 'q reader \<Rightarrow> host_configs \<Rightarrow> group_configs \<Rightarrow> (nat \<Rightarrow> 'c list) \<Rightarrow>
     nat list \<Rightarrow> 'q \<Rightarrow> (('s, 'p, 'fr, 'g2, 'r, 'c) server list \<times> 'q) res" where
  "make_servers L M unset shake source hosts groups conns [] q = Inr ([], q)"
| "make_servers L M unset shake source hosts groups conns (i # is) q =
     sbind (of_option (Panic NilDereference) (map_of hosts (int i))) (\<lambda>h.
     sbind (NewServer L M unset shake source q (without_identities hosts) groups (fst (FindConfig (sc_Address h) hosts)) (conns i)) (\<lambda>(s, q).
     sbind (make_servers L M unset shake source hosts groups conns is q) (\<lambda>(ss, q).
     Inr (s # ss, q))))"

text \<open>The callers of the second loop.\<close>

fun set_callers ::
  "(bytes \<Rightarrow> 'r) \<Rightarrow> 'q reader \<Rightarrow> 'r reader \<Rightarrow> group_configs \<Rightarrow> nat \<Rightarrow> ('s, 'p, 'fr, 'g2, 'r, 'c) server list \<Rightarrow> 'q \<Rightarrow>
     (('s, 'p, 'fr, 'g2, 'r, 'c) server list \<times> 'q) res" where
  "set_callers shake source rd groups n [] q = Inr ([], q)"
| "set_callers shake source rd groups n (s # ss) q =
     sbind (NewMockCaller shake source rd q n) (\<lambda>(c, q).
     sbind (SetGroups groups c) (\<lambda>c.
     sbind (set_callers shake source rd groups n ss q) (\<lambda>(ss, q).
     Inr (s\<lparr>sv_Caller := Some c\<rparr> # ss, q))))"

definition SetupInProcess ::
  "('s, 'p) lib \<Rightarrow> ('fr, 'g1, 'g2, 'gt) mcl \<Rightarrow> 's \<Rightarrow> (bytes \<Rightarrow> 'r) \<Rightarrow> 'q reader \<Rightarrow> 'r reader \<Rightarrow> host_configs \<Rightarrow> group_configs \<Rightarrow>
     (nat \<Rightarrow> 'c list) \<Rightarrow> nat \<Rightarrow> 'q \<Rightarrow> (('s, 'p, 'fr, 'g2, 'r, 'c) server list \<times> ('s, 'p, 'g2, 'r) client_runner) res" where
  "SetupInProcess L M unset shake source rd hosts groups conns numServers q =
     sbind (make_servers L M unset shake source hosts groups conns [0..<numServers] q) (\<lambda>(ss, q).
     sbind (set_callers shake source rd groups numServers ss q) (\<lambda>(ss, q).
     sbind (NewMockCaller shake source rd q numServers) (\<lambda>(c, q).
     sbind (NewClientRunner L shake source q (without_identities hosts) groups c) (\<lambda>runner.
     sbind (SetGroups groups c) (\<lambda>c.
     Inr (ss, runner\<lparr>cr_Caller := c\<rparr>))))))"

definition NewInProcessNetwork ::
  "('s, 'p) lib \<Rightarrow> ('fr, 'g1, 'g2, 'gt) mcl \<Rightarrow> 's \<Rightarrow> resolver \<Rightarrow> cert_env \<Rightarrow> (nat \<Rightarrow> bytes \<times> signing_key) \<Rightarrow>
     (bytes \<Rightarrow> 'r) \<Rightarrow> 'q reader \<Rightarrow> 'r reader \<Rightarrow> bytes \<Rightarrow> (nat \<Rightarrow> 'c list) \<Rightarrow> nat \<Rightarrow> nat \<Rightarrow> nat \<Rightarrow> 'q \<Rightarrow>
     (host_configs \<times> group_configs \<times> ('s, 'p, 'fr, 'g2, 'r, 'c) server list \<times> ('s, 'p, 'g2, 'r) client_runner) res option" where
  "NewInProcessNetwork L M unset R E rnd shake source rd Seed conns numServers numGroups groupSize q =
     (case NewLocalConfig L R E rnd rnd shake rd Seed numServers numGroups groupSize 0 True of
        None \<Rightarrow> None
      | Some r \<Rightarrow> Some (
          sbind r (\<lambda>(servers, groups, _).
          sbind (SetupInProcess L M unset shake source rd servers groups conns numServers q) (\<lambda>(ss, runner).
          Inr (servers, groups, ss, runner)))))"

section \<open>Lemmas\<close>

text \<open>Documented behaviour of the libraries: what they encode they decode, and a public key can be expanded.\<close>

definition keys_readable :: "('s, 'p) lib \<Rightarrow> bool" where
  "keys_readable L \<longleftrightarrow> point_ok L \<and> scalar_enc_ok L \<and> (\<forall>k. ed_expandable L (ed_public L k))"

lemma NewMockCaller_ok:
  assumes "reader_ok source" "reader_ok rd" "n < 2 ^ 32"
  shows "\<exists>c q'. NewMockCaller shake source rd q n = Inr (c, q') \<and> ca_mock c \<and> ca_size c = n \<and>
     mset (ca_ServersSortedByLatency c) = mset [0..<n]"
proof -
  obtain sh q' where sh: "NewPRGShuffler shake source q = (sh, q')" by fastforce
  then have "shuffler_ok rd sh"
    using assms(1,2) by (auto simp: NewPRGShuffler_def shuffler_ok_def Let_def split: prod.splits)
  then obtain p r where "Perm rd sh n = Inr (p, r)" "mset p = mset [0..<n]" using Perm_ok [OF _ assms(3)] by blast
  then show ?thesis by (simp add: NewMockCaller_def sh)
qed

text \<open>A common state from hosts with readable keys.\<close>

definition hosts_ok :: "('s, 'p) lib \<Rightarrow> (nat \<Rightarrow> bytes \<times> signing_key) \<Rightarrow> nat \<Rightarrow> host_configs \<Rightarrow> bool" where
  "hosts_ok L rnd n hosts \<longleftrightarrow>
     length hosts = n \<and> (\<forall>i < n. \<exists>h addr. map_of hosts (int i) = Some h \<and> host_made L (rnd i) addr (int i) h \<and>
       FindConfig (sc_Address h) hosts = (int i, Some h))"

text \<open>The secret scalar of a host.\<close>

definition host_secret :: "('s, 'p) lib \<Rightarrow> host_configs \<Rightarrow> nat \<Rightarrow> 's" where
  "host_secret L hosts i = the (sc_canonical L (sc_PrivateKey (the (map_of hosts (int i)))))"

lemma map_of_without: "map_of (without_identities hosts) k = map_option server_config.truncate (map_of hosts k)"
  by (induction hosts) (auto simp: without_identities_def)

lemma host_keys:
  assumes "keys_readable L" "hosts_ok L rnd n hosts" "i < n"
  shows "\<exists>c. map_of (without_identities hosts) (int i) = Some c \<and> sc_SignatureKey c = snd (rnd i) \<and>
     sc_VerificationKey c = ed_public L (snd (rnd i)) \<and> dhsk_InterpretFrom L (sc_PrivateKey c) = Inr (host_secret L hosts i) \<and>
     dhpk_InterpretFrom L (sc_PublicKey c) = Inr (PublicKey L (host_secret L hosts i))"
proof -
  obtain h addr where h: "map_of hosts (int i) = Some h" "host_made L (rnd i) addr (int i) h"
    using assms(2,3) by (auto simp: hosts_ok_def)
  then obtain priv where p: "sc_PrivateKey h = sc_bytes L priv" "sc_PublicKey h = pt_encode L (PublicKey L priv)"
    by (auto simp: host_made_def)
  have "host_secret L hosts i = priv" using assms(1) h(1) p(1) by (simp add: host_secret_def keys_readable_def scalar_enc_ok_def)
  then show ?thesis
    using assms(1) h p by (simp add: map_of_without server_config.defs host_made_def keys_readable_def scalar_enc_ok_def point_ok_def
        dhsk_InterpretFrom_def dhpk_InterpretFrom_def)
qed

lemma NewCommonState_hosts:
  assumes "keys_readable L" "hosts_ok L rnd n hosts" "i < n" "map_of groups MASTER_GROUP \<noteq> None"
  shows "\<exists>c q'. NewCommonState L shake source q (without_identities hosts) (int i) groups = Inr (c, q') \<and> cs_MyId c = int i \<and>
     cs_NumServers c = n \<and> cs_SecretSigningKey c = snd (rnd i) \<and> cs_ServerSecretKey c = host_secret L hosts i \<and>
     cs_ExpandedVerificationKeys c = map (\<lambda>j. ed_public L (snd (rnd j))) [0..<n] \<and>
     cs_ServerPublicKeys c = map (\<lambda>j. PublicKey L (host_secret L hosts j)) [0..<n] \<and> cs_GroupConfigs c = groups"
proof -
  let ?w = "without_identities hosts"
  have len: "length ?w = n" using assms(2) by (simp add: hosts_ok_def without_identities_def)
  note k = host_keys [OF assms(1,2)]
  have vks: "map_res (\<lambda>i. sbind (config_at ?w (int i)) (\<lambda>c. or_panic (PanicError LibraryError) (ExpandKey L (sc_VerificationKey c))))
      [0..<length ?w] = Inr (map (\<lambda>j. ed_public L (snd (rnd j))) [0..<n])"
    unfolding len
  proof (rule map_res_ok, rule ballI)
    fix j assume "j \<in> set [0..<n]"
    then show "sbind (config_at ?w (int j)) (\<lambda>c. or_panic (PanicError LibraryError) (ExpandKey L (sc_VerificationKey c))) =
        Inr (ed_public L (snd (rnd j)))"
      using k [of j] assms(1) by (auto simp: config_at_def keys_readable_def ExpandKey_def or_panic_def)
  qed
  have pks: "map_res (\<lambda>i. sbind (config_at ?w (int i)) (\<lambda>c. or_panic (PanicMessage ''Bad config'') (dhpk_InterpretFrom L (sc_PublicKey c))))
      [0..<length ?w] = Inr (map (\<lambda>j. PublicKey L (host_secret L hosts j)) [0..<n])"
    unfolding len
  proof (rule map_res_ok, rule ballI)
    fix j assume "j \<in> set [0..<n]"
    then show "sbind (config_at ?w (int j)) (\<lambda>c. or_panic (PanicMessage ''Bad config'') (dhpk_InterpretFrom L (sc_PublicKey c))) =
        Inr (PublicKey L (host_secret L hosts j))"
      using k [of j] by (auto simp: config_at_def or_panic_def)
  qed
  obtain c where "map_of ?w (int i) = Some c" "sc_SignatureKey c = snd (rnd i)" "dhsk_InterpretFrom L (sc_PrivateKey c) = Inr (host_secret L hosts i)"
    using k [OF assms(3)] by blast
  then have me: "config_at ?w (int i) = Inr c" "sc_SignatureKey c = snd (rnd i)"
    "or_panic (PanicMessage ''Bad config'') (dhsk_InterpretFrom L (sc_PrivateKey c)) = Inr (host_secret L hosts i)"
    by (simp_all add: config_at_def or_panic_def)
  obtain master where "map_of groups MASTER_GROUP = Some master" using assms(4) by blast
  then show ?thesis
    unfolding NewCommonState_def vks pks me(1) of_option_Some sbind_Inr me(3) by (simp add: len me(2) case_prod_beta Let_def)
qed

text \<open>The servers that are made, in order.\<close>

definition server_ready ::
  "('s, 'p) lib \<Rightarrow> (nat \<Rightarrow> bytes \<times> signing_key) \<Rightarrow> host_configs \<Rightarrow> group_configs \<Rightarrow> nat \<Rightarrow> nat \<Rightarrow> ('s, 'p, 'fr, 'g2, 'r, 'c) server \<Rightarrow> bool" where
  "server_ready L rnd hosts groups n i s \<longleftrightarrow>
     (let c = sv_CommonState s in
      cs_MyId c = int i \<and> cs_NumServers c = n \<and> cs_SecretSigningKey c = snd (rnd i) \<and> cs_ServerSecretKey c = host_secret L hosts i \<and>
      cs_ExpandedVerificationKeys c = map (\<lambda>j. ed_public L (snd (rnd j))) [0..<n] \<and>
      cs_ServerPublicKeys c = map (\<lambda>j. PublicKey L (host_secret L hosts j)) [0..<n] \<and>
      set (map fst (sv_GroupAliases s)) = {g. \<exists>servers. (g, servers) \<in> set groups \<and> int i \<in> set servers})"

lemma make_servers_ok:
  fixes L :: "('s, 'p) lib" and M :: "('fr, 'g1, 'g2, 'gt) mcl" and shake :: "bytes \<Rightarrow> 'r"
  assumes "keys_readable L" "hosts_ok L rnd n hosts" "map_of groups MASTER_GROUP \<noteq> None" "\<forall>i \<in> set is. i < n"
  shows "\<exists>ss q'. make_servers L M unset shake source hosts groups conns is q = Inr (ss, q') \<and>
     list_all2 (server_ready L rnd hosts groups n) is ss"
  using assms(4)
proof (induction "is" arbitrary: q)
  case (Cons i "is")
  have i: "i < n" using Cons.prems by simp
  obtain h where h: "map_of hosts (int i) = Some h" "FindConfig (sc_Address h) hosts = (int i, Some h)"
    using assms(2) i by (auto simp: hosts_ok_def)
  from NewCommonState_hosts [OF assms(1,2) i assms(3), of shake source q] obtain c :: "('s, 'p, 'g2, 'r) common_state" and q1
    where c: "NewCommonState L shake source q (without_identities hosts) (int i) groups = Inr (c, q1)" "cs_MyId c = int i"
      "cs_NumServers c = n" "cs_SecretSigningKey c = snd (rnd i)" "cs_ServerSecretKey c = host_secret L hosts i"
      "cs_ExpandedVerificationKeys c = map (\<lambda>j. ed_public L (snd (rnd j))) [0..<n]"
      "cs_ServerPublicKeys c = map (\<lambda>j. PublicKey L (host_secret L hosts j)) [0..<n]" by blast
  obtain s where s: "NewServer L M unset shake source q (without_identities hosts) groups (int i) (conns i) = Inr (s, q1)"
    "sv_CommonState s = c" "sv_GroupAliases s = in_groups M unset (int i) c groups"
    using c(1) by (simp add: NewServer_def)
  have "set (map fst (in_groups M unset (int i) c groups)) = {g. \<exists>servers. (g, servers) \<in> set groups \<and> int i \<in> set servers}"
    by (force simp: in_groups_def)
  then have "server_ready L rnd hosts groups n i s"
    using c(2-7) by (simp add: server_ready_def s(2,3))
  moreover obtain ss q2 where "make_servers L M unset shake source hosts groups conns is q1 = Inr (ss, q2)"
      "list_all2 (server_ready L rnd hosts groups n) is ss"
    using Cons.IH [of q1] Cons.prems by auto
  ultimately show ?case using h s(1) by simp
qed simp

lemma SetGroups_ok:
  assumes "map fst groups = map int [0..<ng]" "\<forall>sid \<in> set (concat (map snd groups)). 0 \<le> sid"
  shows "\<exists>c'. SetGroups groups c = Inr c' \<and> ca_mock c' = ca_mock c \<and> ca_size c' = ca_size c \<and>
     ca_ServersSortedByLatency c' = ca_ServersSortedByLatency c \<and>
     (\<forall>(k, servers) \<in> set groups. ca_Groups c' ! nat k = zip [0..<length servers] (map nat servers))"
proof -
  have len: "length groups = ng" using arg_cong [OF assms(1), of length] by simp
  have "distinct (map fst groups)" "\<forall>k \<in> set (map fst groups). 0 \<le> k \<and> k < int (length groups)"
    unfolding assms(1) len by (auto simp: distinct_map)
  from SetGroups_tables [OF this assms(2), of c] obtain c' where "SetGroups groups c = Inr c'"
    "\<forall>(k, servers) \<in> set groups. ca_Groups c' ! nat k = zip [0..<length servers] (map nat servers)" by blast
  then show ?thesis by (auto simp: SetGroups_def Let_def)
qed

text \<open>What a caller of \<open>n\<close> servers knows.\<close>

definition caller_ready :: "group_configs \<Rightarrow> nat \<Rightarrow> caller \<Rightarrow> bool" where
  "caller_ready groups n c \<longleftrightarrow>
     ca_mock c \<and> ca_size c = n \<and> mset (ca_ServersSortedByLatency c) = mset [0..<n] \<and>
     (\<forall>(k, servers) \<in> set groups. ca_Groups c ! nat k = zip [0..<length servers] (map nat servers))"

lemma mock_caller_ready:
  assumes "reader_ok source" "reader_ok rd" "n < 2 ^ 32"
    and "map fst groups = map int [0..<ng]" "\<forall>sid \<in> set (concat (map snd groups)). 0 \<le> sid"
  shows "\<exists>c c' q'. NewMockCaller shake source rd q n = Inr (c, q') \<and> SetGroups groups c = Inr c' \<and> caller_ready groups n c'"
proof -
  obtain c q' where c: "NewMockCaller shake source rd q n = Inr (c, q')" "ca_mock c" "ca_size c = n"
    "mset (ca_ServersSortedByLatency c) = mset [0..<n]" using NewMockCaller_ok [OF assms(1-3)] by blast
  with SetGroups_ok [OF assms(4,5), of c] show ?thesis by (auto simp: caller_ready_def)
qed

lemma set_callers_ok:
  assumes "reader_ok source" "reader_ok rd" "n < 2 ^ 32"
    and "map fst groups = map int [0..<ng]" "\<forall>sid \<in> set (concat (map snd groups)). 0 \<le> sid"
  shows "\<exists>ss' q'. set_callers shake source rd groups n ss q = Inr (ss', q') \<and>
     list_all2 (\<lambda>s s'. \<exists>c. s' = s\<lparr>sv_Caller := Some c\<rparr> \<and> caller_ready groups n c) ss ss'"
proof (induction ss arbitrary: q)
  case (Cons s ss)
  obtain c c' q1 where c: "NewMockCaller shake source rd q n = Inr (c, q1)" "SetGroups groups c = Inr c'" "caller_ready groups n c'"
    using mock_caller_ready [OF assms] by blast
  obtain ss' q2 where "set_callers shake source rd groups n ss q1 = Inr (ss', q2)"
    "list_all2 (\<lambda>s s'. \<exists>c. s' = s\<lparr>sv_Caller := Some c\<rparr> \<and> caller_ready groups n c) ss ss'" using Cons.IH by blast
  then show ?case using c by auto
qed simp

lemma local_hosts_ok:
  assumes "NewLocalConfig L R E rnd crnd shake rd Seed n ng gs nc inprocess = Some (Inr (hosts, groups, clients))"
  shows "hosts_ok L rnd n hosts"
proof -
  obtain hs where hs: "hosts = zip (map int [0..<n]) hs" "length hs = n"
      "\<forall>i < n. host_made L (rnd i) (local_address base n i) (int i) (hs ! i)"
    using local_config_servers [OF assms] by blast
  have "map_of hosts (int i) = Some (hs ! i)" if "i < n" for i
    using that hs(1,2) by (intro map_of_is_SomeI) (auto simp: distinct_map in_set_zip intro!: exI [of _ i])
  moreover have "FindConfig (sc_Address (hs ! i)) hosts = (int i, Some (hs ! i))" if i: "i < n" for i
  proof -
    obtain h where f: "FindConfig (local_address base n i) hosts = (int i, Some h)" using local_FindConfig [OF assms i] by blast
    then have "(int i, h) \<in> set hosts" by (auto simp: FindConfig_def find_Some_iff split: option.splits dest: nth_mem)
    then have "h = hs ! i" using hs(1,2) by (auto simp: in_set_zip)
    then show ?thesis using f hs(3) i by (simp add: host_made_def)
  qed
  ultimately show ?thesis using hs by (auto simp: hosts_ok_def)
qed

lemma server_ready_caller [simp]:
  "server_ready L rnd hosts groups n i (s\<lparr>sv_Caller := x\<rparr>) \<longleftrightarrow> server_ready L rnd hosts groups n i s"
  by (simp add: server_ready_def)

lemma SetupInProcess_ok:
  fixes L :: "('s, 'p) lib" and M :: "('fr, 'g1, 'g2, 'gt) mcl" and shake :: "bytes \<Rightarrow> 'r" and conns :: "nat \<Rightarrow> 'c list"
  assumes "keys_readable L" "hosts_ok L rnd n hosts" "reader_ok source" "reader_ok rd" "0 < n" "n < 2 ^ 32" "0 < ng"
    and g: "map fst groups = map int [0..<ng]" "\<forall>sid \<in> set (concat (map snd groups)). 0 \<le> sid"
  shows "\<exists>ss (runner :: ('s, 'p, 'g2, 'r) client_runner).
     SetupInProcess L M unset shake source rd hosts groups conns n q = Inr (ss, runner) \<and> length ss = n \<and>
     (\<forall>i < n. server_ready L rnd hosts groups n i (ss ! i) \<and> (\<exists>c. sv_Caller (ss ! i) = Some c \<and> caller_ready groups n c)) \<and>
     cs_ServerPublicKeys (cr_C runner) = map (\<lambda>j. PublicKey L (host_secret L hosts j)) [0..<n] \<and> caller_ready groups n (cr_Caller runner)"
proof -
  have "MASTER_GROUP \<in> set (map fst groups)" using assms(7) unfolding g(1) by (auto simp: MASTER_GROUP_def image_iff)
  then have m: "map_of groups MASTER_GROUP \<noteq> None" by (simp add: map_of_eq_None_iff)
  obtain ss0 :: "('s, 'p, 'fr, 'g2, 'r, 'c) server list" and q1 where s0: "make_servers L M unset shake source hosts groups conns [0..<n] q = Inr (ss0, q1)"
    "list_all2 (server_ready L rnd hosts groups n) [0..<n] ss0"
    using make_servers_ok [OF assms(1,2) m, of "[0..<n]" M unset shake source conns q] by auto
  obtain ss q2 where s1: "set_callers shake source rd groups n ss0 q1 = Inr (ss, q2)"
    "list_all2 (\<lambda>s s'. \<exists>c. s' = s\<lparr>sv_Caller := Some c\<rparr> \<and> caller_ready groups n c) ss0 ss"
    using set_callers_ok [OF assms(3,4,6) g] by blast
  obtain c c' q3 where c: "NewMockCaller shake source rd q2 n = Inr (c, q3)" "SetGroups groups c = Inr c'" "caller_ready groups n c'"
    using mock_caller_ready [OF assms(3,4,6) g] by blast
  from NewCommonState_hosts [OF assms(1,2,5) m, of shake source q3] obtain st :: "('s, 'p, 'g2, 'r) common_state" and q4
    where st: "NewCommonState L shake source q3 (without_identities hosts) (int 0) groups = Inr (st, q4)"
      "cs_ServerPublicKeys st = map (\<lambda>j. PublicKey L (host_secret L hosts j)) [0..<n]" by blast
  obtain runner :: "('s, 'p, 'g2, 'r) client_runner" where r: "NewClientRunner L shake source q3 (without_identities hosts) groups c = Inr runner" "cr_C runner = st"
    using st(1) by (simp add: NewClientRunner_def)
  have run: "SetupInProcess L M unset shake source rd hosts groups conns n q = Inr (ss, runner\<lparr>cr_Caller := c'\<rparr>)"
    using s0(1) s1(1) c r(1) by (simp add: SetupInProcess_def)
  have len: "length ss0 = n" "length ss = n" using s0(2) s1(2) by (auto dest!: list_all2_lengthD)
  have "server_ready L rnd hosts groups n i (ss ! i) \<and> (\<exists>c. sv_Caller (ss ! i) = Some c \<and> caller_ready groups n c)" if "i < n" for i
    using that list_all2_nthD [OF s1(2), of i] list_all2_nthD [OF s0(2), of i] len by auto
  then show ?thesis
    by (intro exI [of _ ss] exI [of _ "runner\<lparr>cr_Caller := c'\<rparr>"]) (use run len c(3) st(2) r(2) in simp)
qed

lemma local_groups:
  assumes "NewLocalConfig L R E rnd crnd shake rd Seed n ng gs nc inprocess = Some (Inr (hosts, groups, clients))"
    and "reader_ok rd" "n < 2 ^ 32" "ng * gs \<le> n"
  shows "map fst groups = map int [0..<ng]" "\<forall>sid \<in> set (concat (map snd groups)). 0 \<le> sid"
proof -
  have "CreateSeparateGroupsWithSize shake rd Seed ng gs (map int [0..<n]) = Some (Inr groups)"
    using assms(1) by (auto simp: NewLocalConfig_def split: option.splits)
  then have g: "map fst groups = map int [0..<ng]" "set (concat (map snd groups)) \<subseteq> int ` {..<n}"
    using separate_groups_fit [of rd "map int [0..<n]" ng gs shake Seed] assms(2-4) by auto
  show "map fst groups = map int [0..<ng]" by (rule g(1))
  show "\<forall>sid \<in> set (concat (map snd groups)). 0 \<le> sid" using g(2) by fastforce
qed

text \<open>An in-process network is made whenever its groups fit and the library accepts the random bytes.\<close>

lemma NewInProcessNetwork_starts:
  assumes "keys_readable L" "reader_ok source" "reader_ok rd" "0 < n" "n < 2 ^ 31" "0 < ng" "ng * gs \<le> n"
    and "\<forall>i < n. sc_uniform L (fst (rnd i)) \<noteq> None"
  shows "\<exists>hosts groups ss runner. NewInProcessNetwork L M unset R E rnd shake source rd Seed conns n ng gs q = Some (Inr (hosts, groups, ss, runner)) \<and>
     length ss = n \<and> (\<forall>i < n. server_ready L rnd hosts groups n i (ss ! i))"
proof -
  obtain hosts groups where c: "NewLocalConfig L R E rnd rnd shake rd Seed n ng gs 0 True = Some (Inr (hosts, groups, []))"
    using NewLocalConfig_total [OF assms(3,5,7,8)] by blast
  have n32: "n < 2 ^ 32" using assms(5) by simp
  from SetupInProcess_ok [OF assms(1) local_hosts_ok [OF c] assms(2-4) n32 assms(6) local_groups [OF c assms(3) n32 assms(7)]]
  show ?thesis using c by (fastforce simp: NewInProcessNetwork_def)
qed

section \<open>Property\<close>

text \<open>C25. The servers of a local configuration start: when the groups fit, \<^verbatim>\<open>SetupInProcess\<close> gives one server per
  configuration; server \<open>i\<close> has number \<open>i\<close>, every server and the clients hold the public key of its secret key and the
  verification key of its signing key, it has a state for exactly the groups it is a member of, and its caller
  reaches every server once and has the members of every group.\<close>

theorem in_process_servers_ready:
  fixes L :: "('s, 'p) lib" and M :: "('fr, 'g1, 'g2, 'gt) mcl" and shake :: "bytes \<Rightarrow> 'r"
  assumes "keys_readable L" and "reader_ok source" and "reader_ok rd" and "0 < n" and "n < 2 ^ 31" and "0 < ng" and "ng * gs \<le> n"
    and "NewLocalConfig L R E rnd crnd gshake grd Seed n ng gs nc inprocess = Some (Inr (hosts, groups, clients))" and "reader_ok grd"
  shows "\<exists>ss (runner :: ('s, 'p, 'g2, 'r) client_runner).
     SetupInProcess L M unset shake source rd hosts groups conns n q = Inr (ss, runner) \<and> length ss = n \<and>
     (\<forall>i < n. cs_MyId (sv_CommonState (ss ! i)) = int i \<and>
        (\<forall>j < n. cs_ServerPublicKeys (sv_CommonState (ss ! j)) ! i = PublicKey L (cs_ServerSecretKey (sv_CommonState (ss ! i))) \<and>
           cs_ExpandedVerificationKeys (sv_CommonState (ss ! j)) ! i = ed_public L (cs_SecretSigningKey (sv_CommonState (ss ! i)))) \<and>
        cs_ServerPublicKeys (cr_C runner) ! i = PublicKey L (cs_ServerSecretKey (sv_CommonState (ss ! i))) \<and>
        set (map fst (sv_GroupAliases (ss ! i))) = {g. \<exists>servers. (g, servers) \<in> set groups \<and> int i \<in> set servers} \<and>
        (\<exists>c. sv_Caller (ss ! i) = Some c \<and> caller_ready groups n c)) \<and> caller_ready groups n (cr_Caller runner)"
proof -
  have n32: "n < 2 ^ 32" using assms(5) by simp
  note g = local_groups [OF assms(8,9) n32 assms(7)]
  obtain ss and runner :: "('s, 'p, 'g2, 'r) client_runner" where
    run: "SetupInProcess L M unset shake source rd hosts groups conns n q = Inr (ss, runner)" "length ss = n"
      "cs_ServerPublicKeys (cr_C runner) = map (\<lambda>j. PublicKey L (host_secret L hosts j)) [0..<n]" "caller_ready groups n (cr_Caller runner)"
    and ready: "\<forall>i < n. server_ready L rnd hosts groups n i (ss ! i) \<and> (\<exists>c. sv_Caller (ss ! i) = Some c \<and> caller_ready groups n c)"
    using SetupInProcess_ok [OF assms(1) local_hosts_ok [OF assms(8)] assms(2-4) n32 assms(6) g] by blast
  show ?thesis
    by (intro exI [of _ ss] exI [of _ runner]) (use run ready in \<open>simp add: server_ready_def Let_def\<close>)
qed

theorem in_process_servers_ready_witness:
  "\<exists>hosts groups ss (runner :: (256 word, 256 word, 1 word, nat) client_runner).
     NewLocalConfig toy_lib toy_resolver \<lparr>ce_script = (\<lambda>_ _. None), ce_file = (\<lambda>_. Inr [])\<rparr>
       (\<lambda>i. ([of_nat i], [7])) (\<lambda>i. ([], [])) (\<lambda>_. 0) zero_reader [1] 3 1 2 0 True = Some (Inr (hosts, groups, [])) \<and>
     SetupInProcess toy_lib toy_mcl 0 (\<lambda>_. 0) zero_reader zero_reader hosts groups (\<lambda>_. [()]) 3 0 = Inr (ss, runner) \<and>
     cs_MyId (sv_CommonState (ss ! 2)) = 2 \<and>
     cs_ServerPublicKeys (sv_CommonState (ss ! 1)) ! 2 = PublicKey toy_lib (cs_ServerSecretKey (sv_CommonState (ss ! 2)))"
proof -
  let ?E = "\<lparr>ce_script = (\<lambda>_ _. None), ce_file = (\<lambda>_. Inr [])\<rparr> :: cert_env"
  have "\<forall>k. ed_expandable toy_lib (ed_public toy_lib k)" by (simp add: toy_lib_def)
  then have k: "keys_readable toy_lib" using lib_okD(3) [OF toy_lib_ok] toy_encodings(1) by (simp add: keys_readable_def)
  have h: "\<forall>i < 3. sc_uniform toy_lib (fst ([of_nat i :: byte], [7 :: byte])) \<noteq> None" "(0 :: nat) < 3" "(3 :: nat) < 2 ^ 31" "0 < (1 :: nat)" "1 * 2 \<le> (3 :: nat)"
    by (simp_all add: toy_lib_def)
  from NewLocalConfig_total [OF zero_reader_ok h(3,5,1), where R = toy_resolver and E = ?E and crnd = "\<lambda>i. ([], [])" and shake = "\<lambda>_. 0" and Seed = "[1]"]
  obtain hosts groups where s: "NewLocalConfig toy_lib toy_resolver ?E (\<lambda>i. ([of_nat i], [7])) (\<lambda>i. ([], [])) (\<lambda>_. 0) zero_reader [1] 3 1 2 0 True =
      Some (Inr (hosts, groups, []))" by blast
  from in_process_servers_ready [OF k zero_reader_ok zero_reader_ok h(2-5) s zero_reader_ok,
      where M = toy_mcl and unset = 0 and shake = "\<lambda>_. 0 :: nat" and conns = "\<lambda>_. [()]" and q = 0]
  obtain ss and runner :: "(256 word, 256 word, 1 word, nat) client_runner" where
    "SetupInProcess toy_lib toy_mcl 0 (\<lambda>_. 0) zero_reader zero_reader hosts groups (\<lambda>_. [()]) 3 0 = Inr (ss, runner)"
    "\<forall>i < 3. cs_MyId (sv_CommonState (ss ! i)) = int i \<and>
        (\<forall>j < 3. cs_ServerPublicKeys (sv_CommonState (ss ! j)) ! i = PublicKey toy_lib (cs_ServerSecretKey (sv_CommonState (ss ! i))))" by blast
  then show ?thesis using s by (intro exI conjI) auto
qed

end
