(* ===== verification/RemoteControl.thy ===== *)
theory RemoteControl
  imports Addresses Coordinator
begin

text \<open>
  The commands the coordinator runs on remote machines, \<^verbatim>\<open>src/coordinator/remote.go\<close>. Running a command is the
  argument \<open>exec\<close>, which gives its error, if any; for the start of the servers, whose commands do not end, \<open>ends\<close>
  gives the seconds after which a command fails, if it does. Commands for several machines run in parallel; the
  results are collected in the order they arrive, which does not matter (\<open>collect_order\<close>).
\<close>

section \<open>Commands\<close>

definition ServerProcessName :: string where "ServerProcessName = ''server''"
definition ClientProcessName :: string where "ClientProcessName = ''client''"
definition waitTime :: nat where "waitTime = 10"

definition scp_command :: "string \<Rightarrow> string \<Rightarrow> string list" where
  "scp_command fn addr =
     [''scp'', ''-i'', ''~/.ssh/lkey'', ''-o'', ''StrictHostKeyChecking=no'', fn, ''ec2-user@'' @ Host addr @ '':~/go/bin/'' @ fn]"

definition ssh_command :: "string \<Rightarrow> string \<Rightarrow> string list" where
  "ssh_command addr cmd =
     [''ssh'', ''-i'', ''~/.ssh/lkey'', ''-o'', ''StrictHostKeyChecking=no'', ''ec2-user@'' @ Host addr, cmd]"

text \<open>The loop over the channel \<^verbatim>\<open>done\<close>.\<close>

fun collect :: "bool list \<Rightarrow> bool" where
  "collect [] = True"
| "collect (b # bs) = (if \<not> b then False else collect bs)"

definition TransferFileToAllServers :: "(string list \<Rightarrow> error option) \<Rightarrow> server_configs \<Rightarrow> string \<Rightarrow> bool" where
  "TransferFileToAllServers exec servers fn =
     collect (map (\<lambda>(_, s). exec (scp_command fn (sc_Address s)) = None) servers)"

text \<open>The commands that are run; their results are not looked at.\<close>

definition KillRemoteServers :: "server_configs \<Rightarrow> string \<Rightarrow> string list list" where
  "KillRemoteServers servers processName = map (\<lambda>(_, s). ssh_command (sc_Address s) (''pkill '' @ processName)) servers"

definition start_command :: "string \<Rightarrow> string \<Rightarrow> string \<Rightarrow> string \<Rightarrow> string \<Rightarrow> string list" where
  "start_command processName serverFile groupFile clientsFile addr =
     ssh_command addr (''~/go/bin/'' @ processName @ '' ~/go/bin/'' @ serverFile @ '' ~/go/bin/'' @ groupFile @
       '' ~/go/bin/'' @ clientsFile @ '' '' @ addr)"

text \<open>The first failure within the time that is waited, if there is one, wins the \<^verbatim>\<open>select\<close>.\<close>

definition StartRemoteServers ::
  "(string list \<Rightarrow> nat option) \<Rightarrow> server_configs \<Rightarrow> string \<Rightarrow> string \<Rightarrow> string \<Rightarrow> string \<Rightarrow> bool" where
  "StartRemoteServers ends servers processName serverFile groupFile clientsFile \<longleftrightarrow>
     list_all (\<lambda>(_, s). case ends (start_command processName serverFile groupFile clientsFile (sc_Address s)) of
         None \<Rightarrow> True | Some t \<Rightarrow> waitTime < t) servers"

definition RunRemoteCommandOnEach :: "(string list \<Rightarrow> error option) \<Rightarrow> server_configs \<Rightarrow> string \<Rightarrow> bool" where
  "RunRemoteCommandOnEach exec servers remoteCmd =
     collect (map (\<lambda>(_, s). exec (ssh_command (sc_Address s) remoteCmd) = None) servers)"

section \<open>Slow networks\<close>

text \<open>Go's division rounds towards zero.\<close>

definition half :: "int \<Rightarrow> int" where
  "half x = (if x < 0 then - (- x div 2) else x div 2)"

definition slow_command :: "string \<Rightarrow> int \<Rightarrow> int \<Rightarrow> string" where
  "slow_command device latency bandwidth =
     ''sudo tc qdisc add dev '' @ device @ '' root handle 1:0 netem delay '' @ itoa latency @ ''ms rate '' @ itoa bandwidth @
     ''mbit limit 100000''"

text \<open>The state is the pair of \<^verbatim>\<open>network.MockLatency\<close> and \<^verbatim>\<open>network.MockBandwidth\<close>. Before the panic all processes are killed.\<close>

definition SlowNetwork ::
  "(string list \<Rightarrow> error option) \<Rightarrow> net_type \<Rightarrow> server_configs \<Rightarrow> int \<Rightarrow> int \<Rightarrow> int \<times> int \<Rightarrow> (int \<times> int) \<times> unit res" where
  "SlowNetwork exec serverNetType servers latency bandwidth mock =
     (if latency \<le> 0 \<and> bandwidth \<le> 0 then (mock, Inr ())
      else
        let bandwidth = (if bandwidth \<le> 0 then 12500 else bandwidth) in
        if serverNetType = Inprocess then ((latency, bandwidth), Inr ())
        else
          let device = (if serverNetType = Remote then ''eth0'' else ''lo'') in
          if \<not> RunRemoteCommandOnEach exec servers (slow_command device (half latency) bandwidth)
          then (mock, Inl (Panic (PanicMessage ''Error setting network slowdown'')))
          else (mock, Inr ()))"

section \<open>Lemmas\<close>

lemma collect_all: "collect bs \<longleftrightarrow> list_all (\<lambda>b. b) bs"
  by (induction bs) auto

lemma collect_order: "mset bs = mset cs \<Longrightarrow> collect bs = collect cs"
  by (metis collect_all list_all_iff set_mset_mset)

text \<open>Starting the servers of a remote network succeeds exactly when no command fails in time, whatever the machine.\<close>

lemma StartRemoteServers_fails:
  "\<not> StartRemoteServers ends servers p sf gf cf \<longleftrightarrow>
     (\<exists>(k, s) \<in> set servers. \<exists>t \<le> waitTime. ends (start_command p sf gf cf (sc_Address s)) = Some t)"
  by (fastforce simp: StartRemoteServers_def list_all_iff not_less split: option.splits)

text \<open>When the network is slowed down, the bandwidth of the command is positive, half of the latency is added at
  each end, so that a round trip has the latency asked for or one millisecond less, and the call
  fails exactly when the command fails on a machine.\<close>

theorem slow_network_settings:
  assumes "0 < latency \<or> 0 < bandwidth"
  shows "\<exists>b > 0. (0 < bandwidth \<longrightarrow> b = bandwidth) \<and>
     SlowNetwork exec Inprocess servers latency bandwidth mock = ((latency, b), Inr ()) \<and>
     (\<forall>net. net \<noteq> Inprocess \<longrightarrow> (\<exists>device.
        (snd (SlowNetwork exec net servers latency bandwidth mock) = Inr () \<longleftrightarrow>
           (\<forall>(k, s) \<in> set servers. exec (ssh_command (sc_Address s) (slow_command device (half latency) b)) = None)))) \<and>
     (0 \<le> latency \<longrightarrow> 2 * half latency \<le> latency \<and> latency \<le> 2 * half latency + 1)"
proof (intro exI [of _ "if bandwidth \<le> 0 then 12500 else bandwidth"] conjI allI impI)
  fix net assume net: "net \<noteq> Inprocess"
  let ?d = "if net = Remote then ''eth0'' else ''lo''"
  show "\<exists>device. (snd (SlowNetwork exec net servers latency bandwidth mock) = Inr ()) =
      (\<forall>(k, s) \<in> set servers. exec (ssh_command (sc_Address s)
         (slow_command device (half latency) (if bandwidth \<le> 0 then 12500 else bandwidth))) = None)"
    using assms net
    by (intro exI [of _ ?d]) (auto simp: SlowNetwork_def RunRemoteCommandOnEach_def collect_all list_all_iff Let_def)
qed (use assms in \<open>auto simp: SlowNetwork_def half_def Let_def\<close>)

end
