(* ===== verification/Latency.thy ===== *)
theory Latency
  imports Network
begin

text \<open>
  The order in which a caller serves the others, \<^verbatim>\<open>src/network/profile.go\<close>: round trips are measured and the
  servers are sorted by their medians. What the clock measures is an argument: \<open>rtt i\<close> is the duration of the \<open>i\<close>-th
  health check and \<open>late i\<close> says whether it ended after the time limit. \<^verbatim>\<open>sort.Sort\<close> is the list \<open>sw v\<close> of the exchanges
  it makes on the values \<open>v\<close>; its contract is that they are in range and leave the values sorted.
\<close>

section \<open>Operations\<close>

text \<open>At most nine measurements.\<close>

fun ping_loop :: "(nat \<Rightarrow> int) \<Rightarrow> (nat \<Rightarrow> bool) \<Rightarrow> nat \<Rightarrow> nat \<Rightarrow> int list" where
  "ping_loop rtt late i 0 = []"
| "ping_loop rtt late i (Suc left) = rtt i # (if late i then [] else ping_loop rtt late (Suc i) left)"

definition PingServer :: "(nat \<Rightarrow> int) \<Rightarrow> (nat \<Rightarrow> bool) \<Rightarrow> int res" where
  "PingServer rtt late =
     (let measurements = sort (ping_loop rtt late 0 9) in go_index measurements (length measurements div 2))"

record sort_slice =
  ss_IntSlice :: "int list"
  ss_idx :: "nat list"

definition slice_Swap :: "nat \<times> nat \<Rightarrow> sort_slice \<Rightarrow> sort_slice" where
  "slice_Swap ij s =
     (case ij of (i, j) \<Rightarrow> s\<lparr>ss_IntSlice := swap (ss_IntSlice s) i j, ss_idx := swap (ss_idx s) i j\<rparr>)"

definition NewSlice :: "int list \<Rightarrow> sort_slice" where
  "NewSlice n = \<lparr>ss_IntSlice = n, ss_idx = [0..<length n]\<rparr>"

text \<open>The slice \<^verbatim>\<open>v\<close> is shared with the sorted structure, so it is sorted too: the second result.\<close>

definition ArgSort :: "(int list \<Rightarrow> (nat \<times> nat) list) \<Rightarrow> int list \<Rightarrow> nat list \<times> int list" where
  "ArgSort sw v = (let s = fold slice_Swap (sw v) (NewSlice v) in (ss_idx s, ss_IntSlice s))"

definition HealthCheck ::
  "(int list \<Rightarrow> (nat \<times> nat) list) \<Rightarrow> (nat \<Rightarrow> nat \<Rightarrow> int) \<Rightarrow> (nat \<Rightarrow> nat \<Rightarrow> bool) \<Rightarrow> caller \<Rightarrow> caller res" where
  "HealthCheck sw rtt late c =
     sbind (map_res (\<lambda>sid. PingServer (rtt sid) (late sid)) [0..<ca_size c]) (\<lambda>medianPingTimes.
     Inr (c\<lparr>ca_ServersSortedByLatency := fst (ArgSort sw medianPingTimes)\<rparr>))"

section \<open>Lemmas\<close>

definition sorts :: "(int list \<Rightarrow> (nat \<times> nat) list) \<Rightarrow> int list \<Rightarrow> bool" where
  "sorts sw v \<longleftrightarrow> (\<forall>(i, j) \<in> set (sw v). i < length v \<and> j < length v) \<and> sorted (fold (\<lambda>(i, j) xs. swap xs i j) (sw v) v)"

lemma ping_loop_length: "length (ping_loop rtt late i left) \<le> left \<and> (0 < left \<longrightarrow> ping_loop rtt late i left \<noteq> [])"
  by (induction left arbitrary: i) auto

lemma ping_loop_set: "set (ping_loop rtt late i left) \<subseteq> rtt ` {i..<i + left}"
proof (induction left arbitrary: i)
  case (Suc left)
  show ?case using Suc [of "Suc i"] by auto
qed simp

text \<open>A median is found, and it is one of the measured times.\<close>

lemma PingServer_ok: "\<exists>m \<in> rtt ` {..<9}. PingServer rtt late = Inr m"
proof -
  let ?ms = "sort (ping_loop rtt late 0 9)"
  have "ping_loop rtt late 0 9 \<noteq> []" using ping_loop_length [of rtt late 0 9] by simp
  then have l: "length ?ms div 2 < length ?ms" by (intro div_less_dividend) simp_all
  then have "?ms ! (length ?ms div 2) \<in> set ?ms" by (rule nth_mem)
  then have "?ms ! (length ?ms div 2) \<in> rtt ` {..<9}" using ping_loop_set [of rtt late 0 9] by (auto simp: lessThan_atLeast0)
  then show ?thesis using l by (simp add: PingServer_def go_index_def Let_def)
qed

text \<open>The invariant of the exchanges: the index at a place is where its value was at the start.\<close>

definition slice_inv :: "int list \<Rightarrow> sort_slice \<Rightarrow> bool" where
  "slice_inv v s \<longleftrightarrow> mset (ss_idx s) = mset [0..<length v] \<and> ss_IntSlice s = map (\<lambda>i. v ! i) (ss_idx s)"

lemma slice_inv_length: "slice_inv v s \<Longrightarrow> length (ss_idx s) = length v"
  by (metis diff_zero length_upt mset_eq_length slice_inv_def)

lemma map_swap: "i < length xs \<Longrightarrow> j < length xs \<Longrightarrow> map f (swap xs i j) = swap (map f xs) i j"
  by (simp add: swap_def map_update)

lemma slice_Swap_inv:
  assumes "slice_inv v s" "i < length v" "j < length v"
  shows "slice_inv v (slice_Swap (i, j) s)"
  using assms slice_inv_length [OF assms(1)] by (simp add: slice_inv_def slice_Swap_def map_swap mset_swap_list)

lemma fold_Swap_inv:
  assumes "slice_inv v s" "\<forall>(i, j) \<in> set ps. i < length v \<and> j < length v"
  shows "slice_inv v (fold slice_Swap ps s) \<and>
     ss_IntSlice (fold slice_Swap ps s) = fold (\<lambda>(i, j) xs. swap xs i j) ps (ss_IntSlice s)"
  using assms
proof (induction ps arbitrary: s)
  case (Cons p ps)
  obtain i j where p: "p = (i, j)" by fastforce
  have "slice_inv v (slice_Swap (i, j) s)" using slice_Swap_inv [OF Cons.prems(1)] Cons.prems(2) p by simp
  from Cons.IH [OF this] Cons.prems(2) p show ?case by (simp add: slice_Swap_def)
qed simp

lemma NewSlice_inv: "slice_inv v (NewSlice v)"
  by (simp add: slice_inv_def NewSlice_def map_nth)

text \<open>\<^verbatim>\<open>ArgSort\<close> gives the permutation that sorts the values.\<close>

lemma ArgSort_ok:
  assumes "sorts sw v" "ArgSort sw v = (idx, vs)"
  shows "mset idx = mset [0..<length v]" "vs = map (\<lambda>i. v ! i) idx" "sorted vs"
proof -
  let ?s = "fold slice_Swap (sw v) (NewSlice v)"
  have "slice_inv v ?s \<and> ss_IntSlice ?s = fold (\<lambda>(i, j) xs. swap xs i j) (sw v) v"
    using fold_Swap_inv [OF NewSlice_inv, of "sw v" v] assms(1) by (simp add: sorts_def NewSlice_def)
  then show "mset idx = mset [0..<length v]" "vs = map (\<lambda>i. v ! i) idx" "sorted vs"
    using assms by (auto simp: ArgSort_def Let_def slice_inv_def sorts_def)
qed

text \<open>The order a health check leaves: every server once, with ascending medians, which are measured times.\<close>

theorem health_check_order:
  assumes "\<forall>v. length v = ca_size c \<longrightarrow> sorts sw v"
  shows "\<exists>c' med. HealthCheck sw rtt late c = Inr c' \<and> (\<forall>sid < ca_size c. med sid \<in> rtt sid ` {..<9}) \<and>
     mset (ca_ServersSortedByLatency c') = mset [0..<ca_size c] \<and> sorted (map med (ca_ServersSortedByLatency c')) \<and>
     set (GetJobs (ca_ServersSortedByLatency c')) = {..<ca_size c}"
proof -
  have "\<forall>sid. \<exists>m. m \<in> rtt sid ` {..<9} \<and> PingServer (rtt sid) (late sid) = Inr m" using PingServer_ok by blast
  then obtain med where m: "\<And>sid. med sid \<in> rtt sid ` {..<9}" "\<And>sid. PingServer (rtt sid) (late sid) = Inr (med sid)" by metis
  let ?v = "map med [0..<ca_size c]"
  obtain idx vs where a: "ArgSort sw ?v = (idx, vs)" by fastforce
  note o = ArgSort_ok [OF _ a]
  have s: "sorts sw ?v" using assms by simp
  have set: "set idx = {..<ca_size c}" using arg_cong [OF o(1) [OF s], of set_mset] by (simp add: lessThan_atLeast0)
  then have "vs = map med idx" using o(2) [OF s] by (auto simp: list_eq_iff_nth_eq dest: nth_mem)
  moreover have "map_res (\<lambda>sid. PingServer (rtt sid) (late sid)) [0..<ca_size c] = Inr ?v" by (rule map_res_ok) (simp add: m(2))
  ultimately show ?thesis
    using o(1,3) [OF s] a set m(1)
    by (intro exI [of _ "c\<lparr>ca_ServersSortedByLatency := idx\<rparr>"] exI [of _ med]) (simp add: HealthCheck_def GetJobs_def)
qed

end
