(* ===== verification/LogHist.thy ===== *)
theory LogHist
  imports Addresses
begin

text \<open>
  The evaluation of a server's log, \<^verbatim>\<open>src/cmd/experiments/log_hist.go\<close>: lines are parsed into events with times, and the
  time a layer takes is the difference between the last and the first of certain events. A \<^verbatim>\<open>time.Time\<close> is a number with
  \<open>0\<close> for its zero value; \<^verbatim>\<open>time.Parse\<close> is the argument \<open>parse\<close>. Opening the file and the mean that is printed are
  not modelled.
\<close>

section \<open>Parsing\<close>

record log_message =
  lm_round :: int
  lm_layer :: int
  lm_sender :: int
  lm_destination :: int
  lm_step :: string

type_synonym logs = "(log_message \<times> int) list"

fun split_space :: "string \<Rightarrow> string list" where
  "split_space [] = [[]]"
| "split_space (c # cs) =
     (if c = CHR '' '' then [] # split_space cs
      else case split_space cs of [] \<Rightarrow> [[c]] | w # ws \<Rightarrow> (c # w) # ws)"

definition is_alnum :: "char \<Rightarrow> bool" where
  "is_alnum c \<longleftrightarrow> (let n = (of_char c :: nat) in (65 \<le> n \<and> n \<le> 90) \<or> (97 \<le> n \<and> n \<le> 122) \<or> (48 \<le> n \<and> n \<le> 57))"

definition numPart :: "string \<Rightarrow> int res" where
  "numPart s =
     sbind (go_index (split_colon s) 1) (\<lambda>p.
     of_option (Panic (PanicError LibraryError)) (Atoi (filter is_alnum p)))"

definition processLine :: "(string \<Rightarrow> int option) \<Rightarrow> string \<Rightarrow> (log_message \<times> int) res" where
  "processLine parse line =
     (let parts = split_space line in
      sbind (go_index parts 1) (\<lambda>p1.
      sbind (of_option (Panic (PanicError LibraryError)) (parse p1)) (\<lambda>t.
      sbind (go_index parts 2) (\<lambda>step.
      sbind (sbind (go_index parts 6) numPart) (\<lambda>r.
      sbind (sbind (go_index parts 7) numPart) (\<lambda>l.
      sbind (sbind (go_index parts 8) numPart) (\<lambda>s.
      sbind (sbind (go_index parts 10) numPart) (\<lambda>d.
      Inr (\<lparr>lm_round = r, lm_layer = l, lm_sender = s, lm_destination = d, lm_step = step\<rparr>, t)))))))))"

fun parse_lines :: "(string \<Rightarrow> int option) \<Rightarrow> string list \<Rightarrow> logs \<Rightarrow> logs res" where
  "parse_lines parse [] logs = Inr logs"
| "parse_lines parse (line # ls) logs =
     sbind (processLine parse line) (\<lambda>(m, t). parse_lines parse ls (AList.update m t logs))"

text \<open>The sender is that of the last entry of the iteration.\<close>

definition readParams :: "logs \<Rightarrow> int \<times> int" where
  "readParams logs =
     (let (sender, numServers) = foldl (\<lambda>(sender, numServers) (k, _).
        (lm_sender k, if lm_destination k > numServers then lm_destination k else numServers)) (0, 0) logs
      in (sender, numServers + 1))"

section \<open>Times\<close>

definition time_of :: "logs \<Rightarrow> log_message \<Rightarrow> int" where
  "time_of logs m = (case map_of logs m of None \<Rightarrow> 0 | Some t \<Rightarrow> t)"

text \<open>One turn of the loops: \<open>b\<close> is still true when no time was taken yet.\<close>

definition take_time :: "bool \<Rightarrow> int \<Rightarrow> int \<times> bool \<Rightarrow> int \<times> bool" where
  "take_time first t st =
     (case st of (ex, b) \<Rightarrow>
        if b then (t, False)
        else if first \<and> t < ex then (t, b)
        else if \<not> first \<and> ex < t then (t, b)
        else (ex, b))"

definition getOccurenceOf :: "logs \<Rightarrow> int \<Rightarrow> int \<Rightarrow> int \<Rightarrow> nat \<Rightarrow> string \<Rightarrow> bool \<Rightarrow> int" where
  "getOccurenceOf logs rnd layer sender numServers step first =
     fst (fold (\<lambda>dest st.
        let t = time_of logs \<lparr>lm_round = rnd, lm_layer = layer, lm_sender = sender, lm_destination = int dest, lm_step = step\<rparr> in
        if t = 0 then st else take_time first t st) [0..<numServers] (0, True))"

definition getOccurenceOf2 :: "logs \<Rightarrow> int \<Rightarrow> int \<Rightarrow> int \<Rightarrow> nat \<Rightarrow> string \<Rightarrow> bool \<Rightarrow> int" where
  "getOccurenceOf2 logs rnd layer numChunks numServers step first =
     fst (fold (\<lambda>s st.
        take_time first (time_of logs \<lparr>lm_round = rnd, lm_layer = layer, lm_sender = int s, lm_destination = numChunks, lm_step = step\<rparr>) st)
        [0..<numServers] (0, True))"

definition sendingTime :: "logs \<Rightarrow> int \<Rightarrow> int \<Rightarrow> int \<Rightarrow> nat \<Rightarrow> int" where
  "sendingTime logs rnd layer sender numServers =
     (let start = getOccurenceOf logs rnd layer sender numServers ''Connect'' True;
          end' = getOccurenceOf logs rnd layer sender numServers ''Waiting'' False in end' - start)"

definition layerTime :: "logs \<Rightarrow> int \<Rightarrow> int \<Rightarrow> int \<Rightarrow> nat \<Rightarrow> int" where
  "layerTime logs rnd layer sender numServers =
     (let start = getOccurenceOf logs rnd layer sender numServers ''Connect'' True;
          end' = getOccurenceOf2 logs rnd layer 1 numServers ''Processed'' False in end' - start)"

section \<open>Lemmas\<close>

text \<open>A loop over times takes the least or the greatest of them.\<close>

lemma take_times_started:
  "fold (take_time first) ts (x, False) = (if first then Min (set (x # ts)) else Max (set (x # ts)), False)"
proof (induction ts arbitrary: x)
  case (Cons t ts)
  have "take_time first t (x, False) = (if first then min t x else max t x, False)"
    by (auto simp: take_time_def min_def max_def)
  then show ?case using Cons by (cases "ts = []") (auto simp: min.left_commute min.commute max.left_commute max.commute)
qed simp

lemma take_times:
  "fst (fold (take_time first) ts (0, True)) = (if ts = [] then 0 else if first then Min (set ts) else Max (set ts))"
  by (cases ts) (simp_all add: take_time_def take_times_started)

lemma fold_skip: "fold (\<lambda>x st. if f x = 0 then st else g (f x) st) xs s = fold g (filter (\<lambda>t. t \<noteq> (0 :: int)) (map f xs)) s"
  by (induction xs arbitrary: s) auto

text \<open>The events of a step from one sender: entries that are missing are skipped.\<close>

definition step_times :: "logs \<Rightarrow> int \<Rightarrow> int \<Rightarrow> int \<Rightarrow> nat \<Rightarrow> string \<Rightarrow> int set" where
  "step_times logs rnd layer sender n step =
     {t. t \<noteq> 0 \<and> (\<exists>d < n. t = time_of logs \<lparr>lm_round = rnd, lm_layer = layer, lm_sender = sender, lm_destination = int d, lm_step = step\<rparr>)}"

lemma getOccurenceOf_extreme:
  "getOccurenceOf logs rnd layer sender n step first =
     (let T = step_times logs rnd layer sender n step in if T = {} then 0 else if first then Min T else Max T)"
proof -
  let ?f = "\<lambda>d. time_of logs \<lparr>lm_round = rnd, lm_layer = layer, lm_sender = sender, lm_destination = int d, lm_step = step\<rparr>"
  let ?ts = "filter (\<lambda>t. t \<noteq> 0) (map ?f [0..<n])"
  have "getOccurenceOf logs rnd layer sender n step first = fst (fold (take_time first) ?ts (0, True))"
    by (simp add: getOccurenceOf_def Let_def fold_skip [of ?f])
  moreover have ts: "set ?ts = step_times logs rnd layer sender n step" by (auto simp: step_times_def)
  moreover have "?ts = [] \<longleftrightarrow> step_times logs rnd layer sender n step = {}" using ts by (metis set_empty)
  ultimately show ?thesis unfolding take_times ts Let_def by simp
qed

text \<open>The time of sending is that between the first connection and the last wait; it is not negative when
  some wait is not before some connection.\<close>

theorem sending_time_spans:
  assumes "c \<in> step_times logs rnd layer sender n ''Connect''" and "w \<in> step_times logs rnd layer sender n ''Waiting''" and "c \<le> w"
  shows "sendingTime logs rnd layer sender n = Max (step_times logs rnd layer sender n ''Waiting'') - Min (step_times logs rnd layer sender n ''Connect'')"
    and "0 \<le> sendingTime logs rnd layer sender n" and "w - c \<le> sendingTime logs rnd layer sender n"
proof -
  have fin: "finite (step_times logs rnd layer sender n s)" for s
    by (rule finite_subset [of _ "(\<lambda>d. time_of logs \<lparr>lm_round = rnd, lm_layer = layer, lm_sender = sender, lm_destination = int d, lm_step = s\<rparr>) ` {..<n}"])
      (auto simp: step_times_def)
  show e: "sendingTime logs rnd layer sender n = Max (step_times logs rnd layer sender n ''Waiting'') - Min (step_times logs rnd layer sender n ''Connect'')"
    using assms(1,2) by (auto simp: sendingTime_def getOccurenceOf_extreme Let_def)
  have "Min (step_times logs rnd layer sender n ''Connect'') \<le> c" "w \<le> Max (step_times logs rnd layer sender n ''Waiting'')"
    using fin assms(1,2) by simp_all
  then show "w - c \<le> sendingTime logs rnd layer sender n" and "0 \<le> sendingTime logs rnd layer sender n"
    unfolding e using assms(3) by linarith+
qed

text \<open>Times of a day are parsed into the year \<open>0\<close>, before the zero value: a server without an entry for a layer makes
  the end of the layer the zero time.\<close>

lemma missing_entry_is_latest:
  assumes "s < n" "\<And>k. k < n \<Longrightarrow> time_of logs \<lparr>lm_round = rnd, lm_layer = layer, lm_sender = int k, lm_destination = ch, lm_step = step\<rparr> \<le> 0"
    and "map_of logs \<lparr>lm_round = rnd, lm_layer = layer, lm_sender = int s, lm_destination = ch, lm_step = step\<rparr> = None"
  shows "getOccurenceOf2 logs rnd layer ch n step False = 0"
proof -
  let ?f = "\<lambda>k. time_of logs \<lparr>lm_round = rnd, lm_layer = layer, lm_sender = int k, lm_destination = ch, lm_step = step\<rparr>"
  have "getOccurenceOf2 logs rnd layer ch n step False = fst (fold (take_time False) (map ?f [0..<n]) (0, True))"
    by (simp add: getOccurenceOf2_def fold_map comp_def)
  also have "\<dots> = Max (?f ` {0..<n})" using assms(1) by (simp add: take_times)
  also have "\<dots> = 0"
  proof (rule Max_eqI)
    show "0 \<in> ?f ` {0..<n}" using assms(1,3) by (auto simp: time_of_def image_iff intro!: bexI [of _ s])
  qed (use assms(2) in auto)
  finally show ?thesis .
qed

end
