(* ===== verification/Spec2Isabelle.thy ===== *)
theory Spec2Isabelle
  imports Delivery Simulation Nizk Commitments InProcess RemoteControl Latency LogHist
begin

text \<open>
  This library models Trellis, a system for metadata-private anonymous broadcast written in Go (\<^verbatim>\<open>src\<close>), and
  proves the properties its servers, clients and coordinator rely on.

  \<^bold>\<open>The program.\<close> Users send fixed-size messages through layers of servers. In \<^emph>\<open>path establishment\<close> a client
  obtains, layer by layer, a blind token from an anytrust group; the hash of the token chooses the
  server of the next layer, and every server on the path records a key of the client. Receipts travel back
  along the path, and in the last layer an anytrust group opens them together. In a \<^emph>\<open>lightning\<close> round the client
  sends an onion along its path; each server opens the layer sealed for it, checks that each key is used
  exactly once, shuffles the messages of a layer and sends them on; the last layer hands them to
  the groups, which release them when all have arrived. A coordinator generates and distributes keys, starts rounds and
  checks what comes out. Servers wait for each other with a barrier per layer.

  \<^bold>\<open>Conventions\<close> (theory Prelude). A result of a Go function with an error is a value of \<^typ>\<open>'a res\<close>: \<open>Inl (Err e)\<close> for a
  returned error, \<open>Inl (Panic p)\<close> for a panic (index out of range, nil dereference, division by zero, explicit
  panics), \<open>Inr x\<close> otherwise. A handler that may change its state before it fails returns the state next to
  the result. A call that may wait for ever returns an option with \<open>None\<close> for the call that never returns. Go maps are
  association lists (iteration in list order), nil pointers in slices are \<open>None\<close>, byte slices are lists of
  \<^typ>\<open>byte\<close>, integers keep their width where the code converts them. Cryptographic libraries are record
  arguments (\<open>lib\<close>: Ed25519, Curve25519 points and scalars, AES, SHA-2; \<open>mcl\<close>: the pairing library; \<open>curve\<close>: P-256;
  \<open>suite\<close>: a kyber group) whose documented laws are named hypotheses (\<open>lib_ok\<close>, \<open>mcl_ok\<close>, \<dots>); witnesses
  instantiate them with concrete functions. Floating point is a record argument with no laws but those of
  comparison in one theorem. Random values are arguments, or come from a reader argument. Options of the build
  are as in \<^verbatim>\<open>src/config/options.go\<close> (\<^verbatim>\<open>SkipToken\<close>, no pre-expanded keys, no dummies).

  \<^bold>\<open>Theories\<close>, the files they model and what they show.
  \<^item> Prelude: results, Go slices, little and big endian integers (\<^verbatim>\<open>errors/errors.go\<close>); Codec: the locale \<open>wire_codec\<close> of
    encodings that are concatenated in a stream, interpreted for every message format.
  \<^item> Synchronizer (\<^verbatim>\<open>network/synchronization\<close>): the barrier of a layer as operations and as a step relation: the two halves
    of \<^verbatim>\<open>SyncOnce\<close>, \<^verbatim>\<open>Done\<close>, the triggers it spawns, the trigger that \<^verbatim>\<open>RoundStart\<close> calls and \<^verbatim>\<open>Reset\<close> (the last two while no
    stream is being processed). A spawned trigger runs only when every sender was marked once and has finished, the layer changes in no other way
    than by these, and a complete layer fires, for every callback that does not panic. The relation \<open>work_step\<close> adds the work that
    the owner of the barrier does between these steps. The locales \<open>threshold_callback\<close> and \<open>worker_callback\<close> state what a layer
    callback must keep; key exchange, group members and servers interpret them.
  \<^item> Crypto, Sharing, Curve, Token, Nizk (\<^verbatim>\<open>crypto\<close>, \<^verbatim>\<open>crypto/ec\<close>, \<^verbatim>\<open>crypto/token\<close>, \<^verbatim>\<open>crypto/nizk\<close>): sealed boxes open, additive shares
    sum to the secret (locale \<open>secret_sharing\<close>, three interpretations), blind tokens verify after
    distributed signing, hashing onto the curve, proofs of discrete logarithms.
  \<^item> Messages, Wire (\<^verbatim>\<open>network/messages\<close>, \<^verbatim>\<open>server/common\<close>, \<^verbatim>\<open>server/checkpoint\<close>): formats, round trips, ranges.
  \<^item> Randomness, Buffers (\<^verbatim>\<open>config/randomness.go\<close>, \<^verbatim>\<open>network/buffers\<close>): the shuffle is a permutation; a shuffled buffer
    sends every message once; reading in chunks refines reading of the stream.
  \<^item> CommonState (\<^verbatim>\<open>server/common/commonState.go\<close>): configuration, keys and signing; servers with the same configuration accept
    each other's messages.
  \<^item> Marking, KeyTable, Checkpoint (\<^verbatim>\<open>server/processMessages\<close>, \<^verbatim>\<open>server/checkpoint\<close>): the locale \<open>mark_once\<close> of
    tables whose entries are used once; a layer or group is complete exactly when every key was used once; replays
    are rejected; the messages trustees accept are signed under different keys.
  \<^item> PathEstablishment, Lengths, Client (\<^verbatim>\<open>processMessages/pathEstablishment.go\<close>, \<^verbatim>\<open>checkpointSender.go\<close>, \<^verbatim>\<open>prepareMessages\<close>): keys are
    recorded only for authenticated messages; honest path messages are accepted at every layer; lengths computed by servers
    are those of the messages clients make; the members of a group answer the checkpoint message of a client with parts of the key they share with it, and
    the group opens the receipt. That multiplication distributes over the sum of scalars is asked only of multiples of the base point.
  \<^item> Network (\<^verbatim>\<open>network/batching.go\<close>, \<^verbatim>\<open>send_chunks.go\<close>, \<^verbatim>\<open>rpc_call.go\<close>): a batch sent over a link arrives with a valid signature; the locale
    \<open>byte_stream\<close> of reliable connections is interpreted by the in-memory channel.
  \<^item> Preparer, KeyExchange, GroupMember (\<^verbatim>\<open>prepareMessages/server.go\<close>, \<^verbatim>\<open>keyExchange\<close>, \<^verbatim>\<open>groupMember.go\<close>): one token per client and layer;
    shares of the group key; \<^verbatim>\<open>GetMessages\<close> of a group waits until its barrier has fired, and then all its keys are used.
  \<^item> Server, Rounds, Handlers, Delivery (\<^verbatim>\<open>server/server.go\<close>, \<^verbatim>\<open>handler.go\<close>, \<^verbatim>\<open>pool.go\<close>): over all interleavings of streams, client
    submissions, sending and the trigger of \<^verbatim>\<open>RoundStart\<close>, a server leaves a layer only when every key of it was used, and at the end the keys are ready
    for the next round; streams are authenticated; what a client submits is delivered to its group through all layers.
  \<^item> AnytrustGroups, Sizes (\<^verbatim>\<open>config/anytrustGroup.go\<close>, \<^verbatim>\<open>config.go\<close>): forming groups terminates with disjoint groups when they
    fit; sizes are least, tight and cheapest.
  \<^item> Coordinator, KeyDistribution, Schedule, Runner (\<^verbatim>\<open>coordinator\<close>, \<^verbatim>\<open>cmd/coordinator\<close>, \<^verbatim>\<open>client/clients.go\<close>): the shares installed at
    the servers sum to the group keys; networks that note the calls they get show what a run does: it drives all rounds in order at all
    servers with all clients, and a lightning round passes exactly when every message was delivered; coordinator and servers agree on layers and receipts; the submissions of
    recorded clients are those that were recorded, in any order of the goroutines.
  \<^item> Addresses, Connections, ConnectionSetup (\<^verbatim>\<open>network/mockconn.go\<close>, \<^verbatim>\<open>tls.go\<close>, \<^verbatim>\<open>tls_direct.go\<close>): the goroutines that accept, connect and
    greet are steps of a relation on a store of shared channels; in every interleaving they end after the same number
    of steps, without a panic, with separate connections between all servers.
  \<^item> Deployment, InProcess (\<^verbatim>\<open>config/certificates.go\<close>, \<^verbatim>\<open>coordinator/network.go\<close>, run type 3 of \<^verbatim>\<open>cmd/coordinator\<close>): configurations of
    networks; a local configuration connects and starts, with consistent keys, groups and callers; its ports
    differ for up to 32 servers, or 30 with up to 10 clients.
  \<^item> Commitments, RemoteControl (\<^verbatim>\<open>crypto/commitments\<close>, \<^verbatim>\<open>crypto/pairing/bls.go\<close>, \<^verbatim>\<open>coordinator/remote.go\<close>): hash commitments bind
    unless the hash collides, pairing signatures verify; commands for remote machines.
  \<^item> Latency, LogHist (\<^verbatim>\<open>network/profile.go\<close>, \<^verbatim>\<open>cmd/experiments\<close>): servers are sorted by measured medians; times read from logs are those
    between the first and the last event.
  \<^item> Simulation (\<^verbatim>\<open>cmd/simulation\<close>): simulated shuffles conserve messages and report sound loads.

  \<^bold>\<open>Loops.\<close> Loops over data are structural recursions. Loops that may run for ever (rejection sampling, refilling
  a group, sending until all bytes are written, loading files until one is missing) are partial functions into
  options, with theorems that they return. Goroutines appear as steps of a relation where their
  interleaving matters, and as sequences of calls with their results in order of arrival elsewhere. No fuel is used.

  \<^bold>\<open>Not modelled.\<close> The C bindings of the pairing library (\<^verbatim>\<open>crypto/pairing/mcl/mcl.go\<close>) and the kyber wrapper over them; generated protobuf
  code; TLS sockets, gRPC and the making of certificates; the start of processes; parsing of command
  lines, plots and statistics; JSON text of files; profiling, logging, time measurement and memory monitoring.
\<close>

end
